(* ===== verification/Prelude.thy ===== *)
theory Prelude
  imports Main "HOL-Library.Word" "HOL-Library.Multiset"
begin

text \<open>
  Shared vocabulary of the development: the machine-integer types the server uses, the
  little-endian layout that \<^verbatim>\<open>memcpy\<close> of an integer produces on the
  supported hosts, decimal printing (\<^verbatim>\<open>std::to_string\<close> and stream
  insertion of unsigned values), the C-locale \<^verbatim>\<open>tolower\<close> and
  \<^verbatim>\<open>toupper\<close>, the two ways the code erases an element from a vector
  (\<^verbatim>\<open>std::find\<close> with \<^verbatim>\<open>erase\<close>, and swap-with-last
  with \<^verbatim>\<open>pop_back\<close>), and the interfaces shared by several components.
\<close>

unbundle bit_operations_syntax

section \<open>Types\<close>

type_synonym byte = "8 word"
type_synonym u16 = "16 word"
type_synonym u32 = "32 word"
type_synonym u64 = "64 word"

named_theorems erase_simps \<open>facts about erasing one element of a vector\<close>
named_theorems byte_simps \<open>facts about the byte layout of integers\<close>

section \<open>Little-endian integers\<close>

lemma unat_bound: "unat (w :: 'a::len word) < 2 ^ LENGTH('a)"
  by (rule unsigned_less)

lemma unat_inject: "unat v = unat w \<longleftrightarrow> v = (w :: 'a::len word)"
  by (metis word_eq_iff_unsigned)

primrec le_bytes :: "nat \<Rightarrow> nat \<Rightarrow> byte list" where
  "le_bytes 0 v = []"
| "le_bytes (Suc n) v = of_nat (v mod 256) # le_bytes n (v div 256)"

primrec le_value :: "byte list \<Rightarrow> nat" where
  "le_value [] = 0"
| "le_value (b # bs) = unat b + 256 * le_value bs"

lemma bit_byte_out: "8 \<le> n \<Longrightarrow> bit (b :: byte) n = False"
  using bit_imp_le_length [of b n] by auto

lemma length_le_bytes [simp, byte_simps]: "length (le_bytes n v) = n"
  by (induction n arbitrary: v) simp_all

lemma unat_of_nat_byte [simp]: "unat (of_nat (v mod 256) :: byte) = v mod 256"
  by (simp add: unat_of_nat)

lemma le_bytes_append: "le_bytes (m + k) v = le_bytes m v @ le_bytes k (v div 256 ^ m)"
  by (induction m arbitrary: v) (simp_all add: div_mult2_eq)

lemma le_bytes_mod [simp]: "le_bytes n (v mod 256 ^ n) = le_bytes n v"
proof (induction n arbitrary: v)
  case 0
  then show ?case by simp
next
  case (Suc n)
  have "v mod (256 * 256 ^ n) mod 256 = v mod 256"
    by (simp add: mod_mod_cancel)
  moreover have "v mod (256 * 256 ^ n) div 256 = v div 256 mod 256 ^ n"
    by (simp add: mod_mult2_eq)
  ultimately show ?case by (simp add: Suc)
qed

lemma le_value_le_bytes [byte_simps]: "le_value (le_bytes n v) = v mod 256 ^ n"
proof (induction n arbitrary: v)
  case 0
  then show ?case by simp
next
  case (Suc n)
  have "v mod (256 * 256 ^ n) = 256 * (v div 256 mod 256 ^ n) + v mod 256"
    by (rule mod_mult2_eq)
  then show ?case by (simp add: Suc)
qed

lemma le_value_bound: "le_value bs < 256 ^ length bs"
proof (induction bs)
  case Nil
  then show ?case by simp
next
  case (Cons b bs)
  have "unat b < 256" using unat_bound [of b] by simp
  with Cons show ?case by simp
qed

lemma le_bytes_le_value [byte_simps]: "le_bytes (length bs) (le_value bs) = bs"
proof (induction bs)
  case Nil
  then show ?case by simp
next
  case (Cons b bs)
  have "unat b < 256" using unat_bound [of b] by simp
  then have "(unat b + 256 * le_value bs) mod 256 = unat b"
    and "(unat b + 256 * le_value bs) div 256 = le_value bs" by simp_all
  with Cons show ?case by simp
qed

definition enc8 :: "byte \<Rightarrow> byte list" where "enc8 v = le_bytes 1 (unat v)"
definition dec8 :: "byte list \<Rightarrow> byte" where "dec8 bs = of_nat (le_value bs)"
definition enc16 :: "u16 \<Rightarrow> byte list" where "enc16 v = le_bytes 2 (unat v)"
definition dec16 :: "byte list \<Rightarrow> u16" where "dec16 bs = of_nat (le_value bs)"
definition enc32 :: "u32 \<Rightarrow> byte list" where "enc32 v = le_bytes 4 (unat v)"
definition dec32 :: "byte list \<Rightarrow> u32" where "dec32 bs = of_nat (le_value bs)"
definition enc64 :: "u64 \<Rightarrow> byte list" where "enc64 v = le_bytes 8 (unat v)"
definition dec64 :: "byte list \<Rightarrow> u64" where "dec64 bs = of_nat (le_value bs)"

lemmas codec_defs = enc8_def dec8_def enc16_def dec16_def enc32_def dec32_def enc64_def dec64_def

text \<open>
  The contract of a trivially copyable type \<^verbatim>\<open>T\<close> under
  \<^verbatim>\<open>memcpy\<close>: a fixed number of bytes and a lossless image. The message and
  property-stream templates are proved correct once over it.
\<close>

locale memcpy_type =
  fixes enc :: "'a \<Rightarrow> byte list"
    and dec :: "byte list \<Rightarrow> 'a"
    and width :: nat
  assumes enc_length: "length (enc v) = width"
    and dec_enc: "dec (enc v) = v"
    and enc_dec: "length bs = width \<Longrightarrow> enc (dec bs) = bs"
begin

lemma enc_inject: "enc v = enc w \<longleftrightarrow> v = w"
  using dec_enc by metis

lemma dec_take: "dec (take width (enc v @ bs)) = v"
  by (simp add: enc_length dec_enc)

end

lemma unat_le_value_mod: "length bs = n \<Longrightarrow> le_value bs mod 256 ^ n = le_value bs"
  using le_value_bound [of bs] by simp

interpretation mem8: memcpy_type enc8 dec8 1
proof
  fix bs :: "byte list" assume l: "length bs = 1"
  with le_value_bound [of bs] have "unat (of_nat (le_value bs) :: byte) = le_value bs"
    by (simp add: unat_of_nat)
  with l le_bytes_le_value [of bs] show "enc8 (dec8 bs) = bs" by (simp add: codec_defs)
next
  fix v :: byte
  have "unat v < 256" using unat_bound [of v] by simp
  then show "dec8 (enc8 v) = v"
    by (simp add: codec_defs byte_simps del: One_nat_def)
qed (simp add: codec_defs)

interpretation mem16: memcpy_type enc16 dec16 2
proof
  fix bs :: "byte list" assume l: "length bs = 2"
  with le_value_bound [of bs] have "unat (of_nat (le_value bs) :: u16) = le_value bs"
    by (simp add: unat_of_nat)
  with l le_bytes_le_value [of bs] show "enc16 (dec16 bs) = bs" by (simp add: codec_defs)
next
  fix v :: u16
  have "unat v < 256 ^ 2" using unat_bound [of v] by simp
  then show "dec16 (enc16 v) = v"
    by (simp only: codec_defs le_value_le_bytes mod_less) simp
qed (simp add: codec_defs)

interpretation mem32: memcpy_type enc32 dec32 4
proof
  fix bs :: "byte list" assume l: "length bs = 4"
  with le_value_bound [of bs] have "unat (of_nat (le_value bs) :: u32) = le_value bs"
    by (simp add: unat_of_nat)
  with l le_bytes_le_value [of bs] show "enc32 (dec32 bs) = bs" by (simp add: codec_defs)
next
  fix v :: u32
  have "unat v < 256 ^ 4" using unat_bound [of v] by simp
  then show "dec32 (enc32 v) = v"
    by (simp only: codec_defs le_value_le_bytes mod_less) simp
qed (simp add: codec_defs)

interpretation mem64: memcpy_type enc64 dec64 8
proof
  fix bs :: "byte list" assume l: "length bs = 8"
  with le_value_bound [of bs] have "unat (of_nat (le_value bs) :: u64) = le_value bs"
    by (simp add: unat_of_nat)
  with l le_bytes_le_value [of bs] show "enc64 (dec64 bs) = bs" by (simp add: codec_defs)
next
  fix v :: u64
  have "unat v < 256 ^ 8" using unat_bound [of v] by simp
  then show "dec64 (enc64 v) = v"
    by (simp only: codec_defs le_value_le_bytes mod_less) simp
qed (simp add: codec_defs)

text \<open>A cast through a signed 32 bit integer.\<close>

lemma sint_small: "uint (w :: u32) < 2 ^ 31 \<Longrightarrow> sint w = uint w"
proof -
  assume "uint w < 2 ^ 31"
  then have "signed_take_bit 31 (uint w) = uint w" by (intro signed_take_bit_int_eq_self order_trans [OF _ uint_ge_0]) simp_all
  then show "sint w = uint w" by (simp add: sint_uint)
qed

lemma int32_keeps:
  assumes "(w :: u64) < 2 ^ 31"
  shows "word_of_int (max 0 (sint (ucast w :: u32))) = w"
proof -
  have u: "uint w < 2 ^ 31" using assms by (simp add: word_less_def)
  then have "uint (ucast w :: u32) = uint w" by (simp add: unsigned_ucast_eq take_bit_int_eq_self)
  then have "sint (ucast w :: u32) = uint w" using u by (simp add: sint_small)
  then show ?thesis by simp
qed

section \<open>Erasing one element of a vector\<close>

text \<open>
  \<^verbatim>\<open>std::iter_swap(it, end() - 1); pop_back()\<close>: the first occurrence is
  overwritten by the last element and the last slot is dropped. When the element found is
  the last one, only the drop remains. Absent elements leave the vector unchanged.
\<close>

definition swap_erase :: "'a \<Rightarrow> 'a list \<Rightarrow> 'a list" where
  "swap_erase x xs =
     (if x \<in> set xs
      then butlast ((takeWhile (\<lambda>y. y \<noteq> x) xs) @ last xs # tl (dropWhile (\<lambda>y. y \<noteq> x) xs))
      else xs)"

lemma swap_erase_split:
  assumes "x \<notin> set us"
  shows "swap_erase x (us @ x # vs) = (if vs = [] then us else us @ last vs # butlast vs)"
proof -
  have "takeWhile (\<lambda>y. y \<noteq> x) (us @ x # vs) = us"
    and "dropWhile (\<lambda>y. y \<noteq> x) (us @ x # vs) = x # vs"
    using assms by (induction us) auto
  then show ?thesis by (simp add: swap_erase_def butlast_append)
qed

lemma mset_swap_erase [erase_simps]: "mset (swap_erase x xs) = mset xs - {#x#}"
proof (cases "x \<in> set xs")
  case True
  then obtain us vs where s: "xs = us @ x # vs" "x \<notin> set us"
    using split_list_first by metis
  show ?thesis
  proof (cases "vs = []")
    case True
    with s show ?thesis by (simp add: swap_erase_split)
  next
    case False
    then have "mset vs = add_mset (last vs) (mset (butlast vs))"
      by (metis append_butlast_last_id mset.simps(1,2) mset_append union_mset_add_mset_right
          add.right_neutral)
    with s False show ?thesis by (simp add: swap_erase_split)
  qed
next
  case False
  then show ?thesis by (simp add: swap_erase_def diff_single_trivial)
qed

lemma set_swap_erase_distinct:
  assumes "distinct xs"
  shows "set (swap_erase x xs) = set xs - {x}" and "distinct (swap_erase x xs)"
proof -
  have m: "mset (swap_erase x xs) = mset (remove1 x xs)" by (simp add: erase_simps)
  then have "set (swap_erase x xs) = set (remove1 x xs)" by (rule mset_eq_setD)
  with assms show "set (swap_erase x xs) = set xs - {x}" by simp
  from m assms show "distinct (swap_erase x xs)"
    by (metis distinct_remove1 mset_eq_imp_distinct_iff)
qed

lemma length_swap_erase [erase_simps]:
  "length (swap_erase x xs) = length xs - (if x \<in> set xs then 1 else 0)"
proof -
  have "size (mset (swap_erase x xs)) = size (mset (remove1 x xs))" by (simp add: erase_simps)
  then have "length (swap_erase x xs) = length (remove1 x xs)" by (simp only: size_mset)
  then show ?thesis by (simp add: length_remove1)
qed

section \<open>Decimal printing\<close>

definition digit_char :: "nat \<Rightarrow> char" where
  "digit_char d = char_of (48 + d)"

fun nat_str :: "nat \<Rightarrow> string" where
  "nat_str n = (if n < 10 then [digit_char n] else nat_str (n div 10) @ [digit_char (n mod 10)])"

declare nat_str.simps [simp del]

definition char_digit :: "char \<Rightarrow> nat" where
  "char_digit c = of_char c - 48"

definition str_nat :: "string \<Rightarrow> nat" where
  "str_nat s = foldl (\<lambda>n c. 10 * n + char_digit c) 0 s"

lemma char_digit_digit_char [simp]: "d < 10 \<Longrightarrow> char_digit (digit_char d) = d"
  by (simp add: char_digit_def digit_char_def)

lemma str_nat_nat_str [simp]: "str_nat (nat_str n) = n"
proof (induction n rule: nat_str.induct)
  case (1 n)
  show ?case
  proof (cases "n < 10")
    case True
    then show ?thesis by (subst nat_str.simps) (simp add: str_nat_def)
  next
    case False
    with 1 have "str_nat (nat_str (n div 10)) = n div 10" by simp
    with False show ?thesis by (subst nat_str.simps) (simp add: str_nat_def)
  qed
qed

lemma nat_str_nonempty [simp]: "nat_str n \<noteq> []"
  by (subst nat_str.simps) simp

lemma length_nat_str: "n < 10 ^ Suc k \<Longrightarrow> length (nat_str n) \<le> Suc k"
proof (induction k arbitrary: n)
  case 0
  then show ?case by (subst nat_str.simps) simp
next
  case (Suc k)
  show ?case
  proof (cases "n < 10")
    case True
    then show ?thesis by (subst nat_str.simps) simp
  next
    case False
    from Suc.prems have "n div 10 < 10 ^ Suc k" by (simp add: less_mult_imp_div_less mult.commute)
    then have "length (nat_str (n div 10)) \<le> Suc k" by (rule Suc.IH)
    with False show ?thesis by (subst nat_str.simps) simp
  qed
qed

text \<open>\<^verbatim>\<open>std::setw(w) << std::setfill('0')\<close>.\<close>

definition pad0 :: "nat \<Rightarrow> string \<Rightarrow> string" where
  "pad0 w s = replicate (w - length s) (CHR ''0'') @ s"

lemma length_pad0: "length s \<le> w \<Longrightarrow> length (pad0 w s) = w"
  by (simp add: pad0_def)

lemma str_nat_pad0 [simp]: "str_nat (pad0 w s) = str_nat s"
proof -
  have "foldl (\<lambda>n c. 10 * n + char_digit c) 0 (replicate k (CHR ''0'')) = 0" for k
    by (induction k) (simp_all add: char_digit_def)
  then show ?thesis by (simp add: str_nat_def pad0_def)
qed

section \<open>Letter case\<close>

definition tolower :: "char \<Rightarrow> char" where
  "tolower c = (let n = of_char c :: nat in if 65 \<le> n \<and> n \<le> 90 then char_of (n + 32) else c)"

definition toupper :: "char \<Rightarrow> char" where
  "toupper c = (let n = of_char c :: nat in if 97 \<le> n \<and> n \<le> 122 then char_of (n - 32) else c)"

lemma tolower_idem [simp]: "tolower (tolower c) = tolower c"
  by (auto simp: tolower_def Let_def)

section \<open>Character data\<close>

text \<open>The bytes of a \<^verbatim>\<open>std::string\<close>, and the string that holds given bytes.\<close>

definition char_bytes :: "string \<Rightarrow> byte list" where
  "char_bytes s = map of_char s"

definition bytes_string :: "byte list \<Rightarrow> string" where
  "bytes_string bs = map (\<lambda>b. char_of (unat b)) bs"

lemma length_char_bytes [simp]: "length (char_bytes s) = length s"
  by (simp add: char_bytes_def)

lemma length_bytes_string [simp]: "length (bytes_string bs) = length bs"
  by (simp add: bytes_string_def)

lemma bytes_string_char_bytes [simp]: "bytes_string (char_bytes s) = s"
proof -
  have "char_of (unat (of_char c :: byte)) = c" for c :: char
  proof -
    have "unat (of_nat (of_char c) :: byte) = of_char c"
      using of_char_mod_256 [of c, where ?'a = nat] by (simp add: unat_of_nat del: of_nat_of_char)
    then have "unat (of_char c :: byte) = of_char c" by (simp only: of_nat_of_char)
    then show ?thesis by simp
  qed
  then show ?thesis by (simp add: bytes_string_def char_bytes_def o_def)
qed

section \<open>Bits of flag words\<close>

lemma nat_and_mask: "n AND (2 ^ k - 1) = n mod 2 ^ k" for n :: nat
  using take_bit_eq_mask [of k n] by (simp add: take_bit_eq_mod mask_eq_exp_minus_1)

definition hasBitSet :: "u32 \<Rightarrow> u32 \<Rightarrow> bool" where
  "hasBitSet flag flags \<longleftrightarrow> flags AND flag \<noteq> 0"

end
