(* ===== verification/Position.thy ===== *)
theory Position
  imports Prelude "HOL-Library.Product_Lexorder"
begin

text \<open>
  Map coordinates and compass directions: \<^verbatim>\<open>src/src/position.h\<close>,
  \<^verbatim>\<open>src/src/position.cpp\<close> and the direction helpers of
  \<^verbatim>\<open>src/src/tools.cpp\<close>. Coordinates keep their machine widths (16, 16 and 8
  bits), so stepping over the edge of the map wraps around as the code does; offsets are
  computed after integral promotion and are plain integers.
\<close>

section \<open>Directions\<close>

datatype direction =
    DIRECTION_NORTH | DIRECTION_EAST | DIRECTION_SOUTH | DIRECTION_WEST
  | DIRECTION_SOUTHWEST | DIRECTION_SOUTHEAST | DIRECTION_NORTHWEST | DIRECTION_NORTHEAST
  | DIRECTION_NONE

definition DIRECTION_DIAGONAL_MASK :: nat where "DIRECTION_DIAGONAL_MASK = 4"

fun direction_code :: "direction \<Rightarrow> nat" where
  "direction_code DIRECTION_NORTH = 0"
| "direction_code DIRECTION_EAST = 1"
| "direction_code DIRECTION_SOUTH = 2"
| "direction_code DIRECTION_WEST = 3"
| "direction_code DIRECTION_SOUTHWEST = DIRECTION_DIAGONAL_MASK OR 0"
| "direction_code DIRECTION_SOUTHEAST = DIRECTION_DIAGONAL_MASK OR 1"
| "direction_code DIRECTION_NORTHWEST = DIRECTION_DIAGONAL_MASK OR 2"
| "direction_code DIRECTION_NORTHEAST = DIRECTION_DIAGONAL_MASK OR 3"
| "direction_code DIRECTION_NONE = 8"

section \<open>Positions\<close>

datatype position = Position (pos_x: u16) (pos_y: u16) (pos_z: byte)

definition getX :: "position \<Rightarrow> int" where "getX p = uint (pos_x p)"
definition getY :: "position \<Rightarrow> int" where "getY p = uint (pos_y p)"
definition getZ :: "position \<Rightarrow> int" where "getZ p = uint (pos_z p)"

definition getOffsetX :: "position \<Rightarrow> position \<Rightarrow> int" where
  "getOffsetX p1 p2 = getX p1 - getX p2"
definition getOffsetY :: "position \<Rightarrow> position \<Rightarrow> int" where
  "getOffsetY p1 p2 = getY p1 - getY p2"
definition getOffsetZ :: "position \<Rightarrow> position \<Rightarrow> int" where
  "getOffsetZ p1 p2 = getZ p1 - getZ p2"

definition getDistanceX :: "position \<Rightarrow> position \<Rightarrow> int" where
  "getDistanceX p1 p2 = \<bar>getOffsetX p1 p2\<bar>"
definition getDistanceY :: "position \<Rightarrow> position \<Rightarrow> int" where
  "getDistanceY p1 p2 = \<bar>getOffsetY p1 p2\<bar>"
definition getDistanceZ :: "position \<Rightarrow> position \<Rightarrow> int" where
  "getDistanceZ p1 p2 = \<bar>getOffsetZ p1 p2\<bar>"

lemmas offset_defs = getX_def getY_def getZ_def getOffsetX_def getOffsetY_def getOffsetZ_def
  getDistanceX_def getDistanceY_def getDistanceZ_def

definition areInRange2 :: "int \<Rightarrow> int \<Rightarrow> position \<Rightarrow> position \<Rightarrow> bool" where
  "areInRange2 deltax deltay p1 p2 \<longleftrightarrow> getDistanceX p1 p2 \<le> deltax \<and> getDistanceY p1 p2 \<le> deltay"

definition areInRange3 :: "int \<Rightarrow> int \<Rightarrow> int \<Rightarrow> position \<Rightarrow> position \<Rightarrow> bool" where
  "areInRange3 deltax deltay deltaz p1 p2 \<longleftrightarrow>
     getDistanceX p1 p2 \<le> deltax \<and> getDistanceY p1 p2 \<le> deltay \<and> getDistanceZ p1 p2 \<le> deltaz"

text \<open>The comparison operators, as the early-return chains of the class.\<close>

definition position_less :: "position \<Rightarrow> position \<Rightarrow> bool" where
  "position_less a p =
     (if pos_z a < pos_z p then True
      else if pos_z a > pos_z p then False
      else if pos_y a < pos_y p then True
      else if pos_y a > pos_y p then False
      else if pos_x a < pos_x p then True
      else if pos_x a > pos_x p then False
      else False)"

definition position_greater :: "position \<Rightarrow> position \<Rightarrow> bool" where
  "position_greater a p = (\<not> position_less a p)"

definition position_eq :: "position \<Rightarrow> position \<Rightarrow> bool" where
  "position_eq a p \<longleftrightarrow> pos_x p = pos_x a \<and> pos_y p = pos_y a \<and> pos_z p = pos_z a"

definition position_plus :: "position \<Rightarrow> position \<Rightarrow> position" where
  "position_plus a p = Position (pos_x a + pos_x p) (pos_y a + pos_y p) (pos_z a + pos_z p)"

definition position_minus :: "position \<Rightarrow> position \<Rightarrow> position" where
  "position_minus a p = Position (pos_x a - pos_x p) (pos_y a - pos_y p) (pos_z a - pos_z p)"

text \<open>
  \<^verbatim>\<open>std::map<Position, \<dots>>\<close> orders its keys by
  \<^verbatim>\<open>operator<\<close>, so it has to be a strict linear order; it is the
  lexicographic order on (z, y, x).
\<close>

definition pos_key :: "position \<Rightarrow> byte \<times> u16 \<times> u16" where
  "pos_key p = (pos_z p, pos_y p, pos_x p)"

lemma pos_key_inject: "pos_key p = pos_key q \<longleftrightarrow> p = q"
  by (cases p; cases q) (auto simp: pos_key_def)

lemma position_less_key: "position_less p q \<longleftrightarrow> pos_key p < pos_key q"
  by (auto simp: position_less_def pos_key_def)

instantiation position :: linorder
begin

definition less_position :: "position \<Rightarrow> position \<Rightarrow> bool" where
  "less_position p q = position_less p q"

definition less_eq_position :: "position \<Rightarrow> position \<Rightarrow> bool" where
  "less_eq_position p q = (position_less p q \<or> p = q)"

instance
proof
  fix p q r :: position
  show "p < q \<longleftrightarrow> p \<le> q \<and> \<not> q \<le> p"
    unfolding less_position_def less_eq_position_def position_less_key by auto
  show "p \<le> p" unfolding less_eq_position_def by simp
  show "p \<le> q \<Longrightarrow> q \<le> r \<Longrightarrow> p \<le> r"
    unfolding less_eq_position_def position_less_key by auto
  show "p \<le> q \<Longrightarrow> q \<le> p \<Longrightarrow> p = q"
    unfolding less_eq_position_def position_less_key by auto
  show "p \<le> q \<or> q \<le> p"
    unfolding less_eq_position_def position_less_key using pos_key_inject [of p q]
    by (metis linorder_less_linear)
qed

end

section \<open>Printing\<close>

definition show_position :: "position \<Rightarrow> string" where
  "show_position pos =
     ''( '' @ pad0 5 (nat_str (unat (pos_x pos))) @
     '' / '' @ pad0 5 (nat_str (unat (pos_y pos))) @
     '' / '' @ pad0 3 (nat_str (unat (pos_z pos))) @ '' )''"

fun show_direction :: "direction \<Rightarrow> string" where
  "show_direction DIRECTION_NORTH = ''North''"
| "show_direction DIRECTION_EAST = ''East''"
| "show_direction DIRECTION_WEST = ''West''"
| "show_direction DIRECTION_SOUTH = ''South''"
| "show_direction DIRECTION_SOUTHWEST = ''South-West''"
| "show_direction DIRECTION_SOUTHEAST = ''South-East''"
| "show_direction DIRECTION_NORTHWEST = ''North-West''"
| "show_direction DIRECTION_NORTHEAST = ''North-East''"
| "show_direction DIRECTION_NONE = ''''"

section \<open>Direction helpers\<close>

definition getDirection :: "string \<Rightarrow> direction" where
  "getDirection s =
     (if s = ''north'' \<or> s = ''n'' \<or> s = ''0'' then DIRECTION_NORTH
      else if s = ''east'' \<or> s = ''e'' \<or> s = ''1'' then DIRECTION_EAST
      else if s = ''south'' \<or> s = ''s'' \<or> s = ''2'' then DIRECTION_SOUTH
      else if s = ''west'' \<or> s = ''w'' \<or> s = ''3'' then DIRECTION_WEST
      else if s = ''southwest'' \<or> s = ''south west'' \<or> s = ''south-west'' \<or> s = ''sw'' \<or> s = ''4''
        then DIRECTION_SOUTHWEST
      else if s = ''southeast'' \<or> s = ''south east'' \<or> s = ''south-east'' \<or> s = ''se'' \<or> s = ''5''
        then DIRECTION_SOUTHEAST
      else if s = ''northwest'' \<or> s = ''north west'' \<or> s = ''north-west'' \<or> s = ''nw'' \<or> s = ''6''
        then DIRECTION_NORTHWEST
      else if s = ''northeast'' \<or> s = ''north east'' \<or> s = ''north-east'' \<or> s = ''ne'' \<or> s = ''7''
        then DIRECTION_NORTHEAST
      else DIRECTION_NORTH)"

fun getNextPosition :: "direction \<Rightarrow> position \<Rightarrow> position" where
  "getNextPosition DIRECTION_NORTH (Position x y z) = Position x (y - 1) z"
| "getNextPosition DIRECTION_SOUTH (Position x y z) = Position x (y + 1) z"
| "getNextPosition DIRECTION_WEST (Position x y z) = Position (x - 1) y z"
| "getNextPosition DIRECTION_EAST (Position x y z) = Position (x + 1) y z"
| "getNextPosition DIRECTION_SOUTHWEST (Position x y z) = Position (x - 1) (y + 1) z"
| "getNextPosition DIRECTION_NORTHWEST (Position x y z) = Position (x - 1) (y - 1) z"
| "getNextPosition DIRECTION_NORTHEAST (Position x y z) = Position (x + 1) (y - 1) z"
| "getNextPosition DIRECTION_SOUTHEAST (Position x y z) = Position (x + 1) (y + 1) z"
| "getNextPosition DIRECTION_NONE (Position x y z) = Position x y z"

definition getDirectionTo :: "position \<Rightarrow> position \<Rightarrow> direction" where
  "getDirectionTo from to =
     (let x_off = getOffsetX from to;
          dir = (if x_off < 0 then DIRECTION_EAST else DIRECTION_WEST);
          x_offset = (if x_off < 0 then \<bar>x_off\<bar> else x_off);
          y_off = getOffsetY from to
      in if y_off \<ge> 0 then
           (if y_off > x_offset then DIRECTION_NORTH
            else if y_off = x_offset then
              (if dir = DIRECTION_EAST then DIRECTION_NORTHEAST else DIRECTION_NORTHWEST)
            else dir)
         else
           (let y_offset = \<bar>y_off\<bar>
            in if y_offset > x_offset then DIRECTION_SOUTH
               else if y_offset = x_offset then
                 (if dir = DIRECTION_EAST then DIRECTION_SOUTHEAST else DIRECTION_SOUTHWEST)
               else dir))"

section \<open>Lemmas\<close>

fun opposite :: "direction \<Rightarrow> direction" where
  "opposite DIRECTION_NORTH = DIRECTION_SOUTH"
| "opposite DIRECTION_SOUTH = DIRECTION_NORTH"
| "opposite DIRECTION_WEST = DIRECTION_EAST"
| "opposite DIRECTION_EAST = DIRECTION_WEST"
| "opposite DIRECTION_SOUTHWEST = DIRECTION_NORTHEAST"
| "opposite DIRECTION_NORTHEAST = DIRECTION_SOUTHWEST"
| "opposite DIRECTION_NORTHWEST = DIRECTION_SOUTHEAST"
| "opposite DIRECTION_SOUTHEAST = DIRECTION_NORTHWEST"
| "opposite DIRECTION_NONE = DIRECTION_NONE"

text \<open>The unit offset of a direction: x grows to the east, y to the south.\<close>

fun dir_dx :: "direction \<Rightarrow> int" where
  "dir_dx DIRECTION_WEST = -1" | "dir_dx DIRECTION_SOUTHWEST = -1" | "dir_dx DIRECTION_NORTHWEST = -1"
| "dir_dx DIRECTION_EAST = 1" | "dir_dx DIRECTION_SOUTHEAST = 1" | "dir_dx DIRECTION_NORTHEAST = 1"
| "dir_dx _ = 0"

fun dir_dy :: "direction \<Rightarrow> int" where
  "dir_dy DIRECTION_NORTH = -1" | "dir_dy DIRECTION_NORTHWEST = -1" | "dir_dy DIRECTION_NORTHEAST = -1"
| "dir_dy DIRECTION_SOUTH = 1" | "dir_dy DIRECTION_SOUTHWEST = 1" | "dir_dy DIRECTION_SOUTHEAST = 1"
| "dir_dy _ = 0"

lemma getNextPosition_word:
  "getNextPosition d (Position x y z) =
     Position (x + of_int (dir_dx d)) (y + of_int (dir_dy d)) z"
  by (cases d) simp_all

lemma getNextPosition_opposite [simp]: "getNextPosition (opposite d) (getNextPosition d p) = p"
  by (cases p; cases d) simp_all

lemma dir_dx_range: "dir_dx d \<in> {-1, 0, 1}" and dir_dy_range: "dir_dy d \<in> {-1, 0, 1}"
  by (cases d; simp)+

lemma uint_add_in_range:
  fixes w :: "'a::len word"
  assumes "0 \<le> uint w + k" and "uint w + k < 2 ^ LENGTH('a)"
  shows "uint (w + of_int k) = uint w + k"
proof -
  have "uint (w + of_int k) = (uint w + k) mod 2 ^ LENGTH('a)"
    by (simp add: uint_word_ariths uint_word_of_int mod_simps)
  with assms show ?thesis by simp
qed

text \<open>No step in direction \<open>d\<close> leaves the 16-bit coordinate plane.\<close>

definition step_inside :: "direction \<Rightarrow> position \<Rightarrow> bool" where
  "step_inside d p \<longleftrightarrow> 0 \<le> getX p + dir_dx d \<and> getX p + dir_dx d < 2 ^ 16
     \<and> 0 \<le> getY p + dir_dy d \<and> getY p + dir_dy d < 2 ^ 16"

lemma getNextPosition_offsets:
  assumes "step_inside d p"
  shows "getX (getNextPosition d p) = getX p + dir_dx d"
    and "getY (getNextPosition d p) = getY p + dir_dy d"
    and "getZ (getNextPosition d p) = getZ p"
  using assms
  by (cases p; simp add: getNextPosition_word step_inside_def getX_def getY_def getZ_def uint_add_in_range)+

text \<open>The sector test of \<^verbatim>\<open>getDirectionTo\<close>, on the two offsets alone.\<close>

definition dir_of_offset :: "int \<Rightarrow> int \<Rightarrow> direction" where
  "dir_of_offset dx dy =
     (if \<bar>dy\<bar> > \<bar>dx\<bar> then (if dy < 0 then DIRECTION_NORTH else DIRECTION_SOUTH)
      else if \<bar>dy\<bar> = \<bar>dx\<bar> then
        (if dx > 0 then (if dy \<le> 0 then DIRECTION_NORTHEAST else DIRECTION_SOUTHEAST)
         else (if dy \<le> 0 then DIRECTION_NORTHWEST else DIRECTION_SOUTHWEST))
      else (if dx > 0 then DIRECTION_EAST else DIRECTION_WEST))"

lemma getDirectionTo_offset:
  "getDirectionTo from to = dir_of_offset (getX to - getX from) (getY to - getY from)"
  by (auto simp: getDirectionTo_def dir_of_offset_def Let_def getOffsetX_def getOffsetY_def)

lemma dir_of_unit_offset: "d \<noteq> DIRECTION_NONE \<Longrightarrow> dir_of_offset (dir_dx d) (dir_dy d) = d"
  by (cases d) (simp_all add: dir_of_offset_def)

lemma length_nat_str_u16: "length (nat_str (unat (w :: u16))) \<le> 5"
  using unat_bound [of w] length_nat_str [of "unat w" 4] by simp

lemma length_nat_str_byte: "length (nat_str (unat (w :: byte))) \<le> 3"
  using unat_bound [of w] length_nat_str [of "unat w" 2] by simp

lemma length_show_position: "length (show_position p) = 23"
proof -
  have "length (nat_str (unat (pos_x p))) \<le> 5" "length (nat_str (unat (pos_y p))) \<le> 5"
    "length (nat_str (unat (pos_z p))) \<le> 3"
    using length_nat_str_u16 length_nat_str_byte by simp_all
  then show ?thesis by (simp add: show_position_def length_pad0)
qed

lemma show_position_fields:
  "take 5 (drop 2 (show_position p)) = pad0 5 (nat_str (unat (pos_x p)))"
  "take 5 (drop 10 (show_position p)) = pad0 5 (nat_str (unat (pos_y p)))"
  "take 3 (drop 18 (show_position p)) = pad0 3 (nat_str (unat (pos_z p)))"
proof -
  have l: "length (pad0 5 (nat_str (unat (pos_x p)))) = 5"
    "length (pad0 5 (nat_str (unat (pos_y p)))) = 5"
    "length (pad0 3 (nat_str (unat (pos_z p)))) = 3"
    by (simp_all add: length_pad0 length_nat_str_u16 length_nat_str_byte)
  show "take 5 (drop 2 (show_position p)) = pad0 5 (nat_str (unat (pos_x p)))"
    "take 5 (drop 10 (show_position p)) = pad0 5 (nat_str (unat (pos_y p)))"
    "take 3 (drop 18 (show_position p)) = pad0 3 (nat_str (unat (pos_z p)))"
    by (simp_all add: show_position_def l)
qed

section \<open>Properties\<close>

text \<open>
  A step in any of the eight directions that stays on the 16-bit plane is
  recognised by \<^verbatim>\<open>getDirectionTo\<close>: asking for the direction from the old tile to
  the new one gives the direction walked, and the two tiles are neighbours on the same floor.
\<close>

theorem getDirectionTo_getNextPosition:
  assumes "d \<noteq> DIRECTION_NONE" and "step_inside d p"
  shows "getDirectionTo p (getNextPosition d p) = d
    \<and> areInRange3 1 1 0 p (getNextPosition d p) \<and> getNextPosition d p \<noteq> p"
proof -
  have n: "getX (getNextPosition d p) = getX p + dir_dx d"
    "getY (getNextPosition d p) = getY p + dir_dy d" "getZ (getNextPosition d p) = getZ p"
    using getNextPosition_offsets [OF assms(2)] .
  have "getDirectionTo p (getNextPosition d p) = d"
    using assms(1) by (simp add: getDirectionTo_offset n dir_of_unit_offset)
  moreover have "areInRange3 1 1 0 p (getNextPosition d p)"
    using dir_dx_range [of d] dir_dy_range [of d]
    by (auto simp: areInRange3_def getDistanceX_def getDistanceY_def getDistanceZ_def
        getOffsetX_def getOffsetY_def getOffsetZ_def n)
  moreover have "getNextPosition d p \<noteq> p"
  proof
    assume "getNextPosition d p = p"
    with n have "dir_dx d = 0" "dir_dy d = 0" by simp_all
    with assms(1) show False by (cases d) simp_all
  qed
  ultimately show ?thesis by blast
qed

theorem getDirectionTo_getNextPosition_witness:
  "getDirectionTo (Position 100 200 7) (getNextPosition DIRECTION_SOUTHWEST (Position 100 200 7))
     = DIRECTION_SOUTHWEST"
  using getDirectionTo_getNextPosition [of DIRECTION_SOUTHWEST "Position 100 200 7"]
  by (simp add: step_inside_def getX_def getY_def)

text \<open>
  The log format of a position has a fixed width of 23 characters, and
  distinct positions print differently.
\<close>

theorem show_position_injective:
  "length (show_position p) = 23 \<and> (show_position p = show_position q \<longleftrightarrow> p = q)"
proof -
  have "p = q" if e: "show_position p = show_position q"
  proof -
    have "pad0 5 (nat_str (unat (pos_x p))) = pad0 5 (nat_str (unat (pos_x q)))"
      "pad0 5 (nat_str (unat (pos_y p))) = pad0 5 (nat_str (unat (pos_y q)))"
      "pad0 3 (nat_str (unat (pos_z p))) = pad0 3 (nat_str (unat (pos_z q)))"
      using show_position_fields [of p] show_position_fields [of q] e by metis+
    then have "unat (pos_x p) = unat (pos_x q)" "unat (pos_y p) = unat (pos_y q)"
      "unat (pos_z p) = unat (pos_z q)"
      by (metis str_nat_nat_str str_nat_pad0)+
    then show ?thesis by (cases p; cases q) (simp add: unat_inject)
  qed
  then show ?thesis using length_show_position by blast
qed

text \<open>
  The name that the log prints for a direction, folded to lower case, is
  one that \<^verbatim>\<open>getDirection\<close> reads back as the same direction.
\<close>

theorem getDirection_show_direction:
  assumes "d \<noteq> DIRECTION_NONE"
  shows "getDirection (map tolower (show_direction d)) = d"
  using assms by (cases d; simp; code_simp)

theorem getDirection_show_direction_witness:
  "getDirection (map tolower (show_direction DIRECTION_NORTHWEST)) = DIRECTION_NORTHWEST"
  using getDirection_show_direction [of DIRECTION_NORTHWEST] by simp

text \<open>
  \<^verbatim>\<open>operator<\<close> is the strict lexicographic order on
  (z, y, x), hence usable as a map key, whereas \<^verbatim>\<open>operator>\<close> is not its
  converse: it also holds between equal positions.
\<close>

theorem position_comparison:
  "(position_less p q \<longleftrightarrow> (pos_z p, pos_y p, pos_x p) < (pos_z q, pos_y q, pos_x q))
   \<and> (position_greater p q \<longleftrightarrow> position_less q p \<or> position_eq p q)"
proof -
  have "position_eq p q \<longleftrightarrow> p = q" by (cases p; cases q) (auto simp: position_eq_def)
  moreover have "\<not> position_less p q \<longleftrightarrow> position_less q p \<or> p = q"
    using pos_key_inject [of p q] unfolding position_less_key by auto
  ultimately show ?thesis
    using position_less_key [of p q] by (simp add: position_greater_def pos_key_def)
qed

end
