(* ===== verification/Checksum.thy ===== *)
theory Checksum
  imports Prelude
begin

text \<open>
  The packet checksum \<^verbatim>\<open>adlerChecksum\<close> of \<^verbatim>\<open>src/src/tools.cpp\<close>.
  The code keeps two 32-bit sums and postpones the reduction modulo 65521 for up to 5552
  bytes; the property shows that no sum overflows meanwhile and that the result is the
  Adler-32 of the data.
\<close>

section \<open>Model\<close>

definition NETWORKMESSAGE_MAXSIZE :: nat where "NETWORKMESSAGE_MAXSIZE = 65535"

definition adler :: u32 where "adler = 65521"

text \<open>The inner \<^verbatim>\<open>do ... while (--tmp)\<close> over one chunk.\<close>

fun adler_chunk :: "byte list \<Rightarrow> u32 \<times> u32 \<Rightarrow> u32 \<times> u32" where
  "adler_chunk [] (a, b) = (a, b)"
| "adler_chunk (d # ds) (a, b) = (let a' = a + ucast d in adler_chunk ds (a', b + a'))"

text \<open>The outer loop; the list is the data still to be read.\<close>

function adler_loop :: "byte list \<Rightarrow> u32 \<times> u32 \<Rightarrow> u32 \<times> u32" where
  "adler_loop data (a, b) =
     (if length data > 0
      then (let tmp = (if length data > 5552 then 5552 else length data);
                (a', b') = adler_chunk (take tmp data) (a, b)
            in adler_loop (drop tmp data) (a' mod adler, b' mod adler))
      else (a, b))"
  by pat_completeness auto
termination
  by (relation "measure (\<lambda>(data, _). length data)") auto

declare adler_loop.simps [simp del]

definition adlerChecksum :: "byte list \<Rightarrow> u32" where
  "adlerChecksum data =
     (if length data > NETWORKMESSAGE_MAXSIZE then 0
      else (let (a, b) = adler_loop data (1, 0) in push_bit 16 b OR a))"

section \<open>Reference: Adler-32 with a reduction after every byte\<close>

fun adler32_sums :: "byte list \<Rightarrow> nat \<times> nat \<Rightarrow> nat \<times> nat" where
  "adler32_sums [] (a, b) = (a, b)"
| "adler32_sums (d # ds) (a, b) =
     (let a' = (a + unat d) mod 65521 in adler32_sums ds (a', (b + a') mod 65521))"

definition adler32 :: "byte list \<Rightarrow> nat" where
  "adler32 data = (let (a, b) = adler32_sums data (1, 0) in b * 2 ^ 16 + a)"

section \<open>Lemmas\<close>

text \<open>The unreduced sums over unbounded integers, and how large they can get.\<close>

fun raw_sums :: "byte list \<Rightarrow> nat \<times> nat \<Rightarrow> nat \<times> nat" where
  "raw_sums [] (a, b) = (a, b)"
| "raw_sums (d # ds) (a, b) = raw_sums ds (a + unat d, b + (a + unat d))"

lemma byte_le_255: "unat (d :: byte) \<le> 255"
  using unat_bound [of d] by simp

lemma raw_sums_bound:
  "raw_sums ds (a, b) = (a', b') \<Longrightarrow>
     a' \<le> a + 255 * length ds
     \<and> b' \<le> b + length ds * a + 255 * (length ds * (length ds + 1) div 2)"
proof (induction ds arbitrary: a b)
  case Nil
  then show ?case by simp
next
  case (Cons d ds)
  let ?n = "length ds"
  have h: "a' \<le> a + unat d + 255 * ?n
    \<and> b' \<le> b + (a + unat d) + ?n * (a + unat d) + 255 * (?n * (?n + 1) div 2)"
    using Cons.IH Cons.prems by simp
  have p: "?n * unat d \<le> ?n * 255" using byte_le_255 by (rule mult_le_mono2)
  have t: "(?n + 1) * (?n + 2) div 2 = ?n * (?n + 1) div 2 + (?n + 1)"
  proof -
    have "(?n + 1) * (?n + 2) = ?n * (?n + 1) + 2 * (?n + 1)" by (simp add: algebra_simps)
    then show ?thesis by simp
  qed
  have e: "?n * (a + unat d) = ?n * a + ?n * unat d" by (rule distrib_left)
  have "b' \<le> b + (?n * a + a) + 255 * (?n * (?n + 1) div 2 + (?n + 1))"
  proof -
    have sum_le: "x \<le> b + (a + u) + (N + P) + 255 * T \<Longrightarrow> P \<le> 255 * n \<Longrightarrow> u \<le> 255 \<Longrightarrow>
      x \<le> b + (N + a) + 255 * (T + (n + 1))" for x u n N P T :: nat
      by simp
    define N P T where defs: "N = ?n * a" "P = ?n * unat d" "T = ?n * (?n + 1) div 2"
    have "b' \<le> b + (a + unat d) + (N + P) + 255 * T" "P \<le> 255 * ?n"
      using h p unfolding e defs by (simp_all add: mult.commute)
    then show ?thesis using byte_le_255 [of d] unfolding defs(1,3) [symmetric] by (rule sum_le)
  qed
  then have "b' \<le> b + (?n + 1) * a + 255 * ((?n + 1) * (?n + 2) div 2)"
    unfolding t by (simp add: distrib_right)
  moreover have "a' \<le> a + 255 * (?n + 1)" using conjunct1 [OF h] byte_le_255 [of d] by simp
  ultimately show ?case by simp
qed

lemma raw_sums_mono: "raw_sums ds (a, b) = (a', b') \<Longrightarrow> a \<le> a' \<and> b \<le> b'"
  by (induction ds arbitrary: a b) fastforce+

lemma adler_chunk_raw:
  assumes "raw_sums ds (unat a, unat b) = (a', b')" and "a' < 2 ^ 32" and "b' < 2 ^ 32"
  shows "adler_chunk ds (a, b) = (of_nat a', of_nat b')"
  using assms
proof (induction ds arbitrary: a b)
  case Nil
  then show ?case by auto
next
  case (Cons d ds)
  let ?a = "unat a + unat d" and ?b = "unat b + (unat a + unat d)"
  have r: "raw_sums ds (?a, ?b) = (a', b')" using Cons.prems(1) by simp
  from raw_sums_mono [OF r] Cons.prems have l: "?a < 2 ^ 32" "?b < 2 ^ 32" by linarith+
  have u: "unat (ucast d :: u32) = unat d"
    using byte_le_255 [of d] by (simp add: unsigned_ucast_eq take_bit_nat_eq_self)
  have a: "unat (a + ucast d) = ?a"
    using l(1) by (simp add: unat_word_ariths u)
  have b: "unat (b + (a + ucast d)) = ?b"
    using l(2) by (simp add: unat_word_ariths(1) [of b] a)
  show ?case using Cons.IH [of "a + ucast d" "b + (a + ucast d)"] r a b Cons.prems(2,3)
    by (simp add: Let_def)
qed

lemma adler32_sums_raw:
  assumes "raw_sums ds (a, b) = (a', b')"
  shows "adler32_sums ds (a mod 65521, b mod 65521) = (a' mod 65521, b' mod 65521)"
  using assms
proof (induction ds arbitrary: a b)
  case Nil
  then show ?case by simp
next
  case (Cons d ds)
  have "adler32_sums ds ((a + unat d) mod 65521, (b + (a + unat d)) mod 65521)
    = (a' mod 65521, b' mod 65521)"
    using Cons by simp
  then show ?case by (simp add: Let_def mod_simps)
qed

lemma adler32_sums_append:
  "adler32_sums (xs @ ys) p = adler32_sums ys (adler32_sums xs p)"
proof (induction xs arbitrary: p)
  case Nil
  then show ?case by (cases p) simp
next
  case (Cons x xs)
  then show ?case by (cases p) (simp add: Let_def)
qed

lemma adler_chunk_reduce:
  assumes "length ds \<le> 5552" and "unat a < 65521" and "unat b < 65521"
    and "adler_chunk ds (a, b) = (a', b')"
  shows "adler32_sums ds (unat a, unat b) = (unat (a' mod adler), unat (b' mod adler))"
    and "unat (a' mod adler) < 65521" and "unat (b' mod adler) < 65521"
proof -
  obtain ra rb where r: "raw_sums ds (unat a, unat b) = (ra, rb)" by fastforce
  let ?n = "length ds"
  have n: "?n * unat a \<le> 5552 * 65520" using assms(1,2) by (intro mult_le_mono) auto
  have "?n * (?n + 1) \<le> 5552 * 5553" using assms(1) by (intro mult_le_mono) auto
  then have t: "?n * (?n + 1) div 2 \<le> 5552 * 5553 div 2" by (rule div_le_mono)
  have "ra < 2 ^ 32" "rb < 2 ^ 32"
    using raw_sums_bound [OF r] n t assms(1-3) by simp_all
  then have c: "a' = of_nat ra" "b' = of_nat rb" and u: "unat a' = ra" "unat b' = rb"
    using adler_chunk_raw [OF r] assms(4) by (simp_all add: unat_of_nat)
  have m: "unat (a' mod adler) = ra mod 65521" "unat (b' mod adler) = rb mod 65521"
    by (simp_all add: unat_mod_distrib u adler_def)
  then show "adler32_sums ds (unat a, unat b) = (unat (a' mod adler), unat (b' mod adler))"
    using adler32_sums_raw [OF r] assms(2,3) by simp
  show "unat (a' mod adler) < 65521" "unat (b' mod adler) < 65521" using m by simp_all
qed

lemma adler_loop_reference:
  assumes "unat a < 65521" and "unat b < 65521" and "adler_loop data (a, b) = (a', b')"
  shows "adler32_sums data (unat a, unat b) = (unat a', unat b') \<and> unat a' < 65521 \<and> unat b' < 65521"
  using assms
proof (induction "length data" arbitrary: data a b rule: less_induct)
  case less
  show ?case
  proof (cases "length data > 0")
    case False
    with less.prems show ?thesis by (simp add: adler_loop.simps)
  next
    case True
    define tmp where "tmp = (if length data > 5552 then 5552 else length data)"
    obtain ca cb where c: "adler_chunk (take tmp data) (a, b) = (ca, cb)" by fastforce
    have l: "length (take tmp data) \<le> 5552" "length (drop tmp data) < length data"
      using True by (auto simp: tmp_def)
    note k = adler_chunk_reduce [OF l(1) less.prems(1,2) c]
    have "adler_loop (drop tmp data) (ca mod adler, cb mod adler) = (a', b')"
      using less.prems(3) True c unfolding tmp_def
      by (subst (asm) adler_loop.simps) (simp add: Let_def)
    from less.hyps [OF l(2) k(2,3) this] show ?thesis
      using adler32_sums_append [of "take tmp data" "drop tmp data"] k(1) by simp
  qed
qed

lemma unat_pack16:
  assumes "unat (a :: u32) < 2 ^ 16" and "unat b < 2 ^ 16"
  shows "unat (push_bit 16 b OR a) = unat b * 2 ^ 16 + unat a"
proof -
  have a: "take_bit 16 a = a"
    using assms(1) by (simp add: unat_inject [symmetric] unsigned_take_bit_eq take_bit_nat_eq_self)
  have "bit (push_bit 16 b AND a) n = False" for n
    using a by (metis bit_and_iff bit_push_bit_iff bit_take_bit_iff linorder_not_le)
  then have "push_bit 16 b AND a = 0" by (intro bit_word_eqI) simp
  then have "push_bit 16 b OR a = push_bit 16 b + a"
    by (simp add: disjunctive_add_eq_or)
  moreover have "unat (push_bit 16 b) = unat b * 2 ^ 16"
    using assms(2) by (simp add: push_bit_eq_mult unat_word_ariths)
  ultimately show ?thesis using assms by (simp add: unat_word_ariths)
qed

section \<open>Properties\<close>

text \<open>
  For every buffer that fits a network message the postponed reductions lose nothing:
  \<^verbatim>\<open>adlerChecksum\<close> is the Adler-32 of the data, computed with a reduction after each
  byte. Longer buffers get the value 0.
\<close>

theorem adlerChecksum_correct:
  "unat (adlerChecksum data) =
     (if length data \<le> NETWORKMESSAGE_MAXSIZE then adler32 data else 0)"
proof (cases "length data \<le> NETWORKMESSAGE_MAXSIZE")
  case True
  obtain a b where l: "adler_loop data (1, 0) = (a, b)" by fastforce
  have "unat (1 :: u32) < 65521" "unat (0 :: u32) < 65521" by simp_all
  from adler_loop_reference [OF this l] have
    r: "adler32_sums data (1, 0) = (unat a, unat b)" "unat a < 2 ^ 16" "unat b < 2 ^ 16"
    by simp_all
  with True l unat_pack16 [OF r(2,3)] show ?thesis
    by (simp add: adlerChecksum_def adler32_def)
next
  case False
  then show ?thesis by (simp add: adlerChecksum_def)
qed

end
