(* ===== verification/Network_Message.thy ===== *)
theory Network_Message
  imports Position Checksum
begin

text \<open>
  The message buffer of the network protocols: \<^verbatim>\<open>src/src/networkmessage.h\<close>
  and \<^verbatim>\<open>src/src/networkmessage.cpp\<close>. The 16-bit fields are natural numbers
  and every assignment to them is reduced modulo 65536; the buffer is the list of its 65535
  bytes. Reading and writing of an integer type is stated for any type with the
  \<^verbatim>\<open>memcpy\<close> contract of the prelude and holds for the four widths by
  interpretation.
\<close>

section \<open>Model\<close>

definition INITIAL_BUFFER_POSITION :: nat where "INITIAL_BUFFER_POSITION = 8"
definition HEADER_LENGTH :: nat where "HEADER_LENGTH = 2"
definition CHECKSUM_LENGTH :: nat where "CHECKSUM_LENGTH = 4"
definition XTEA_MULTIPLE :: nat where "XTEA_MULTIPLE = 8"
definition MAX_BODY_LENGTH :: nat where
  "MAX_BODY_LENGTH = NETWORKMESSAGE_MAXSIZE - HEADER_LENGTH - CHECKSUM_LENGTH - XTEA_MULTIPLE"
definition MAX_PROTOCOL_BODY_LENGTH :: nat where
  "MAX_PROTOCOL_BODY_LENGTH = MAX_BODY_LENGTH - 10"

lemmas message_consts = INITIAL_BUFFER_POSITION_def HEADER_LENGTH_def CHECKSUM_LENGTH_def
  XTEA_MULTIPLE_def MAX_BODY_LENGTH_def MAX_PROTOCOL_BODY_LENGTH_def NETWORKMESSAGE_MAXSIZE_def

text \<open>\<^verbatim>\<open>NetworkMessageInfo\<close> and the buffer.\<close>

record net_msg =
  msg_len :: nat
  msg_pos :: nat
  msg_overrun :: bool
  msg_buffer :: "byte list"

definition wrap16 :: "nat \<Rightarrow> nat" where "wrap16 n = n mod 65536"

text \<open>\<^verbatim>\<open>memcpy(buffer + pos, bytes, n)\<close> inside the buffer.\<close>

definition poke :: "nat \<Rightarrow> byte list \<Rightarrow> byte list \<Rightarrow> byte list" where
  "poke pos bs buffer = take pos buffer @ bs @ drop (pos + length bs) buffer"

definition peek :: "nat \<Rightarrow> nat \<Rightarrow> byte list \<Rightarrow> byte list" where
  "peek pos n buffer = take n (drop pos buffer)"

text \<open>A message over an uninitialised buffer.\<close>

definition new_msg :: "byte list \<Rightarrow> net_msg" where
  "new_msg junk = \<lparr>msg_len = 0, msg_pos = INITIAL_BUFFER_POSITION, msg_overrun = False, msg_buffer = junk\<rparr>"

definition msg_reset :: "net_msg \<Rightarrow> net_msg" where
  "msg_reset m = m\<lparr>msg_len := 0, msg_pos := INITIAL_BUFFER_POSITION, msg_overrun := False\<rparr>"

definition canAdd :: "nat \<Rightarrow> net_msg \<Rightarrow> bool" where
  "canAdd n m \<longleftrightarrow> n + msg_pos m < MAX_BODY_LENGTH"

definition canRead :: "nat \<Rightarrow> net_msg \<Rightarrow> bool \<times> net_msg" where
  "canRead n m =
     (if msg_pos m + n > msg_len m + 8 \<or> int n \<ge> int NETWORKMESSAGE_MAXSIZE - int (msg_pos m)
      then (False, m\<lparr>msg_overrun := True\<rparr>)
      else (True, m))"

definition getByte :: "net_msg \<Rightarrow> byte \<times> net_msg" where
  "getByte m =
     (let (ok, m) = canRead 1 m in
      if \<not> ok then (0, m)
      else (msg_buffer m ! msg_pos m, m\<lparr>msg_pos := wrap16 (msg_pos m + 1)\<rparr>))"

text \<open>
  \<^verbatim>\<open>return buffer[--info.position]\<close>; the index wraps below 0 and
  65535 is past the end of the buffer, which is the value \<open>None\<close>.
\<close>

definition getPreviousByte :: "net_msg \<Rightarrow> (byte \<times> net_msg) option" where
  "getPreviousByte m =
     (let p = (msg_pos m + 65535) mod 65536 in
      if p < length (msg_buffer m) then Some (msg_buffer m ! p, m\<lparr>msg_pos := p\<rparr>) else None)"

text \<open>The templates \<^verbatim>\<open>get<T>\<close> and \<^verbatim>\<open>add<T>\<close>.\<close>

definition msg_get :: "(byte list \<Rightarrow> 'a::zero) \<Rightarrow> nat \<Rightarrow> net_msg \<Rightarrow> 'a \<times> net_msg" where
  "msg_get dec width m =
     (let (ok, m) = canRead width m in
      if \<not> ok then (0, m)
      else (dec (peek (msg_pos m) width (msg_buffer m)),
            m\<lparr>msg_pos := wrap16 (msg_pos m + width)\<rparr>))"

definition msg_put :: "byte list \<Rightarrow> net_msg \<Rightarrow> net_msg" where
  "msg_put bs m =
     m\<lparr>msg_buffer := poke (msg_pos m) bs (msg_buffer m),
       msg_pos := wrap16 (msg_pos m + length bs),
       msg_len := wrap16 (msg_len m + length bs)\<rparr>"

definition msg_add :: "('a \<Rightarrow> byte list) \<Rightarrow> nat \<Rightarrow> 'a \<Rightarrow> net_msg \<Rightarrow> net_msg" where
  "msg_add enc width v m = (if \<not> canAdd width m then m else msg_put (enc v) m)"

definition addByte :: "byte \<Rightarrow> net_msg \<Rightarrow> net_msg" where
  "addByte v m = (if \<not> canAdd 1 m then m else msg_put [v] m)"

definition addBytes :: "byte list \<Rightarrow> net_msg \<Rightarrow> net_msg" where
  "addBytes bs m = (if \<not> canAdd (length bs) m then m else msg_put bs m)"

text \<open>The padding moves the length but not the position.\<close>

definition addPaddingBytes :: "nat \<Rightarrow> net_msg \<Rightarrow> net_msg" where
  "addPaddingBytes n m =
     (if \<not> canAdd n m then m
      else m\<lparr>msg_buffer := poke (msg_pos m) (replicate n 0x33) (msg_buffer m),
             msg_len := wrap16 (msg_len m + n)\<rparr>)"

definition getString :: "nat \<Rightarrow> net_msg \<Rightarrow> string \<times> net_msg" where
  "getString len m =
     (let (len, m) = (if len = 0 then (let (n, m) = msg_get dec16 2 m in (unat n, m)) else (len, m));
          (ok, m) = canRead len m
      in if \<not> ok then ([], m)
         else (bytes_string (peek (msg_pos m) len (msg_buffer m)),
               m\<lparr>msg_pos := wrap16 (msg_pos m + len)\<rparr>))"

definition addString :: "string \<Rightarrow> net_msg \<Rightarrow> net_msg" where
  "addString value m =
     (if \<not> canAdd (length value + 2) m then m
      else msg_put (char_bytes value) (msg_add enc16 2 (of_nat (length value)) m))"

definition getPosition :: "net_msg \<Rightarrow> position \<times> net_msg" where
  "getPosition m =
     (let (x, m) = msg_get dec16 2 m; (y, m) = msg_get dec16 2 m; (z, m) = getByte m
      in (Position x y z, m))"

definition addPosition :: "position \<Rightarrow> net_msg \<Rightarrow> net_msg" where
  "addPosition p m = addByte (pos_z p) (msg_add enc16 2 (pos_y p) (msg_add enc16 2 (pos_x p) m))"

definition skipBytes :: "int \<Rightarrow> net_msg \<Rightarrow> net_msg" where
  "skipBytes n m = m\<lparr>msg_pos := nat ((int (msg_pos m) + n) mod 65536)\<rparr>"

definition setLength :: "nat \<Rightarrow> net_msg \<Rightarrow> net_msg" where
  "setLength n m = m\<lparr>msg_len := wrap16 n\<rparr>"

definition setBufferPosition :: "nat \<Rightarrow> net_msg \<Rightarrow> bool \<times> net_msg" where
  "setBufferPosition p m =
     (if p < NETWORKMESSAGE_MAXSIZE - INITIAL_BUFFER_POSITION
      then (True, m\<lparr>msg_pos := p + INITIAL_BUFFER_POSITION\<rparr>) else (False, m))"

definition getLengthHeader :: "net_msg \<Rightarrow> nat" where
  "getLengthHeader m = unat (msg_buffer m ! 0) OR push_bit 8 (unat (msg_buffer m ! 1))"

text \<open>\<^verbatim>\<open>getBodyBuffer\<close>: the position moves to the body, whose offset is the result.\<close>

definition getBodyBuffer :: "net_msg \<Rightarrow> nat \<times> net_msg" where
  "getBodyBuffer m = (HEADER_LENGTH, m\<lparr>msg_pos := 2\<rparr>)"

text \<open>The fields of \<^verbatim>\<open>ItemType\<close> and \<^verbatim>\<open>Item\<close> that are sent.\<close>

record wire_item_type =
  it_clientId :: u16
  it_stackable :: bool
  it_isSplash :: bool
  it_isFluidContainer :: bool
  it_isAnimation :: bool
  it_description :: string

record wire_item =
  wi_id :: u16
  wi_count :: u16
  wi_fluidType :: u16
  wi_name :: string
  wi_isPokeball :: bool
  wi_pokemonName :: string
  wi_boost :: byte
  wi_heldX :: u16
  wi_heldY :: u16
  wi_heldU :: u16

definition fluidMap :: "byte list" where
  "fluidMap = [0, 1, 5, 3, 6, 8, 9, 2]"

definition addItemHead :: "wire_item_type \<Rightarrow> u16 \<Rightarrow> u16 \<Rightarrow> net_msg \<Rightarrow> net_msg" where
  "addItemHead it cnt fluid m =
     (let m = addByte 0xFF (msg_add enc16 2 (it_clientId it) m);
          m = (if it_stackable it then msg_add enc16 2 cnt m
               else if it_isSplash it \<or> it_isFluidContainer it
                 then addByte (fluidMap ! unat (fluid AND 7)) m else m)
      in if it_isAnimation it then addByte 0xFE m else m)"

definition addItem :: "(u16 \<Rightarrow> wire_item_type) \<Rightarrow> u16 \<Rightarrow> u16 \<Rightarrow> net_msg \<Rightarrow> net_msg" where
  "addItem items item_id cnt m = addByte 0 (addItemHead (items item_id) cnt cnt m)"

definition addItemObject :: "(u16 \<Rightarrow> wire_item_type) \<Rightarrow> wire_item \<Rightarrow> net_msg \<Rightarrow> net_msg" where
  "addItemObject items item m =
     (let it = items (wi_id item);
          m = addItemHead it (wi_count item) (wi_fluidType item) m
      in if wi_id item = 0 then addByte 0 m
         else
           (let m = addString (wi_name item) (msg_add enc64 8 (ucast (wi_id item)) (addByte 1 m));
                m = addByte (if wi_isPokeball item then 1 else 0) m;
                m = (if wi_isPokeball item then
                       msg_add enc16 2 (wi_heldU item) (msg_add enc16 2 (wi_heldY item)
                         (msg_add enc16 2 (wi_heldX item) (addByte (wi_boost item)
                           (addString (wi_pokemonName item) m))))
                     else m)
            in addString (it_description it) m))"

definition addItemId :: "(u16 \<Rightarrow> wire_item_type) \<Rightarrow> u16 \<Rightarrow> net_msg \<Rightarrow> net_msg" where
  "addItemId items item_id m = msg_add enc16 2 (it_clientId (items item_id)) m"

section \<open>Sequences of fields\<close>

datatype wire_field =
  W8 byte | W16 u16 | W32 u32 | W64 u64 | WString string | WPosition position

primrec field_bytes :: "wire_field \<Rightarrow> byte list" where
  "field_bytes (W8 v) = enc8 v"
| "field_bytes (W16 v) = enc16 v"
| "field_bytes (W32 v) = enc32 v"
| "field_bytes (W64 v) = enc64 v"
| "field_bytes (WString s) = enc16 (of_nat (length s)) @ char_bytes s"
| "field_bytes (WPosition p) = enc16 (pos_x p) @ enc16 (pos_y p) @ enc8 (pos_z p)"

primrec write_field :: "wire_field \<Rightarrow> net_msg \<Rightarrow> net_msg" where
  "write_field (W8 v) m = addByte v m"
| "write_field (W16 v) m = msg_add enc16 2 v m"
| "write_field (W32 v) m = msg_add enc32 4 v m"
| "write_field (W64 v) m = msg_add enc64 8 v m"
| "write_field (WString s) m = addString s m"
| "write_field (WPosition p) m = addPosition p m"

text \<open>Read a field of the same kind as the given one.\<close>

primrec read_like :: "wire_field \<Rightarrow> net_msg \<Rightarrow> wire_field \<times> net_msg" where
  "read_like (W8 _) m = apfst W8 (getByte m)"
| "read_like (W16 _) m = apfst W16 (msg_get dec16 2 m)"
| "read_like (W32 _) m = apfst W32 (msg_get dec32 4 m)"
| "read_like (W64 _) m = apfst W64 (msg_get dec64 8 m)"
| "read_like (WString _) m = apfst WString (getString 0 m)"
| "read_like (WPosition _) m = apfst WPosition (getPosition m)"

primrec read_fields :: "wire_field list \<Rightarrow> net_msg \<Rightarrow> wire_field list \<times> net_msg" where
  "read_fields [] m = ([], m)"
| "read_fields (f # fs) m =
     (let (v, m) = read_like f m; (vs, m) = read_fields fs m in (v # vs, m))"

section \<open>Writing\<close>

definition writer_ok :: "net_msg \<Rightarrow> bool" where
  "writer_ok m \<longleftrightarrow> length (msg_buffer m) = NETWORKMESSAGE_MAXSIZE
     \<and> msg_pos m = msg_len m + INITIAL_BUFFER_POSITION \<and> msg_pos m < MAX_BODY_LENGTH"

definition content :: "net_msg \<Rightarrow> byte list" where
  "content m = peek INITIAL_BUFFER_POSITION (msg_len m) (msg_buffer m)"

lemma length_poke [simp]:
  "pos + length bs \<le> length buffer \<Longrightarrow> length (poke pos bs buffer) = length buffer"
  by (simp add: poke_def)

lemma length_peek [simp]: "pos + n \<le> length buffer \<Longrightarrow> length (peek pos n buffer) = n"
  by (simp add: peek_def)

lemma peek_poke_same [simp]:
  "pos + length bs \<le> length buffer \<Longrightarrow> n = length bs \<Longrightarrow> peek pos n (poke pos bs buffer) = bs"
  by (simp add: peek_def poke_def)

lemma peek_poke_before:
  "p + n \<le> pos \<Longrightarrow> pos + length bs \<le> length buffer \<Longrightarrow> peek p n (poke pos bs buffer) = peek p n buffer"
proof -
  assume a: "p + n \<le> pos" "pos + length bs \<le> length buffer"
  then have "length (drop p (take pos buffer)) = pos - p" "p \<le> length (take pos buffer)" by simp_all
  moreover have "take n (drop p (take pos buffer)) = take n (drop p buffer)"
    using a by (simp add: drop_take min_absorb1 le_diff_conv2)
  ultimately show ?thesis using a by (simp add: peek_def poke_def)
qed

lemma peek_poke_after:
  "pos + length bs \<le> p \<Longrightarrow> pos + length bs \<le> length buffer \<Longrightarrow> peek p n (poke pos bs buffer) = peek p n buffer"
  by (simp add: peek_def poke_def min_def)

lemma peek_append: "peek p (m + n) buffer = peek p m buffer @ peek (p + m) n buffer"
  by (simp add: peek_def take_add add.commute)

lemma new_msg_writer: "length junk = NETWORKMESSAGE_MAXSIZE \<Longrightarrow> writer_ok (new_msg junk)"
  and new_msg_content: "content (new_msg junk) = []"
  by (simp_all add: writer_ok_def new_msg_def content_def peek_def message_consts)

lemma writer_put:
  assumes "writer_ok m" and "canAdd (length bs) m"
  shows "writer_ok (msg_put bs m)" and "content (msg_put bs m) = content m @ bs"
    and "msg_overrun (msg_put bs m) = msg_overrun m"
    and "msg_pos (msg_put bs m) = msg_pos m + length bs"
proof -
  have b: "length bs + msg_pos m < 65521" "msg_pos m = msg_len m + 8" "length (msg_buffer m) = 65535"
    using assms by (simp_all add: writer_ok_def canAdd_def message_consts)
  then show "writer_ok (msg_put bs m)"
    by (simp add: writer_ok_def msg_put_def wrap16_def message_consts)
  from b show "content (msg_put bs m) = content m @ bs"
    using peek_append [of 8 "msg_len m" "length bs" "poke (msg_len m + 8) bs (msg_buffer m)"]
    by (simp add: content_def msg_put_def wrap16_def message_consts peek_poke_before add.commute)
  from b show "msg_overrun (msg_put bs m) = msg_overrun m"
    and "msg_pos (msg_put bs m) = msg_pos m + length bs"
    by (simp_all add: msg_put_def wrap16_def)
qed

lemma writer_field:
  assumes "writer_ok m"
  shows "writer_ok (write_field f m)" and "msg_overrun (write_field f m) = msg_overrun m"
  using assms
  by (cases f; simp add: addByte_def msg_add_def addString_def addPosition_def writer_put canAdd_def
      mem16.enc_length mem32.enc_length mem64.enc_length)+

lemma canAdd_put:
  "writer_ok m \<Longrightarrow> canAdd (length bs + n) m \<Longrightarrow> canAdd (length bs) m \<and> canAdd n (msg_put bs m)"
  using writer_put(4) [of m bs] by (simp add: canAdd_def)

lemma put_put:
  assumes "writer_ok m" and "canAdd (length bs + length cs) m"
  shows "msg_put cs (msg_put bs m) = msg_put (bs @ cs) m"
proof -
  have b: "length bs + length cs + msg_pos m < 65521" "msg_pos m = msg_len m + 8"
    "length (msg_buffer m) = 65535"
    using assms by (simp_all add: writer_ok_def canAdd_def message_consts)
  then have "poke (msg_pos m + length bs) cs (poke (msg_pos m) bs (msg_buffer m))
    = poke (msg_pos m) (bs @ cs) (msg_buffer m)"
    by (simp add: poke_def ac_simps)
  with b show ?thesis by (simp add: msg_put_def wrap16_def add.assoc)
qed

lemma write_field_put:
  assumes "writer_ok m" and "canAdd (length (field_bytes f)) m"
  shows "write_field f m = msg_put (field_bytes f) m"
proof -
  have enc8: "enc8 v = [v]" for v
    using unat_bound [of v] by (simp add: enc8_def)
  have s: "canAdd n m \<Longrightarrow> k \<le> n \<Longrightarrow> canAdd k m" for n k by (simp add: canAdd_def)
  note len = mem8.enc_length mem16.enc_length mem32.enc_length mem64.enc_length
  show ?thesis
  proof (cases f)
    case (WString str)
    with assms(2) have c: "canAdd (2 + length str) m" by (simp add: len)
    with assms(1) have "canAdd (length str + 2) m" "canAdd 2 m"
      by (simp_all add: s add.commute canAdd_def)
    with WString show ?thesis
      using put_put [OF assms(1), of "enc16 (of_nat (length str))" "char_bytes str"] c
      by (simp add: addString_def msg_add_def len)
  next
    case (WPosition p)
    let ?x = "enc16 (pos_x p)" and ?y = "enc16 (pos_y p)" and ?z = "[pos_z p]"
    from WPosition assms(2) have c: "canAdd 5 m" by (simp add: len)
    then have "canAdd 2 m" "canAdd 2 (msg_put ?x m)" "canAdd 1 (msg_put ?y (msg_put ?x m))"
      using canAdd_put [OF assms(1), of ?x 3] canAdd_put [OF writer_put(1) [OF assms(1)], of ?x ?y 1]
      by (simp_all add: len s canAdd_def)
    moreover have "msg_put ?y (msg_put ?x m) = msg_put (?x @ ?y) m"
      using put_put [OF assms(1), of ?x ?y] s [OF c, of 4] by (simp add: len)
    ultimately show ?thesis
      using WPosition put_put [OF assms(1), of "?x @ ?y" ?z] c
      by (simp add: addPosition_def msg_add_def addByte_def len enc8)
  qed (use assms(2) in \<open>simp_all add: addByte_def msg_add_def len enc8\<close>)
qed

lemma write_fields_content:
  assumes "writer_ok m" and "canAdd (length (concat (map field_bytes fs))) m"
  shows "writer_ok (fold write_field fs m) \<and> msg_overrun (fold write_field fs m) = msg_overrun m
    \<and> content (fold write_field fs m) = content m @ concat (map field_bytes fs)"
  using assms
proof (induction fs arbitrary: m)
  case (Cons f fs)
  let ?m = "msg_put (field_bytes f) m"
  have c: "canAdd (length (field_bytes f)) m" "canAdd (length (concat (map field_bytes fs))) ?m"
    using canAdd_put [OF Cons.prems(1), of "field_bytes f" "length (concat (map field_bytes fs))"]
      Cons.prems(2) by simp_all
  show ?case
    using Cons.IH [OF writer_put(1) [OF Cons.prems(1) c(1)] c(2)] write_field_put [OF Cons.prems(1) c(1)]
      writer_put [OF Cons.prems(1) c(1)] by simp
qed simp

section \<open>Reading\<close>

definition reader_ok :: "net_msg \<Rightarrow> bool" where
  "reader_ok m \<longleftrightarrow> length (msg_buffer m) = NETWORKMESSAGE_MAXSIZE
     \<and> msg_pos m \<le> msg_len m + 8 \<and> msg_len m + 8 < NETWORKMESSAGE_MAXSIZE"

definition unread :: "net_msg \<Rightarrow> byte list" where
  "unread m = peek (msg_pos m) (msg_len m + 8 - msg_pos m) (msg_buffer m)"

lemma length_unread: "reader_ok m \<Longrightarrow> length (unread m) = msg_len m + 8 - msg_pos m"
  by (simp add: reader_ok_def unread_def)

lemma canRead_iff:
  "reader_ok m \<Longrightarrow> canRead n m = (if n \<le> length (unread m) then (True, m) else (False, m\<lparr>msg_overrun := True\<rparr>))"
proof -
  assume r: "reader_ok m"
  then have "msg_pos m \<le> msg_len m + 8" "msg_len m + 8 < 65535"
    by (simp_all add: reader_ok_def message_consts)
  then have "(msg_pos m + n > msg_len m + 8 \<or> int n \<ge> 65535 - int (msg_pos m)) \<longleftrightarrow>
    \<not> n \<le> msg_len m + 8 - msg_pos m" by linarith
  then show ?thesis by (simp add: canRead_def length_unread [OF r] message_consts)
qed

lemma read_step:
  assumes "reader_ok m" and "n \<le> length (unread m)"
  shows "peek (msg_pos m) n (msg_buffer m) = take n (unread m)"
    and "reader_ok (m\<lparr>msg_pos := wrap16 (msg_pos m + n)\<rparr>)"
    and "unread (m\<lparr>msg_pos := wrap16 (msg_pos m + n)\<rparr>) = drop n (unread m)"
proof -
  have b: "n \<le> msg_len m + 8 - msg_pos m" "msg_pos m \<le> msg_len m + 8" "msg_len m + 8 < 65535"
    using assms by (simp_all add: length_unread) (simp_all add: reader_ok_def message_consts)
  then show "peek (msg_pos m) n (msg_buffer m) = take n (unread m)"
    by (simp add: peek_def unread_def min_def)
  from b have w: "wrap16 (msg_pos m + n) = msg_pos m + n" by (simp add: wrap16_def)
  from b assms(1) show "reader_ok (m\<lparr>msg_pos := wrap16 (msg_pos m + n)\<rparr>)"
    unfolding w by (simp add: reader_ok_def)
  from b show "unread (m\<lparr>msg_pos := wrap16 (msg_pos m + n)\<rparr>) = drop n (unread m)"
    unfolding w by (simp add: unread_def peek_def drop_take add.commute)
qed

definition after_read :: "net_msg \<Rightarrow> byte list \<Rightarrow> net_msg \<Rightarrow> bool" where
  "after_read m rest m' \<longleftrightarrow> reader_ok m' \<and> unread m' = rest \<and> msg_overrun m' = msg_overrun m"

lemma after_read_trans:
  "after_read m rest m' \<Longrightarrow> after_read m' rest' m'' \<Longrightarrow> after_read m rest' m''"
  by (simp add: after_read_def)

lemma after_read_step:
  "reader_ok m \<Longrightarrow> n \<le> length (unread m) \<Longrightarrow>
     after_read m (drop n (unread m)) (m\<lparr>msg_pos := wrap16 (msg_pos m + n)\<rparr>)"
  using read_step(2,3) [of m n] by (simp add: after_read_def)

text \<open>The \<^verbatim>\<open>get\<close> template, for any type under the \<^verbatim>\<open>memcpy\<close> contract.\<close>

locale memcpy_num = memcpy_type enc dec width
  for enc :: "'a::zero \<Rightarrow> byte list" and dec :: "byte list \<Rightarrow> 'a" and width :: nat
begin

lemma msg_get_ok:
  assumes "reader_ok m" and "unread m = enc v @ rest"
  shows "\<exists>m'. msg_get dec width m = (v, m') \<and> after_read m rest m'"
proof -
  have w: "width \<le> length (unread m)" using assms(2) by (simp add: enc_length)
  then have "canRead width m = (True, m)" using canRead_iff [OF assms(1)] by simp
  then show ?thesis
    using read_step(1) [OF assms(1) w] after_read_step [OF assms(1) w] assms(2)
    by (simp add: msg_get_def enc_length dec_enc)
qed

lemma msg_get_short:
  "reader_ok m \<Longrightarrow> length (unread m) < width \<Longrightarrow> msg_get dec width m = (0, m\<lparr>msg_overrun := True\<rparr>)"
  by (simp add: msg_get_def canRead_iff)

lemma msg_add_put: "canAdd width m \<Longrightarrow> msg_add enc width v m = msg_put (enc v) m"
  by (simp add: msg_add_def)

end

interpretation num16: memcpy_num enc16 dec16 2 ..
interpretation num32: memcpy_num enc32 dec32 4 ..
interpretation num64: memcpy_num enc64 dec64 8 ..

lemma getByte_ok:
  assumes "reader_ok m" and "unread m = v # rest"
  shows "\<exists>m'. getByte m = (v, m') \<and> after_read m rest m'"
proof -
  have w: "1 \<le> length (unread m)" using assms(2) by simp
  then have r: "canRead 1 m = (True, m)" using canRead_iff [OF assms(1)] by simp
  have "msg_pos m < length (msg_buffer m)" using w length_unread [OF assms(1)] assms(1)
    by (simp add: reader_ok_def)
  moreover have "take 1 (drop (msg_pos m) (msg_buffer m)) = [v]"
    using read_step(1) [OF assms(1) w] assms(2) by (simp add: peek_def)
  ultimately have "msg_buffer m ! msg_pos m = v" by (simp add: take_Suc hd_drop_conv_nth)
  then show ?thesis
    using r after_read_step [OF assms(1) w] assms(2) by (simp add: getByte_def)
qed

lemma getString_ok:
  assumes "reader_ok m" and "unread m = enc16 (of_nat (length s)) @ char_bytes s @ rest"
    and "length s < 65536"
  shows "\<exists>m'. getString 0 m = (s, m') \<and> after_read m rest m'"
proof -
  obtain m1 where m1: "msg_get dec16 2 m = (of_nat (length s), m1)"
    "after_read m (char_bytes s @ rest) m1"
    using num16.msg_get_ok [OF assms(1,2)] by blast
  have n: "unat (of_nat (length s) :: u16) = length s" using assms(3) by (simp add: unat_of_nat)
  have r1: "reader_ok m1" "unread m1 = char_bytes s @ rest"
    using m1(2) by (simp_all add: after_read_def)
  then have w: "length s \<le> length (unread m1)" by simp
  then have "canRead (length s) m1 = (True, m1)" using canRead_iff [OF r1(1)] by simp
  then show ?thesis
    using m1 n read_step(1) [OF r1(1) w] after_read_step [OF r1(1) w] r1(2)
    by (auto simp: getString_def after_read_def)
qed

lemma getPosition_ok:
  assumes "reader_ok m" and "unread m = field_bytes (WPosition p) @ rest"
  shows "\<exists>m'. getPosition m = (p, m') \<and> after_read m rest m'"
proof -
  have z: "enc8 (pos_z p) = [pos_z p]" using unat_bound [of "pos_z p"] by (simp add: enc8_def)
  have u: "unread m = enc16 (pos_x p) @ enc16 (pos_y p) @ pos_z p # rest" using assms(2) z by simp
  obtain m1 where m1: "msg_get dec16 2 m = (pos_x p, m1)"
    "after_read m (enc16 (pos_y p) @ pos_z p # rest) m1"
    using num16.msg_get_ok [OF assms(1) u] by blast
  then have r1: "reader_ok m1" "unread m1 = enc16 (pos_y p) @ pos_z p # rest"
    by (simp_all add: after_read_def)
  obtain m2 where m2: "msg_get dec16 2 m1 = (pos_y p, m2)" "after_read m1 (pos_z p # rest) m2"
    using num16.msg_get_ok [OF r1] by blast
  then have r2: "reader_ok m2" "unread m2 = pos_z p # rest" by (simp_all add: after_read_def)
  obtain m3 where m3: "getByte m2 = (pos_z p, m3)" "after_read m2 rest m3"
    using getByte_ok [OF r2] by blast
  have "getPosition m = (p, m3)" using m1(1) m2(1) m3(1) by (simp add: getPosition_def)
  then show ?thesis using m1(2) m2(2) m3(2) after_read_trans by blast
qed

lemma read_like_ok:
  assumes "reader_ok m" and "unread m = field_bytes f @ rest"
    and "\<And>s. f = WString s \<Longrightarrow> length s < 65536"
  shows "\<exists>m'. read_like f m = (f, m') \<and> after_read m rest m'"
proof (cases f)
  case (W8 v)
  have "enc8 v = [v]" using unat_bound [of v] by (simp add: enc8_def)
  with W8 assms getByte_ok [OF assms(1), of v rest] show ?thesis by auto
next
  case (WString s)
  with assms getString_ok [OF assms(1), of s rest] show ?thesis by auto
next
  case (WPosition p)
  with assms getPosition_ok [OF assms(1), of p rest] show ?thesis by auto
qed (use assms num16.msg_get_ok [OF assms(1)] num32.msg_get_ok [OF assms(1)]
    num64.msg_get_ok [OF assms(1)] in \<open>fastforce+\<close>)

lemma read_fields_ok:
  assumes "reader_ok m" and "unread m = concat (map field_bytes fs) @ rest"
    and "\<And>s. WString s \<in> set fs \<Longrightarrow> length s < 65536"
  shows "\<exists>m'. read_fields fs m = (fs, m') \<and> after_read m rest m'"
  using assms
proof (induction fs arbitrary: m)
  case Nil
  then show ?case by (simp add: after_read_def)
next
  case (Cons f fs)
  obtain m1 where m1: "read_like f m = (f, m1)" "after_read m (concat (map field_bytes fs) @ rest) m1"
    using read_like_ok [OF Cons.prems(1), of f] Cons.prems(2,3) by fastforce
  then obtain m2 where m2: "read_fields fs m1 = (fs, m2)" "after_read m1 rest m2"
    using Cons.IH [of m1] Cons.prems(3) by (auto simp: after_read_def)
  show ?case using m1 m2 by (auto intro: after_read_trans)
qed

section \<open>Properties\<close>

text \<open>
  C32. Any sequence of integers, strings and positions that fits the body of a message is
  read back unchanged, and exactly, by the reading operations: nothing is left unread and
  the overrun flag stays down, whatever the buffer held before.
\<close>

theorem message_roundtrip:
  assumes "length junk = NETWORKMESSAGE_MAXSIZE"
    and "INITIAL_BUFFER_POSITION + length (concat (map field_bytes fs)) < MAX_BODY_LENGTH"
  shows "let m = fold write_field fs (new_msg junk) in
    \<exists>m'. read_fields fs (m\<lparr>msg_pos := INITIAL_BUFFER_POSITION\<rparr>) = (fs, m')
      \<and> unread m' = [] \<and> \<not> msg_overrun m'"
proof -
  let ?m = "fold write_field fs (new_msg junk)"
  let ?r = "?m\<lparr>msg_pos := INITIAL_BUFFER_POSITION\<rparr>"
  have "canAdd (length (concat (map field_bytes fs))) (new_msg junk)"
    using assms(2) by (simp add: canAdd_def new_msg_def)
  then have w: "writer_ok ?m" "\<not> msg_overrun ?m" "content ?m = concat (map field_bytes fs)"
    using write_fields_content [OF new_msg_writer [OF assms(1)], of fs] new_msg_content [of junk]
    by (simp_all add: new_msg_def)
  then have r: "reader_ok ?r" "unread ?r = concat (map field_bytes fs) @ []"
    by (simp_all add: reader_ok_def writer_ok_def unread_def content_def message_consts)
  have s: "length s < 65536" if "WString s \<in> set fs" for s
  proof -
    have "length (field_bytes (WString s)) \<le> length (concat (map field_bytes fs))"
      using that by (induction fs) auto
    with assms(2) show ?thesis by (simp add: mem16.enc_length message_consts)
  qed
  show ?thesis
    using read_fields_ok [OF r s] w(2) by (auto simp: Let_def after_read_def)
qed

theorem message_roundtrip_witness:
  "let m = fold write_field [W8 7, WString ''hi'', W32 9, WString []]
     (new_msg (replicate NETWORKMESSAGE_MAXSIZE 0)) in
   \<exists>m'. read_fields [W8 7, WString ''hi'', W32 9, WString []] (m\<lparr>msg_pos := INITIAL_BUFFER_POSITION\<rparr>)
       = ([W8 7, WString ''hi'', W32 9, WString []], m')
     \<and> unread m' = [] \<and> \<not> msg_overrun m'"
  by (rule message_roundtrip)
    (simp_all add: mem8.enc_length mem16.enc_length mem32.enc_length message_consts)

text \<open>
  C33. No sequence of writes, whatever its size, leaves the buffer: the buffer keeps its
  65535 bytes, the position stays below the body limit and the length counts exactly the
  bytes between the initial position and the current one.
\<close>

theorem message_writes_bounded:
  assumes "length junk = NETWORKMESSAGE_MAXSIZE"
  shows "let m = fold write_field fs (new_msg junk) in
    length (msg_buffer m) = NETWORKMESSAGE_MAXSIZE \<and> msg_pos m < MAX_BODY_LENGTH
    \<and> msg_len m = msg_pos m - INITIAL_BUFFER_POSITION \<and> \<not> msg_overrun m"
proof -
  have "writer_ok (fold write_field fs m) \<and> msg_overrun (fold write_field fs m) = msg_overrun m"
    if "writer_ok m" for m
    using that by (induction fs arbitrary: m) (simp_all add: writer_field)
  from this [OF new_msg_writer [OF assms]] show ?thesis
    by (simp add: Let_def writer_ok_def new_msg_def)
qed

theorem message_writes_bounded_witness:
  "let m = fold write_field (replicate 20000 (W64 1)) (new_msg (replicate NETWORKMESSAGE_MAXSIZE 0)) in
    length (msg_buffer m) = NETWORKMESSAGE_MAXSIZE \<and> msg_pos m < MAX_BODY_LENGTH
    \<and> msg_len m = msg_pos m - INITIAL_BUFFER_POSITION \<and> \<not> msg_overrun m"
  by (rule message_writes_bounded) simp

text \<open>
  A read of a message with any length and position consumed \<open>bs\<close>: nothing but the position moves, not
  past the limit, and unless the overrun flag is raised, \<open>bs\<close> were the next bytes up to the limit.
\<close>

definition consumed :: "net_msg \<Rightarrow> byte list \<Rightarrow> net_msg \<Rightarrow> bool" where
  "consumed m bs m' \<longleftrightarrow> msg_buffer m' = msg_buffer m \<and> msg_len m' = msg_len m \<and> msg_pos m \<le> msg_pos m'
     \<and> msg_pos m' \<le> max (msg_pos m) (min (msg_len m + 8) (NETWORKMESSAGE_MAXSIZE - 1))
     \<and> (msg_overrun m \<longrightarrow> msg_overrun m')
     \<and> (\<not> msg_overrun m' \<longrightarrow> unread m = bs @ unread m')"

lemma consumed_trans:
  assumes "consumed m as m'" and "consumed m' bs m''"
  shows "consumed m (as @ bs) m''"
proof -
  let ?L = "min (msg_len m + 8) (NETWORKMESSAGE_MAXSIZE - 1)"
  note a = assms(1) [unfolded consumed_def] and b = assms(2) [unfolded consumed_def]
  have same: "msg_buffer m'' = msg_buffer m" "msg_len m'' = msg_len m" "msg_len m' = msg_len m" using a b by metis+
  have "msg_pos m'' \<le> max (msg_pos m') ?L" "msg_pos m' \<le> max (msg_pos m) ?L" using a b same(3) by metis+
  then have "msg_pos m'' \<le> max (msg_pos m) ?L" by linarith
  moreover have "msg_pos m \<le> msg_pos m''" using a b by (meson order_trans)
  moreover have "msg_overrun m \<longrightarrow> msg_overrun m''" using a b by blast
  moreover have "unread m = (as @ bs) @ unread m''" if "\<not> msg_overrun m''"
    using a b that by (metis append_assoc)
  ultimately show ?thesis using same unfolding consumed_def by blast
qed

lemma consumed_none: "consumed m [] m"
  by (simp add: consumed_def)

lemma consumed_overrun: "consumed m bs (m\<lparr>msg_overrun := True\<rparr>)"
  by (simp add: consumed_def)

lemma canRead_cases:
  assumes "length (msg_buffer m) = NETWORKMESSAGE_MAXSIZE"
  obtains "canRead n m = (False, m\<lparr>msg_overrun := True\<rparr>)"
  | bs where "canRead n m = (True, m)" "peek (msg_pos m) n (msg_buffer m) = bs" "length bs = n" "wrap16 (msg_pos m + n) = msg_pos m + n"
      "consumed m bs (m\<lparr>msg_pos := msg_pos m + n\<rparr>)"
proof (cases "fst (canRead n m)")
  case True
  then have b: "msg_pos m + n \<le> msg_len m + 8" "msg_pos m + n < 65535" and c: "canRead n m = (True, m)"
    by (auto simp: canRead_def message_consts split: if_splits)
  let ?bs = "peek (msg_pos m) n (msg_buffer m)"
  have "length ?bs = n" using b(2) assms by (simp add: message_consts)
  moreover have "unread m = ?bs @ unread (m\<lparr>msg_pos := msg_pos m + n\<rparr>)"
    using peek_append [of "msg_pos m" n "msg_len m + 8 - (msg_pos m + n)" "msg_buffer m"] b(1)
    by (simp add: unread_def)
  ultimately show thesis using b c by (intro that(2) [of ?bs]) (simp_all add: consumed_def wrap16_def message_consts)
next
  case False
  then show thesis by (intro that(1)) (auto simp: canRead_def split: if_splits)
qed

context memcpy_num
begin

lemma msg_get_consumed:
  assumes "length (msg_buffer m) = NETWORKMESSAGE_MAXSIZE" and "msg_get dec width m = (v, m')"
  shows "consumed m (enc v) m'"
  by (rule canRead_cases [OF assms(1), of width])
    (use assms(2) in \<open>auto simp: msg_get_def consumed_overrun enc_dec\<close>)

end

lemma getByte_consumed:
  assumes "length (msg_buffer m) = NETWORKMESSAGE_MAXSIZE" and "getByte m = (v, m')"
  shows "consumed m (enc8 v) m'"
proof (rule canRead_cases [OF assms(1), of 1])
  fix bs
  assume r: "canRead 1 m = (True, m)" "peek (msg_pos m) 1 (msg_buffer m) = bs" "length bs = 1"
    "wrap16 (msg_pos m + 1) = msg_pos m + 1" "consumed m bs (m\<lparr>msg_pos := msg_pos m + 1\<rparr>)"
  then have "bs = [msg_buffer m ! msg_pos m]" by (auto simp: peek_def take_Suc_conv_app_nth hd_drop_conv_nth take_Suc)
  then show ?thesis using r assms(2) using unat_bound [of v] by (simp add: getByte_def enc8_def)
qed (use assms(2) in \<open>auto simp: getByte_def consumed_overrun\<close>)

lemma char_bytes_bytes_string: "char_bytes (bytes_string bs) = bs"
proof -
  have "of_char (char_of (unat b) :: char) = b" for b :: byte
  proof -
    have "unat b < 256" using unat_bound [of b] by simp
    then have "of_char (char_of (unat b) :: char) = (unat b :: nat)" by simp
    then have "of_nat (of_char (char_of (unat b) :: char)) = (of_nat (unat b) :: byte)" by (simp only:)
    then have "(of_char (char_of (unat b) :: char) :: byte) = of_nat (unat b)" by (simp only: of_nat_of_char)
    then show ?thesis by simp
  qed
  then show ?thesis by (simp add: char_bytes_def bytes_string_def comp_def)
qed

lemma getString_consumed:
  assumes "length (msg_buffer m) = NETWORKMESSAGE_MAXSIZE" and "getString 0 m = (s, m')"
  shows "consumed m (enc16 (of_nat (length s)) @ char_bytes s) m'"
proof -
  obtain n m1 where g: "msg_get dec16 2 m = (n, m1)" by (cases "msg_get dec16 2 m")
  note c1 = num16.msg_get_consumed [OF assms(1) g]
  then have l: "length (msg_buffer m1) = NETWORKMESSAGE_MAXSIZE" using assms(1) by (simp add: consumed_def)
  show ?thesis
  proof (rule canRead_cases [OF l, of "unat n"])
    assume "canRead (unat n) m1 = (False, m1\<lparr>msg_overrun := True\<rparr>)"
    then have "m' = m1\<lparr>msg_overrun := True\<rparr>" using assms(2) g by (simp add: getString_def)
    then show ?thesis using c1 by (simp add: consumed_def)
  next
    fix bs
    assume r: "canRead (unat n) m1 = (True, m1)" "peek (msg_pos m1) (unat n) (msg_buffer m1) = bs" "length bs = unat n"
      "wrap16 (msg_pos m1 + unat n) = msg_pos m1 + unat n" "consumed m1 bs (m1\<lparr>msg_pos := msg_pos m1 + unat n\<rparr>)"
    then have "s = bytes_string bs" "m' = m1\<lparr>msg_pos := msg_pos m1 + unat n\<rparr>"
      using assms(2) g by (simp_all add: getString_def)
    then show ?thesis using consumed_trans [OF c1 r(5)] r(3) by (simp add: char_bytes_bytes_string)
  qed
qed

lemma read_like_consumed:
  assumes "length (msg_buffer m) = NETWORKMESSAGE_MAXSIZE" and "read_like f m = (v, m')"
  shows "consumed m (field_bytes v) m'"
proof (cases f)
  case (WPosition p)
  obtain x m1 where x: "msg_get dec16 2 m = (x, m1)" by (cases "msg_get dec16 2 m")
  obtain y m2 where y: "msg_get dec16 2 m1 = (y, m2)" by (cases "msg_get dec16 2 m1")
  obtain z m3 where z: "getByte m2 = (z, m3)" by (cases "getByte m2")
  have r: "v = WPosition (Position x y z)" "m' = m3"
    using assms(2) WPosition x y z by (simp_all add: getPosition_def)
  have 1: "consumed m (enc16 x) m1" by (rule num16.msg_get_consumed [OF assms(1) x])
  then have l1: "length (msg_buffer m1) = NETWORKMESSAGE_MAXSIZE" using assms(1) by (simp add: consumed_def)
  have 2: "consumed m1 (enc16 y) m2" by (rule num16.msg_get_consumed [OF l1 y])
  then have l2: "length (msg_buffer m2) = NETWORKMESSAGE_MAXSIZE" using l1 by (simp add: consumed_def)
  have 3: "consumed m2 (enc8 z) m3" by (rule getByte_consumed [OF l2 z])
  show ?thesis using consumed_trans [OF 1 consumed_trans [OF 2 3]] by (simp add: r)
qed (use assms in \<open>auto simp: apfst_def map_prod_def split: prod.splits intro: getByte_consumed getString_consumed
    num16.msg_get_consumed num32.msg_get_consumed num64.msg_get_consumed\<close>)

lemma read_fields_consumed:
  assumes "length (msg_buffer m) = NETWORKMESSAGE_MAXSIZE" and "read_fields fs m = (vs, m')"
  shows "consumed m (concat (map field_bytes vs)) m'"
  using assms
proof (induction fs arbitrary: m vs)
  case (Cons f fs)
  obtain v m1 where f: "read_like f m = (v, m1)" by (cases "read_like f m")
  obtain ws m2 where r: "read_fields fs m1 = (ws, m2)" by (cases "read_fields fs m1")
  have v: "vs = v # ws" "m' = m2" using Cons.prems(2) f r by simp_all
  have c: "consumed m (field_bytes v) m1" by (rule read_like_consumed [OF Cons.prems(1) f])
  then have "length (msg_buffer m1) = NETWORKMESSAGE_MAXSIZE" using Cons.prems(1) by (simp add: consumed_def)
  from consumed_trans [OF c Cons.IH [OF this]] r show ?case by (simp add: v)
qed (simp add: consumed_none)

text \<open>
  C34. Reading what a peer sent, whatever it is, by any sequence of reads. The position never moves back
  nor past the limit, which is eight more than the length or the last byte of the buffer; the buffer is only
  read. When the overrun flag is not raised, the bytes passed are exactly the encoding of the values that were
  returned; once raised, the flag stays. The length of a decrypted message counts from the ninth
  byte, so there the limit is the end of its content; for a packet that is not decrypted, whose length counts
  from the first byte, it lies eight bytes behind the end of the packet, as
  \<open>Connection.unencrypted_read_slack\<close> shows.
\<close>

theorem message_read_safe:
  assumes "length (msg_buffer m) = NETWORKMESSAGE_MAXSIZE" and "read_fields fs m = (vs, m')"
  shows "msg_pos m \<le> msg_pos m' \<and> msg_pos m' \<le> max (msg_pos m) (min (msg_len m + 8) (NETWORKMESSAGE_MAXSIZE - 1))
    \<and> msg_buffer m' = msg_buffer m \<and> msg_len m' = msg_len m
    \<and> (msg_overrun m \<longrightarrow> msg_overrun m')
    \<and> (\<not> msg_overrun m' \<longrightarrow> unread m = concat (map field_bytes vs) @ unread m')"
  using read_fields_consumed [OF assms] by (simp add: consumed_def)

text \<open>A message of three bytes: a number of two bytes is read, and a second one is refused.\<close>

definition three_bytes :: net_msg where
  "three_bytes = \<lparr>msg_len = 3, msg_pos = 8, msg_overrun = False, msg_buffer = replicate 8 0 @ [5, 1, 7] @ replicate 65524 9\<rparr>"

lemma three_bytes_read:
  "read_fields [W16 0] three_bytes = ([W16 0x105], three_bytes\<lparr>msg_pos := 10\<rparr>)"
  "read_fields [W16 0, W16 0] three_bytes = ([W16 0x105, W16 0], three_bytes\<lparr>msg_pos := 10, msg_overrun := True\<rparr>)"
proof -
  have p: "peek 8 2 (replicate 8 0 @ [5, 1, 7] @ replicate 65524 9) = [5, 1 :: byte]" by (simp add: peek_def)
  have "msg_get dec16 2 three_bytes = (0x105, three_bytes\<lparr>msg_pos := 10\<rparr>)"
    by (simp add: msg_get_def canRead_def three_bytes_def message_consts wrap16_def p [simplified] dec16_def)
  moreover have "msg_get dec16 2 (three_bytes\<lparr>msg_pos := 10\<rparr>) = (0, three_bytes\<lparr>msg_pos := 10, msg_overrun := True\<rparr>)"
    by (simp add: msg_get_def canRead_def three_bytes_def message_consts)
  ultimately show "read_fields [W16 0] three_bytes = ([W16 0x105], three_bytes\<lparr>msg_pos := 10\<rparr>)"
    "read_fields [W16 0, W16 0] three_bytes = ([W16 0x105, W16 0], three_bytes\<lparr>msg_pos := 10, msg_overrun := True\<rparr>)"
    by simp_all
qed

theorem message_read_safe_witness:
  "unread three_bytes = enc16 0x105 @ unread (three_bytes\<lparr>msg_pos := 10\<rparr>)
   \<and> msg_pos (snd (read_fields [W16 0, W16 0] three_bytes)) \<le> 11"
proof -
  have l: "length (msg_buffer three_bytes) = NETWORKMESSAGE_MAXSIZE" by (simp add: three_bytes_def message_consts)
  show ?thesis
    using message_read_safe [OF l three_bytes_read(1)] message_read_safe [OF l three_bytes_read(2)] three_bytes_read(2)
    by (simp add: three_bytes_def message_consts)
qed

end
