(* ===== verification/Xtea.thy ===== *)
theory Xtea
  imports Prelude
begin

text \<open>
  The XTEA block cipher of \<^verbatim>\<open>src/src/xtea.cpp\<close>, which encrypts the body of
  every packet. A buffer is a list of bytes; an access beyond its end (which the C++ code
  does not check) is the result \<open>None\<close>.
\<close>

section \<open>Model\<close>

type_synonym xtea_key = "u32 list"

definition xtea_delta :: u32 where "xtea_delta = 0x9E3779B9"

definition load_block :: "byte list \<Rightarrow> u32" where
  "load_block bs = ucast (bs ! 0) OR push_bit 8 (ucast (bs ! 1))
     OR push_bit 16 (ucast (bs ! 2)) OR push_bit 24 (ucast (bs ! 3))"

definition store_block :: "u32 \<Rightarrow> byte list" where
  "store_block w = [ucast w, ucast (drop_bit 8 w), ucast (drop_bit 16 w), ucast (drop_bit 24 w)]"

fun apply_rounds :: "(u32 \<times> u32 \<Rightarrow> u32 \<times> u32) \<Rightarrow> nat \<Rightarrow> byte list \<Rightarrow> byte list option" where
  "apply_rounds round len data =
     (if len = 0 then Some data
      else if length data < 8 then None
      else (let (left, right) = round (load_block (take 4 data), load_block (take 4 (drop 4 data)))
            in map_option (\<lambda>rest. store_block left @ store_block right @ rest)
                 (apply_rounds round (len - 8) (drop 8 data))))"

declare apply_rounds.simps [simp del]

definition xtea_mix :: "u32 \<Rightarrow> u32" where
  "xtea_mix v = (push_bit 4 v XOR drop_bit 5 v) + v"

definition encrypt_round :: "xtea_key \<Rightarrow> u32 \<Rightarrow> u32 \<Rightarrow> u32 \<times> u32 \<Rightarrow> u32 \<times> u32" where
  "encrypt_round k sum0 next_sum = (\<lambda>(left, right).
     let left' = left + (xtea_mix right XOR (sum0 + k ! unat (sum0 AND 3)));
         right' = right + (xtea_mix left' XOR (next_sum + k ! unat (drop_bit 11 next_sum AND 3)))
     in (left', right'))"

definition decrypt_round :: "xtea_key \<Rightarrow> u32 \<Rightarrow> u32 \<Rightarrow> u32 \<times> u32 \<Rightarrow> u32 \<times> u32" where
  "decrypt_round k sum0 next_sum = (\<lambda>(left, right).
     let right' = right - (xtea_mix left XOR (sum0 + k ! unat (drop_bit 11 sum0 AND 3)));
         left' = left - (xtea_mix right' XOR (next_sum + k ! unat (next_sum AND 3)))
     in (left', right'))"

text \<open>The counted loops: the first argument is the number of iterations left.\<close>

primrec encrypt_loop :: "nat \<Rightarrow> u32 \<Rightarrow> u32 \<Rightarrow> xtea_key \<Rightarrow> nat \<Rightarrow> byte list \<Rightarrow> byte list option" where
  "encrypt_loop 0 sum0 next_sum k len data = Some data"
| "encrypt_loop (Suc i) sum0 next_sum k len data =
     Option.bind (apply_rounds (encrypt_round k sum0 next_sum) len data)
       (encrypt_loop i next_sum (next_sum + xtea_delta) k len)"

primrec decrypt_loop :: "nat \<Rightarrow> u32 \<Rightarrow> u32 \<Rightarrow> xtea_key \<Rightarrow> nat \<Rightarrow> byte list \<Rightarrow> byte list option" where
  "decrypt_loop 0 sum0 next_sum k len data = Some data"
| "decrypt_loop (Suc i) sum0 next_sum k len data =
     Option.bind (apply_rounds (decrypt_round k sum0 next_sum) len data)
       (decrypt_loop i next_sum (next_sum - xtea_delta) k len)"

definition xtea_encrypt :: "byte list \<Rightarrow> nat \<Rightarrow> xtea_key \<Rightarrow> byte list option" where
  "xtea_encrypt data len k = encrypt_loop 32 0 xtea_delta k len data"

definition xtea_decrypt :: "byte list \<Rightarrow> nat \<Rightarrow> xtea_key \<Rightarrow> byte list option" where
  "xtea_decrypt data len k =
     (let sum0 = push_bit 5 xtea_delta in decrypt_loop 32 sum0 (sum0 - xtea_delta) k len data)"

section \<open>Blocks\<close>

lemma length_store_block [simp]: "length (store_block w) = 4"
  by (simp add: store_block_def)

lemma load_store_block [simp]: "load_block (store_block w) = w"
proof (rule bit_word_eqI)
  fix n assume "n < LENGTH(32)"
  then consider "n < 8" | "8 \<le> n" "n < 16" | "16 \<le> n" "n < 24" | "24 \<le> n" "n < 32"
    by fastforce
  then show "bit (load_block (store_block w)) n = bit w n"
    by cases (auto simp: load_block_def store_block_def bit_simps)
qed

lemma store_load_block:
  assumes "length bs = 4"
  shows "store_block (load_block bs) = bs"
proof -
  from assms obtain a b c d where "bs = [a, b, c, d]"
    by (auto simp: numeral_eq_Suc length_Suc_conv)
  then show ?thesis
    by (auto simp: store_block_def load_block_def bit_simps bit_byte_out intro!: bit_word_eqI)
qed

text \<open>One block step as a function on eight bytes, and its lifting to a prefix of a buffer.\<close>

definition on_block :: "(u32 \<times> u32 \<Rightarrow> u32 \<times> u32) \<Rightarrow> byte list \<Rightarrow> byte list" where
  "on_block f bs = (let (l, r) = f (load_block (take 4 bs), load_block (take 4 (drop 4 bs)))
                    in store_block l @ store_block r)"

lemma length_on_block [simp]: "length (on_block f bs) = 8"
  by (simp add: on_block_def split: prod.split)

lemma on_block_inverse:
  assumes "length bs = 8" and inv: "\<And>p. g (f p) = p"
  shows "on_block g (on_block f bs) = bs"
proof -
  obtain l r where f: "f (load_block (take 4 bs), load_block (take 4 (drop 4 bs))) = (l, r)"
    by fastforce
  have "g (l, r) = (load_block (take 4 bs), load_block (take 4 (drop 4 bs)))"
    using inv f by metis
  then have "on_block g (on_block f bs)
    = store_block (load_block (take 4 bs)) @ store_block (load_block (take 4 (drop 4 bs)))"
    by (simp add: on_block_def f)
  also have "\<dots> = take 4 bs @ take 4 (drop 4 bs)"
    using assms(1) by (simp add: store_load_block)
  also have "\<dots> = bs"
    using assms(1) append_take_drop_id [of 4 bs] by simp
  finally show ?thesis .
qed

lemma apply_rounds_0: "apply_rounds f 0 data = Some data"
  by (simp add: apply_rounds.simps)

lemma apply_rounds_block:
  assumes "length bs = 8" and "len > 0"
  shows "apply_rounds f len (bs @ data) =
    map_option (\<lambda>rest. on_block f bs @ rest) (apply_rounds f (len - 8) data)"
proof -
  have "(@) (us @ vs) = (\<lambda>rest. us @ vs @ rest)" for us vs :: "byte list"
    by (simp add: fun_eq_iff)
  with assms show ?thesis
    by (subst apply_rounds.simps) (simp add: on_block_def Let_def split: prod.split)
qed

lemma apply_rounds_inverse:
  assumes inv: "\<And>p. g (f p) = p"
  shows "8 * m \<le> length data \<Longrightarrow>
    \<exists>c. apply_rounds f (8 * m) data = Some c \<and> length c = length data
      \<and> drop (8 * m) c = drop (8 * m) data \<and> apply_rounds g (8 * m) c = Some data"
proof (induction m arbitrary: data)
  case 0
  then show ?case by (simp add: apply_rounds_0)
next
  case (Suc m)
  define bs where "bs = take 8 data"
  define rest where "rest = drop 8 data"
  have data: "data = bs @ rest" and l: "length bs = 8"
    using Suc.prems by (simp_all add: bs_def rest_def)
  from Suc.prems have "8 * m \<le> length rest" by (simp add: rest_def)
  then obtain c where c: "apply_rounds f (8 * m) rest = Some c" "length c = length rest"
    "drop (8 * m) c = drop (8 * m) rest" "apply_rounds g (8 * m) c = Some rest"
    using Suc.IH by blast
  have "apply_rounds f (8 * Suc m) data = Some (on_block f bs @ c)"
    using apply_rounds_block [OF l, of "8 * Suc m" f rest] c by (simp add: data)
  moreover have "apply_rounds g (8 * Suc m) (on_block f bs @ c) = Some data"
    using apply_rounds_block [of "on_block f bs" "8 * Suc m" g c] c
      on_block_inverse [of bs g f, OF l inv] by (simp add: data)
  ultimately show ?case using c l by (simp add: data)
qed

section \<open>Rounds\<close>

lemma decrypt_encrypt_round [simp]:
  "decrypt_round k next_sum sum0 (encrypt_round k sum0 next_sum p) = p"
  by (simp add: decrypt_round_def encrypt_round_def Let_def split: prod.split)

lemma decrypt_loop_last:
  "decrypt_loop (Suc m) s (s - xtea_delta) k len data =
     Option.bind (decrypt_loop m s (s - xtea_delta) k len data)
       (apply_rounds (decrypt_round k (s - of_nat m * xtea_delta) (s - of_nat (Suc m) * xtea_delta)) len)"
proof (induction m arbitrary: s data)
  case 0
  then show ?case by (cases "apply_rounds (decrypt_round k s (s - xtea_delta)) len data") simp_all
next
  case (Suc m)
  have e: "s - xtea_delta - of_nat m * xtea_delta = s - of_nat (Suc m) * xtea_delta"
    "s - xtea_delta - of_nat (Suc m) * xtea_delta = s - of_nat (Suc (Suc m)) * xtea_delta"
    by (simp_all add: algebra_simps)
  have "decrypt_loop (Suc m) (s - xtea_delta) (s - xtea_delta - xtea_delta) k len =
    (\<lambda>d. Option.bind (decrypt_loop m (s - xtea_delta) (s - xtea_delta - xtea_delta) k len d)
       (apply_rounds (decrypt_round k (s - of_nat (Suc m) * xtea_delta)
          (s - of_nat (Suc (Suc m)) * xtea_delta)) len))"
    using Suc.IH [of "s - xtea_delta"] by (simp only: e fun_eq_iff) simp
  then show ?case
    by (simp only: decrypt_loop.simps(2) [of "Suc m"] decrypt_loop.simps(2) [of m s]
        Option.bind_assoc)
qed

lemma encrypt_decrypt_loop:
  "8 * n \<le> length data \<Longrightarrow>
    \<exists>c. encrypt_loop m s (s + xtea_delta) k (8 * n) data = Some c \<and> length c = length data
      \<and> drop (8 * n) c = drop (8 * n) data
      \<and> decrypt_loop m (s + of_nat m * xtea_delta) (s + of_nat m * xtea_delta - xtea_delta) k (8 * n) c
          = Some data"
proof (induction m arbitrary: s data)
  case 0
  then show ?case by simp
next
  case (Suc m)
  obtain d where d: "apply_rounds (encrypt_round k s (s + xtea_delta)) (8 * n) data = Some d"
    "length d = length data" "drop (8 * n) d = drop (8 * n) data"
    "apply_rounds (decrypt_round k (s + xtea_delta) s) (8 * n) d = Some data"
    using apply_rounds_inverse [of "decrypt_round k (s + xtea_delta) s"
        "encrypt_round k s (s + xtea_delta)" n data] Suc.prems by auto
  from d(2) Suc.prems have "8 * n \<le> length d" by simp
  then obtain c where c: "encrypt_loop m (s + xtea_delta) (s + xtea_delta + xtea_delta) k (8 * n) d = Some c"
    "length c = length d" "drop (8 * n) c = drop (8 * n) d"
    "decrypt_loop m (s + xtea_delta + of_nat m * xtea_delta)
       (s + xtea_delta + of_nat m * xtea_delta - xtea_delta) k (8 * n) c = Some d"
    using Suc.IH [of d "s + xtea_delta"] by blast
  define t where "t = s + of_nat (Suc m) * xtea_delta"
  have t: "s + xtea_delta + of_nat m * xtea_delta = t" "t - of_nat m * xtea_delta = s + xtea_delta"
    "t - of_nat (Suc m) * xtea_delta = s"
    by (simp_all add: t_def algebra_simps)
  have "decrypt_loop (Suc m) t (t - xtea_delta) k (8 * n) c = Some data"
    using c(4) d(4) by (simp only: decrypt_loop_last t bind.simps)
  with c d show ?case by (simp add: t_def)
qed

lemma xtea_encrypt_decrypt:
  assumes "8 dvd len" and "len \<le> length data"
  shows "\<exists>c. xtea_encrypt data len k = Some c \<and> length c = length data
    \<and> drop len c = drop len data \<and> xtea_decrypt c len k = Some data"
proof -
  from assms(1) obtain n where n: "len = 8 * n" by (rule dvdE)
  have s: "push_bit 5 xtea_delta = 0 + of_nat 32 * xtea_delta"
    by (simp add: push_bit_eq_mult)
  show ?thesis
    using encrypt_decrypt_loop [of n data 32 0 k] assms(2)
    unfolding xtea_encrypt_def xtea_decrypt_def Let_def s n by simp
qed

section \<open>Bytes behind the blocks\<close>

lemma apply_rounds_append:
  "8 * m \<le> length xs \<Longrightarrow> \<exists>c. apply_rounds f (8 * m) xs = Some c \<and> length c = length xs
     \<and> (\<forall>ys. apply_rounds f (8 * m) (xs @ ys) = Some (c @ ys))"
proof (induction m arbitrary: xs)
  case 0
  then show ?case by (simp add: apply_rounds_0)
next
  case (Suc m)
  define bs where "bs = take 8 xs"
  define rest where "rest = drop 8 xs"
  have xs: "xs = bs @ rest" and l: "length bs = 8"
    using Suc.prems by (simp_all add: bs_def rest_def)
  from Suc.prems have "8 * m \<le> length rest" by (simp add: rest_def)
  then obtain c where "apply_rounds f (8 * m) rest = Some c" "length c = length rest"
    "\<forall>ys. apply_rounds f (8 * m) (rest @ ys) = Some (c @ ys)"
    using Suc.IH by blast
  then show ?case
    using apply_rounds_block [OF l, of "8 * Suc m" f] l by (simp add: xs)
qed

lemma decrypt_loop_append:
  "8 * n \<le> length xs \<Longrightarrow> \<exists>c. decrypt_loop m s t k (8 * n) xs = Some c \<and> length c = length xs
     \<and> (\<forall>ys. decrypt_loop m s t k (8 * n) (xs @ ys) = Some (c @ ys))"
proof (induction m arbitrary: s t xs)
  case 0
  then show ?case by simp
next
  case (Suc m)
  obtain d where d: "apply_rounds (decrypt_round k s t) (8 * n) xs = Some d" "length d = length xs"
    "\<forall>ys. apply_rounds (decrypt_round k s t) (8 * n) (xs @ ys) = Some (d @ ys)"
    using apply_rounds_append [OF Suc.prems] by blast
  then show ?case using Suc.IH [of d] Suc.prems by simp
qed

lemma xtea_decrypt_append:
  assumes "8 dvd len" and "len = length xs" and "xtea_decrypt (xs @ ys) len k = Some (c @ zs)"
    and "length c = len"
  shows "xtea_decrypt (xs @ ys') len k = Some (c @ ys')"
proof -
  from assms(1) obtain n where n: "len = 8 * n" by (rule dvdE)
  obtain c' where "length c' = length xs" "\<forall>ys. xtea_decrypt (xs @ ys) len k = Some (c' @ ys)"
    using decrypt_loop_append [of n xs 32 "push_bit 5 xtea_delta" "push_bit 5 xtea_delta - xtea_delta" k]
      assms(2) n by (auto simp: xtea_decrypt_def Let_def)
  with assms show ?thesis by simp
qed

text \<open>A length that is no multiple of 8 is rounded up to the next block.\<close>

lemma apply_rounds_total:
  "len \<le> 8 * m \<Longrightarrow> 8 * m \<le> length data \<Longrightarrow>
     \<exists>c. apply_rounds f len data = Some c \<and> length c = length data"
proof (induction m arbitrary: len data)
  case 0
  then show ?case by (simp add: apply_rounds_0)
next
  case (Suc m)
  define bs where "bs = take 8 data"
  define rest where "rest = drop 8 data"
  have d: "data = bs @ rest" and l: "length bs = 8"
    using Suc.prems by (simp_all add: bs_def rest_def)
  from Suc.prems have "len - 8 \<le> 8 * m" "8 * m \<le> length rest" by (simp_all add: rest_def)
  then obtain c where "apply_rounds f (len - 8) rest = Some c" "length c = length rest"
    using Suc.IH by blast
  then show ?case
    using apply_rounds_block [OF l, of len f rest] l by (cases "len = 0") (simp_all add: d apply_rounds_0)
qed

lemma xtea_encrypt_total:
  assumes "len \<le> 8 * m" and "8 * m \<le> length data"
  shows "\<exists>c. xtea_encrypt data len k = Some c \<and> length c = length data"
proof -
  have "\<exists>c. encrypt_loop i s t k len data = Some c \<and> length c = length data"
    if "8 * m \<le> length data" for i s t data
    using that
  proof (induction i arbitrary: s t data)
    case (Suc i)
    obtain d where "apply_rounds (encrypt_round k s t) len data = Some d" "length d = length data"
      using apply_rounds_total [OF assms(1) Suc.prems] by blast
    then show ?case using Suc.IH [of d] Suc.prems by simp
  qed simp
  then show ?thesis using assms(2) by (simp add: xtea_encrypt_def)
qed

section \<open>Properties\<close>

text \<open>
  Encrypting a whole number of 8-byte blocks that lie inside the buffer succeeds, keeps
  the buffer's length and every byte behind the blocks, and decrypting the result with the
  same key gives the original buffer back.
\<close>

theorem xtea_roundtrip:
  assumes "8 dvd len" and "len \<le> length data"
  shows "\<exists>c. xtea_encrypt data len k = Some c \<and> length c = length data
    \<and> drop len c = drop len data \<and> xtea_decrypt c len k = Some data"
  using assms by (rule xtea_encrypt_decrypt)

theorem xtea_roundtrip_witness:
  "\<exists>c. xtea_encrypt (replicate 20 7) 16 [1, 2, 3, 4] = Some c \<and> length c = 20
    \<and> drop 16 c = replicate 4 7 \<and> xtea_decrypt c 16 [1, 2, 3, 4] = Some (replicate 20 7)"
  using xtea_roundtrip [of 16 "replicate 20 7" "[1, 2, 3, 4]"] by simp

end
