(* ===== verification/Protocol.thy ===== *)
theory Protocol
  imports Network_Message Xtea
begin

text \<open>
  Outgoing messages and the protocol layer: \<^verbatim>\<open>src/src/outputmessage.h\<close>
  (headers written in front of the body, autosend buffers) and
  \<^verbatim>\<open>src/src/protocol.cpp\<close> (compression, XTEA and RSA framing of messages).
  The deflate stream of zlib and the RSA private-key operation of Crypto++ are parameters.
  A write or a cipher block outside the buffer, and a failed \<^verbatim>\<open>assert\<close>, is
  the value \<open>None\<close>.
\<close>

section \<open>Output messages\<close>

record out_msg =
  om_msg :: net_msg
  om_start :: nat

definition new_out :: "byte list \<Rightarrow> out_msg" where
  "new_out junk = \<lparr>om_msg = new_msg junk, om_start = INITIAL_BUFFER_POSITION\<rparr>"

definition add_header :: "('a \<Rightarrow> byte list) \<Rightarrow> nat \<Rightarrow> 'a \<Rightarrow> out_msg \<Rightarrow> out_msg option" where
  "add_header enc width v out =
     (if om_start out < width then None
      else (let start = om_start out - width; m = om_msg out in
        Some \<lparr>om_msg = m\<lparr>msg_buffer := poke start (enc v) (msg_buffer m),
                       msg_len := wrap16 (msg_len m + width)\<rparr>,
              om_start = start\<rparr>))"

definition writeMessageLength :: "out_msg \<Rightarrow> out_msg option" where
  "writeMessageLength out = add_header enc16 2 (of_nat (msg_len (om_msg out))) out"

definition output_bytes :: "out_msg \<Rightarrow> byte list" where
  "output_bytes out = peek (om_start out) (msg_len (om_msg out)) (msg_buffer (om_msg out))"

definition addCryptoHeader :: "bool \<Rightarrow> bool \<Rightarrow> out_msg \<Rightarrow> out_msg option" where
  "addCryptoHeader addChecksum compressed out =
     Option.bind
       (if compressed then add_header enc32 4 0 out
        else if addChecksum then add_header enc32 4 (adlerChecksum (output_bytes out)) out
        else Some out)
       writeMessageLength"

text \<open>\<^verbatim>\<open>append\<close> copies the body of another message without a bound check.\<close>

definition append_msg :: "net_msg \<Rightarrow> out_msg \<Rightarrow> out_msg option" where
  "append_msg src out =
     (let bs = peek 8 (msg_len src) (msg_buffer src); m = om_msg out in
      if length bs < msg_len src \<or> msg_pos m + length bs > length (msg_buffer m) then None
      else Some (out\<lparr>om_msg := msg_put bs m\<rparr>))"

section \<open>Protocol\<close>

record protocol_state =
  p_key :: xtea_key
  p_encryption :: bool
  p_checksum :: bool
  p_raw :: bool
  p_compression :: bool

definition new_protocol :: protocol_state where
  "new_protocol = \<lparr>p_key = [0, 0, 0, 0], p_encryption = False, p_checksum = True, p_raw = False,
     p_compression = False\<rparr>"

definition enableXTEAEncryption :: "protocol_state \<Rightarrow> protocol_state" where
  "enableXTEAEncryption p = p\<lparr>p_encryption := True\<rparr>"
definition setXTEAKey :: "xtea_key \<Rightarrow> protocol_state \<Rightarrow> protocol_state" where
  "setXTEAKey k p = p\<lparr>p_key := k\<rparr>"
definition disableChecksum :: "protocol_state \<Rightarrow> protocol_state" where
  "disableChecksum p = p\<lparr>p_checksum := False\<rparr>"
definition setRawMessages :: "bool \<Rightarrow> protocol_state \<Rightarrow> protocol_state" where
  "setRawMessages v p = p\<lparr>p_raw := v\<rparr>"

text \<open>
  \<^verbatim>\<open>compress\<close>; the stream answers with its next state, whether it returned
  \<^verbatim>\<open>Z_OK\<close>, and the bytes it produced.
\<close>

definition compress ::
  "('z \<Rightarrow> byte list \<Rightarrow> 'z \<times> bool \<times> byte list) \<Rightarrow> 'z \<Rightarrow> out_msg \<Rightarrow> 'z \<times> out_msg" where
  "compress deflate z out =
     (let (z, ok, produced) = deflate z (output_bytes out) in
      if \<not> ok then (z, out)
      else if length produced < 4 then (z, out)
      else (z, out\<lparr>om_msg := addBytes (take (length produced - 4) produced) (msg_reset (om_msg out))\<rparr>))"

definition XTEA_encrypt :: "protocol_state \<Rightarrow> out_msg \<Rightarrow> out_msg option" where
  "XTEA_encrypt p out =
     (let paddingBytes = msg_len (om_msg out) mod 8;
          m = (if paddingBytes \<noteq> 0 then addPaddingBytes (8 - paddingBytes) (om_msg out) else om_msg out);
          start = om_start out
      in map_option
           (\<lambda>c. out\<lparr>om_msg := m\<lparr>msg_buffer := take start (msg_buffer m) @ c\<rparr>\<rparr>)
           (xtea_encrypt (drop start (msg_buffer m)) (msg_len m) (p_key p)))"

definition onSendMessage ::
  "('z \<Rightarrow> byte list \<Rightarrow> 'z \<times> bool \<times> byte list) \<Rightarrow> protocol_state \<Rightarrow> 'z \<Rightarrow> out_msg
     \<Rightarrow> ('z \<times> out_msg) option" where
  "onSendMessage deflate p z out =
     (if p_raw p then Some (z, out)
      else
        (let compressed = (p_compression p \<and> msg_len (om_msg out) > 64);
             (z, out) = (if compressed then compress deflate z out else (z, out))
         in map_option (Pair z)
              (Option.bind (writeMessageLength out) (\<lambda>out.
                 if p_encryption p
                 then Option.bind (XTEA_encrypt p out) (addCryptoHeader (p_checksum p) compressed)
                 else Some out))))"

text \<open>\<^verbatim>\<open>XTEA_decrypt\<close>: whether the message was accepted, and the message.\<close>

definition XTEA_decrypt :: "protocol_state \<Rightarrow> net_msg \<Rightarrow> (bool \<times> net_msg) option" where
  "XTEA_decrypt p m =
     (if (int (msg_len m) - 6) AND 7 \<noteq> 0 then Some (False, m)
      else map_option
        (\<lambda>c. let m = m\<lparr>msg_buffer := take (msg_pos m) (msg_buffer m) @ c\<rparr>;
                 (innerLength, m) = msg_get dec16 2 m
             in if unat innerLength + 8 > msg_len m then (False, m)
                else (True, setLength (unat innerLength) m))
        (xtea_decrypt (drop (msg_pos m) (msg_buffer m)) (nat (int (msg_len m) - 6)) (p_key p)))"

text \<open>The message handed to \<^verbatim>\<open>parsePacket\<close>, if it is.\<close>

definition onRecvMessage :: "protocol_state \<Rightarrow> net_msg \<Rightarrow> net_msg option option" where
  "onRecvMessage p m =
     (if p_encryption p
      then map_option (\<lambda>(ok, m). if ok then Some m else None) (XTEA_decrypt p m)
      else Some (Some m))"

definition RSA_decrypt :: "(byte list \<Rightarrow> byte list) \<Rightarrow> net_msg \<Rightarrow> bool \<times> net_msg" where
  "RSA_decrypt rsa m =
     (if int (msg_len m) - int (msg_pos m) < 128 then (False, m)
      else (let (b, m) = getByte (m\<lparr>msg_buffer := poke (msg_pos m)
                  (rsa (peek (msg_pos m) 128 (msg_buffer m))) (msg_buffer m)\<rparr>)
            in (b = 0, m)))"

text \<open>
  \<^verbatim>\<open>getOutputBuffer\<close>: the buffer to write to, and the message to send first
  when the current one has no room left.
\<close>

definition getOutputBuffer :: "byte list \<Rightarrow> nat \<Rightarrow> out_msg option \<Rightarrow> out_msg \<times> out_msg option" where
  "getOutputBuffer junk n outputBuffer =
     (case outputBuffer of
        None \<Rightarrow> (new_out junk, None)
      | Some out \<Rightarrow>
          if msg_len (om_msg out) + n > MAX_PROTOCOL_BODY_LENGTH then (new_out junk, Some out)
          else (out, None))"

section \<open>Lemmas on framing\<close>

lemma poke_poke_before:
  "p + length as = q \<Longrightarrow> q + length bs \<le> length buffer \<Longrightarrow>
     poke p as (poke q bs buffer) = poke p (as @ bs) buffer"
  by (simp add: poke_def min_def add.assoc [symmetric])

lemma poke_split:
  "pos + length bs \<le> length buffer \<Longrightarrow> take pos (poke pos bs buffer) = take pos buffer
    \<and> drop pos (poke pos bs buffer) = bs @ drop (pos + length bs) buffer"
  by (simp add: poke_def)

text \<open>Writing the inner length turns the content into the plain text of the frame.\<close>

definition padding :: "nat \<Rightarrow> byte list" where
  "padding n = replicate ((8 - n mod 8) mod 8) 0x33"

definition plain_frame :: "byte list \<Rightarrow> byte list" where
  "plain_frame c = (let bs = enc16 (of_nat (length c)) @ c in bs @ padding (length bs))"

lemma pad_to_eight: "8 dvd (n :: nat) + (8 - n mod 8) mod 8"
  and pad_bound: "n \<le> 8 * k \<Longrightarrow> n + (8 - n mod 8) mod 8 \<le> 8 * k"
proof -
  obtain q r where n: "n = 8 * q + r" "r < 8"
    by (metis mult_div_mod_eq mod_less_divisor zero_less_numeral)
  then have m: "n mod 8 = r" by simp
  show "8 dvd n + (8 - n mod 8) mod 8"
  proof (cases "r = 0")
    case False
    then have "n + (8 - n mod 8) mod 8 = 8 * (q + 1)" using n unfolding m by simp
    then show ?thesis by (metis dvd_triv_left)
  qed (use n in simp)
  show "n + (8 - n mod 8) mod 8 \<le> 8 * k" if "n \<le> 8 * k"
  proof (cases "r = 0")
    case False
    with n that have "q < k" by simp
    then show ?thesis using False n unfolding m by simp
  qed (use n that in simp)
qed

lemma length_plain_frame:
  "length (plain_frame c) = length c + 2 + (8 - (length c + 2) mod 8) mod 8"
  by (simp add: plain_frame_def padding_def Let_def mem16.enc_length)

lemma writeMessageLength_content:
  assumes "writer_ok (om_msg out)" and "om_start out = INITIAL_BUFFER_POSITION"
    and "content (om_msg out) = c"
  shows "\<exists>out'. writeMessageLength out = Some out' \<and> om_start out' = 6
    \<and> msg_len (om_msg out') = length c + 2 \<and> msg_pos (om_msg out') = length c + 8
    \<and> length (msg_buffer (om_msg out')) = 65535
    \<and> peek 6 (length c + 2) (msg_buffer (om_msg out')) = enc16 (of_nat (length c)) @ c"
proof -
  let ?m = "om_msg out"
  have b: "length (msg_buffer ?m) = 65535" "msg_pos ?m = msg_len ?m + 8" "msg_pos ?m < 65521"
    using assms(1) by (simp_all add: writer_ok_def message_consts)
  have c: "peek 8 (msg_len ?m) (msg_buffer ?m) = c" "length c = msg_len ?m"
    using assms(3) b by (auto simp: content_def message_consts)
  let ?b = "poke 6 (enc16 (of_nat (msg_len ?m))) (msg_buffer ?m)"
  have "peek 6 (2 + msg_len ?m) ?b = peek 6 2 ?b @ peek 8 (msg_len ?m) ?b"
    using peek_append [of 6 2 "msg_len ?m" ?b] by simp
  also have "\<dots> = enc16 (of_nat (msg_len ?m)) @ c"
    using b c by (simp add: peek_poke_after mem16.enc_length)
  finally show ?thesis
    using b c(2) assms(2)
    by (simp add: writeMessageLength_def add_header_def message_consts wrap16_def mem16.enc_length
        add.commute Let_def)
qed

lemma padded_content:
  assumes "length (msg_buffer m) = 65535" and "msg_len m = length c + 2" and "msg_pos m = length c + 8"
    and "peek 6 (length c + 2) (msg_buffer m) = enc16 (of_nat (length c)) @ c" and "length c \<le> 65510"
  shows "let n = msg_len m mod 8; m' = (if n \<noteq> 0 then addPaddingBytes (8 - n) m else m) in
    length (msg_buffer m') = 65535 \<and> msg_len m' = length (plain_frame c)
    \<and> peek 6 (length (plain_frame c)) (msg_buffer m') = plain_frame c"
proof (cases "msg_len m mod 8 = 0")
  case True
  then show ?thesis
    using assms by (simp add: length_plain_frame) (simp add: plain_frame_def padding_def mem16.enc_length)
next
  case False
  define k where "k = 8 - msg_len m mod 8"
  have n: "(8 - (length c + 2) mod 8) mod 8 = k" using False assms(2) by (simp add: k_def)
  have b: "length c + 8 + k < 65521"
  proof -
    have "length c + 8 + (8 - (length c + 2) mod 8) < 65521"
      using assms(5) False assms(2) by presburger
    then show ?thesis using assms(2) by (simp add: k_def)
  qed
  have f: "plain_frame c = (enc16 (of_nat (length c)) @ c) @ replicate k 0x33"
    using n by (simp add: plain_frame_def padding_def mem16.enc_length)
  then have l: "length (plain_frame c) = length c + 2 + k" by (simp add: mem16.enc_length)
  have p: "addPaddingBytes k m =
    m\<lparr>msg_buffer := poke (length c + 8) (replicate k 0x33) (msg_buffer m), msg_len := length c + 2 + k\<rparr>"
    using b assms(2,3) by (simp add: addPaddingBytes_def canAdd_def message_consts wrap16_def)
  have "peek 6 (length c + 2 + k) (poke (length c + 8) (replicate k 0x33) (msg_buffer m)) = plain_frame c"
    using assms b f peek_append [of 6 "length c + 2" k "poke (length c + 8) (replicate k 0x33) (msg_buffer m)"]
    by (simp add: peek_poke_before add.commute)
  with assms(1) b False show ?thesis
    by (simp only: k_def [symmetric] Let_def p l if_True) simp
qed

lemma xtea_encrypt_prefix:
  assumes "8 dvd n" and "n \<le> length data"
  shows "\<exists>cph. xtea_encrypt data n k = Some (cph @ drop n data) \<and> length cph = n
    \<and> (\<forall>ys. xtea_decrypt (cph @ ys) n k = Some (take n data @ ys))"
proof -
  obtain c where c: "xtea_encrypt data n k = Some c" "length c = length data"
    "drop n c = drop n data" "xtea_decrypt c n k = Some data"
    using xtea_encrypt_decrypt [OF assms] by blast
  have e: "c = take n c @ drop n data" using c(3) by (metis append_take_drop_id)
  moreover have l: "length (take n c) = n" using c(2) assms(2) by simp
  moreover have "xtea_decrypt (take n c @ ys) n k = Some (take n data @ ys)" for ys
    using xtea_decrypt_append [OF assms(1), of "take n c" "drop n data" k "take n data" "drop n data" ys]
      c(4) e l assms(2) by simp
  ultimately show ?thesis using c(1) by metis
qed

text \<open>The headers in front of the cipher text.\<close>

lemma crypto_headers:
  assumes "om_start out = 6" and "length (msg_buffer (om_msg out)) = 65535"
    and "peek 6 n (msg_buffer (om_msg out)) = cph" and "msg_len (om_msg out) = n" and "n + 6 < 65536"
    and "length cph = n"
  shows "\<exists>out'. Option.bind (add_header enc32 4 v out) writeMessageLength = Some out'
      \<and> output_bytes out' = enc16 (of_nat (n + 4)) @ enc32 v @ cph"
    and "\<exists>out'. writeMessageLength out = Some out' \<and> output_bytes out' = enc16 (of_nat n) @ cph"
proof -
  let ?b = "msg_buffer (om_msg out)"
  let ?c = "enc32 v" and ?l = "enc16 (of_nat (n + 4))" and ?s = "enc16 (of_nat n)"
  have p: "poke 0 ?l (poke 2 ?c ?b) = poke 0 (?l @ ?c) ?b"
    using assms(2) by (intro poke_poke_before) (simp_all add: mem16.enc_length mem32.enc_length)
  have n: "n + 6 \<le> 65535" using assms(5) by simp
  have "peek 0 (6 + n) (poke 0 (?l @ ?c) ?b) = peek 0 6 (poke 0 (?l @ ?c) ?b) @ peek 6 n (poke 0 (?l @ ?c) ?b)"
    using peek_append [of 0 6 n] by simp
  also have "\<dots> = (?l @ ?c) @ cph"
    using assms(2,3) n by (simp add: peek_poke_after mem16.enc_length mem32.enc_length)
  finally show "\<exists>out'. Option.bind (add_header enc32 4 v out) writeMessageLength = Some out'
      \<and> output_bytes out' = enc16 (of_nat (n + 4)) @ enc32 v @ cph"
    using assms n p
    by (simp add: add_header_def writeMessageLength_def output_bytes_def Let_def
        wrap16_def mem16.enc_length mem32.enc_length add.commute)
  have "peek 4 (2 + n) (poke 4 ?s ?b) = peek 4 2 (poke 4 ?s ?b) @ peek 6 n (poke 4 ?s ?b)"
    using peek_append [of 4 2 n] by simp
  also have "\<dots> = ?s @ cph"
    using assms(2,3) n by (simp add: peek_poke_after mem16.enc_length)
  finally show "\<exists>out'. writeMessageLength out = Some out' \<and> output_bytes out' = ?s @ cph"
    using assms n
    by (simp add: add_header_def writeMessageLength_def output_bytes_def Let_def wrap16_def mem16.enc_length add.commute)
qed

text \<open>
  What is put on the wire: a message of more than 64 bytes of a protocol with compression is sent as
  what the stream produced, without its last four bytes, or as it is when the stream fails; the four
  bytes before the cipher text are 0 for such a message, else the checksum, unless checksums are off.
\<close>

definition compresses :: "protocol_state \<Rightarrow> out_msg \<Rightarrow> bool" where
  "compresses p out \<longleftrightarrow> p_compression p \<and> msg_len (om_msg out) > 64"

definition sent_content ::
  "('z \<Rightarrow> byte list \<Rightarrow> 'z \<times> bool \<times> byte list) \<Rightarrow> protocol_state \<Rightarrow> 'z \<Rightarrow> out_msg \<Rightarrow> byte list" where
  "sent_content deflate p z out =
     (if compresses p out then
        (let (_, ok, produced) = deflate z (content (om_msg out)) in
         if ok \<and> 4 \<le> length produced then take (length produced - 4) produced else content (om_msg out))
      else content (om_msg out))"

definition check_bytes :: "protocol_state \<Rightarrow> out_msg \<Rightarrow> byte list \<Rightarrow> byte list" where
  "check_bytes p out cph =
     (if compresses p out then enc32 0 else if p_checksum p then enc32 (adlerChecksum cph) else [])"

lemma compress_content:
  assumes "writer_ok (om_msg out)" and "om_start out = INITIAL_BUFFER_POSITION" and "compresses p out"
    and "length (sent_content deflate p z out) \<le> 65510"
  shows "\<exists>z' o0. compress deflate z out = (z', o0) \<and> writer_ok (om_msg o0) \<and> om_start o0 = INITIAL_BUFFER_POSITION
    \<and> content (om_msg o0) = sent_content deflate p z out"
proof -
  have b: "output_bytes out = content (om_msg out)" using assms(2) by (simp add: output_bytes_def content_def)
  obtain z' ok produced where d: "deflate z (content (om_msg out)) = (z', ok, produced)" by (metis prod_cases3)
  show ?thesis
  proof (cases "ok \<and> 4 \<le> length produced")
    case True
    let ?bs = "take (length produced - 4) produced" and ?m = "msg_reset (om_msg out)"
    have s: "sent_content deflate p z out = ?bs" using True assms(3) d by (simp add: sent_content_def)
    have w: "writer_ok ?m" "content ?m = []"
      using assms(1) by (simp_all add: msg_reset_def writer_ok_def content_def peek_def message_consts)
    have a: "canAdd (length ?bs) ?m"
      using assms(4) unfolding s by (simp add: canAdd_def msg_reset_def message_consts)
    have "writer_ok (addBytes ?bs ?m)" "content (addBytes ?bs ?m) = ?bs"
      using writer_put [OF w(1) a] a w(2) by (simp_all add: addBytes_def)
    then show ?thesis using True d s assms(2) by (simp add: compress_def b)
  next
    case False
    then have "sent_content deflate p z out = content (om_msg out)" using assms(3) d by (auto simp: sent_content_def)
    moreover have "compress deflate z out = (z', out)" using False d by (auto simp: compress_def b)
    ultimately show ?thesis using assms(1,2) by simp
  qed
qed

text \<open>Padding, cipher and headers of a message whose inner length is written.\<close>

lemma XTEA_encrypt_frame:
  assumes o1: "om_start o1 = 6" "msg_len (om_msg o1) = length c + 2" "msg_pos (om_msg o1) = length c + 8"
    "length (msg_buffer (om_msg o1)) = 65535" "peek 6 (length c + 2) (msg_buffer (om_msg o1)) = enc16 (of_nat (length c)) @ c"
    and "length c \<le> 65510"
  shows "\<exists>cph o2. XTEA_encrypt p o1 = Some o2 \<and> length cph = length (plain_frame c)
    \<and> (\<forall>ys. xtea_decrypt (cph @ ys) (length cph) (p_key p) = Some (plain_frame c @ ys))
    \<and> om_start o2 = 6 \<and> length (msg_buffer (om_msg o2)) = 65535 \<and> msg_len (om_msg o2) = length cph
    \<and> length cph + 6 < 65536 \<and> peek 6 (length cph) (msg_buffer (om_msg o2)) = cph"
proof -
  let ?N = "length (plain_frame c)"
  define m where "m = (let n = msg_len (om_msg o1) mod 8 in
    if n \<noteq> 0 then addPaddingBytes (8 - n) (om_msg o1) else om_msg o1)"
  have m: "length (msg_buffer m) = 65535" "msg_len m = ?N" "peek 6 ?N (msg_buffer m) = plain_frame c"
    using padded_content [OF o1(4,2,3,5) assms(6)] by (simp_all add: m_def Let_def)
  have "length c + 2 + (8 - (length c + 2) mod 8) mod 8 \<le> 8 * 8189"
    using assms(6) by (intro pad_bound) simp
  then have N: "8 dvd ?N" "?N \<le> 65519" using pad_to_eight [of "length c + 2"] by (simp_all add: length_plain_frame)
  with m(1) have "?N \<le> length (drop 6 (msg_buffer m))" by simp
  then obtain cph where cph: "xtea_encrypt (drop 6 (msg_buffer m)) ?N (p_key p)
      = Some (cph @ drop ?N (drop 6 (msg_buffer m)))" "length cph = ?N"
    "\<forall>ys. xtea_decrypt (cph @ ys) ?N (p_key p) = Some (take ?N (drop 6 (msg_buffer m)) @ ys)"
    using xtea_encrypt_prefix [OF N(1)] by blast
  define b where "b = take 6 (msg_buffer m) @ cph @ drop ?N (drop 6 (msg_buffer m))"
  let ?o2 = "o1\<lparr>om_msg := m\<lparr>msg_buffer := b\<rparr>\<rparr>"
  have b: "length b = 65535" "peek 6 ?N b = cph"
    using m(1) N(2) cph(2) by (simp_all add: b_def peek_def)
  have "XTEA_encrypt p o1 =
    map_option (\<lambda>c. o1\<lparr>om_msg := m\<lparr>msg_buffer := take (om_start o1) (msg_buffer m) @ c\<rparr>\<rparr>)
      (xtea_encrypt (drop (om_start o1) (msg_buffer m)) (msg_len m) (p_key p))"
    by (simp only: XTEA_encrypt_def m_def Let_def)
  then have "XTEA_encrypt p o1 = Some ?o2"
    using o1(1) cph(1) m(2) by (simp add: b_def)
  then show ?thesis
    using o1(1) cph(2,3) m(2,3) N(2) b by (intro exI [of _ cph] exI [of _ ?o2]) (simp add: peek_def)
qed

lemma onSendMessage_frame:
  assumes "\<not> p_raw p" "p_encryption p" and "writer_ok (om_msg out)" and "om_start out = INITIAL_BUFFER_POSITION"
    and "sent_content deflate p z out = c" and "length c \<le> 65510"
  shows "\<exists>z' cph out'. onSendMessage deflate p z out = Some (z', out')
    \<and> length cph = length (plain_frame c)
    \<and> (\<forall>ys. xtea_decrypt (cph @ ys) (length cph) (p_key p) = Some (plain_frame c @ ys))
    \<and> output_bytes out' = enc16 (of_nat (length cph + length (check_bytes p out cph))) @ check_bytes p out cph @ cph"
proof -
  obtain z' o0 where o0: "(if compresses p out then compress deflate z out else (z, out)) = (z', o0)"
    "writer_ok (om_msg o0)" "om_start o0 = INITIAL_BUFFER_POSITION" "content (om_msg o0) = c"
    using compress_content [OF assms(3,4), of p deflate z] assms(3-6) by (cases "compresses p out") (auto simp: sent_content_def)
  obtain o1 where o1: "writeMessageLength o0 = Some o1" "om_start o1 = 6"
    "msg_len (om_msg o1) = length c + 2" "msg_pos (om_msg o1) = length c + 8"
    "length (msg_buffer (om_msg o1)) = 65535"
    "peek 6 (length c + 2) (msg_buffer (om_msg o1)) = enc16 (of_nat (length c)) @ c"
    using writeMessageLength_content [OF o0(2-4)] by blast
  obtain cph o2 where o2: "XTEA_encrypt p o1 = Some o2" "length cph = length (plain_frame c)"
    "\<forall>ys. xtea_decrypt (cph @ ys) (length cph) (p_key p) = Some (plain_frame c @ ys)"
    "om_start o2 = 6" "length (msg_buffer (om_msg o2)) = 65535" "msg_len (om_msg o2) = length cph"
    "length cph + 6 < 65536" "peek 6 (length cph) (msg_buffer (om_msg o2)) = cph"
    using XTEA_encrypt_frame [OF o1(2-6) assms(6)] by blast
  note h = crypto_headers [OF o2(4,5,8,6,7) refl]
  have "output_bytes o2 = cph" using o2(4,6,8) by (simp add: output_bytes_def)
  then have "\<exists>o3. addCryptoHeader (p_checksum p) (compresses p out) o2 = Some o3
      \<and> output_bytes o3 = enc16 (of_nat (length cph + length (check_bytes p out cph))) @ check_bytes p out cph @ cph"
    using h(1) [of 0] h(1) [of "adlerChecksum cph"] h(2)
    by (auto simp: addCryptoHeader_def check_bytes_def mem32.enc_length)
  then obtain o3 where o3: "addCryptoHeader (p_checksum p) (compresses p out) o2 = Some o3"
    "output_bytes o3 = enc16 (of_nat (length cph + length (check_bytes p out cph))) @ check_bytes p out cph @ cph" by blast
  have "onSendMessage deflate p z out = Some (z', o3)"
    using assms(1,2) o0(1) o1(1) o2(1) o3(1) unfolding compresses_def by (simp add: onSendMessage_def Let_def)
  then show ?thesis using o2(2,3) o3(2) by blast
qed

text \<open>The receiver's side, on a message whose first bytes are a frame.\<close>

lemma onRecvMessage_frame:
  assumes "p_encryption p" and "length (msg_buffer m) = NETWORKMESSAGE_MAXSIZE"
    and "msg_pos m = 6" and "msg_len m = length cph + 6" and "peek 6 (length cph) (msg_buffer m) = cph"
    and "length cph = length (plain_frame c)" and "length c \<le> 65510"
    and "\<forall>ys. xtea_decrypt (cph @ ys) (length cph) (p_key p) = Some (plain_frame c @ ys)"
  shows "\<exists>m'. onRecvMessage p m = Some (Some m') \<and> msg_pos m' = 8 \<and> msg_len m' = length c
    \<and> unread m' = c \<and> reader_ok m'"
proof -
  let ?N = "length cph"
  have N: "8 dvd ?N" "length c + 2 \<le> ?N" "?N \<le> 65519"
  proof -
    have "length c + 2 + (8 - (length c + 2) mod 8) mod 8 \<le> 8 * 8189"
      using assms(7) by (intro pad_bound) simp
    then show "8 dvd ?N" "length c + 2 \<le> ?N" "?N \<le> 65519"
      using pad_to_eight [of "length c + 2"] by (simp_all add: assms(6) length_plain_frame)
  qed
  have d: "drop 6 (msg_buffer m) = cph @ drop (6 + ?N) (msg_buffer m)"
    using assms(5) by (metis append_take_drop_id drop_drop peek_def add.commute)
  let ?b = "take 6 (msg_buffer m) @ plain_frame c @ drop (6 + ?N) (msg_buffer m)"
  let ?m = "m\<lparr>msg_buffer := ?b\<rparr>"
  have b: "length ?b = 65535" using assms(2,6) N(3) by (simp add: message_consts)
  have pf: "plain_frame c = enc16 (of_nat (length c)) @ c @ padding (length c + 2)"
    by (simp add: plain_frame_def mem16.enc_length Let_def add.commute)
  have t: "take 2 (drop 6 ?b) = enc16 (of_nat (length c))" "take (length c) (drop 8 ?b) = c"
    using b assms(2) by (simp_all add: pf mem16.enc_length message_consts)
  have g: "msg_get dec16 2 ?m = (of_nat (length c), ?m\<lparr>msg_pos := 8\<rparr>)"
    using assms(3,4) N t(1) by (simp add: msg_get_def canRead_def message_consts peek_def wrap16_def mem16.dec_enc)
  have i: "(int (msg_len m) - 6) AND 7 = 0"
  proof -
    have "int (msg_len m) - 6 = int ?N" using assms(4) by simp
    moreover have "int ?N mod 8 = 0" using N(1) by presburger
    moreover have "int ?N AND 7 = int ?N mod 8"
      using take_bit_eq_mask [of 3 "int ?N"] by (simp add: take_bit_eq_mod mask_eq_exp_minus_1)
    ultimately show ?thesis by simp
  qed
  have u: "unat (of_nat (length c) :: u16) = length c" using assms(7) by (simp add: unat_of_nat)
  have n: "nat (int (msg_len m) - 6) = ?N" using assms(4) by simp
  have "XTEA_decrypt p m = Some (True, setLength (length c) (?m\<lparr>msg_pos := 8\<rparr>))"
    using g i u n N(2) assms(3,4,8) d
    by (simp add: XTEA_decrypt_def)
  then have r: "onRecvMessage p m = Some (Some (setLength (length c) (?m\<lparr>msg_pos := 8\<rparr>)))"
    using assms(1) by (simp add: onRecvMessage_def)
  have w: "setLength (length c) (?m\<lparr>msg_pos := 8\<rparr>) = ?m\<lparr>msg_pos := 8, msg_len := length c\<rparr>"
    using assms(7) by (simp add: setLength_def wrap16_def)
  show ?thesis
    using b t(2) assms(7) by (simp add: r w unread_def reader_ok_def peek_def message_consts)
qed

section \<open>Properties\<close>


text \<open>A message of 70 bytes that is compressed to 16, and read as these by the peer.\<close>

definition sample_deflate :: "unit \<Rightarrow> byte list \<Rightarrow> unit \<times> bool \<times> byte list" where
  "sample_deflate z bs = ((), True, take 20 bs)"

definition long_message :: out_msg where
  "long_message = \<lparr>om_msg = addBytes (replicate 70 7) (new_msg (replicate NETWORKMESSAGE_MAXSIZE 0)), om_start = INITIAL_BUFFER_POSITION\<rparr>"

lemma long_message_facts:
  "writer_ok (om_msg long_message)" "content (om_msg long_message) = replicate 70 7" "msg_len (om_msg long_message) = 70"
proof -
  let ?n = "new_msg (replicate NETWORKMESSAGE_MAXSIZE 0)"
  have a: "canAdd (length (replicate 70 (7 :: byte))) ?n" by (simp add: canAdd_def new_msg_def message_consts)
  have w: "writer_ok ?n" by (rule new_msg_writer) simp
  show "writer_ok (om_msg long_message)" "content (om_msg long_message) = replicate 70 7" "msg_len (om_msg long_message) = 70"
    using writer_put [OF w a] a
    by (simp_all add: long_message_def addBytes_def new_msg_content) (simp add: msg_put_def new_msg_def wrap16_def)
qed


text \<open>
  \<^verbatim>\<open>getOutputBuffer\<close> returns a buffer in which a write of the announced size
  is not dropped, and it hands over the previous buffer, unchanged, exactly when that one has
  no room for the size.
\<close>

theorem getOutputBuffer_room:
  assumes "length junk = NETWORKMESSAGE_MAXSIZE" and "n \<le> MAX_PROTOCOL_BODY_LENGTH"
    and "\<And>out. buf = Some out \<Longrightarrow> writer_ok (om_msg out)"
    and "getOutputBuffer junk n buf = (out, sent)"
  shows "writer_ok (om_msg out) \<and> canAdd n (om_msg out)
    \<and> (case sent of None \<Rightarrow> buf = None \<or> buf = Some out
         | Some old \<Rightarrow> buf = Some old \<and> msg_len (om_msg old) + n > MAX_PROTOCOL_BODY_LENGTH)"
proof -
  have new: "writer_ok (om_msg (new_out junk)) \<and> canAdd n (om_msg (new_out junk))"
    using new_msg_writer [OF assms(1)] assms(2)
    by (simp add: new_out_def canAdd_def new_msg_def message_consts)
  show ?thesis
  proof (cases buf)
    case None
    with assms(4) new show ?thesis by (auto simp: getOutputBuffer_def)
  next
    case (Some b)
    with assms(3,4) new show ?thesis
      by (auto simp: getOutputBuffer_def canAdd_def writer_ok_def message_consts split: if_splits)
  qed
qed

theorem getOutputBuffer_room_witness:
  "let junk = replicate NETWORKMESSAGE_MAXSIZE 0; (out, sent) = getOutputBuffer junk 100 None
   in writer_ok (om_msg out) \<and> canAdd 100 (om_msg out)"
  using getOutputBuffer_room [of "replicate NETWORKMESSAGE_MAXSIZE 0" 100 None
      "new_out (replicate NETWORKMESSAGE_MAXSIZE 0)" None]
  by (simp add: getOutputBuffer_def message_consts)

text \<open>
  A buffer filled to the limit that \<^verbatim>\<open>getOutputBuffer\<close> allows has no room
  for the padding: the message is encrypted with a length that is no multiple of 8, and every
  peer that follows the server's own receiving code refuses it.
\<close>

theorem full_buffer_unpadded:
  assumes "writer_ok (om_msg out)" and "om_start out = INITIAL_BUFFER_POSITION"
    and "msg_len (om_msg out) = MAX_PROTOCOL_BODY_LENGTH"
  shows "\<exists>o1 o2. writeMessageLength out = Some o1 \<and> XTEA_encrypt p o1 = Some o2
    \<and> msg_len (om_msg o2) = MAX_PROTOCOL_BODY_LENGTH + 2
    \<and> XTEA_decrypt q (r\<lparr>msg_len := msg_len (om_msg o2) + 6\<rparr>)
        = Some (False, r\<lparr>msg_len := msg_len (om_msg o2) + 6\<rparr>)"
proof -
  obtain o1 where o1: "writeMessageLength out = Some o1" "om_start o1 = 6"
    "msg_len (om_msg o1) = 65513" "msg_pos (om_msg o1) = 65519" "length (msg_buffer (om_msg o1)) = 65535"
    using writeMessageLength_content [OF assms(1,2) refl] assms(1,3)
    by (auto simp: content_def writer_ok_def message_consts)
  have pad: "addPaddingBytes 7 (om_msg o1) = om_msg o1"
    using o1(4) by (simp add: addPaddingBytes_def canAdd_def message_consts)
  obtain c where "xtea_encrypt (drop 6 (msg_buffer (om_msg o1))) 65513 (p_key p) = Some c"
    using xtea_encrypt_total [of 65513 8190 "drop 6 (msg_buffer (om_msg o1))"] o1(5) by auto
  then obtain o2 where o2: "XTEA_encrypt p o1 = Some o2" "msg_len (om_msg o2) = 65513"
    using o1(2,3) pad by (simp add: XTEA_encrypt_def Let_def)
  then show ?thesis
    using o1(1) by (intro exI [of _ o1] exI [of _ o2]) (simp add: XTEA_decrypt_def message_consts)
qed

theorem full_buffer_unpadded_witness:
  "\<exists>o1 o2. writeMessageLength \<lparr>om_msg = msg_put (replicate 65511 0) (new_msg (replicate NETWORKMESSAGE_MAXSIZE 0)),
        om_start = INITIAL_BUFFER_POSITION\<rparr> = Some o1 \<and> XTEA_encrypt new_protocol o1 = Some o2
    \<and> msg_len (om_msg o2) mod 8 = 1"
proof -
  let ?new = "new_msg (replicate NETWORKMESSAGE_MAXSIZE 0)"
  let ?out = "\<lparr>om_msg = msg_put (replicate 65511 0) ?new, om_start = INITIAL_BUFFER_POSITION\<rparr>"
  have "writer_ok (msg_put (replicate 65511 0) ?new)"
    by (intro writer_put(1) new_msg_writer) (simp_all add: canAdd_def new_msg_def message_consts)
  moreover have "msg_len (msg_put (replicate 65511 0) ?new) = 65511"
    by (simp add: msg_put_def new_msg_def wrap16_def)
  ultimately show ?thesis
    using full_buffer_unpadded [of ?out new_protocol] by (fastforce simp: message_consts)
qed

end
