(* ===== verification/Connection.thy ===== *)
theory Connection
  imports Protocol
begin

text \<open>
  One client connection as a state machine: \<^verbatim>\<open>src/src/connection.cpp\<close> and
  the choice of the protocol in \<^verbatim>\<open>src/src/server.cpp\<close>. The asynchronous
  operations of asio are part of the state: at most one read (of a header or of a body), at
  most one write, and the two timers. Each handler is a definition; a step relation runs them
  in any order the outstanding operations allow. The messages are of any type, with
  the bytes that \<^verbatim>\<open>onSendMessage\<close> makes of one as a parameter. Where a
  handler starts an operation inside a \<^verbatim>\<open>try\<close> block, a flag tells whether
  that start threw.
\<close>

section \<open>State\<close>

datatype read_op = NoRead | ReadHeader | ReadBody

text \<open>
  \<^verbatim>\<open>cn_written\<close> logs the byte strings handed to \<^verbatim>\<open>async_write\<close>,
  \<^verbatim>\<open>cn_accepted\<close> the messages that \<^verbatim>\<open>send\<close> queued,
  \<^verbatim>\<open>cn_received\<close> the messages handed to the protocol, the flag being true for
  the first one, and \<^verbatim>\<open>cn_releases\<close> the release tasks posted.
\<close>

record 'm connection =
  cn_closed :: bool
  cn_socket_open :: bool
  cn_managed :: bool
  cn_received_first :: bool
  cn_protocol :: "nat option"
  cn_queue :: "'m list"
  cn_time_connected :: int
  cn_packets :: u32
  cn_msg :: net_msg
  cn_read :: read_op
  cn_writing :: bool
  cn_read_timer :: bool
  cn_write_timer :: bool
  cn_releases :: nat
  cn_accepted :: "'m list"
  cn_written :: "byte list list"
  cn_received :: "(bool \<times> net_msg) list"

definition new_connection :: "byte list \<Rightarrow> int \<Rightarrow> 'm connection" where
  "new_connection junk now =
     \<lparr>cn_closed = False, cn_socket_open = True, cn_managed = True, cn_received_first = False,
      cn_protocol = None, cn_queue = [], cn_time_connected = now, cn_packets = 0,
      cn_msg = new_msg junk, cn_read = NoRead, cn_writing = False, cn_read_timer = False,
      cn_write_timer = False, cn_releases = 0, cn_accepted = [], cn_written = [], cn_received = []\<rparr>"

section \<open>Closing\<close>

definition closeSocket :: "'m connection \<Rightarrow> 'm connection" where
  "closeSocket c =
     (if cn_socket_open c
      then c\<lparr>cn_read_timer := False, cn_write_timer := False, cn_socket_open := False\<rparr> else c)"

definition conn_close :: "bool \<Rightarrow> 'm connection \<Rightarrow> 'm connection" where
  "conn_close force c =
     (let c = c\<lparr>cn_managed := False\<rparr> in
      if cn_closed c then c
      else
        (let c = c\<lparr>cn_closed := True\<rparr>;
             c = (if cn_protocol c \<noteq> None then c\<lparr>cn_releases := cn_releases c + 1\<rparr> else c)
         in if cn_queue c = [] \<or> force then closeSocket c else c))"

definition handleTimeout :: "bool \<Rightarrow> 'm connection \<Rightarrow> 'm connection" where
  "handleTimeout aborted c = (if aborted then c else conn_close True c)"

section \<open>Sending\<close>

definition internalSend :: "('m \<Rightarrow> byte list) \<Rightarrow> bool \<Rightarrow> 'm \<Rightarrow> 'm connection \<Rightarrow> 'm connection" where
  "internalSend wire fails msg c =
     (if fails then conn_close True c
      else c\<lparr>cn_write_timer := True, cn_writing := True, cn_written := cn_written c @ [wire msg]\<rparr>)"

definition conn_send :: "('m \<Rightarrow> byte list) \<Rightarrow> bool \<Rightarrow> 'm \<Rightarrow> 'm connection \<Rightarrow> 'm connection" where
  "conn_send wire fails msg c =
     (if cn_closed c then c
      else
        (let noPendingWrite = (cn_queue c = []);
             c = c\<lparr>cn_queue := cn_queue c @ [msg], cn_accepted := cn_accepted c @ [msg]\<rparr>
         in if noPendingWrite then internalSend wire fails msg c else c))"

text \<open>\<^verbatim>\<open>pop_front\<close> of an empty list is undefined: the value \<open>None\<close>.\<close>

definition onWriteOperation ::
  "('m \<Rightarrow> byte list) \<Rightarrow> bool \<Rightarrow> bool \<Rightarrow> 'm connection \<Rightarrow> 'm connection option" where
  "onWriteOperation wire fails error c =
     (let c = c\<lparr>cn_write_timer := False, cn_writing := False\<rparr> in
      case cn_queue c of
        [] \<Rightarrow> None
      | _ # queue \<Rightarrow>
          (let c = c\<lparr>cn_queue := queue\<rparr> in
           Some (if error then conn_close True (c\<lparr>cn_queue := []\<rparr>)
                 else if queue \<noteq> [] then internalSend wire fails (hd queue) c
                 else if cn_closed c then closeSocket c else c)))"

section \<open>Receiving\<close>

definition conn_accept :: "bool \<Rightarrow> 'm connection \<Rightarrow> 'm connection" where
  "conn_accept fails c =
     (if fails then conn_close True c else c\<lparr>cn_read_timer := True, cn_read := ReadHeader\<rparr>)"

definition conn_accept_protocol :: "nat \<Rightarrow> bool \<Rightarrow> 'm connection \<Rightarrow> 'm connection" where
  "conn_accept_protocol p fails c = conn_accept fails (c\<lparr>cn_protocol := Some p\<rparr>)"

definition timePassed :: "int \<Rightarrow> 'm connection \<Rightarrow> u32" where
  "timePassed now c = max 1 (of_int (now - cn_time_connected c + 1))"

text \<open>The bytes of a completed header read are at the front of the buffer.\<close>

definition parseHeader ::
  "u32 \<Rightarrow> int \<Rightarrow> bool \<Rightarrow> bool \<Rightarrow> byte list \<Rightarrow> 'm connection \<Rightarrow> 'm connection" where
  "parseHeader maxPackets now fails error bytes c =
     (let c = c\<lparr>cn_read_timer := False, cn_read := NoRead\<rparr> in
      if error then conn_close True c
      else if cn_closed c then c
      else
        (let c = c\<lparr>cn_msg := (cn_msg c)\<lparr>msg_buffer := poke 0 bytes (msg_buffer (cn_msg c))\<rparr>,
                   cn_packets := cn_packets c + 1\<rparr>;
             passed = timePassed now c
         in if cn_packets c div passed > maxPackets then conn_close False c
            else
              (let c = (if passed > 2 then c\<lparr>cn_time_connected := now, cn_packets := 0\<rparr> else c);
                   n = getLengthHeader (cn_msg c)
               in if n = 0 \<or> n \<ge> NETWORKMESSAGE_MAXSIZE - 16 then conn_close True c
                  else if fails then conn_close True c
                  else c\<lparr>cn_read_timer := True, cn_read := ReadBody,
                         cn_msg := snd (getBodyBuffer (setLength (n + HEADER_LENGTH) (cn_msg c)))\<rparr>)))"

text \<open>The checksum test of \<^verbatim>\<open>parsePacket\<close>, with the step back when it fails.\<close>

definition verifyChecksum :: "net_msg \<Rightarrow> bool \<times> net_msg" where
  "verifyChecksum m =
     (let n = int (msg_len m) - int (msg_pos m) - int CHECKSUM_LENGTH;
          checksum = (if n > 0
            then adlerChecksum (peek (msg_pos m + CHECKSUM_LENGTH) (nat n) (msg_buffer m)) else 0);
          (recvChecksum, m) = msg_get dec32 4 m
      in (recvChecksum = checksum,
          if recvChecksum \<noteq> checksum then skipBytes (- int CHECKSUM_LENGTH) m else m))"

text \<open>
  \<^verbatim>\<open>ServicePort::make_protocol\<close>: a service is its protocol identifier and
  whether it wants checksums; the result is the number of the service chosen.
\<close>

primrec find_service :: "byte \<Rightarrow> bool \<Rightarrow> (byte \<times> bool) list \<Rightarrow> nat \<Rightarrow> nat option" where
  "find_service protocolID checksummed [] i = None"
| "find_service protocolID checksummed (s # services) i =
     (if protocolID \<noteq> fst s then find_service protocolID checksummed services (Suc i)
      else if checksummed \<and> snd s \<or> \<not> snd s then Some i
      else find_service protocolID checksummed services (Suc i))"

definition make_protocol :: "(byte \<times> bool) list \<Rightarrow> bool \<Rightarrow> net_msg \<Rightarrow> nat option \<times> net_msg" where
  "make_protocol services checksummed m =
     (let (protocolID, m) = getByte m in (find_service protocolID checksummed services 0, m))"

text \<open>What a protocol may call on its connection while it handles a message.\<close>

datatype 'm conn_call = CallClose bool | CallSend bool 'm

primrec run_call :: "('m \<Rightarrow> byte list) \<Rightarrow> 'm conn_call \<Rightarrow> 'm connection \<Rightarrow> 'm connection" where
  "run_call wire (CallClose force) c = conn_close force c"
| "run_call wire (CallSend fails m) c = conn_send wire fails m c"

text \<open>
  The protocol that handles the message: for the first one it may have to be made, or its
  identifier byte is skipped.
\<close>

definition select_protocol ::
  "(byte \<times> bool) list \<Rightarrow> 'm connection \<Rightarrow> bool \<Rightarrow> net_msg \<Rightarrow> nat option \<times> net_msg" where
  "select_protocol services c checksummed m =
     (if cn_received_first c then (cn_protocol c, m)
      else case cn_protocol c of
             None \<Rightarrow> make_protocol services checksummed m
           | Some p \<Rightarrow> (Some p, skipBytes 1 m))"

definition parsePacket ::
  "('m \<Rightarrow> byte list) \<Rightarrow> (byte \<times> bool) list \<Rightarrow> (nat \<Rightarrow> bool \<Rightarrow> net_msg \<Rightarrow> 'm conn_call list) \<Rightarrow>
     bool \<Rightarrow> bool \<Rightarrow> byte list \<Rightarrow> 'm connection \<Rightarrow> 'm connection" where
  "parsePacket wire services handler fails error bytes c =
     (let c = c\<lparr>cn_read_timer := False, cn_read := NoRead\<rparr> in
      if error then conn_close True c
      else if cn_closed c then c
      else
        (let m = cn_msg c;
             (checksummed, m) =
               verifyChecksum (m\<lparr>msg_buffer := poke HEADER_LENGTH bytes (msg_buffer m)\<rparr>);
             first = (\<not> cn_received_first c);
             (p, m) = select_protocol services c checksummed m;
             c = c\<lparr>cn_msg := m, cn_received_first := True, cn_protocol := p\<rparr>
         in case p of
              None \<Rightarrow> conn_close True c
            | Some p \<Rightarrow>
                (let c = fold (run_call wire) (handler p first m)
                       (c\<lparr>cn_received := cn_received c @ [(first, m)]\<rparr>)
                 in if fails then conn_close True c
                    else c\<lparr>cn_read_timer := True, cn_read := ReadHeader\<rparr>)))"

section \<open>Steps\<close>

text \<open>
  The environment of a connection: how messages are serialised, the configured packet limit,
  the services of the port and the reactions of the protocols.
\<close>

record 'm conn_env =
  ce_wire :: "'m \<Rightarrow> byte list"
  ce_max_packets :: u32
  ce_services :: "(byte \<times> bool) list"
  ce_handler :: "nat \<Rightarrow> bool \<Rightarrow> net_msg \<Rightarrow> 'm conn_call list"

text \<open>
  A handler runs when its operation is outstanding; on a closed socket it runs with an error.
\<close>

inductive conn_step :: "'m conn_env \<Rightarrow> 'm connection \<Rightarrow> 'm connection \<Rightarrow> bool" for E where
  step_send: "cn_protocol c \<noteq> None \<Longrightarrow> conn_step E c (conn_send (ce_wire E) fails msg c)"
| step_close: "conn_step E c (conn_close force c)"
| step_header: "cn_read c = ReadHeader \<Longrightarrow> length bytes = HEADER_LENGTH \<Longrightarrow> error \<or> cn_socket_open c \<Longrightarrow>
    conn_step E c (parseHeader (ce_max_packets E) now fails error bytes c)"
| step_body: "cn_read c = ReadBody \<Longrightarrow> length bytes = msg_len (cn_msg c) - HEADER_LENGTH \<Longrightarrow>
    error \<or> cn_socket_open c \<Longrightarrow>
    conn_step E c (parsePacket (ce_wire E) (ce_services E) (ce_handler E) fails error bytes c)"
| step_written: "cn_writing c \<Longrightarrow> error \<or> cn_socket_open c \<Longrightarrow>
    onWriteOperation (ce_wire E) fails error c = Some c' \<Longrightarrow> conn_step E c c'"
| step_timeout: "cn_read_timer c \<or> cn_write_timer c \<Longrightarrow> conn_step E c (handleTimeout aborted c)"

inductive conn_reach :: "'m conn_env \<Rightarrow> 'm connection \<Rightarrow> bool" for E where
  reach_accept: "length junk = NETWORKMESSAGE_MAXSIZE \<Longrightarrow>
    conn_reach E (conn_accept fails (new_connection junk now))"
| reach_accept_protocol: "length junk = NETWORKMESSAGE_MAXSIZE \<Longrightarrow>
    conn_reach E (conn_accept_protocol p fails (new_connection junk now))"
| reach_step: "conn_reach E c \<Longrightarrow> conn_step E c c' \<Longrightarrow> conn_reach E c'"

inductive_cases conn_stepE: "conn_step E c c'"

section \<open>Invariant\<close>

definition queue_inv :: "('m \<Rightarrow> byte list) \<Rightarrow> 'm connection \<Rightarrow> bool" where
  "queue_inv wire c \<longleftrightarrow>
     length (cn_written c) \<le> length (cn_accepted c)
     \<and> cn_written c = map wire (take (length (cn_written c)) (cn_accepted c))
     \<and> (cn_writing c \<longrightarrow> cn_written c \<noteq> [] \<and> cn_queue c = drop (length (cn_written c) - 1) (cn_accepted c))
     \<and> (\<not> cn_writing c \<and> \<not> cn_closed c \<longrightarrow> cn_queue c = [] \<and> length (cn_written c) = length (cn_accepted c))"

definition close_inv :: "'m connection \<Rightarrow> bool" where
  "close_inv c \<longleftrightarrow> (\<not> cn_socket_open c \<longrightarrow> cn_closed c) \<and> (cn_closed c \<longrightarrow> \<not> cn_managed c)
     \<and> cn_releases c \<le> (if cn_closed c then 1 else 0)"

definition read_inv :: "'m connection \<Rightarrow> bool" where
  "read_inv c \<longleftrightarrow> length (msg_buffer (cn_msg c)) = NETWORKMESSAGE_MAXSIZE
     \<and> (cn_read c = ReadBody \<longrightarrow> msg_pos (cn_msg c) = 2 \<and> 2 < msg_len (cn_msg c)
          \<and> msg_len (cn_msg c) < NETWORKMESSAGE_MAXSIZE - 14)"

definition conn_inv :: "('m \<Rightarrow> byte list) \<Rightarrow> 'm connection \<Rightarrow> bool" where
  "conn_inv wire c \<longleftrightarrow> queue_inv wire c \<and> close_inv c \<and> read_inv c"

lemmas inv_defs = conn_inv_def queue_inv_def close_inv_def read_inv_def
lemmas close_defs = conn_close_def closeSocket_def

lemma conn_close_closed [simp]: "cn_closed (conn_close force c)"
  by (simp add: close_defs Let_def)

lemma conn_close_fields [simp]:
  "cn_queue (conn_close force c) = cn_queue c" "cn_written (conn_close force c) = cn_written c"
  "cn_accepted (conn_close force c) = cn_accepted c" "cn_writing (conn_close force c) = cn_writing c"
  "cn_received (conn_close force c) = cn_received c" "cn_msg (conn_close force c) = cn_msg c"
  "cn_read (conn_close force c) = cn_read c"
  by (simp_all add: close_defs Let_def)

lemma conn_close_close_inv: "close_inv c \<Longrightarrow> close_inv (conn_close force c)"
  by (cases "cn_closed c") (auto simp: close_inv_def close_defs Let_def)

lemma conn_close_read_inv: "read_inv c \<Longrightarrow> read_inv (conn_close force c)"
  by (simp add: read_inv_def)

definition written_inv :: "('m \<Rightarrow> byte list) \<Rightarrow> 'm connection \<Rightarrow> bool" where
  "written_inv wire c \<longleftrightarrow> length (cn_written c) \<le> length (cn_accepted c)
     \<and> cn_written c = map wire (take (length (cn_written c)) (cn_accepted c))"

lemma closed_queue_inv: "written_inv wire c \<Longrightarrow> \<not> cn_writing c \<Longrightarrow> cn_closed c \<Longrightarrow> queue_inv wire c"
  by (simp add: written_inv_def queue_inv_def)

lemma queue_inv_written: "queue_inv wire c \<Longrightarrow> written_inv wire c"
  by (simp add: written_inv_def queue_inv_def)

lemma conn_close_queue_inv: "queue_inv wire c \<Longrightarrow> queue_inv wire (conn_close force c)"
  unfolding queue_inv_def by simp

lemma conn_close_inv: "conn_inv wire c \<Longrightarrow> conn_inv wire (conn_close force c)"
  by (simp add: conn_inv_def conn_close_queue_inv conn_close_close_inv conn_close_read_inv)

lemma writing_queue:
  assumes "queue_inv wire c" and "cn_writing c"
  obtains m queue where "cn_queue c = m # queue" "queue = drop (length (cn_written c)) (cn_accepted c)"
proof -
  have w: "cn_written c \<noteq> []" "length (cn_written c) \<le> length (cn_accepted c)"
    and q: "cn_queue c = drop (length (cn_written c) - 1) (cn_accepted c)"
    using assms by (simp_all add: queue_inv_def)
  then have "length (cn_written c) - 1 < length (cn_accepted c)" by (cases "cn_written c") simp_all
  then have "cn_queue c = cn_accepted c ! (length (cn_written c) - 1) # drop (length (cn_written c)) (cn_accepted c)"
    using q w(1) by (metis Cons_nth_drop_Suc Suc_diff_1 length_greater_0_conv)
  then show ?thesis using that by blast
qed

lemma internalSend_inv:
  assumes "close_inv c" and "read_inv c" and "written_inv wire c" and "\<not> cn_writing c"
    and "length (cn_written c) < length (cn_accepted c)"
    and "cn_queue c = drop (length (cn_written c)) (cn_accepted c)"
  shows "conn_inv wire (internalSend wire fails (hd (cn_queue c)) c)"
proof (cases fails)
  case True
  have "queue_inv wire (conn_close True c)"
    using assms(3,4) by (intro closed_queue_inv) (simp_all add: written_inv_def)
  with True assms(1,2) show ?thesis
    by (simp add: internalSend_def conn_inv_def conn_close_close_inv conn_close_read_inv)
next
  case False
  have h: "hd (cn_queue c) = cn_accepted c ! length (cn_written c)"
    using assms(5,6) by (simp add: hd_drop_conv_nth)
  have t: "map wire (take (Suc (length (cn_written c))) (cn_accepted c)) = cn_written c @ [wire (hd (cn_queue c))]"
    using assms(3,5) h by (simp add: take_Suc_conv_app_nth written_inv_def)
  let ?c = "internalSend wire fails (hd (cn_queue c)) c"
  have "queue_inv wire ?c"
    using False assms(5,6) t by (simp add: queue_inv_def internalSend_def)
  moreover have "close_inv ?c" "read_inv ?c"
    using False assms(1,2) by (simp_all add: internalSend_def close_inv_def read_inv_def)
  ultimately show ?thesis by (simp add: conn_inv_def)
qed

lemma conn_send_inv:
  assumes "conn_inv wire c" shows "conn_inv wire (conn_send wire fails msg c)"
proof (cases "cn_closed c")
  case True
  with assms show ?thesis by (simp add: conn_send_def)
next
  case opened: False
  let ?c = "c\<lparr>cn_queue := cn_queue c @ [msg], cn_accepted := cn_accepted c @ [msg]\<rparr>"
  have c: "close_inv ?c" "read_inv ?c" "written_inv wire ?c"
    using assms by (simp_all add: conn_inv_def close_inv_def read_inv_def queue_inv_def written_inv_def)
  show ?thesis
  proof (cases "cn_queue c = []")
    case True
    have "\<not> cn_writing c" using assms True writing_queue by (metis conn_inv_def list.distinct(1))
    then have "conn_inv wire (internalSend wire fails (hd (cn_queue ?c)) ?c)"
      using assms True opened c by (intro internalSend_inv) (auto simp: conn_inv_def queue_inv_def)
    with True opened show ?thesis by (simp add: conn_send_def)
  next
    case False
    then have "cn_writing c" using assms opened by (auto simp: conn_inv_def queue_inv_def)
    then have "queue_inv wire ?c"
      using assms c(3) by (auto simp: conn_inv_def queue_inv_def written_inv_def)
    with False opened c show ?thesis by (simp add: conn_send_def conn_inv_def)
  qed
qed

lemma onWriteOperation_inv:
  assumes i: "conn_inv wire c" and w: "cn_writing c"
  shows "\<exists>c'. onWriteOperation wire fails error c = Some c' \<and> conn_inv wire c'"
proof -
  have qi: "queue_inv wire c" using i by (simp add: conn_inv_def)
  obtain m queue where q: "cn_queue c = m # queue" and t: "queue = drop (length (cn_written c)) (cn_accepted c)"
    using writing_queue [OF qi w] .
  let ?c = "c\<lparr>cn_write_timer := False, cn_writing := False, cn_queue := queue\<rparr>"
  have c: "close_inv ?c" "read_inv ?c" "written_inv wire ?c"
    using i by (simp_all add: conn_inv_def close_inv_def read_inv_def queue_inv_def written_inv_def)
  consider "error" | "\<not> error" "queue \<noteq> []" | "\<not> error" "queue = []" by blast
  then show ?thesis
  proof cases
    case 1
    let ?d = "conn_close True (?c\<lparr>cn_queue := []\<rparr>)"
    have "queue_inv wire ?d" using c(3) by (intro closed_queue_inv) (simp_all add: written_inv_def)
    moreover have "close_inv (?c\<lparr>cn_queue := []\<rparr>)" "read_inv (?c\<lparr>cn_queue := []\<rparr>)"
      using c by (simp_all add: close_inv_def read_inv_def)
    then have "close_inv ?d" "read_inv ?d" by (simp_all only: conn_close_close_inv conn_close_read_inv)
    ultimately show ?thesis using 1 q by (simp add: onWriteOperation_def conn_inv_def)
  next
    case 2
    then have "length (cn_written c) < length (cn_accepted c)"
      using t by (cases "length (cn_written c) < length (cn_accepted c)") simp_all
    then have "conn_inv wire (internalSend wire fails (hd (cn_queue ?c)) ?c)"
      using c t by (intro internalSend_inv) simp_all
    with 2 q show ?thesis by (simp add: onWriteOperation_def)
  next
    case 3
    then have "length (cn_written c) = length (cn_accepted c)" using t c(3) by (simp add: written_inv_def)
    then have "queue_inv wire ?c" "queue_inv wire (closeSocket ?c)"
      using c(3) 3 by (simp_all add: queue_inv_def written_inv_def closeSocket_def)
    moreover have "close_inv (closeSocket ?c)" if "cn_closed c" "read_inv (closeSocket ?c)"
      using c(1) that by (simp add: close_inv_def closeSocket_def)
    moreover have "read_inv (closeSocket ?c)" using c(2) by (simp add: read_inv_def closeSocket_def)
    ultimately show ?thesis using 3 q c by (simp add: onWriteOperation_def conn_inv_def Let_def)
  qed
qed

lemma inv_updates [simp]:
  "queue_inv wire (c\<lparr>cn_read_timer := t\<rparr>) = queue_inv wire c"
  "queue_inv wire (c\<lparr>cn_read := r\<rparr>) = queue_inv wire c"
  "queue_inv wire (c\<lparr>cn_msg := m\<rparr>) = queue_inv wire c"
  "queue_inv wire (c\<lparr>cn_packets := n\<rparr>) = queue_inv wire c"
  "queue_inv wire (c\<lparr>cn_time_connected := now\<rparr>) = queue_inv wire c"
  "queue_inv wire (c\<lparr>cn_received := rs\<rparr>) = queue_inv wire c"
  "queue_inv wire (c\<lparr>cn_received_first := b\<rparr>) = queue_inv wire c"
  "queue_inv wire (c\<lparr>cn_protocol := p\<rparr>) = queue_inv wire c"
  "close_inv (c\<lparr>cn_read_timer := t\<rparr>) = close_inv c"
  "close_inv (c\<lparr>cn_read := r\<rparr>) = close_inv c"
  "close_inv (c\<lparr>cn_msg := m\<rparr>) = close_inv c"
  "close_inv (c\<lparr>cn_packets := n\<rparr>) = close_inv c"
  "close_inv (c\<lparr>cn_time_connected := now\<rparr>) = close_inv c"
  "close_inv (c\<lparr>cn_received := rs\<rparr>) = close_inv c"
  "close_inv (c\<lparr>cn_received_first := b\<rparr>) = close_inv c"
  "close_inv (c\<lparr>cn_protocol := p\<rparr>) = close_inv c"
  by (simp_all add: queue_inv_def close_inv_def)

lemma conn_invI:
  "queue_inv wire c \<Longrightarrow> close_inv c \<Longrightarrow> length (msg_buffer (cn_msg c)) = NETWORKMESSAGE_MAXSIZE \<Longrightarrow>
     cn_read c \<noteq> ReadBody \<Longrightarrow> conn_inv wire c"
  by (simp add: conn_inv_def read_inv_def)

lemma conn_inv_buffer: "conn_inv wire c \<Longrightarrow> length (msg_buffer (cn_msg c)) = NETWORKMESSAGE_MAXSIZE"
  by (simp add: conn_inv_def read_inv_def)

lemma conn_inv_stop:
  "conn_inv wire c \<Longrightarrow> length (msg_buffer m) = NETWORKMESSAGE_MAXSIZE \<Longrightarrow>
     conn_inv wire (c\<lparr>cn_read_timer := t, cn_read := NoRead, cn_msg := m, cn_packets := n\<rparr>)"
  by (rule conn_invI) (simp_all add: conn_inv_def)

lemma parseHeader_inv:
  assumes "conn_inv wire c" and "length bytes = HEADER_LENGTH"
  shows "conn_inv wire (parseHeader maxP now fails error bytes c)"
proof -
  let ?m = "(cn_msg c)\<lparr>msg_buffer := poke 0 bytes (msg_buffer (cn_msg c))\<rparr>"
  let ?a = "c\<lparr>cn_read_timer := False, cn_read := NoRead\<rparr>"
  let ?b = "?a\<lparr>cn_msg := ?m, cn_packets := cn_packets c + 1\<rparr>"
  define d where "d = (if timePassed now ?b > 2 then ?b\<lparr>cn_time_connected := now, cn_packets := 0\<rparr> else ?b)"
  have l: "length (msg_buffer ?m) = NETWORKMESSAGE_MAXSIZE"
    using assms conn_inv_buffer [OF assms(1)] by (simp add: message_consts)
  have a: "conn_inv wire ?a"
    using assms(1) conn_inv_buffer [OF assms(1)] by (intro conn_invI) (simp_all add: conn_inv_def)
  have b: "conn_inv wire ?b"
    using assms(1) l by (intro conn_invI) (simp_all add: conn_inv_def)
  then have d: "conn_inv wire d" "cn_msg d = ?m"
    by (auto simp: d_def conn_inv_def read_inv_def)
  let ?n = "getLengthHeader (cn_msg d)"
  let ?e = "d\<lparr>cn_read_timer := True, cn_read := ReadBody,
    cn_msg := snd (getBodyBuffer (setLength (?n + HEADER_LENGTH) (cn_msg d)))\<rparr>"
  have e: "conn_inv wire ?e" if "?n \<noteq> 0" "?n < NETWORKMESSAGE_MAXSIZE - 16"
    using d l that
    by (simp add: conn_inv_def read_inv_def getBodyBuffer_def setLength_def wrap16_def message_consts)
  show ?thesis
    using a b d(1) e
    by (simp add: parseHeader_def Let_def d_def [symmetric] conn_close_inv not_le)
qed

lemma skipBytes_buffer [simp]: "msg_buffer (skipBytes n m) = msg_buffer m"
  by (simp add: skipBytes_def)

lemma msg_get_buffer: "msg_get dec n m = (v, m') \<Longrightarrow> msg_buffer m' = msg_buffer m"
  by (auto simp: msg_get_def canRead_def split: if_splits)

lemma getByte_buffer: "getByte m = (v, m') \<Longrightarrow> msg_buffer m' = msg_buffer m"
  by (auto simp: getByte_def canRead_def split: if_splits)

lemma verifyChecksum_buffer: "verifyChecksum m = (b, m') \<Longrightarrow> msg_buffer m' = msg_buffer m"
  by (auto simp: verifyChecksum_def Let_def msg_get_buffer split: prod.splits if_splits)

lemma make_protocol_buffer: "make_protocol ss b m = (p, m') \<Longrightarrow> msg_buffer m' = msg_buffer m"
  by (auto simp: make_protocol_def getByte_buffer split: prod.splits)

lemma run_calls_inv:
  "conn_inv wire c \<Longrightarrow> conn_inv wire (fold (run_call wire) calls c)"
proof (induction calls arbitrary: c)
  case (Cons call calls)
  then show ?case by (cases call) (simp_all add: conn_send_inv conn_close_inv)
qed simp

lemma conn_send_read [simp]:
  "cn_read (conn_send wire fails msg c) = cn_read c" "cn_msg (conn_send wire fails msg c) = cn_msg c"
  "cn_received (conn_send wire fails msg c) = cn_received c"
  by (simp_all add: conn_send_def internalSend_def Let_def)

lemma run_calls_read [simp]:
  "cn_read (fold (run_call wire) calls c) = cn_read c" "cn_msg (fold (run_call wire) calls c) = cn_msg c"
  "cn_received (fold (run_call wire) calls c) = cn_received c"
proof -
  have "cn_read (run_call wire x c) = cn_read c \<and> cn_msg (run_call wire x c) = cn_msg c
    \<and> cn_received (run_call wire x c) = cn_received c" for x c
    by (cases x) simp_all
  then show "cn_read (fold (run_call wire) calls c) = cn_read c"
    "cn_msg (fold (run_call wire) calls c) = cn_msg c"
    "cn_received (fold (run_call wire) calls c) = cn_received c"
    by (induction calls arbitrary: c) simp_all
qed

lemma parsePacket_inv:
  assumes "conn_inv wire c" and "HEADER_LENGTH + length bytes \<le> NETWORKMESSAGE_MAXSIZE"
  shows "conn_inv wire (parsePacket wire services handler fails error bytes c)"
proof -
  let ?m = "(cn_msg c)\<lparr>msg_buffer := poke HEADER_LENGTH bytes (msg_buffer (cn_msg c))\<rparr>"
  have l: "length (msg_buffer ?m) = NETWORKMESSAGE_MAXSIZE"
    using assms(2) conn_inv_buffer [OF assms(1)] by simp
  have base: "conn_inv wire (c\<lparr>cn_read_timer := False, cn_read := NoRead, cn_msg := m, cn_received_first := True,
      cn_protocol := p, cn_received := rs\<rparr>)" if "length (msg_buffer m) = NETWORKMESSAGE_MAXSIZE" for m p rs
    using assms(1) that by (intro conn_invI) (simp_all add: conn_inv_def)
  have base0: "conn_inv wire (c\<lparr>cn_read_timer := False, cn_read := NoRead\<rparr>)"
    using assms(1) conn_inv_buffer [OF assms(1)] by (intro conn_invI) (simp_all add: conn_inv_def)
  have more: "conn_inv wire (d\<lparr>cn_read_timer := True, cn_read := ReadHeader\<rparr>)" if "conn_inv wire d" for d
    using that conn_inv_buffer [OF that] by (intro conn_invI) (simp_all add: conn_inv_def)
  obtain b m1 where v: "verifyChecksum ?m = (b, m1)" by fastforce
  obtain p m2 where pm: "select_protocol services c b m1 = (p, m2)" by fastforce
  then have pm': "select_protocol services (c\<lparr>cn_read_timer := False, cn_read := NoRead\<rparr>) b m1 = (p, m2)"
    unfolding select_protocol_def by (cases "cn_received_first c") simp_all
  have m2: "length (msg_buffer m2) = NETWORKMESSAGE_MAXSIZE"
    using l verifyChecksum_buffer [OF v] pm
    by (auto simp: select_protocol_def make_protocol_buffer split: if_splits option.splits)
  let ?d = "c\<lparr>cn_read_timer := False, cn_read := NoRead, cn_msg := m2, cn_received_first := True, cn_protocol := p\<rparr>"
  have d: "conn_inv wire ?d" using base [OF m2, where p = p and rs = "cn_received c"] by simp
  have f: "conn_inv wire (fold (run_call wire) calls (?d\<lparr>cn_received := rs\<rparr>))" for calls rs
    using base [OF m2] by (intro run_calls_inv) simp
  show ?thesis
    using base0 d f more v pm'
    by (cases p) (simp_all add: parsePacket_def Let_def conn_close_inv)
qed

lemma conn_step_inv:
  assumes "conn_step E c c'" and "conn_inv (ce_wire E) c" shows "conn_inv (ce_wire E) c'"
  using assms
proof (cases rule: conn_step.cases)
  case (step_body bytes error fails)
  then have "HEADER_LENGTH + length bytes \<le> NETWORKMESSAGE_MAXSIZE"
    using conjunct2 [OF assms(2) [unfolded conn_inv_def, THEN conjunct2]]
    by (auto simp: read_inv_def message_consts)
  with step_body assms(2) show ?thesis by (simp add: parsePacket_inv)
next
  case (step_written error fails)
  then show ?thesis using onWriteOperation_inv [OF assms(2), of fails error] by auto
qed (use assms(2) in \<open>simp_all add: conn_send_inv conn_close_inv parseHeader_inv handleTimeout_def\<close>)

lemma new_connection_inv:
  assumes "length junk = NETWORKMESSAGE_MAXSIZE"
  shows "conn_inv wire (conn_accept fails ((new_connection junk now)\<lparr>cn_protocol := p\<rparr>))"
proof -
  have n: "conn_inv wire ((new_connection junk now)\<lparr>cn_protocol := p\<rparr>)"
    using assms by (simp add: inv_defs new_connection_def new_msg_def)
  show ?thesis
  proof (cases fails)
    case True
    with n show ?thesis by (simp add: conn_accept_def conn_close_inv)
  next
    case False
    with assms show ?thesis by (simp add: conn_accept_def inv_defs new_connection_def new_msg_def)
  qed
qed

lemma conn_reach_inv: "conn_reach E c \<Longrightarrow> conn_inv (ce_wire E) c"
proof (induction rule: conn_reach.induct)
  case (reach_accept junk fails now)
  have "(new_connection junk now)\<lparr>cn_protocol := None\<rparr> = new_connection junk now"
    by (simp add: new_connection_def)
  then show ?case using new_connection_inv [OF reach_accept] by metis
next
  case (reach_accept_protocol junk p fails now)
  then show ?case by (simp add: conn_accept_protocol_def new_connection_inv)
next
  case (reach_step c c')
  then show ?case by (blast intro: conn_step_inv)
qed

section \<open>Closed connections\<close>

lemma run_calls_closed: "cn_closed c \<Longrightarrow> cn_closed (fold (run_call wire) calls c)"
proof (induction calls arbitrary: c)
  case (Cons x calls)
  then show ?case by (cases x) (simp_all add: conn_send_def)
qed simp

definition frozen :: "'m connection \<Rightarrow> 'm connection \<Rightarrow> bool" where
  "frozen c c' \<longleftrightarrow> cn_closed c' \<and> cn_accepted c' = cn_accepted c \<and> cn_received c' = cn_received c
     \<and> cn_releases c' = cn_releases c"

lemma closed_close: "cn_closed c \<Longrightarrow> conn_close force c = c\<lparr>cn_managed := False\<rparr>"
  by (simp add: conn_close_def)

lemma closed_step_frozen:
  assumes "conn_step E c c'" and "cn_closed c" shows "frozen c c'"
  using assms
proof (cases rule: conn_step.cases)
  case (step_written error fails)
  then show ?thesis
    using assms(2)
    by (auto simp: onWriteOperation_def frozen_def closed_close internalSend_def closeSocket_def Let_def
        split: list.splits if_splits)
qed (use assms(2) in \<open>simp_all add: frozen_def closed_close conn_send_def parseHeader_def
    parsePacket_def handleTimeout_def Let_def\<close>)

section \<open>Receiving a frame\<close>

lemma or_push_bit_add:
  assumes "a < 2 ^ k" shows "a OR push_bit k b = a + push_bit k (b :: nat)"
proof -
  have "a AND push_bit k b = 0"
  proof (rule bit_eqI)
    fix n
    have "bit a n \<Longrightarrow> n < k" using assms by (metis bit_take_bit_iff take_bit_nat_eq_self)
    then show "bit (a AND push_bit k b) n = bit (0 :: nat) n"
      by (auto simp: bit_and_iff bit_push_bit_iff)
  qed
  then show ?thesis by (simp add: disjunctive_add_eq_or)
qed

lemma getLengthHeader_le: "getLengthHeader m = le_value [msg_buffer m ! 0, msg_buffer m ! 1]"
  using or_push_bit_add [of "unat (msg_buffer m ! 0)" 8] unat_bound [of "msg_buffer m ! 0"]
  by (simp add: getLengthHeader_def push_bit_eq_mult)

lemma le_value_enc16: "le_value (enc16 v) = unat v"
  using unat_bound [of v] by (simp only: codec_defs le_value_le_bytes) simp

definition frame_of :: "byte list \<Rightarrow> byte list" where
  "frame_of cph = enc16 (of_nat (length cph + 4)) @ enc32 (adlerChecksum cph) @ cph"

lemma length_frame_of: "length (frame_of cph) = length cph + 6"
  by (simp add: frame_of_def mem16.enc_length mem32.enc_length)

lemma header_of_frame:
  assumes "length cph + 4 < 65536" and "2 \<le> length buffer"
  shows "getLengthHeader (m\<lparr>msg_buffer := poke 0 (take 2 (frame_of cph)) buffer\<rparr>) = length cph + 4"
proof -
  have "length (enc16 (of_nat (length cph + 4))) = 2" by (rule mem16.enc_length)
  then obtain a b where e: "enc16 (of_nat (length cph + 4)) = [a, b]"
    by (auto simp: numeral_2_eq_2 length_Suc_conv)
  have "le_value [a, b] = length cph + 4"
  proof -
    have "unat (of_nat (length cph + 4) :: u16) = (length cph + 4) mod 2 ^ LENGTH(16)"
      by (rule unat_of_nat)
    also have "\<dots> = length cph + 4" using assms(1) by simp
    finally show ?thesis using le_value_enc16 [of "of_nat (length cph + 4)"] unfolding e by simp
  qed
  moreover have "take 2 (frame_of cph) = [a, b]" unfolding frame_of_def e by simp
  ultimately show ?thesis
    by (simp add: getLengthHeader_le poke_def)
qed

lemma parseHeader_frame:
  assumes "conn_inv wire c" and "\<not> cn_closed c" and "0 < length cph" and "length cph + 4 < NETWORKMESSAGE_MAXSIZE - 16"
    and "(cn_packets c + 1) div timePassed now c \<le> maxP"
  shows "\<exists>d. parseHeader maxP now False False (take 2 (frame_of cph)) c = d \<and> \<not> cn_closed d
    \<and> cn_read d = ReadBody \<and> cn_received_first d = cn_received_first c \<and> cn_protocol d = cn_protocol c
    \<and> cn_received d = cn_received c \<and> msg_len (cn_msg d) = length cph + 6 \<and> msg_pos (cn_msg d) = 2
    \<and> msg_buffer (cn_msg d) = poke 0 (take 2 (frame_of cph)) (msg_buffer (cn_msg c))"
proof -
  have "2 \<le> length (msg_buffer (cn_msg c))" using conn_inv_buffer [OF assms(1)] by (simp add: message_consts)
  then have h: "getLengthHeader ((cn_msg c)\<lparr>msg_buffer := poke 0 (take 2 (frame_of cph)) (msg_buffer (cn_msg c))\<rparr>)
    = length cph + 4"
    using assms(4) by (intro header_of_frame) (simp_all add: message_consts)
  have t: "timePassed now (c\<lparr>cn_read_timer := r, cn_read := x, cn_msg := m, cn_packets := n\<rparr>) = timePassed now c"
    for r x m n by (simp add: timePassed_def)
  show ?thesis
    using assms(2,4,5) h t
    by (simp add: parseHeader_def Let_def not_less [symmetric] getBodyBuffer_def setLength_def wrap16_def message_consts)
qed

lemma frame_buffer:
  assumes "length buffer = NETWORKMESSAGE_MAXSIZE" and "length cph + 6 \<le> NETWORKMESSAGE_MAXSIZE"
  shows "poke 2 (drop 2 (frame_of cph)) (poke 0 (take 2 (frame_of cph)) buffer) = frame_of cph @ drop (length cph + 6) buffer"
proof -
  have "length (take 2 (frame_of cph)) = 2" "length (drop 2 (frame_of cph)) = length cph + 4"
    by (simp_all add: length_frame_of)
  then show ?thesis using assms by (simp add: poke_def length_frame_of add.commute)
qed

lemma verifyChecksum_frame:
  assumes "msg_buffer m = frame_of cph @ rest" and "msg_len m = length cph + 6" and "msg_pos m = 2"
    and "0 < length cph" and "length cph < 65000 + 529"
  shows "verifyChecksum m = (True, m\<lparr>msg_pos := 6\<rparr>)"
proof -
  have c: "peek 6 (length cph) (msg_buffer m) = cph" and a: "peek 2 4 (msg_buffer m) = enc32 (adlerChecksum cph)"
    by (simp_all add: assms(1) frame_of_def peek_def mem16.enc_length mem32.enc_length)
  have "msg_get dec32 4 m = (adlerChecksum cph, m\<lparr>msg_pos := 6\<rparr>)"
    using a assms(2,3) by (simp add: msg_get_def canRead_def wrap16_def message_consts mem32.dec_enc)
  then show ?thesis
    using c assms(2-4) by (simp add: verifyChecksum_def Let_def message_consts)
qed

lemma parsePacket_frame:
  assumes "\<not> cn_closed d" and "cn_received_first d" and "cn_protocol d = Some k"
    and "msg_len (cn_msg d) = length cph + 6" and "msg_pos (cn_msg d) = 2"
    and "msg_buffer (cn_msg d) = poke 0 (take 2 (frame_of cph)) buffer"
    and "length buffer = NETWORKMESSAGE_MAXSIZE" and "0 < length cph" and "length cph + 4 < NETWORKMESSAGE_MAXSIZE - 16"
  shows "\<exists>m. cn_received (parsePacket wire services handler fails False (drop 2 (frame_of cph)) d)
      = cn_received d @ [(False, m)]
    \<and> msg_len m = length cph + 6 \<and> msg_pos m = 6 \<and> msg_buffer m = frame_of cph @ drop (length cph + 6) buffer"
proof -
  let ?m = "(cn_msg d)\<lparr>msg_buffer := poke HEADER_LENGTH (drop 2 (frame_of cph)) (msg_buffer (cn_msg d))\<rparr>"
  have b: "msg_buffer ?m = frame_of cph @ drop (length cph + 6) buffer"
    using frame_buffer [OF assms(7), of cph] assms(6,9) by (simp add: HEADER_LENGTH_def message_consts)
  have "verifyChecksum ?m = (True, ?m\<lparr>msg_pos := 6\<rparr>)"
    using b assms(4,5,8,9) by (intro verifyChecksum_frame) (auto simp: message_consts)
  then show ?thesis
    using assms(1-5) b by (cases fails) (simp_all add: parsePacket_def select_protocol_def Let_def)
qed

section \<open>A concrete connection\<close>

text \<open>One byte per message, one service without checksums, protocols that never answer.\<close>

definition demo_env :: "byte conn_env" where
  "demo_env = \<lparr>ce_wire = (\<lambda>m. [m]), ce_max_packets = 25, ce_services = [(1, False)],
     ce_handler = (\<lambda>_ _ _. [])\<rparr>"

definition demo_conn :: "byte connection" where
  "demo_conn = conn_send (ce_wire demo_env) False 5
     (conn_accept_protocol 0 False (new_connection (replicate NETWORKMESSAGE_MAXSIZE 0) 100))"

lemma demo_reach: "conn_reach demo_env demo_conn"
  unfolding demo_conn_def
  by (rule reach_step [OF reach_accept_protocol step_send])
    (simp_all add: conn_accept_protocol_def conn_accept_def new_connection_def)

lemma demo_state:
  "\<not> cn_closed demo_conn" "cn_socket_open demo_conn" "cn_queue demo_conn = [5]" "cn_written demo_conn = [[5]]"
  "cn_accepted demo_conn = [5]" "cn_read demo_conn = ReadHeader" "cn_writing demo_conn"
  by (simp_all add: demo_conn_def conn_accept_protocol_def conn_accept_def new_connection_def
      conn_send_def internalSend_def demo_env_def Let_def)

text \<open>The same connection after a first packet of one byte.\<close>

definition demo_header :: "byte connection" where
  "demo_header = parseHeader (ce_max_packets demo_env) 100 False False [1, 0] demo_conn"

definition demo_first :: "byte connection" where
  "demo_first = parsePacket (ce_wire demo_env) (ce_services demo_env) (ce_handler demo_env) False False [0] demo_header"

lemmas demo_defs = demo_env_def demo_conn_def conn_accept_protocol_def conn_accept_def
  new_connection_def conn_send_def internalSend_def timePassed_def new_msg_def message_consts

lemma demo_header_eq:
  "demo_header = demo_conn\<lparr>cn_read_timer := True, cn_read := ReadBody, cn_packets := 1,
     cn_msg := (cn_msg demo_conn)\<lparr>msg_len := 3, msg_pos := 2, msg_buffer := 1 # 0 # replicate 65533 0\<rparr>\<rparr>"
  by (simp add: demo_header_def parseHeader_def demo_defs getLengthHeader_le poke_def
      getBodyBuffer_def setLength_def wrap16_def Let_def)

lemma le_value_zeros: "le_value (replicate n 0) = 0"
  by (induction n) simp_all

lemma demo_first_eq:
  "let m = (cn_msg demo_header)\<lparr>msg_pos := 7, msg_buffer := 1 # 0 # 0 # replicate 65532 0\<rparr> in
   demo_first = demo_header\<lparr>cn_read := ReadHeader, cn_received_first := True, cn_msg := m,
     cn_received := [(True, m)]\<rparr>"
  by (simp add: demo_first_def parsePacket_def demo_header_eq demo_defs verifyChecksum_def
      select_protocol_def skipBytes_def msg_get_def canRead_def wrap16_def peek_def poke_def
      codec_defs Let_def le_value_zeros)

lemma demo_first_reach: "conn_reach demo_env demo_first"
proof -
  have "conn_reach demo_env demo_header"
    unfolding demo_header_def
    by (rule reach_step [OF demo_reach step_header]) (simp_all add: demo_state HEADER_LENGTH_def)
  then show ?thesis
    unfolding demo_first_def
    by (rule reach_step [OF _ step_body]) (simp_all add: demo_header_eq demo_state HEADER_LENGTH_def)
qed

section \<open>Properties\<close>

text \<open>
  C18. Whatever the order of client, timer and network events, the byte strings handed to the
  socket are the serialised messages that \<^verbatim>\<open>send\<close> accepted, in their order and
  each once; while the connection is open, nothing is written only when everything accepted has
  been; and the completion of a write always finds its message at the front of the queue.
\<close>

theorem connection_fifo:
  assumes "conn_reach E c"
  shows "cn_written c = map (ce_wire E) (take (length (cn_written c)) (cn_accepted c))
    \<and> (\<not> cn_closed c \<longrightarrow> \<not> cn_writing c \<longrightarrow> cn_written c = map (ce_wire E) (cn_accepted c) \<and> cn_queue c = [])
    \<and> (cn_writing c \<longrightarrow> onWriteOperation (ce_wire E) fails error c \<noteq> None)"
proof -
  have i: "conn_inv (ce_wire E) c" using assms by (rule conn_reach_inv)
  then have q: "queue_inv (ce_wire E) c" by (simp add: conn_inv_def)
  have "onWriteOperation (ce_wire E) fails error c \<noteq> None" if "cn_writing c"
    using onWriteOperation_inv [OF i that, of fails error] by auto
  moreover have "cn_written c = map (ce_wire E) (cn_accepted c) \<and> cn_queue c = []"
    if "\<not> cn_closed c" "\<not> cn_writing c"
    using q that unfolding queue_inv_def by (metis order_refl take_all)
  ultimately show ?thesis using q unfolding queue_inv_def by blast
qed

theorem connection_fifo_witness:
  "cn_written demo_conn = map (ce_wire demo_env) (take 1 (cn_accepted demo_conn))
   \<and> onWriteOperation (ce_wire demo_env) False False demo_conn \<noteq> None"
  using connection_fifo [OF demo_reach, of False False] by (simp add: demo_state demo_env_def)

text \<open>
  A read never writes outside the message buffer: whenever the body of a packet is
  outstanding, its size was taken from a header between 1 and 65518, and header plus body fit
  the 65535 bytes.
\<close>

theorem connection_body_bounded:
  assumes "conn_reach E c" and "cn_read c = ReadBody"
  shows "msg_pos (cn_msg c) = HEADER_LENGTH \<and> HEADER_LENGTH < msg_len (cn_msg c)
    \<and> msg_len (cn_msg c) \<le> length (msg_buffer (cn_msg c)) - 15"
  using conn_reach_inv [OF assms(1)] assms(2)
  by (auto simp: conn_inv_def read_inv_def message_consts)

theorem connection_body_bounded_witness:
  "msg_len (cn_msg (parseHeader 25 100 False False [7, 0] demo_conn)) = 9
   \<and> HEADER_LENGTH < msg_len (cn_msg (parseHeader 25 100 False False [7, 0] demo_conn))"
proof -
  let ?c = "parseHeader (ce_max_packets demo_env) 100 False False [7, 0] demo_conn"
  have c: "cn_read ?c = ReadBody" "msg_len (cn_msg ?c) = 9"
    by (simp_all add: parseHeader_def demo_env_def demo_conn_def conn_accept_protocol_def conn_accept_def
        new_connection_def conn_send_def internalSend_def timePassed_def getLengthHeader_le poke_def
        new_msg_def getBodyBuffer_def setLength_def wrap16_def message_consts Let_def)
  have "conn_reach demo_env ?c"
    by (rule reach_step [OF demo_reach step_header]) (simp_all add: demo_state HEADER_LENGTH_def)
  from connection_body_bounded [OF this c(1)] c(2) show ?thesis by (simp add: demo_env_def)
qed

text \<open>
  The reading limit of an unencrypted packet is 8 bytes too far: once the header of a
  packet with a body of n bytes is parsed, the reading operations accept n + 8 more bytes, so a
  short first packet is completed with bytes of an earlier one instead of raising the
  overrun flag.
\<close>

theorem unencrypted_read_slack:
  assumes "conn_reach E c" and "cn_read c = ReadBody"
  shows "length (unread (cn_msg c)) = (msg_len (cn_msg c) - HEADER_LENGTH) + 8 \<and> reader_ok (cn_msg c)"
proof -
  have "read_inv c" using conn_reach_inv [OF assms(1)] by (simp add: conn_inv_def)
  then have r: "reader_ok (cn_msg c)" "msg_pos (cn_msg c) = 2" "2 < msg_len (cn_msg c)"
    using assms(2) by (auto simp: read_inv_def reader_ok_def message_consts)
  then show ?thesis by (simp add: length_unread HEADER_LENGTH_def)
qed

theorem unencrypted_read_slack_witness:
  "msg_len (cn_msg demo_header) = 3 \<and> length (unread (cn_msg demo_header)) = 9"
proof -
  have "conn_reach demo_env demo_header"
    unfolding demo_header_def
    by (rule reach_step [OF demo_reach step_header]) (simp_all add: demo_state HEADER_LENGTH_def)
  then show ?thesis
    using unencrypted_read_slack [of demo_env demo_header] by (simp add: demo_header_eq HEADER_LENGTH_def)
qed

text \<open>
  C29. Closing is final: after it no event accepts a message for sending, hands a message to
  the protocol or posts another release task; over the whole life of a connection at most one
  release task is posted, and none while it is open.
\<close>

theorem connection_closed_final:
  assumes "conn_reach E c" and "conn_step E c c'" and "cn_closed c"
  shows "cn_closed c' \<and> cn_accepted c' = cn_accepted c \<and> cn_received c' = cn_received c
    \<and> cn_releases c' = cn_releases c \<and> cn_releases c' \<le> 1 \<and> \<not> cn_managed c"
proof -
  have "close_inv c" using conn_reach_inv [OF assms(1)] by (simp add: conn_inv_def)
  then show ?thesis
    using closed_step_frozen [OF assms(2,3)] assms(3) by (simp add: frozen_def close_inv_def)
qed

theorem connection_closed_final_witness:
  "let c = conn_close False demo_conn in
   cn_accepted (conn_send (ce_wire demo_env) False 6 c) = cn_accepted c \<and> cn_releases c \<le> 1"
proof -
  let ?c = "conn_close False demo_conn"
  have r: "conn_reach demo_env ?c" by (rule reach_step [OF demo_reach step_close])
  have "cn_protocol ?c \<noteq> None"
    by (simp add: demo_conn_def conn_accept_protocol_def conn_accept_def new_connection_def
        conn_send_def internalSend_def close_defs Let_def)
  from connection_closed_final [OF r step_send [where fails = False and msg = 6, OF this] conn_close_closed] show ?thesis
    by (simp add: Let_def)
qed

text \<open>
  A connection closed without force while messages are still queued ignores every later
  forced close: neither the read nor the write timeout closes its socket or cancels the write
  any more, so a peer that stops reading keeps the socket.
\<close>

theorem soft_close_ignores_timeouts:
  assumes "\<not> cn_closed c" and "cn_socket_open c" and "cn_queue c \<noteq> []"
  shows "let d = conn_close False c in cn_closed d \<and> cn_socket_open d \<and> cn_writing d = cn_writing c
    \<and> handleTimeout aborted d = d \<and> conn_close True d = d"
  using assms by (simp add: conn_close_def handleTimeout_def Let_def)

theorem soft_close_ignores_timeouts_witness:
  "let d = conn_close False demo_conn in cn_closed d \<and> cn_socket_open d \<and> cn_writing d
    \<and> handleTimeout False d = d"
  using soft_close_ignores_timeouts [of demo_conn False] by (simp add: demo_state Let_def)

lemma parseHeader_too_fast:
  assumes "\<not> cn_closed c" and "\<not> (cn_packets c + 1) div timePassed now c \<le> maxP"
  shows "cn_closed (parseHeader maxP now False False bytes c)
    \<and> cn_received (parseHeader maxP now False False bytes c) = cn_received c"
proof -
  have t: "timePassed now (c\<lparr>cn_read_timer := r, cn_read := x, cn_msg := m, cn_packets := n\<rparr>) = timePassed now c"
    for r x m n by (simp add: timePassed_def)
  show ?thesis
    using assms t by (simp add: parseHeader_def Let_def not_le [symmetric] conn_close_def closeSocket_def)
qed

text \<open>
  C17. End to end. One side sends a message encrypted, with a checksum, not compressed and of at
  most 65510 bytes, and an open connection of the other side that is past its first packet reads header and
  body of it. Then, if the packet rate stays within the limit, the message goes through checksum and
  decryption to the protocol, which reads exactly the content that was written; if it does not, the
  connection is closed and delivers nothing. (The server reads no compressed packets, and the
  header of a longer message is refused.)
\<close>

theorem packet_delivery:
  assumes "\<not> p_raw p" "p_encryption p" "p_checksum p" "\<not> compresses p out"
    and "writer_ok (om_msg out)" and "om_start out = INITIAL_BUFFER_POSITION"
    and "msg_len (om_msg out) \<le> 65510" and "onSendMessage deflate p z out = Some (z', out')"
    and "conn_reach E c" and "\<not> cn_closed c" and "cn_received_first c" and "cn_protocol c = Some k"
  shows "let d = parseHeader (ce_max_packets E) now False False (take 2 (output_bytes out')) c;
      e = parsePacket (ce_wire E) (ce_services E) (ce_handler E) fails False (drop 2 (output_bytes out')) d
    in if (cn_packets c + 1) div timePassed now c \<le> ce_max_packets E
       then \<exists>m m'. cn_received e = cn_received c @ [(False, m)] \<and> onRecvMessage p m = Some (Some m')
         \<and> unread m' = content (om_msg out)
       else cn_closed e \<and> cn_received e = cn_received c"
proof (cases "(cn_packets c + 1) div timePassed now c \<le> ce_max_packets E")
  case False
  have closed: "cn_closed (parsePacket w s h fails False b d) \<and> cn_received (parsePacket w s h fails False b d) = cn_received c"
    if "cn_closed d \<and> cn_received d = cn_received c" for w s h b d
    using that by (simp add: parsePacket_def Let_def)
  then show ?thesis
    unfolding Let_def if_not_P [OF False] using parseHeader_too_fast [OF assms(10) False] by blast
next
  case True
  let ?c = "content (om_msg out)"
  have len: "length ?c \<le> 65510" using assms(5,7) by (simp add: content_def writer_ok_def message_consts)
  have s: "sent_content deflate p z out = ?c" using assms(4) by (simp add: sent_content_def)
  have k: "check_bytes p out cph = enc32 (adlerChecksum cph)" for cph using assms(3,4) by (simp add: check_bytes_def)
  obtain cph where f: "length cph = length (plain_frame ?c)" "output_bytes out' = frame_of cph"
    "\<forall>ys. xtea_decrypt (cph @ ys) (length cph) (p_key p) = Some (plain_frame ?c @ ys)"
    using onSendMessage_frame [OF assms(1,2,5,6) s len] assms(8) by (auto simp: frame_of_def k mem32.enc_length)
  have n: "0 < length cph" "length cph + 4 < NETWORKMESSAGE_MAXSIZE - 16"
    using f(1) pad_bound [of "length ?c + 2" 8189] len by (simp_all add: length_plain_frame message_consts)
  have i: "conn_inv (ce_wire E) c" using assms(9) by (rule conn_reach_inv)
  define d where "d = parseHeader (ce_max_packets E) now False False (take 2 (frame_of cph)) c"
  have d: "\<not> cn_closed d" "cn_received_first d" "cn_protocol d = Some k" "cn_received d = cn_received c"
    "msg_len (cn_msg d) = length cph + 6" "msg_pos (cn_msg d) = 2"
    "msg_buffer (cn_msg d) = poke 0 (take 2 (frame_of cph)) (msg_buffer (cn_msg c))"
    using parseHeader_frame [OF i assms(10) n True] assms(11,12) by (simp_all add: d_def)
  obtain m where m: "cn_received (parsePacket (ce_wire E) (ce_services E) (ce_handler E) fails False
      (drop 2 (frame_of cph)) d) = cn_received c @ [(False, m)]"
    "msg_len m = length cph + 6" "msg_pos m = 6"
    "msg_buffer m = frame_of cph @ drop (length cph + 6) (msg_buffer (cn_msg c))"
    using parsePacket_frame [OF d(1-3,5-7) conn_inv_buffer [OF i] n] d(4) by metis
  have "length (msg_buffer m) = NETWORKMESSAGE_MAXSIZE" "peek 6 (length cph) (msg_buffer m) = cph"
    using m(4) n(2) conn_inv_buffer [OF i]
    by (simp_all add: length_frame_of message_consts peek_def frame_of_def mem16.enc_length mem32.enc_length)
  then obtain m' where "onRecvMessage p m = Some (Some m')" "unread m' = ?c"
    using onRecvMessage_frame [OF assms(2) _ m(3,2) _ f(1) len f(3)] by auto
  then show ?thesis using m(1) True by (simp add: f(2) d_def Let_def)
qed

theorem packet_delivery_witness:
  "\<exists>out' m m'. onSendMessage sample_deflate (enableXTEAEncryption new_protocol) () long_message = Some ((), out')
    \<and> cn_received (parsePacket (ce_wire demo_env) (ce_services demo_env) (ce_handler demo_env) False False
        (drop 2 (output_bytes out'))
        (parseHeader (ce_max_packets demo_env) 100 False False (take 2 (output_bytes out')) demo_first))
      = cn_received demo_first @ [(False, m)]
    \<and> onRecvMessage (enableXTEAEncryption new_protocol) m = Some (Some m') \<and> unread m' = replicate 70 7"
proof -
  let ?p = "enableXTEAEncryption new_protocol"
  have p: "\<not> p_raw ?p" "p_encryption ?p" "p_checksum ?p" "\<not> compresses ?p long_message"
    by (simp_all add: enableXTEAEncryption_def new_protocol_def compresses_def)
  have s: "om_start long_message = INITIAL_BUFFER_POSITION" by (simp add: long_message_def)
  have l: "msg_len (om_msg long_message) \<le> 65510" by (simp add: long_message_facts)
  have "sent_content sample_deflate ?p () long_message = replicate 70 7"
    using p(4) by (simp add: sent_content_def long_message_facts)
  then obtain out' where o: "onSendMessage sample_deflate ?p () long_message = Some ((), out')"
    using onSendMessage_frame [OF p(1,2) long_message_facts(1) s, of sample_deflate "()"] by auto
  have c: "\<not> cn_closed demo_first" "cn_received_first demo_first" "cn_protocol demo_first = Some 0"
    "(cn_packets demo_first + 1) div timePassed 100 demo_first \<le> ce_max_packets demo_env"
    by (simp_all add: demo_first_eq [unfolded Let_def] demo_header_eq demo_defs Let_def)
  show ?thesis
    using packet_delivery [OF p long_message_facts(1) s l o demo_first_reach c(1-3), of 100 False] o c(4)
    unfolding long_message_facts(2) by (auto simp: Let_def)
qed

end
