(* ===== verification/Sha1.thy ===== *)
theory Sha1
  imports Prelude
begin

text \<open>
  The SHA-1 digest and the one-time-password generator of \<^verbatim>\<open>src/src/tools.cpp\<close>
  (\<^verbatim>\<open>circularShift\<close>, \<^verbatim>\<open>processSHA1MessageBlock\<close>,
  \<^verbatim>\<open>transformToSHA1\<close>, \<^verbatim>\<open>generateToken\<close>), which protect account
  passwords and the two-factor login. The code feeds a 64-byte block buffer one character at
  a time; the reference at the end of the file is the padding and block iteration of
  FIPS 180, and the property shows that both give the same digest.
\<close>

section \<open>The compression function\<close>

definition circularShift :: "nat \<Rightarrow> u32 \<Rightarrow> u32" where
  "circularShift bits val = push_bit bits val OR drop_bit (32 - bits) val"

text \<open>The five chaining values \<^verbatim>\<open>H[0..4]\<close>, and also \<^verbatim>\<open>A..E\<close>.\<close>

type_synonym sha_state = "u32 \<times> u32 \<times> u32 \<times> u32 \<times> u32"

definition message_word :: "byte list \<Rightarrow> nat \<Rightarrow> u32" where
  "message_word block i =
     (let offset = push_bit 2 i
      in push_bit 24 (ucast (block ! offset)) OR push_bit 16 (ucast (block ! (offset + 1)))
         OR push_bit 8 (ucast (block ! (offset + 2))) OR ucast (block ! (offset + 3)))"

text \<open>\<^verbatim>\<open>W[16..79]\<close>: the array holds \<open>i\<close> words when the loop index is \<open>i\<close>.\<close>

primrec extend_words :: "nat \<Rightarrow> u32 list \<Rightarrow> u32 list" where
  "extend_words 0 W = W"
| "extend_words (Suc n) W =
     (let i = length W
      in extend_words n (W @ [circularShift 1 (W ! (i - 3) XOR W ! (i - 8) XOR W ! (i - 14) XOR W ! (i - 16))]))"

definition sha1_words :: "byte list \<Rightarrow> u32 list" where
  "sha1_words block = extend_words 64 (map (message_word block) [0..<16])"

definition sha1_step :: "(u32 \<Rightarrow> u32 \<Rightarrow> u32 \<Rightarrow> u32) \<Rightarrow> u32 \<Rightarrow> u32 \<Rightarrow> sha_state \<Rightarrow> sha_state" where
  "sha1_step f k w = (\<lambda>(A, B, C, D, E).
     let tmp = circularShift 5 A + f B C D + E + w + k
     in (tmp, A, circularShift 30 B, C, D))"

definition sha1_ch :: "u32 \<Rightarrow> u32 \<Rightarrow> u32 \<Rightarrow> u32" where
  "sha1_ch B C D = (B AND C) OR (NOT B AND D)"
definition sha1_parity :: "u32 \<Rightarrow> u32 \<Rightarrow> u32 \<Rightarrow> u32" where
  "sha1_parity B C D = B XOR C XOR D"
definition sha1_maj :: "u32 \<Rightarrow> u32 \<Rightarrow> u32 \<Rightarrow> u32" where
  "sha1_maj B C D = (B AND C) OR (B AND D) OR (C AND D)"

text \<open>The four loops over \<^verbatim>\<open>W\<close>, twenty steps each.\<close>

definition processSHA1MessageBlock :: "byte list \<Rightarrow> sha_state \<Rightarrow> sha_state" where
  "processSHA1MessageBlock block H =
     (let W = sha1_words block;
          s1 = fold (sha1_step sha1_ch 0x5A827999) (take 20 W) H;
          s2 = fold (sha1_step sha1_parity 0x6ED9EBA1) (take 20 (drop 20 W)) s1;
          s3 = fold (sha1_step sha1_maj 0x8F1BBCDC) (take 20 (drop 40 W)) s2;
          s4 = fold (sha1_step sha1_parity 0xCA62C1D6) (take 20 (drop 60 W)) s3
      in case (H, s4) of ((h0, h1, h2, h3, h4), (A, B, C, D, E)) \<Rightarrow>
           (h0 + A, h1 + B, h2 + C, h3 + D, h4 + E))"

section \<open>The streaming digest\<close>

record sha1_stream =
  ss_block :: "byte list"
  ss_index :: nat
  ss_low :: u32
  ss_high :: u32
  ss_H :: sha_state

definition sha1_init :: sha_state where
  "sha1_init = (0x67452301, 0xEFCDAB89, 0x98BADCFE, 0x10325476, 0xC3D2E1F0)"

text \<open>\<^verbatim>\<open>messageBlock[index++] = b\<close>.\<close>

definition sha1_put :: "byte \<Rightarrow> sha1_stream \<Rightarrow> sha1_stream" where
  "sha1_put b s = s\<lparr>ss_block := (ss_block s)[ss_index s := b], ss_index := ss_index s + 1\<rparr>"

definition sha1_flush :: "sha1_stream \<Rightarrow> sha1_stream" where
  "sha1_flush s = s\<lparr>ss_H := processSHA1MessageBlock (ss_block s) (ss_H s), ss_index := 0\<rparr>"

text \<open>The body of the loop over the input characters.\<close>

definition sha1_feed :: "byte \<Rightarrow> sha1_stream \<Rightarrow> sha1_stream" where
  "sha1_feed ch s =
     (let s1 = sha1_put ch s;
          low = ss_low s1 + 8;
          s2 = s1\<lparr>ss_low := low, ss_high := (if low = 0 then ss_high s1 + 1 else ss_high s1)\<rparr>
      in if ss_index s2 = 64 then sha1_flush s2 else s2)"

text \<open>\<^verbatim>\<open>while (index < limit) messageBlock[index++] = 0\<close>.\<close>

function sha1_zero_to :: "nat \<Rightarrow> sha1_stream \<Rightarrow> sha1_stream" where
  "sha1_zero_to limit s = (if ss_index s < limit then sha1_zero_to limit (sha1_put 0 s) else s)"
  by pat_completeness auto
termination
  by (relation "measure (\<lambda>(limit, s). limit - ss_index s)") (auto simp: sha1_put_def)

declare sha1_zero_to.simps [simp del]

definition be_bytes32 :: "u32 \<Rightarrow> byte list" where
  "be_bytes32 w = [ucast (drop_bit 24 w), ucast (drop_bit 16 w), ucast (drop_bit 8 w), ucast w]"

definition sha1_finish :: "sha1_stream \<Rightarrow> sha_state" where
  "sha1_finish s =
     (let s1 = sha1_put 0x80 s;
          s2 = (if ss_index s1 > 56 then sha1_flush (sha1_zero_to 64 s1) else s1);
          s3 = sha1_zero_to 56 s2;
          block = take 56 (ss_block s3) @ be_bytes32 (ss_high s3) @ be_bytes32 (ss_low s3)
      in processSHA1MessageBlock block (ss_H s3))"

definition hexDigits :: string where "hexDigits = ''0123456789abcdef''"

definition sha1_H :: "sha_state \<Rightarrow> nat \<Rightarrow> u32" where
  "sha1_H H i = (case H of (h0, h1, h2, h3, h4) \<Rightarrow> [h0, h1, h2, h3, h4] ! i)"

definition sha1_hash_byte :: "sha_state \<Rightarrow> nat \<Rightarrow> byte" where
  "sha1_hash_byte H hashByte =
     ucast (drop_bit (nat (push_bit 3 ((3 - int hashByte) AND 3))) (sha1_H H (drop_bit 2 hashByte)))"

definition hex_of_byte :: "byte \<Rightarrow> string" where
  "hex_of_byte b = [hexDigits ! unat (drop_bit 4 b), hexDigits ! unat (b AND 15)]"

definition sha1_hexstring :: "sha_state \<Rightarrow> string" where
  "sha1_hexstring H = concat (map (\<lambda>hashByte. hex_of_byte (sha1_hash_byte H hashByte)) [0..<20])"

text \<open>
  The block buffer is an uninitialised local of the C++ function: its content is the
  parameter \<open>junk\<close>.
\<close>

definition sha1_state0 :: "byte list \<Rightarrow> sha1_stream" where
  "sha1_state0 junk = \<lparr>ss_block = junk, ss_index = 0, ss_low = 0, ss_high = 0, ss_H = sha1_init\<rparr>"

definition transformToSHA1 :: "byte list \<Rightarrow> byte list \<Rightarrow> string" where
  "transformToSHA1 junk input =
     sha1_hexstring (sha1_finish (fold sha1_feed input (sha1_state0 junk)))"

section \<open>Reference: FIPS 180 padding and block iteration\<close>

text \<open>The least number of zero bytes that brings the length to 56 modulo 64.\<close>

definition sha1_pad_zeros :: "nat \<Rightarrow> nat" where
  "sha1_pad_zeros n = (119 - n mod 64) mod 64"

definition sha1_pad :: "byte list \<Rightarrow> byte list" where
  "sha1_pad msg = msg @ [0x80] @ replicate (sha1_pad_zeros (length msg)) 0 @
     rev (le_bytes 8 (8 * length msg))"

fun sha1_blocks :: "byte list \<Rightarrow> sha_state \<Rightarrow> sha_state" where
  "sha1_blocks msg H =
     (if length msg < 64 then H
      else sha1_blocks (drop 64 msg) (processSHA1MessageBlock (take 64 msg) H))"

declare sha1_blocks.simps [simp del]

definition sha1_reference :: "byte list \<Rightarrow> string" where
  "sha1_reference msg = sha1_hexstring (sha1_blocks (sha1_pad msg) sha1_init)"

section \<open>Lemmas\<close>

text \<open>The two shifts of \<^verbatim>\<open>circularShift\<close> are a rotation for every amount the code uses.\<close>

lemma circularShift_rotl:
  assumes "n < 32"
  shows "circularShift n w = word_rotl n w"
proof (rule bit_word_eqI)
  fix i assume i: "i < LENGTH(32)"
  have r: "bit (word_rotl n w) i = bit w ((i + (32 - n)) mod 32)"
    using i assms mod_less [OF assms] by (simp only: bit_word_rotl_iff) simp
  show "bit (circularShift n w) i = bit (word_rotl n w) i"
  proof (cases "n \<le> i")
    case True
    with i assms have "(i + (32 - n)) mod 32 = i - n" by (simp add: mod_if)
    with True i assms r show ?thesis
      by (auto simp: circularShift_def bit_simps dest: bit_imp_le_length)
  next
    case False
    with i assms have "(i + (32 - n)) mod 32 = 32 - n + i" by simp
    with False i assms r show ?thesis by (auto simp: circularShift_def bit_simps)
  qed
qed

lemma length_extend_words [simp]: "length (extend_words n W) = length W + n"
  by (induction n arbitrary: W) (simp_all add: Let_def)

lemma length_sha1_words [simp]: "length (sha1_words b) = 80"
  by (simp add: sha1_words_def)

text \<open>
  The compression function depends on the 64 bytes of the block only, and the digest on the
  bytes written: what \<open>junk\<close> held is overwritten before it is read.
\<close>

definition sha1_inv :: "byte list \<Rightarrow> sha1_stream \<Rightarrow> bool" where
  "sha1_inv msg s \<longleftrightarrow> length (ss_block s) = 64 \<and> ss_index s = length msg mod 64
     \<and> take (ss_index s) (ss_block s) = drop (64 * (length msg div 64)) msg
     \<and> (ss_H s = sha1_blocks msg sha1_init)
     \<and> unat (ss_low s) = 8 * length msg mod 2 ^ 32
     \<and> ss_high s = of_nat (8 * length msg div 2 ^ 32)"

lemma sha1_blocks_step:
  "length bs = 64 \<Longrightarrow> sha1_blocks (bs @ msg) H = sha1_blocks msg (processSHA1MessageBlock bs H)"
  by (subst sha1_blocks.simps) simp

lemma sha1_blocks_short: "length msg < 64 \<Longrightarrow> sha1_blocks msg H = H"
  by (subst sha1_blocks.simps) simp

lemma sha1_blocks_append:
  assumes "length xs = 64 * k"
  shows "sha1_blocks (xs @ ys) H = sha1_blocks ys (sha1_blocks xs H)"
  using assms
proof (induction k arbitrary: xs H)
  case 0
  then show ?case by (simp add: sha1_blocks_short)
next
  case (Suc k)
  define b r where "b = take 64 xs" and "r = drop 64 xs"
  have xs: "xs = b @ r" and l: "length b = 64" "length r = 64 * k"
    using Suc.prems by (simp_all add: b_def r_def)
  show ?case
    using Suc.IH [OF l(2)] sha1_blocks_step [OF l(1), of "r @ ys" H] sha1_blocks_step [OF l(1), of r H]
    by (simp add: xs)
qed

lemma take_Suc_update: "i < length xs \<Longrightarrow> take (Suc i) (xs[i := x]) = take i xs @ [x]"
  by (simp add: take_Suc_conv_app_nth)

lemma be_bytes_le_bytes: "be_bytes32 w = rev (le_bytes 4 (unat w))"
proof -
  have d: "ucast (drop_bit n w) = (of_nat (unat w div 2 ^ n mod 256) :: byte)" for n
  proof -
    have "(of_nat (unat w div 2 ^ n mod 256) :: byte) = of_nat (unat w div 2 ^ n)"
      by (simp add: unat_inject [symmetric] unat_of_nat)
    also have "\<dots> = of_nat (unat (drop_bit n w))"
      by (simp only: unat_drop_bit_eq) (simp only: drop_bit_eq_div)
    also have "\<dots> = ucast (drop_bit n w)" by (rule of_nat_unat)
    finally show ?thesis by simp
  qed
  have "(4::nat) = Suc (Suc (Suc (Suc 0)))" by simp
  then have "le_bytes 4 (unat w) =
    [of_nat (unat w div 2 ^ 0 mod 256), of_nat (unat w div 2 ^ 8 mod 256),
     of_nat (unat w div 2 ^ 16 mod 256), of_nat (unat w div 2 ^ 24 mod 256)]"
    by (simp only: le_bytes.simps div_mult2_eq [symmetric]) simp
  then show ?thesis unfolding d [symmetric] by (simp add: be_bytes32_def)
qed

lemma sha1_inv_init: "length junk = 64 \<Longrightarrow> sha1_inv [] (sha1_state0 junk)"
  by (simp add: sha1_inv_def sha1_state0_def sha1_blocks_short)

text \<open>The two length counters are the halves of a 64-bit count of bits.\<close>

lemma bit_counter_step:
  assumes "unat (low :: u32) = 8 * n mod 2 ^ 32" and "(high :: u32) = of_nat (8 * n div 2 ^ 32)"
  shows "unat (low + 8) = 8 * Suc n mod 2 ^ 32"
    and "(if low + 8 = 0 then high + 1 else high) = of_nat (8 * Suc n div 2 ^ 32)"
proof -
  show u: "unat (low + 8) = 8 * Suc n mod 2 ^ 32"
  proof -
    have "unat (low + 8) = (8 * n mod 2 ^ 32 + 8) mod 2 ^ 32"
      using assms(1) by (simp add: unat_word_ariths)
    also have "\<dots> = (8 * n + 8) mod 2 ^ 32" by (rule mod_add_left_eq)
    finally show ?thesis by (simp only: mult_Suc_right add.commute)
  qed
  have z: "low + 8 = 0 \<longleftrightarrow> 8 * Suc n mod 2 ^ 32 = 0"
    by (metis u unat_eq_zero)
  have f: "8 * m mod 2 ^ 32 = 8 * (m mod 2 ^ 29)" for m :: nat
    using mult_mod_right [of 8 m "2 ^ 29"] by simp
  have e: "8 * m div 2 ^ 32 = m div 2 ^ 29" for m :: nat
    using div_mult_mult1 [of 8 m "2 ^ 29"] by simp
  show "(if low + 8 = 0 then high + 1 else high) = of_nat (8 * Suc n div 2 ^ 32)"
    unfolding z assms(2) e f using div_Suc [of n "2 ^ 29"] by simp
qed

lemma sha1_inv_feed:
  assumes "sha1_inv msg s"
  shows "sha1_inv (msg @ [b]) (sha1_feed b s)"
proof -
  let ?i = "ss_index s" and ?n = "length msg"
  have l: "length (ss_block s) = 64" and i: "?i = ?n mod 64"
    and t: "take ?i (ss_block s) = drop (64 * (?n div 64)) msg"
    and H: "ss_H s = sha1_blocks msg sha1_init"
    and c: "unat (ss_low s) = 8 * ?n mod 2 ^ 32" "ss_high s = of_nat (8 * ?n div 2 ^ 32)"
    using assms unfolding sha1_inv_def by blast+
  have lt: "?i < 64" using i by simp
  let ?blk = "(ss_block s)[?i := b]"
  have t': "take (Suc ?i) ?blk = drop (64 * (?n div 64)) (msg @ [b])"
    using t l lt by (simp add: take_Suc_update)
  have full: "msg = take (64 * (?n div 64)) msg @ drop (64 * (?n div 64)) msg" by simp
  have le: "64 * (?n div 64) \<le> ?n" by simp
  then have split: "msg @ [b] = take (64 * (?n div 64)) msg @ drop (64 * (?n div 64)) (msg @ [b])"
    by (simp del: append_take_drop_id) (metis append_assoc append_take_drop_id)
  have lf: "length (take (64 * (?n div 64)) msg) = 64 * (?n div 64)" by simp
  show ?thesis
  proof (cases "Suc ?i = 64")
    case True
    with i have n'': "Suc ?n mod 64 = 0" "Suc ?n div 64 = Suc (?n div 64)"
      by (simp_all add: mod_Suc div_Suc)
    note n' = n'' mult_div_mod_eq [of 64 "Suc ?n", unfolded n''(1) add_0_right]
    have s64: "64 + 64 * (?n div 64) = Suc ?n" using n'(3) unfolding n'(2) by simp
    have blk: "?blk = drop (64 * (?n div 64)) (msg @ [b])"
      using t' True l by simp
    then have lb: "length (drop (64 * (?n div 64)) (msg @ [b])) = 64"
      using l by (metis length_list_update)
    have "sha1_blocks (msg @ [b]) sha1_init
      = sha1_blocks (take (64 * (?n div 64)) msg @ drop (64 * (?n div 64)) (msg @ [b])) sha1_init"
      by (rule arg_cong [OF split])
    also have "\<dots> = sha1_blocks (drop (64 * (?n div 64)) (msg @ [b]))
        (sha1_blocks (take (64 * (?n div 64)) msg) sha1_init)"
      by (rule sha1_blocks_append [OF lf])
    also have "\<dots> = processSHA1MessageBlock (drop (64 * (?n div 64)) (msg @ [b]))
        (sha1_blocks (take (64 * (?n div 64)) msg) sha1_init)"
      using sha1_blocks_step [OF lb, of "[]"] by (simp add: sha1_blocks_short)
    also have "sha1_blocks (take (64 * (?n div 64)) msg) sha1_init = ss_H s"
      using sha1_blocks_append [OF lf, of "drop (64 * (?n div 64)) msg" sha1_init] full H
      by (simp add: sha1_blocks_short)
    finally show ?thesis
      using True n' l blk bit_counter_step [OF c] i s64
      by (cases "ss_low s + 8 = 0")
        (simp_all add: sha1_inv_def sha1_feed_def sha1_put_def sha1_flush_def Let_def)
  next
    case False
    with i have n': "Suc ?n mod 64 = Suc ?i" "Suc ?n div 64 = ?n div 64"
      by (simp_all add: mod_Suc div_Suc)
    have "sha1_blocks (msg @ [b]) sha1_init
      = sha1_blocks (take (64 * (?n div 64)) msg @ drop (64 * (?n div 64)) (msg @ [b])) sha1_init"
      by (rule arg_cong [OF split])
    also have "\<dots> = sha1_blocks (take (64 * (?n div 64)) msg) sha1_init"
      using False lt i by (simp add: sha1_blocks_append [OF lf] sha1_blocks_short
          minus_mult_div_eq_mod)
    also have "\<dots> = sha1_blocks msg sha1_init"
      using sha1_blocks_append [OF lf, of "drop (64 * (?n div 64)) msg" sha1_init] full
      by (simp add: sha1_blocks_short minus_mult_div_eq_mod)
    finally show ?thesis
      using False n' l t' H bit_counter_step [OF c]
      by (cases "ss_low s + 8 = 0")
        (simp_all add: sha1_inv_def sha1_feed_def sha1_put_def Let_def)
  qed
qed

lemma sha1_inv_fold: "sha1_inv msg s \<Longrightarrow> sha1_inv (msg @ bs) (fold sha1_feed bs s)"
proof (induction bs arbitrary: msg s)
  case Nil
  then show ?case by simp
next
  case (Cons b bs)
  from Cons.IH [OF sha1_inv_feed [OF Cons.prems]] show ?case by simp
qed

lemma sha1_zero_to_eq:
  assumes "ss_index s \<le> limit" and "limit \<le> length (ss_block s)"
  shows "sha1_zero_to limit s = s\<lparr>ss_index := limit, ss_block :=
    take (ss_index s) (ss_block s) @ replicate (limit - ss_index s) 0 @ drop limit (ss_block s)\<rparr>"
  using assms
proof (induction limit s rule: sha1_zero_to.induct)
  case (1 limit s)
  show ?case
  proof (cases "ss_index s < limit")
    case True
    have r: "limit - ss_index s = Suc (limit - Suc (ss_index s))" using True by simp
    have "sha1_zero_to limit (sha1_put 0 s) = (sha1_put 0 s)\<lparr>ss_index := limit, ss_block :=
      take (Suc (ss_index s)) ((ss_block s)[ss_index s := 0]) @
      replicate (limit - Suc (ss_index s)) 0 @ drop limit (ss_block s)\<rparr>"
      using 1 True by (simp add: sha1_put_def)
    with True 1 show ?thesis
      by (subst sha1_zero_to.simps) (simp add: sha1_put_def take_Suc_update r)
  next
    case False
    with 1 have "ss_index s = limit" by simp
    then show ?thesis by (subst sha1_zero_to.simps) simp
  qed
qed

lemma length_suffix_bytes:
  assumes "sha1_inv msg s"
  shows "be_bytes32 (ss_high s) @ be_bytes32 (ss_low s) = rev (le_bytes 8 (8 * length msg))"
proof -
  let ?N = "8 * length msg"
  have c: "unat (ss_low s) = ?N mod 256 ^ 4" "unat (ss_high s) = ?N div 256 ^ 4 mod 256 ^ 4"
    using assms by (simp_all add: sha1_inv_def unat_of_nat)
  have "le_bytes 8 ?N = le_bytes (4 + 4) ?N" by simp
  also have "\<dots> = le_bytes 4 (unat (ss_low s)) @ le_bytes 4 (unat (ss_high s))"
    unfolding le_bytes_append c le_bytes_mod ..
  finally show ?thesis by (simp add: be_bytes_le_bytes)
qed

lemma pad_mod_low: "r < 56 \<Longrightarrow> (119 - r) mod 64 = 55 - (r :: nat)"
proof -
  assume r: "r < 56"
  then have "119 - r = 64 + (55 - r)" and "55 - r < 64" by simp_all
  then show ?thesis by (metis mod_add_self1 mod_less)
qed

lemma pad_mod_high: "56 \<le> r \<Longrightarrow> r < 64 \<Longrightarrow> (119 - r) mod 64 = (63 - r) + (56 :: nat)"
proof -
  assume r: "56 \<le> r" "r < 64"
  then have "119 - r = (63 - r) + 56" and "119 - r < 64" by simp_all
  then show ?thesis by (metis mod_less)
qed

lemma sha1_finish_reference:
  assumes "sha1_inv msg s"
  shows "sha1_finish s = sha1_blocks (sha1_pad msg) sha1_init"
proof -
  let ?n = "length msg" and ?r = "length msg mod 64"
  define pre tail where "pre = take (64 * (?n div 64)) msg" and "tail = drop (64 * (?n div 64)) msg"
  define len where "len = be_bytes32 (ss_high s) @ be_bytes32 (ss_low s)"
  have l: "length (ss_block s) = 64" and i: "ss_index s = ?r" and t: "take ?r (ss_block s) = tail"
    and H: "ss_H s = sha1_blocks msg sha1_init"
    using assms unfolding sha1_inv_def tail_def by auto
  have lp: "length pre = 64 * (?n div 64)" by (simp add: pre_def)
  have lt: "length tail = ?r" by (simp add: tail_def minus_mult_div_eq_mod)
  have ll: "length len = 8" by (simp add: len_def be_bytes32_def)
  have msg: "msg = pre @ tail" by (simp add: pre_def tail_def)
  have "sha1_blocks (pre @ tail) sha1_init = sha1_blocks pre sha1_init"
    unfolding sha1_blocks_append [OF lp] using lt by (simp add: sha1_blocks_short)
  then have H': "ss_H s = sha1_blocks pre sha1_init" using H msg by simp
  have pad: "sha1_pad msg = pre @ tail @ [0x80] @ replicate (sha1_pad_zeros ?n) 0 @ len"
    unfolding sha1_pad_def length_suffix_bytes [OF assms, folded len_def, symmetric]
    using msg by simp
  have one: "sha1_blocks bs h = processSHA1MessageBlock bs h" if "length bs = 64" for bs h
    using sha1_blocks_step [OF that, of "[]" h] by (simp add: sha1_blocks_short)
  have up: "take (Suc ?r) ((ss_block s)[?r := 0x80]) = tail @ [0x80]"
    using l t by (simp add: take_Suc_update)
  show ?thesis
  proof (cases "?r < 56")
    case True
    then have z: "sha1_pad_zeros ?n = 55 - ?r" by (simp only: sha1_pad_zeros_def pad_mod_low)
    have "sha1_finish s = processSHA1MessageBlock (tail @ [0x80] @ replicate (55 - ?r) 0 @ len) (ss_H s)"
      using True l i up lt sha1_zero_to_eq [of "sha1_put 0x80 s" 56] Suc_diff_le [of ?r 55]
      by (simp add: sha1_finish_def sha1_put_def len_def Let_def)
    moreover have "length (tail @ [0x80] @ replicate (55 - ?r) 0 @ len) = 64"
      using True lt ll by simp
    ultimately show ?thesis
      unfolding pad sha1_blocks_append [OF lp] z H' by (simp add: one)
  next
    case False
    then have r: "56 \<le> ?r" "?r < 64" by simp_all
    then have z: "sha1_pad_zeros ?n = (63 - ?r) + 56"
      by (simp only: sha1_pad_zeros_def pad_mod_high)
    let ?b = "tail @ [0x80] @ replicate (63 - ?r) (0 :: byte)"
    have lb: "length ?b = 64" using r lt by simp
    have f: "sha1_flush (sha1_zero_to 64 (sha1_put 0x80 s))
      = s\<lparr>ss_block := ?b, ss_index := 0, ss_H := processSHA1MessageBlock ?b (ss_H s)\<rparr>"
      using r l i up sha1_zero_to_eq [of "sha1_put 0x80 s" 64]
      by (simp add: sha1_put_def sha1_flush_def)
    have "sha1_finish s = processSHA1MessageBlock (replicate 56 0 @ len)
      (processSHA1MessageBlock ?b (ss_H s))"
      using r l i f lb by (simp add: sha1_finish_def sha1_put_def len_def Let_def sha1_zero_to_eq)
    moreover have "length (replicate 56 0 @ len) = 64" using ll by simp
    moreover have "sha1_pad msg = pre @ ?b @ replicate 56 0 @ len"
      unfolding pad z replicate_add by simp
    ultimately show ?thesis
      unfolding sha1_blocks_append [OF lp] H'
      using sha1_blocks_step [OF lb, of "replicate 56 0 @ len"] by (simp add: sha1_blocks_append [OF lp] one)
  qed
qed

lemma transformToSHA1_eq:
  assumes "length junk = 64"
  shows "transformToSHA1 junk input = sha1_reference input"
proof -
  have "sha1_inv ([] @ input) (fold sha1_feed input (sha1_state0 junk))"
    using sha1_inv_fold [OF sha1_inv_init [OF assms]] .
  from sha1_finish_reference [OF this] show ?thesis
    by (simp add: transformToSHA1_def sha1_reference_def)
qed

section \<open>Properties\<close>

text \<open>
  C35. The streaming digest of a password or token message is the SHA-1 of FIPS 180: the
  one-pass buffer with its two padding cases and the two 32-bit length counters computes the
  block iteration over the padded message, whatever the uninitialised buffer held before.
\<close>

theorem transformToSHA1_reference:
  assumes "length junk = 64"
  shows "transformToSHA1 junk input = sha1_reference input"
  using assms by (rule transformToSHA1_eq)

theorem transformToSHA1_reference_witness:
  "transformToSHA1 (replicate 64 255) [97, 98, 99] = sha1_reference [97, 98, 99]"
  using transformToSHA1_reference [of "replicate 64 255" "[97, 98, 99]"] by simp

end
