(* ===== verification/Token.thy ===== *)
theory Token
  imports Sha1
begin

text \<open>
  The time-based one-time password of the two-factor login:
  \<^verbatim>\<open>generateToken\<close> of \<^verbatim>\<open>src/src/tools.cpp\<close>. The code works
  on the hexadecimal text of the two digests; the reference is the byte-level HMAC-SHA1 and
  truncation of RFC 2104 and RFC 4226.
\<close>

section \<open>Model\<close>

definition AUTHENTICATOR_DIGITS :: nat where "AUTHENTICATOR_DIGITS = 6"

definition hex_value :: "char \<Rightarrow> nat" where
  "hex_value c = (let n = of_char c :: nat in if n < 58 then n - 48 else n - 87)"

definition is_hex :: "char \<Rightarrow> bool" where
  "is_hex c = (let n = of_char c :: nat in 48 \<le> n \<and> n \<le> 57 \<or> 97 \<le> n \<and> n \<le> 102)"

text \<open>\<^verbatim>\<open>strtoul(s, nullptr, 16)\<close> on the lower-case digits the digest prints.\<close>

definition strtoul16 :: "string \<Rightarrow> nat" where
  "strtoul16 s = foldl (\<lambda>n c. 16 * n + hex_value c) 0 (takeWhile is_hex s)"

text \<open>\<^verbatim>\<open>for (uint8_t i = 8; --i; ticks >>= 8) message[i] = ticks & 0xFF\<close>.\<close>

primrec token_fill :: "nat \<Rightarrow> u32 \<Rightarrow> byte list \<Rightarrow> byte list" where
  "token_fill 0 ticks message = message"
| "token_fill (Suc i) ticks message =
     token_fill i (drop_bit 8 ticks) (message[Suc i := ucast (ticks AND 0xFF)])"

text \<open>
  \<^verbatim>\<open>pad[i] ^= key[i]\<close> for all characters of the key; a key longer than the
  64-byte pad writes out of bounds.
\<close>

fun xor_key :: "byte list \<Rightarrow> byte list \<Rightarrow> byte list option" where
  "xor_key pad [] = Some pad"
| "xor_key [] (k # ks) = None"
| "xor_key (p # pad) (k # ks) = map_option ((#) (p XOR k)) (xor_key pad ks)"

function hex_pairs :: "string \<Rightarrow> byte list" where
  "hex_pairs s = (if s = [] then [] else of_nat (strtoul16 (take 2 s)) # hex_pairs (drop 2 s))"
  by pat_completeness auto
termination
  by (relation "measure length") auto

declare hex_pairs.simps [simp del]

definition token_of_digest :: "string \<Rightarrow> string" where
  "token_of_digest message =
     (let offset = strtoul16 (take 1 (drop 39 message)) AND 0xF;
          truncHash = strtoul16 (take 8 (drop (2 * offset) message)) AND 0x7FFFFFFF;
          text = nat_str truncHash;
          hashLen = length text;
          last_digits = drop (hashLen - min hashLen AUTHENTICATOR_DIGITS) text
      in replicate (AUTHENTICATOR_DIGITS - min hashLen AUTHENTICATOR_DIGITS) (CHR ''0'') @ last_digits)"

definition generateToken :: "byte list \<Rightarrow> byte list \<Rightarrow> byte list \<Rightarrow> u32 \<Rightarrow> string option" where
  "generateToken junk1 junk2 key ticks =
     (let message = token_fill 7 ticks (replicate 8 0)
      in case (xor_key (replicate 64 0x36) key, xor_key (replicate 64 0x5C) key) of
           (Some iKeyPad, Some oKeyPad) \<Rightarrow>
             (let digest1 = transformToSHA1 junk1 (iKeyPad @ message);
                  digest2 = transformToSHA1 junk2 (oKeyPad @ hex_pairs digest1)
              in Some (token_of_digest digest2))
         | _ \<Rightarrow> None)"

section \<open>Reference: HMAC-SHA1 and HOTP on bytes\<close>

definition sha1_digest :: "byte list \<Rightarrow> byte list" where
  "sha1_digest msg = map (sha1_hash_byte (sha1_blocks (sha1_pad msg) sha1_init)) [0..<20]"

definition hmac_sha1 :: "byte list \<Rightarrow> byte list \<Rightarrow> byte list" where
  "hmac_sha1 key msg =
     (let k = key @ replicate (64 - length key) 0
      in sha1_digest (map ((XOR) 0x5C) k @ sha1_digest (map ((XOR) 0x36) k @ msg)))"

definition be_value :: "byte list \<Rightarrow> nat" where
  "be_value bs = foldl (\<lambda>n b. 256 * n + unat b) 0 bs"

text \<open>Exactly \<open>k\<close> decimal digits of a number, the least significant last.\<close>

primrec fixed_digits :: "nat \<Rightarrow> nat \<Rightarrow> string" where
  "fixed_digits 0 n = []"
| "fixed_digits (Suc k) n = fixed_digits k (n div 10) @ [digit_char (n mod 10)]"

definition hotp :: "byte list \<Rightarrow> u32 \<Rightarrow> string" where
  "hotp key ticks =
     (let h = hmac_sha1 key (replicate 4 0 @ be_bytes32 ticks);
          off = unat (h ! 19) mod 16
      in fixed_digits 6 (be_value (take 4 (drop off h)) mod 2 ^ 31))"

section \<open>Lemmas\<close>

lemma token_fill_ticks: "token_fill 7 ticks (replicate 8 0) = replicate 4 0 @ be_bytes32 ticks"
proof -
  have m: "ucast (v AND 0xFF) = (ucast v :: byte)" for v :: u32
  proof -
    have "v AND 0xFF = take_bit 8 v" by (simp add: take_bit_eq_mask mask_eq_exp_minus_1)
    then show ?thesis by (intro bit_word_eqI) (auto simp: bit_simps)
  qed
  have z: "drop_bit 32 ticks = 0" "drop_bit 40 ticks = 0" "drop_bit 48 ticks = 0"
    by (simp_all add: drop_bit_word_beyond)
  have seven: "(7::nat) = Suc (Suc (Suc (Suc (Suc (Suc (Suc 0))))))" by simp
  have eight: "replicate 8 (0::byte) = [0, 0, 0, 0, 0, 0, 0, 0]" "replicate 4 (0::byte) = [0, 0, 0, 0]"
    by (simp_all add: numeral_eq_Suc)
  show ?thesis
    unfolding seven eight be_bytes32_def token_fill.simps m by (simp add: z)
qed

lemma xor_key_short:
  "length key \<le> n \<Longrightarrow> xor_key (replicate n c) key = Some (map ((XOR) c) (key @ replicate (n - length key) 0))"
proof (induction key arbitrary: n)
  case Nil
  then show ?case by simp
next
  case (Cons k key)
  then obtain m where "n = Suc m" by (cases n) auto
  with Cons show ?case by simp
qed

lemma xor_key_long: "n < length key \<Longrightarrow> xor_key (replicate n c) key = None"
proof (induction key arbitrary: n)
  case Nil
  then show ?case by simp
next
  case (Cons k key)
  then show ?case by (cases n) simp_all
qed

lemma hex_digit:
  assumes "n < 16"
  shows "is_hex (hexDigits ! n) \<and> hex_value (hexDigits ! n) = n"
proof -
  have "\<forall>n \<in> set [0..<16]. is_hex (hexDigits ! n) \<and> hex_value (hexDigits ! n) = n"
    by code_simp
  with assms show ?thesis by simp
qed

lemma nibbles:
  fixes b :: byte
  shows "unat (drop_bit 4 b) < 16" and "unat (b AND 15) < 16"
    and "16 * unat (drop_bit 4 b) + unat (b AND 15) = unat b"
proof -
  have m: "unat (b AND 15) = unat b mod 16"
    using nat_and_mask [of "unat b" 4] by (simp add: unsigned_and_eq)
  have d: "unat (drop_bit 4 b) = unat b div 16"
    by (simp only: unat_drop_bit_eq) (simp add: drop_bit_eq_div)
  have "unat b < 256" using unat_bound [of b] by simp
  with m d show "unat (drop_bit 4 b) < 16" "unat (b AND 15) < 16"
    "16 * unat (drop_bit 4 b) + unat (b AND 15) = unat b" by simp_all
qed

lemma hex_text:
  "list_all is_hex (concat (map hex_of_byte bs))"
  "foldl (\<lambda>n c. 16 * n + hex_value c) v (concat (map hex_of_byte bs)) =
     foldl (\<lambda>n b. 256 * n + unat b) v bs"
proof (induction bs arbitrary: v)
  case Nil
  {
    case 1
    show ?case by simp
  next
    case 2
    show ?case by simp
  }
next
  case (Cons b bs)
  {
    case 1
    show ?case using Cons.IH(1) hex_digit nibbles(1,2) by (simp add: hex_of_byte_def)
  next
    case 2
    let ?f = "\<lambda>n c. 16 * n + hex_value c" and ?x = "unat (drop_bit 4 b)" and ?y = "unat (b AND 15)"
    have e: "16 * (16 * v + ?x) + ?y = 256 * v + unat b" using nibbles(3) [of b] by simp
    have "foldl ?f v (concat (map hex_of_byte (b # bs)))
      = foldl ?f (16 * (16 * v + ?x) + ?y) (concat (map hex_of_byte bs))"
      using hex_digit nibbles(1,2) by (simp add: hex_of_byte_def)
    then show ?case by (simp only: Cons.IH(2) e foldl.simps)
  }
qed

lemma length_hex_of_byte [simp]: "length (hex_of_byte b) = 2"
  by (simp add: hex_of_byte_def)

lemma strtoul16_hex: "strtoul16 (concat (map hex_of_byte bs)) = be_value bs"
proof -
  have tw: "takeWhile is_hex (concat (map hex_of_byte bs)) = concat (map hex_of_byte bs)"
    using hex_text(1) by (simp only: takeWhile_eq_all_conv list_all_iff) blast
  show ?thesis unfolding strtoul16_def be_value_def tw by (rule hex_text(2))
qed

lemma hex_pairs_hex: "hex_pairs (concat (map hex_of_byte bs)) = bs"
proof (induction bs)
  case Nil
  then show ?case by (simp add: hex_pairs.simps)
next
  case (Cons b bs)
  have "strtoul16 (hex_of_byte b) = unat b"
    using strtoul16_hex [of "[b]"] by (simp add: be_value_def)
  moreover have "hex_of_byte b \<noteq> []" by (simp add: hex_of_byte_def)
  ultimately show ?case
    using Cons by (subst hex_pairs.simps) simp
qed

lemma drop_hex: "drop (2 * k) (concat (map hex_of_byte bs)) = concat (map hex_of_byte (drop k bs))"
proof (induction k arbitrary: bs)
  case 0
  then show ?case by simp
next
  case (Suc k)
  then show ?case by (cases bs) (simp_all add: hex_of_byte_def)
qed

lemma take_hex: "take (2 * k) (concat (map hex_of_byte bs)) = concat (map hex_of_byte (take k bs))"
proof (induction k arbitrary: bs)
  case 0
  then show ?case by simp
next
  case (Suc k)
  then show ?case by (cases bs) (simp_all add: hex_of_byte_def)
qed

lemma fixed_digits_0: "fixed_digits k 0 = replicate k (CHR ''0'')"
proof (induction k)
  case 0
  then show ?case by simp
next
  case (Suc k)
  have "digit_char 0 = CHR ''0''" by code_simp
  with Suc show ?case by (simp add: replicate_append_same)
qed

lemma last_digits: "pad0 k (drop (length (nat_str n) - k) (nat_str n)) = fixed_digits k n"
proof (induction k arbitrary: n)
  case 0
  then show ?case by (simp add: pad0_def)
next
  case (Suc k)
  show ?case
  proof (cases "n < 10")
    case True
    then have "nat_str n = [digit_char n]" by (subst nat_str.simps) simp
    with True show ?thesis by (simp add: pad0_def fixed_digits_0)
  next
    case False
    then have s: "nat_str n = nat_str (n div 10) @ [digit_char (n mod 10)]"
      by (subst nat_str.simps) simp
    show ?thesis using Suc [of "n div 10"] by (simp add: s pad0_def)
  qed
qed

lemma token_of_digest_bytes:
  assumes "length bs = 20"
  shows "token_of_digest (concat (map hex_of_byte bs)) =
    fixed_digits 6 (be_value (take 4 (drop (unat (bs ! 19) mod 16) bs)) mod 2 ^ 31)"
proof -
  let ?s = "concat (map hex_of_byte bs)"
  have "drop 39 ?s = drop 1 (drop (2 * 19) ?s)" by simp
  also have "\<dots> = drop 1 (hex_of_byte (bs ! 19))"
    using assms by (simp only: drop_hex) (simp add: Cons_nth_drop_Suc [symmetric] hex_of_byte_def)
  finally have "take 1 (drop 39 ?s) = [hexDigits ! unat (bs ! 19 AND 15)]"
    by (simp add: hex_of_byte_def)
  then have o: "strtoul16 (take 1 (drop 39 ?s)) = unat (bs ! 19 AND 15)"
    using hex_digit [OF nibbles(2) [of "bs ! 19"]] by (simp add: strtoul16_def)
  have "unat (bs ! 19 AND 15) = unat (bs ! 19) mod 16"
    using nibbles [of "bs ! 19"] by (metis mod_less mod_mult_self4)
  with o have off: "strtoul16 (take 1 (drop 39 ?s)) AND 0xF = unat (bs ! 19) mod 16"
    using nat_and_mask [of "unat (bs ! 19) mod 16" 4] by simp
  let ?o = "unat (bs ! 19) mod 16"
  have "take 8 (drop (2 * ?o) ?s) = concat (map hex_of_byte (take 4 (drop ?o bs)))"
    using take_hex [of 4 "drop ?o bs"] by (simp add: drop_hex)
  then have h: "strtoul16 (take 8 (drop (2 * ?o) ?s)) = be_value (take 4 (drop ?o bs))"
    by (simp only: strtoul16_hex)
  have m: "n AND 0x7FFFFFFF = n mod 2 ^ 31" for n :: nat
    using nat_and_mask [of n 31] by simp
  have d: "replicate (6 - min (length t) 6) (CHR ''0'') @ drop (length t - min (length t) 6) t
    = pad0 6 (drop (length t - 6) t)" for t
    by (simp add: pad0_def min_def)
  show ?thesis
    unfolding token_of_digest_def Let_def off h m AUTHENTICATOR_DIGITS_def d last_digits ..
qed

section \<open>Properties\<close>

text \<open>
  For every key that fits the 64-byte pad, \<^verbatim>\<open>generateToken\<close> is the RFC 4226
  one-time password for the tick counter: the detour through hexadecimal text, the two
  string passes and the trimming of the decimal text compute HMAC-SHA1, dynamic truncation
  and exactly six digits, independently of the uninitialised block buffers. A longer key has
  no defined result (the pad is overrun).
\<close>

theorem generateToken_hotp:
  assumes "length junk1 = 64" and "length junk2 = 64"
  shows "generateToken junk1 junk2 key ticks = (if length key \<le> 64 then Some (hotp key ticks) else None)"
proof (cases "length key \<le> 64")
  case True
  have r: "transformToSHA1 junk msg = concat (map hex_of_byte (sha1_digest msg))"
    if "length junk = 64" for junk msg
    using transformToSHA1_eq [OF that]
    by (simp add: sha1_reference_def sha1_hexstring_def sha1_digest_def comp_def)
  have l: "length (sha1_digest msg) = 20" for msg by (simp add: sha1_digest_def)
  show ?thesis
    using True xor_key_short [OF True]
    by (simp add: generateToken_def token_fill_ticks r assms hex_pairs_hex token_of_digest_bytes l
        hotp_def hmac_sha1_def Let_def)
next
  case False
  then show ?thesis by (simp add: generateToken_def xor_key_long Let_def)
qed

theorem generateToken_hotp_witness:
  "generateToken (replicate 64 1) (replicate 64 2) [75, 69, 89] 12345 = Some (hotp [75, 69, 89] 12345)"
  using generateToken_hotp [of "replicate 64 1" "replicate 64 2" "[75, 69, 89]" 12345] by simp

end
