(* ===== verification/String_Tools.thy ===== *)
theory String_Tools
  imports Prelude "HOL-Library.Sublist"
begin

text \<open>
  The string helpers of \<^verbatim>\<open>src/src/tools.cpp\<close>: search and replace, splitting,
  trimming, case folding and the textual IP address. \<^verbatim>\<open>std::string::find\<close> is
  modelled by its documented result (the least position of a match from a start offset, or
  \<^verbatim>\<open>npos\<close>, here \<open>None\<close>). The two search loops need not end when the sought
  string is empty, so they are partial functions.
\<close>

section \<open>Searching\<close>

fun find_sub :: "string \<Rightarrow> string \<Rightarrow> nat option" where
  "find_sub sub s =
     (if prefix sub s then Some 0
      else case s of [] \<Rightarrow> None | c # s' \<Rightarrow> map_option Suc (find_sub sub s'))"

declare find_sub.simps [simp del]

definition str_find :: "string \<Rightarrow> string \<Rightarrow> nat \<Rightarrow> nat option" where
  "str_find s sub start =
     (if start \<le> length s then map_option ((+) start) (find_sub sub (drop start s)) else None)"

partial_function (option) replace_loop ::
    "string \<Rightarrow> string \<Rightarrow> string \<Rightarrow> nat \<Rightarrow> string option" where
  "replace_loop str sought replacement start =
     (case str_find str sought start of
        None \<Rightarrow> Some str
      | Some pos \<Rightarrow>
          replace_loop (take pos str @ replacement @ drop (pos + length sought) str)
            sought replacement (pos + length replacement))"

definition replaceString :: "string \<Rightarrow> string \<Rightarrow> string \<Rightarrow> string option" where
  "replaceString str sought replacement = replace_loop str sought replacement 0"

partial_function (option) explode_loop ::
    "string \<Rightarrow> string \<Rightarrow> int \<Rightarrow> nat \<Rightarrow> string list \<Rightarrow> string list option" where
  "explode_loop inString separator limit start returnVector =
     (let limit' = limit - 1
      in if limit' \<noteq> -1
         then (case str_find inString separator start of
                 Some e \<Rightarrow> explode_loop inString separator limit' (e + length separator)
                            (returnVector @ [take (e - start) (drop start inString)])
               | None \<Rightarrow> Some (returnVector @ [drop start inString]))
         else Some (returnVector @ [drop start inString]))"

definition explodeString :: "string \<Rightarrow> string \<Rightarrow> int \<Rightarrow> string list option" where
  "explodeString inString separator limit = explode_loop inString separator limit 0 []"

section \<open>Trimming and case\<close>

definition find_last_not_of :: "string \<Rightarrow> char \<Rightarrow> nat option" where
  "find_last_not_of s t =
     (let k = length (dropWhile (\<lambda>c. c = t) (rev s)) in if k = 0 then None else Some (k - 1))"

definition find_first_not_of :: "string \<Rightarrow> char \<Rightarrow> nat option" where
  "find_first_not_of s t =
     (let k = length (takeWhile (\<lambda>c. c = t) s) in if k = length s then None else Some k)"

text \<open>\<^verbatim>\<open>npos + 1\<close> is 0, and erasing \<^verbatim>\<open>npos\<close> characters erases all.\<close>

definition trim_right :: "string \<Rightarrow> char \<Rightarrow> string" where
  "trim_right source t = take (case find_last_not_of source t of None \<Rightarrow> 0 | Some i \<Rightarrow> i + 1) source"

definition trim_left :: "string \<Rightarrow> char \<Rightarrow> string" where
  "trim_left source t = (case find_first_not_of source t of None \<Rightarrow> [] | Some i \<Rightarrow> drop i source)"

definition trimString :: "string \<Rightarrow> string" where
  "trimString str = trim_left (trim_right str (CHR '' '')) (CHR '' '')"

definition toLowerCaseString :: "string \<Rightarrow> string" where
  "toLowerCaseString source = map tolower source"

definition asLowerCaseString :: "string \<Rightarrow> string" where
  "asLowerCaseString source = toLowerCaseString source"

definition asUpperCaseString :: "string \<Rightarrow> string" where
  "asUpperCaseString source = map toupper source"

definition caseInsensitiveEqual :: "string \<Rightarrow> string \<Rightarrow> bool" where
  "caseInsensitiveEqual str1 str2 \<longleftrightarrow>
     length str1 = length str2 \<and> list_all2 (\<lambda>a b. tolower a = tolower b) str1 str2"

definition caseInsensitiveStartsWith :: "string \<Rightarrow> string \<Rightarrow> bool" where
  "caseInsensitiveStartsWith str pre \<longleftrightarrow>
     length str \<ge> length pre \<and> list_all2 (\<lambda>a b. tolower a = tolower b) pre (take (length pre) str)"

fun ucfirst :: "string \<Rightarrow> string" where
  "ucfirst [] = []"
| "ucfirst (i # str) = (if i \<noteq> CHR '' '' then toupper i # str else i # ucfirst str)"

text \<open>\<^verbatim>\<open>ucwords\<close>: the previous character has already been rewritten by its own step.\<close>

fun ucwords_from :: "char \<Rightarrow> string \<Rightarrow> string" where
  "ucwords_from prev [] = []"
| "ucwords_from prev (c # str) =
     (let c' = (if prev = CHR '' '' then toupper c else c) in c' # ucwords_from c' str)"

definition ucwords :: "string \<Rightarrow> string" where
  "ucwords str = (case str of [] \<Rightarrow> str | c # rest \<Rightarrow> toupper c # ucwords_from (toupper c) rest)"

definition booleanString :: "string \<Rightarrow> bool" where
  "booleanString str =
     (case str of [] \<Rightarrow> False
      | c # _ \<Rightarrow> (let ch = tolower c in ch \<noteq> CHR ''f'' \<and> ch \<noteq> CHR ''n'' \<and> ch \<noteq> CHR ''0''))"

fun getFirstLine :: "string \<Rightarrow> string" where
  "getFirstLine [] = []"
| "getFirstLine (c # str) = (if c = CHR 0x0A then [] else c # getFirstLine str)"

definition convertIPToString :: "u32 \<Rightarrow> string" where
  "convertIPToString ip =
     nat_str (unat (ip AND 0xFF)) @ ''.'' @ nat_str (unat (drop_bit 8 ip AND 0xFF)) @ ''.'' @
     nat_str (unat (drop_bit 16 ip AND 0xFF)) @ ''.'' @ nat_str (unat (drop_bit 24 ip))"

section \<open>Lemmas on searching\<close>

lemma find_sub_Some:
  "find_sub sub s = Some i \<Longrightarrow> s = take i s @ sub @ drop (i + length sub) s \<and> i + length sub \<le> length s"
proof (induction sub s arbitrary: i rule: find_sub.induct)
  case (1 sub s)
  show ?case
  proof (cases "prefix sub s")
    case True
    with 1(2) have "i = 0" by (subst (asm) find_sub.simps) simp
    with True show ?thesis by (auto simp: prefix_def)
  next
    case False
    with 1(2) obtain c s' j where s: "s = c # s'" and j: "find_sub sub s' = Some j" "i = Suc j"
      by (subst (asm) find_sub.simps) (auto split: list.splits)
    from 1(1) [OF False s j(1)] show ?thesis by (simp add: s j(2))
  qed
qed

lemma find_sub_bound:
  "find_sub sub (drop start s) = Some i \<Longrightarrow> start \<le> length s \<Longrightarrow> start + i + length sub \<le> length s"
  using find_sub_Some [of sub "drop start s" i] by auto

text \<open>The match found is the first one: the part before it holds none.\<close>

lemma find_sub_first:
  assumes "find_sub sub s = Some i" and "sub \<noteq> []"
  shows "find_sub sub (take i s) = None"
  using assms
proof (induction sub s arbitrary: i rule: find_sub.induct)
  case (1 sub s)
  show ?case
  proof (cases "prefix sub s")
    case True
    with "1.prems" have "i = 0" by (subst (asm) find_sub.simps) simp
    with "1.prems" show ?thesis by (subst find_sub.simps) simp
  next
    case False
    with "1.prems" obtain c s' j where s: "s = c # s'" and j: "find_sub sub s' = Some j" "i = Suc j"
      by (subst (asm) find_sub.simps) (auto split: list.splits)
    from "1.IH" [OF False s j(1) "1.prems"(2)] have "find_sub sub (take j s') = None" .
    moreover have "\<not> prefix sub (c # take j s')"
      using False s by (metis prefix_order.trans take_Suc_Cons take_is_prefix)
    ultimately show ?thesis unfolding s j(2) by (subst find_sub.simps) simp
  qed
qed

section \<open>The split, bounded by a number of cuts\<close>

primrec split_max :: "string \<Rightarrow> nat \<Rightarrow> string \<Rightarrow> string list" where
  "split_max sep 0 s = [s]"
| "split_max sep (Suc n) s =
     (case find_sub sep s of
        None \<Rightarrow> [s]
      | Some i \<Rightarrow> take i s # split_max sep n (drop (i + length sep) s))"

fun join :: "string \<Rightarrow> string list \<Rightarrow> string" where
  "join sep [] = []"
| "join sep [v] = v"
| "join sep (v # w # vs) = v @ sep @ join sep (w # vs)"

lemma join_Cons: "vs \<noteq> [] \<Longrightarrow> join sep (v # vs) = v @ sep @ join sep vs"
  by (cases vs) simp_all

lemma split_max_nonempty [simp]: "split_max sep n s \<noteq> []"
  by (cases n) (simp_all split: option.split)

lemma join_split_max [simp]: "join sep (split_max sep n s) = s"
proof (induction n arbitrary: s)
  case 0
  then show ?case by simp
next
  case (Suc n)
  then show ?case using find_sub_Some [of sep s] by (auto simp: join_Cons split: option.split)
qed

lemma length_split_max: "length (split_max sep n s) \<le> Suc n"
  by (induction n arbitrary: s) (simp_all split: option.split)

lemma drop_found_shorter:
  "find_sub sep s = Some i \<Longrightarrow> sep \<noteq> [] \<Longrightarrow> length (drop (i + length sep) s) < length s"
  using find_sub_Some [of sep s i] by (cases sep) auto

lemma split_max_enough:
  "sep \<noteq> [] \<Longrightarrow> length s \<le> n \<Longrightarrow> split_max sep n s = split_max sep (length s) s"
proof (induction n arbitrary: s rule: less_induct)
  case (less n)
  show ?case
  proof (cases "find_sub sep s")
    case None
    then show ?thesis by (cases n; cases "length s") simp_all
  next
    case (Some i)
    let ?r = "drop (i + length sep) s"
    have r: "length ?r < length s" using drop_found_shorter [OF Some less.prems(1)] .
    with less.prems obtain m l where ml: "n = Suc m" "length s = Suc l" "length ?r \<le> l" "l \<le> m"
      by (cases n; cases "length s"; cases sep) auto
    have "split_max sep m ?r = split_max sep (length ?r) ?r"
      using less.IH [of m ?r] less.prems(1) ml by simp
    moreover have "split_max sep l ?r = split_max sep (length ?r) ?r"
      using less.IH [of l ?r] less.prems ml by simp
    ultimately show ?thesis using Some ml by simp
  qed
qed

lemma split_max_no_sep:
  "sep \<noteq> [] \<Longrightarrow> length s \<le> n \<Longrightarrow> v \<in> set (split_max sep n s) \<Longrightarrow> find_sub sep v = None"
proof (induction n arbitrary: s)
  case 0
  then have "v = []" by simp
  with 0 show ?case by (subst find_sub.simps) simp
next
  case (Suc n)
  show ?case
  proof (cases "find_sub sep s")
    case None
    with Suc.prems show ?thesis by simp
  next
    case (Some i)
    with Suc.prems have "v = take i s \<or> v \<in> set (split_max sep n (drop (i + length sep) s))" by simp
    then show ?thesis
      using Suc.IH [of "drop (i + length sep) s"] find_sub_first [OF Some Suc.prems(1)]
        drop_found_shorter [OF Some Suc.prems(1)] Suc.prems by auto
  qed
qed

lemma str_find_drop: "start \<le> length s \<Longrightarrow> str_find s sub start = map_option ((+) start) (find_sub sub (drop start s))"
  by (simp add: str_find_def)

lemma explode_loop_limited:
  "start \<le> length s \<Longrightarrow>
     explode_loop s sep (int n) start acc = Some (acc @ split_max sep n (drop start s))"
proof (induction n arbitrary: start acc)
  case 0
  then show ?case by (subst explode_loop.simps) simp
next
  case (Suc n)
  show ?case
  proof (cases "find_sub sep (drop start s)")
    case None
    with Suc.prems show ?thesis by (subst explode_loop.simps) (simp add: str_find_drop)
  next
    case (Some i)
    from find_sub_bound [OF this Suc.prems] have "start + i + length sep \<le> length s" .
    with Some Suc.IH [of "start + i + length sep"] Suc.prems show ?thesis
      by (subst explode_loop.simps) (simp add: str_find_drop ac_simps)
  qed
qed

lemma explode_loop_unlimited:
  assumes "sep \<noteq> []"
  shows "limit < 0 \<Longrightarrow> start \<le> length s \<Longrightarrow>
     explode_loop s sep limit start acc = Some (acc @ split_max sep (length s) (drop start s))"
proof (induction "length (drop start s)" arbitrary: limit start acc rule: less_induct)
  case less
  show ?case
  proof (cases "find_sub sep (drop start s)")
    case None
    with less.prems show ?thesis
      by (subst explode_loop.simps, cases "length s") (simp_all add: str_find_drop)
  next
    case (Some i)
    let ?st = "start + i + length sep"
    have l: "?st \<le> length s" "length (drop ?st s) < length (drop start s)"
      using find_sub_bound [OF Some less.prems(2)] drop_found_shorter [OF Some assms]
      by (simp_all add: ac_simps)
    then obtain m where n: "length s = Suc m" by (cases "length s") auto
    have "explode_loop s sep (limit - 1) ?st (acc @ [take i (drop start s)])
      = Some ((acc @ [take i (drop start s)]) @ split_max sep (length s) (drop ?st s))"
      using less.hyps [of ?st "limit - 1"] l less.prems by simp
    moreover have "split_max sep (length s) (drop ?st s) = split_max sep m (drop ?st s)"
    proof -
      have b: "length (drop ?st s) \<le> length s" "length (drop ?st s) \<le> m" using l n by auto
      show ?thesis using split_max_enough [OF assms b(1)] split_max_enough [OF assms b(2)] by metis
    qed
    moreover have "split_max sep (length s) (drop start s)
      = take i (drop start s) # split_max sep m (drop ?st s)"
      unfolding n using Some by (simp add: ac_simps)
    moreover have "explode_loop s sep limit start acc
      = explode_loop s sep (limit - 1) ?st (acc @ [take i (drop start s)])"
      using less.prems Some by (subst explode_loop.simps) (simp add: str_find_drop)
    ultimately show ?thesis by simp
  qed
qed

lemma replace_loop_join:
  assumes "sought \<noteq> []"
  shows "start \<le> length str \<Longrightarrow> replace_loop str sought replacement start =
    Some (take start str @ join replacement (split_max sought (length (drop start str)) (drop start str)))"
proof (induction "length (drop start str)" arbitrary: str start rule: less_induct)
  case less
  show ?case
  proof (cases "find_sub sought (drop start str)")
    case None
    with less.prems show ?thesis
      by (subst replace_loop.simps, cases "length (drop start str)") (simp_all add: str_find_drop)
  next
    case (Some i)
    let ?rest = "drop (start + i + length sought) str"
    let ?str = "take (start + i) str @ replacement @ ?rest"
    let ?st = "start + i + length replacement"
    have l: "start + i + length sought \<le> length str" "length ?rest < length (drop start str)"
      using find_sub_bound [OF Some less.prems] drop_found_shorter [OF Some assms]
      by (simp_all add: ac_simps)
    have d: "drop ?st ?str = ?rest" and t: "take ?st ?str = take (start + i) str @ replacement"
      and b: "?st \<le> length ?str" using l by simp_all
    have "replace_loop ?str sought replacement ?st =
      Some (take (start + i) str @ replacement @ join replacement (split_max sought (length ?rest) ?rest))"
      using less.hyps [of ?st ?str] l(2) b unfolding d t by simp
    moreover obtain m where m: "length (drop start str) = Suc m" "length ?rest \<le> m"
      using l(2) by (cases "length (drop start str)") auto
    moreover have "split_max sought m ?rest = split_max sought (length ?rest) ?rest"
      using split_max_enough [OF assms m(2)] .
    ultimately show ?thesis
      using Some less.prems
      by (subst replace_loop.simps)
        (simp add: str_find_drop join_Cons take_add [of start i] add.commute [of _ start] add.assoc)
  qed
qed

section \<open>Lemmas on trimming, case and addresses\<close>

lemma trim_right_rev: "trim_right s t = rev (dropWhile (\<lambda>c. c = t) (rev s))"
proof -
  let ?d = "dropWhile (\<lambda>c. c = t) (rev s)"
  have "rev s = takeWhile (\<lambda>c. c = t) (rev s) @ ?d" by simp
  then have "s = rev ?d @ rev (takeWhile (\<lambda>c. c = t) (rev s))" by (metis rev_append rev_rev_ident)
  then have "take (length ?d) s = rev ?d" by (metis append_eq_conv_conj length_rev)
  then show ?thesis by (auto simp: trim_right_def find_last_not_of_def Let_def)
qed

lemma trim_left_dropWhile: "trim_left s t = dropWhile (\<lambda>c. c = t) s"
  by (auto simp: trim_left_def find_first_not_of_def Let_def dropWhile_eq_drop)

lemma takeWhile_eq_replicate: "takeWhile (\<lambda>c. c = t) s = replicate (length (takeWhile (\<lambda>c. c = t) s)) t"
  by (induction s) simp_all

lemma caseInsensitiveEqual_map: "caseInsensitiveEqual s t \<longleftrightarrow> map tolower s = map tolower t"
  by (auto simp: caseInsensitiveEqual_def list_all2_conv_all_nth list_eq_iff_nth_eq)

lemma dot_not_digit: "CHR ''.'' \<notin> set (nat_str n)"
proof (induction n rule: nat_str.induct)
  case (1 n)
  have d: "digit_char d \<noteq> CHR ''.''" if "d < 10" for d
  proof -
    have "\<forall>d \<in> set [0..<10]. digit_char d \<noteq> CHR ''.''" by code_simp
    with that show ?thesis by simp
  qed
  show ?case
  proof (cases "n < 10")
    case True
    with d [of n] show ?thesis by (subst nat_str.simps) auto
  next
    case False
    with 1 d [of "n mod 10"] show ?thesis by (subst nat_str.simps) auto
  qed
qed

lemma find_dot: "CHR ''.'' \<notin> set us \<Longrightarrow> find_sub ''.'' (us @ ''.'' @ vs) = Some (length us)"
  by (induction us) (simp_all add: find_sub.simps [of _ "_ # _"])

lemma find_no_dot: "CHR ''.'' \<notin> set us \<Longrightarrow> find_sub ''.'' us = None"
  by (induction us) (simp_all add: find_sub.simps [of _ "[]"] find_sub.simps [of _ "_ # _"])

lemma split_max_dots:
  assumes "\<And>v. v \<in> set vs \<Longrightarrow> CHR ''.'' \<notin> set v" and "vs \<noteq> []"
  shows "length vs \<le> Suc n \<Longrightarrow> split_max ''.'' n (join ''.'' vs) = vs"
  using assms
proof (induction vs arbitrary: n)
  case Nil
  then show ?case by simp
next
  case (Cons v vs)
  show ?case
  proof (cases "vs = []")
    case True
    with Cons.prems show ?thesis by (cases n) (simp_all add: find_no_dot)
  next
    case False
    then obtain m where m: "n = Suc m" "length vs \<le> Suc m" using Cons.prems by (cases n; cases vs) auto
    have "split_max ''.'' m (join ''.'' vs) = vs"
      using Cons.IH [of m] Cons.prems m False by auto
    moreover have "find_sub ''.'' (v @ ''.'' @ join ''.'' vs) = Some (length v)"
      using Cons.prems by (intro find_dot) auto
    ultimately show ?thesis using m(1) by (simp add: join_Cons [OF False])
  qed
qed

section \<open>Properties\<close>

text \<open>
  \<^verbatim>\<open>explodeString\<close> returns whenever the separator is not empty or a
  non-negative limit is given, joining the pieces with the separator restores the input, a
  limit bounds the number of cuts, and without a limit no piece contains the separator.
\<close>

theorem explodeString_join:
  assumes "separator \<noteq> [] \<or> 0 \<le> limit"
  shows "\<exists>vs. explodeString inString separator limit = Some vs \<and> vs \<noteq> []
    \<and> join separator vs = inString
    \<and> (0 \<le> limit \<longrightarrow> int (length vs) \<le> limit + 1)
    \<and> (limit < 0 \<longrightarrow> (\<forall>v \<in> set vs. find_sub separator v = None))"
proof (cases "0 \<le> limit")
  case True
  then show ?thesis
    using explode_loop_limited [of 0 inString separator "nat limit" "[]"]
      length_split_max [of separator "nat limit" inString]
    by (simp add: explodeString_def)
next
  case False
  with assms have "separator \<noteq> []" by simp
  with False show ?thesis
    using explode_loop_unlimited [of separator limit 0 inString "[]"]
      split_max_no_sep [of separator inString "length inString"]
    by (auto simp: explodeString_def)
qed

theorem explodeString_join_witness:
  "\<exists>vs. explodeString ''a;b;;c'' '';'' (-1) = Some vs \<and> vs \<noteq> [] \<and> join '';'' vs = ''a;b;;c''
    \<and> (\<forall>v \<in> set vs. find_sub '';'' v = None)"
proof -
  have h: "'';'' \<noteq> [] \<or> 0 \<le> (-1 :: int)" by simp
  show ?thesis using explodeString_join [OF h, of "''a;b;;c''"] by simp
qed

text \<open>
  Replacing a non-empty string ends and is splitting at it and joining the pieces with
  the replacement: text inserted by an earlier replacement is never searched again.
\<close>

theorem replaceString_explode:
  assumes "sought \<noteq> []"
  shows "replaceString str sought replacement =
    map_option (join replacement) (explodeString str sought (-1))
    \<and> replaceString str sought replacement \<noteq> None"
  using replace_loop_join [OF assms, of 0 str replacement]
    explode_loop_unlimited [OF assms, of "-1" 0 str "[]"]
  by (simp_all add: replaceString_def explodeString_def)

theorem replaceString_explode_witness:
  "replaceString ''|A| and |A|'' ''|A|'' ''x|A|'' =
     map_option (join ''x|A|'') (explodeString ''|A| and |A|'' ''|A|'' (-1))"
  using replaceString_explode [of "''|A|''" "''|A| and |A|''" "''x|A|''"] by simp

text \<open>
  \<^verbatim>\<open>trimString\<close> strips spaces only, and all of them, at both ends: the input is
  the result between two runs of spaces, and the result neither starts nor ends with one.
\<close>

theorem trimString_spaces:
  "(\<exists>m n. str = replicate m (CHR '' '') @ trimString str @ replicate n (CHR '' ''))
   \<and> (trimString str = [] \<or> (hd (trimString str) \<noteq> CHR '' '' \<and> last (trimString str) \<noteq> CHR '' ''))"
proof -
  let ?sp = "\<lambda>c. c = CHR '' ''"
  let ?r = "rev (dropWhile ?sp (rev str))"
  have t: "trimString str = dropWhile ?sp ?r"
    by (simp add: trimString_def trim_right_rev trim_left_dropWhile)
  have "str = ?r @ rev (takeWhile ?sp (rev str))"
    by (metis rev_append rev_rev_ident takeWhile_dropWhile_id)
  then have "str = takeWhile ?sp ?r @ dropWhile ?sp ?r @ rev (takeWhile ?sp (rev str))"
    by (metis append_assoc takeWhile_dropWhile_id)
  then have "\<exists>m n. str = replicate m (CHR '' '') @ trimString str @ replicate n (CHR '' '')"
    unfolding t using takeWhile_eq_replicate [of "CHR '' ''" ?r]
      takeWhile_eq_replicate [of "CHR '' ''" "rev str"] by (metis rev_replicate)
  moreover have "hd (dropWhile ?sp ?r) \<noteq> CHR '' ''" "last (dropWhile ?sp ?r) \<noteq> CHR '' ''"
    if n: "dropWhile ?sp ?r \<noteq> []"
  proof -
    show "hd (dropWhile ?sp ?r) \<noteq> CHR '' ''" using hd_dropWhile [OF n] by simp
    have r: "dropWhile ?sp (rev str) \<noteq> []"
    proof
      assume "dropWhile ?sp (rev str) = []"
      with n show False by (simp only: rev.simps dropWhile.simps)
    qed
    have "last ?r = last (takeWhile ?sp ?r @ dropWhile ?sp ?r)"
      by (simp only: takeWhile_dropWhile_id)
    also have "\<dots> = last (dropWhile ?sp ?r)" using n by (simp only: last_append if_False)
    finally have e: "last (dropWhile ?sp ?r) = hd (dropWhile ?sp (rev str))"
      using last_rev [of "dropWhile ?sp (rev str)"] by (simp only:)
    show "last (dropWhile ?sp ?r) \<noteq> CHR '' ''"
      unfolding e using hd_dropWhile [OF r] .
  qed
  ultimately show ?thesis unfolding t by blast
qed

text \<open>
  The text of an IPv4 address has at most 15 characters, so it fits the 17-byte buffer
  with its terminator, and splitting it at the dots gives the four bytes back, lowest first.
\<close>

theorem convertIPToString_explode:
  "length (convertIPToString ip) \<le> 15 \<and>
   explodeString (convertIPToString ip) ''.'' (-1) =
     Some (map (\<lambda>k. nat_str (unat (drop_bit (8 * k) ip) mod 256)) [0, 1, 2, 3])"
proof -
  have a: "unat (w AND 0xFF) = unat w mod 256" for w :: u32
    using nat_and_mask [of "unat w" 8] by (simp add: unsigned_and_eq)
  have d: "unat (drop_bit 24 ip) mod 256 = unat (drop_bit 24 ip)"
  proof -
    have "unat ip < 2 ^ 32" using unat_bound [of ip] by simp
    then show ?thesis by (simp only: unat_drop_bit_eq) (simp add: drop_bit_eq_div)
  qed
  let ?vs = "map (\<lambda>k. nat_str (unat (drop_bit (8 * k) ip) mod 256)) [0, 1, 2, 3]"
  have j: "convertIPToString ip = join ''.'' ?vs"
    by (simp add: convertIPToString_def a d)
  have "length (nat_str (n mod 256)) \<le> 3" for n
    using length_nat_str [of "n mod 256" 2] by simp
  then have "length (nat_str (unat ip mod 256)) + length (nat_str (unat (drop_bit 8 ip) mod 256))
    + length (nat_str (unat (drop_bit 16 ip) mod 256)) + length (nat_str (unat (drop_bit 24 ip) mod 256)) \<le> 12"
  proof -
    have "a \<le> 3 \<Longrightarrow> b \<le> 3 \<Longrightarrow> c \<le> 3 \<Longrightarrow> d \<le> 3 \<Longrightarrow> a + b + c + d \<le> 12" for a b c d :: nat
      by simp
    then show ?thesis
      using \<open>\<And>n. length (nat_str (n mod 256)) \<le> 3\<close> by blast
  qed
  then have "length (join ''.'' ?vs) \<le> 15" by simp
  moreover have "split_max ''.'' (length (join ''.'' ?vs)) (join ''.'' ?vs) = ?vs"
    by (rule split_max_dots) (use dot_not_digit in \<open>auto\<close>)
  ultimately show ?thesis
    unfolding j using explode_loop_unlimited [of "''.''" "-1" 0 "join ''.'' ?vs" "[]"]
    by (simp add: explodeString_def)
qed

end
