(* ===== verification/Damage.thy ===== *)
theory Damage
  imports Complex_Main Prelude
begin

text \<open>
  Damage types and elements: the enumerations and the effectiveness table of
  \<^verbatim>\<open>src/src/enums.h\<close>, the conversions between them and the damage
  multiplier of \<^verbatim>\<open>src/src/tools.cpp\<close>, and the fluid tables of
  \<^verbatim>\<open>src/src/const.h\<close>. The multipliers are the literals of the code read as
  rationals: the code only compares them with the literals it returns.
\<close>

section \<open>Model\<close>

datatype race =
  RACE_NONE
  | RACE_VENOM
  | RACE_FIRE
  | RACE_ENERGY
  | RACE_GRASS
  | RACE_NORMAL
  | RACE_WATER
  | RACE_FLYING
  | RACE_POISON
  | RACE_ELECTRIC
  | RACE_GROUND
  | RACE_PSYCHIC
  | RACE_ROCK
  | RACE_ICE
  | RACE_BUG
  | RACE_DRAGON
  | RACE_GHOST
  | RACE_DARK
  | RACE_STEEL
  | RACE_FAIRY
  | RACE_FIGHTING

datatype combat_type =
  COMBAT_NONE
  | COMBAT_PHYSICALDAMAGE
  | COMBAT_ENERGYDAMAGE
  | COMBAT_EARTHDAMAGE
  | COMBAT_FIREDAMAGE
  | COMBAT_UNDEFINEDDAMAGE
  | COMBAT_LIFEDRAIN
  | COMBAT_MANADRAIN
  | COMBAT_HEALING
  | COMBAT_DROWNDAMAGE
  | COMBAT_ICEDAMAGE
  | COMBAT_HOLYDAMAGE
  | COMBAT_DEATHDAMAGE
  | COMBAT_PSYCHICDAMAGE
  | COMBAT_GRASSDAMAGE
  | COMBAT_NORMALDAMAGE
  | COMBAT_WATERDAMAGE
  | COMBAT_FLYINGDAMAGE
  | COMBAT_POISONDAMAGE
  | COMBAT_ELECTRICDAMAGE
  | COMBAT_GROUNDDAMAGE
  | COMBAT_ROCKDAMAGE
  | COMBAT_BUGDAMAGE
  | COMBAT_DRAGONDAMAGE
  | COMBAT_GHOSTDAMAGE
  | COMBAT_DARKDAMAGE
  | COMBAT_STEELDAMAGE
  | COMBAT_FAIRYDAMAGE
  | COMBAT_FIGHTINGDAMAGE

definition COMBAT_COUNT :: nat where "COMBAT_COUNT = 28"

text \<open>The value of the enumerator: one bit for each damage type.\<close>

primrec combat_code :: "combat_type \<Rightarrow> u32" where
  "combat_code COMBAT_NONE = 0"
| "combat_code COMBAT_PHYSICALDAMAGE = push_bit 0 1"
| "combat_code COMBAT_ENERGYDAMAGE = push_bit 1 1"
| "combat_code COMBAT_EARTHDAMAGE = push_bit 2 1"
| "combat_code COMBAT_FIREDAMAGE = push_bit 3 1"
| "combat_code COMBAT_UNDEFINEDDAMAGE = push_bit 4 1"
| "combat_code COMBAT_LIFEDRAIN = push_bit 5 1"
| "combat_code COMBAT_MANADRAIN = push_bit 6 1"
| "combat_code COMBAT_HEALING = push_bit 7 1"
| "combat_code COMBAT_DROWNDAMAGE = push_bit 8 1"
| "combat_code COMBAT_ICEDAMAGE = push_bit 9 1"
| "combat_code COMBAT_HOLYDAMAGE = push_bit 10 1"
| "combat_code COMBAT_DEATHDAMAGE = push_bit 11 1"
| "combat_code COMBAT_PSYCHICDAMAGE = push_bit 12 1"
| "combat_code COMBAT_GRASSDAMAGE = push_bit 13 1"
| "combat_code COMBAT_NORMALDAMAGE = push_bit 14 1"
| "combat_code COMBAT_WATERDAMAGE = push_bit 15 1"
| "combat_code COMBAT_FLYINGDAMAGE = push_bit 16 1"
| "combat_code COMBAT_POISONDAMAGE = push_bit 17 1"
| "combat_code COMBAT_ELECTRICDAMAGE = push_bit 18 1"
| "combat_code COMBAT_GROUNDDAMAGE = push_bit 19 1"
| "combat_code COMBAT_ROCKDAMAGE = push_bit 20 1"
| "combat_code COMBAT_BUGDAMAGE = push_bit 21 1"
| "combat_code COMBAT_DRAGONDAMAGE = push_bit 22 1"
| "combat_code COMBAT_GHOSTDAMAGE = push_bit 23 1"
| "combat_code COMBAT_DARKDAMAGE = push_bit 24 1"
| "combat_code COMBAT_STEELDAMAGE = push_bit 25 1"
| "combat_code COMBAT_FAIRYDAMAGE = push_bit 26 1"
| "combat_code COMBAT_FIGHTINGDAMAGE = push_bit 27 1"

fun combatTypeToIndex :: "combat_type \<Rightarrow> nat" where
  "combatTypeToIndex COMBAT_PHYSICALDAMAGE = 0"
| "combatTypeToIndex COMBAT_ENERGYDAMAGE = 1"
| "combatTypeToIndex COMBAT_EARTHDAMAGE = 2"
| "combatTypeToIndex COMBAT_FIREDAMAGE = 3"
| "combatTypeToIndex COMBAT_UNDEFINEDDAMAGE = 4"
| "combatTypeToIndex COMBAT_LIFEDRAIN = 5"
| "combatTypeToIndex COMBAT_MANADRAIN = 6"
| "combatTypeToIndex COMBAT_HEALING = 7"
| "combatTypeToIndex COMBAT_DROWNDAMAGE = 8"
| "combatTypeToIndex COMBAT_ICEDAMAGE = 9"
| "combatTypeToIndex COMBAT_HOLYDAMAGE = 10"
| "combatTypeToIndex COMBAT_DEATHDAMAGE = 11"
| "combatTypeToIndex COMBAT_PSYCHICDAMAGE = 12"
| "combatTypeToIndex COMBAT_GRASSDAMAGE = 13"
| "combatTypeToIndex COMBAT_NORMALDAMAGE = 14"
| "combatTypeToIndex COMBAT_WATERDAMAGE = 15"
| "combatTypeToIndex COMBAT_FLYINGDAMAGE = 16"
| "combatTypeToIndex COMBAT_POISONDAMAGE = 17"
| "combatTypeToIndex COMBAT_ELECTRICDAMAGE = 18"
| "combatTypeToIndex COMBAT_GROUNDDAMAGE = 19"
| "combatTypeToIndex COMBAT_ROCKDAMAGE = 20"
| "combatTypeToIndex COMBAT_BUGDAMAGE = 21"
| "combatTypeToIndex COMBAT_DRAGONDAMAGE = 22"
| "combatTypeToIndex COMBAT_GHOSTDAMAGE = 23"
| "combatTypeToIndex COMBAT_DARKDAMAGE = 24"
| "combatTypeToIndex COMBAT_STEELDAMAGE = 25"
| "combatTypeToIndex COMBAT_FAIRYDAMAGE = 26"
| "combatTypeToIndex COMBAT_FIGHTINGDAMAGE = 27"
| "combatTypeToIndex _ = 0"

text \<open>\<^verbatim>\<open>static_cast<CombatType_t>(1 << v)\<close>, for an index below 32.\<close>

definition indexToCombatType :: "nat \<Rightarrow> u32" where
  "indexToCombatType v = push_bit v 1"

fun raceToCombatType :: "race \<Rightarrow> combat_type" where
  "raceToCombatType RACE_NORMAL = COMBAT_NORMALDAMAGE"
| "raceToCombatType RACE_FIRE = COMBAT_FIREDAMAGE"
| "raceToCombatType RACE_WATER = COMBAT_WATERDAMAGE"
| "raceToCombatType RACE_ELECTRIC = COMBAT_ELECTRICDAMAGE"
| "raceToCombatType RACE_GRASS = COMBAT_GRASSDAMAGE"
| "raceToCombatType RACE_ICE = COMBAT_ICEDAMAGE"
| "raceToCombatType RACE_FIGHTING = COMBAT_FIGHTINGDAMAGE"
| "raceToCombatType RACE_POISON = COMBAT_POISONDAMAGE"
| "raceToCombatType RACE_GROUND = COMBAT_GROUNDDAMAGE"
| "raceToCombatType RACE_FLYING = COMBAT_FLYINGDAMAGE"
| "raceToCombatType RACE_PSYCHIC = COMBAT_PSYCHICDAMAGE"
| "raceToCombatType RACE_BUG = COMBAT_BUGDAMAGE"
| "raceToCombatType RACE_ROCK = COMBAT_ROCKDAMAGE"
| "raceToCombatType RACE_GHOST = COMBAT_GHOSTDAMAGE"
| "raceToCombatType RACE_DRAGON = COMBAT_DRAGONDAMAGE"
| "raceToCombatType RACE_DARK = COMBAT_DARKDAMAGE"
| "raceToCombatType RACE_STEEL = COMBAT_STEELDAMAGE"
| "raceToCombatType RACE_FAIRY = COMBAT_FAIRYDAMAGE"
| "raceToCombatType _ = COMBAT_NONE"

fun combatToRace :: "combat_type \<Rightarrow> race" where
  "combatToRace COMBAT_NORMALDAMAGE = RACE_NORMAL"
| "combatToRace COMBAT_FIREDAMAGE = RACE_FIRE"
| "combatToRace COMBAT_WATERDAMAGE = RACE_WATER"
| "combatToRace COMBAT_ELECTRICDAMAGE = RACE_ELECTRIC"
| "combatToRace COMBAT_GRASSDAMAGE = RACE_GRASS"
| "combatToRace COMBAT_ICEDAMAGE = RACE_ICE"
| "combatToRace COMBAT_FIGHTINGDAMAGE = RACE_FIGHTING"
| "combatToRace COMBAT_POISONDAMAGE = RACE_POISON"
| "combatToRace COMBAT_GROUNDDAMAGE = RACE_GROUND"
| "combatToRace COMBAT_FLYINGDAMAGE = RACE_FLYING"
| "combatToRace COMBAT_PSYCHICDAMAGE = RACE_PSYCHIC"
| "combatToRace COMBAT_BUGDAMAGE = RACE_BUG"
| "combatToRace COMBAT_ROCKDAMAGE = RACE_ROCK"
| "combatToRace COMBAT_GHOSTDAMAGE = RACE_GHOST"
| "combatToRace COMBAT_DRAGONDAMAGE = RACE_DRAGON"
| "combatToRace COMBAT_DARKDAMAGE = RACE_DARK"
| "combatToRace COMBAT_STEELDAMAGE = RACE_STEEL"
| "combatToRace COMBAT_FAIRYDAMAGE = RACE_FAIRY"
| "combatToRace _ = RACE_NONE"

record effectiveness =
  noEffect :: "race list"
  ineffective :: "race list"
  effective :: "race list"

text \<open>
  The table; \<^verbatim>\<open>CONST_EFFECTIVENESS[race]\<close> of a race without an entry is
  the default entry, with three empty vectors.
\<close>

fun CONST_EFFECTIVENESS :: "race \<Rightarrow> effectiveness" where
  "CONST_EFFECTIVENESS RACE_NORMAL =
    \<lparr>noEffect = [RACE_GHOST],
     ineffective = [RACE_ROCK, RACE_STEEL],
     effective = []\<rparr>"
| "CONST_EFFECTIVENESS RACE_FIRE =
    \<lparr>noEffect = [],
     ineffective = [RACE_FIRE, RACE_WATER, RACE_ROCK, RACE_DRAGON],
     effective = [RACE_GRASS, RACE_ICE, RACE_BUG, RACE_STEEL]\<rparr>"
| "CONST_EFFECTIVENESS RACE_WATER =
    \<lparr>noEffect = [],
     ineffective = [RACE_WATER, RACE_GRASS, RACE_DRAGON],
     effective = [RACE_FIRE, RACE_GROUND, RACE_ROCK]\<rparr>"
| "CONST_EFFECTIVENESS RACE_ELECTRIC =
    \<lparr>noEffect = [RACE_GROUND],
     ineffective = [RACE_ELECTRIC, RACE_GRASS, RACE_DRAGON],
     effective = [RACE_WATER, RACE_FLYING]\<rparr>"
| "CONST_EFFECTIVENESS RACE_GRASS =
    \<lparr>noEffect = [],
     ineffective = [RACE_FIRE, RACE_GRASS, RACE_POISON, RACE_FLYING, RACE_BUG, RACE_DRAGON, RACE_STEEL],
     effective = [RACE_WATER, RACE_GROUND, RACE_ROCK]\<rparr>"
| "CONST_EFFECTIVENESS RACE_ICE =
    \<lparr>noEffect = [],
     ineffective = [RACE_FIRE, RACE_WATER, RACE_ICE, RACE_STEEL],
     effective = [RACE_GRASS, RACE_GROUND, RACE_FLYING, RACE_DRAGON]\<rparr>"
| "CONST_EFFECTIVENESS RACE_FIGHTING =
    \<lparr>noEffect = [RACE_GHOST],
     ineffective = [RACE_POISON, RACE_FLYING, RACE_PSYCHIC, RACE_BUG, RACE_FAIRY],
     effective = [RACE_NORMAL, RACE_ICE, RACE_ROCK, RACE_DARK, RACE_STEEL]\<rparr>"
| "CONST_EFFECTIVENESS RACE_POISON =
    \<lparr>noEffect = [RACE_STEEL],
     ineffective = [RACE_POISON, RACE_GROUND, RACE_ROCK, RACE_GHOST],
     effective = [RACE_GRASS, RACE_FAIRY]\<rparr>"
| "CONST_EFFECTIVENESS RACE_GROUND =
    \<lparr>noEffect = [RACE_FLYING],
     ineffective = [RACE_GRASS, RACE_BUG],
     effective = [RACE_FIRE, RACE_ELECTRIC, RACE_POISON, RACE_ROCK, RACE_STEEL]\<rparr>"
| "CONST_EFFECTIVENESS RACE_FLYING =
    \<lparr>noEffect = [],
     ineffective = [RACE_ELECTRIC, RACE_ROCK, RACE_STEEL],
     effective = [RACE_GRASS, RACE_FIGHTING, RACE_BUG]\<rparr>"
| "CONST_EFFECTIVENESS RACE_PSYCHIC =
    \<lparr>noEffect = [RACE_DARK],
     ineffective = [RACE_PSYCHIC, RACE_STEEL],
     effective = [RACE_FIGHTING, RACE_POISON]\<rparr>"
| "CONST_EFFECTIVENESS RACE_BUG =
    \<lparr>noEffect = [],
     ineffective = [RACE_FIRE, RACE_FIGHTING, RACE_POISON, RACE_FLYING, RACE_GHOST, RACE_STEEL, RACE_FAIRY],
     effective = [RACE_GRASS, RACE_PSYCHIC, RACE_DARK]\<rparr>"
| "CONST_EFFECTIVENESS RACE_ROCK =
    \<lparr>noEffect = [],
     ineffective = [RACE_FIGHTING, RACE_GROUND, RACE_STEEL],
     effective = [RACE_FIRE, RACE_ICE, RACE_FLYING, RACE_BUG]\<rparr>"
| "CONST_EFFECTIVENESS RACE_GHOST =
    \<lparr>noEffect = [RACE_NORMAL],
     ineffective = [RACE_DARK],
     effective = [RACE_PSYCHIC, RACE_GHOST]\<rparr>"
| "CONST_EFFECTIVENESS RACE_DRAGON =
    \<lparr>noEffect = [RACE_FAIRY],
     ineffective = [RACE_STEEL],
     effective = [RACE_DRAGON]\<rparr>"
| "CONST_EFFECTIVENESS RACE_DARK =
    \<lparr>noEffect = [],
     ineffective = [RACE_FIGHTING, RACE_DARK, RACE_FAIRY],
     effective = [RACE_PSYCHIC, RACE_GHOST]\<rparr>"
| "CONST_EFFECTIVENESS RACE_STEEL =
    \<lparr>noEffect = [],
     ineffective = [RACE_FIRE, RACE_WATER, RACE_ELECTRIC, RACE_STEEL],
     effective = [RACE_ICE, RACE_ROCK, RACE_FAIRY]\<rparr>"
| "CONST_EFFECTIVENESS RACE_FAIRY =
    \<lparr>noEffect = [],
     ineffective = [RACE_FIRE, RACE_POISON, RACE_STEEL],
     effective = [RACE_FIGHTING, RACE_DRAGON, RACE_DARK]\<rparr>"
| "CONST_EFFECTIVENESS _ = \<lparr>noEffect = [], ineffective = [], effective = []\<rparr>"

definition getMultiplier :: "effectiveness \<Rightarrow> bool \<Rightarrow> bool \<Rightarrow> race \<Rightarrow> rat" where
  "getMultiplier eff isNightmareWorld isPvP race =
     (if race \<in> set (noEffect eff) then
        if isPvP then 4 / 10 else if isNightmareWorld then 1 / 2 else 0
      else if race \<in> set (ineffective eff) then 1 / 2
      else if race \<in> set (effective eff) then 2
      else 1)"

definition calculateDamageMultiplier :: "race \<Rightarrow> race \<Rightarrow> race \<Rightarrow> bool \<Rightarrow> bool \<Rightarrow> rat" where
  "calculateDamageMultiplier attackerRace firstRaceTarget secondRaceTarget isNightmareWorld isPvP =
     (let getM = getMultiplier (CONST_EFFECTIVENESS attackerRace) isNightmareWorld isPvP in
      if secondRaceTarget = RACE_NONE then getM firstRaceTarget
      else
        let multiplierFirst = getM firstRaceTarget; multiplierSecond = getM secondRaceTarget in
        if multiplierFirst = 2 \<and> multiplierSecond = 2 then 2
        else if multiplierFirst = 2 \<or> multiplierSecond = 2 then 7 / 4
        else if multiplierFirst = 1 \<and> multiplierSecond = 1 then 1
        else if multiplierFirst = 1 / 2 \<and> multiplierSecond = 1
            \<or> multiplierFirst = 1 \<and> multiplierSecond = 1 / 2 then 3 / 4
        else if multiplierFirst = 1 / 2 \<and> multiplierSecond = 1 / 2 then 1 / 2
        else if multiplierFirst = 0 \<or> multiplierSecond = 0 then
          if isPvP then 4 / 10 else if isNightmareWorld then 1 / 2 else 0
        else 1)"

text \<open>The server's fluid numbers, and the client's order of them.\<close>

datatype fluid =
  FLUID_EMPTY | FLUID_WATER | FLUID_BLOOD | FLUID_BEER | FLUID_SLIME | FLUID_LEMONADE | FLUID_MILK
  | FLUID_MANA | FLUID_LIFE | FLUID_OIL | FLUID_URINE | FLUID_COCONUTMILK | FLUID_WINE | FLUID_MUD
  | FLUID_FRUITJUICE | FLUID_LAVA | FLUID_RUM | FLUID_SWAMP | FLUID_TEA | FLUID_MEAD

primrec fluid_code :: "fluid \<Rightarrow> byte" where
  "fluid_code FLUID_EMPTY = 0"
| "fluid_code FLUID_WATER = 1"
| "fluid_code FLUID_BLOOD = 2"
| "fluid_code FLUID_BEER = 3"
| "fluid_code FLUID_SLIME = 4"
| "fluid_code FLUID_LEMONADE = 5"
| "fluid_code FLUID_MILK = 6"
| "fluid_code FLUID_MANA = 7"
| "fluid_code FLUID_LIFE = 2 + 8"
| "fluid_code FLUID_OIL = 3 + 8"
| "fluid_code FLUID_URINE = 5 + 8"
| "fluid_code FLUID_COCONUTMILK = 6 + 8"
| "fluid_code FLUID_WINE = 7 + 8"
| "fluid_code FLUID_MUD = 3 + 16"
| "fluid_code FLUID_FRUITJUICE = 5 + 16"
| "fluid_code FLUID_LAVA = 2 + 24"
| "fluid_code FLUID_RUM = 3 + 24"
| "fluid_code FLUID_SWAMP = 4 + 24"
| "fluid_code FLUID_TEA = 3 + 32"
| "fluid_code FLUID_MEAD = 3 + 40"

definition clientToServerFluidMap :: "byte list" where
  "clientToServerFluidMap = map fluid_code
     [FLUID_EMPTY, FLUID_WATER, FLUID_MANA, FLUID_BEER, FLUID_MUD, FLUID_BLOOD, FLUID_SLIME, FLUID_RUM,
      FLUID_LEMONADE, FLUID_MILK, FLUID_WINE, FLUID_LIFE, FLUID_URINE, FLUID_OIL, FLUID_FRUITJUICE,
      FLUID_COCONUTMILK, FLUID_TEA, FLUID_MEAD]"

primrec fluid_index :: "byte list \<Rightarrow> byte \<Rightarrow> nat \<Rightarrow> byte" where
  "fluid_index [] serverFluid i = 0"
| "fluid_index (f # fs) serverFluid i =
     (if f = serverFluid then of_nat i else fluid_index fs serverFluid (Suc i))"

definition serverFluidToClient :: "byte \<Rightarrow> byte" where
  "serverFluidToClient serverFluid = fluid_index clientToServerFluidMap serverFluid 0"

definition clientFluidToServer :: "byte \<Rightarrow> byte" where
  "clientFluidToServer clientFluid =
     (if of_nat (length clientToServerFluidMap) \<le> clientFluid then 0
      else clientToServerFluidMap ! unat clientFluid)"

section \<open>Lemmas\<close>

lemma getMultiplier_cases:
  obtains "getMultiplier eff n p r = 0" "\<not> p" "\<not> n"
  | "getMultiplier eff n p r = 4 / 10" p "r \<in> set (noEffect eff)"
  | "getMultiplier eff n p r = 1 / 2"
  | "getMultiplier eff n p r = 1"
  | "getMultiplier eff n p r = 2"
  by (cases "r \<in> set (noEffect eff)"; cases p; cases n;
      cases "r \<in> set (ineffective eff)"; cases "r \<in> set (effective eff)"; simp add: getMultiplier_def)

lemma index_of_nth:
  "distinct fs \<Longrightarrow> k < length fs \<Longrightarrow> fluid_index fs (fs ! k) i = of_nat (i + k)"
  by (induction fs arbitrary: k i) (auto simp: nth_Cons split: nat.splits)

lemma fluid_index_found:
  "f \<in> set fs \<Longrightarrow> \<exists>k < length fs. fs ! k = f \<and> fluid_index fs f i = of_nat (i + k)"
proof (induction fs arbitrary: i)
  case (Cons g fs)
  show ?case
  proof (cases "g = f")
    case False
    with Cons obtain k where "k < length fs" "fs ! k = f" "fluid_index fs f (Suc i) = of_nat (Suc i + k)"
      by fastforce
    with False show ?thesis by (intro exI [of _ "Suc k"]) simp
  qed auto
qed simp

lemma fluid_index_absent: "f \<notin> set fs \<Longrightarrow> fluid_index fs f i = 0"
  by (induction fs arbitrary: i) auto

lemma clientToServerFluidMap_distinct: "distinct clientToServerFluidMap"
  and clientToServerFluidMap_length: "length clientToServerFluidMap = 18"
  by (simp_all add: clientToServerFluidMap_def)

section \<open>Properties\<close>

text \<open>
  The index of a damage type is below \<^verbatim>\<open>COMBAT_COUNT\<close> and converts back to
  it, so the per-type arrays of the items and conditions have one cell for each type.
\<close>

theorem combatTypeToIndex_roundtrip:
  assumes "c \<noteq> COMBAT_NONE"
  shows "combatTypeToIndex c < COMBAT_COUNT \<and> indexToCombatType (combatTypeToIndex c) = combat_code c"
  using assms by (cases c) (simp_all add: COMBAT_COUNT_def indexToCombatType_def)

theorem combatTypeToIndex_roundtrip_witness:
  "combatTypeToIndex COMBAT_ICEDAMAGE < COMBAT_COUNT
   \<and> indexToCombatType (combatTypeToIndex COMBAT_ICEDAMAGE) = combat_code COMBAT_ICEDAMAGE"
  using combatTypeToIndex_roundtrip [of COMBAT_ICEDAMAGE] by simp

text \<open>
  The elements with a row in the table and the damage types they stand for convert both
  ways without loss: an element comes back from its damage type, and a damage type with an
  element from that element.
\<close>

theorem race_combat_roundtrip:
  "(raceToCombatType r \<noteq> COMBAT_NONE \<longrightarrow> combatToRace (raceToCombatType r) = r)
   \<and> (combatToRace c \<noteq> RACE_NONE \<longrightarrow> raceToCombatType (combatToRace c) = c)
   \<and> (raceToCombatType r = COMBAT_NONE \<longleftrightarrow> r \<in> {RACE_NONE, RACE_VENOM, RACE_ENERGY})"
  by (cases r; cases c) simp_all

theorem race_combat_roundtrip_witness:
  "combatToRace (raceToCombatType RACE_FAIRY) = RACE_FAIRY
   \<and> raceToCombatType (combatToRace COMBAT_BUGDAMAGE) = COMBAT_BUGDAMAGE"
  using race_combat_roundtrip [of RACE_FAIRY COMBAT_BUGDAMAGE] by simp

text \<open>
  The multiplier against a target of two elements does not depend on their order, lies
  between 0 and 2, never falls below 0.5 in the nightmare world nor below 0.4 between
  players, and is 2 exactly when both elements are weak to the attack.
\<close>

theorem damageMultiplier_dual:
  assumes "r1 \<noteq> RACE_NONE" and "r2 \<noteq> RACE_NONE"
  shows "calculateDamageMultiplier a r1 r2 n p = calculateDamageMultiplier a r2 r1 n p
    \<and> 0 \<le> calculateDamageMultiplier a r1 r2 n p \<and> calculateDamageMultiplier a r1 r2 n p \<le> 2
    \<and> (p \<longrightarrow> 4 / 10 \<le> calculateDamageMultiplier a r1 r2 n p)
    \<and> (n \<longrightarrow> \<not> p \<longrightarrow> 1 / 2 \<le> calculateDamageMultiplier a r1 r2 n p)
    \<and> (calculateDamageMultiplier a r1 r2 n p = 2 \<longleftrightarrow>
         getMultiplier (CONST_EFFECTIVENESS a) n p r1 = 2 \<and> getMultiplier (CONST_EFFECTIVENESS a) n p r2 = 2)"
  using assms
  by (rule_tac getMultiplier_cases [of "CONST_EFFECTIVENESS a" n p r1];
      rule_tac getMultiplier_cases [of "CONST_EFFECTIVENESS a" n p r2])
    (simp_all add: calculateDamageMultiplier_def Let_def)

theorem damageMultiplier_dual_witness:
  "calculateDamageMultiplier RACE_FIRE RACE_GRASS RACE_STEEL False False = 2"
  using damageMultiplier_dual [of RACE_GRASS RACE_STEEL RACE_FIRE False False]
  by (simp add: getMultiplier_def)

text \<open>
  Outside the nightmare world and away from players an immunity always wins over a
  neutral or resistant second element: the multiplier is 0. Between players the branch for
  immune targets is never reached, since immunity counts as 0.4 there, and an immune target
  with a neutral or resistant second element takes the full damage, more than the 0.75 of a
  resistant one.
\<close>

theorem damageMultiplier_immunity:
  assumes "r2 \<noteq> RACE_NONE" and "r1 \<in> set (noEffect (CONST_EFFECTIVENESS a))"
    and "r2 \<notin> set (effective (CONST_EFFECTIVENESS a))"
    and "r2 \<notin> set (noEffect (CONST_EFFECTIVENESS a))"
  shows "calculateDamageMultiplier a r1 r2 False False = 0
    \<and> calculateDamageMultiplier a r1 r2 n True = 1"
  using assms by (simp add: calculateDamageMultiplier_def getMultiplier_def Let_def)

theorem damageMultiplier_immunity_witness:
  "calculateDamageMultiplier RACE_NORMAL RACE_GHOST RACE_FIRE False True = 1
   \<and> calculateDamageMultiplier RACE_NORMAL RACE_ROCK RACE_FIRE False True = 3 / 4"
  using damageMultiplier_immunity [of RACE_FIRE RACE_GHOST RACE_NORMAL False]
  by (simp add: calculateDamageMultiplier_def getMultiplier_def)

text \<open>
  Each fluid number of the client converts to the server's number and back, and the
  fluids without a client number are shown as empty.
\<close>

theorem fluid_roundtrip:
  "(c < 18 \<longrightarrow> serverFluidToClient (clientFluidToServer c) = c)
   \<and> (serverFluidToClient f \<noteq> 0 \<longrightarrow> clientFluidToServer (serverFluidToClient f) = f)"
proof
  show "c < 18 \<longrightarrow> serverFluidToClient (clientFluidToServer c) = c"
  proof
    assume "c < 18"
    then have "unat c < 18" by (simp add: word_less_nat_alt)
    moreover from \<open>c < 18\<close> have "\<not> 18 \<le> c" by (simp only: not_le)
    ultimately show "serverFluidToClient (clientFluidToServer c) = c"
      using index_of_nth [OF clientToServerFluidMap_distinct, of "unat c" 0] clientToServerFluidMap_length
      by (simp add: serverFluidToClient_def clientFluidToServer_def)
  qed
next
  show "serverFluidToClient f \<noteq> 0 \<longrightarrow> clientFluidToServer (serverFluidToClient f) = f"
  proof (cases "f \<in> set clientToServerFluidMap")
    case True
    then obtain k where k: "k < 18" "clientToServerFluidMap ! k = f" "serverFluidToClient f = of_nat k"
      using fluid_index_found [of f clientToServerFluidMap 0] clientToServerFluidMap_length
      by (auto simp: serverFluidToClient_def)
    then have "\<not> 18 \<le> (of_nat k :: byte)" and "unat (of_nat k :: byte) = k"
      by (simp_all add: word_le_nat_alt unat_of_nat)
    with k show ?thesis
      by (simp add: clientFluidToServer_def clientToServerFluidMap_length)
  qed (simp add: serverFluidToClient_def fluid_index_absent)
qed

theorem fluid_roundtrip_witness: "serverFluidToClient (clientFluidToServer 7) = 7"
  using fluid_roundtrip [of 7 0] by simp

end
