(* ===== verification/File_Loader.thy ===== *)
theory File_Loader
  imports Prelude
begin

text \<open>
  The OTB node files and the property streams: \<^verbatim>\<open>src/src/fileloader.h\<close> and
  \<^verbatim>\<open>src/src/fileloader.cpp\<close>. The mapped file is its list of bytes, iterators
  are offsets into it, and a thrown \<^verbatim>\<open>InvalidOTBFormat\<close> is the left
  alternative of a sum.
\<close>

section \<open>Nodes and the loader\<close>

definition NODE_ESCAPE :: byte where "NODE_ESCAPE = 0xFD"
definition NODE_START :: byte where "NODE_START = 0xFE"
definition NODE_END :: byte where "NODE_END = 0xFF"

lemmas node_chars = NODE_ESCAPE_def NODE_START_def NODE_END_def

datatype load_error = InvalidOTBFormat

text \<open>A node; \<^verbatim>\<open>propsEnd\<close> is not initialised by the constructor.\<close>

datatype otb_node = OtbNode (node_type: byte) (propsBegin: nat) (propsEnd: "nat option") (node_children: "otb_node list")

text \<open>
  A node on the parse stack. The code keeps the child in its parent's vector from the start;
  here it joins the vector when it is popped, which no operation in between can observe.
\<close>

definition set_propsEnd :: "nat \<Rightarrow> otb_node \<Rightarrow> otb_node" where
  "set_propsEnd it n =
     (if node_children n = [] then OtbNode (node_type n) (propsBegin n) (Some it) [] else n)"

definition add_child :: "otb_node \<Rightarrow> otb_node \<Rightarrow> otb_node" where
  "add_child c n = OtbNode (node_type n) (propsBegin n) (propsEnd n) (node_children n @ [c])"

text \<open>The loop; \<open>it\<close> is the offset of the first byte of the list.\<close>

fun otb_loop :: "nat \<Rightarrow> byte list \<Rightarrow> otb_node list \<Rightarrow> otb_node option \<Rightarrow> load_error + otb_node" where
  "otb_loop it [] stack root =
     (case (stack, root) of ([], Some r) \<Rightarrow> Inr r | _ \<Rightarrow> Inl InvalidOTBFormat)"
| "otb_loop it (b # bs) stack root =
     (if b = NODE_START then
        (case stack of [] \<Rightarrow> Inl InvalidOTBFormat
         | cur # st \<Rightarrow>
             (case bs of [] \<Rightarrow> Inl InvalidOTBFormat
              | t # bs' \<Rightarrow> otb_loop (it + 2) bs' (OtbNode t (it + 2) None [] # set_propsEnd it cur # st) root))
      else if b = NODE_END then
        (case stack of [] \<Rightarrow> Inl InvalidOTBFormat
         | [cur] \<Rightarrow> otb_loop (it + 1) bs [] (Some (set_propsEnd it cur))
         | cur # p # st \<Rightarrow> otb_loop (it + 1) bs (add_child (set_propsEnd it cur) p # st) root)
      else if b = NODE_ESCAPE then
        (case bs of [] \<Rightarrow> Inl InvalidOTBFormat | _ # bs' \<Rightarrow> otb_loop (it + 2) bs' stack root)
      else otb_loop (it + 1) bs stack root)"

definition parseTree :: "byte list \<Rightarrow> load_error + otb_node" where
  "parseTree contents =
     (if contents ! 4 \<noteq> NODE_START then Inl InvalidOTBFormat
      else otb_loop 6 (drop 6 contents) [OtbNode (contents ! 5) 6 None []] None)"

text \<open>The constructor of the loader: the file must be long enough and carry the identifier.\<close>

definition open_loader :: "byte list \<Rightarrow> byte list \<Rightarrow> load_error + byte list" where
  "open_loader contents acceptedIdentifier =
     (if length contents \<le> 7 then Inl InvalidOTBFormat
      else if take 4 contents \<noteq> acceptedIdentifier \<and> take 4 contents \<noteq> [0, 0, 0, 0]
        then Inl InvalidOTBFormat
      else Inr contents)"

text \<open>The filter of \<^verbatim>\<open>getProps\<close>.\<close>

primrec unescape :: "bool \<Rightarrow> byte list \<Rightarrow> byte list" where
  "unescape lastEscaped [] = []"
| "unescape lastEscaped (b # bs) =
     (let lastEscaped = (b = NODE_ESCAPE \<and> \<not> lastEscaped)
      in if lastEscaped then unescape lastEscaped bs else b # unescape lastEscaped bs)"

text \<open>
  \<^verbatim>\<open>getProps\<close>: the bytes of the property stream, or \<open>None\<close> where it
  returns false; a node whose end was never set has no defined range.
\<close>

definition getProps :: "byte list \<Rightarrow> otb_node \<Rightarrow> byte list option" where
  "getProps contents node =
     (case propsEnd node of None \<Rightarrow> None
      | Some e \<Rightarrow>
          (let props = take (e - propsBegin node) (drop (propsBegin node) contents)
           in if e - propsBegin node = 0 then None else Some (unescape False props)))"

section \<open>Property streams\<close>

text \<open>A reading stream is the bytes between \<^verbatim>\<open>p\<close> and \<^verbatim>\<open>end\<close>.\<close>

type_synonym prop_stream = "byte list"

definition prop_read :: "(byte list \<Rightarrow> 'a) \<Rightarrow> nat \<Rightarrow> prop_stream \<Rightarrow> ('a \<times> prop_stream) option" where
  "prop_read dec width ps = (if length ps < width then None else Some (dec (take width ps), drop width ps))"

text \<open>The stream a failed \<^verbatim>\<open>readString\<close> leaves behind has lost the length.\<close>

definition prop_readString :: "prop_stream \<Rightarrow> string option \<times> prop_stream" where
  "prop_readString ps =
     (case prop_read dec16 2 ps of None \<Rightarrow> (None, ps)
      | Some (strLen, ps) \<Rightarrow>
          if length ps < unat strLen then (None, ps)
          else (Some (bytes_string (take (unat strLen) ps)), drop (unat strLen) ps))"

definition prop_skip :: "nat \<Rightarrow> prop_stream \<Rightarrow> prop_stream option" where
  "prop_skip n ps = (if length ps < n then None else Some (drop n ps))"

text \<open>A writing stream is its buffer.\<close>

definition prop_clear :: "byte list \<Rightarrow> byte list" where "prop_clear buffer = []"

definition prop_write :: "('a \<Rightarrow> byte list) \<Rightarrow> 'a \<Rightarrow> byte list \<Rightarrow> byte list" where
  "prop_write enc v buffer = buffer @ enc v"

definition prop_writeString :: "string \<Rightarrow> byte list \<Rightarrow> byte list" where
  "prop_writeString str buffer =
     (if length str > 65535 then prop_write enc16 0 buffer
      else prop_write enc16 (of_nat (length str)) buffer @ char_bytes str)"

section \<open>Reference: trees and their serialisation\<close>

datatype otb_tree = OtbTree byte "byte list" "otb_tree list"

primrec escape :: "byte list \<Rightarrow> byte list" where
  "escape [] = []"
| "escape (b # bs) = (if b \<in> {NODE_ESCAPE, NODE_START, NODE_END} then [NODE_ESCAPE, b] else [b]) @ escape bs"

primrec encode_tree :: "otb_tree \<Rightarrow> byte list" where
  "encode_tree (OtbTree t props cs) =
     NODE_START # t # escape props @ concat (map encode_tree cs) @ [NODE_END]"

primrec tree_of :: "byte list \<Rightarrow> otb_node \<Rightarrow> otb_tree" where
  "tree_of contents (OtbNode t b e cs) =
     OtbTree t (case getProps contents (OtbNode t b e []) of None \<Rightarrow> [] | Some ps \<Rightarrow> ps)
       (map (tree_of contents) cs)"

section \<open>Parsing a serialised tree\<close>

lemma unescape_escape [simp]: "unescape False (escape bs) = bs"
  by (induction bs) (simp_all add: node_chars)

lemma otb_loop_escape:
  "otb_loop it (escape props @ bs) stack root = otb_loop (it + length (escape props)) bs stack root"
proof (induction props arbitrary: it)
  case (Cons b props)
  show ?case
    using Cons [of "it + 2"] Cons [of "it + 1"] by (auto simp: node_chars)
qed simp

text \<open>The node the loop builds for a tree that starts at offset \<open>it\<close>.\<close>

fun node_at :: "nat \<Rightarrow> otb_tree \<Rightarrow> otb_node"
  and nodes_at :: "nat \<Rightarrow> otb_tree list \<Rightarrow> otb_node list" where
  "node_at it (OtbTree t props cs) =
     OtbNode t (it + 2) (Some (it + 2 + length (escape props))) (nodes_at (it + 2 + length (escape props)) cs)"
| "nodes_at it [] = []"
| "nodes_at it (c # cs) = node_at it c # nodes_at (it + length (encode_tree c)) cs"

text \<open>
  Serialised children append their nodes to the node on top; the first one fixes the end of
  its properties.
\<close>

definition with_children :: "nat \<Rightarrow> otb_node list \<Rightarrow> otb_node \<Rightarrow> otb_node" where
  "with_children it cs n = (if cs = [] then n
     else OtbNode (node_type n) (propsBegin n) (propsEnd (set_propsEnd it n)) (node_children n @ cs))"

lemma otb_loop_trees:
  "otb_loop it (encode_tree c @ bs) (n # st) root =
     otb_loop (it + length (encode_tree c)) bs (with_children it [node_at it c] n # st) root"
  and otb_loop_forest: "otb_loop it (concat (map encode_tree cs) @ bs) (n # st) root =
     otb_loop (it + length (concat (map encode_tree cs))) bs (with_children it (nodes_at it cs) n # st) root"
proof (induction it c and it cs arbitrary: n st bs and n st bs rule: node_at_nodes_at.induct)
  case (1 it t props cs)
  let ?p = "it + 2 + length (escape props)"
  have "otb_loop it (encode_tree (OtbTree t props cs) @ bs) (n # st) root =
    otb_loop (?p + length (concat (map encode_tree cs))) (NODE_END # bs)
      (with_children ?p (nodes_at ?p cs) (OtbNode t (it + 2) None []) # set_propsEnd it n # st) root"
    using "1.IH" [of "NODE_END # bs" "OtbNode t (it + 2) None []" "set_propsEnd it n # st"]
    by (simp add: otb_loop_escape)
  also have "\<dots> = otb_loop (it + length (encode_tree (OtbTree t props cs))) bs
    (with_children it [node_at it (OtbTree t props cs)] n # st) root"
    by (cases cs) (simp_all add: node_chars with_children_def set_propsEnd_def add_child_def ac_simps)
  finally show ?case .
next
  case (2 it)
  then show ?case by (simp add: with_children_def)
next
  case (3 it c cs)
  show ?case
    using "3.IH"(1) [of "concat (map encode_tree cs) @ bs" n st]
      "3.IH"(2) [of bs "with_children it [node_at it c] n" st]
    by (cases cs) (simp_all add: with_children_def set_propsEnd_def add.assoc)
qed

lemma getProps_node_at:
  assumes "drop it contents = encode_tree (OtbTree t props cs) @ post"
  shows "(case getProps contents (OtbNode t (it + 2) (Some (it + 2 + length (escape props))) []) of
      None \<Rightarrow> [] | Some ps \<Rightarrow> ps) = props"
proof -
  have "drop (it + 2) contents = drop 2 (drop it contents)" by (simp add: add.commute)
  then have "take (length (escape props)) (drop (it + 2) contents) = escape props"
    using assms by simp
  moreover have "escape props = [] \<longleftrightarrow> props = []" by (cases props) auto
  ultimately show ?thesis by (simp add: getProps_def)
qed

lemma tree_of_node_at:
  "drop it contents = encode_tree c @ post \<Longrightarrow> tree_of contents (node_at it c) = c"
  and forest_of_nodes_at: "drop it contents = concat (map encode_tree cs) @ post \<Longrightarrow> map (tree_of contents) (nodes_at it cs) = cs"
proof (induction it c and it cs arbitrary: post and post rule: node_at_nodes_at.induct)
  case (1 it t props cs)
  let ?p = "it + 2 + length (escape props)"
  have "drop ?p contents = drop (2 + length (escape props)) (drop it contents)"
    by (simp add: ac_simps)
  also have "\<dots> = concat (map encode_tree cs) @ NODE_END # post" using "1.prems" by simp
  finally show ?case using "1.IH" getProps_node_at [OF "1.prems"] by simp
next
  case (3 it c cs)
  have "drop (it + length (encode_tree c)) contents = drop (length (encode_tree c)) (drop it contents)"
    by (simp add: add.commute)
  with 3 show ?case by simp
qed simp

section \<open>Ranges of parsed nodes\<close>

primrec node_ok :: "nat \<Rightarrow> otb_node \<Rightarrow> bool" where
  "node_ok n (OtbNode t b e cs) \<longleftrightarrow>
     (case e of None \<Rightarrow> False | Some x \<Rightarrow> b \<le> x \<and> x \<le> n) \<and> list_all (\<lambda>x. x) (map (node_ok n) cs)"

definition open_ok :: "nat \<Rightarrow> nat \<Rightarrow> otb_node \<Rightarrow> bool" where
  "open_ok n it x \<longleftrightarrow> propsBegin x \<le> it \<and> list_all (node_ok n) (node_children x)
     \<and> (node_children x \<noteq> [] \<longrightarrow> (case propsEnd x of None \<Rightarrow> False | Some e \<Rightarrow> propsBegin x \<le> e \<and> e \<le> n))"

lemma node_ok_simp:
  "node_ok n x \<longleftrightarrow> (case propsEnd x of None \<Rightarrow> False | Some e \<Rightarrow> propsBegin x \<le> e \<and> e \<le> n)
     \<and> list_all (node_ok n) (node_children x)"
  by (cases x) (simp add: list_all_iff split: option.split)

lemma open_ok_close: "open_ok n it x \<Longrightarrow> it \<le> n \<Longrightarrow> node_ok n (set_propsEnd it x)"
  by (auto simp: open_ok_def set_propsEnd_def node_ok_simp)

lemma open_ok_set: "open_ok n it x \<Longrightarrow> it \<le> n \<Longrightarrow> it \<le> it' \<Longrightarrow> open_ok n it' (set_propsEnd it x)"
  by (auto simp: open_ok_def set_propsEnd_def)

lemma open_ok_add:
  "open_ok n it p \<Longrightarrow> it \<le> it' \<Longrightarrow> node_ok n c \<Longrightarrow>
     (case propsEnd p of None \<Rightarrow> False | Some e \<Rightarrow> propsBegin p \<le> e \<and> e \<le> n) \<Longrightarrow> open_ok n it' (add_child c p)"
  by (auto simp: open_ok_def add_child_def split: option.splits)

text \<open>Below the top of the stack every node has its end set already.\<close>

definition stack_ok :: "nat \<Rightarrow> nat \<Rightarrow> otb_node list \<Rightarrow> bool" where
  "stack_ok n it stack \<longleftrightarrow> list_all (open_ok n it) stack
     \<and> list_all (\<lambda>x. case propsEnd x of None \<Rightarrow> False | Some e \<Rightarrow> propsBegin x \<le> e \<and> e \<le> n) (tl stack)"

lemma stack_ok_mono: "stack_ok n it stack \<Longrightarrow> it \<le> it' \<Longrightarrow> stack_ok n it' stack"
  by (auto simp: stack_ok_def list_all_iff open_ok_def)

lemma stack_ok_push:
  assumes "stack_ok n it (cur # st)" and "it + 2 \<le> n"
  shows "stack_ok n (it + 2) (OtbNode t (it + 2) None [] # set_propsEnd it cur # st)"
  using assms
  by (auto simp: stack_ok_def list_all_iff open_ok_def set_propsEnd_def)

lemma stack_ok_pop:
  assumes "stack_ok n it (cur # p # st)" and "it < n"
  shows "stack_ok n (it + 1) (add_child (set_propsEnd it cur) p # st)"
proof -
  have p: "case propsEnd p of None \<Rightarrow> False | Some e \<Rightarrow> propsBegin p \<le> e \<and> e \<le> n"
    and c: "open_ok n it cur" "open_ok n it p" and st: "stack_ok n it (p # st)"
    using assms(1) by (simp_all add: stack_ok_def)
  have "node_ok n (set_propsEnd it cur)" using open_ok_close [OF c(1)] assms(2) by simp
  then have "open_ok n (it + 1) (add_child (set_propsEnd it cur) p)"
    using open_ok_add [OF c(2) _ _ p] by simp
  with stack_ok_mono [OF st, of "it + 1"] show ?thesis by (simp add: stack_ok_def)
qed

lemma otb_loop_ok:
  "otb_loop it bs stack root = Inr r \<Longrightarrow> stack_ok n it stack \<Longrightarrow> it + length bs \<le> n \<Longrightarrow>
     (\<And>x. root = Some x \<Longrightarrow> node_ok n x) \<Longrightarrow> node_ok n r"
proof (induction it bs stack root rule: otb_loop.induct)
  case (1 it stack root)
  then show ?case by (auto split: list.splits option.splits)
next
  case (2 it b bs stack root)
  consider (start) "b = NODE_START" | (stop) "b = NODE_END" | (esc) "b = NODE_ESCAPE"
    | (data) "b \<notin> {NODE_START, NODE_END, NODE_ESCAPE}" by blast
  then show ?case
  proof cases
    case start
    with "2.prems"(1) obtain cur st t bs' where e: "stack = cur # st" "bs = t # bs'"
      by (auto split: list.splits)
    show ?thesis
      using "2.IH"(1) [OF start e] "2.prems" stack_ok_push [of n it cur st t] start e by simp
  next
    case stop
    with "2.prems"(1) obtain cur st where e: "stack = cur # st"
      by (auto simp: node_chars split: list.splits)
    show ?thesis
    proof (cases st)
      case Nil
      have "open_ok n it cur" using "2.prems"(2) e by (simp add: stack_ok_def)
      then have "node_ok n (set_propsEnd it cur)" using open_ok_close "2.prems"(3) by simp
      then show ?thesis
        using "2.IH"(2) [of cur] "2.prems" stop e Nil by (simp add: node_chars stack_ok_def)
    next
      case (Cons p st')
      then show ?thesis
        using "2.IH"(3) [of cur st p st'] "2.prems" stop e stack_ok_pop [of n it cur p st']
        by (simp add: node_chars)
    qed
  next
    case esc
    with "2.prems"(1) obtain c bs' where e: "bs = c # bs'" by (auto simp: node_chars split: list.splits)
    show ?thesis
      using "2.IH"(4) [of c bs'] "2.prems" esc e stack_ok_mono [of n it stack "it + 2"]
      by (simp add: node_chars)
  next
    case data
    then show ?thesis
      using "2.IH"(5) "2.prems" stack_ok_mono [of n it stack "it + 1"] by simp
  qed
qed

section \<open>Streams of properties\<close>

datatype prop_field = P8 byte | P16 u16 | P32 u32 | P64 u64 | PString string

primrec write_prop :: "prop_field \<Rightarrow> byte list \<Rightarrow> byte list" where
  "write_prop (P8 v) buffer = prop_write enc8 v buffer"
| "write_prop (P16 v) buffer = prop_write enc16 v buffer"
| "write_prop (P32 v) buffer = prop_write enc32 v buffer"
| "write_prop (P64 v) buffer = prop_write enc64 v buffer"
| "write_prop (PString s) buffer = prop_writeString s buffer"

text \<open>Read a field of the kind of the given one.\<close>

primrec read_prop :: "prop_field \<Rightarrow> prop_stream \<Rightarrow> (prop_field \<times> prop_stream) option" where
  "read_prop (P8 _) ps = map_option (apfst P8) (prop_read dec8 1 ps)"
| "read_prop (P16 _) ps = map_option (apfst P16) (prop_read dec16 2 ps)"
| "read_prop (P32 _) ps = map_option (apfst P32) (prop_read dec32 4 ps)"
| "read_prop (P64 _) ps = map_option (apfst P64) (prop_read dec64 8 ps)"
| "read_prop (PString _) ps =
     (case prop_readString ps of (None, _) \<Rightarrow> None | (Some s, ps) \<Rightarrow> Some (PString s, ps))"

primrec read_props :: "prop_field list \<Rightarrow> prop_stream \<Rightarrow> (prop_field list \<times> prop_stream) option" where
  "read_props [] ps = Some ([], ps)"
| "read_props (f # fs) ps =
     Option.bind (read_prop f ps) (\<lambda>(v, ps). map_option (apfst ((#) v)) (read_props fs ps))"

text \<open>What comes back: a string that does not fit its 16-bit length is written as empty.\<close>

primrec stored_prop :: "prop_field \<Rightarrow> prop_field" where
  "stored_prop (P8 v) = P8 v"
| "stored_prop (P16 v) = P16 v"
| "stored_prop (P32 v) = P32 v"
| "stored_prop (P64 v) = P64 v"
| "stored_prop (PString s) = PString (if length s > 65535 then [] else s)"

text \<open>Reading back a value, for every type under the \<^verbatim>\<open>memcpy\<close> contract.\<close>

context memcpy_type
begin

lemma prop_read_enc: "prop_read dec width (enc v @ rest) = Some (v, rest)"
  by (simp add: prop_read_def enc_length dec_enc)

lemma prop_read_short: "length ps < width \<Longrightarrow> prop_read dec width ps = None"
  by (simp add: prop_read_def)

end

lemma prop_readString_write:
  "prop_readString (prop_writeString s [] @ rest) = (Some (if length s > 65535 then [] else s), rest)"
proof (cases "length s > 65535")
  case True
  then show ?thesis
    by (simp add: prop_writeString_def prop_write_def prop_readString_def mem16.prop_read_enc bytes_string_def)
next
  case False
  then have "unat (of_nat (length s) :: u16) = length s" by (simp add: unat_of_nat)
  with False show ?thesis
    by (simp add: prop_writeString_def prop_write_def prop_readString_def mem16.prop_read_enc)
qed

lemma write_prop_append: "write_prop f buffer = buffer @ write_prop f []"
  by (cases f) (simp_all add: prop_write_def prop_writeString_def)

lemma read_prop_write: "read_prop f (write_prop f [] @ rest) = Some (stored_prop f, rest)"
  by (cases f) (simp_all add: prop_write_def prop_readString_write mem8.prop_read_enc
      mem16.prop_read_enc mem32.prop_read_enc mem64.prop_read_enc del: One_nat_def)

lemma fold_write_prop: "fold write_prop fs buffer = buffer @ concat (map (\<lambda>f. write_prop f []) fs)"
proof (induction fs arbitrary: buffer)
  case (Cons f fs)
  show ?case using Cons.IH [of "write_prop f buffer"] write_prop_append [of f buffer] by simp
qed simp

section \<open>Properties\<close>

text \<open>
  C24. A serialised tree with any node types and property bytes, the reserved bytes among them,
  is parsed back to the same tree: the loader accepts the file, and reading each node's
  properties gives the bytes that were escaped. Only the file of a lone node without
  properties is refused, by the size check of the constructor.
\<close>

theorem otb_roundtrip:
  assumes "length identifier = 4" and "file = identifier @ encode_tree t" and "length file \<noteq> 7"
  shows "open_loader file identifier = Inr file
    \<and> (\<exists>root. parseTree file = Inr root \<and> tree_of file root = t)"
proof -
  obtain ty props cs where t: "t = OtbTree ty props cs" by (cases t)
  have d: "drop 4 file = encode_tree t @ []" using assms(1,2) by simp
  have "drop 6 file = drop 2 (drop 4 file)" by simp
  then have f: "file ! 4 = NODE_START" "file ! 5 = ty"
    "drop 6 file = escape props @ concat (map encode_tree cs) @ [NODE_END]"
    using d assms(1,2) by (simp_all add: t nth_append)
  have "parseTree file = Inr (node_at 4 t)"
    using otb_loop_forest [of "6 + length (escape props)" cs "[NODE_END]"
        "OtbNode ty 6 None []" "[]" None]
    by (cases cs) (simp_all add: parseTree_def f otb_loop_escape t node_chars with_children_def set_propsEnd_def)
  moreover have "length file > 7" using assms by (auto simp: t)
  then have "open_loader file identifier = Inr file" using assms(1,2) by (simp add: open_loader_def)
  ultimately show ?thesis using tree_of_node_at [OF d] by blast
qed

theorem otb_roundtrip_witness:
  "\<exists>root. parseTree ([0, 0, 0, 0] @ encode_tree (OtbTree 1 [0xFF, 7] [OtbTree 0xFE [] []])) = Inr root
    \<and> tree_of ([0, 0, 0, 0] @ encode_tree (OtbTree 1 [0xFF, 7] [OtbTree 0xFE [] []])) root
        = OtbTree 1 [0xFF, 7] [OtbTree 0xFE [] []]"
  using otb_roundtrip [of "[0, 0, 0, 0]" _ "OtbTree 1 [0xFF, 7] [OtbTree 0xFE [] []]"] by simp

text \<open>
  Whatever bytes a file holds, when the loader accepts them every node of the tree has its
  property range set, in order and inside the file, so reading properties never leaves the
  mapping.
\<close>

theorem parseTree_ranges:
  assumes "6 \<le> length contents" and "parseTree contents = Inr root"
  shows "node_ok (length contents) root"
proof (rule otb_loop_ok)
  show "otb_loop 6 (drop 6 contents) [OtbNode (contents ! 5) 6 None []] None = Inr root"
    using assms(2) by (simp add: parseTree_def split: if_splits)
  show "stack_ok (length contents) 6 [OtbNode (contents ! 5) 6 None []]"
    by (simp add: stack_ok_def open_ok_def)
qed (use assms(1) in simp_all)

theorem parseTree_ranges_witness:
  "node_ok 11 (OtbNode 1 6 (Some 7) [OtbNode 2 9 (Some 9) []])"
proof -
  have "parseTree [0, 0, 0, 0, 0xFE, 1, 5, 0xFE, 2, 0xFF, 0xFF]
    = Inr (OtbNode 1 6 (Some 7) [OtbNode 2 9 (Some 9) []])"
    by (simp add: parseTree_def node_chars set_propsEnd_def add_child_def)
  from parseTree_ranges [OF _ this] show ?thesis by simp
qed

text \<open>
  Any sequence of integers and strings written to a property stream is read back in the
  same order and leaves the rest of the stream, except that a string longer than 65535 bytes
  comes back empty.
\<close>

theorem prop_stream_roundtrip:
  "read_props fs (fold write_prop fs [] @ rest) = Some (map stored_prop fs, rest)"
proof (induction fs)
  case (Cons f fs)
  have "fold write_prop (f # fs) [] @ rest = write_prop f [] @ (fold write_prop fs [] @ rest)"
    by (simp add: fold_write_prop)
  then show ?case using Cons by (simp add: read_prop_write)
qed simp

end
