(* ===== verification/Wildcard_Tree.thy ===== *)
theory Wildcard_Tree
  imports Prelude "HOL-Library.AList" "HOL-Library.Sublist"
begin

text \<open>
  The index of the names of the players online: \<^verbatim>\<open>src/src/wildcardtree.h\<close> and
  \<^verbatim>\<open>src/src/wildcardtree.cpp\<close>. The children map of a node is an
  association list; the code never observes its order, only its size and its single entry. The
  tree is proved to implement a set of names, and the wildcard search to find a name exactly
  when it is the only one that continues the query.
\<close>

section \<open>Model\<close>

datatype wtree = WNode (wt_breakpoint: bool) (wt_children: "(char \<times> wtree) list")

definition new_wtree :: wtree where "new_wtree = WNode False []"

definition getChild :: "char \<Rightarrow> wtree \<Rightarrow> wtree option" where
  "getChild ch t = map_of (wt_children t) ch"

text \<open>\<^verbatim>\<open>addChild\<close>: the child it returns, after the update.\<close>

definition addedChild :: "char \<Rightarrow> bool \<Rightarrow> wtree \<Rightarrow> wtree" where
  "addedChild ch breakpoint t =
     (case getChild ch t of
        Some child \<Rightarrow> if breakpoint \<and> \<not> wt_breakpoint child then WNode True (wt_children child) else child
      | None \<Rightarrow> WNode breakpoint [])"

definition set_child :: "char \<Rightarrow> wtree \<Rightarrow> wtree \<Rightarrow> wtree" where
  "set_child ch child t = WNode (wt_breakpoint t) (AList.update ch child (wt_children t))"

text \<open>
  \<^verbatim>\<open>insert\<close> of a non-empty name; the loop bound of the empty one wraps around
  and the loop reads past the string, which \<open>wt_insert\<close> leaves undefined.
\<close>

fun insert_name :: "string \<Rightarrow> wtree \<Rightarrow> wtree" where
  "insert_name [] t = t"
| "insert_name [ch] t = set_child ch (addedChild ch True t) t"
| "insert_name (ch # ch' # str) t = set_child ch (insert_name (ch' # str) (addedChild ch False t)) t"

definition wt_insert :: "string \<Rightarrow> wtree \<Rightarrow> wtree option" where
  "wt_insert str t = (if str = [] then None else Some (insert_name str t))"

text \<open>
  \<^verbatim>\<open>remove\<close>: \<open>None\<close> where the path does not exist and nothing is changed; on
  the way back a child without children and breakpoint is erased from its parent.
\<close>

fun remove_name :: "string \<Rightarrow> wtree \<Rightarrow> wtree option" where
  "remove_name [] t = Some (WNode False (wt_children t))"
| "remove_name (ch # str) t =
     (case getChild ch t of None \<Rightarrow> None
      | Some child \<Rightarrow>
          (case remove_name str child of None \<Rightarrow> None
           | Some child' \<Rightarrow>
               Some (if wt_children child' \<noteq> [] \<or> wt_breakpoint child' then set_child ch child' t
                     else WNode (wt_breakpoint t) (AList.delete ch (wt_children t)))))"

definition wt_remove :: "string \<Rightarrow> wtree \<Rightarrow> wtree" where
  "wt_remove str t = (case remove_name str t of None \<Rightarrow> t | Some t' \<Rightarrow> t')"

datatype find_result = PLAYERWITHTHISNAMEISNOTONLINE | NAMEISTOOAMBIGUOUS string | NOERROR string

text \<open>The descent along the query, and the loop that completes it.\<close>

fun wt_find :: "string \<Rightarrow> wtree \<Rightarrow> wtree option" where
  "wt_find [] t = Some t"
| "wt_find (ch # str) t = (case getChild ch t of None \<Rightarrow> None | Some child \<Rightarrow> wt_find str child)"

fun wt_complete :: "string \<Rightarrow> wtree \<Rightarrow> find_result" where
  "wt_complete result (WNode b []) = NOERROR result"
| "wt_complete result (WNode b [(ch, child)]) =
     (if b then NAMEISTOOAMBIGUOUS result else wt_complete (result @ [ch]) child)"
| "wt_complete result (WNode b (x # y # cs)) = NAMEISTOOAMBIGUOUS result"

definition findOne :: "string \<Rightarrow> wtree \<Rightarrow> find_result" where
  "findOne query t =
     (case wt_find query t of None \<Rightarrow> PLAYERWITHTHISNAMEISNOTONLINE | Some cur \<Rightarrow> wt_complete query cur)"

section \<open>The names of a tree\<close>

definition wt_member :: "wtree \<Rightarrow> string \<Rightarrow> bool" where
  "wt_member t str = (case wt_find str t of None \<Rightarrow> False | Some n \<Rightarrow> wt_breakpoint n)"

fun wt_ok :: "wtree \<Rightarrow> bool" where
  "wt_ok (WNode b cs) \<longleftrightarrow> distinct (map fst cs)
     \<and> (\<forall>c \<in> set cs. wt_ok (snd c) \<and> (wt_children (snd c) \<noteq> [] \<or> wt_breakpoint (snd c)))"

lemma wt_member_Nil [simp]: "wt_member t [] = wt_breakpoint t"
  by (simp add: wt_member_def)

lemma wt_member_Cons:
  "wt_member t (c # s) = (case getChild c t of None \<Rightarrow> False | Some child \<Rightarrow> wt_member child s)"
  by (simp add: wt_member_def split: option.split)

definition wt_live :: "wtree \<Rightarrow> bool" where
  "wt_live t \<longleftrightarrow> wt_children t \<noteq> [] \<or> wt_breakpoint t"

lemma wt_ok_iff:
  "wt_ok t \<longleftrightarrow> distinct (map fst (wt_children t))
     \<and> (\<forall>ch child. getChild ch t = Some child \<longrightarrow> wt_ok child \<and> wt_live child)"
proof (cases t)
  case (WNode b cs)
  have "distinct (map fst cs) \<Longrightarrow> (map_of cs ch = Some child) = ((ch, child) \<in> set cs)" for ch child
    by (simp add: map_of_eq_Some_iff)
  then show ?thesis
    using WNode by (fastforce simp: getChild_def wt_live_def)
qed

lemma getChild_set_child [simp]:
  "getChild c (set_child ch child t) = (if c = ch then Some child else getChild c t)"
  by (simp add: getChild_def set_child_def update_conv')

lemma set_child_fields [simp]:
  "wt_breakpoint (set_child ch child t) = wt_breakpoint t" "wt_live (set_child ch child t)"
  by (simp_all add: set_child_def wt_live_def update_nonempty)

lemma set_child_ok: "wt_ok t \<Longrightarrow> wt_ok child \<Longrightarrow> wt_live child \<Longrightarrow> wt_ok (set_child ch child t)"
  unfolding wt_ok_iff [of "set_child ch child t"] wt_ok_iff [of t]
  by (auto simp: distinct_update) (simp add: set_child_def distinct_update)

lemma addedChild_ok:
  assumes "wt_ok t" shows "wt_ok (addedChild ch b t)" and "b \<Longrightarrow> wt_live (addedChild ch b t)"
proof -
  have "wt_ok (WNode True (wt_children c))" if "wt_ok c" for c
    using that by (cases c) simp
  then show "wt_ok (addedChild ch b t)"
    using assms unfolding wt_ok_iff [of t] by (auto simp: addedChild_def split: option.split)
  show "b \<Longrightarrow> wt_live (addedChild ch b t)"
    using assms unfolding wt_ok_iff [of t] by (auto simp: addedChild_def wt_live_def split: option.split)
qed

lemma getChild_breakpoint [simp]: "getChild c (WNode b (wt_children t)) = getChild c t"
  by (simp add: getChild_def)

lemma wt_member_breakpoint:
  "wt_member (WNode b (wt_children t)) s = (if s = [] then b else wt_member t s)"
  by (cases s) (simp_all add: wt_member_Cons)

lemma wt_member_addedChild:
  "wt_member (addedChild ch b t) s = ((b \<and> s = []) \<or> wt_member t (ch # s))"
proof (cases "getChild ch t")
  case None
  then show ?thesis by (cases s) (simp_all add: addedChild_def wt_member_Cons getChild_def)
next
  case (Some child)
  then show ?thesis by (auto simp: addedChild_def wt_member_Cons wt_member_breakpoint)
qed

lemma insert_name_ok: "wt_ok t \<Longrightarrow> wt_ok (insert_name str t)"
  and insert_name_live: "str \<noteq> [] \<Longrightarrow> wt_live (insert_name str t)"
proof (induction str t rule: insert_name.induct)
  case (2 ch t)
  {
    case 1 then show ?case by (simp add: set_child_ok addedChild_ok)
  next
    case 2 then show ?case by simp
  }
next
  case (3 ch ch' str t)
  {
    case 1 then show ?case using 3 by (simp add: set_child_ok addedChild_ok)
  next
    case 2 then show ?case by simp
  }
qed simp_all

lemma insert_name_member: "str \<noteq> [] \<Longrightarrow> wt_member (insert_name str t) s = (s = str \<or> wt_member t s)"
proof (induction str t arbitrary: s rule: insert_name.induct)
  case (2 ch t)
  then show ?case by (cases s) (auto simp: wt_member_Cons wt_member_addedChild)
next
  case (3 ch ch' str t)
  then show ?case by (cases s) (auto simp: wt_member_Cons wt_member_addedChild)
qed simp

lemma getChild_delete [simp]:
  "getChild c (WNode b (AList.delete ch cs)) = (if c = ch then None else getChild c (WNode b cs))"
  by (simp add: getChild_def delete_conv')

lemma remove_name_spec:
  "wt_ok t \<Longrightarrow> remove_name str t = Some t' \<Longrightarrow>
     wt_ok t' \<and> (\<forall>s. wt_member t' s = (s \<noteq> str \<and> wt_member t s))"
proof (induction str t arbitrary: t' rule: remove_name.induct)
  case (1 t)
  then have "t' = WNode False (wt_children t)" by simp
  moreover have "wt_ok (WNode False (wt_children t))" using "1.prems"(1) by (cases t) simp
  ultimately show ?case by (simp add: wt_member_breakpoint)
next
  case (2 ch str t)
  from "2.prems"(2) obtain child child' where c: "getChild ch t = Some child" "remove_name str child = Some child'"
    by (auto split: option.splits)
  have okc: "wt_ok child" using "2.prems"(1) c(1) unfolding wt_ok_iff [of t] by blast
  have IH: "wt_ok child'" "\<And>s. wt_member child' s = (s \<noteq> str \<and> wt_member child s)"
    using "2.IH" [OF c(1) okc c(2)] by blast+
  show ?case
  proof (cases "wt_live child'")
    case True
    then have t': "t' = set_child ch child' t" using "2.prems"(2) c by (auto simp: wt_live_def)
    have "wt_member t' s = (s \<noteq> ch # str \<and> wt_member t s)" for s
      by (cases s) (auto simp: t' wt_member_Cons IH(2) c(1))
    then show ?thesis using set_child_ok [OF "2.prems"(1) IH(1) True] t' by blast
  next
    case False
    then have t': "t' = WNode (wt_breakpoint t) (AList.delete ch (wt_children t))"
      using "2.prems"(2) c by (auto simp: wt_live_def)
    have "\<not> wt_member child' s" for s
      using False by (cases s) (auto simp: wt_live_def wt_member_Cons getChild_def)
    then have e: "wt_member child s \<Longrightarrow> s = str" for s using IH(2) by blast
    have "wt_member t' s = (s \<noteq> ch # str \<and> wt_member t s)" for s
      using e by (cases s) (auto simp: t' wt_member_Cons c(1) split: option.splits)
    moreover have "wt_ok t'"
      using "2.prems"(1) unfolding wt_ok_iff [of t] wt_ok_iff [of t']
      by (auto simp: t' distinct_delete)
    ultimately show ?thesis by blast
  qed
qed

lemma remove_name_None: "remove_name str t = None \<Longrightarrow> \<not> wt_member t str"
  by (induction str t rule: remove_name.induct) (auto simp: wt_member_Cons split: option.splits if_splits)

lemma wt_remove_spec:
  assumes "wt_ok t"
  shows "wt_ok (wt_remove str t)" and "wt_member (wt_remove str t) s = (s \<noteq> str \<and> wt_member t s)"
  using assms remove_name_spec [OF assms, of str] remove_name_None [of str t]
  by (auto simp: wt_remove_def split: option.splits)

section \<open>Searching\<close>

lemma wt_find_member: "wt_find q t = Some n \<Longrightarrow> wt_member t (q @ u) = wt_member n u"
  by (induction q t rule: wt_find.induct) (auto simp: wt_member_Cons split: option.splits)

lemma wt_find_None: "wt_find q t = None \<Longrightarrow> \<not> wt_member t (q @ u)"
  by (induction q t rule: wt_find.induct) (auto simp: wt_member_Cons split: option.splits)

lemma wt_find_ok: "wt_ok t \<Longrightarrow> wt_live t \<Longrightarrow> wt_find q t = Some n \<Longrightarrow> wt_ok n \<and> wt_live n"
proof (induction q t rule: wt_find.induct)
  case (2 ch str t)
  from "2.prems"(3) obtain child where c: "getChild ch t = Some child" "wt_find str child = Some n"
    by (auto split: option.splits)
  have "wt_ok child \<and> wt_live child" using "2.prems"(1) c(1) unfolding wt_ok_iff [of t] by blast
  then show ?case using "2.IH" [OF c(1)] c(2) by blast
qed simp

lemma live_child:
  assumes "wt_ok (WNode b cs)" and "(c, child) \<in> set cs"
  shows "wt_ok child" and "wt_live child" and "getChild c (WNode b cs) = Some child"
  using assms by (auto simp: wt_live_def getChild_def)

text \<open>Every subtree that is kept holds a name.\<close>

lemma live_member: "wt_ok t \<Longrightarrow> wt_live t \<Longrightarrow> \<exists>s. wt_member t s"
proof (induction t)
  case (WNode b cs)
  show ?case
  proof (cases cs)
    case Nil
    with WNode.prems show ?thesis by (intro exI [of _ "[]"]) (simp add: wt_live_def)
  next
    case (Cons x cs')
    obtain c child where x: "x = (c, child)" by fastforce
    have m: "(c, child) \<in> set cs" using Cons x by simp
    from WNode.IH [OF m] live_child [OF WNode.prems(1) m] obtain s where "wt_member child s"
      by (auto simp: snds.simps)
    then show ?thesis
      using live_child(3) [OF WNode.prems(1) m] by (intro exI [of _ "c # s"]) (simp add: wt_member_Cons)
  qed
qed

lemma wt_complete_spec:
  "wt_ok n \<Longrightarrow> wt_live n \<Longrightarrow>
    (case wt_complete q n of
       PLAYERWITHTHISNAMEISNOTONLINE \<Rightarrow> False
     | NOERROR r \<Rightarrow> (\<exists>u. r = q @ u \<and> (\<forall>v. wt_member n v = (v = u)))
     | NAMEISTOOAMBIGUOUS r \<Rightarrow> (\<exists>u v. u \<noteq> v \<and> wt_member n u \<and> wt_member n v))"
proof (induction q n rule: wt_complete.induct)
  case (1 result b)
  have "wt_member (WNode b []) v = (v = [])" for v
    using "1.prems" by (cases v) (simp_all add: wt_live_def wt_member_Cons getChild_def)
  then show ?case by simp
next
  case (2 result b ch child)
  have c: "wt_ok child" "wt_live child" "getChild ch (WNode b [(ch, child)]) = Some child"
    using live_child [OF "2.prems"(1), of ch child] by simp_all
  show ?case
  proof (cases b)
    case True
    obtain s where "wt_member child s" using live_member [OF c(1,2)] by blast
    then have "wt_member (WNode b [(ch, child)]) (ch # s)" "wt_member (WNode b [(ch, child)]) []"
      using c(3) True by (simp_all add: wt_member_Cons)
    then have "\<exists>u v. u \<noteq> v \<and> wt_member (WNode b [(ch, child)]) u \<and> wt_member (WNode b [(ch, child)]) v"
      by blast
    then show ?thesis using True by simp
  next
    case False
    have m: "wt_member (WNode b [(ch, child)]) v = (\<exists>u. v = ch # u \<and> wt_member child u)" for v
      using False by (cases v) (auto simp: wt_member_Cons getChild_def)
    show ?thesis
      using "2.IH" [OF False c(1,2)] False unfolding m
      by (auto split: find_result.splits) blast
  qed
next
  case (3 result b x y cs)
  obtain c child d child' where xy: "x = (c, child)" "y = (d, child')" by fastforce
  have mem: "(c, child) \<in> set (x # y # cs)" "(d, child') \<in> set (x # y # cs)" using xy by simp_all
  note lc = live_child [OF "3.prems"(1) mem(1)] and ld = live_child [OF "3.prems"(1) mem(2)]
  obtain s s' where "wt_member child s" "wt_member child' s'" using live_member lc(1,2) ld(1,2) by blast
  then have "wt_member (WNode b (x # y # cs)) (c # s)" "wt_member (WNode b (x # y # cs)) (d # s')"
    using lc(3) ld(3) by (simp_all only: wt_member_Cons option.case)
  moreover have "c \<noteq> d" using "3.prems"(1) xy by auto
  ultimately have "\<exists>u v. u \<noteq> v \<and> wt_member (WNode b (x # y # cs)) u \<and> wt_member (WNode b (x # y # cs)) v"
    by (intro exI [of _ "c # s"] exI [of _ "d # s'"]) simp
  then show ?case by simp
qed

section \<open>A set of names\<close>

text \<open>The contract of the index, and the effect of a sequence of logins and logouts.\<close>

datatype name_op = Login string | Logout string

primrec set_op :: "name_op \<Rightarrow> string set \<Rightarrow> string set" where
  "set_op (Login name) names = Set.insert name names"
| "set_op (Logout name) names = names - {name}"

locale name_index =
  fixes empty :: 't
    and ins :: "string \<Rightarrow> 't \<Rightarrow> 't"
    and del :: "string \<Rightarrow> 't \<Rightarrow> 't"
    and mem :: "'t \<Rightarrow> string \<Rightarrow> bool"
    and inv :: "'t \<Rightarrow> bool"
  assumes empty_inv: "inv empty" and empty_mem: "\<not> mem empty s"
    and ins_inv: "inv t \<Longrightarrow> name \<noteq> [] \<Longrightarrow> inv (ins name t)"
    and ins_mem: "inv t \<Longrightarrow> name \<noteq> [] \<Longrightarrow> mem (ins name t) s = (s = name \<or> mem t s)"
    and del_inv: "inv t \<Longrightarrow> inv (del name t)"
    and del_mem: "inv t \<Longrightarrow> mem (del name t) s = (s \<noteq> name \<and> mem t s)"
begin

primrec run_op :: "name_op \<Rightarrow> 't \<Rightarrow> 't" where
  "run_op (Login name) t = ins name t"
| "run_op (Logout name) t = del name t"

lemma run_ops:
  assumes "inv t" and "Login [] \<notin> set ops"
  shows "inv (fold run_op ops t) \<and> {s. mem (fold run_op ops t) s} = fold set_op ops {s. mem t s}"
  using assms
proof (induction ops arbitrary: t)
  case (Cons x ops)
  have "inv (run_op x t)" "{s. mem (run_op x t) s} = set_op x {s. mem t s}"
    using Cons.prems by (cases x; auto simp: ins_inv ins_mem del_inv del_mem)+
  with Cons.IH [of "run_op x t"] Cons.prems(2) show ?case by simp
qed simp

lemma run_ops_empty:
  "Login [] \<notin> set ops \<Longrightarrow> inv (fold run_op ops empty) \<and> {s. mem (fold run_op ops empty) s} = fold set_op ops {}"
  using run_ops [OF empty_inv, of ops] by (simp add: empty_mem)

end

interpretation online: name_index new_wtree insert_name wt_remove wt_member wt_ok
proof
  show "\<not> wt_member new_wtree s" for s
    by (cases s) (simp_all add: new_wtree_def wt_member_Cons getChild_def)
qed (simp_all add: new_wtree_def insert_name_ok insert_name_member wt_remove_spec)

text \<open>What the game does with the tree when players log in and out.\<close>

primrec wt_run :: "name_op \<Rightarrow> wtree \<Rightarrow> wtree" where
  "wt_run (Login name) t = insert_name name t"
| "wt_run (Logout name) t = wt_remove name t"

lemma wt_run_online: "wt_run = online.run_op"
proof (intro ext)
  show "wt_run x t = online.run_op x t" for x t by (cases x) simp_all
qed

section \<open>Properties\<close>

text \<open>
  C23. After any sequence of logins and logouts of non-empty names the tree holds exactly the
  names that are online, and it keeps its form: no key twice in a node, and no node without
  children that is not itself the end of a name.
\<close>

theorem wildcard_tree_names:
  assumes "Login [] \<notin> set ops"
  shows "{s. wt_member (fold wt_run ops new_wtree) s} = fold set_op ops {}
    \<and> wt_ok (fold wt_run ops new_wtree)"
  using online.run_ops_empty [OF assms] by (simp add: wt_run_online)

theorem wildcard_tree_names_witness:
  "{s. wt_member (fold wt_run [Login ''ash'', Login ''as'', Logout ''ash''] new_wtree) s} = {''as''}"
proof -
  have "Login [] \<notin> set [Login ''ash'', Login ''as'', Logout ''ash'']" by simp
  from wildcard_tree_names [OF this, THEN conjunct1]
  have "{s. wt_member (fold wt_run [Login ''ash'', Login ''as'', Logout ''ash''] new_wtree) s}
    = fold set_op [Login ''ash'', Login ''as'', Logout ''ash''] {}" .
  also have "\<dots> = {''as''}" by auto
  finally show ?thesis .
qed

text \<open>
  While some player is online, the wildcard search answers that nobody matches exactly
  when no online name starts with the query, it returns a name exactly when that name is the
  only one that starts with the query, and otherwise it answers that the query is ambiguous,
  also when the query is itself a complete name.
\<close>

theorem findOne_correct:
  assumes "Login [] \<notin> set ops" and "fold set_op ops {} \<noteq> {}"
  shows "let matches = {s \<in> fold set_op ops {}. prefix query s} in
    case findOne query (fold wt_run ops new_wtree) of
      PLAYERWITHTHISNAMEISNOTONLINE \<Rightarrow> matches = {}
    | NOERROR name \<Rightarrow> matches = {name}
    | NAMEISTOOAMBIGUOUS _ \<Rightarrow> \<exists>u \<in> matches. \<exists>v \<in> matches. u \<noteq> v"
proof -
  let ?t = "fold wt_run ops new_wtree"
  define M where "M = {s \<in> fold set_op ops {}. prefix query s}"
  have ok: "wt_ok ?t" and mem: "\<And>s. wt_member ?t s = (s \<in> fold set_op ops {})"
    using online.run_ops_empty [OF assms(1)] by (auto simp: wt_run_online)
  have M: "s \<in> M \<longleftrightarrow> (\<exists>u. s = query @ u \<and> wt_member ?t (query @ u))" for s
    by (auto simp: M_def mem prefix_def)
  obtain s where "wt_member ?t s" using assms(2) mem by blast
  then have live: "wt_live ?t"
    by (cases s) (auto simp: wt_live_def wt_member_Cons getChild_def)
  show ?thesis
  proof (cases "wt_find query ?t")
    case None
    then have "M = {}" using wt_find_None [OF None] M by blast
    with None show ?thesis by (simp add: findOne_def M_def [symmetric])
  next
    case (Some n)
    note m = wt_find_member [OF Some]
    have "wt_ok n" "wt_live n" using wt_find_ok [OF ok live Some] by simp_all
    note spec = wt_complete_spec [OF this, of query]
    have Mn: "s \<in> M \<longleftrightarrow> (\<exists>u. s = query @ u \<and> wt_member n u)" for s by (simp only: M m)
    have f: "findOne query ?t = wt_complete query n" using Some by (simp add: findOne_def)
    show ?thesis
    proof (cases "wt_complete query n")
      case PLAYERWITHTHISNAMEISNOTONLINE
      with spec show ?thesis by simp
    next
      case (NAMEISTOOAMBIGUOUS r)
      with spec obtain u v where "u \<noteq> v" "wt_member n u" "wt_member n v" by auto
      then have "\<exists>a \<in> M. \<exists>b \<in> M. a \<noteq> b" using Mn by (metis same_append_eq)
      with NAMEISTOOAMBIGUOUS show ?thesis by (simp add: f M_def)
    next
      case (NOERROR r)
      with spec obtain u where "r = query @ u" "\<And>v. wt_member n v = (v = u)" by auto
      then have "M = {r}" using Mn by auto
      with NOERROR show ?thesis by (simp add: f M_def)
    qed
  qed
qed

theorem findOne_correct_witness:
  "findOne ''a'' (fold wt_run [Login ''ab'', Login ''m''] new_wtree) = NOERROR ''ab''
   \<and> {s \<in> {''ab'', ''m''}. prefix ''a'' s} = {''ab''}"
proof -
  let ?ops = "[Login ''ab'', Login ''m'']"
  define t where "t = fold wt_run ?ops new_wtree"
  have e: "findOne ''a'' t = NOERROR ''ab''" unfolding t_def by code_simp
  have "fold set_op ?ops {} = {''ab'', ''m''}" by auto
  then show ?thesis
    using findOne_correct [of ?ops "''a''", folded t_def] e
    unfolding t_def [symmetric] by (simp add: Let_def)
qed

end
