(* ===== verification/Waiting_List.thy ===== *)
theory Waiting_List
  imports Prelude
begin

text \<open>
  The login queue and the connection-rate limit: \<^verbatim>\<open>src/src/waitlist.cpp\<close> and
  \<^verbatim>\<open>acceptConnection\<close> of \<^verbatim>\<open>src/src/ban.cpp\<close>. Times are 64-bit
  words as in the code. Erasing an iterator through a list it does not belong to is undefined
  in C++ and is the value \<open>None\<close>.
\<close>

section \<open>The waiting list\<close>

record wait =
  w_timeout :: u64
  w_guid :: u32

record wait_lists =
  priorityWaitList :: "wait list"
  waitList :: "wait list"

record wl_player =
  wp_guid :: u32
  wp_can_always_login :: bool
  wp_account_type :: nat
  wp_premium :: bool

definition ACCOUNT_TYPE_GAMEMASTER :: nat where "ACCOUNT_TYPE_GAMEMASTER = 4"

text \<open>
  The difference of the \<^verbatim>\<open>size_t\<close> timeout and the \<^verbatim>\<open>int64_t\<close> time
  is unsigned.
\<close>

definition cleanupList :: "u64 \<Rightarrow> wait list \<Rightarrow> wait list" where
  "cleanupList now = filter (\<lambda>w. \<not> (w_timeout w - now \<le> 0))"

definition getTime :: "nat \<Rightarrow> nat" where
  "getTime slot =
     (if slot < 5 then 5 else if slot < 10 then 10 else if slot < 20 then 20
      else if slot < 50 then 60 else 120)"

definition getTimeout :: "nat \<Rightarrow> nat" where "getTimeout slot = getTime slot + 15"

datatype wl_iterator = InPriority nat | InWait nat | WaitEnd

text \<open>The loops of \<^verbatim>\<open>findClient\<close>; the index counts inside the list.\<close>

primrec find_guid :: "u32 \<Rightarrow> nat \<Rightarrow> wait list \<Rightarrow> nat option" where
  "find_guid guid i [] = None"
| "find_guid guid i (w # ws) = (if w_guid w = guid then Some i else find_guid guid (Suc i) ws)"

definition findClient :: "wait_lists \<Rightarrow> wl_player \<Rightarrow> wl_iterator \<times> nat" where
  "findClient info player =
     (case find_guid (wp_guid player) 0 (priorityWaitList info) of
        Some i \<Rightarrow> (InPriority i, i + 1)
      | None \<Rightarrow>
          (case find_guid (wp_guid player) 0 (waitList info) of
             Some i \<Rightarrow> (InWait i, length (priorityWaitList info) + i + 1)
           | None \<Rightarrow> (WaitEnd, length (priorityWaitList info) + length (waitList info) + 1)))"

definition new_timeout :: "u64 \<Rightarrow> nat \<Rightarrow> u64" where
  "new_timeout now slot = now + of_nat (getTimeout slot * 1000)"

definition set_timeout :: "nat \<Rightarrow> u64 \<Rightarrow> wait list \<Rightarrow> wait list" where
  "set_timeout i t ws = ws[i := (ws ! i)\<lparr>w_timeout := t\<rparr>]"

definition erase_at :: "nat \<Rightarrow> 'a list \<Rightarrow> 'a list" where
  "erase_at i xs = take i xs @ drop (Suc i) xs"

definition wl_privileged :: "wl_player \<Rightarrow> bool" where
  "wl_privileged player \<longleftrightarrow>
     wp_can_always_login player \<or> wp_account_type player \<ge> ACCOUNT_TYPE_GAMEMASTER"

definition clientLogin ::
  "nat \<Rightarrow> nat \<Rightarrow> u64 \<Rightarrow> wl_player \<Rightarrow> wait_lists \<Rightarrow> (bool \<times> wait_lists) option" where
  "clientLogin maxPlayers online now player info =
     (if wl_privileged player then Some (True, info)
      else if maxPlayers = 0 \<or> priorityWaitList info = [] \<and> waitList info = [] \<and> online < maxPlayers
        then Some (True, info)
      else
        (let info = info\<lparr>priorityWaitList := cleanupList now (priorityWaitList info),
                        waitList := cleanupList now (waitList info)\<rparr>
         in case findClient info player of
              (InPriority i, slot) \<Rightarrow>
                if online + slot \<le> maxPlayers then None
                else Some (False, info\<lparr>priorityWaitList :=
                       set_timeout i (new_timeout now slot) (priorityWaitList info)\<rparr>)
            | (InWait i, slot) \<Rightarrow>
                if online + slot \<le> maxPlayers
                then Some (True, info\<lparr>waitList := erase_at i (waitList info)\<rparr>)
                else Some (False, info\<lparr>waitList := set_timeout i (new_timeout now slot) (waitList info)\<rparr>)
            | (WaitEnd, _) \<Rightarrow>
                (let slot = length (priorityWaitList info) in
                 if wp_premium player
                 then Some (False, info\<lparr>priorityWaitList := priorityWaitList info @
                        [\<lparr>w_timeout = new_timeout now (slot + 1), w_guid = wp_guid player\<rparr>]\<rparr>)
                 else (let slot = slot + length (waitList info) in
                   Some (False, info\<lparr>waitList := waitList info @
                        [\<lparr>w_timeout = new_timeout now (slot + 1), w_guid = wp_guid player\<rparr>]\<rparr>)))))"

definition getClientSlot :: "wl_player \<Rightarrow> wait_lists \<Rightarrow> nat" where
  "getClientSlot player info =
     (case findClient info player of (WaitEnd, _) \<Rightarrow> 0 | (_, slot) \<Rightarrow> slot)"

section \<open>The connection limit\<close>

record connect_block =
  cb_lastAttempt :: u64
  cb_blockTime :: u64
  cb_count :: u32

type_synonym ip_map = "u32 \<rightharpoonup> connect_block"

text \<open>\<^verbatim>\<open>timeDiff\<close> is the unsigned difference read as a signed number.\<close>

definition acceptConnection :: "u32 \<Rightarrow> u64 \<Rightarrow> ip_map \<Rightarrow> bool \<times> ip_map" where
  "acceptConnection clientIP currentTime ips =
     (case ips clientIP of
        None \<Rightarrow> (True, ips(clientIP \<mapsto> \<lparr>cb_lastAttempt = currentTime, cb_blockTime = 0, cb_count = 1\<rparr>))
      | Some b \<Rightarrow>
          if cb_blockTime b > currentTime
          then (False, ips(clientIP \<mapsto> b\<lparr>cb_blockTime := cb_blockTime b + 250\<rparr>))
          else
            (let timeDiff = sint (currentTime - cb_lastAttempt b);
                 b = b\<lparr>cb_lastAttempt := currentTime\<rparr>
             in if timeDiff \<le> 5000 then
                  (let b = b\<lparr>cb_count := cb_count b + 1\<rparr> in
                   if cb_count b > 5 then
                     (let b = b\<lparr>cb_count := 0\<rparr> in
                      if timeDiff \<le> 500
                      then (False, ips(clientIP \<mapsto> b\<lparr>cb_blockTime := currentTime + 3000\<rparr>))
                      else (True, ips(clientIP \<mapsto> b)))
                   else (True, ips(clientIP \<mapsto> b)))
                else (True, ips(clientIP \<mapsto> b\<lparr>cb_count := 1\<rparr>))))"

text \<open>A client that connects at each of the given times.\<close>

primrec accept_run :: "u32 \<Rightarrow> u64 list \<Rightarrow> ip_map \<Rightarrow> bool list" where
  "accept_run ip [] ips = []"
| "accept_run ip (t # ts) ips = (let (ok, ips) = acceptConnection ip t ips in ok # accept_run ip ts ips)"

fun spaced :: "u64 list \<Rightarrow> bool" where
  "spaced (a # b # ts) \<longleftrightarrow> sint (b - a) > 500 \<and> spaced (b # ts)"
| "spaced _ \<longleftrightarrow> True"

section \<open>Lemmas\<close>

lemma in_cleanupList: "w \<in> set (cleanupList now ws) \<longleftrightarrow> w \<in> set ws \<and> w_timeout w \<noteq> now"
  by (auto simp: cleanupList_def word_le_0_iff)

lemma find_guid_Some:
  "find_guid guid i ws = Some k \<Longrightarrow>
     i \<le> k \<and> k - i < length ws \<and> w_guid (ws ! (k - i)) = guid \<and> (\<forall>j < k - i. w_guid (ws ! j) \<noteq> guid)"
proof (induction ws arbitrary: i)
  case (Cons w ws)
  show ?case
  proof (cases "w_guid w = guid")
    case False
    with Cons have IH: "Suc i \<le> k" "k - Suc i < length ws" "w_guid (ws ! (k - Suc i)) = guid"
      "\<forall>j < k - Suc i. w_guid (ws ! j) \<noteq> guid" by fastforce+
    from IH(1) have e: "k - i = Suc (k - Suc i)" by simp
    show ?thesis unfolding e using IH False by (auto simp: nth_Cons split: nat.splits)
  qed (use Cons.prems in simp)
qed simp

lemma find_guid_None: "find_guid guid i ws = None \<longleftrightarrow> guid \<notin> w_guid ` set ws"
  by (induction ws arbitrary: i) auto

definition others :: "wl_player \<Rightarrow> wait list \<Rightarrow> u32 list" where
  "others player ws = filter (\<lambda>g. g \<noteq> wp_guid player) (map w_guid ws)"

lemma others_set_timeout: "i < length ws \<Longrightarrow> others p (set_timeout i t ws) = others p ws"
  by (simp add: others_def set_timeout_def map_update) (metis list_update_id nth_map)

lemma others_erase:
  assumes "i < length ws" and "w_guid (ws ! i) = wp_guid p"
  shows "others p (erase_at i ws) = others p ws"
proof -
  have "ws = take i ws @ ws ! i # drop (Suc i) ws" using assms(1) by (rule id_take_nth_drop)
  then have "others p ws = others p (take i ws @ ws ! i # drop (Suc i) ws)" by simp
  then show ?thesis using assms(2) by (simp add: others_def erase_at_def)
qed

lemma others_append_self: "others p (ws @ [\<lparr>w_timeout = t, w_guid = wp_guid p\<rparr>]) = others p ws"
  by (simp add: others_def)

lemmas others_simps = others_set_timeout others_erase others_append_self

lemma findClient_cases:
  obtains (priority) i where "findClient info p = (InPriority i, i + 1)" "i < length (priorityWaitList info)"
    "w_guid (priorityWaitList info ! i) = wp_guid p"
  | (wait) i where "findClient info p = (InWait i, length (priorityWaitList info) + i + 1)"
    "i < length (waitList info)" "w_guid (waitList info ! i) = wp_guid p"
  | (none) n where "findClient info p = (WaitEnd, n)"
    "wp_guid p \<notin> w_guid ` set (priorityWaitList info @ waitList info)"
proof (cases "find_guid (wp_guid p) 0 (priorityWaitList info)")
  case (Some i)
  then show ?thesis using find_guid_Some [OF Some] priority by (simp add: findClient_def)
next
  case None
  show ?thesis
  proof (cases "find_guid (wp_guid p) 0 (waitList info)")
    case (Some i)
    then show ?thesis using find_guid_Some [OF Some] None wait by (simp add: findClient_def)
  next
    case None': None
    then show ?thesis using None none find_guid_None by (fastforce simp: findClient_def image_Un)
  qed
qed

lemma accept_spaced:
  assumes "ips ip = Some b" and "cb_blockTime b = 0" and "500 < sint (t - cb_lastAttempt b)"
  shows "\<exists>b'. acceptConnection ip t ips = (True, ips(ip \<mapsto> b')) \<and> cb_lastAttempt b' = t \<and> cb_blockTime b' = 0"
  using assms
  by (cases "sint (t - cb_lastAttempt b) \<le> 5000"; cases "5 < cb_count b + 1")
    (simp_all add: acceptConnection_def Let_def, (rule exI, rule conjI, rule refl, simp)+)

section \<open>Properties\<close>

text \<open>
  C31. An ordinary player is only let in while there is a free place: with a player limit, a
  successful login of a player without privileges means that fewer players are online than
  allowed, and that either nobody was queued or the player's position in the queue is within
  the number of free places.
\<close>

theorem clientLogin_within_limit:
  assumes "clientLogin maxPlayers online now player info = Some (True, info')"
    and "\<not> wl_privileged player" and "maxPlayers \<noteq> 0"
  shows "online < maxPlayers
    \<and> (info = info' \<and> priorityWaitList info = [] \<and> waitList info = []
       \<or> online + getClientSlot player (info\<lparr>priorityWaitList := cleanupList now (priorityWaitList info),
            waitList := cleanupList now (waitList info)\<rparr>) \<le> maxPlayers)"
proof (cases "priorityWaitList info = [] \<and> waitList info = [] \<and> online < maxPlayers")
  case True
  with assms show ?thesis by (simp add: clientLogin_def)
next
  case False
  let ?i = "info\<lparr>priorityWaitList := cleanupList now (priorityWaitList info),
    waitList := cleanupList now (waitList info)\<rparr>"
  show ?thesis
    using assms False
    by (rule_tac findClient_cases [of ?i player])
      (auto simp: clientLogin_def getClientSlot_def Let_def split: if_splits)
qed

theorem clientLogin_within_limit_witness:
  "clientLogin 10 9 0 \<lparr>wp_guid = 3, wp_can_always_login = False, wp_account_type = 1, wp_premium = False\<rparr>
     \<lparr>priorityWaitList = [], waitList = []\<rparr> = Some (True, \<lparr>priorityWaitList = [], waitList = []\<rparr>)
   \<and> (9 :: nat) < 10"
proof -
  let ?p = "\<lparr>wp_guid = 3, wp_can_always_login = False, wp_account_type = 1, wp_premium = False\<rparr>"
  have p: "\<not> wl_privileged ?p" by (simp add: wl_privileged_def ACCOUNT_TYPE_GAMEMASTER_def)
  then have e: "clientLogin 10 9 0 ?p \<lparr>priorityWaitList = [], waitList = []\<rparr>
    = Some (True, \<lparr>priorityWaitList = [], waitList = []\<rparr>)" by (simp add: clientLogin_def)
  show ?thesis using clientLogin_within_limit [OF e p] e by simp
qed

text \<open>
  The queue is fair: whatever a login attempt answers, the other waiting players keep their
  order in both lists, and nobody leaves a list except by the player's own admission or a
  timeout equal to the current time.
\<close>

theorem clientLogin_fair:
  assumes "clientLogin maxPlayers online now player info = Some (ok, info')"
    and "info' \<noteq> info"
  shows "others player (priorityWaitList info') = others player (cleanupList now (priorityWaitList info))
    \<and> others player (waitList info') = others player (cleanupList now (waitList info))"
proof -
  let ?i = "info\<lparr>priorityWaitList := cleanupList now (priorityWaitList info),
    waitList := cleanupList now (waitList info)\<rparr>"
  show ?thesis
    using assms
    by (rule_tac findClient_cases [of ?i player])
      (auto simp: clientLogin_def Let_def others_simps split: if_splits)
qed

theorem clientLogin_fair_witness:
  "\<exists>info'. clientLogin 1 1 5 \<lparr>wp_guid = 3, wp_can_always_login = False, wp_account_type = 1, wp_premium = False\<rparr>
     \<lparr>priorityWaitList = [], waitList = [\<lparr>w_timeout = 9, w_guid = 7\<rparr>]\<rparr> = Some (False, info')
     \<and> others \<lparr>wp_guid = 3, wp_can_always_login = False, wp_account_type = 1, wp_premium = False\<rparr>
         (waitList info') = [7]"
proof -
  let ?p = "\<lparr>wp_guid = 3, wp_can_always_login = False, wp_account_type = 1, wp_premium = False\<rparr>"
  let ?w = "\<lparr>w_timeout = 9, w_guid = 7\<rparr>"
  let ?i = "\<lparr>priorityWaitList = [], waitList = [?w]\<rparr>"
  have e: "clientLogin 1 1 5 ?p ?i = Some (False, ?i\<lparr>waitList := [?w, \<lparr>w_timeout = 20005, w_guid = 3\<rparr>]\<rparr>)"
    by (simp add: clientLogin_def wl_privileged_def ACCOUNT_TYPE_GAMEMASTER_def cleanupList_def
        findClient_def new_timeout_def getTimeout_def getTime_def)
  show ?thesis using clientLogin_fair [OF e] e by (simp add: others_def cleanupList_def)
qed

text \<open>
  The cleaning of the queue compares an unsigned difference with zero, so it removes only
  entries whose timeout is exactly the current time: a player who left long ago stays at the
  head of the queue, and a newcomer is refused although there is a free place.
\<close>

theorem expired_entry_blocks:
  assumes "waitList info = [w]" and "priorityWaitList info = []" and "w_timeout w < now"
    and "w_guid w \<noteq> wp_guid player" and "\<not> wl_privileged player" and "0 < maxPlayers"
  shows "\<exists>info'. clientLogin maxPlayers online now player info = Some (False, info')
    \<and> w \<in> set (waitList info')"
proof -
  have c: "cleanupList now [w] = [w]" "cleanupList now [] = []"
    using assms(3) by (auto simp: cleanupList_def word_le_0_iff)
  show ?thesis
    using assms by (auto simp: clientLogin_def findClient_def c Let_def)
qed

theorem expired_entry_blocks_witness:
  "\<exists>info'. clientLogin 100 0 1000000 \<lparr>wp_guid = 3, wp_can_always_login = False,
     wp_account_type = 1, wp_premium = False\<rparr>
     \<lparr>priorityWaitList = [], waitList = [\<lparr>w_timeout = 20000, w_guid = 7\<rparr>]\<rparr> = Some (False, info')
   \<and> \<lparr>w_timeout = 20000, w_guid = 7\<rparr> \<in> set (waitList info')"
  by (rule expired_entry_blocks) (simp_all add: wl_privileged_def ACCOUNT_TYPE_GAMEMASTER_def)

text \<open>
  When the turn of a premium player has come, the code erases the entry of the priority
  list through the other list, which is undefined.
\<close>

theorem premium_turn_undefined:
  assumes "find_guid (wp_guid player) 0 (cleanupList now (priorityWaitList info)) = Some i"
    and "online + i + 1 \<le> maxPlayers" and "\<not> wl_privileged player"
  shows "clientLogin maxPlayers online now player info = None"
proof -
  have "cleanupList now (priorityWaitList info) \<noteq> []" using find_guid_Some [OF assms(1)] by auto
  then have "priorityWaitList info \<noteq> []" by (auto simp: cleanupList_def)
  then show ?thesis using assms by (simp add: clientLogin_def findClient_def Let_def)
qed

theorem premium_turn_undefined_witness:
  "clientLogin 100 0 50 \<lparr>wp_guid = 3, wp_can_always_login = False, wp_account_type = 1, wp_premium = True\<rparr>
     \<lparr>priorityWaitList = [\<lparr>w_timeout = 20000, w_guid = 3\<rparr>], waitList = []\<rparr> = None"
  by (rule premium_turn_undefined [where i = 0])
    (simp_all add: cleanupList_def wl_privileged_def ACCOUNT_TYPE_GAMEMASTER_def)

text \<open>
  The rate limit never refuses a client that waits more than half a second between its
  attempts, however many there are and whatever other addresses do.
\<close>

theorem spaced_attempts_accepted:
  assumes "spaced ts" and "ips ip = None"
  shows "list_all (\<lambda>ok. ok) (accept_run ip ts ips)"
proof -
  have "list_all (\<lambda>ok. ok) (accept_run ip ts ips)"
    if "spaced (t0 # ts)" "ips ip = Some b" "cb_lastAttempt b = t0" "cb_blockTime b = 0" for t0 b ips ts
    using that
  proof (induction ts arbitrary: t0 b ips)
    case (Cons t ts)
    have g: "sint (t - t0) > 500" "spaced (t # ts)" using Cons.prems(1) by simp_all
    obtain b' where "acceptConnection ip t ips = (True, ips(ip \<mapsto> b'))"
      "cb_lastAttempt b' = t" "cb_blockTime b' = 0"
      using accept_spaced [of ips ip b t] Cons.prems(2-4) g(1) by auto
    then show ?case using Cons.IH [OF g(2), of "ips(ip \<mapsto> b')" b'] by (simp del: fun_upd_apply) simp
  qed simp
  then show ?thesis
    using assms by (cases ts) (auto simp: acceptConnection_def)
qed

theorem spaced_attempts_accepted_witness:
  "list_all (\<lambda>ok. ok) (accept_run 1 [0, 501, 1002, 1503, 2004, 2505, 3006] Map.empty)"
  by (rule spaced_attempts_accepted) simp_all

end
