(* ===== verification/Party.thy ===== *)
theory Party
  imports Position
begin

text \<open>
  Parties of players: \<^verbatim>\<open>src/src/party.cpp\<close>, the party calls of
  \<^verbatim>\<open>src/src/game.cpp\<close> and the party part of \<^verbatim>\<open>src/src/player.cpp\<close>.
  Players and parties are identified by numbers that stand for the pointers of the code; the
  world maps each live party to its object and each player to its party and its list of
  invitations, so that the two sides of every link are separate fields as they are in the
  code. Messages and icons sent to clients are left out. The script events, levels, positions
  and times are an environment that may change at every step.
\<close>

section \<open>State\<close>

type_synonym player_id = nat
type_synonym party_id = nat

record party =
  leader :: player_id
  memberList :: "player_id list"
  inviteList :: "player_id list"
  ticksMap :: "player_id \<rightharpoonup> u64"
  sharedExpActive :: bool
  sharedExpEnabled :: bool

record party_world =
  pw_parties :: "party_id \<rightharpoonup> party"
  pw_party :: "player_id \<Rightarrow> party_id option"
  pw_invitations :: "player_id \<Rightarrow> party_id list"
  pw_next :: party_id

record party_env =
  pe_onJoin :: "party_id \<Rightarrow> player_id \<Rightarrow> bool"
  pe_onLeave :: "party_id \<Rightarrow> player_id \<Rightarrow> bool"
  pe_onDisband :: "party_id \<Rightarrow> bool"
  pe_level :: "player_id \<Rightarrow> nat"
  pe_pos :: "player_id \<Rightarrow> position"
  pe_notGainInFight :: "player_id \<Rightarrow> bool"
  pe_now :: u64
  pe_pzLocked :: u64
  pe_blocked :: "player_id \<Rightarrow> bool"

definition new_party :: "player_id \<Rightarrow> party" where
  "new_party l = \<lparr>leader = l, memberList = [], inviteList = [], ticksMap = Map.empty,
     sharedExpActive = False, sharedExpEnabled = False\<rparr>"

definition party_empty :: "party \<Rightarrow> bool" where
  "party_empty pt \<longleftrightarrow> memberList pt = [] \<and> inviteList pt = []"

definition isPlayerInvited :: "player_id \<Rightarrow> party \<Rightarrow> bool" where
  "isPlayerInvited p pt \<longleftrightarrow> p \<in> set (inviteList pt)"

section \<open>Shared experience\<close>

definition highestLevel :: "party_env \<Rightarrow> party \<Rightarrow> nat" where
  "highestLevel env pt =
     foldl (\<lambda>h m. if pe_level env m > h then pe_level env m else h) (pe_level env (leader pt)) (memberList pt)"

text \<open>
  The ceiling of two thirds; the \<^verbatim>\<open>float\<close> division of the code gives the same
  number for levels below 2^20.
\<close>

definition minSharedLevel :: "nat \<Rightarrow> nat" where "minSharedLevel h = (h * 2 + 2) div 3"

definition canUseSharedExperience :: "party_env \<Rightarrow> party \<Rightarrow> player_id \<Rightarrow> bool" where
  "canUseSharedExperience env pt p =
     (if memberList pt = [] then False
      else if pe_level env p < minSharedLevel (highestLevel env pt) then False
      else if \<not> areInRange3 30 30 1 (pe_pos env (leader pt)) (pe_pos env p) then False
      else if \<not> pe_notGainInFight env p then
        (case ticksMap pt p of None \<Rightarrow> False | Some t \<Rightarrow> \<not> pe_now env - t > pe_pzLocked env)
      else True)"

definition canEnableSharedExperience :: "party_env \<Rightarrow> party \<Rightarrow> bool" where
  "canEnableSharedExperience env pt \<longleftrightarrow>
     canUseSharedExperience env pt (leader pt) \<and> list_all (canUseSharedExperience env pt) (memberList pt)"

definition updateSharedExperience :: "party_env \<Rightarrow> party \<Rightarrow> party" where
  "updateSharedExperience env pt =
     (if sharedExpActive pt then pt\<lparr>sharedExpEnabled := canEnableSharedExperience env pt\<rparr> else pt)"

definition setSharedExperience :: "party_env \<Rightarrow> player_id \<Rightarrow> bool \<Rightarrow> party \<Rightarrow> bool \<times> party" where
  "setSharedExperience env p active pt =
     (if leader pt \<noteq> p then (False, pt)
      else if sharedExpActive pt = active then (True, pt)
      else (let pt = pt\<lparr>sharedExpActive := active\<rparr> in
        (True, if active then pt\<lparr>sharedExpEnabled := canEnableSharedExperience env pt\<rparr> else pt)))"

definition updatePlayerTicks :: "party_env \<Rightarrow> player_id \<Rightarrow> nat \<Rightarrow> party \<Rightarrow> party" where
  "updatePlayerTicks env p points pt =
     (if points \<noteq> 0 \<and> \<not> pe_notGainInFight env p
      then updateSharedExperience env (pt\<lparr>ticksMap := (ticksMap pt)(p \<mapsto> pe_now env)\<rparr>) else pt)"

definition clearPlayerPoints :: "party_env \<Rightarrow> player_id \<Rightarrow> party \<Rightarrow> party" where
  "clearPlayerPoints env p pt =
     (if ticksMap pt p \<noteq> None
      then updateSharedExperience env (pt\<lparr>ticksMap := (ticksMap pt)(p := None)\<rparr>) else pt)"

text \<open>Who gains the shared experience, in the order of the calls; \<open>ev\<close> is the script event.\<close>

definition shareExperience :: "('e \<Rightarrow> 'e) \<Rightarrow> party \<Rightarrow> 'e \<Rightarrow> (player_id \<times> 'e) list" where
  "shareExperience ev pt experience =
     (let share = ev experience in map (\<lambda>m. (m, share)) (memberList pt) @ [(leader pt, share)])"

section \<open>Operations of a party\<close>

definition removePartyInvitation :: "party_id \<Rightarrow> player_id \<Rightarrow> party_world \<Rightarrow> party_world" where
  "removePartyInvitation q p w =
     w\<lparr>pw_invitations := (pw_invitations w)(p := removeAll q (pw_invitations w p))\<rparr>"

definition addPartyInvitation :: "party_id \<Rightarrow> player_id \<Rightarrow> party_world \<Rightarrow> party_world" where
  "addPartyInvitation q p w =
     (if q \<in> set (pw_invitations w p) then w
      else w\<lparr>pw_invitations := (pw_invitations w)(p := q # pw_invitations w p)\<rparr>)"

definition setParty :: "party_id option \<Rightarrow> player_id \<Rightarrow> party_world \<Rightarrow> party_world" where
  "setParty q p w = w\<lparr>pw_party := (pw_party w)(p := q)\<rparr>"

definition put_party :: "party_id \<Rightarrow> party \<Rightarrow> party_world \<Rightarrow> party_world" where
  "put_party q pt w = w\<lparr>pw_parties := (pw_parties w)(q \<mapsto> pt)\<rparr>"

definition disband :: "party_env \<Rightarrow> party_id \<Rightarrow> party_world \<Rightarrow> party_world" where
  "disband env q w =
     (case pw_parties w q of None \<Rightarrow> w
      | Some pt \<Rightarrow>
          if \<not> pe_onDisband env q then w
          else
            (let w = setParty None (leader pt) w;
                 w = fold (removePartyInvitation q) (inviteList pt) w;
                 w = fold (setParty None) (memberList pt) w
             in w\<lparr>pw_parties := (pw_parties w)(q := None)\<rparr>))"

definition passPartyLeadership :: "party_env \<Rightarrow> party_id \<Rightarrow> player_id \<Rightarrow> party_world \<Rightarrow> bool \<times> party_world" where
  "passPartyLeadership env q p w =
     (case pw_parties w q of None \<Rightarrow> (False, w)
      | Some pt \<Rightarrow>
          if leader pt = p \<or> pw_party w p \<noteq> Some q then (False, w)
          else (True, put_party q (updateSharedExperience env
                 (pt\<lparr>leader := p, memberList := leader pt # remove1 p (memberList pt)\<rparr>)) w))"

definition leaveParty :: "party_env \<Rightarrow> party_id \<Rightarrow> player_id \<Rightarrow> party_world \<Rightarrow> bool \<times> party_world" where
  "leaveParty env q p w =
     (case pw_parties w q of None \<Rightarrow> (False, w)
      | Some pt \<Rightarrow>
          if pw_party w p \<noteq> Some q \<and> leader pt \<noteq> p then (False, w)
          else if \<not> pe_onLeave env q p then (False, w)
          else
            (let (missingLeader, w) =
                   (if leader pt = p then
                      if memberList pt \<noteq> [] then
                        if length (memberList pt) = 1 \<and> inviteList pt = [] then (True, w)
                        else (False, snd (passPartyLeadership env q (hd (memberList pt)) w))
                      else (True, w)
                    else (False, w));
                 pt = the (pw_parties w q);
                 pt = pt\<lparr>memberList := remove1 p (memberList pt)\<rparr>;
                 w = setParty None p w;
                 pt = clearPlayerPoints env p (updateSharedExperience env pt);
                 w = put_party q pt w
             in (True, if missingLeader \<or> party_empty pt then disband env q w else w)))"

definition joinParty :: "party_env \<Rightarrow> party_id \<Rightarrow> player_id \<Rightarrow> party_world \<Rightarrow> bool \<times> party_world" where
  "joinParty env q p w =
     (case pw_parties w q of None \<Rightarrow> (False, w)
      | Some pt \<Rightarrow>
          if \<not> pe_onJoin env q p then (False, w)
          else if p \<notin> set (inviteList pt) then (False, w)
          else
            (let pt = pt\<lparr>inviteList := remove1 p (inviteList pt), memberList := memberList pt @ [p]\<rparr>;
                 w = removePartyInvitation q p (setParty (Some q) p w)
             in (True, put_party q (updateSharedExperience env pt) w)))"

definition removeInvite :: "party_env \<Rightarrow> party_id \<Rightarrow> player_id \<Rightarrow> bool \<Rightarrow> party_world \<Rightarrow> bool \<times> party_world" where
  "removeInvite env q p removeFromPlayer w =
     (case pw_parties w q of None \<Rightarrow> (False, w)
      | Some pt \<Rightarrow>
          if p \<notin> set (inviteList pt) then (False, w)
          else
            (let pt = pt\<lparr>inviteList := remove1 p (inviteList pt)\<rparr>;
                 w = put_party q pt w;
                 w = (if removeFromPlayer then removePartyInvitation q p w else w)
             in (True, if party_empty pt then disband env q w else w)))"

definition revokeInvitation :: "party_env \<Rightarrow> party_id \<Rightarrow> player_id \<Rightarrow> party_world \<Rightarrow> party_world" where
  "revokeInvitation env q p w = snd (removeInvite env q p True w)"

definition invitePlayer :: "party_id \<Rightarrow> player_id \<Rightarrow> party_world \<Rightarrow> bool \<times> party_world" where
  "invitePlayer q p w =
     (case pw_parties w q of None \<Rightarrow> (False, w)
      | Some pt \<Rightarrow>
          if isPlayerInvited p pt then (False, w)
          else (True, addPartyInvitation q p (put_party q (pt\<lparr>inviteList := inviteList pt @ [p]\<rparr>) w)))"

section \<open>Operations of players and the game\<close>

definition isInviting :: "party_world \<Rightarrow> player_id \<Rightarrow> player_id \<Rightarrow> bool" where
  "isInviting w l p =
     (case pw_party w l of None \<Rightarrow> False
      | Some q \<Rightarrow> (case pw_parties w q of None \<Rightarrow> False
                   | Some pt \<Rightarrow> if leader pt \<noteq> l then False else isPlayerInvited p pt))"

definition isPartner :: "party_world \<Rightarrow> player_id \<Rightarrow> player_id \<Rightarrow> bool" where
  "isPartner w a b \<longleftrightarrow> pw_party w a \<noteq> None \<and> a \<noteq> b \<and> pw_party w a = pw_party w b"

definition clearPartyInvitations :: "party_env \<Rightarrow> player_id \<Rightarrow> party_world \<Rightarrow> party_world" where
  "clearPartyInvitations env p w =
     (let w = fold (\<lambda>q w. snd (removeInvite env q p False w)) (pw_invitations w p) w
      in w\<lparr>pw_invitations := (pw_invitations w)(p := [])\<rparr>)"

definition create_party :: "player_id \<Rightarrow> party_world \<Rightarrow> party_id \<times> party_world" where
  "create_party p w =
     (let q = pw_next w
      in (q, setParty (Some q) p (put_party q (new_party p) (w\<lparr>pw_next := Suc q\<rparr>))))"

definition party_leader :: "party_world \<Rightarrow> party_id \<Rightarrow> player_id option" where
  "party_leader w q = map_option leader (pw_parties w q)"

definition playerInviteToParty :: "player_id \<Rightarrow> player_id \<Rightarrow> party_world \<Rightarrow> party_world" where
  "playerInviteToParty p invited w =
     (if p = invited then w
      else if isInviting w invited p then w
      else if pw_party w invited \<noteq> None then w
      else
        (case pw_party w p of
           None \<Rightarrow> (let (q, w) = create_party p w in snd (invitePlayer q invited w))
         | Some q \<Rightarrow> if party_leader w q \<noteq> Some p then w else snd (invitePlayer q invited w)))"

definition playerJoinParty :: "party_env \<Rightarrow> player_id \<Rightarrow> player_id \<Rightarrow> party_world \<Rightarrow> party_world" where
  "playerJoinParty env p l w =
     (if \<not> isInviting w l p then w
      else
        (case pw_party w l of None \<Rightarrow> w
         | Some q \<Rightarrow>
             if party_leader w q \<noteq> Some l then w
             else if pw_party w p \<noteq> None then w
             else snd (joinParty env q p w)))"

definition playerRevokePartyInvitation :: "party_env \<Rightarrow> player_id \<Rightarrow> player_id \<Rightarrow> party_world \<Rightarrow> party_world" where
  "playerRevokePartyInvitation env p invited w =
     (case pw_party w p of None \<Rightarrow> w
      | Some q \<Rightarrow>
          if party_leader w q \<noteq> Some p then w
          else if \<not> isInviting w p invited then w
          else revokeInvitation env q invited w)"

definition playerPassPartyLeadership :: "party_env \<Rightarrow> player_id \<Rightarrow> player_id \<Rightarrow> party_world \<Rightarrow> party_world" where
  "playerPassPartyLeadership env p newLeader w =
     (case pw_party w p of None \<Rightarrow> w
      | Some q \<Rightarrow>
          if party_leader w q \<noteq> Some p then w
          else if \<not> isPartner w p newLeader then w
          else snd (passPartyLeadership env q newLeader w))"

text \<open>\<open>pe_blocked\<close>: in a fight and outside a protection zone.\<close>

definition playerLeaveParty :: "party_env \<Rightarrow> player_id \<Rightarrow> party_world \<Rightarrow> party_world" where
  "playerLeaveParty env p w =
     (case pw_party w p of None \<Rightarrow> w
      | Some q \<Rightarrow> if pe_blocked env p then w else snd (leaveParty env q p w))"

definition playerEnableSharedPartyExperience :: "party_env \<Rightarrow> player_id \<Rightarrow> bool \<Rightarrow> party_world \<Rightarrow> party_world" where
  "playerEnableSharedPartyExperience env p active w =
     (case pw_party w p of None \<Rightarrow> w
      | Some q \<Rightarrow>
          if pe_blocked env p then w
          else (case pw_parties w q of None \<Rightarrow> w
                | Some pt \<Rightarrow> put_party q (snd (setSharedExperience env p active pt)) w))"

text \<open>The party part of a player's removal from the game.\<close>

definition player_logout :: "party_env \<Rightarrow> player_id \<Rightarrow> party_world \<Rightarrow> party_world" where
  "player_logout env p w =
     (let w = clearPartyInvitations env p w
      in case pw_party w p of None \<Rightarrow> w | Some q \<Rightarrow> snd (leaveParty env q p w))"

section \<open>The two sides of the links\<close>

definition in_party :: "party_world \<Rightarrow> player_id \<Rightarrow> party_id \<Rightarrow> bool" where
  "in_party w x q = (case pw_parties w q of None \<Rightarrow> False | Some pt \<Rightarrow> x = leader pt \<or> x \<in> set (memberList pt))"

definition invited :: "party_world \<Rightarrow> player_id \<Rightarrow> party_id \<Rightarrow> bool" where
  "invited w x q = (case pw_parties w q of None \<Rightarrow> False | Some pt \<Rightarrow> x \<in> set (inviteList pt))"

definition party_ok :: "party \<Rightarrow> bool" where
  "party_ok pt \<longleftrightarrow> distinct (leader pt # memberList pt) \<and> distinct (inviteList pt)
     \<and> set (inviteList pt) \<inter> set (leader pt # memberList pt) = {}"

text \<open>The invariant; the invitations of the players in \<open>X\<close> are left open.\<close>

definition party_inv_but :: "player_id set \<Rightarrow> party_world \<Rightarrow> bool" where
  "party_inv_but X w \<longleftrightarrow>
     (\<forall>q pt. pw_parties w q = Some pt \<longrightarrow> party_ok pt \<and> q < pw_next w)
     \<and> (\<forall>x q. pw_party w x = Some q \<longleftrightarrow> in_party w x q)
     \<and> (\<forall>x q. x \<notin> X \<longrightarrow> (q \<in> set (pw_invitations w x) \<longleftrightarrow> invited w x q))
     \<and> (\<forall>x. distinct (pw_invitations w x))"

definition no_empty_party :: "party_world \<Rightarrow> bool" where
  "no_empty_party w \<longleftrightarrow> (\<forall>q pt. pw_parties w q = Some pt \<longrightarrow> \<not> party_empty pt)"

definition party_inv :: "party_world \<Rightarrow> bool" where
  "party_inv w \<longleftrightarrow> party_inv_but {} w \<and> no_empty_party w"

lemma shared_fields [simp]:
  "leader (updateSharedExperience env pt) = leader pt"
  "memberList (updateSharedExperience env pt) = memberList pt"
  "inviteList (updateSharedExperience env pt) = inviteList pt"
  "leader (clearPlayerPoints env p pt) = leader pt"
  "memberList (clearPlayerPoints env p pt) = memberList pt"
  "inviteList (clearPlayerPoints env p pt) = inviteList pt"
  "leader (snd (setSharedExperience env p b pt)) = leader pt"
  "memberList (snd (setSharedExperience env p b pt)) = memberList pt"
  "inviteList (snd (setSharedExperience env p b pt)) = inviteList pt"
  by (simp_all add: updateSharedExperience_def clearPlayerPoints_def setSharedExperience_def Let_def)

lemma world_fields [simp]:
  "pw_parties (setParty r p w) = pw_parties w" "pw_invitations (setParty r p w) = pw_invitations w"
  "pw_party (setParty r p w) = (pw_party w)(p := r)" "pw_next (setParty r p w) = pw_next w"
  "pw_parties (put_party q pt w) = (pw_parties w)(q \<mapsto> pt)"
  "pw_party (put_party q pt w) = pw_party w" "pw_invitations (put_party q pt w) = pw_invitations w"
  "pw_next (put_party q pt w) = pw_next w"
  "pw_parties (removePartyInvitation q p w) = pw_parties w"
  "pw_party (removePartyInvitation q p w) = pw_party w" "pw_next (removePartyInvitation q p w) = pw_next w"
  "pw_invitations (removePartyInvitation q p w) = (pw_invitations w)(p := removeAll q (pw_invitations w p))"
  "pw_parties (addPartyInvitation q p w) = pw_parties w"
  "pw_party (addPartyInvitation q p w) = pw_party w" "pw_next (addPartyInvitation q p w) = pw_next w"
  by (simp_all add: setParty_def put_party_def removePartyInvitation_def addPartyInvitation_def)

lemma links_put [simp]:
  "in_party (put_party q pt w) x r = (if r = q then x = leader pt \<or> x \<in> set (memberList pt) else in_party w x r)"
  "invited (put_party q pt w) x r = (if r = q then x \<in> set (inviteList pt) else invited w x r)"
  by (simp_all add: in_party_def invited_def)

lemma links_other [simp]:
  "in_party (setParty r p w) = in_party w" "invited (setParty r p w) = invited w"
  "in_party (removePartyInvitation q p w) = in_party w" "invited (removePartyInvitation q p w) = invited w"
  "in_party (addPartyInvitation q p w) = in_party w" "invited (addPartyInvitation q p w) = invited w"
  by (simp_all add: fun_eq_iff in_party_def invited_def)

lemma links_at:
  "pw_parties w q = Some pt \<Longrightarrow> in_party w x q = (x = leader pt \<or> x \<in> set (memberList pt))"
  "pw_parties w q = Some pt \<Longrightarrow> invited w x q = (x \<in> set (inviteList pt))"
  by (simp_all add: in_party_def invited_def)

lemma fold_removeInvitation:
  "pw_parties (fold (removePartyInvitation q) ps w) = pw_parties w"
  "pw_party (fold (removePartyInvitation q) ps w) = pw_party w"
  "pw_next (fold (removePartyInvitation q) ps w) = pw_next w"
  "pw_invitations (fold (removePartyInvitation q) ps w) x =
     (if x \<in> set ps then removeAll q (pw_invitations w x) else pw_invitations w x)"
  by (induction ps arbitrary: w) auto

lemma fold_setParty:
  "pw_parties (fold (setParty r) ps w) = pw_parties w"
  "pw_invitations (fold (setParty r) ps w) = pw_invitations w"
  "pw_next (fold (setParty r) ps w) = pw_next w"
  "pw_party (fold (setParty r) ps w) x = (if x \<in> set ps then r else pw_party w x)"
  by (induction ps arbitrary: w) auto

lemma disband_effect:
  assumes "pw_parties w q = Some pt" and "pe_onDisband env q"
  shows "pw_parties (disband env q w) = (pw_parties w)(q := None)"
    and "pw_next (disband env q w) = pw_next w"
    and "pw_party (disband env q w) x = (if in_party w x q then None else pw_party w x)"
    and "pw_invitations (disband env q w) x =
      (if invited w x q then removeAll q (pw_invitations w x) else pw_invitations w x)"
    and "in_party (disband env q w) x r = (r \<noteq> q \<and> in_party w x r)"
    and "invited (disband env q w) x r = (r \<noteq> q \<and> invited w x r)"
  using assms
  by (auto simp: disband_def Let_def fold_removeInvitation fold_setParty links_at)
    (auto simp: in_party_def invited_def fold_removeInvitation fold_setParty split: option.splits if_splits)

text \<open>Disbanding repairs whatever was open in the links to the party.\<close>

lemma disband_inv:
  assumes "pw_parties w q = Some pt" and "pe_onDisband env q"
    and "\<And>r pt. r \<noteq> q \<Longrightarrow> pw_parties w r = Some pt \<Longrightarrow> party_ok pt \<and> r < pw_next w"
    and "\<And>x r. r \<noteq> q \<Longrightarrow> pw_party w x = Some r \<longleftrightarrow> in_party w x r"
    and "\<And>x. pw_party w x = Some q \<Longrightarrow> in_party w x q"
    and "\<And>x r. in_party w x q \<Longrightarrow> pw_party w x = Some r \<Longrightarrow> r = q"
    and "\<And>x r. x \<notin> X \<Longrightarrow> r \<noteq> q \<Longrightarrow> r \<in> set (pw_invitations w x) \<longleftrightarrow> invited w x r"
    and "\<And>x. x \<notin> X \<Longrightarrow> q \<in> set (pw_invitations w x) \<Longrightarrow> invited w x q"
    and "\<And>x. distinct (pw_invitations w x)"
  shows "party_inv_but X (disband env q w)"
proof -
  note e = disband_effect [OF assms(1,2)]
  show ?thesis
    unfolding party_inv_but_def
  proof (intro conjI allI impI)
    fix r pt' assume "pw_parties (disband env q w) r = Some pt'"
    then have "r \<noteq> q" "pw_parties w r = Some pt'" by (auto simp: e split: if_splits)
    then show "party_ok pt'" "r < pw_next (disband env q w)" using assms(3) by (simp_all add: e)
  next
    fix x r
    show "(pw_party (disband env q w) x = Some r) = in_party (disband env q w) x r"
      using assms(4) [of r x] assms(5) [of x] assms(6) [of x r] by (auto simp: e)
  next
    fix x r assume "x \<notin> X"
    then show "(r \<in> set (pw_invitations (disband env q w) x)) = invited (disband env q w) x r"
      using assms(7) [of x r] assms(8) [of x] by (auto simp: e)
  next
    fix x show "distinct (pw_invitations (disband env q w) x)"
      using assms(9) by (simp add: e distinct_removeAll)
  qed
qed

lemma disband_no_empty:
  assumes "pw_parties w q = Some pt" and "pe_onDisband env q"
    and "\<And>r pt. r \<noteq> q \<Longrightarrow> pw_parties w r = Some pt \<Longrightarrow> \<not> party_empty pt"
  shows "no_empty_party (disband env q w)"
  using disband_effect(1) [OF assms(1,2)] assms(3) by (auto simp: no_empty_party_def split: if_splits)

text \<open>What the invariant gives for one party.\<close>

lemma party_inv_butD:
  assumes "party_inv_but X w"
  shows "pw_parties w q = Some pt \<Longrightarrow> party_ok pt" "pw_parties w q = Some pt \<Longrightarrow> q < pw_next w"
    and "pw_party w x = Some q \<longleftrightarrow> in_party w x q"
    and "x \<notin> X \<Longrightarrow> q \<in> set (pw_invitations w x) \<longleftrightarrow> invited w x q"
    and "distinct (pw_invitations w x)"
  using assms unfolding party_inv_but_def by blast+

lemma disband_keeps:
  assumes "party_inv_but X w" and "pw_parties w q = Some pt" and "pe_onDisband env q"
  shows "party_inv_but X (disband env q w)"
  by (rule disband_inv [OF assms(2,3)]) (metis party_inv_butD [OF assms(1)] option.inject)+

text \<open>A change of one party that stays alive.\<close>

lemma put_inv:
  assumes "party_inv_but X w" and "pw_parties w q = Some pt"
    and "party_ok pt'"
    and "pw_parties w' = (pw_parties w)(q \<mapsto> pt')" and "pw_next w' = pw_next w"
    and "\<And>x. x = leader pt' \<or> x \<in> set (memberList pt') \<Longrightarrow> pw_party w' x = Some q"
    and "\<And>x r. \<not> (x = leader pt' \<or> x \<in> set (memberList pt')) \<Longrightarrow>
       pw_party w' x = Some r \<longleftrightarrow> r \<noteq> q \<and> pw_party w x = Some r"
    and "\<And>x. x = leader pt' \<or> x \<in> set (memberList pt') \<Longrightarrow> pw_party w x = Some q \<or> pw_party w x = None"
    and "\<And>x r. x \<notin> X' \<Longrightarrow> r \<in> set (pw_invitations w' x)
       \<longleftrightarrow> (if r = q then x \<in> set (inviteList pt') else invited w x r)"
    and "\<And>x. distinct (pw_invitations w' x)"
  shows "party_inv_but X' w'"
  unfolding party_inv_but_def
proof (intro conjI allI impI)
  note d = party_inv_butD [OF assms(1)]
  fix r pt'' assume "pw_parties w' r = Some pt''"
  then show "party_ok pt''" "r < pw_next w'"
    using d(1,2) [of r] d(2) [OF assms(2)] assms(3,4,5) by (auto split: if_splits)
next
  note d = party_inv_butD [OF assms(1)]
  fix x r
  have i: "in_party w' x r = (if r = q then x = leader pt' \<or> x \<in> set (memberList pt') else in_party w x r)"
    by (simp add: in_party_def assms(4))
  show "(pw_party w' x = Some r) = in_party w' x r"
  proof (cases "x = leader pt' \<or> x \<in> set (memberList pt')")
    case True
    then show ?thesis using assms(6) [OF True] assms(8) [OF True] d(3) [of x r] by (auto simp: i)
  next
    case False
    then show ?thesis using assms(7) [OF False, of r] d(3) [of x r] by (auto simp: i)
  qed
next
  fix x r assume "x \<notin> X'"
  then show "(r \<in> set (pw_invitations w' x)) = invited w' x r"
    using assms(9) [of x r] by (auto simp: invited_def assms(4))
next
  fix x show "distinct (pw_invitations w' x)" by (rule assms(10))
qed

lemma removeInvite_keeps:
  assumes w: "party_inv_but X w" and env: "\<And>q. pe_onDisband env q"
    and X: "if b then X' = X else X' = insert p X"
  shows "party_inv_but X' (snd (removeInvite env q p b w))"
proof (cases "pw_parties w q")
  case None
  then show ?thesis using w X by (auto simp: removeInvite_def party_inv_but_def split: if_splits)
next
  case (Some pt)
  note d = party_inv_butD [OF w]
  show ?thesis
  proof (cases "p \<in> set (inviteList pt)")
    case False
    then show ?thesis using w X Some by (auto simp: removeInvite_def party_inv_but_def split: if_splits)
  next
    case True
    let ?pt = "pt\<lparr>inviteList := remove1 p (inviteList pt)\<rparr>"
    let ?w = "(if b then removePartyInvitation q p (put_party q ?pt w) else put_party q ?pt w)"
    have ok: "party_ok pt" using d(1) Some .
    have "party_inv_but X' ?w"
    proof (rule put_inv [OF w Some, where pt' = ?pt])
      show "party_ok ?pt" using ok by (auto simp: party_ok_def distinct_remove1)
      fix x r
      show "x \<notin> X' \<Longrightarrow> (r \<in> set (pw_invitations ?w x)) = (if r = q then x \<in> set (inviteList ?pt) else invited w x r)"
        using d(4) [of x r] ok X links_at(2) [OF Some, of x] by (auto simp: party_ok_def split: if_splits)
      show "distinct (pw_invitations ?w x)" using d(5) [of x] by (auto simp: distinct_removeAll)
      show "x = leader ?pt \<or> x \<in> set (memberList ?pt) \<Longrightarrow> pw_party ?w x = Some q"
        using d(3) [of x q] links_at(1) [OF Some, of x] by auto
      then show "x = leader ?pt \<or> x \<in> set (memberList ?pt) \<Longrightarrow> pw_party w x = Some q \<or> pw_party w x = None"
        by (auto split: if_splits)
      show "\<not> (x = leader ?pt \<or> x \<in> set (memberList ?pt)) \<Longrightarrow>
        (pw_party ?w x = Some r) = (r \<noteq> q \<and> pw_party w x = Some r)"
        using d(3) [of x q] links_at(1) [OF Some, of x] by auto
    qed auto
    then show ?thesis using Some True env disband_keeps [of X' ?w q ?pt env]
      by (auto simp: removeInvite_def Let_def split: if_splits)
  qed
qed

lemma put_no_empty:
  "no_empty_party w \<Longrightarrow> \<not> party_empty pt \<Longrightarrow> pw_parties w' = (pw_parties w)(q \<mapsto> pt) \<Longrightarrow> no_empty_party w'"
  by (auto simp: no_empty_party_def split: if_splits)

lemma put_then_disband:
  assumes "no_empty_party w" and "pe_onDisband env q" and "pw_parties w' = (pw_parties w)(q \<mapsto> pt)"
  shows "no_empty_party (disband env q w')"
  by (rule disband_no_empty [where pt = pt])
    (use assms in \<open>auto simp: no_empty_party_def split: if_splits\<close>)

lemma removeInvite_no_empty:
  assumes "no_empty_party w" and "\<And>q. pe_onDisband env q"
  shows "no_empty_party (snd (removeInvite env q p b w))"
  using assms put_then_disband [OF assms(1,2)] put_no_empty [OF assms(1)]
  by (auto simp: removeInvite_def Let_def split: option.splits)

lemma removeInvite_uninvites:
  assumes w: "party_inv_but X w" and env: "\<And>q. pe_onDisband env q"
    and i: "invited (snd (removeInvite env q p b w)) p r"
  shows "invited w p r \<and> r \<noteq> q"
proof (cases "pw_parties w q")
  case None
  then show ?thesis using i by (auto simp: removeInvite_def invited_def)
next
  case (Some pt)
  let ?pt = "pt\<lparr>inviteList := remove1 p (inviteList pt)\<rparr>"
  let ?w = "(if b then removePartyInvitation q p (put_party q ?pt w) else put_party q ?pt w)"
  have q: "pw_parties ?w q = Some ?pt" by simp
  have "distinct (inviteList pt)" using party_inv_butD(1) [OF w Some] by (simp add: party_ok_def)
  then show ?thesis
    using i Some env disband_effect(6) [OF q, of env p r]
    by (auto simp: removeInvite_def Let_def links_at(2) [OF Some] split: if_splits)
qed

lemma clear_fold:
  assumes "party_inv_but {p} w" and "no_empty_party w" and "\<And>q. pe_onDisband env q"
    and "\<And>r. invited w p r \<Longrightarrow> r \<in> set qs"
  shows "party_inv_but {p} (fold (\<lambda>q w. snd (removeInvite env q p False w)) qs w)
    \<and> no_empty_party (fold (\<lambda>q w. snd (removeInvite env q p False w)) qs w)
    \<and> (\<forall>r. \<not> invited (fold (\<lambda>q w. snd (removeInvite env q p False w)) qs w) p r)"
  using assms
proof (induction qs arbitrary: w)
  case Nil
  then show ?case by auto
next
  case (Cons q qs)
  let ?w = "snd (removeInvite env q p False w)"
  have "party_inv_but {p} ?w"
    by (rule removeInvite_keeps [OF Cons.prems(1,3)]) simp
  moreover have "no_empty_party ?w" by (rule removeInvite_no_empty [OF Cons.prems(2,3)])
  moreover have "r \<in> set qs" if "invited ?w p r" for r
    using removeInvite_uninvites [OF Cons.prems(1,3) that] Cons.prems(4) by fastforce
  ultimately show ?case using Cons.IH [of ?w] Cons.prems(3) by simp
qed

lemma party_inv_but_weaken: "party_inv_but X w \<Longrightarrow> X \<subseteq> Y \<Longrightarrow> party_inv_but Y w"
  unfolding party_inv_but_def by blast

lemma clearPartyInvitations_keeps:
  assumes w: "party_inv w" and env: "\<And>q. pe_onDisband env q"
  shows "party_inv (clearPartyInvitations env p w)"
    and "pw_invitations (clearPartyInvitations env p w) p = []"
proof -
  let ?f = "fold (\<lambda>q w. snd (removeInvite env q p False w)) (pw_invitations w p) w"
  have i: "party_inv_but {} w" "no_empty_party w" using w by (simp_all add: party_inv_def)
  have f: "party_inv_but {p} ?f \<and> no_empty_party ?f \<and> (\<forall>r. \<not> invited ?f p r)"
    by (rule clear_fold) (use party_inv_butD(4) [OF i(1)] i env party_inv_but_weaken [OF i(1), of "{p}"] in auto)
  let ?w = "?f\<lparr>pw_invitations := (pw_invitations ?f)(p := [])\<rparr>"
  have l: "in_party ?w = in_party ?f" "invited ?w = invited ?f"
    by (simp_all add: fun_eq_iff in_party_def invited_def)
  have "party_inv_but {} ?w"
    using f by (auto simp: party_inv_but_def l)
  then show "party_inv (clearPartyInvitations env p w)"
    using f by (simp add: party_inv_def clearPartyInvitations_def Let_def no_empty_party_def)
  show "pw_invitations (clearPartyInvitations env p w) p = []"
    by (simp add: clearPartyInvitations_def Let_def)
qed

lemma party_invI: "party_inv_but {} w \<Longrightarrow> no_empty_party w \<Longrightarrow> party_inv w"
  by (simp add: party_inv_def)

lemma party_invD:
  assumes "party_inv w"
  shows "party_inv_but {} w" and "no_empty_party w"
  using assms by (simp_all add: party_inv_def)

lemma member_at:
  assumes "party_inv w" and "pw_parties w q = Some pt"
  shows "pw_party w x = Some q \<longleftrightarrow> x = leader pt \<or> x \<in> set (memberList pt)"
    and "q \<in> set (pw_invitations w x) \<longleftrightarrow> x \<in> set (inviteList pt)"
    and "party_ok pt" and "\<not> party_empty pt" and "distinct (pw_invitations w x)"
  using party_inv_butD [OF party_invD(1) [OF assms(1)]] party_invD(2) [OF assms(1)]
    links_at [OF assms(2), of x] assms(2)
  by (auto simp: no_empty_party_def)

lemma joinParty_keeps:
  assumes w: "party_inv w" and p: "pw_party w p = None"
  shows "party_inv (snd (joinParty env q p w))"
proof (cases "pw_parties w q")
  case None
  then show ?thesis using w by (simp add: joinParty_def)
next
  case (Some pt)
  note m = member_at [OF w Some] and d = party_inv_butD [OF party_invD(1) [OF w]]
  show ?thesis
  proof (cases "pe_onJoin env q p \<and> p \<in> set (inviteList pt)")
    case False
    then show ?thesis using w Some by (auto simp: joinParty_def)
  next
    case True
    let ?pt = "updateSharedExperience env (pt\<lparr>inviteList := remove1 p (inviteList pt), memberList := memberList pt @ [p]\<rparr>)"
    let ?w = "put_party q ?pt (removePartyInvitation q p (setParty (Some q) p w))"
    have "party_inv_but {} ?w"
    proof (rule put_inv [OF party_invD(1) [OF w] Some, where pt' = ?pt])
      show "party_ok ?pt" using m(3) True by (auto simp: party_ok_def distinct_remove1)
      fix x r
      show "distinct (pw_invitations ?w x)" using m(5) [of x] by (auto simp: distinct_removeAll)
      show "(r \<in> set (pw_invitations ?w x)) = (if r = q then x \<in> set (inviteList ?pt) else invited w x r)"
        using d(4) [of x r] m(2) [of x] m(3) by (auto simp: party_ok_def)
      show "x = leader ?pt \<or> x \<in> set (memberList ?pt) \<Longrightarrow> pw_party ?w x = Some q"
        using m(1) [of x] by auto
      show "x = leader ?pt \<or> x \<in> set (memberList ?pt) \<Longrightarrow> pw_party w x = Some q \<or> pw_party w x = None"
        using m(1) [of x] p by auto
      show "\<not> (x = leader ?pt \<or> x \<in> set (memberList ?pt)) \<Longrightarrow>
        (pw_party ?w x = Some r) = (r \<noteq> q \<and> pw_party w x = Some r)"
        using m(1) [of x] by auto
    qed auto
    moreover have "no_empty_party ?w"
      by (rule put_no_empty [OF party_invD(2) [OF w], where pt = ?pt]) (auto simp: party_empty_def)
    ultimately show ?thesis using Some True by (simp add: joinParty_def Let_def party_invI)
  qed
qed

lemma invitePlayer_keeps_but:
  assumes w: "party_inv_but {} w" and q: "pw_parties w q = Some pt" and p: "\<not> in_party w p q"
  shows "party_inv_but {} (snd (invitePlayer q p w))"
proof (cases "p \<in> set (inviteList pt)")
  case True
  then show ?thesis using w q by (simp add: invitePlayer_def isPlayerInvited_def)
next
  case False
  note d = party_inv_butD [OF w]
  let ?pt = "pt\<lparr>inviteList := inviteList pt @ [p]\<rparr>"
  let ?w = "addPartyInvitation q p (put_party q ?pt w)"
  have "party_inv_but {} ?w"
  proof (rule put_inv [OF w q, where pt' = ?pt])
    show "party_ok ?pt"
      using d(1) [OF q] False p by (auto simp: party_ok_def links_at(1) [OF q])
    fix x r
    show "distinct (pw_invitations ?w x)" using d(5) [of x] by (auto simp: addPartyInvitation_def)
    show "(r \<in> set (pw_invitations ?w x)) = (if r = q then x \<in> set (inviteList ?pt) else invited w x r)"
      using d(4) [of x r] by (auto simp: addPartyInvitation_def links_at(2) [OF q])
    show "x = leader ?pt \<or> x \<in> set (memberList ?pt) \<Longrightarrow> pw_party ?w x = Some q"
      using d(3) [of x q] links_at(1) [OF q, of x] by auto
    then show "x = leader ?pt \<or> x \<in> set (memberList ?pt) \<Longrightarrow> pw_party w x = Some q \<or> pw_party w x = None"
      by auto
    show "\<not> (x = leader ?pt \<or> x \<in> set (memberList ?pt)) \<Longrightarrow>
      (pw_party ?w x = Some r) = (r \<noteq> q \<and> pw_party w x = Some r)"
      using d(3) [of x q] links_at(1) [OF q, of x] by auto
  qed auto
  then show ?thesis using q False by (simp add: invitePlayer_def isPlayerInvited_def)
qed

lemma passPartyLeadership_keeps:
  assumes w: "party_inv w"
  shows "party_inv (snd (passPartyLeadership env q p w))"
proof (cases "\<exists>pt. pw_parties w q = Some pt \<and> leader pt \<noteq> p \<and> pw_party w p = Some q")
  case False
  then show ?thesis using w by (auto simp: passPartyLeadership_def split: option.splits)
next
  case True
  then obtain pt where q: "pw_parties w q = Some pt" "leader pt \<noteq> p" "pw_party w p = Some q" by blast
  note m = member_at [OF w q(1)] and d = party_inv_butD [OF party_invD(1) [OF w]]
  let ?pt = "updateSharedExperience env (pt\<lparr>leader := p, memberList := leader pt # remove1 p (memberList pt)\<rparr>)"
  let ?w = "put_party q ?pt w"
  have p: "p \<in> set (memberList pt)" using m(1) [of p] q(2,3) by simp
  have k: "x = leader ?pt \<or> x \<in> set (memberList ?pt) \<longleftrightarrow> pw_party w x = Some q" for x
    using m(1) [of x] m(3) p by (auto simp: party_ok_def)
  have "party_inv_but {} ?w"
  proof (rule put_inv [OF party_invD(1) [OF w] q(1), where pt' = ?pt])
    show "party_ok ?pt" using m(3) p by (auto simp: party_ok_def distinct_remove1)
    fix x r
    show "distinct (pw_invitations ?w x)" using m(5) [of x] by simp
    show "(r \<in> set (pw_invitations ?w x)) = (if r = q then x \<in> set (inviteList ?pt) else invited w x r)"
      using d(4) [of x r] m(2) [of x] by auto
    show "x = leader ?pt \<or> x \<in> set (memberList ?pt) \<Longrightarrow> pw_party ?w x = Some q" using k by simp
    show "x = leader ?pt \<or> x \<in> set (memberList ?pt) \<Longrightarrow> pw_party w x = Some q \<or> pw_party w x = None" using k by simp
    show "\<not> (x = leader ?pt \<or> x \<in> set (memberList ?pt)) \<Longrightarrow>
      (pw_party ?w x = Some r) = (r \<noteq> q \<and> pw_party w x = Some r)" using k by auto
  qed auto
  moreover have "no_empty_party ?w"
    by (rule put_no_empty [OF party_invD(2) [OF w], where pt = ?pt]) (auto simp: party_empty_def)
  ultimately show ?thesis using q by (simp add: passPartyLeadership_def party_invI)
qed

text \<open>A member that is not the leader leaves.\<close>

definition without_member :: "party_env \<Rightarrow> player_id \<Rightarrow> party \<Rightarrow> party" where
  "without_member env p pt =
     clearPlayerPoints env p (updateSharedExperience env (pt\<lparr>memberList := remove1 p (memberList pt)\<rparr>))"

lemma without_member_fields [simp]:
  "leader (without_member env p pt) = leader pt"
  "memberList (without_member env p pt) = remove1 p (memberList pt)"
  "inviteList (without_member env p pt) = inviteList pt"
  by (simp_all add: without_member_def)

lemma leave_member_keeps:
  assumes w: "party_inv w" and q: "pw_parties w q = Some pt" and p: "p \<in> set (memberList pt)"
    and env: "\<And>q. pe_onDisband env q" and w': "w' = put_party q (without_member env p pt) (setParty None p w)"
  shows "party_inv (if party_empty (without_member env p pt) then disband env q w' else w')"
proof -
  note m = member_at [OF w q] and d = party_inv_butD [OF party_invD(1) [OF w]]
  let ?pt = "without_member env p pt"
  have k: "x = leader ?pt \<or> x \<in> set (memberList ?pt) \<longleftrightarrow> pw_party w x = Some q \<and> x \<noteq> p" for x
    using m(1) [of x] m(3) p by (auto simp: party_ok_def)
  have pp: "pw_party w p = Some q" using m(1) p by simp
  have i: "party_inv_but {} w'"
  proof (rule put_inv [OF party_invD(1) [OF w] q, where pt' = ?pt])
    show "party_ok ?pt" using m(3) by (auto simp: party_ok_def distinct_remove1)
    fix x r
    show "distinct (pw_invitations w' x)" using m(5) [of x] by (simp add: w')
    show "(r \<in> set (pw_invitations w' x)) = (if r = q then x \<in> set (inviteList ?pt) else invited w x r)"
      using d(4) [of x r] m(2) [of x] by (auto simp: w')
    show "x = leader ?pt \<or> x \<in> set (memberList ?pt) \<Longrightarrow> pw_party w' x = Some q" using k by (simp add: w')
    show "x = leader ?pt \<or> x \<in> set (memberList ?pt) \<Longrightarrow> pw_party w x = Some q \<or> pw_party w x = None" using k by simp
    show "(pw_party w' x = Some r) = (r \<noteq> q \<and> pw_party w x = Some r)"
      if "\<not> (x = leader ?pt \<or> x \<in> set (memberList ?pt))"
    proof -
      have "\<not> (pw_party w x = Some q \<and> x \<noteq> p)" using that unfolding k .
      then show ?thesis using pp by (cases "x = p") (auto simp: w')
    qed
  qed (simp_all add: w')
  have e: "pw_parties w' = (pw_parties w)(q \<mapsto> ?pt)" by (simp add: w')
  show ?thesis
  proof (cases "party_empty ?pt")
    case True
    have "party_inv (disband env q w')"
      by (rule party_invI [OF disband_keeps [OF i _ env, of q ?pt] put_then_disband [OF party_invD(2) [OF w] env e]])
        (simp add: e)
    then show ?thesis using True by simp
  next
    case False
    then show ?thesis using party_invI [OF i put_no_empty [OF party_invD(2) [OF w] False e]] by simp
  qed
qed

text \<open>The last leader leaves: the party is disbanded.\<close>

lemma leave_last_keeps:
  assumes w: "party_inv w" and q: "pw_parties w q = Some pt" and p: "leader pt = p"
    and env: "\<And>q. pe_onDisband env q" and w': "w' = put_party q (without_member env p pt) (setParty None p w)"
  shows "party_inv (disband env q w')"
proof -
  note m = member_at [OF w q] and d = party_inv_butD [OF party_invD(1) [OF w]]
  let ?pt = "without_member env p pt"
  have pp: "pw_party w p = Some q" using m(1) p by simp
  have e: "pw_parties w' = (pw_parties w)(q \<mapsto> ?pt)" "pw_parties w' q = Some ?pt" by (simp_all add: w')
  have r1: "remove1 p (memberList pt) = memberList pt"
    using m(3) p by (intro remove1_idem) (auto simp: party_ok_def)
  have i: "in_party w' x r = in_party w x r" "invited w' x r = invited w x r" for x r
    by (auto simp: w' links_at [OF q] r1)
  have "party_inv_but {} (disband env q w')"
  proof (rule disband_inv [OF e(2) env])
    fix x r
    show "distinct (pw_invitations w' x)" using d(5) [of x] by (simp add: w')
    show "r \<noteq> q \<Longrightarrow> (pw_party w' x = Some r) = in_party w' x r"
      using d(3) [of x r] pp by (auto simp: w')
    show "pw_party w' x = Some q \<Longrightarrow> in_party w' x q" using d(3) [of x q] by (auto simp: i, simp_all add: w' split: if_splits)
    show "in_party w' x q \<Longrightarrow> pw_party w' x = Some r \<Longrightarrow> r = q"
      using d(3) [of x q] by (auto simp: i, simp_all add: w' split: if_splits)
    show "r \<noteq> q \<Longrightarrow> (r \<in> set (pw_invitations w' x)) = invited w' x r"
      "q \<in> set (pw_invitations w' x) \<Longrightarrow> invited w' x q"
      using d(4) [of x] by (simp_all add: i, simp_all add: w')
    fix pt' show "r \<noteq> q \<Longrightarrow> pw_parties w' r = Some pt' \<Longrightarrow> party_ok pt' \<and> r < pw_next w'"
      using d(1,2) [of r] by (simp add: w')
  qed
  then show ?thesis using put_then_disband [OF party_invD(2) [OF w] env e(1)] by (rule party_invI)
qed

lemma leaveParty_steps:
  assumes "pw_parties w q = Some pt" and "leader pt \<noteq> p \<Longrightarrow> pw_party w p = Some q" and "pe_onLeave env q p"
    and "w1 = (if leader pt = p \<and> memberList pt \<noteq> [] \<and> \<not> (length (memberList pt) = 1 \<and> inviteList pt = [])
      then snd (passPartyLeadership env q (hd (memberList pt)) w) else w)"
    and "pt1 = the (pw_parties w1 q)"
    and "w2 = put_party q (without_member env p pt1) (setParty None p w1)"
  shows "leaveParty env q p w = (True,
    if (leader pt = p \<and> (memberList pt = [] \<or> (length (memberList pt) = 1 \<and> inviteList pt = [])))
      \<or> party_empty (without_member env p pt1) then disband env q w2 else w2)"
proof -
  have "\<not> (pw_party w p \<noteq> Some q \<and> leader pt \<noteq> p)" using assms(2) by blast
  then show ?thesis
    unfolding leaveParty_def assms(1) Let_def without_member_def [symmetric] assms(6) assms(5) assms(4)
    by (cases "leader pt = p"; cases "memberList pt = []"; cases "length (memberList pt) = 1 \<and> inviteList pt = []")
      (simp_all only: assms(3) option.case prod.case if_True if_False simp_thms fst_conv snd_conv option.sel
        prod.inject assms(1) split_def)
qed

lemma leaveParty_keeps:
  assumes w: "party_inv w" and p: "pw_party w p = Some q" and env: "\<And>q. pe_onDisband env q"
  shows "party_inv (snd (leaveParty env q p w))"
proof (cases "pw_parties w q")
  case None
  then show ?thesis using w by (simp add: leaveParty_def)
next
  case (Some pt)
  note m = member_at [OF w Some]
  show ?thesis
  proof (cases "pe_onLeave env q p")
    case False
    then show ?thesis using w Some by (simp add: leaveParty_def p)
  next
    case on: True
    consider (member) "leader pt \<noteq> p"
      | (last) "leader pt = p" "memberList pt = [] \<or> (length (memberList pt) = 1 \<and> inviteList pt = [])"
      | (pass) "leader pt = p" "memberList pt \<noteq> []" "\<not> (length (memberList pt) = 1 \<and> inviteList pt = [])"
      by blast
    then show ?thesis
    proof cases
      case member
      then have "p \<in> set (memberList pt)" using m(1) [of p] p by simp
      from leave_member_keeps [OF w Some this env refl] show ?thesis
        using Some on member by (simp add: leaveParty_def p Let_def without_member_def [symmetric] split: if_splits)
    next
      case last
      from leave_last_keeps [OF w Some last(1) env refl] show ?thesis
        using Some on last by (auto simp: leaveParty_def p Let_def without_member_def [symmetric])
    next
      case pass
      let ?n = "hd (memberList pt)"
      let ?w = "snd (passPartyLeadership env q ?n w)"
      have n: "?n \<in> set (memberList pt)" using pass by simp
      then have "?n \<noteq> p" "pw_party w ?n = Some q" using m(1) [of ?n] m(3) pass(1) by (auto simp: party_ok_def)
      then have e: "?w = put_party q (updateSharedExperience env
          (pt\<lparr>leader := ?n, memberList := p # remove1 ?n (memberList pt)\<rparr>)) w"
        using Some pass(1) by (simp add: passPartyLeadership_def)
      define w1 where "w1 = ?w"
      define pt1 where "pt1 = the (pw_parties w1 q)"
      have w1: "party_inv w1" unfolding w1_def by (rule passPartyLeadership_keeps [OF w])
      have pt1: "pw_parties w1 q = Some pt1" "p \<in> set (memberList pt1)"
        unfolding pt1_def w1_def e by simp_all
      define w2 where "w2 = put_party q (without_member env p pt1) (setParty None p w1)"
      have "w1 = (if leader pt = p \<and> memberList pt \<noteq> [] \<and> \<not> (length (memberList pt) = 1 \<and> inviteList pt = [])
        then ?w else w)"
        using pass w1_def by simp
      note st = leaveParty_steps [OF Some p on this pt1_def w2_def]
      have "\<not> (leader pt = p \<and> (memberList pt = [] \<or> length (memberList pt) = 1 \<and> inviteList pt = []))"
        using pass by blast
      then have "snd (leaveParty env q p w) = (if party_empty (without_member env p pt1) then disband env q w2 else w2)"
        unfolding st snd_conv by (simp only: simp_thms)
      then show ?thesis using leave_member_keeps [OF w1 pt1 env w2_def] by (simp only:)
    qed
  qed
qed

lemma invitePlayer_no_empty:
  assumes "\<And>r pt. r \<noteq> q \<Longrightarrow> pw_parties w r = Some pt \<Longrightarrow> \<not> party_empty pt" and "pw_parties w q \<noteq> None"
  shows "no_empty_party (snd (invitePlayer q p w))"
  using assms
  by (auto simp: invitePlayer_def no_empty_party_def party_empty_def isPlayerInvited_def split: if_splits)
    (metis empty_iff empty_set option.inject)

lemma create_party_keeps:
  assumes w: "party_inv w" and p: "pw_party w p = None" and c: "create_party p w = (q, w')"
  shows "party_inv_but {} w'" and "pw_parties w' = (pw_parties w)(q \<mapsto> new_party p)"
    and "pw_party w' = (pw_party w)(p \<mapsto> q)"
proof -
  note d = party_inv_butD [OF party_invD(1) [OF w]]
  have q: "q = pw_next w" using c by (simp add: create_party_def Let_def)
  show e: "pw_parties w' = (pw_parties w)(q \<mapsto> new_party p)" "pw_party w' = (pw_party w)(p \<mapsto> q)"
    using c by (auto simp: create_party_def Let_def)
  have n: "pw_next w' = Suc q" "pw_invitations w' = pw_invitations w"
    using c by (auto simp: create_party_def Let_def setParty_def put_party_def)
  have fresh: "pw_parties w q = None" using d(2) [of q] q by (cases "pw_parties w q") auto
  have l: "in_party w' x r = (if r = q then x = p else in_party w x r)"
    "invited w' x r = invited w x r" for x r
    using fresh by (auto simp: in_party_def invited_def e new_party_def)
  have f: "\<not> in_party w x q" "\<not> in_party w p r" for x r
    using fresh p d(3) [of p r] by (auto simp: in_party_def)
  show "party_inv_but {} w'"
    unfolding party_inv_but_def
  proof (intro conjI allI impI)
    fix r pt assume "pw_parties w' r = Some pt"
    then show "party_ok pt" "r < pw_next w'"
      using d(1,2) [of r pt] q by (auto simp: e n new_party_def party_ok_def split: if_splits)
  next
    fix x r
    show "(pw_party w' x = Some r) = in_party w' x r"
      using d(3) [of x r] f(1) [of x] f(2) [of r] by (cases "x = p") (auto simp: l e)
  next
    fix x r show "(r \<in> set (pw_invitations w' x)) = invited w' x r" using d(4) [of x r] by (simp add: n l)
  next
    fix x show "distinct (pw_invitations w' x)" using d(5) by (simp add: n)
  qed
qed

lemma playerInviteToParty_keeps:
  assumes w: "party_inv w"
  shows "party_inv (playerInviteToParty p i w)"
proof (cases "p = i \<or> isInviting w i p \<or> pw_party w i \<noteq> None")
  case True
  then show ?thesis using w by (auto simp: playerInviteToParty_def)
next
  case False
  then have i: "p \<noteq> i" "\<not> isInviting w i p" "pw_party w i = None" by auto
  note d = party_inv_butD [OF party_invD(1) [OF w]]
  show ?thesis
  proof (cases "pw_party w p")
    case None
    obtain q w' where c: "create_party p w = (q, w')" by (cases "create_party p w")
    note k = create_party_keeps [OF w None c]
    have "\<not> in_party w' i q" using i by (simp add: in_party_def k(2) new_party_def)
    then have "party_inv_but {} (snd (invitePlayer q i w'))"
      by (intro invitePlayer_keeps_but [OF k(1), where pt = "new_party p"]) (simp_all add: k(2))
    moreover have "no_empty_party (snd (invitePlayer q i w'))"
      using party_invD(2) [OF w] by (intro invitePlayer_no_empty) (auto simp: k(2) no_empty_party_def)
    ultimately show ?thesis using None i c by (simp add: playerInviteToParty_def party_invI)
  next
    case (Some q)
    then obtain pt where q: "pw_parties w q = Some pt"
      using d(3) [of p q] by (auto simp: in_party_def split: option.splits)
    have "\<not> in_party w i q" using d(3) [of i q] i by simp
    from invitePlayer_keeps_but [OF party_invD(1) [OF w] q this]
    have "party_inv (snd (invitePlayer q i w))"
      using party_invD(2) [OF w] q by (intro party_invI invitePlayer_no_empty) (auto simp: no_empty_party_def)
    then show ?thesis using Some i w by (simp add: playerInviteToParty_def)
  qed
qed

lemma same_links_keep:
  assumes w: "party_inv w" and q: "pw_parties w q = Some pt"
    and "leader pt' = leader pt" "memberList pt' = memberList pt" "inviteList pt' = inviteList pt"
  shows "party_inv (put_party q pt' w)"
proof -
  note d = party_inv_butD [OF party_invD(1) [OF w]]
  have l: "in_party (put_party q pt' w) = in_party w" "invited (put_party q pt' w) = invited w"
    using assms(3-5) by (auto simp: fun_eq_iff links_at [OF q])
  have ok: "party_ok pt'" "\<not> party_empty pt'"
    using member_at(3,4) [OF w q] assms(3-5) by (simp_all add: party_ok_def party_empty_def)
  have "party_inv_but {} (put_party q pt' w)"
    unfolding party_inv_but_def l using d(1-2) d(2) [OF q] ok by (auto simp: d(3-5) split: if_splits)
  then show ?thesis using put_no_empty [OF party_invD(2) [OF w] ok(2), of "put_party q pt' w" q] by (simp add: party_invI)
qed

text \<open>The steps of the game: every call of a client, the gain of experience and a logout.\<close>

inductive party_step :: "party_world \<Rightarrow> party_world \<Rightarrow> bool" where
  invite: "party_step w (playerInviteToParty p i w)"
| join: "\<forall>q. pe_onDisband env q \<Longrightarrow> party_step w (playerJoinParty env p l w)"
| revoke: "\<forall>q. pe_onDisband env q \<Longrightarrow> party_step w (playerRevokePartyInvitation env p i w)"
| pass: "\<forall>q. pe_onDisband env q \<Longrightarrow> party_step w (playerPassPartyLeadership env p n w)"
| leave: "\<forall>q. pe_onDisband env q \<Longrightarrow> party_step w (playerLeaveParty env p w)"
| share: "\<forall>q. pe_onDisband env q \<Longrightarrow> party_step w (playerEnableSharedPartyExperience env p b w)"
| ticks: "pw_parties w q = Some pt \<Longrightarrow> party_step w (put_party q (updatePlayerTicks env p n pt) w)"
| logout: "\<forall>q. pe_onDisband env q \<Longrightarrow> party_step w (player_logout env p w)"

inductive party_reach :: "party_world \<Rightarrow> bool" where
  start: "party_reach \<lparr>pw_parties = Map.empty, pw_party = (\<lambda>x. None), pw_invitations = (\<lambda>x. []), pw_next = 0\<rparr>"
| step: "party_reach w \<Longrightarrow> party_step w w' \<Longrightarrow> party_reach w'"

lemma player_logout_keeps:
  assumes "party_inv w" and "\<And>q. pe_onDisband env q"
  shows "party_inv (player_logout env p w)"
  using clearPartyInvitations_keeps(1) [OF assms, of p] leaveParty_keeps [OF _ _ assms(2), of "clearPartyInvitations env p w" p]
  by (simp add: player_logout_def Let_def split: option.split)

lemma party_step_inv: "party_step w w' \<Longrightarrow> party_inv w \<Longrightarrow> party_inv w'"
proof (induction rule: party_step.induct)
  case (invite w p i)
  then show ?case by (rule playerInviteToParty_keeps)
next
  case (join env w p l)
  then show ?case
    using joinParty_keeps [of w p env] by (auto simp: playerJoinParty_def split: option.splits)
next
  case (revoke env w p i)
  have "party_inv (revokeInvitation env q i w)" for q
    unfolding revokeInvitation_def
    using revoke removeInvite_keeps [OF party_invD(1) [OF revoke(2)], of env True "{}"]
      removeInvite_no_empty [OF party_invD(2) [OF revoke(2)], of env] by (auto intro: party_invI)
  then show ?case using revoke by (auto simp: playerRevokePartyInvitation_def split: option.splits)
next
  case (pass env w p n)
  then show ?case
    using passPartyLeadership_keeps [of w env] by (auto simp: playerPassPartyLeadership_def split: option.splits)
next
  case (leave env w p)
  then show ?case
    using leaveParty_keeps [of w p _ env] by (auto simp: playerLeaveParty_def split: option.splits)
next
  case (share env w p b)
  then show ?case
    by (auto simp: playerEnableSharedPartyExperience_def split: option.splits intro!: same_links_keep)
next
  case (ticks w q pt env p n)
  then show ?case by (intro same_links_keep [of w q pt]) (simp_all add: updatePlayerTicks_def)
next
  case (logout env w p)
  then show ?case by (intro player_logout_keeps) auto
qed

lemma party_reach_inv: "party_reach w \<Longrightarrow> party_inv w"
proof (induction rule: party_reach.induct)
  case start
  show ?case by (simp add: party_inv_def party_inv_but_def no_empty_party_def in_party_def invited_def)
next
  case (step w w')
  then show ?case using party_step_inv by blast
qed

lemma pass_invitations: "pw_invitations (snd (passPartyLeadership env q p w)) = pw_invitations w"
  by (simp add: passPartyLeadership_def split: option.split)

lemma leaveParty_forgets:
  assumes w: "party_inv w" and q: "pw_parties w q = Some pt" and p: "pw_party w p = Some q"
    and on: "pe_onLeave env q p" and env: "\<And>q. pe_onDisband env q" and i: "pw_invitations w p = []"
  shows "pw_party (snd (leaveParty env q p w)) p = None \<and> pw_invitations (snd (leaveParty env q p w)) p = []"
proof -
  define w1 where "w1 = (if leader pt = p \<and> memberList pt \<noteq> [] \<and> \<not> (length (memberList pt) = 1 \<and> inviteList pt = [])
      then snd (passPartyLeadership env q (hd (memberList pt)) w) else w)"
  define pt1 where "pt1 = the (pw_parties w1 q)"
  define w2 where "w2 = put_party q (without_member env p pt1) (setParty None p w1)"
  have 2: "pw_party w2 p = None" "pw_invitations w2 p = []" "pw_parties w2 q \<noteq> None"
    using i by (simp_all add: w2_def w1_def pass_invitations)
  then obtain pt2 where "pw_parties w2 q = Some pt2" by blast
  from disband_effect(3,4) [OF this env] have "pw_party (disband env q w2) p = None" "pw_invitations (disband env q w2) p = []"
    using 2 by simp_all
  then show ?thesis
    unfolding leaveParty_steps [OF q p on w1_def pt1_def w2_def] snd_conv using 2 by (auto split: if_splits)
qed

section \<open>Properties\<close>

text \<open>
  C16. In every reachable world the two sides of the links agree: a player points to a party
  exactly when that party has it as its leader or a member, a player holds an invitation exactly
  when the party lists it, no party holds a player twice, and no party is left empty. In these worlds
  the script event \<^verbatim>\<open>onDisband\<close> agrees, as the one in
  \<^verbatim>\<open>src/data/events/scripts/party.lua\<close> always does; the events of joining and leaving may
  refuse.
\<close>

theorem party_links_consistent:
  assumes "party_reach w"
  shows "(pw_party w x = Some q \<longleftrightarrow> (\<exists>pt. pw_parties w q = Some pt \<and> x \<in> set (leader pt # memberList pt)))
    \<and> (q \<in> set (pw_invitations w x) \<longleftrightarrow> (\<exists>pt. pw_parties w q = Some pt \<and> x \<in> set (inviteList pt)))
    \<and> (\<forall>pt. pw_parties w q = Some pt \<longrightarrow> distinct (leader pt # memberList pt @ inviteList pt) \<and> \<not> party_empty pt)"
proof -
  have w: "party_inv w" by (rule party_reach_inv [OF assms])
  note d = party_inv_butD [OF party_invD(1) [OF w]]
  show ?thesis
  proof (cases "pw_parties w q")
    case None
    then show ?thesis using d(3) [of x q] d(4) [of x q] by (simp add: in_party_def invited_def)
  next
    case (Some pt)
    then show ?thesis using member_at(1,2) [OF w Some, of x] member_at(3,4) [OF w Some] by (auto simp: party_ok_def)
  qed
qed

text \<open>
  When a player leaves the game and the script event allows it to leave its party, nothing
  refers to it afterwards: it has no party, no party has it, and no party invites it.
\<close>

theorem logout_forgets_player:
  assumes "party_reach w" and "\<forall>q. pe_onDisband env q" and "\<forall>q. pe_onLeave env q p"
  shows "pw_party (player_logout env p w) p = None
    \<and> (\<forall>q pt. pw_parties (player_logout env p w) q = Some pt \<longrightarrow> p \<notin> set (leader pt # memberList pt @ inviteList pt))"
proof -
  let ?c = "clearPartyInvitations env p w"
  have d: "\<And>q. pe_onDisband env q" using assms(2) by simp
  have w: "party_inv w" by (rule party_reach_inv [OF assms(1)])
  note c = clearPartyInvitations_keeps [OF w d, where p = p]
  have r: "party_inv (player_logout env p w)" by (rule player_logout_keeps [OF w d])
  have n: "pw_party (player_logout env p w) p = None \<and> pw_invitations (player_logout env p w) p = []"
  proof (cases "pw_party ?c p")
    case None
    then show ?thesis using c(2) by (simp add: player_logout_def Let_def)
  next
    case (Some q)
    then obtain pt where q: "pw_parties ?c q = Some pt"
      using party_inv_butD(3) [OF party_invD(1) [OF c(1)], of p q] by (auto simp: in_party_def split: option.splits)
    have "pw_party (snd (leaveParty env q p ?c)) p = None \<and> pw_invitations (snd (leaveParty env q p ?c)) p = []"
      using leaveParty_forgets [OF c(1) q Some _ d] c(2) assms(3) by simp
    then show ?thesis using Some by (simp add: player_logout_def Let_def)
  qed
  show ?thesis
    using n member_at(1,2) [OF r, of _ _ p] by auto
qed

text \<open>
  C30. When the leader leaves a party that stays alive, the first member becomes the leader, the
  other members and the invitations stay, and the old leader has no party.
\<close>

theorem leader_leaves_first_member_leads:
  assumes "party_reach w" and "pw_parties w q = Some pt" and "memberList pt = m # ms"
    and "ms \<noteq> [] \<or> inviteList pt \<noteq> []" and "pe_onLeave env q (leader pt)"
  shows "\<exists>pt'. pw_parties (snd (leaveParty env q (leader pt) w)) q = Some pt'
    \<and> leader pt' = m \<and> memberList pt' = ms \<and> inviteList pt' = inviteList pt
    \<and> pw_party (snd (leaveParty env q (leader pt) w)) (leader pt) = None"
proof -
  have w: "party_inv w" by (rule party_reach_inv [OF assms(1)])
  note m = member_at [OF w assms(2)]
  let ?pt1 = "updateSharedExperience env (pt\<lparr>leader := m, memberList := leader pt # ms\<rparr>)"
  have ne: "m \<noteq> leader pt" "pw_party w m = Some q" using m(1) [of m] m(3) assms(3) by (auto simp: party_ok_def)
  have p: "passPartyLeadership env q m w = (True, put_party q ?pt1 w)"
    using ne assms(2,3) by (simp add: passPartyLeadership_def)
  let ?w2 = "put_party q (without_member env (leader pt) ?pt1) (setParty None (leader pt) (put_party q ?pt1 w))"
  have w1: "put_party q ?pt1 w = (if leader pt = leader pt \<and> memberList pt \<noteq> []
      \<and> \<not> (length (memberList pt) = 1 \<and> inviteList pt = [])
      then snd (passPartyLeadership env q (hd (memberList pt)) w) else w)"
    using p assms(3,4) by auto
  have pt1: "?pt1 = the (pw_parties (put_party q ?pt1 w) q)" by simp
  have no: "\<not> ((leader pt = leader pt \<and> (memberList pt = [] \<or> length (memberList pt) = 1 \<and> inviteList pt = []))
      \<or> party_empty (without_member env (leader pt) ?pt1))"
    using assms(3,4) by (auto simp: party_empty_def)
  have "snd (leaveParty env q (leader pt) w) = ?w2"
    using no by (subst leaveParty_steps [OF assms(2) _ assms(5) w1 pt1 refl]) (blast, simp only: snd_conv if_False)
  then show ?thesis by simp
qed

lemma foldl_highest:
  "foldl (\<lambda>h m. if f m > h then f m else h) (a :: nat) xs = Max (insert a (f ` set xs))"
proof (induction xs arbitrary: a)
  case (Cons x xs)
  show ?case by (cases "xs = []") (simp_all add: Cons max_def)
qed simp

text \<open>
  Shared experience may be enabled exactly when the party has members and its leader and each
  of its members have at least two thirds of the highest level of the party, stand near the
  leader, and fought or healed a short time ago.
\<close>

theorem shared_experience_condition:
  "canEnableSharedExperience env pt \<longleftrightarrow> memberList pt \<noteq> []
    \<and> (\<forall>x \<in> set (leader pt # memberList pt). \<forall>y \<in> set (leader pt # memberList pt).
         2 * pe_level env y \<le> 3 * pe_level env x)
    \<and> (\<forall>x \<in> set (leader pt # memberList pt).
         areInRange3 30 30 1 (pe_pos env (leader pt)) (pe_pos env x)
         \<and> (pe_notGainInFight env x \<or> (\<exists>t. ticksMap pt x = Some t \<and> pe_now env - t \<le> pe_pzLocked env)))"
proof -
  have h: "highestLevel env pt = Max (pe_level env ` set (leader pt # memberList pt))"
    by (simp add: highestLevel_def foldl_highest)
  have m: "\<not> l < minSharedLevel n \<longleftrightarrow> 2 * n \<le> 3 * l" for l n
    unfolding minSharedLevel_def by (simp add: not_less) presburger
  have l: "\<not> l < minSharedLevel (highestLevel env pt)
      \<longleftrightarrow> (\<forall>y \<in> set (leader pt # memberList pt). 2 * pe_level env y \<le> 3 * l)" for l
  proof
    assume "\<not> l < minSharedLevel (highestLevel env pt)"
    then have b: "2 * highestLevel env pt \<le> 3 * l" by (simp only: m)
    show "\<forall>y \<in> set (leader pt # memberList pt). 2 * pe_level env y \<le> 3 * l"
    proof
      fix y assume "y \<in> set (leader pt # memberList pt)"
      then have "pe_level env y \<le> highestLevel env pt" unfolding h by (intro Max_ge) auto
      then show "2 * pe_level env y \<le> 3 * l" using b by linarith
    qed
  next
    assume a: "\<forall>y \<in> set (leader pt # memberList pt). 2 * pe_level env y \<le> 3 * l"
    have "highestLevel env pt \<in> pe_level env ` set (leader pt # memberList pt)"
      unfolding h by (intro Max_in) auto
    then show "\<not> l < minSharedLevel (highestLevel env pt)" using a unfolding m by (metis imageE)
  qed
  have u: "canUseSharedExperience env pt x \<longleftrightarrow> memberList pt \<noteq> []
      \<and> (\<forall>y \<in> set (leader pt # memberList pt). 2 * pe_level env y \<le> 3 * pe_level env x)
      \<and> areInRange3 30 30 1 (pe_pos env (leader pt)) (pe_pos env x)
      \<and> (pe_notGainInFight env x \<or> (\<exists>t. ticksMap pt x = Some t \<and> pe_now env - t \<le> pe_pzLocked env))" for x
    unfolding l [symmetric] by (auto simp: canUseSharedExperience_def not_less split: option.splits)
  show ?thesis
    unfolding canEnableSharedExperience_def list_all_iff u by auto
qed

text \<open>
  When the script event of leaving the party refuses, a player that is removed from the game
  stays in its party: the party keeps a reference to a player that is gone.
\<close>

theorem vetoed_logout_keeps_member:
  assumes "party_reach w" and "\<forall>q. pe_onDisband env q" and "pw_party w p = Some q"
    and "\<forall>q. \<not> pe_onLeave env q p"
    and "\<forall>q. \<not> invited w p q"
  shows "\<exists>pt. pw_parties (player_logout env p w) q = Some pt \<and> p \<in> set (leader pt # memberList pt)"
proof -
  have w: "party_inv w" by (rule party_reach_inv [OF assms(1)])
  have "pw_invitations w p = []"
    using party_inv_butD(4) [OF party_invD(1) [OF w], of p] assms(5) by (cases "pw_invitations w p") force+
  then have c: "clearPartyInvitations env p w = w"
    by (simp add: clearPartyInvitations_def Let_def fun_upd_idem)
  obtain pt where q: "pw_parties w q = Some pt"
    using party_inv_butD(3) [OF party_invD(1) [OF w], of p q] assms(3) by (auto simp: in_party_def split: option.splits)
  have "player_logout env p w = w"
    using q assms(3,4) by (simp add: player_logout_def c leaveParty_def)
  then show ?thesis using q member_at(1) [OF w q, of p] assms(3) by auto
qed

definition quiet_env :: party_env where
  "quiet_env = \<lparr>pe_onJoin = (\<lambda>q p. True), pe_onLeave = (\<lambda>q p. True), pe_onDisband = (\<lambda>q. True),
     pe_level = (\<lambda>p. 10), pe_pos = (\<lambda>p. Position 100 100 7),
     pe_notGainInFight = (\<lambda>p. False), pe_now = 1000, pe_pzLocked = 60, pe_blocked = (\<lambda>p. False)\<rparr>"

definition no_world :: party_world where
  "no_world = \<lparr>pw_parties = Map.empty, pw_party = (\<lambda>x. None), pw_invitations = (\<lambda>x. []), pw_next = 0\<rparr>"

text \<open>A party of three: player 1 leads, 2 and 3 joined.\<close>

definition three_world :: party_world where
  "three_world = playerJoinParty quiet_env 3 1 (playerInviteToParty 1 3
     (playerJoinParty quiet_env 2 1 (playerInviteToParty 1 2 no_world)))"

lemma three_world_reach: "party_reach three_world"
proof -
  have d: "\<forall>q. pe_onDisband quiet_env q" by (simp add: quiet_env_def)
  show ?thesis
    unfolding three_world_def
    by (intro party_reach.step [OF _ party_step.join [OF d]] party_reach.step [OF _ party_step.invite])
      (use party_reach.start in \<open>simp add: no_world_def\<close>)
qed

lemma three_world_is:
  "three_world = \<lparr>pw_parties = [0 \<mapsto> \<lparr>leader = 1, memberList = [2, 3], inviteList = [], ticksMap = Map.empty,
       sharedExpActive = False, sharedExpEnabled = False\<rparr>],
     pw_party = (\<lambda>x. None)(1 := Some 0, 2 := Some 0, 3 := Some 0),
     pw_invitations = (\<lambda>x. [])(2 := [], 3 := []), pw_next = 1\<rparr>"
  by (simp add: three_world_def no_world_def playerInviteToParty_def playerJoinParty_def isInviting_def
      create_party_def invitePlayer_def joinParty_def party_leader_def isPlayerInvited_def Let_def
      setParty_def put_party_def new_party_def addPartyInvitation_def removePartyInvitation_def
      updateSharedExperience_def quiet_env_def fun_upd_twist)

lemma party_links_consistent_witness:
  "pw_party three_world 2 = Some 0 \<and> (\<exists>pt. pw_parties three_world 0 = Some pt \<and> 2 \<in> set (leader pt # memberList pt))"
  using party_links_consistent [OF three_world_reach, of 2 0] by (simp add: three_world_is)

lemma logout_forgets_player_witness: "pw_party (player_logout quiet_env 1 three_world) 1 = None"
  using logout_forgets_player [OF three_world_reach, of quiet_env 1] by (simp add: quiet_env_def)

lemma leader_leaves_first_member_leads_witness:
  "\<exists>pt'. pw_parties (snd (leaveParty quiet_env 0 1 three_world)) 0 = Some pt' \<and> leader pt' = 2 \<and> memberList pt' = [3]"
  using leader_leaves_first_member_leads [OF three_world_reach, of 0 _ 2 "[3]" quiet_env]
  by (auto simp: three_world_is quiet_env_def)

lemma vetoed_logout_keeps_member_witness:
  "\<exists>pt. pw_parties (player_logout (quiet_env\<lparr>pe_onLeave := \<lambda>q p. False\<rparr>) 2 three_world) 0 = Some pt \<and> 2 \<in> set (leader pt # memberList pt)"
  using vetoed_logout_keeps_member [OF three_world_reach, of "quiet_env\<lparr>pe_onLeave := \<lambda>q p. False\<rparr>" 2 0]
  by (simp add: quiet_env_def invited_def three_world_is)

lemma shared_experience_condition_witness:
  "\<not> canEnableSharedExperience quiet_env (new_party 1)"
  using shared_experience_condition [of quiet_env "new_party 1"] by (simp add: new_party_def)

end
