(* ===== verification/Map_Sight.thy ===== *)
theory Map_Sight
  imports Position
begin

text \<open>
  Lines of sight and throws: \<^verbatim>\<open>checkSightLine\<close>, \<^verbatim>\<open>isSightClear\<close> and
  \<^verbatim>\<open>canThrowObjectTo\<close> of \<^verbatim>\<open>src/src/map.cpp\<close>. What the functions ask of a
  tile is a record: whether a tile exists there and blocks projectiles, and how many things lie
  on it. The loop over the line is an optional value, so that its end is a theorem. The
  \<^verbatim>\<open>int32_t\<close> coefficients are integers; they are exact for positions that are at
  most 16383 apart on each axis.
\<close>

record sight_map =
  sm_blockProjectile :: "position \<Rightarrow> bool"
  sm_thingCount :: "position \<Rightarrow> nat"

definition maxClientViewportX :: int where "maxClientViewportX = 14"
definition maxClientViewportY :: int where "maxClientViewportY = 8"

section \<open>The line\<close>

definition dir_sign :: "u16 \<Rightarrow> u16 \<Rightarrow> int" where
  "dir_sign a b = (if a < b then 1 else if a = b then 0 else -1)"

text \<open>
  One step of the line from (\<open>x\<close>, \<open>y\<close>) toward (\<open>dx\<close>, \<open>dy\<close>); the line is
  \<open>A x + B y + C = 0\<close>.
\<close>

definition sight_step :: "int \<Rightarrow> int \<Rightarrow> int \<Rightarrow> int \<Rightarrow> int \<Rightarrow> u16 \<Rightarrow> u16 \<Rightarrow> u16 \<Rightarrow> u16 \<Rightarrow> u16 \<times> u16" where
  "sight_step A B C mx my dx dy x y =
     (let move_hor = \<bar>A * (uint x + mx) + B * uint y + C\<bar>;
          move_ver = \<bar>A * uint x + B * (uint y + my) + C\<bar>;
          move_cross = \<bar>A * (uint x + mx) + B * (uint y + my) + C\<bar>;
          y' = (if y \<noteq> dy \<and> (x = dx \<or> move_hor > move_ver \<or> move_hor > move_cross)
                then y + of_int my else y);
          x' = (if x \<noteq> dx \<and> (y' = dy \<or> move_ver > move_hor \<or> move_ver > move_cross)
                then x + of_int mx else x)
      in (x', y'))"

partial_function (option) sight_loop ::
  "sight_map \<Rightarrow> int \<Rightarrow> int \<Rightarrow> int \<Rightarrow> int \<Rightarrow> int \<Rightarrow> position \<Rightarrow> position \<Rightarrow> (bool \<times> position) option" where
  "sight_loop m A B C mx my destination start =
     (if pos_x start = pos_x destination \<and> pos_y start = pos_y destination then Some (True, start)
      else
        (let (x, y) = sight_step A B C mx my (pos_x destination) (pos_y destination) (pos_x start) (pos_y start);
             start = Position x y (pos_z start)
         in if sm_blockProjectile m start then Some (False, start)
            else sight_loop m A B C mx my destination start))"

text \<open>The jump between floors.\<close>

partial_function (option) floor_loop :: "sight_map \<Rightarrow> byte \<Rightarrow> position \<Rightarrow> bool option" where
  "floor_loop m z start =
     (if pos_z start = z then Some True
      else if sm_thingCount m start > 0 then Some False
      else floor_loop m z (Position (pos_x start) (pos_y start) (pos_z start + 1)))"

definition checkSightLine :: "sight_map \<Rightarrow> position \<Rightarrow> position \<Rightarrow> bool option" where
  "checkSightLine m fromPos toPos =
     (if fromPos = toPos then Some True
      else
        (let start = (if pos_z fromPos > pos_z toPos then toPos else fromPos);
             destination = (if pos_z fromPos > pos_z toPos then fromPos else toPos);
             mx = dir_sign (pos_x start) (pos_x destination);
             my = dir_sign (pos_y start) (pos_y destination);
             A = getOffsetY destination start;
             B = getOffsetX start destination;
             C = - (A * uint (pos_x destination) + B * uint (pos_y destination))
         in case sight_loop m A B C mx my destination start of
              None \<Rightarrow> None
            | Some (False, _) \<Rightarrow> Some False
            | Some (True, start) \<Rightarrow> floor_loop m (pos_z destination) start))"

definition isSightClear :: "sight_map \<Rightarrow> position \<Rightarrow> position \<Rightarrow> bool \<Rightarrow> bool option" where
  "isSightClear m fromPos toPos floorCheck =
     (if floorCheck \<and> pos_z fromPos \<noteq> pos_z toPos then Some False
      else
        (case checkSightLine m fromPos toPos of
           None \<Rightarrow> None
         | Some True \<Rightarrow> Some True
         | Some False \<Rightarrow> checkSightLine m toPos fromPos))"

definition canThrowObjectTo :: "sight_map \<Rightarrow> position \<Rightarrow> position \<Rightarrow> bool \<Rightarrow> int \<Rightarrow> int \<Rightarrow> bool option" where
  "canThrowObjectTo m fromPos toPos checkLineOfSight rangex rangey =
     (if (pos_z fromPos \<ge> 8 \<and> pos_z toPos < 8) \<or> (pos_z toPos \<ge> 8 \<and> pos_z fromPos < 8) then Some False
      else if getDistanceZ fromPos toPos > 2 then Some False
      else if getDistanceX fromPos toPos - getDistanceZ fromPos toPos > rangex then Some False
      else if getDistanceY fromPos toPos - getDistanceZ fromPos toPos > rangey then Some False
      else if \<not> checkLineOfSight then Some True
      else isSightClear m fromPos toPos False)"

section \<open>Progress along the line\<close>

text \<open>
  On the signed values of the line: with both axes left to go, one of the two moves is taken.
\<close>

lemma line_moves:
  fixes l a b :: int
  assumes "0 < a" and "0 < b"
  shows "\<bar>l + b\<bar> > \<bar>l - a\<bar> \<or> \<bar>l + b\<bar> > \<bar>l + b - a\<bar> \<or> \<bar>l - a\<bar> > \<bar>l + b\<bar> \<or> \<bar>l - a\<bar> > \<bar>l + b - a\<bar>"
  using assms by arith

lemma uint_neq_iff: "(x :: 'a::len word) \<noteq> y \<longleftrightarrow> uint x < uint y \<or> uint y < uint x"
  by (auto simp: word_less_def [symmetric])

text \<open>Where the line is: between its ends, with the directions it started with.\<close>

definition on_way :: "u16 \<Rightarrow> u16 \<Rightarrow> int \<Rightarrow> bool" where
  "on_way x d m \<longleftrightarrow> (m = 1 \<or> m = 0 \<or> m = -1) \<and> (if x = d then True else m = dir_sign x d)"

lemma on_way_start: "on_way x d (dir_sign x d)"
  by (simp add: on_way_def dir_sign_def)

definition gap :: "u16 \<Rightarrow> u16 \<Rightarrow> nat" where "gap x d = nat \<bar>uint d - uint x\<bar>"

lemma gap_0 [simp]: "gap x d = 0 \<longleftrightarrow> x = d"
  by (auto simp: gap_def word_uint_eq_iff)

lemma on_way_step:
  assumes "on_way x d m" and "x \<noteq> d"
  shows "on_way (x + of_int m) d m" and "gap x d = Suc (gap (x + of_int m) d)"
    and "uint (x + of_int m) = uint x + m"
proof -
  consider "uint x < uint d" "m = 1" | "uint d < uint x" "m = -1"
    using assms by (auto simp: on_way_def dir_sign_def word_less_def uint_neq_iff split: if_splits)
  then have u: "uint (x + of_int m) = uint x + m \<and> \<bar>uint d - (uint x + m)\<bar> = \<bar>uint d - uint x\<bar> - 1
      \<and> (uint x + m < uint d \<longrightarrow> m = 1) \<and> (uint d < uint x + m \<longrightarrow> m = -1) \<and> (m = 1 \<or> m = -1)"
  proof cases
    case 1
    then have "uint (x + of_int m) = uint x + m"
      by (intro uint_add_in_range) (use uint_bounded [of d] uint_ge_0 [of x] in linarith)+
    then show ?thesis using 1 by arith
  next
    case 2
    then have "uint (x + of_int m) = uint x + m"
      by (intro uint_add_in_range) (use uint_bounded [of x] uint_ge_0 [of d] in linarith)+
    then show ?thesis using 2 by arith
  qed
  then show "uint (x + of_int m) = uint x + m" by simp
  from u show "on_way (x + of_int m) d m"
    by (auto simp: on_way_def dir_sign_def word_less_def uint_neq_iff)
  show "gap x d = Suc (gap (x + of_int m) d)"
    using u assms(2) by (auto simp: gap_def uint_neq_iff Suc_nat_eq_nat_zadd1)
qed

text \<open>The step moves at least one axis, and each axis only toward the end.\<close>

definition toward :: "u16 \<Rightarrow> u16 \<Rightarrow> u16 \<Rightarrow> int \<Rightarrow> bool" where
  "toward x x' d m \<longleftrightarrow> x' = x \<or> (x \<noteq> d \<and> x' = x + of_int m)"

lemma toward_step:
  assumes "on_way x d m" and "toward x x' d m"
  shows "on_way x' d m" and "gap x' d \<le> gap x d" and "x' \<noteq> x \<Longrightarrow> gap x' d < gap x d"
    and "\<bar>uint x' - uint x\<bar> \<le> 1"
  using assms on_way_step [of x d m] by (auto simp: toward_def on_way_def)

definition line_at :: "position \<Rightarrow> position \<Rightarrow> (int \<Rightarrow> int \<Rightarrow> int \<Rightarrow> int \<Rightarrow> int \<Rightarrow> 'r) \<Rightarrow> 'r" where
  "line_at s e f =
     f (getOffsetY e s) (getOffsetX s e)
       (- (getOffsetY e s * uint (pos_x e) + getOffsetX s e * uint (pos_y e)))
       (dir_sign (pos_x s) (pos_x e)) (dir_sign (pos_y s) (pos_y e))"

lemma sight_step_toward:
  assumes w: "on_way x (pos_x e) (dir_sign (pos_x s) (pos_x e))" "on_way y (pos_y e) (dir_sign (pos_y s) (pos_y e))"
    and ne: "x \<noteq> pos_x e \<or> y \<noteq> pos_y e"
    and st: "line_at s e sight_step (pos_x e) (pos_y e) x y = (x', y')"
  shows "toward x x' (pos_x e) (dir_sign (pos_x s) (pos_x e))"
    and "toward y y' (pos_y e) (dir_sign (pos_y s) (pos_y e))" and "x' \<noteq> x \<or> y' \<noteq> y"
proof -
  let ?mx = "dir_sign (pos_x s) (pos_x e)" and ?my = "dir_sign (pos_y s) (pos_y e)"
  let ?A = "getOffsetY e s" and ?B = "getOffsetX s e"
  let ?C = "- (?A * uint (pos_x e) + ?B * uint (pos_y e))"
  let ?hor = "\<bar>?A * (uint x + ?mx) + ?B * uint y + ?C\<bar>"
  let ?ver = "\<bar>?A * uint x + ?B * (uint y + ?my) + ?C\<bar>"
  let ?cross = "\<bar>?A * (uint x + ?mx) + ?B * (uint y + ?my) + ?C\<bar>"
  have y': "y' = (if y \<noteq> pos_y e \<and> (x = pos_x e \<or> ?hor > ?ver \<or> ?hor > ?cross) then y + of_int ?my else y)"
    and x': "x' = (if x \<noteq> pos_x e \<and> (y' = pos_y e \<or> ?ver > ?hor \<or> ?ver > ?cross) then x + of_int ?mx else x)"
    using st unfolding line_at_def sight_step_def Let_def by (auto simp only: prod.inject)
  show "toward x x' (pos_x e) ?mx" unfolding toward_def x' by simp
  show "toward y y' (pos_y e) ?my" unfolding toward_def y' by simp
  have mx: "x \<noteq> pos_x e \<Longrightarrow> x + of_int ?mx \<noteq> x" and my: "y \<noteq> pos_y e \<Longrightarrow> y + of_int ?my \<noteq> y"
    using on_way_step(2) [OF w(1)] on_way_step(2) [OF w(2)] by (metis n_not_Suc_n)+
  show "x' \<noteq> x \<or> y' \<noteq> y"
  proof (cases "x = pos_x e \<or> y = pos_y e")
    case True
    then show ?thesis using ne mx my unfolding x' y' by auto
  next
    case False
    define t where "t = ?mx * ?my"
    have sx: "?mx = 1 \<or> ?mx = -1" "?B = - (\<bar>?B\<bar> * ?mx)" "\<bar>?B\<bar> > 0"
      using False w(1) by (auto simp: on_way_def dir_sign_def offset_defs word_less_def uint_neq_iff split: if_splits)
    have sy: "?my = 1 \<or> ?my = -1" "?A = \<bar>?A\<bar> * ?my" "\<bar>?A\<bar> > 0"
      using False w(2) by (auto simp: on_way_def dir_sign_def offset_defs word_less_def uint_neq_iff split: if_splits)
    have t: "t = 1 \<or> t = -1" "?A * ?mx = t * \<bar>?A\<bar>" "?B * ?my = - (t * \<bar>?B\<bar>)"
      using sx sy unfolding t_def by (auto simp: algebra_simps)
    let ?L = "?A * uint x + ?B * uint y + ?C"
    have e: "?hor = \<bar>t * ?L + \<bar>?A\<bar>\<bar>" "?ver = \<bar>t * ?L - \<bar>?B\<bar>\<bar>" "?cross = \<bar>t * ?L + \<bar>?A\<bar> - \<bar>?B\<bar>\<bar>"
      using t by (auto simp: algebra_simps)
    have "?hor > ?ver \<or> ?hor > ?cross \<or> ?ver > ?hor \<or> ?ver > ?cross"
      unfolding e by (rule line_moves [OF sx(3) sy(3)])
    then show ?thesis using False mx my unfolding x' y' by auto
  qed
qed

section \<open>The walk of the line\<close>

text \<open>A walk of king moves on one floor that never goes away from its end.\<close>

primrec sight_walk :: "position \<Rightarrow> position list \<Rightarrow> position \<Rightarrow> bool" where
  "sight_walk p [] q \<longleftrightarrow> p = q"
| "sight_walk p (r # rs) q \<longleftrightarrow> r \<noteq> p \<and> pos_z r = pos_z p \<and> getDistanceX r p \<le> 1 \<and> getDistanceY r p \<le> 1
     \<and> getDistanceX r q \<le> getDistanceX p q \<and> getDistanceY r q \<le> getDistanceY p q \<and> sight_walk r rs q"

definition flat_end :: "position \<Rightarrow> position \<Rightarrow> position" where
  "flat_end p e = Position (pos_x e) (pos_y e) (pos_z p)"

lemma gap_distance:
  "getDistanceX p (flat_end r e) = int (gap (pos_x p) (pos_x e))"
  "getDistanceY p (flat_end r e) = int (gap (pos_y p) (pos_y e))"
  by (simp_all add: offset_defs gap_def flat_end_def abs_minus_commute)

lemma sight_loop_walk:
  assumes "on_way (pos_x p) (pos_x e) (dir_sign (pos_x s) (pos_x e))"
    and "on_way (pos_y p) (pos_y e) (dir_sign (pos_y s) (pos_y e))"
  shows "\<exists>ps. sight_walk p ps (flat_end p e)
    \<and> (\<forall>m. \<exists>r. line_at s e (sight_loop m) e p = Some (list_all (\<lambda>r. \<not> sm_blockProjectile m r) ps, r)
         \<and> (list_all (\<lambda>r. \<not> sm_blockProjectile m r) ps \<longrightarrow> r = flat_end p e))"
  using assms
proof (induction "gap (pos_x p) (pos_x e) + gap (pos_y p) (pos_y e)" arbitrary: p rule: less_induct)
  case less
  let ?mx = "dir_sign (pos_x s) (pos_x e)" and ?my = "dir_sign (pos_y s) (pos_y e)"
  show ?case
  proof (cases "pos_x p = pos_x e \<and> pos_y p = pos_y e")
    case True
    then have "flat_end p e = p" by (cases p) (simp add: flat_end_def)
    with True show ?thesis
      by (intro exI [of _ "[]"]) (simp add: line_at_def sight_loop.simps)
  next
    case False
    obtain x y where st: "line_at s e sight_step (pos_x e) (pos_y e) (pos_x p) (pos_y p) = (x, y)"
      by (cases "line_at s e sight_step (pos_x e) (pos_y e) (pos_x p) (pos_y p)")
    from False have "pos_x p \<noteq> pos_x e \<or> pos_y p \<noteq> pos_y e" by simp
    note tw = sight_step_toward [OF less.prems this st]
    note kx = toward_step [OF less.prems(1) tw(1)] and ky = toward_step [OF less.prems(2) tw(2)]
    let ?r = "Position x y (pos_z p)"
    have "gap (pos_x ?r) (pos_x e) + gap (pos_y ?r) (pos_y e) < gap (pos_x p) (pos_x e) + gap (pos_y p) (pos_y e)"
      using tw(3) kx(2,3) ky(2,3) by (auto simp: less_le_not_le)
    from less.hyps [OF this] kx(1) ky(1) obtain ps where
      ps: "sight_walk ?r ps (flat_end p e)"
      and lp: "\<And>m. \<exists>r. line_at s e (sight_loop m) e ?r = Some (list_all (\<lambda>r. \<not> sm_blockProjectile m r) ps, r)
         \<and> (list_all (\<lambda>r. \<not> sm_blockProjectile m r) ps \<longrightarrow> r = flat_end p e)"
      by (auto simp: flat_end_def)
    have "sight_walk p (?r # ps) (flat_end p e)"
      using ps tw(3) kx(2,4) ky(2,4) by (cases p) (auto simp: gap_distance, simp_all add: offset_defs)
    moreover have "\<exists>r. line_at s e (sight_loop m) e p = Some (list_all (\<lambda>r. \<not> sm_blockProjectile m r) (?r # ps), r)
         \<and> (list_all (\<lambda>r. \<not> sm_blockProjectile m r) (?r # ps) \<longrightarrow> r = flat_end p e)" for m
    proof -
      have "line_at s e (sight_loop m) e p =
          (if sm_blockProjectile m ?r then Some (False, ?r) else line_at s e (sight_loop m) e ?r)"
        using False st by (subst line_at_def, subst sight_loop.simps) (auto simp: line_at_def)
      then show ?thesis using lp [of m] by auto
    qed
    ultimately show ?thesis by blast
  qed
qed

lemma floor_loop_total:
  assumes "pos_z p \<le> z"
  shows "\<exists>b. floor_loop m z p = Some b"
  using assms
proof (induction "unat z - unat (pos_z p)" arbitrary: p rule: less_induct)
  case less
  show ?case
  proof (cases "pos_z p = z \<or> sm_thingCount m p > 0")
    case True
    then show ?thesis by (subst floor_loop.simps) auto
  next
    case False
    then have z: "pos_z p < z" using less.prems by (simp add: order.order_iff_strict)
    then have u: "unat (pos_z p + 1) = Suc (unat (pos_z p))"
      using unat_bound [of z] by (simp add: word_less_nat_alt unat_word_ariths)
    let ?r = "Position (pos_x p) (pos_y p) (pos_z p + 1)"
    have "unat (pos_z p) < unat z" using z by (simp add: word_less_nat_alt)
    then have "unat z - unat (pos_z ?r) < unat z - unat (pos_z p)" "pos_z ?r \<le> z"
      using u by (simp_all add: word_le_nat_alt)
    then obtain b where "floor_loop m z ?r = Some b" using less.hyps by blast
    then show ?thesis using False by (subst floor_loop.simps) simp
  qed
qed

lemma checkSightLine_line:
  "checkSightLine m p q =
     (if p = q then Some True
      else
        (let s = (if pos_z p > pos_z q then q else p); e = (if pos_z p > pos_z q then p else q)
         in case line_at s e (sight_loop m) e s of
              None \<Rightarrow> None
            | Some (False, _) \<Rightarrow> Some False
            | Some (True, r) \<Rightarrow> floor_loop m (pos_z e) r))"
  by (simp only: checkSightLine_def line_at_def Let_def)

lemma checkSightLine_total: "\<exists>b. checkSightLine m p q = Some b"
proof -
  define s where "s = (if pos_z p > pos_z q then q else p)"
  define e where "e = (if pos_z p > pos_z q then p else q)"
  obtain b r where l: "line_at s e (sight_loop m) e s = Some (b, r)" "b \<longrightarrow> r = flat_end s e"
    using sight_loop_walk [OF on_way_start on_way_start, of s e] by metis
  have "pos_z (flat_end s e) \<le> pos_z e" by (auto simp: flat_end_def s_def e_def)
  from floor_loop_total [OF this, of m] l(2) have "b \<longrightarrow> (\<exists>c. floor_loop m (pos_z e) r = Some c)" by blast
  then show ?thesis using l(1)
    unfolding checkSightLine_line Let_def s_def [symmetric] e_def [symmetric] by (cases b) auto
qed

section \<open>Properties\<close>

text \<open>
  The test whether an object can be thrown always ends, whatever the map holds: each step of
  the line moves at least one axis and never away from the end of the line.
\<close>

theorem canThrowObjectTo_terminates: "\<exists>b. canThrowObjectTo m fromPos toPos checkLineOfSight rangex rangey = Some b"
  using checkSightLine_total [of m fromPos toPos] checkSightLine_total [of m toPos fromPos]
  by (auto simp: canThrowObjectTo_def isSightClear_def split: bool.split)

text \<open>
  On one floor the line of sight between two positions is a fixed walk of king moves that
  never goes away from its end; the line is clear exactly when no tile of the walk after its
  start blocks projectiles.
\<close>

theorem checkSightLine_walk:
  assumes "pos_z p = pos_z q"
  shows "\<exists>ps. sight_walk p ps q
    \<and> (\<forall>m. checkSightLine m p q = Some (list_all (\<lambda>r. \<not> sm_blockProjectile m r) ps))"
proof (cases "p = q")
  case True
  then show ?thesis by (intro exI [of _ "[]"]) (simp add: checkSightLine_def)
next
  case False
  have e: "flat_end p q = q" using assms by (cases q) (simp add: flat_end_def)
  obtain ps where ps: "sight_walk p ps q"
    and l: "\<And>m. \<exists>r. line_at p q (sight_loop m) q p = Some (list_all (\<lambda>r. \<not> sm_blockProjectile m r) ps, r)
       \<and> (list_all (\<lambda>r. \<not> sm_blockProjectile m r) ps \<longrightarrow> r = q)"
    using sight_loop_walk [OF on_way_start on_way_start, of p q] unfolding e by blast
  have "checkSightLine m p q = Some (list_all (\<lambda>r. \<not> sm_blockProjectile m r) ps)" for m
    using l [of m] False assms unfolding checkSightLine_line
    by (cases "list_all (\<lambda>r. \<not> sm_blockProjectile m r) ps") (auto simp: floor_loop.simps)
  with ps show ?thesis by blast
qed

lemma checkSightLine_walk_witness:
  "\<exists>ps. sight_walk (Position 100 100 7) ps (Position 104 102 7)"
  using checkSightLine_walk [of "Position 100 100 7" "Position 104 102 7"] by auto

end
