(* ===== verification/Condition_Types.thy ===== *)
theory Condition_Types
  imports Damage
begin

text \<open>
  The conditions of creatures as the enumeration of \<^verbatim>\<open>src/src/enums.h\<close>, and how conditions and
  damage types answer each other (\<^verbatim>\<open>src/src/combat.cpp\<close>).
\<close>

datatype condition_type =
    CONDITION_NONE
  | CONDITION_POISON
  | CONDITION_FIRE
  | CONDITION_ENERGY
  | CONDITION_BLEEDING
  | CONDITION_HASTE
  | CONDITION_PARALYZE
  | CONDITION_OUTFIT
  | CONDITION_INVISIBLE
  | CONDITION_LIGHT
  | CONDITION_MANASHIELD
  | CONDITION_INFIGHT
  | CONDITION_DRUNK
  | CONDITION_EXHAUST_WEAPON
  | CONDITION_REGENERATION
  | CONDITION_SOUL
  | CONDITION_DROWN
  | CONDITION_MUTED
  | CONDITION_CHANNELMUTEDTICKS
  | CONDITION_YELLTICKS
  | CONDITION_ATTRIBUTES
  | CONDITION_FREEZING
  | CONDITION_DAZZLED
  | CONDITION_CURSED
  | CONDITION_EXHAUST_COMBAT
  | CONDITION_EXHAUST_HEAL
  | CONDITION_PACIFIED
  | CONDITION_SPELLCOOLDOWN
  | CONDITION_SPELLGROUPCOOLDOWN
  | CONDITION_SLEEP
  | CONDITION_SEED
  | CONDITION_MOVING
  | CONDITION_NOMOVE
  | CONDITION_ATTACKBONUS
  | CONDITION_CONFUSION
  | CONDITION_STUN
  | CONDITION_SILENCE
  | CONDITION_BLIND
  | CONDITION_DEFENSEBONUS
  | CONDITION_FEAR
  | CONDITION_SNARE
  | CONDITION_RAGE
  | CONDITION_MELEE_RAGE

definition ConditionToDamageType :: "condition_type \<Rightarrow> combat_type" where
  "ConditionToDamageType type =
     (case type of
        CONDITION_FIRE \<Rightarrow> COMBAT_FIREDAMAGE
      | CONDITION_ENERGY \<Rightarrow> COMBAT_ENERGYDAMAGE
      | CONDITION_BLEEDING \<Rightarrow> COMBAT_PHYSICALDAMAGE
      | CONDITION_DROWN \<Rightarrow> COMBAT_DROWNDAMAGE
      | CONDITION_POISON \<Rightarrow> COMBAT_POISONDAMAGE
      | CONDITION_FREEZING \<Rightarrow> COMBAT_ICEDAMAGE
      | CONDITION_DAZZLED \<Rightarrow> COMBAT_HOLYDAMAGE
      | CONDITION_CURSED \<Rightarrow> COMBAT_DEATHDAMAGE
      | CONDITION_SEED \<Rightarrow> COMBAT_GRASSDAMAGE
      | _ \<Rightarrow> COMBAT_NONE)"

definition DamageToConditionType :: "combat_type \<Rightarrow> condition_type" where
  "DamageToConditionType type =
     (case type of
        COMBAT_FIREDAMAGE \<Rightarrow> CONDITION_FIRE
      | COMBAT_ENERGYDAMAGE \<Rightarrow> CONDITION_ENERGY
      | COMBAT_DROWNDAMAGE \<Rightarrow> CONDITION_DROWN
      | COMBAT_POISONDAMAGE \<Rightarrow> CONDITION_POISON
      | COMBAT_ICEDAMAGE \<Rightarrow> CONDITION_FREEZING
      | COMBAT_HOLYDAMAGE \<Rightarrow> CONDITION_DAZZLED
      | COMBAT_DEATHDAMAGE \<Rightarrow> CONDITION_CURSED
      | COMBAT_PHYSICALDAMAGE \<Rightarrow> CONDITION_BLEEDING
      | COMBAT_GRASSDAMAGE \<Rightarrow> CONDITION_SEED
      | _ \<Rightarrow> CONDITION_NONE)"

text \<open>The two tables are inverse wherever one of them is not \<open>NONE\<close>.\<close>

theorem condition_damage_roundtrip:
  "(ConditionToDamageType c \<noteq> COMBAT_NONE \<longrightarrow> DamageToConditionType (ConditionToDamageType c) = c)
   \<and> (DamageToConditionType d \<noteq> CONDITION_NONE \<longrightarrow> ConditionToDamageType (DamageToConditionType d) = d)"
  by (rule conjI, (cases c; simp add: ConditionToDamageType_def DamageToConditionType_def),
      (cases d; simp add: ConditionToDamageType_def DamageToConditionType_def))

end
