(* ===== verification/Walk_Cache.thy ===== *)
theory Walk_Cache
  imports Position Condition_Types
begin

text \<open>
  The walk cache of a creature (\<^verbatim>\<open>src/src/creature.cpp\<close>): a table of the tiles
  around it that says which of them it may enter, kept up to date by the events of the map.
  \<open>ok p\<close> stands for \<^verbatim>\<open>tile && tile->queryAdd(...) == RETURNVALUE_NOERROR\<close>
  of the tile at \<open>p\<close>. The table is a function of row and column; its loops are folds over
  the indices in the order of the code. The main theorem follows the table through all
  events of a creature's life, beside the set of the tiles that may have changed without an event that
  reads them anew; the table is right everywhere else.
\<close>

section \<open>State\<close>

definition maxWalkCacheWidth :: int where "maxWalkCacheWidth = 15"
definition maxWalkCacheHeight :: int where "maxWalkCacheHeight = 9"
definition mapWalkWidth :: int where "mapWalkWidth = 15 * 2 + 1"
definition mapWalkHeight :: int where "mapWalkHeight = 9 * 2 + 1"

lemmas cache_sizes = maxWalkCacheWidth_def maxWalkCacheHeight_def mapWalkWidth_def mapWalkHeight_def

type_synonym walk_table = "int \<Rightarrow> int \<Rightarrow> bool"

record walk_cache =
  wc_pos :: position
  wc_useCacheMap :: bool
  wc_isMapLoaded :: bool
  localMapCache :: walk_table

record tile_item_type =
  tit_blockSolid :: bool
  tit_blockPathFind :: bool
  tit_isGroundTile :: bool

definition pos_at :: "position \<Rightarrow> int \<Rightarrow> int \<Rightarrow> position" where
  "pos_at p dx dy = Position (pos_x p + of_int dx) (pos_y p + of_int dy) (pos_z p)"

section \<open>Operations\<close>

definition updateTileCache :: "bool \<Rightarrow> int \<Rightarrow> int \<Rightarrow> walk_table \<Rightarrow> walk_table" where
  "updateTileCache b dx dy c =
     (if \<bar>dx\<bar> \<le> maxWalkCacheWidth \<and> \<bar>dy\<bar> \<le> maxWalkCacheHeight
      then c(maxWalkCacheHeight + dy := (c (maxWalkCacheHeight + dy))(maxWalkCacheWidth + dx := b)) else c)"

definition updateTileCacheAt :: "bool \<Rightarrow> position \<Rightarrow> position \<Rightarrow> walk_table \<Rightarrow> walk_table" where
  "updateTileCacheAt b pos myPos c =
     (if pos_z pos = pos_z myPos then updateTileCache b (getOffsetX pos myPos) (getOffsetY pos myPos) c else c)"

definition updateMapCache :: "(position \<Rightarrow> bool) \<Rightarrow> position \<Rightarrow> walk_table \<Rightarrow> walk_table" where
  "updateMapCache ok myPos =
     fold (\<lambda>y. fold (\<lambda>x. updateTileCacheAt (ok (pos_at myPos x y)) (pos_at myPos x y) myPos)
       [-maxWalkCacheWidth..maxWalkCacheWidth]) [-maxWalkCacheHeight..maxWalkCacheHeight]"

definition getWalkCache :: "walk_cache \<Rightarrow> position \<Rightarrow> int" where
  "getWalkCache w pos =
     (if \<not> wc_useCacheMap w then 2
      else if pos_z (wc_pos w) \<noteq> pos_z pos then 0
      else if pos = wc_pos w then 1
      else
        (let dx = getOffsetX pos (wc_pos w)
         in if \<bar>dx\<bar> \<le> maxWalkCacheWidth then
              (let dy = getOffsetY pos (wc_pos w)
               in if \<bar>dy\<bar> \<le> maxWalkCacheHeight then
                    (if localMapCache w (maxWalkCacheHeight + dy) (maxWalkCacheWidth + dx) then 1 else 0)
                  else 2)
            else 2))"

text \<open>A step to the north or the south moves the rows and reads one row anew.\<close>

definition shift_rows :: "(position \<Rightarrow> bool) \<Rightarrow> position \<Rightarrow> position \<Rightarrow> walk_table \<Rightarrow> walk_table" where
  "shift_rows ok oldPos newPos c =
     (if pos_y oldPos > pos_y newPos then
        fold (\<lambda>x. updateTileCache (ok (pos_at newPos x (-maxWalkCacheHeight))) x (-maxWalkCacheHeight))
          [-maxWalkCacheWidth..maxWalkCacheWidth]
          (fold (\<lambda>y c. c(y + 1 := c y)) (rev [0..mapWalkHeight - 2]) c)
      else if pos_y oldPos < pos_y newPos then
        fold (\<lambda>x. updateTileCache (ok (pos_at newPos x maxWalkCacheHeight)) x maxWalkCacheHeight)
          [-maxWalkCacheWidth..maxWalkCacheWidth]
          (fold (\<lambda>y c. c(y := c (y + 1))) [0..mapWalkHeight - 2] c)
      else c)"

text \<open>A step to the east or the west moves the columns of the rows from \<open>starty\<close> to \<open>endy\<close>.\<close>

definition start_row :: "position \<Rightarrow> position \<Rightarrow> int" where
  "start_row oldPos newPos =
     (let dy = getDistanceY oldPos newPos in if dy < 0 then 0 else if dy > 0 then dy else 0)"

definition end_row :: "position \<Rightarrow> position \<Rightarrow> int" where
  "end_row oldPos newPos =
     (let dy = getDistanceY oldPos newPos in if dy < 0 then mapWalkHeight - 1 + dy else mapWalkHeight - 1)"

definition shift_columns :: "(position \<Rightarrow> bool) \<Rightarrow> position \<Rightarrow> position \<Rightarrow> walk_table \<Rightarrow> walk_table" where
  "shift_columns ok oldPos newPos c =
     (if pos_x oldPos < pos_x newPos then
        fold (\<lambda>y. updateTileCache (ok (pos_at newPos maxWalkCacheWidth y)) maxWalkCacheWidth y)
          [-maxWalkCacheHeight..maxWalkCacheHeight]
          (fold (\<lambda>y. fold (\<lambda>x c. c(y := (c y)(x := c y (x + 1)))) [0..mapWalkWidth - 2])
            [start_row oldPos newPos..end_row oldPos newPos] c)
      else if pos_x oldPos > pos_x newPos then
        fold (\<lambda>y. updateTileCache (ok (pos_at newPos (-maxWalkCacheWidth) y)) (-maxWalkCacheWidth) y)
          [-maxWalkCacheHeight..maxWalkCacheHeight]
          (fold (\<lambda>y. fold (\<lambda>x c. c(y := (c y)(x + 1 := c y x))) (rev [0..mapWalkWidth - 2]))
            [start_row oldPos newPos..end_row oldPos newPos] c)
      else c)"

text \<open>The creature itself moves; \<open>ok\<close> is the map after the move.\<close>

definition onOwnMove :: "(position \<Rightarrow> bool) \<Rightarrow> position \<Rightarrow> bool \<Rightarrow> walk_cache \<Rightarrow> walk_cache" where
  "onOwnMove ok newPos teleport w =
     (let oldPos = wc_pos w; w = w\<lparr>wc_pos := newPos\<rparr>
      in if \<not> wc_isMapLoaded w then w
         else if teleport \<or> pos_z oldPos \<noteq> pos_z newPos
           then w\<lparr>localMapCache := updateMapCache ok newPos (localMapCache w)\<rparr>
         else w\<lparr>localMapCache := updateTileCacheAt (ok oldPos) oldPos newPos
           (shift_columns ok oldPos newPos (shift_rows ok oldPos newPos (localMapCache w)))\<rparr>)"

text \<open>The other events of the map: the tile at \<open>pos\<close> is read anew.\<close>

definition reread :: "(position \<Rightarrow> bool) \<Rightarrow> position \<Rightarrow> walk_cache \<Rightarrow> walk_cache" where
  "reread ok pos w =
     (if wc_isMapLoaded w \<and> pos_z pos = pos_z (wc_pos w)
      then w\<lparr>localMapCache := updateTileCacheAt (ok pos) pos (wc_pos w) (localMapCache w)\<rparr> else w)"

definition onAddTileItem :: "(position \<Rightarrow> bool) \<Rightarrow> position \<Rightarrow> walk_cache \<Rightarrow> walk_cache" where
  "onAddTileItem ok pos w = reread ok pos w"

definition onUpdateTileItem ::
  "(position \<Rightarrow> bool) \<Rightarrow> position \<Rightarrow> tile_item_type \<Rightarrow> tile_item_type \<Rightarrow> walk_cache \<Rightarrow> walk_cache" where
  "onUpdateTileItem ok pos oldType newType w =
     (if \<not> wc_isMapLoaded w then w
      else if tit_blockSolid oldType \<or> tit_blockPathFind oldType \<or> tit_blockPathFind newType \<or> tit_blockSolid newType
        then reread ok pos w else w)"

definition onRemoveTileItem :: "(position \<Rightarrow> bool) \<Rightarrow> position \<Rightarrow> tile_item_type \<Rightarrow> walk_cache \<Rightarrow> walk_cache" where
  "onRemoveTileItem ok pos iType w =
     (if \<not> wc_isMapLoaded w then w
      else if tit_blockSolid iType \<or> tit_blockPathFind iType \<or> tit_isGroundTile iType then reread ok pos w else w)"

definition onOwnAppear :: "(position \<Rightarrow> bool) \<Rightarrow> walk_cache \<Rightarrow> walk_cache" where
  "onOwnAppear ok w =
     (if wc_useCacheMap w
      then w\<lparr>wc_isMapLoaded := True, localMapCache := updateMapCache ok (wc_pos w) (localMapCache w)\<rparr> else w)"

text \<open>The think interval fills the table of a creature that has not appeared by an event.\<close>

definition onThinkCache :: "(position \<Rightarrow> bool) \<Rightarrow> walk_cache \<Rightarrow> walk_cache" where
  "onThinkCache ok w =
     (if \<not> wc_isMapLoaded w \<and> wc_useCacheMap w
      then w\<lparr>wc_isMapLoaded := True, localMapCache := updateMapCache ok (wc_pos w) (localMapCache w)\<rparr> else w)"

text \<open>A condition that makes a creature walk through fields of its kind reads the table anew when it begins and ends.\<close>

definition onConditionCache :: "condition_type \<Rightarrow> (position \<Rightarrow> bool) \<Rightarrow> walk_cache \<Rightarrow> walk_cache" where
  "onConditionCache type ok w =
     (if type = CONDITION_FIRE \<or> type = CONDITION_ENERGY \<or> type = CONDITION_POISON
      then w\<lparr>localMapCache := updateMapCache ok (wc_pos w) (localMapCache w)\<rparr> else w)"

definition onOtherAppear :: "(position \<Rightarrow> bool) \<Rightarrow> position \<Rightarrow> walk_cache \<Rightarrow> walk_cache" where
  "onOtherAppear ok pos w = reread ok pos w"

definition onOtherRemove :: "(position \<Rightarrow> bool) \<Rightarrow> position \<Rightarrow> walk_cache \<Rightarrow> walk_cache" where
  "onOtherRemove ok pos w = reread ok pos w"

definition onOtherMove :: "(position \<Rightarrow> bool) \<Rightarrow> position \<Rightarrow> position \<Rightarrow> walk_cache \<Rightarrow> walk_cache" where
  "onOtherMove ok newPos oldPos w = reread ok oldPos (reread ok newPos w)"

section \<open>The loops\<close>

lemma updateTileCache_at:
  "updateTileCache b dx dy c (maxWalkCacheHeight + j) (maxWalkCacheWidth + i) =
     (if j = dy \<and> i = dx \<and> \<bar>dx\<bar> \<le> maxWalkCacheWidth \<and> \<bar>dy\<bar> \<le> maxWalkCacheHeight then b
      else c (maxWalkCacheHeight + j) (maxWalkCacheWidth + i))"
  by (auto simp: updateTileCache_def)

lemma fold_row:
  assumes "\<bar>y\<bar> \<le> maxWalkCacheHeight" and "set xs \<subseteq> {-maxWalkCacheWidth..maxWalkCacheWidth}"
  shows "fold (\<lambda>x. updateTileCache (f x) x y) xs c (maxWalkCacheHeight + j) (maxWalkCacheWidth + i) =
     (if j = y \<and> i \<in> set xs then f i else c (maxWalkCacheHeight + j) (maxWalkCacheWidth + i))"
  using assms(2)
proof (induction xs arbitrary: c)
  case (Cons x xs)
  then show ?case using assms(1) by (auto simp: updateTileCache_at abs_le_iff)
qed simp

lemma fold_column:
  assumes "\<bar>x\<bar> \<le> maxWalkCacheWidth" and "set ys \<subseteq> {-maxWalkCacheHeight..maxWalkCacheHeight}"
  shows "fold (\<lambda>y. updateTileCache (f y) x y) ys c (maxWalkCacheHeight + j) (maxWalkCacheWidth + i) =
     (if i = x \<and> j \<in> set ys then f j else c (maxWalkCacheHeight + j) (maxWalkCacheWidth + i))"
  using assms(2)
proof (induction ys arbitrary: c)
  case (Cons y ys)
  then show ?case using assms(1) by (auto simp: updateTileCache_at abs_le_iff)
qed simp

text \<open>Moving entries up or down a table, in the order that does not overwrite what is still needed.\<close>

lemma fold_down:
  assumes "m \<le> n + 1"
  shows "fold (\<lambda>y c. c(y := c (y + 1))) [m..n] c r = (if m \<le> r \<and> r \<le> n then c (r + 1) else c r)"
  using assms
proof (induction "nat (n + 1 - m)" arbitrary: m c)
  case 0
  then show ?case by auto
next
  case (Suc k)
  then have "m \<le> n" "k = nat (n + 1 - (m + 1))" "m + 1 \<le> n + 1" by linarith+
  with Suc.hyps(1) [of "m + 1"] show ?case by (subst upto.simps) auto
qed

lemma fold_up:
  assumes "m \<le> n + 1"
  shows "fold (\<lambda>y c. c(y + 1 := c y)) (rev [m..n]) c r = (if m < r \<and> r \<le> n + 1 then c (r - 1) else c r)"
  using assms
proof (induction "nat (n + 1 - m)" arbitrary: n c)
  case 0
  then show ?case by auto
next
  case (Suc k)
  then have "m \<le> n" "k = nat (n - 1 + 1 - m)" "m \<le> n - 1 + 1" by linarith+
  with Suc.hyps(1) [of "n - 1"] show ?case by (simp add: upto_rec2) (auto intro: arg_cong)
qed

lemma fold_in_row:
  "fold (\<lambda>x c. c(y := (c y)(f x := c y (g x)))) xs (c :: int \<Rightarrow> int \<Rightarrow> bool) r =
     (if r = y then fold (\<lambda>x t. t(f x := t (g x))) xs (c y) else c r)"
  by (induction xs arbitrary: c) auto

lemma fold_rows:
  assumes "distinct ys" and "\<And>y c r. F y c r = (if r = y then G (c y) else c r)"
  shows "fold F ys c r = (if r \<in> set ys then G (c r) else c r)"
  using assms(1) by (induction ys arbitrary: c) (auto simp: assms(2))

lemma distinct_upto: "distinct [i..j]"
  by (induction i j rule: upto.induct) (subst upto.simps, simp)

section \<open>One step\<close>

definition in_window :: "int \<Rightarrow> int \<Rightarrow> bool" where
  "in_window i j \<longleftrightarrow> \<bar>i\<bar> \<le> maxWalkCacheWidth \<and> \<bar>j\<bar> \<le> maxWalkCacheHeight"

definition cell :: "walk_table \<Rightarrow> int \<Rightarrow> int \<Rightarrow> bool" where
  "cell c i j = c (maxWalkCacheHeight + j) (maxWalkCacheWidth + i)"

lemma rows_shifted:
  assumes "in_window i j"
  shows "pos_y oldPos > pos_y newPos \<Longrightarrow> cell (shift_rows ok oldPos newPos c) i j =
      (if j = -maxWalkCacheHeight then ok (pos_at newPos i j) else cell c i (j - 1))"
    and "pos_y oldPos < pos_y newPos \<Longrightarrow> cell (shift_rows ok oldPos newPos c) i j =
      (if j = maxWalkCacheHeight then ok (pos_at newPos i j) else cell c i (j + 1))"
    and "pos_y oldPos = pos_y newPos \<Longrightarrow> shift_rows ok oldPos newPos c = c"
proof -
  have i: "i \<in> set [-maxWalkCacheWidth..maxWalkCacheWidth]" and j: "\<bar>j\<bar> \<le> maxWalkCacheHeight"
    using assms by (auto simp: in_window_def)
  have s: "set [-maxWalkCacheWidth..maxWalkCacheWidth] \<subseteq> {-maxWalkCacheWidth..maxWalkCacheWidth}" by auto
  have y: "\<bar>-maxWalkCacheHeight\<bar> \<le> maxWalkCacheHeight" "\<bar>maxWalkCacheHeight\<bar> \<le> maxWalkCacheHeight"
    by (simp_all add: maxWalkCacheHeight_def)
  have h: "0 \<le> mapWalkHeight - 2 + 1" by (simp add: mapWalkHeight_def)
  show "cell (shift_rows ok oldPos newPos c) i j =
      (if j = -maxWalkCacheHeight then ok (pos_at newPos i j) else cell c i (j - 1))" if "pos_y oldPos > pos_y newPos"
    using that i j unfolding cell_def shift_rows_def if_P [OF that] fold_row [OF y(1) s] fold_up [OF h] set_upto
    by (auto simp: cache_sizes algebra_simps)
  show "cell (shift_rows ok oldPos newPos c) i j =
      (if j = maxWalkCacheHeight then ok (pos_at newPos i j) else cell c i (j + 1))" if "pos_y oldPos < pos_y newPos"
    using i j unfolding cell_def shift_rows_def if_P [OF that] if_not_P [OF less_not_sym [OF that]]
      fold_row [OF y(2) s] fold_down [OF h] set_upto
    by (auto simp: cache_sizes algebra_simps)
  show "shift_rows ok oldPos newPos c = c" if "pos_y oldPos = pos_y newPos"
    using that by (simp add: shift_rows_def)
qed

lemma columns_shifted:
  assumes "in_window i j"
  shows "pos_x oldPos < pos_x newPos \<Longrightarrow> cell (shift_columns ok oldPos newPos c) i j =
      (if i = maxWalkCacheWidth then ok (pos_at newPos i j)
       else if getDistanceY oldPos newPos \<le> maxWalkCacheHeight + j then cell c (i + 1) j else cell c i j)"
    and "pos_x oldPos > pos_x newPos \<Longrightarrow> cell (shift_columns ok oldPos newPos c) i j =
      (if i = -maxWalkCacheWidth then ok (pos_at newPos i j)
       else if getDistanceY oldPos newPos \<le> maxWalkCacheHeight + j then cell c (i - 1) j else cell c i j)"
    and "pos_x oldPos = pos_x newPos \<Longrightarrow> shift_columns ok oldPos newPos c = c"
proof -
  have j: "j \<in> set [-maxWalkCacheHeight..maxWalkCacheHeight]" and i: "\<bar>i\<bar> \<le> maxWalkCacheWidth"
    using assms by (auto simp: in_window_def)
  have s: "set [-maxWalkCacheHeight..maxWalkCacheHeight] \<subseteq> {-maxWalkCacheHeight..maxWalkCacheHeight}" by auto
  have x: "\<bar>-maxWalkCacheWidth\<bar> \<le> maxWalkCacheWidth" "\<bar>maxWalkCacheWidth\<bar> \<le> maxWalkCacheWidth"
    by (simp_all add: maxWalkCacheWidth_def)
  have w: "0 \<le> mapWalkWidth - 2 + 1" by (simp add: mapWalkWidth_def)
  have d: "0 \<le> getDistanceY oldPos newPos" by (simp add: getDistanceY_def)
  then have rows: "start_row oldPos newPos = getDistanceY oldPos newPos" "end_row oldPos newPos = 18"
    by (simp_all add: start_row_def end_row_def mapWalkHeight_def Let_def)
  note left = fold_rows [OF distinct_upto, where G = "\<lambda>t. fold (\<lambda>x t. t(x := t (x + 1))) [0..mapWalkWidth - 2] t",
      OF fold_in_row [where f = "\<lambda>x. x" and g = "\<lambda>x. x + 1"]]
  note right = fold_rows [OF distinct_upto, where G = "\<lambda>t. fold (\<lambda>x t. t(x + 1 := t x)) (rev [0..mapWalkWidth - 2]) t",
      OF fold_in_row [where f = "\<lambda>x. x + 1" and g = "\<lambda>x. x"]]
  show "cell (shift_columns ok oldPos newPos c) i j =
      (if i = maxWalkCacheWidth then ok (pos_at newPos i j)
       else if getDistanceY oldPos newPos \<le> maxWalkCacheHeight + j then cell c (i + 1) j else cell c i j)"
    if "pos_x oldPos < pos_x newPos"
    using i j unfolding cell_def shift_columns_def rows if_P [OF that]
      fold_column [OF x(2) s] left fold_down [OF w] set_upto
    by (auto simp: cache_sizes algebra_simps)
  show "cell (shift_columns ok oldPos newPos c) i j =
      (if i = -maxWalkCacheWidth then ok (pos_at newPos i j)
       else if getDistanceY oldPos newPos \<le> maxWalkCacheHeight + j then cell c (i - 1) j else cell c i j)"
    if "pos_x oldPos > pos_x newPos"
    using i j unfolding cell_def shift_columns_def rows if_P [OF that] if_not_P [OF less_not_sym [OF that]]
      fold_column [OF x(1) s] right fold_up [OF w] set_upto
    by (auto simp: cache_sizes algebra_simps)
  show "shift_columns ok oldPos newPos c = c" if "pos_x oldPos = pos_x newPos"
    using that by (simp add: shift_columns_def)
qed

section \<open>The contents of the table\<close>

text \<open>
  The table of a creature at \<open>p\<close> is right at an offset when it holds what \<open>ok\<close> says of
  the tile there. Offsets that leave the coordinate range are not tiles of the map. The tiles of
  \<open>S\<close> are not spoken of: they may have changed since they were read.
\<close>

definition inside_map :: "position \<Rightarrow> int \<Rightarrow> int \<Rightarrow> bool" where
  "inside_map p i j \<longleftrightarrow> 0 \<le> getX p + i \<and> getX p + i < 65536 \<and> 0 \<le> getY p + j \<and> getY p + j < 65536"

definition right_at :: "(position \<Rightarrow> bool) \<Rightarrow> position \<Rightarrow> walk_table \<Rightarrow> int \<Rightarrow> int \<Rightarrow> bool" where
  "right_at ok p c i j \<longleftrightarrow> cell c i j = ok (pos_at p i j)"

definition cache_right :: "(position \<Rightarrow> bool) \<Rightarrow> position set \<Rightarrow> position \<Rightarrow> walk_table \<Rightarrow> bool" where
  "cache_right ok S p c \<longleftrightarrow>
     (\<forall>i j. in_window i j \<and> inside_map p i j \<and> (i \<noteq> 0 \<or> j \<noteq> 0) \<and> pos_at p i j \<notin> S \<longrightarrow> right_at ok p c i j)"

lemma cache_rightD:
  "cache_right ok S p c \<Longrightarrow> in_window i j \<Longrightarrow> inside_map p i j \<Longrightarrow> i \<noteq> 0 \<or> j \<noteq> 0
    \<Longrightarrow> pos_at p i j \<notin> S \<Longrightarrow> cell c i j = ok (pos_at p i j)"
  by (auto simp: cache_right_def right_at_def)

lemma pos_at_offsets:
  assumes "inside_map p i j"
  shows "getOffsetX (pos_at p i j) p = i" and "getOffsetY (pos_at p i j) p = j"
  using assms
  by (simp_all add: pos_at_def inside_map_def getOffsetX_def getOffsetY_def getX_def getY_def uint_add_in_range)

lemma pos_at_of_offsets: "pos_z q = pos_z p \<Longrightarrow> pos_at p (getOffsetX q p) (getOffsetY q p) = q"
  by (cases p; cases q) (simp add: pos_at_def offset_defs)

lemma offsets_inside: "inside_map p (getOffsetX q p) (getOffsetY q p)"
  using uint_bounded [of "pos_x q"] uint_bounded [of "pos_y q"]
  by (simp add: inside_map_def offset_defs)

lemma pos_at_eq_iff:
  "inside_map p i j \<Longrightarrow> pos_z q = pos_z p \<Longrightarrow> pos_at p i j = q \<longleftrightarrow> i = getOffsetX q p \<and> j = getOffsetY q p"
  using pos_at_offsets [of p i j] pos_at_of_offsets [of q p] by metis

lemma update_at_cell:
  assumes "in_window i j" and "inside_map p i j" and "pos_z q = pos_z p"
  shows "cell (updateTileCacheAt b q p c) i j = (if pos_at p i j = q then b else cell c i j)"
  unfolding pos_at_eq_iff [OF assms(2,3)]
  using assms(1,3) by (auto simp: updateTileCacheAt_def cell_def updateTileCache_at in_window_def)

lemma step_cells:
  assumes "step_inside d p" and "q = getNextPosition d p"
  shows "pos_at q i j = pos_at p (i + dir_dx d) (j + dir_dy d)"
    and "inside_map q i j = inside_map p (i + dir_dx d) (j + dir_dy d)"
    and "pos_z q = pos_z p" and "getDistanceY p q = \<bar>dir_dy d\<bar>"
    and "pos_x p < pos_x q \<longleftrightarrow> dir_dx d = 1" and "pos_x p > pos_x q \<longleftrightarrow> dir_dx d = -1"
    and "pos_x p = pos_x q \<longleftrightarrow> dir_dx d = 0"
    and "pos_y p < pos_y q \<longleftrightarrow> dir_dy d = 1" and "pos_y p > pos_y q \<longleftrightarrow> dir_dy d = -1"
    and "pos_y p = pos_y q \<longleftrightarrow> dir_dy d = 0"
proof -
  note o = getNextPosition_offsets [OF assms(1), folded assms(2)]
  have r: "dir_dx d \<in> {-1, 0, 1}" "dir_dy d \<in> {-1, 0, 1}" by (rule dir_dx_range, rule dir_dy_range)
  show "pos_at q i j = pos_at p (i + dir_dx d) (j + dir_dy d)"
    by (cases p) (simp add: assms(2) getNextPosition_word pos_at_def algebra_simps)
  show "inside_map q i j = inside_map p (i + dir_dx d) (j + dir_dy d)"
    by (simp add: inside_map_def o algebra_simps)
  show "pos_z q = pos_z p" by (cases p) (simp add: assms(2) getNextPosition_word)
  show "getDistanceY p q = \<bar>dir_dy d\<bar>" by (simp add: getDistanceY_def getOffsetY_def o)
  have x: "uint (pos_x q) = uint (pos_x p) + dir_dx d" and y: "uint (pos_y q) = uint (pos_y p) + dir_dy d"
    using o by (simp_all add: getX_def getY_def)
  show "pos_x p < pos_x q \<longleftrightarrow> dir_dx d = 1" "pos_x p > pos_x q \<longleftrightarrow> dir_dx d = -1" "pos_x p = pos_x q \<longleftrightarrow> dir_dx d = 0"
    using r x by (auto simp: word_less_def word_uint_eq_iff)
  show "pos_y p < pos_y q \<longleftrightarrow> dir_dy d = 1" "pos_y p > pos_y q \<longleftrightarrow> dir_dy d = -1" "pos_y p = pos_y q \<longleftrightarrow> dir_dy d = 0"
    using r y by (auto simp: word_less_def word_uint_eq_iff)
qed

lemma window_edges:
  "in_window i j \<Longrightarrow> j \<noteq> -maxWalkCacheHeight \<Longrightarrow> in_window i (j - 1)"
  "in_window i j \<Longrightarrow> j \<noteq> maxWalkCacheHeight \<Longrightarrow> in_window i (j + 1)"
  "in_window i j \<Longrightarrow> i \<noteq> -maxWalkCacheWidth \<Longrightarrow> in_window (i - 1) j"
  "in_window i j \<Longrightarrow> i \<noteq> maxWalkCacheWidth \<Longrightarrow> in_window (i + 1) j"
  by (auto simp: in_window_def)

text \<open>The two shifts as one, for a step \<open>d\<close>.\<close>

lemma shifted_cell:
  assumes d: "step_inside d p" "q = getNextPosition d p" and w: "in_window i j"
    and nd: "d \<notin> {DIRECTION_SOUTHEAST, DIRECTION_SOUTHWEST} \<or> \<bar>j\<bar> < maxWalkCacheHeight"
  shows "cell (shift_columns ok p q (shift_rows ok p q c)) i j =
    (if in_window (i + dir_dx d) (j + dir_dy d) then cell c (i + dir_dx d) (j + dir_dy d) else ok (pos_at q i j))"
proof -
  note s = step_cells [OF d]
  note r = rows_shifted [where oldPos = p and newPos = q and ok = ok and c = c]
  note k = columns_shifted [OF w, where oldPos = p and newPos = q and ok = ok]
  show ?thesis
    using nd w window_edges [OF w]
    by (cases d) (auto simp: r k s, auto simp: in_window_def cache_sizes)
qed

section \<open>Events keep the table right\<close>

lemma centre_at: "inside_map p i j \<Longrightarrow> pos_at p i j = p \<longleftrightarrow> i = 0 \<and> j = 0"
  using pos_at_eq_iff [of p i j p] by (simp add: getOffsetX_def getOffsetY_def)

lemma onOwnMove_step:
  assumes "wc_isMapLoaded w" and "pos_z (wc_pos w) = pos_z q"
  shows "localMapCache (onOwnMove ok q False w) = updateTileCacheAt (ok (wc_pos w)) (wc_pos w) q
    (shift_columns ok (wc_pos w) q (shift_rows ok (wc_pos w) q (localMapCache w)))"
proof -
  obtain p u l c where w: "w = \<lparr>wc_pos = p, wc_useCacheMap = u, wc_isMapLoaded = l, localMapCache = c\<rparr>"
    by (cases w)
  show ?thesis using assms unfolding w onOwnMove_def Let_def by simp
qed

text \<open>
  What a step makes of the set: tiles that were out of the window are read when they come in, the
  tile that is left is read, and a step to the southeast or southwest spoils the two outer rows.
\<close>

definition window_at :: "position \<Rightarrow> position set" where
  "window_at p = {r. in_window (getOffsetX r p) (getOffsetY r p)}"

definition outer_rows :: "position \<Rightarrow> position set" where
  "outer_rows p = {r. \<bar>getOffsetY r p\<bar> = maxWalkCacheHeight}"

definition stale_after_step :: "position set \<Rightarrow> direction \<Rightarrow> position \<Rightarrow> position \<Rightarrow> position set" where
  "stale_after_step S d p q = (S \<inter> window_at p - {p})
     \<union> (if d \<in> {DIRECTION_SOUTHEAST, DIRECTION_SOUTHWEST} then outer_rows q else {})"

lemma own_step_right:
  assumes "wc_isMapLoaded w" and "cache_right ok0 S (wc_pos w) (localMapCache w)"
    and "\<And>p. p \<noteq> wc_pos w \<Longrightarrow> p \<noteq> q \<Longrightarrow> ok p = ok0 p"
    and d: "step_inside d (wc_pos w)" "q = getNextPosition d (wc_pos w)"
  shows "cache_right ok (stale_after_step S d (wc_pos w) q) q (localMapCache (onOwnMove ok q False w))"
  unfolding cache_right_def right_at_def
proof (intro allI impI)
  fix i j
  assume a: "in_window i j \<and> inside_map q i j \<and> (i \<noteq> 0 \<or> j \<noteq> 0) \<and> pos_at q i j \<notin> stale_after_step S d (wc_pos w) q"
  note s = step_cells [OF d]
  let ?i = "i + dir_dx d" and ?j = "j + dir_dy d"
  have z: "pos_z q = pos_z (wc_pos w)" by (rule s(3))
  have in_q: "in_window i j" "inside_map q i j" using a by simp_all
  have c: "inside_map (wc_pos w) ?i ?j" using in_q s(2) by simp
  have nd: "d \<notin> {DIRECTION_SOUTHEAST, DIRECTION_SOUTHWEST} \<or> \<bar>j\<bar> < maxWalkCacheHeight"
    using a pos_at_offsets(2) [OF in_q(2)] by (auto simp: stale_after_step_def outer_rows_def in_window_def)
  have "cell (localMapCache (onOwnMove ok q False w)) i j =
      (if pos_at q i j = wc_pos w then ok (wc_pos w)
       else if in_window ?i ?j then cell (localMapCache w) ?i ?j else ok (pos_at q i j))"
    unfolding onOwnMove_step [OF assms(1) z [symmetric]] update_at_cell [OF in_q z [symmetric]]
      shifted_cell [OF d in_q(1) nd] ..
  moreover have "cell (localMapCache w) ?i ?j = ok (pos_at q i j)"
    if "pos_at q i j \<noteq> wc_pos w" "in_window ?i ?j"
  proof -
    have n: "?i \<noteq> 0 \<or> ?j \<noteq> 0" using centre_at [OF c] that(1) unfolding s(1) by blast
    have "pos_at q i j \<in> window_at (wc_pos w)"
      using that(2) pos_at_offsets [OF c] by (simp add: window_at_def s(1))
    then have "pos_at (wc_pos w) ?i ?j \<notin> S"
      using a that(1) unfolding s(1) by (auto simp: stale_after_step_def)
    from cache_rightD [OF assms(2) that(2) c n this]
    have "cell (localMapCache w) ?i ?j = ok0 (pos_at q i j)" by (simp only: s(1))
    also have "\<dots> = ok (pos_at q i j)" using assms(3) that(1) centre_at [of q i j] a by simp
    finally show ?thesis .
  qed
  ultimately show "cell (localMapCache (onOwnMove ok q False w)) i j = ok (pos_at q i j)" by auto
qed

lemma fold_update_cells:
  assumes "in_window i j" and "inside_map p i j"
  shows "cell (fold (\<lambda>x. updateTileCacheAt (ok (pos_at p x y)) (pos_at p x y) p) xs c) i j = ok (pos_at p i j)
    \<or> (\<not> (y = j \<and> i \<in> set xs)
       \<and> cell (fold (\<lambda>x. updateTileCacheAt (ok (pos_at p x y)) (pos_at p x y) p) xs c) i j = cell c i j)"
proof (induction xs arbitrary: c)
  case (Cons x xs)
  have z: "pos_z (pos_at p x y) = pos_z p" by (simp add: pos_at_def)
  let ?c = "updateTileCacheAt (ok (pos_at p x y)) (pos_at p x y) p c"
  have "cell ?c i j = ok (pos_at p i j) \<or> (\<not> (y = j \<and> i = x) \<and> cell ?c i j = cell c i j)"
    unfolding update_at_cell [OF assms z] by auto
  with Cons [of ?c] show ?case by auto
qed simp

lemma updateMapCache_right: "cache_right ok S p (updateMapCache ok p c)"
  unfolding cache_right_def right_at_def
proof (intro allI impI)
  fix i j assume a: "in_window i j \<and> inside_map p i j \<and> (i \<noteq> 0 \<or> j \<noteq> 0) \<and> pos_at p i j \<notin> S"
  let ?row = "\<lambda>y. fold (\<lambda>x. updateTileCacheAt (ok (pos_at p x y)) (pos_at p x y) p) [-maxWalkCacheWidth..maxWalkCacheWidth]"
  have i: "i \<in> set [-maxWalkCacheWidth..maxWalkCacheWidth]" using a by (auto simp: in_window_def)
  have r: "cell (?row y c) i j = ok (pos_at p i j) \<or> (y \<noteq> j \<and> cell (?row y c) i j = cell c i j)" for y c
    using fold_update_cells [of i j p ok y "[-maxWalkCacheWidth..maxWalkCacheWidth]" c] a i by blast
  have "cell (fold ?row ys c) i j = ok (pos_at p i j) \<or> (j \<notin> set ys \<and> cell (fold ?row ys c) i j = cell c i j)" for ys
  proof (induction ys arbitrary: c)
    case (Cons y ys)
    then show ?case using r [of y c] Cons.IH [of "?row y c"] by auto
  qed simp
  moreover have "j \<in> set [-maxWalkCacheHeight..maxWalkCacheHeight]" using a by (auto simp: in_window_def)
  ultimately show "cell (updateMapCache ok p c) i j = ok (pos_at p i j)"
    unfolding updateMapCache_def by blast
qed

lemma reread_right:
  assumes "wc_isMapLoaded w" and "cache_right ok0 S (wc_pos w) (localMapCache w)" and "\<And>p. p \<noteq> pos \<Longrightarrow> ok p = ok0 p"
  shows "cache_right ok (S - {pos}) (wc_pos w) (localMapCache (reread ok pos w))"
  unfolding cache_right_def right_at_def
proof (intro allI impI)
  fix i j
  assume a: "in_window i j \<and> inside_map (wc_pos w) i j \<and> (i \<noteq> 0 \<or> j \<noteq> 0) \<and> pos_at (wc_pos w) i j \<notin> S - {pos}"
  note c = cache_rightD [OF assms(2), of i j]
  show "cell (localMapCache (reread ok pos w)) i j = ok (pos_at (wc_pos w) i j)"
  proof (cases "pos_z pos = pos_z (wc_pos w)")
    case True
    then show ?thesis using a c assms(1,3) by (auto simp: reread_def update_at_cell)
  next
    case False
    then have "pos_at (wc_pos w) i j \<noteq> pos" by (auto simp: pos_at_def)
    with False show ?thesis using a c assms(3) by (simp add: reread_def)
  qed
qed

lemma reread_fields [simp]:
  "wc_pos (reread ok pos w) = wc_pos w" "wc_isMapLoaded (reread ok pos w) = wc_isMapLoaded w"
  "wc_useCacheMap (reread ok pos w) = wc_useCacheMap w"
  by (simp_all add: reread_def)

lemma move_fields [simp]:
  "wc_pos (onOwnMove ok q t w) = q" "wc_isMapLoaded (onOwnMove ok q t w) = wc_isMapLoaded w"
  "wc_useCacheMap (onOwnMove ok q t w) = wc_useCacheMap w"
  by (simp_all add: onOwnMove_def Let_def)

text \<open>
  The life of a creature with a walk cache: it appears or thinks for the first time, the map changes,
  with the event that the change sends, conditions begin and end, and the creature steps or is
  teleported. The set holds the tiles whose answer may have changed since they were read: those of an
  item event that the cache ignores because of the item's type (a teleport or a field, for example),
  those that change with no event at all, such as by a condition that has no field of its kind, and the
  outer rows after a step to the southeast or southwest. A tile leaves the set when it is read anew.
\<close>

definition item_matters :: "tile_item_type \<Rightarrow> bool" where
  "item_matters t \<longleftrightarrow> tit_blockSolid t \<or> tit_blockPathFind t"

definition field_condition :: "condition_type \<Rightarrow> bool" where
  "field_condition type \<longleftrightarrow> type \<in> {CONDITION_FIRE, CONDITION_ENERGY, CONDITION_POISON}"

definition changes_only :: "position set \<Rightarrow> (position \<Rightarrow> bool) \<Rightarrow> (position \<Rightarrow> bool) \<Rightarrow> bool" where
  "changes_only ps ok0 ok \<longleftrightarrow> (\<forall>p. p \<notin> ps \<longrightarrow> ok p = ok0 p)"

definition changed :: "(position \<Rightarrow> bool) \<Rightarrow> (position \<Rightarrow> bool) \<Rightarrow> position set" where
  "changed ok0 ok = {p. ok p \<noteq> ok0 p}"

inductive cache_reach :: "(position \<Rightarrow> bool) \<Rightarrow> position set \<Rightarrow> walk_cache \<Rightarrow> bool" where
  appear: "wc_useCacheMap w \<Longrightarrow> cache_reach ok {} (onOwnAppear ok w)"
| first_think: "wc_useCacheMap w \<Longrightarrow> \<not> wc_isMapLoaded w \<Longrightarrow> cache_reach ok {} (onThinkCache ok w)"
| think: "cache_reach ok S w \<Longrightarrow> cache_reach ok S (onThinkCache ok w)"
| add: "cache_reach ok0 S w \<Longrightarrow> changes_only {p} ok0 ok \<Longrightarrow> cache_reach ok (S - {p}) (onAddTileItem ok p w)"
| remove: "cache_reach ok0 S w \<Longrightarrow> changes_only {p} ok0 ok
    \<Longrightarrow> cache_reach ok (if item_matters t \<or> tit_isGroundTile t then S - {p} else S \<union> changed ok0 ok) (onRemoveTileItem ok p t w)"
| update: "cache_reach ok0 S w \<Longrightarrow> changes_only {p} ok0 ok
    \<Longrightarrow> cache_reach ok (if item_matters s \<or> item_matters t then S - {p} else S \<union> changed ok0 ok) (onUpdateTileItem ok p s t w)"
| other_appear: "cache_reach ok0 S w \<Longrightarrow> changes_only {p} ok0 ok \<Longrightarrow> cache_reach ok (S - {p}) (onOtherAppear ok p w)"
| other_remove: "cache_reach ok0 S w \<Longrightarrow> changes_only {p} ok0 ok \<Longrightarrow> cache_reach ok (S - {p}) (onOtherRemove ok p w)"
| other_move: "cache_reach ok0 S w \<Longrightarrow> changes_only {p, q} ok0 ok \<Longrightarrow> cache_reach ok (S - {p, q}) (onOtherMove ok p q w)"
| condition: "cache_reach ok0 S w
    \<Longrightarrow> cache_reach ok (if field_condition type then {} else S \<union> changed ok0 ok) (onConditionCache type ok w)"
| untold: "cache_reach ok0 S w \<Longrightarrow> cache_reach ok (S \<union> changed ok0 ok) w"
| teleport: "cache_reach ok0 S w \<Longrightarrow> cache_reach ok {} (onOwnMove ok q True w)"
| stairs: "cache_reach ok0 S w \<Longrightarrow> pos_z q \<noteq> pos_z (wc_pos w) \<Longrightarrow> cache_reach ok {} (onOwnMove ok q False w)"
| step: "cache_reach ok0 S w \<Longrightarrow> changes_only {wc_pos w, q} ok0 ok \<Longrightarrow> step_inside d (wc_pos w)
    \<Longrightarrow> q = getNextPosition d (wc_pos w) \<Longrightarrow> cache_reach ok (stale_after_step S d (wc_pos w) q) (onOwnMove ok q False w)"

definition cache_inv :: "(position \<Rightarrow> bool) \<Rightarrow> position set \<Rightarrow> walk_cache \<Rightarrow> bool" where
  "cache_inv ok S w \<longleftrightarrow> wc_isMapLoaded w \<and> wc_useCacheMap w \<and> cache_right ok S (wc_pos w) (localMapCache w)"

lemma cache_inv_reread: "cache_inv ok0 S w \<Longrightarrow> changes_only {p} ok0 ok \<Longrightarrow> cache_inv ok (S - {p}) (reread ok p w)"
  using reread_right [of w ok0 S p ok] by (auto simp: cache_inv_def changes_only_def)

lemma cache_inv_untold: "cache_inv ok0 S w \<Longrightarrow> cache_inv ok (S \<union> changed ok0 ok) w"
  by (auto simp: cache_inv_def changed_def cache_right_def right_at_def)

lemma cache_inv_loaded: "cache_inv ok S w \<Longrightarrow> wc_isMapLoaded w" by (simp add: cache_inv_def)

lemma cache_inv_remove:
  assumes "cache_inv ok0 S w" and "changes_only {p} ok0 ok"
  shows "cache_inv ok (if item_matters t \<or> tit_isGroundTile t then S - {p} else S \<union> changed ok0 ok) (onRemoveTileItem ok p t w)"
  using cache_inv_reread [OF assms] cache_inv_untold [OF assms(1), of ok] cache_inv_loaded [OF assms(1)]
  by (auto simp: onRemoveTileItem_def item_matters_def)

lemma cache_inv_update:
  assumes "cache_inv ok0 S w" and "changes_only {p} ok0 ok"
  shows "cache_inv ok (if item_matters s \<or> item_matters t then S - {p} else S \<union> changed ok0 ok) (onUpdateTileItem ok p s t w)"
  using cache_inv_reread [OF assms] cache_inv_untold [OF assms(1), of ok] cache_inv_loaded [OF assms(1)]
  by (auto simp: onUpdateTileItem_def item_matters_def)

lemma cache_inv_condition:
  assumes "cache_inv ok0 S w"
  shows "cache_inv ok (if field_condition type then {} else S \<union> changed ok0 ok) (onConditionCache type ok w)"
  using assms cache_inv_untold [OF assms, of ok] updateMapCache_right [of ok "{}"]
  by (auto simp: onConditionCache_def field_condition_def cache_inv_def)

lemma cache_inv_other_move:
  assumes "cache_inv ok0 S w" and "changes_only {p, q} ok0 ok"
  shows "cache_inv ok (S - {p, q}) (onOtherMove ok p q w)"
proof -
  have "reread ok p w = reread (ok0(p := ok p)) p w" by (simp add: reread_def)
  then have "cache_inv (ok0(p := ok p)) (S - {p}) (reread ok p w)"
    using cache_inv_reread [OF assms(1), of p "ok0(p := ok p)"] by (simp add: changes_only_def)
  from cache_inv_reread [OF this, of q ok] have "cache_inv ok (S - {p} - {q}) (reread ok q (reread ok p w))"
    using assms(2) by (simp add: changes_only_def)
  moreover have "S - {p} - {q} = S - {p, q}" by blast
  ultimately show ?thesis by (simp add: onOtherMove_def)
qed

lemma cache_inv_filled: "wc_useCacheMap w \<Longrightarrow>
    cache_inv ok S (w\<lparr>wc_isMapLoaded := True, localMapCache := updateMapCache ok (wc_pos w) c\<rparr>)"
  by (simp add: cache_inv_def updateMapCache_right)

lemma cache_reach_inv: "cache_reach ok S w \<Longrightarrow> cache_inv ok S w"
proof (induction rule: cache_reach.induct)
  case (appear w ok)
  then show ?case by (simp add: onOwnAppear_def cache_inv_filled)
next
  case (first_think w ok)
  then show ?case by (simp add: onThinkCache_def cache_inv_filled)
next
  case (think ok S w)
  then show ?case using cache_inv_loaded [OF think.IH] by (simp add: onThinkCache_def)
next
  case (teleport ok0 S w ok q)
  then show ?case by (simp add: cache_inv_def, simp add: onOwnMove_def Let_def updateMapCache_right)
next
  case (stairs ok0 S w q ok)
  then show ?case by (auto simp: cache_inv_def onOwnMove_def Let_def updateMapCache_right)
next
  case (step ok0 S w q ok d)
  then show ?case using own_step_right [of w ok0 S q ok d] by (auto simp: cache_inv_def changes_only_def)
qed (simp_all add: onAddTileItem_def onOtherAppear_def onOtherRemove_def cache_inv_reread cache_inv_remove
    cache_inv_update cache_inv_other_move cache_inv_condition cache_inv_untold)

section \<open>Properties\<close>


text \<open>
  A step to the southeast or southwest leaves the two outer rows of the walk cache wrong: the
  row that came in first is shifted although it was just read, the opposite row is not shifted,
  so each holds the tiles one column beside the right ones.
\<close>

theorem walk_cache_south_diagonal:
  assumes "wc_isMapLoaded w" and "cache_right ok0 {} p (localMapCache w)" and "wc_pos w = p"
    and "d \<in> {DIRECTION_SOUTHEAST, DIRECTION_SOUTHWEST}" and "step_inside d p" and "q = getNextPosition d p"
    and "\<bar>i\<bar> < maxWalkCacheWidth" and "inside_map q (- maxWalkCacheWidth) (- maxWalkCacheHeight)"
    and "inside_map q maxWalkCacheWidth maxWalkCacheHeight"
  shows "cell (localMapCache (onOwnMove ok q False w)) i (- maxWalkCacheHeight)
      = ok0 (pos_at q (i - dir_dx d) (- maxWalkCacheHeight))
    \<and> cell (localMapCache (onOwnMove ok q False w)) i maxWalkCacheHeight
      = ok (pos_at q (i + dir_dx d) maxWalkCacheHeight)"
proof -
  let ?H = maxWalkCacheHeight
  note s = step_cells [OF assms(5,6)]
  have z: "pos_z p = pos_z q" using s(3) by simp
  have dy: "dir_dy d = 1" and dx: "dir_dx d = 1 \<or> dir_dx d = -1" using assms(4) by auto
  have w: "in_window i (- ?H)" "in_window i ?H" "in_window i (1 - ?H)" "in_window (i + dir_dx d) ?H"
    using assms(7) dx by (auto simp: in_window_def cache_sizes)
  have m: "inside_map q i (- ?H)" "inside_map q i ?H" "inside_map q (i - dir_dx d) (- ?H)"
    using assms(7-9) dx by (auto simp: inside_map_def cache_sizes)
  have e: "localMapCache (onOwnMove ok q False w) = updateTileCacheAt (ok p) p q
      (shift_columns ok p q (shift_rows ok p q (localMapCache w)))"
    using onOwnMove_step [of w q ok] assms(1,3) z by simp
  have far: "pos_at q i (- ?H) \<noteq> p" "pos_at q i ?H \<noteq> p"
    using getNextPosition_offsets(2) [OF assms(5)] assms(6) dy
    unfolding pos_at_eq_iff [OF m(1) z] pos_at_eq_iff [OF m(2) z] by (auto simp: getOffsetY_def cache_sizes)
  note cols = columns_shifted [where oldPos = p and newPos = q and ok = ok and c = "shift_rows ok p q (localMapCache w)"]
  have y: "pos_y p < pos_y q" using s(8) dy by simp
  have in_p: "inside_map p i (1 - ?H)" using m(3) s(2) [of "i - dir_dx d" "- ?H"] dy by (simp add: algebra_simps)
  have "cell (localMapCache w) i (1 - ?H) = ok0 (pos_at p i (1 - ?H))"
    by (rule cache_rightD [OF assms(2) w(3) in_p]) (simp_all add: cache_sizes)
  moreover have "pos_at q (i - dir_dx d) (- ?H) = pos_at p i (1 - ?H)"
    using s(1) [of "i - dir_dx d" "- ?H"] dy by (simp add: algebra_simps)
  moreover have "cell (shift_columns ok p q (shift_rows ok p q (localMapCache w))) i (- ?H) = cell (localMapCache w) i (1 - ?H)"
    using dx assms(7) dy rows_shifted(2) [OF w(1) y, of ok "localMapCache w"] cols(1,2) [OF w(1)] s(4-6)
    by (auto simp: cache_sizes split: if_splits)
  moreover have "cell (shift_columns ok p q (shift_rows ok p q (localMapCache w))) i ?H = ok (pos_at q (i + dir_dx d) ?H)"
    using dx assms(7) dy rows_shifted(2) [OF w(4) y, of ok "localMapCache w"] cols(1,2) [OF w(2)] s(4-6)
    by (auto simp: cache_sizes split: if_splits)
  ultimately show ?thesis
    unfolding e update_at_cell [OF w(1) m(1) z] update_at_cell [OF w(2) m(2) z] using far by simp
qed

text \<open>A map where the wrong row matters: the only free tile is seen one column to the east.\<close>

definition one_free :: "position \<Rightarrow> bool" where "one_free p \<longleftrightarrow> p = Position 98 92 7"

definition one_free_creature :: walk_cache where
  "one_free_creature = onOwnAppear one_free
     \<lparr>wc_pos = Position 100 100 7, wc_useCacheMap = True, wc_isMapLoaded = False, localMapCache = (\<lambda>r c. False)\<rparr>"

lemma one_free_reach: "cache_reach one_free {} one_free_creature"
  unfolding one_free_creature_def by (rule cache_reach.appear) simp

text \<open>
  Its life goes on: another creature leaves a tile, a teleport that the cache ignores is taken off a
  second one, and the creature steps to the southeast.
\<close>

definition two_free :: "position \<Rightarrow> bool" where "two_free = one_free(Position 103 100 7 := True)"

definition three_free :: "position \<Rightarrow> bool" where "three_free = two_free(Position 104 100 7 := True)"

definition teleport_item :: tile_item_type where
  "teleport_item = \<lparr>tit_blockSolid = False, tit_blockPathFind = False, tit_isGroundTile = False\<rparr>"

definition walked_creature :: walk_cache where
  "walked_creature = onOwnMove three_free (Position 101 101 7) False
     (onRemoveTileItem three_free (Position 104 100 7) teleport_item
       (onOtherRemove two_free (Position 103 100 7) one_free_creature))"

lemma walked_pos: "wc_pos one_free_creature = Position 100 100 7"
  by (simp add: one_free_creature_def onOwnAppear_def)

lemma changed_teleport: "changed two_free three_free = {Position 104 100 7}"
  by (auto simp: changed_def three_free_def two_free_def one_free_def)

lemma walked_reach:
  "cache_reach three_free (stale_after_step {Position 104 100 7} DIRECTION_SOUTHEAST (Position 100 100 7) (Position 101 101 7))
     walked_creature"
proof -
  let ?a = "onOtherRemove two_free (Position 103 100 7) one_free_creature"
  let ?b = "onRemoveTileItem three_free (Position 104 100 7) teleport_item ?a"
  have "cache_reach two_free ({} - {Position 103 100 7}) ?a"
    by (rule cache_reach.other_remove [OF one_free_reach]) (simp add: changes_only_def two_free_def)
  then have "cache_reach two_free {} ?a" by simp
  from cache_reach.remove [OF this, of "Position 104 100 7" three_free teleport_item]
  have b: "cache_reach three_free {Position 104 100 7} ?b"
    by (simp add: changes_only_def three_free_def item_matters_def teleport_item_def
        changed_teleport [unfolded three_free_def])
  have p: "wc_pos ?b = Position 100 100 7"
    by (simp add: onRemoveTileItem_def onOtherRemove_def walked_pos teleport_item_def)
  have u: "changes_only {wc_pos ?b, Position 101 101 7} three_free three_free" by (simp add: changes_only_def)
  have i: "step_inside DIRECTION_SOUTHEAST (wc_pos ?b)" unfolding p by (simp add: step_inside_def getX_def getY_def)
  have q: "Position 101 101 7 = getNextPosition DIRECTION_SOUTHEAST (wc_pos ?b)" unfolding p by (simp add: getNextPosition_word)
  show ?thesis using cache_reach.step [OF b u i q] unfolding p walked_creature_def .
qed


lemma walk_cache_south_diagonal_witness:
  "cell (localMapCache (onOwnMove one_free (Position 101 101 7) False one_free_creature)) (- 2) (- 9)
   \<and> \<not> one_free (pos_at (Position 101 101 7) (- 2) (- 9))"
proof -
  have r: "cache_right one_free {} (wc_pos one_free_creature) (localMapCache one_free_creature)"
    using cache_reach_inv [OF one_free_reach] by (simp add: cache_inv_def)
  have l: "wc_isMapLoaded one_free_creature" "wc_pos one_free_creature = Position 100 100 7"
    by (simp_all add: one_free_creature_def onOwnAppear_def)
  have o: "wc_pos one_free_creature = Position 100 100 7 \<Longrightarrow> cache_right one_free {} (Position 100 100 7) (localMapCache one_free_creature)"
    using r by simp
  show ?thesis
    using walk_cache_south_diagonal [OF l(1) o [OF l(2)] l(2), of DIRECTION_SOUTHEAST "Position 101 101 7" "-2" one_free]
    by (simp add: step_inside_def inside_map_def cache_sizes getX_def getY_def pos_at_def one_free_def)
qed

end
