(* ===== verification/Pathfinding.thy ===== *)
theory Pathfinding
  imports Map_Sight Walk_Cache
begin

text \<open>
  The path search of the server: \<^verbatim>\<open>Map::getPathMatching\<close>,
  \<^verbatim>\<open>Map::canWalkTo\<close> and the class \<^verbatim>\<open>AStarNodes\<close>
  (\<^verbatim>\<open>src/src/map.cpp\<close>, \<^verbatim>\<open>src/src/map.h\<close>) with the condition that
  ends a search (\<^verbatim>\<open>FrozenPathingConditionCall\<close>,
  \<^verbatim>\<open>src/src/creature.cpp\<close>). The node array is the list of the nodes in use, a
  node pointer is its index, costs are natural numbers (they are sums of the constants below and
  stay far under 2^31). The search loop and the walk back along the parents are optional values;
  that they end is a theorem. What the search asks of a tile is a record.
\<close>

section \<open>Nodes\<close>

record astar_node =
  an_parent :: "nat option"
  an_f :: nat
  an_x :: u16
  an_y :: u16

record astar =
  as_nodes :: "astar_node list"
  as_open :: "bool list"
  as_table :: "u32 \<rightharpoonup> nat"
  as_closed :: int

definition MAX_NODES :: nat where "MAX_NODES = 512"
definition MAP_NORMALWALKCOST :: nat where "MAP_NORMALWALKCOST = 10"
definition MAP_DIAGONALWALKCOST :: nat where "MAP_DIAGONALWALKCOST = 25"

lemmas path_costs = MAP_NORMALWALKCOST_def MAP_DIAGONALWALKCOST_def

definition node_key :: "u16 \<Rightarrow> u16 \<Rightarrow> u32" where
  "node_key x y = push_bit 16 (ucast x) OR ucast y"

definition new_nodes :: "u16 \<Rightarrow> u16 \<Rightarrow> astar" where
  "new_nodes x y =
     \<lparr>as_nodes = [\<lparr>an_parent = None, an_f = 0, an_x = x, an_y = y\<rparr>], as_open = [True],
      as_table = [node_key x y \<mapsto> 0], as_closed = 0\<rparr>"

definition createOpenNode :: "nat \<Rightarrow> u16 \<Rightarrow> u16 \<Rightarrow> nat \<Rightarrow> astar \<Rightarrow> astar option" where
  "createOpenNode parent x y f s =
     (if length (as_nodes s) \<ge> MAX_NODES then None
      else Some (s\<lparr>as_nodes := as_nodes s @ [\<lparr>an_parent = Some parent, an_f = f, an_x = x, an_y = y\<rparr>],
                   as_open := as_open s @ [True],
                   as_table := (as_table s)(node_key x y \<mapsto> length (as_nodes s))\<rparr>))"

definition getBestNode :: "astar \<Rightarrow> nat option" where
  "getBestNode s =
     snd (foldl (\<lambda>(best_f, best) i.
            if as_open s ! i \<and> an_f (as_nodes s ! i) < best_f then (an_f (as_nodes s ! i), Some i) else (best_f, best))
          (2 ^ 31 - 1, None) [0..<length (as_nodes s)])"

definition closeNode :: "nat \<Rightarrow> astar \<Rightarrow> astar" where
  "closeNode i s = s\<lparr>as_open := (as_open s)[i := False], as_closed := as_closed s + 1\<rparr>"

definition openNode :: "nat \<Rightarrow> astar \<Rightarrow> astar" where
  "openNode i s =
     (if \<not> as_open s ! i then s\<lparr>as_open := (as_open s)[i := True], as_closed := as_closed s - 1\<rparr> else s)"

definition getClosedNodes :: "astar \<Rightarrow> int" where "getClosedNodes s = as_closed s"

definition getNodeByPosition :: "u16 \<Rightarrow> u16 \<Rightarrow> astar \<Rightarrow> nat option" where
  "getNodeByPosition x y s = as_table s (node_key x y)"

definition getMapWalkCost :: "astar_node \<Rightarrow> u16 \<Rightarrow> u16 \<Rightarrow> nat" where
  "getMapWalkCost n x y =
     (if \<bar>uint (an_x n) - uint x\<bar> = \<bar>uint (an_y n) - uint y\<bar> then MAP_DIAGONALWALKCOST else MAP_NORMALWALKCOST)"

section \<open>What the search asks of the map and the creature\<close>

record 'c path_tile =
  pt_topVisibleCreature :: bool
  pt_fieldItem :: "'c option"
  pt_queryAdd :: bool

record 'c walker =
  wk_cache :: walk_cache
  wk_isImmune :: "'c \<Rightarrow> bool"
  wk_hasCondition :: "'c \<Rightarrow> bool"

record 'c path_map =
  pm_tile :: "position \<Rightarrow> 'c path_tile option"
  pm_sight :: sight_map

definition wk_pos :: "('c, 'b) walker_scheme \<Rightarrow> position" where "wk_pos c = wc_pos (wk_cache c)"

definition getTileWalkCost :: "'c walker \<Rightarrow> 'c path_tile \<Rightarrow> nat" where
  "getTileWalkCost c t =
     (if pt_topVisibleCreature t then MAP_NORMALWALKCOST * 3 else 0)
     + (case pt_fieldItem t of
          None \<Rightarrow> 0
        | Some combatType \<Rightarrow>
            if \<not> wk_isImmune c combatType \<and> \<not> wk_hasCondition c combatType then MAP_NORMALWALKCOST * 18 else 0)"

text \<open>The tile of the creature itself is the one at its position.\<close>

definition canWalkTo :: "'c path_map \<Rightarrow> 'c walker \<Rightarrow> position \<Rightarrow> 'c path_tile option" where
  "canWalkTo m c pos =
     (let walkCache = getWalkCache (wk_cache c) pos
      in if walkCache = 0 then None
         else if walkCache = 1 then pm_tile m pos
         else if pos \<noteq> wk_pos c then
           (case pm_tile m pos of None \<Rightarrow> None | Some t \<Rightarrow> if \<not> pt_queryAdd t then None else Some t)
         else pm_tile m pos)"

section \<open>The condition that ends a search\<close>

record find_path_params =
  fullPathSearch :: bool
  clearSight :: bool
  allowDiagonal :: bool
  keepDistance :: bool
  maxSearchDist :: int
  minTargetDist :: int
  maxTargetDist :: int

definition default_params :: find_path_params where
  "default_params = \<lparr>fullPathSearch = True, clearSight = True, allowDiagonal = True, keepDistance = False,
     maxSearchDist = 0, minTargetDist = -1, maxTargetDist = -1\<rparr>"

definition isInRange :: "position \<Rightarrow> position \<Rightarrow> position \<Rightarrow> find_path_params \<Rightarrow> bool" where
  "isInRange targetPos startPos testPos fpp =
     (if fullPathSearch fpp then
        (if getX testPos > getX targetPos + maxTargetDist fpp then False
         else if getX testPos < getX targetPos - maxTargetDist fpp then False
         else if getY testPos > getY targetPos + maxTargetDist fpp then False
         else if getY testPos < getY targetPos - maxTargetDist fpp then False
         else True)
      else
        (let dx = getOffsetX startPos targetPos;
             dxMax = (if dx \<ge> 0 then maxTargetDist fpp else 0);
             dxMin = (if dx \<le> 0 then maxTargetDist fpp else 0);
             dy = getOffsetY startPos targetPos;
             dyMax = (if dy \<ge> 0 then maxTargetDist fpp else 0);
             dyMin = (if dy \<le> 0 then maxTargetDist fpp else 0)
         in if getX testPos > getX targetPos + dxMax then False
            else if getX testPos < getX targetPos - dxMin then False
            else if getY testPos > getY targetPos + dyMax then False
            else if getY testPos < getY targetPos - dyMin then False
            else True))"

definition pathCondition ::
  "sight_map \<Rightarrow> position \<Rightarrow> position \<Rightarrow> position \<Rightarrow> find_path_params \<Rightarrow> int \<Rightarrow> bool \<times> int" where
  "pathCondition m targetPos startPos testPos fpp bestMatchDist =
     (if \<not> isInRange targetPos startPos testPos fpp then (False, bestMatchDist)
      else if clearSight fpp \<and> isSightClear m testPos targetPos True \<noteq> Some True then (False, bestMatchDist)
      else
        (let testDist = max (getDistanceX targetPos testPos) (getDistanceY targetPos testPos)
         in if maxTargetDist fpp = 1 then
              (if testDist < minTargetDist fpp \<or> testDist > maxTargetDist fpp then (False, bestMatchDist)
               else (True, bestMatchDist))
            else if testDist \<le> maxTargetDist fpp then
              (if testDist < minTargetDist fpp then (False, bestMatchDist)
               else if testDist = maxTargetDist fpp then (True, 0)
               else if testDist > bestMatchDist then (True, testDist)
               else (False, bestMatchDist))
            else (False, bestMatchDist)))"

section \<open>The search\<close>

text \<open>The neighbours that are looked at, by the direction from which a node was reached.\<close>

fun dirNeighbors :: "direction \<Rightarrow> (int \<times> int) list" where
  "dirNeighbors DIRECTION_NORTH = [(-1, 0), (0, 1), (1, 0), (1, 1), (-1, 1)]"
| "dirNeighbors DIRECTION_EAST = [(-1, 0), (0, 1), (0, -1), (-1, -1), (-1, 1)]"
| "dirNeighbors DIRECTION_SOUTH = [(-1, 0), (1, 0), (0, -1), (-1, -1), (1, -1)]"
| "dirNeighbors DIRECTION_WEST = [(0, 1), (1, 0), (0, -1), (1, -1), (1, 1)]"
| "dirNeighbors DIRECTION_SOUTHWEST = [(1, 0), (0, -1), (-1, -1), (1, -1), (1, 1)]"
| "dirNeighbors DIRECTION_SOUTHEAST = [(-1, 0), (0, -1), (-1, -1), (1, -1), (-1, 1)]"
| "dirNeighbors DIRECTION_NORTHWEST = [(0, 1), (1, 0), (1, -1), (1, 1), (-1, 1)]"
| "dirNeighbors DIRECTION_NORTHEAST = [(-1, 0), (0, 1), (-1, -1), (1, 1), (-1, 1)]"
| "dirNeighbors DIRECTION_NONE = []"

definition allNeighbors :: "(int \<times> int) list" where
  "allNeighbors = [(-1, 0), (0, 1), (1, 0), (0, -1), (-1, -1), (1, -1), (1, 1), (-1, 1)]"

definition neighbor_direction :: "bool \<Rightarrow> int \<Rightarrow> int \<Rightarrow> direction" where
  "neighbor_direction diagonal offset_x offset_y =
     (if offset_y = 0 then (if offset_x = -1 then DIRECTION_WEST else DIRECTION_EAST)
      else if \<not> diagonal \<or> offset_x = 0 then (if offset_y = -1 then DIRECTION_NORTH else DIRECTION_SOUTH)
      else if offset_y = -1 then (if offset_x = -1 then DIRECTION_NORTHWEST else DIRECTION_NORTHEAST)
      else if offset_x = -1 then DIRECTION_SOUTHWEST
      else DIRECTION_SOUTHEAST)"

definition node_neighbors :: "find_path_params \<Rightarrow> astar \<Rightarrow> astar_node \<Rightarrow> (int \<times> int) list" where
  "node_neighbors fpp s n =
     (case an_parent n of
        None \<Rightarrow> allNeighbors
      | Some p \<Rightarrow>
          (let offset_x = uint (an_x (as_nodes s ! p)) - uint (an_x n);
               offset_y = uint (an_y (as_nodes s ! p)) - uint (an_y n)
           in take (if allowDiagonal fpp then 5 else 3)
                (dirNeighbors (neighbor_direction (allowDiagonal fpp) offset_x offset_y))))"

datatype path_error = PathNotFound | NullTile

record 'c search =
  sc_map :: "'c path_map"
  sc_creature :: "'c walker"
  sc_target :: position
  sc_fpp :: find_path_params

definition sc_start :: "'c search \<Rightarrow> position" where "sc_start k = wk_pos (sc_creature k)"

definition sc_pos :: "'c search \<Rightarrow> u16 \<Rightarrow> u16 \<Rightarrow> position" where
  "sc_pos k x y = Position x y (pos_z (sc_start k))"

text \<open>
  The body of the loop over the neighbours of node \<open>n\<close>; \<open>found\<close> tells whether a match is
  known. A new node that does not fit ends the loop, and the search when there is no match.
\<close>

primrec expand :: "'c search \<Rightarrow> nat \<Rightarrow> bool \<Rightarrow> (int \<times> int) list \<Rightarrow> astar \<Rightarrow> path_error + astar" where
  "expand k n found [] s = Inr s"
| "expand k n found (d # ds) s =
     (let node = as_nodes s ! n;
          x = an_x node + of_int (fst d);
          y = an_y node + of_int (snd d);
          pos = sc_pos k x y;
          fpp = sc_fpp k
      in if maxSearchDist fpp \<noteq> 0 \<and> (getDistanceX (sc_start k) pos > maxSearchDist fpp
             \<or> getDistanceY (sc_start k) pos > maxSearchDist fpp)
           then expand k n found ds s
         else if keepDistance fpp \<and> \<not> isInRange (sc_target k) (sc_start k) pos fpp then expand k n found ds s
         else
           (case getNodeByPosition x y s of
              Some i \<Rightarrow>
                (case pm_tile (sc_map k) pos of
                   None \<Rightarrow> Inl NullTile
                 | Some tile \<Rightarrow>
                     (let newf = an_f node + getMapWalkCost node x y + getTileWalkCost (sc_creature k) tile;
                          neighbor = as_nodes s ! i
                      in if an_f neighbor \<le> newf then expand k n found ds s
                         else expand k n found ds (openNode i
                           (s\<lparr>as_nodes := (as_nodes s)[i := neighbor\<lparr>an_f := newf, an_parent := Some n\<rparr>]\<rparr>))))
            | None \<Rightarrow>
                (case canWalkTo (sc_map k) (sc_creature k) pos of
                   None \<Rightarrow> expand k n found ds s
                 | Some tile \<Rightarrow>
                     (let newf = an_f node + getMapWalkCost node x y + getTileWalkCost (sc_creature k) tile
                      in case createOpenNode n x y newf s of
                           None \<Rightarrow> if found then Inr s else Inl PathNotFound
                         | Some s' \<Rightarrow> expand k n found ds s'))))"

text \<open>
  One turn of the search loop. The state is the nodes, the node found so far and the distance of
  the best match; a turn ends the search with a result or gives the next state.
\<close>

datatype search_turn = SearchDone "path_error + (nat \<times> astar)" | SearchNext astar "nat option" int

definition search_result :: "nat option \<Rightarrow> astar \<Rightarrow> path_error + (nat \<times> astar)" where
  "search_result found s = (case found of None \<Rightarrow> Inl PathNotFound | Some i \<Rightarrow> Inr (i, s))"

definition search_turn :: "'c search \<Rightarrow> astar \<Rightarrow> nat option \<Rightarrow> int \<Rightarrow> search_turn" where
  "search_turn k s found bestMatch =
     (if \<not> (maxSearchDist (sc_fpp k) \<noteq> 0 \<or> getClosedNodes s < 100) then SearchDone (search_result found s)
      else
        (case getBestNode s of
           None \<Rightarrow> SearchDone (search_result found s)
         | Some n \<Rightarrow>
             (let node = as_nodes s ! n;
                  (hit, bestMatch) = pathCondition (pm_sight (sc_map k)) (sc_target k) (sc_start k)
                    (sc_pos k (an_x node) (an_y node)) (sc_fpp k) bestMatch;
                  found = (if hit then Some n else found)
              in if hit \<and> bestMatch = 0 then SearchDone (search_result found s)
                 else
                   (case expand k n (found \<noteq> None) (node_neighbors (sc_fpp k) s node) s of
                      Inl e \<Rightarrow> SearchDone (Inl e)
                    | Inr s \<Rightarrow> SearchNext (closeNode n s) found bestMatch))))"

partial_function (option) search_loop ::
  "'c search \<Rightarrow> astar \<Rightarrow> nat option \<Rightarrow> int \<Rightarrow> (path_error + (nat \<times> astar)) option" where
  "search_loop k s found bestMatch =
     (case search_turn k s found bestMatch of
        SearchDone r \<Rightarrow> Some r
      | SearchNext s found bestMatch \<Rightarrow> search_loop k s found bestMatch)"

text \<open>The walk back; a pair of coordinates that is no step adds nothing to the path.\<close>

definition back_direction :: "int \<Rightarrow> int \<Rightarrow> direction list" where
  "back_direction dx dy =
     (if dx = 1 \<and> dy = 1 then [DIRECTION_NORTHWEST]
      else if dx = -1 \<and> dy = 1 then [DIRECTION_NORTHEAST]
      else if dx = 1 \<and> dy = -1 then [DIRECTION_SOUTHWEST]
      else if dx = -1 \<and> dy = -1 then [DIRECTION_SOUTHEAST]
      else if dx = 1 then [DIRECTION_WEST]
      else if dx = -1 then [DIRECTION_EAST]
      else if dy = 1 then [DIRECTION_NORTH]
      else if dy = -1 then [DIRECTION_SOUTH]
      else [])"

partial_function (option) walk_back ::
  "astar \<Rightarrow> nat option \<Rightarrow> u16 \<Rightarrow> u16 \<Rightarrow> direction list \<Rightarrow> direction list option" where
  "walk_back s found prevx prevy dirList =
     (case found of
        None \<Rightarrow> Some dirList
      | Some i \<Rightarrow>
          (let node = as_nodes s ! i;
               dx = uint (an_x node) - uint prevx;
               dy = uint (an_y node) - uint prevy
           in walk_back s (an_parent node) (an_x node) (an_y node) (back_direction dx dy @ dirList)))"

definition getPathMatching :: "'c search \<Rightarrow> (path_error + direction list) option" where
  "getPathMatching k =
     (case search_loop k (new_nodes (pos_x (sc_start k)) (pos_y (sc_start k))) None 0 of
        None \<Rightarrow> None
      | Some (Inl e) \<Rightarrow> Some (Inl e)
      | Some (Inr (i, s)) \<Rightarrow>
          (let node = as_nodes s ! i
           in map_option Inr (walk_back s (an_parent node) (an_x node) (an_y node) [])))"

section \<open>Nodes and their keys\<close>

lemma node_key_inject: "node_key x y = node_key x' y' \<longleftrightarrow> x = x' \<and> y = y'"
proof
  assume e: "node_key x y = node_key x' y'"
  have b: "bit (node_key a b) i = (if i < 16 then bit b i else i < 32 \<and> bit a (i - 16))" for a b i
    by (auto simp: node_key_def bit_simps dest: bit_imp_le_length)
  have "y = y'"
  proof (rule bit_word_eqI)
    fix i assume "i < LENGTH(16)"
    then show "bit y i = bit y' i" using arg_cong [OF e, of "\<lambda>w. bit w i"] by (simp add: b)
  qed
  moreover have "x = x'"
  proof (rule bit_word_eqI)
    fix i assume "i < LENGTH(16)"
    then show "bit x i = bit x' i" using arg_cong [OF e, of "\<lambda>w. bit w (i + 16)"] by (simp add: b)
  qed
  ultimately show "x = x' \<and> y = y'" by simp
qed simp

lemma best_scan:
  assumes "snd (foldl (\<lambda>(best_f, best) i.
      if op ! i \<and> f i < best_f then (f i, Some i) else (best_f, best)) (b, r) is) = Some i"
    (is "snd (foldl ?F (b, r) is) = Some i")
  shows "r = Some i \<or> (i \<in> set is \<and> op ! i)"
  using assms by (induction "is" arbitrary: b r) (auto split: if_splits)

lemma getBestNode_open: "getBestNode s = Some i \<Longrightarrow> i < length (as_nodes s) \<and> as_open s ! i"
  unfolding getBestNode_def by (drule best_scan) auto

lemma best_scan_least:
  fixes f :: "nat \<Rightarrow> nat"
  assumes "foldl (\<lambda>(best_f, best) i.
      if op ! i \<and> f i < best_f then (f i, Some i) else (best_f, best)) (b, r) is = (b', r')"
    (is "foldl ?F (b, r) is = _")
  shows "b' \<le> b \<and> (\<forall>j \<in> set is. op ! j \<longrightarrow> b' \<le> f j) \<and> (r' = r \<and> b' = b \<or> (\<exists>i \<in> set is. r' = Some i \<and> b' = f i))"
  using assms
proof (induction "is" arbitrary: b r)
  case (Cons j js)
  obtain b1 r1 where 1: "?F (b, r) j = (b1, r1)" by fastforce
  have "b1 \<le> b \<and> (op ! j \<longrightarrow> b1 \<le> f j) \<and> (r1 = r \<and> b1 = b \<or> r1 = Some j \<and> b1 = f j)"
    using 1 by (auto split: if_splits)
  then show ?case using Cons.IH [of b1 r1] Cons.prems 1 by fastforce
qed auto

lemma snd_eqD: "snd e = r \<Longrightarrow> \<exists>b. e = (b, r)"
  by (cases e) simp

lemma getBestNode_least:
  assumes "getBestNode s = Some i" and "j < length (as_nodes s)" and "as_open s ! j"
  shows "an_f (as_nodes s ! i) \<le> an_f (as_nodes s ! j)"
proof -
  obtain b' where "foldl (\<lambda>(best_f, best) i.
      if as_open s ! i \<and> an_f (as_nodes s ! i) < best_f then (an_f (as_nodes s ! i), Some i) else (best_f, best))
      (2 ^ 31 - 1, None) [0..<length (as_nodes s)] = (b', Some i)"
    using snd_eqD [OF assms(1) [unfolded getBestNode_def]] by blast
  from best_scan_least [where f = "\<lambda>i. an_f (as_nodes s ! i)", OF this] assms(2,3) show ?thesis by auto
qed

lemma getBestNode_None:
  assumes "getBestNode s = None" and "j < length (as_nodes s)" and "as_open s ! j"
  shows "2 ^ 31 - 1 \<le> an_f (as_nodes s ! j)"
proof -
  obtain b' where "foldl (\<lambda>(best_f, best) i.
      if as_open s ! i \<and> an_f (as_nodes s ! i) < best_f then (an_f (as_nodes s ! i), Some i) else (best_f, best))
      (2 ^ 31 - 1, None) [0..<length (as_nodes s)] = (b', None)"
    using snd_eqD [OF assms(1) [unfolded getBestNode_def]] by blast
  from best_scan_least [where f = "\<lambda>i. an_f (as_nodes s ! i)", OF this] assms(2,3) show ?thesis by auto
qed

section \<open>The invariant of the search\<close>

definition node_pos :: "'c search \<Rightarrow> astar \<Rightarrow> nat \<Rightarrow> position" where
  "node_pos k s i = sc_pos k (an_x (as_nodes s ! i)) (an_y (as_nodes s ! i))"

definition in_bounds :: "'c search \<Rightarrow> position \<Rightarrow> bool" where
  "in_bounds k p \<longleftrightarrow> (maxSearchDist (sc_fpp k) \<noteq> 0 \<longrightarrow> getDistanceX (sc_start k) p \<le> maxSearchDist (sc_fpp k)
       \<and> getDistanceY (sc_start k) p \<le> maxSearchDist (sc_fpp k))
     \<and> (keepDistance (sc_fpp k) \<longrightarrow> isInRange (sc_target k) (sc_start k) p (sc_fpp k))"

definition may_enter :: "'c search \<Rightarrow> position \<Rightarrow> bool" where
  "may_enter k p \<longleftrightarrow> canWalkTo (sc_map k) (sc_creature k) p \<noteq> None \<and> in_bounds k p"

definition king_step :: "position \<Rightarrow> position \<Rightarrow> bool" where
  "king_step p q \<longleftrightarrow> pos_z p = pos_z q \<and> p \<noteq> q \<and> getDistanceX p q \<le> 1 \<and> getDistanceY p q \<le> 1"

text \<open>The map has a tile under the creature and none on the outermost rows and columns.\<close>

definition search_ok :: "'c search \<Rightarrow> bool" where
  "search_ok k \<longleftrightarrow> pm_tile (sc_map k) (sc_start k) \<noteq> None
     \<and> (\<forall>p. pm_tile (sc_map k) p \<noteq> None \<longrightarrow> 0 < getX p \<and> getX p < 65535 \<and> 0 < getY p \<and> getY p < 65535)"

definition child_ok :: "'c search \<Rightarrow> astar \<Rightarrow> nat \<Rightarrow> bool" where
  "child_ok k s i \<longleftrightarrow> may_enter k (node_pos k s i)
     \<and> (\<exists>p < length (as_nodes s). an_parent (as_nodes s ! i) = Some p
          \<and> an_f (as_nodes s ! p) < an_f (as_nodes s ! i) \<and> king_step (node_pos k s p) (node_pos k s i))"

definition astar_inv :: "'c search \<Rightarrow> astar \<Rightarrow> bool" where
  "astar_inv k s \<longleftrightarrow> length (as_open s) = length (as_nodes s) \<and> as_nodes s \<noteq> []
     \<and> an_parent (as_nodes s ! 0) = None \<and> an_f (as_nodes s ! 0) = 0 \<and> node_pos k s 0 = sc_start k
     \<and> (\<forall>i < length (as_nodes s). i \<noteq> 0 \<longrightarrow> child_ok k s i)
     \<and> (\<forall>i < length (as_nodes s). pm_tile (sc_map k) (node_pos k s i) \<noteq> None)
     \<and> (\<forall>x y i. getNodeByPosition x y s = Some i \<longleftrightarrow>
          i < length (as_nodes s) \<and> an_x (as_nodes s ! i) = x \<and> an_y (as_nodes s ! i) = y)"

lemma astar_invD:
  assumes "astar_inv k s"
  shows "length (as_open s) = length (as_nodes s)" and "0 < length (as_nodes s)"
    and "an_parent (as_nodes s ! 0) = None" and "an_f (as_nodes s ! 0) = 0" and "node_pos k s 0 = sc_start k"
    and "i < length (as_nodes s) \<Longrightarrow> i \<noteq> 0 \<Longrightarrow> child_ok k s i"
    and "i < length (as_nodes s) \<Longrightarrow> pm_tile (sc_map k) (node_pos k s i) \<noteq> None"
    and "getNodeByPosition x y s = Some i \<longleftrightarrow>
      i < length (as_nodes s) \<and> an_x (as_nodes s ! i) = x \<and> an_y (as_nodes s ! i) = y"
  using assms unfolding astar_inv_def by blast+

lemma new_nodes_inv: "search_ok k \<Longrightarrow> astar_inv k (new_nodes (pos_x (sc_start k)) (pos_y (sc_start k)))"
  by (auto simp: astar_inv_def new_nodes_def node_pos_def sc_pos_def search_ok_def getNodeByPosition_def
      node_key_inject split: if_splits)

lemma canWalkTo_tile: "canWalkTo m c p \<noteq> None \<Longrightarrow> pm_tile m p \<noteq> None"
  by (auto simp: canWalkTo_def Let_def split: if_splits option.splits)

text \<open>The order that every turn goes down: room for nodes first, then the weight of the nodes.\<close>

definition node_weight :: "astar \<Rightarrow> nat \<Rightarrow> nat" where
  "node_weight s i = 2 * an_f (as_nodes s ! i) + of_bool (as_open s ! i)"

definition weight :: "astar \<Rightarrow> nat" where
  "weight s = (\<Sum>i < length (as_nodes s). node_weight s i)"

definition search_order :: "(astar \<times> astar) set" where
  "search_order = inv_image (less_than <*lex*> less_than) (\<lambda>s. (MAX_NODES - length (as_nodes s), weight s))"

lemma wf_search_order: "wf search_order"
  by (simp add: search_order_def wf_lex_prod)

lemma trans_search_order: "(a, b) \<in> search_order \<Longrightarrow> (b, c) \<in> search_order \<Longrightarrow> (a, c) \<in> search_order"
  by (auto simp: search_order_def)

lemma lighter:
  assumes "length (as_nodes s') = length (as_nodes s)" and "i < length (as_nodes s)"
    and "node_weight s' i < node_weight s i"
    and "\<And>j. j < length (as_nodes s) \<Longrightarrow> j \<noteq> i \<Longrightarrow> node_weight s' j = node_weight s j"
  shows "(s', s) \<in> search_order"
proof -
  have "weight s' < weight s"
    unfolding weight_def assms(1)
    by (rule sum_strict_mono_ex1) (use assms(2-4) in \<open>auto, metis order.strict_implies_order order_refl\<close>)
  then show ?thesis using assms(1) by (simp add: search_order_def)
qed

text \<open>What a part of a turn keeps: the places of the nodes, and open nodes stay open.\<close>

definition later :: "'c search \<Rightarrow> astar \<Rightarrow> astar \<Rightarrow> bool" where
  "later k s s' \<longleftrightarrow> astar_inv k s' \<and> length (as_nodes s) \<le> length (as_nodes s')
     \<and> (\<forall>i < length (as_nodes s). node_pos k s' i = node_pos k s i \<and> (as_open s ! i \<longrightarrow> as_open s' ! i))
     \<and> (s' = s \<or> (s', s) \<in> search_order)"

lemma later_refl: "astar_inv k s \<Longrightarrow> later k s s"
  by (simp add: later_def)

lemma later_trans: "later k a b \<Longrightarrow> later k b c \<Longrightarrow> later k a c"
  unfolding later_def using trans_search_order [of c b a]
  by (intro conjI; (elim conjE)?) (auto dest: order.strict_trans2 intro: order.trans)

lemma may_enter_tile: "may_enter k p \<Longrightarrow> pm_tile (sc_map k) p \<noteq> None"
  unfolding may_enter_def using canWalkTo_tile by blast

lemma create_later:
  assumes s: "astar_inv k s" and n: "n < length (as_nodes s)" and c: "createOpenNode n x y newf s = Some s'"
    and fresh: "getNodeByPosition x y s = None" and f: "an_f (as_nodes s ! n) < newf"
    and e: "may_enter k (sc_pos k x y)" and st: "king_step (node_pos k s n) (sc_pos k x y)"
  shows "later k s s'"
proof -
  note d = astar_invD [OF s]
  let ?len = "length (as_nodes s)"
  let ?new = "\<lparr>an_parent = Some n, an_f = newf, an_x = x, an_y = y\<rparr>"
  have s': "as_nodes s' = as_nodes s @ [?new]" "as_open s' = as_open s @ [True]"
    "as_table s' = (as_table s)(node_key x y \<mapsto> ?len)" and room: "?len < MAX_NODES"
    using c by (auto simp: createOpenNode_def split: if_splits)
  have old: "as_nodes s' ! i = as_nodes s ! i" "as_open s' ! i = as_open s ! i" "node_pos k s' i = node_pos k s i"
    if "i < ?len" for i
    using that d(1) by (simp_all add: s' nth_append node_pos_def)
  have new: "as_nodes s' ! ?len = ?new" "node_pos k s' ?len = sc_pos k x y" by (simp_all add: s' node_pos_def)
  have len: "length (as_nodes s') = Suc ?len" by (simp add: s')
  have child: "child_ok k s' i" if i: "i < length (as_nodes s')" "i \<noteq> 0" for i
  proof (cases "i = ?len")
    case True
    then show ?thesis using n f e st by (auto simp: child_ok_def new old len)
  next
    case False
    then have l: "i < ?len" using i(1) s'(1) by simp
    from d(6) [OF l i(2)] obtain p where "p < ?len" "an_parent (as_nodes s ! i) = Some p"
      "an_f (as_nodes s ! p) < an_f (as_nodes s ! i)" "king_step (node_pos k s p) (node_pos k s i)"
      "may_enter k (node_pos k s i)" by (auto simp: child_ok_def)
    then show ?thesis using l by (auto simp: child_ok_def old len intro!: exI [of _ p])
  qed
  have tiles: "pm_tile (sc_map k) (node_pos k s' i) \<noteq> None" if "i < length (as_nodes s')" for i
  proof (cases "i = ?len")
    case True
    show ?thesis using may_enter_tile [OF e] unfolding True new .
  next
    case False
    then have "i < ?len" using that s'(1) by simp
    then show ?thesis using d(7) [of i] old(3) by simp
  qed
  have table: "getNodeByPosition x' y' s' = Some i \<longleftrightarrow>
      i < length (as_nodes s') \<and> an_x (as_nodes s' ! i) = x' \<and> an_y (as_nodes s' ! i) = y'" for x' y' i
  proof (cases "i < ?len")
    case True
    then show ?thesis using d(8) [of x' y' i] fresh
      by (auto simp: getNodeByPosition_def s' node_key_inject nth_append)
  next
    case False
    then show ?thesis using d(8) [of x' y' i]
      by (auto simp: getNodeByPosition_def s' node_key_inject nth_append)
  qed
  have "astar_inv k s'"
    unfolding astar_inv_def using d(1-5) old(1,3) [of 0] child tiles table by (auto simp: s')
  moreover have "(s', s) \<in> search_order" using room by (auto simp: search_order_def s' intro: diff_less_mono2)
  ultimately show ?thesis using old s' by (simp add: later_def)
qed

definition relax :: "nat \<Rightarrow> nat \<Rightarrow> nat \<Rightarrow> astar \<Rightarrow> astar" where
  "relax n i newf s =
     openNode i (s\<lparr>as_nodes := (as_nodes s)[i := (as_nodes s ! i)\<lparr>an_f := newf, an_parent := Some n\<rparr>]\<rparr>)"

lemma relax_fields:
  assumes "i < length (as_nodes s)" and "length (as_open s) = length (as_nodes s)"
  shows "as_nodes (relax n i newf s) = (as_nodes s)[i := (as_nodes s ! i)\<lparr>an_f := newf, an_parent := Some n\<rparr>]"
    and "as_open (relax n i newf s) = (as_open s)[i := True]"
    and "as_table (relax n i newf s) = as_table s"
proof -
  have "as_open s ! i \<Longrightarrow> (as_open s)[i := True] = as_open s"
    using assms list_update_same_conv [of i "as_open s" True] by simp
  then show "as_nodes (relax n i newf s) = (as_nodes s)[i := (as_nodes s ! i)\<lparr>an_f := newf, an_parent := Some n\<rparr>]"
    "as_open (relax n i newf s) = (as_open s)[i := True]" "as_table (relax n i newf s) = as_table s"
    by (auto simp: relax_def openNode_def)
qed

lemma relax_later:
  assumes s: "astar_inv k s" and n: "n < length (as_nodes s)" and i: "i < length (as_nodes s)"
    and f: "an_f (as_nodes s ! n) < newf" "newf < an_f (as_nodes s ! i)"
    and e: "may_enter k (node_pos k s i)" and st: "king_step (node_pos k s n) (node_pos k s i)"
  shows "later k s (relax n i newf s)"
proof -
  note d = astar_invD [OF s] and r = relax_fields [OF i astar_invD(1) [OF s], of n newf]
  let ?s = "relax n i newf s"
  have ni: "n \<noteq> i" using st by (auto simp: king_step_def)
  have len: "length (as_nodes ?s) = length (as_nodes s)" by (simp add: r)
  have pos: "node_pos k ?s j = node_pos k s j" if "j < length (as_nodes s)" for j
    using that by (cases "j = i") (simp_all add: node_pos_def r)
  have xy: "an_x (as_nodes ?s ! j) = an_x (as_nodes s ! j)" "an_y (as_nodes ?s ! j) = an_y (as_nodes s ! j)"
    if "j < length (as_nodes s)" for j
    using that by (cases "j = i"; simp add: r)+
  have i0: "i \<noteq> 0"
  proof
    assume "i = 0"
    with f(2) d(4) show False by simp
  qed
  have f_le: "an_f (as_nodes ?s ! j) \<le> an_f (as_nodes s ! j)" if "j < length (as_nodes s)" for j
    using that f(2) by (cases "j = i") (simp_all add: r)
  have child: "child_ok k ?s j" if j: "j < length (as_nodes s)" "j \<noteq> 0" for j
  proof (cases "j = i")
    case True
    then show ?thesis using n i ni f(1) e st pos [of i] pos [of n]
      by (auto simp: child_ok_def len r intro!: exI [of _ n])
  next
    case False
    from d(6) [OF j] obtain p where p: "p < length (as_nodes s)" "an_parent (as_nodes s ! j) = Some p"
      "an_f (as_nodes s ! p) < an_f (as_nodes s ! j)" "king_step (node_pos k s p) (node_pos k s j)"
      "may_enter k (node_pos k s j)" by (auto simp: child_ok_def)
    have "as_nodes ?s ! j = as_nodes s ! j" using False by (simp add: r)
    then show ?thesis using p f_le [OF p(1)] j pos [of j] pos [of p]
      by (auto simp: child_ok_def len intro!: exI [of _ p])
  qed
  have table: "getNodeByPosition x y ?s = Some j \<longleftrightarrow>
      j < length (as_nodes ?s) \<and> an_x (as_nodes ?s ! j) = x \<and> an_y (as_nodes ?s ! j) = y" for x y j
    using d(8) [of x y j] xy [of j] by (auto simp: len) (simp_all add: getNodeByPosition_def r)
  have "as_nodes ?s ! 0 = as_nodes s ! 0" using i0 by (simp add: r)
  then have "astar_inv k ?s"
    unfolding astar_inv_def using d(1-5) d(7) pos pos [of 0] child table len by (auto simp: r(2))
  moreover have "(?s, s) \<in> search_order"
    by (rule lighter [of _ _ i]) (use f i d(1) in \<open>auto simp: node_weight_def r nth_list_update\<close>)
  moreover have "(as_open s)[i := True] ! j" if "j < length (as_nodes s)" "as_open s ! j" for j
    using that d(1) by (cases "j = i") simp_all
  ultimately show ?thesis using pos by (auto simp: later_def len r(2))
qed

lemma close_later:
  assumes s: "astar_inv k s" and n: "n < length (as_nodes s)" "as_open s ! n"
  shows "astar_inv k (closeNode n s)" and "(closeNode n s, s) \<in> search_order"
    and "length (as_nodes (closeNode n s)) = length (as_nodes s)" "node_pos k (closeNode n s) i = node_pos k s i"
proof -
  note d = astar_invD [OF s]
  have f: "as_nodes (closeNode n s) = as_nodes s" "as_open (closeNode n s) = (as_open s)[n := False]"
    "getNodeByPosition x y (closeNode n s) = getNodeByPosition x y s" for x y
    by (simp_all add: closeNode_def getNodeByPosition_def)
  have p: "node_pos k (closeNode n s) i = node_pos k s i" for i by (simp add: node_pos_def f)
  show "node_pos k (closeNode n s) i = node_pos k s i" by (rule p)
  show "astar_inv k (closeNode n s)"
    using s unfolding astar_inv_def child_ok_def f p by simp
  show "(closeNode n s, s) \<in> search_order"
    by (rule lighter [of _ _ n]) (use n d(1) in \<open>auto simp: node_weight_def f nth_list_update\<close>)
  show "length (as_nodes (closeNode n s)) = length (as_nodes s)" by (simp add: f)
qed

section \<open>A turn of the search\<close>

definition unit_offset :: "int \<times> int \<Rightarrow> bool" where
  "unit_offset d \<longleftrightarrow> d \<in> {(-1, -1), (-1, 0), (-1, 1), (0, -1), (0, 1), (1, -1), (1, 0), (1, 1)}"

lemma node_neighbors_unit: "\<forall>d \<in> set (node_neighbors fpp s n). unit_offset d"
proof -
  have "\<forall>d \<in> set (dirNeighbors x). unit_offset d" for x by (cases x) (simp_all add: unit_offset_def)
  then have "\<forall>d \<in> set (take m (dirNeighbors x)). unit_offset d" for m x by (meson in_set_takeD)
  moreover have "\<forall>d \<in> set allNeighbors. unit_offset d" by (simp add: allNeighbors_def unit_offset_def)
  ultimately show ?thesis by (simp add: node_neighbors_def Let_def split: option.split)
qed

lemma unit_king_step:
  assumes "unit_offset d" and "0 < uint x" "uint x < 65535" "0 < uint y" "uint y < 65535"
  shows "king_step (sc_pos k x y) (sc_pos k (x + of_int (fst d)) (y + of_int (snd d)))"
proof -
  have d: "fst d \<in> {-1, 0, 1}" "snd d \<in> {-1, 0, 1}" "fst d \<noteq> 0 \<or> snd d \<noteq> 0"
    using assms(1) by (auto simp: unit_offset_def)
  have x: "uint (x + of_int (fst d)) = uint x + fst d"
    by (rule uint_add_in_range) (use d assms in auto)
  have y: "uint (y + of_int (snd d)) = uint y + snd d"
    by (rule uint_add_in_range) (use d assms in auto)
  have "sc_pos k x y \<noteq> sc_pos k (x + of_int (fst d)) (y + of_int (snd d))"
    using d(3) x y by (auto simp: sc_pos_def)
  then show ?thesis using d x y by (auto simp: king_step_def sc_pos_def offset_defs)
qed

lemma walk_cost_pos: "0 < getMapWalkCost n x y"
  by (simp add: getMapWalkCost_def path_costs)

text \<open>A node in the table at a neighbour's place may be entered, the start apart.\<close>

lemma node_may_enter: "astar_inv k s \<Longrightarrow> i < length (as_nodes s) \<Longrightarrow> i \<noteq> 0 \<Longrightarrow> may_enter k (node_pos k s i)"
  using astar_invD(6) by (auto simp: child_ok_def)

lemma guards_in_bounds:
  "(if maxSearchDist (sc_fpp k) \<noteq> 0 \<and> (getDistanceX (sc_start k) p > maxSearchDist (sc_fpp k)
        \<or> getDistanceY (sc_start k) p > maxSearchDist (sc_fpp k)) then e
    else if keepDistance (sc_fpp k) \<and> \<not> isInRange (sc_target k) (sc_start k) p (sc_fpp k) then e
    else r) = (if \<not> in_bounds k p then e else r)"
  by (auto simp: in_bounds_def)

lemma expand_Cons:
  "expand k n found (d # ds) s =
     (let node = as_nodes s ! n; x = an_x node + of_int (fst d); y = an_y node + of_int (snd d); pos = sc_pos k x y
      in if \<not> in_bounds k pos then expand k n found ds s
         else
           (case getNodeByPosition x y s of
              Some i \<Rightarrow>
                (case pm_tile (sc_map k) pos of
                   None \<Rightarrow> Inl NullTile
                 | Some tile \<Rightarrow>
                     (let newf = an_f node + getMapWalkCost node x y + getTileWalkCost (sc_creature k) tile
                      in if an_f (as_nodes s ! i) \<le> newf then expand k n found ds s
                         else expand k n found ds (relax n i newf s)))
            | None \<Rightarrow>
                (case canWalkTo (sc_map k) (sc_creature k) pos of
                   None \<Rightarrow> expand k n found ds s
                 | Some tile \<Rightarrow>
                     (case createOpenNode n x y
                        (an_f node + getMapWalkCost node x y + getTileWalkCost (sc_creature k) tile) s of
                        None \<Rightarrow> if found then Inr s else Inl PathNotFound
                      | Some s' \<Rightarrow> expand k n found ds s'))))"
  unfolding expand.simps(2) Let_def guards_in_bounds relax_def ..

declare expand.simps(2) [simp del]

lemma expand_later:
  assumes "search_ok k" and "astar_inv k s" and "n < length (as_nodes s)" and "\<forall>d \<in> set ds. unit_offset d"
  shows "(\<exists>s'. expand k n found ds s = Inr s' \<and> later k s s') \<or> (\<not> found \<and> expand k n found ds s = Inl PathNotFound)"
  using assms(2-4)
proof (induction ds arbitrary: s)
  case Nil
  then show ?case by (simp add: later_refl)
next
  case (Cons d ds)
  note inv = astar_invD [OF Cons.prems(1)]
  let ?node = "as_nodes s ! n"
  let ?x = "an_x ?node + of_int (fst d)" and ?y = "an_y ?node + of_int (snd d)"
  let ?pos = "sc_pos k ?x ?y"
  have "pm_tile (sc_map k) (node_pos k s n) \<noteq> None" using inv(7) Cons.prems(2) .
  then have st: "king_step (node_pos k s n) ?pos"
    using assms(1) Cons.prems(3) unit_king_step [of d "an_x ?node" "an_y ?node" k]
    unfolding search_ok_def node_pos_def by (fastforce simp: getX_def getY_def sc_pos_def)
  have go: "(\<exists>s2. expand k n found ds s' = Inr s2 \<and> later k s s2) \<or> (\<not> found \<and> expand k n found ds s' = Inl PathNotFound)"
    if "later k s s'" for s'
  proof -
    have "astar_inv k s'" "n < length (as_nodes s')" using that Cons.prems(2) by (simp_all add: later_def)
    then show ?thesis using Cons.IH [of s'] Cons.prems(3) later_trans [OF that] by auto
  qed
  consider (skip) "\<not> in_bounds k ?pos \<or> (getNodeByPosition ?x ?y s = None \<and> canWalkTo (sc_map k) (sc_creature k) ?pos = None)"
    | (seen) i where "in_bounds k ?pos" "getNodeByPosition ?x ?y s = Some i"
    | (new) t where "in_bounds k ?pos" "getNodeByPosition ?x ?y s = None" "canWalkTo (sc_map k) (sc_creature k) ?pos = Some t"
    by fastforce
  then show ?case
  proof cases
    case skip
    then have "expand k n found (d # ds) s = expand k n found ds s" by (auto simp: expand_Cons Let_def)
    then show ?thesis using go [OF later_refl [OF Cons.prems(1)]] by simp
  next
    case (seen i)
    from inv(8) seen(2) have i: "i < length (as_nodes s)" "node_pos k s i = ?pos" by (auto simp: node_pos_def)
    then obtain t where t: "pm_tile (sc_map k) ?pos = Some t" using inv(7) [of i] by auto
    let ?newf = "an_f ?node + getMapWalkCost ?node ?x ?y + getTileWalkCost (sc_creature k) t"
    have ex: "expand k n found (d # ds) s =
        (if an_f (as_nodes s ! i) \<le> ?newf then expand k n found ds s else expand k n found ds (relax n i ?newf s))"
      using seen t by (simp add: expand_Cons Let_def)
    show ?thesis
    proof (cases "an_f (as_nodes s ! i) \<le> ?newf")
      case True
      then show ?thesis using ex go [OF later_refl [OF Cons.prems(1)]] by simp
    next
      case False
      then have "i \<noteq> 0" using inv(4) by (metis le0)
      then have e: "may_enter k (node_pos k s i)" using node_may_enter [OF Cons.prems(1) i(1)] by simp
      have "later k s (relax n i ?newf s)"
        by (rule relax_later [OF Cons.prems(1,2) i(1)]) (use False walk_cost_pos e st i in auto)
      from go [OF this] show ?thesis using ex False by simp
    qed
  next
    case (new t)
    let ?newf = "an_f ?node + getMapWalkCost ?node ?x ?y + getTileWalkCost (sc_creature k) t"
    have ex: "expand k n found (d # ds) s =
        (case createOpenNode n ?x ?y ?newf s of
           None \<Rightarrow> if found then Inr s else Inl PathNotFound | Some s' \<Rightarrow> expand k n found ds s')"
      using new by (simp add: expand_Cons Let_def)
    show ?thesis
    proof (cases "createOpenNode n ?x ?y ?newf s")
      case None
      then show ?thesis using ex later_refl [OF Cons.prems(1)] by simp
    next
      case (Some s')
      have "later k s s'"
        by (rule create_later [OF Cons.prems(1,2) Some new(2)]) (use walk_cost_pos new st in \<open>auto simp: may_enter_def node_pos_def\<close>)
      from go [OF this] show ?thesis using ex Some by simp
    qed
  qed
qed

section \<open>The search loop\<close>

definition matches :: "'c search \<Rightarrow> position \<Rightarrow> bool" where
  "matches k p \<longleftrightarrow> (\<exists>b. fst (pathCondition (pm_sight (sc_map k)) (sc_target k) (sc_start k) p (sc_fpp k) b))"

definition found_ok :: "'c search \<Rightarrow> astar \<Rightarrow> nat option \<Rightarrow> bool" where
  "found_ok k s found \<longleftrightarrow> (\<forall>i. found = Some i \<longrightarrow> i < length (as_nodes s) \<and> matches k (node_pos k s i))"

definition result_ok :: "'c search \<Rightarrow> path_error + (nat \<times> astar) \<Rightarrow> bool" where
  "result_ok k r \<longleftrightarrow> r = Inl PathNotFound \<or> (\<exists>i s. r = Inr (i, s) \<and> astar_inv k s \<and> found_ok k s (Some i))"

lemma search_result_ok: "astar_inv k s \<Longrightarrow> found_ok k s found \<Longrightarrow> result_ok k (search_result found s)"
  by (cases found) (auto simp: search_result_def result_ok_def)

lemma found_ok_later:
  assumes "found_ok k s found" and "length (as_nodes s) \<le> length (as_nodes s')"
    and "\<And>i. i < length (as_nodes s) \<Longrightarrow> node_pos k s' i = node_pos k s i"
  shows "found_ok k s' found"
  using assms unfolding found_ok_def by (metis order.strict_trans2)

lemma search_turn_ok:
  assumes k: "search_ok k" and s: "astar_inv k s" and f: "found_ok k s found"
  shows "(\<exists>r. search_turn k s found b = SearchDone r \<and> result_ok k r)
    \<or> (\<exists>s' found' b'. search_turn k s found b = SearchNext s' found' b' \<and> astar_inv k s' \<and> found_ok k s' found'
          \<and> (s', s) \<in> search_order)"
proof (cases "(maxSearchDist (sc_fpp k) \<noteq> 0 \<or> getClosedNodes s < 100) \<and> getBestNode s \<noteq> None")
  case False
  then show ?thesis using search_result_ok [OF s f] by (auto simp: search_turn_def)
next
  case True
  then obtain n where go: "maxSearchDist (sc_fpp k) \<noteq> 0 \<or> getClosedNodes s < 100" and n: "getBestNode s = Some n" by auto
  from getBestNode_open [OF n] have nl: "n < length (as_nodes s)" and no: "as_open s ! n" by simp_all
  obtain hit b1 where pc: "pathCondition (pm_sight (sc_map k)) (sc_target k) (sc_start k) (node_pos k s n) (sc_fpp k) b = (hit, b1)"
    by fastforce
  let ?found = "if hit then Some n else found"
  have f1: "found_ok k s ?found"
    using f nl pc by (auto simp: found_ok_def matches_def intro!: exI [of _ b])
  have st: "search_turn k s found b =
      (if hit \<and> b1 = 0 then SearchDone (search_result ?found s)
       else (case expand k n (?found \<noteq> None) (node_neighbors (sc_fpp k) s (as_nodes s ! n)) s of
               Inl e \<Rightarrow> SearchDone (Inl e) | Inr s \<Rightarrow> SearchNext (closeNode n s) ?found b1))"
    using go n pc by (simp add: search_turn_def Let_def node_pos_def)
  show ?thesis
  proof (cases "hit \<and> b1 = 0")
    case True
    then show ?thesis using st search_result_ok [OF s f1] by simp
  next
    case False
    from expand_later [OF k s nl node_neighbors_unit, of "?found \<noteq> None" "sc_fpp k" s "as_nodes s ! n"]
    consider (onward) s1 where "expand k n (?found \<noteq> None) (node_neighbors (sc_fpp k) s (as_nodes s ! n)) s = Inr s1" "later k s s1"
      | (err) "expand k n (?found \<noteq> None) (node_neighbors (sc_fpp k) s (as_nodes s ! n)) s = Inl PathNotFound"
      by blast
    then show ?thesis
    proof cases
      case (onward s1)
      then have l: "astar_inv k s1" "length (as_nodes s) \<le> length (as_nodes s1)" "n < length (as_nodes s1)" "as_open s1 ! n"
        "\<And>i. i < length (as_nodes s) \<Longrightarrow> node_pos k s1 i = node_pos k s i" "s1 = s \<or> (s1, s) \<in> search_order"
        using nl no by (auto simp: later_def)
      note c = close_later [OF l(1,3,4)]
      have "found_ok k (closeNode n s1) ?found"
        by (rule found_ok_later [OF f1]) (use l c in auto)
      moreover have "(closeNode n s1, s) \<in> search_order" using l(6) c(2) trans_search_order by blast
      ultimately show ?thesis using st onward(1) False c(1) by simp
    next
      case err
      then show ?thesis using st False by (simp add: result_ok_def)
    qed
  qed
qed

lemma search_loop_ok:
  assumes "search_ok k" and "astar_inv k s" and "found_ok k s found"
  shows "\<exists>r. search_loop k s found b = Some r \<and> result_ok k r"
  using assms(2,3)
proof (induction s arbitrary: found b rule: wf_induct_rule [OF wf_search_order])
  case (1 s)
  from search_turn_ok [OF assms(1) 1(2,3), of b] show ?case
  proof
    assume "\<exists>r. search_turn k s found b = SearchDone r \<and> result_ok k r"
    then show ?thesis by (subst search_loop.simps) auto
  next
    assume "\<exists>s' found' b'. search_turn k s found b = SearchNext s' found' b' \<and> astar_inv k s' \<and> found_ok k s' found'
          \<and> (s', s) \<in> search_order"
    then obtain s' found' b' where t: "search_turn k s found b = SearchNext s' found' b'"
      "astar_inv k s'" "found_ok k s' found'" "(s', s) \<in> search_order" by blast
    from 1(1) [OF t(4,2,3), of b'] show ?thesis using t(1) by (subst search_loop.simps) simp
  qed
qed

section \<open>The walk back\<close>

text \<open>A path of directions leads over positions that may be entered.\<close>

primrec dir_path :: "'c search \<Rightarrow> position \<Rightarrow> direction list \<Rightarrow> position \<Rightarrow> bool" where
  "dir_path k p [] q \<longleftrightarrow> p = q"
| "dir_path k p (d # ds) q \<longleftrightarrow> d \<noteq> DIRECTION_NONE \<and> may_enter k (getNextPosition d p) \<and> dir_path k (getNextPosition d p) ds q"

lemma dir_path_snoc:
  "dir_path k p (ds @ [d]) q \<longleftrightarrow> (\<exists>r. dir_path k p ds r \<and> d \<noteq> DIRECTION_NONE \<and> q = getNextPosition d r \<and> may_enter k q)"
  by (induction ds arbitrary: p) auto

lemma back_direction_step:
  assumes "king_step p q"
  shows "\<exists>d. back_direction (getOffsetX p q) (getOffsetY p q) = [d] \<and> d \<noteq> DIRECTION_NONE \<and> getNextPosition d p = q"
proof -
  obtain x y z x' y' where p: "p = Position x y z" "q = Position x' y' z"
    using assms by (cases p; cases q) (auto simp: king_step_def)
  define a where "a = uint x - uint x'"
  define b where "b = uint y - uint y'"
  have o: "getOffsetX p q = a" "getOffsetY p q = b" by (simp_all add: p a_def b_def offset_defs)
  have r: "a \<in> {-1, 0, 1}" "b \<in> {-1, 0, 1}" "a \<noteq> 0 \<or> b \<noteq> 0"
    using assms by (auto simp: p king_step_def offset_defs a_def b_def word_uint_eq_iff)
  have "x' = x - of_int a" "y' = y - of_int b" by (simp_all add: a_def b_def)
  then show ?thesis using r unfolding o
    by (auto simp: p back_direction_def intro: exI [of _ "_ :: direction"])
qed

lemma walk_back_path:
  assumes "astar_inv k s" and "i < length (as_nodes s)"
  shows "\<exists>ds. walk_back s (an_parent (as_nodes s ! i)) (an_x (as_nodes s ! i)) (an_y (as_nodes s ! i)) acc = Some (ds @ acc)
    \<and> dir_path k (sc_start k) ds (node_pos k s i)"
  using assms(2)
proof (induction "an_f (as_nodes s ! i)" arbitrary: i acc rule: less_induct)
  case less
  note inv = astar_invD [OF assms(1)]
  show ?case
  proof (cases "i = 0")
    case True
    then show ?thesis using inv(3,5) by (subst walk_back.simps) simp
  next
    case False
    from inv(6) [OF less.prems False] obtain p where p: "p < length (as_nodes s)" "an_parent (as_nodes s ! i) = Some p"
      "an_f (as_nodes s ! p) < an_f (as_nodes s ! i)" "king_step (node_pos k s p) (node_pos k s i)"
      "may_enter k (node_pos k s i)" by (auto simp: child_ok_def)
    obtain d where d: "back_direction (getOffsetX (node_pos k s p) (node_pos k s i)) (getOffsetY (node_pos k s p) (node_pos k s i)) = [d]"
      "d \<noteq> DIRECTION_NONE" "getNextPosition d (node_pos k s p) = node_pos k s i"
      using back_direction_step [OF p(4)] by blast
    have b: "back_direction (uint (an_x (as_nodes s ! p)) - uint (an_x (as_nodes s ! i)))
        (uint (an_y (as_nodes s ! p)) - uint (an_y (as_nodes s ! i))) = [d]"
      using d(1) by (simp add: node_pos_def sc_pos_def offset_defs)
    from less.hyps [OF p(3,1), of "d # acc"] obtain ds where
      ds: "walk_back s (an_parent (as_nodes s ! p)) (an_x (as_nodes s ! p)) (an_y (as_nodes s ! p)) (d # acc) = Some (ds @ d # acc)"
      "dir_path k (sc_start k) ds (node_pos k s p)" by blast
    have "walk_back s (an_parent (as_nodes s ! i)) (an_x (as_nodes s ! i)) (an_y (as_nodes s ! i)) acc = Some ((ds @ [d]) @ acc)"
      using p(2) b ds(1) by (subst walk_back.simps) (simp add: Let_def)
    moreover have "dir_path k (sc_start k) (ds @ [d]) (node_pos k s i)"
      unfolding dir_path_snoc using ds(2) d p(5) by auto
    ultimately show ?thesis by blast
  qed
qed

section \<open>Properties\<close>

text \<open>
  C28. A path search ends, whatever its parameters: every turn uses up a free node or makes the
  nodes lighter. It never reads the walking cost of a missing tile.
\<close>

theorem getPathMatching_returns:
  assumes "search_ok k"
  shows "\<exists>r. getPathMatching k = Some r \<and> r \<noteq> Inl NullTile"
proof -
  let ?s = "new_nodes (pos_x (sc_start k)) (pos_y (sc_start k))"
  obtain r where r: "search_loop k ?s None 0 = Some r" "result_ok k r"
    using search_loop_ok [OF assms new_nodes_inv [OF assms], of None 0] by (auto simp: found_ok_def)
  then show ?thesis
    using walk_back_path [where acc = "[]"] unfolding result_ok_def getPathMatching_def found_ok_def
    by (fastforce simp: Let_def)
qed

text \<open>
  C14. A path that the search returns leads from the creature to a position that satisfies the
  condition of the search, and each position on it may be entered, lies within the search distance
  and, when a distance is to be kept, in the range of the target.
\<close>

theorem getPathMatching_sound:
  assumes "search_ok k" and "getPathMatching k = Some (Inr ds)"
  shows "\<exists>e. dir_path k (sc_start k) ds e \<and> matches k e"
proof -
  let ?s = "new_nodes (pos_x (sc_start k)) (pos_y (sc_start k))"
  obtain r where r: "search_loop k ?s None 0 = Some r" "result_ok k r"
    using search_loop_ok [OF assms(1) new_nodes_inv [OF assms(1)], of None 0] by (auto simp: found_ok_def)
  then obtain i s where "r = Inr (i, s)" "astar_inv k s" "i < length (as_nodes s)" "matches k (node_pos k s i)"
    using assms(2) by (auto simp: result_ok_def found_ok_def getPathMatching_def)
  then show ?thesis
    using walk_back_path [of k s i "[]"] r(1) assms(2) by (auto simp: getPathMatching_def Let_def)
qed

text \<open>
  The node the search takes next is an open node of least cost; there is none only when all
  open nodes cost more than any search can reach.
\<close>

theorem getBestNode_spec:
  shows "case getBestNode s of
      Some i \<Rightarrow> i < length (as_nodes s) \<and> as_open s ! i
        \<and> (\<forall>j < length (as_nodes s). as_open s ! j \<longrightarrow> an_f (as_nodes s ! i) \<le> an_f (as_nodes s ! j))
    | None \<Rightarrow> \<forall>j < length (as_nodes s). as_open s ! j \<longrightarrow> 2 ^ 31 - 1 \<le> an_f (as_nodes s ! j)"
  using getBestNode_open getBestNode_least getBestNode_None by (auto split: option.split)

text \<open>
  A search that forbids diagonal steps takes none after its first step, and no search turns
  back to the parent of a node; the first step may be diagonal in every search.
\<close>

theorem node_neighbors_spec:
  assumes "an_parent n = Some p" and "king_step (sc_pos k (an_x n) (an_y n)) (node_pos k s p)"
  shows "(\<forall>d \<in> set (node_neighbors fpp s n). (\<not> allowDiagonal fpp \<longrightarrow> fst d = 0 \<or> snd d = 0)
      \<and> d \<noteq> (uint (an_x (as_nodes s ! p)) - uint (an_x n), uint (an_y (as_nodes s ! p)) - uint (an_y n)))
    \<and> (1, 1) \<in> set (node_neighbors fpp s (n\<lparr>an_parent := None\<rparr>))"
proof -
  let ?a = "uint (an_x (as_nodes s ! p)) - uint (an_x n)" and ?b = "uint (an_y (as_nodes s ! p)) - uint (an_y n)"
  have "?a \<in> {-1, 0, 1}" "?b \<in> {-1, 0, 1}" "?a \<noteq> 0 \<or> ?b \<noteq> 0"
    using assms(2) by (auto simp: king_step_def node_pos_def sc_pos_def offset_defs word_uint_eq_iff)
  then show ?thesis using assms(1)
    by (cases "allowDiagonal fpp") (auto simp: node_neighbors_def neighbor_direction_def allNeighbors_def Let_def)
qed

text \<open>A corridor of five tiles with the creature at its west end.\<close>

definition corridor :: "unit search" where
  "corridor = \<lparr>sc_map = \<lparr>pm_tile = (\<lambda>p. if pos_y p = 100 \<and> 100 \<le> pos_x p \<and> pos_x p \<le> 104 \<and> pos_z p = 7
        then Some \<lparr>pt_topVisibleCreature = False, pt_fieldItem = None, pt_queryAdd = True\<rparr> else None),
      pm_sight = \<lparr>sm_blockProjectile = (\<lambda>p. False), sm_thingCount = (\<lambda>p. 0)\<rparr>\<rparr>,
    sc_creature = \<lparr>wk_cache = \<lparr>wc_pos = Position 100 100 7, wc_useCacheMap = False, wc_isMapLoaded = False,
        localMapCache = (\<lambda>r c. False)\<rparr>, wk_isImmune = (\<lambda>c. False), wk_hasCondition = (\<lambda>c. False)\<rparr>,
    sc_target = Position 102 100 7,
    sc_fpp = default_params\<lparr>clearSight := False, minTargetDist := 1, maxTargetDist := 1\<rparr>\<rparr>"

definition corridor_nodes :: astar where
  "corridor_nodes =
     \<lparr>as_nodes = [\<lparr>an_parent = None, an_f = 0, an_x = 100, an_y = 100\<rparr>, \<lparr>an_parent = Some 0, an_f = 10, an_x = 101, an_y = 100\<rparr>],
      as_open = [False, True], as_table = [node_key 100 100 \<mapsto> 0, node_key 101 100 \<mapsto> 1], as_closed = 1\<rparr>"

lemma corridor_start: "sc_start corridor = Position 100 100 7" "sc_pos corridor x y = Position x y 7"
  by (simp_all add: corridor_def sc_start_def sc_pos_def wk_pos_def)

definition corridor_tile :: "unit path_tile" where
  "corridor_tile = \<lparr>pt_topVisibleCreature = False, pt_fieldItem = None, pt_queryAdd = True\<rparr>"

lemma corridor_tiles:
  "pm_tile (sc_map corridor) (Position x y 7) = (if y = 100 \<and> 100 \<le> x \<and> x \<le> 104 then Some corridor_tile else None)"
  "canWalkTo (sc_map corridor) (sc_creature corridor) (Position x y 7) =
     (if y = 100 \<and> 100 \<le> x \<and> x \<le> 104 then Some corridor_tile else None)"
  by (simp_all add: corridor_def canWalkTo_def getWalkCache_def wk_pos_def corridor_tile_def)

lemma corridor_bounds: "in_bounds corridor p"
  by (simp add: in_bounds_def corridor_def default_params_def)

lemma corridor_match:
  "pathCondition (pm_sight (sc_map corridor)) (sc_target corridor) (Position 100 100 7) (Position x 100 7) (sc_fpp corridor) 0
     = (101 \<le> x \<and> x \<le> 103 \<and> x \<noteq> 102, 0)"
  by (auto simp: pathCondition_def corridor_def default_params_def isInRange_def sc_start_def wk_pos_def offset_defs
      word_le_def word_uint_eq_iff)

lemma corridor_cost: "getTileWalkCost (sc_creature corridor) corridor_tile = 0"
  by (simp add: getTileWalkCost_def corridor_tile_def)

lemma corridor_turn1: "search_turn corridor (new_nodes 100 100) None 0 = SearchNext corridor_nodes None 0"
proof -
  have new0: "an_x (as_nodes (new_nodes 100 100) ! 0) = 100" "an_y (as_nodes (new_nodes 100 100) ! 0) = 100"
    "as_closed (new_nodes 100 100) = 0" by (simp_all add: new_nodes_def)
  have b: "getBestNode (new_nodes 100 100) = Some 0" by (simp add: getBestNode_def new_nodes_def)
  have n: "node_neighbors (sc_fpp corridor) (new_nodes 100 100) (as_nodes (new_nodes 100 100) ! 0) = allNeighbors"
    by (simp add: node_neighbors_def new_nodes_def)
  have k: "node_key x y = node_key x' y' \<longleftrightarrow> x = x' \<and> y = y'" for x y x' y' by (rule node_key_inject)
  have "expand corridor 0 False allNeighbors (new_nodes 100 100) =
      Inr (corridor_nodes\<lparr>as_open := [True, True], as_closed := 0\<rparr>)"
    by (simp add: allNeighbors_def expand_Cons Let_def corridor_bounds corridor_start corridor_tiles corridor_cost
        new_nodes_def getNodeByPosition_def k createOpenNode_def MAX_NODES_def getMapWalkCost_def path_costs
        corridor_nodes_def)
  then show ?thesis
    using b n
    by (simp add: search_turn_def Let_def corridor_start new0 corridor_match getClosedNodes_def closeNode_def)
      (simp add: new_nodes_def corridor_nodes_def)
qed

lemma corridor_turn2: "search_turn corridor corridor_nodes None 0 = SearchDone (Inr (1, corridor_nodes))"
proof -
  have b: "getBestNode corridor_nodes = Some 1" by (simp add: getBestNode_def corridor_nodes_def upt_rec)
  have n: "an_x (as_nodes corridor_nodes ! Suc 0) = 101" "an_y (as_nodes corridor_nodes ! Suc 0) = 100" "as_closed corridor_nodes = 1"
    by (simp_all add: corridor_nodes_def)
  show ?thesis
    by (simp add: search_turn_def Let_def b n corridor_start corridor_match getClosedNodes_def search_result_def)
qed

lemma corridor_path: "getPathMatching corridor = Some (Inr [DIRECTION_EAST])"
proof -
  have "search_loop corridor (new_nodes 100 100) None 0 = Some (Inr (1, corridor_nodes))"
    by (subst search_loop.simps, simp add: corridor_turn1, subst search_loop.simps, simp add: corridor_turn2)
  moreover have "walk_back corridor_nodes (Some 0) 101 100 [] = Some [DIRECTION_EAST]"
    by (subst walk_back.simps, simp add: corridor_nodes_def Let_def back_direction_def, subst walk_back.simps, simp)
  ultimately show ?thesis
    by (simp add: getPathMatching_def corridor_start Let_def) (simp add: corridor_nodes_def)
qed

lemma corridor_ok: "search_ok corridor"
proof -
  have "pos_y p = 100 \<and> 100 \<le> pos_x p \<and> pos_x p \<le> 104 \<Longrightarrow> 0 < getX p \<and> getX p < 65535 \<and> 0 < getY p \<and> getY p < 65535" for p
    by (auto simp: getX_def getY_def word_le_def)
  then show ?thesis by (auto simp: search_ok_def corridor_def sc_start_def wk_pos_def split: if_splits)
qed

lemma getPathMatching_returns_witness: "\<exists>r. getPathMatching corridor = Some r \<and> r \<noteq> Inl NullTile"
  by (rule getPathMatching_returns [OF corridor_ok])

lemma getPathMatching_sound_witness:
  "dir_path corridor (sc_start corridor) [DIRECTION_EAST] (Position 101 100 7) \<and> matches corridor (Position 101 100 7)"
  using getPathMatching_sound [OF corridor_ok corridor_path] by (simp add: corridor_start)

lemma getBestNode_spec_witness:
  "getBestNode corridor_nodes = Some 1 \<and> 1 < length (as_nodes corridor_nodes) \<and> as_open corridor_nodes ! 1"
proof -
  have b: "getBestNode corridor_nodes = Some 1" by (simp add: getBestNode_def corridor_nodes_def upt_rec)
  show ?thesis using getBestNode_spec [of corridor_nodes] by (simp only: b option.case simp_thms)
qed

lemma node_neighbors_spec_witness:
  "(1, 1) \<in> set (node_neighbors (default_params\<lparr>allowDiagonal := False\<rparr>) corridor_nodes ((as_nodes corridor_nodes ! 1)\<lparr>an_parent := None\<rparr>))"
  using node_neighbors_spec [of "as_nodes corridor_nodes ! 1" 0 corridor corridor_nodes "default_params\<lparr>allowDiagonal := False\<rparr>"]
  by (simp add: corridor_nodes_def king_step_def node_pos_def corridor_start offset_defs)

end
