(* ===== verification/Map_Grid.thy ===== *)
theory Map_Grid
  imports Position
begin

text \<open>
  The map as the server keeps it (\<^verbatim>\<open>src/src/map.cpp\<close>,
  \<^verbatim>\<open>src/src/map.h\<close>): a quadtree over the coordinates whose leaves hold eight by
  eight tiles on each floor and the creatures that stand there, with links from each leaf to the
  leaf south and east of it; and the search for the spectators of a position, which walks those
  links (\<^verbatim>\<open>getSpectators\<close>, \<^verbatim>\<open>src/src/spectators.h\<close>). A pointer
  to a leaf is a number, the leaves are a store. Tiles are abstract; putting the contents of a
  tile into another one is a parameter of \<open>setTile\<close>.
\<close>

section \<open>The quadtree\<close>

definition MAP_MAX_LAYERS :: nat where "MAP_MAX_LAYERS = 16"
definition FLOOR_BITS :: nat where "FLOOR_BITS = 3"
definition FLOOR_SIZE :: int where "FLOOR_SIZE = 8"
definition FLOOR_MASK :: u16 where "FLOOR_MASK = 7"

type_synonym leaf_id = nat

datatype qtree = QNull | QLeaf leaf_id | QNode qtree qtree qtree qtree

definition empty_node :: qtree where "empty_node = QNode QNull QNull QNull QNull"

definition qindex :: "u32 \<Rightarrow> u32 \<Rightarrow> nat" where
  "qindex x y = unat (drop_bit 15 (x AND 0x8000) OR drop_bit 14 (y AND 0x8000))"

definition pick :: "nat \<Rightarrow> 'a \<Rightarrow> 'a \<Rightarrow> 'a \<Rightarrow> 'a \<Rightarrow> 'a" where
  "pick i a b c d = (if i = 0 then a else if i = 1 then b else if i = 2 then c else d)"

fun getLeaf :: "qtree \<Rightarrow> u32 \<Rightarrow> u32 \<Rightarrow> leaf_id option" where
  "getLeaf QNull x y = None"
| "getLeaf (QLeaf l) x y = Some l"
| "getLeaf (QNode a b c d) x y =
     pick (qindex x y) (getLeaf a (push_bit 1 x) (push_bit 1 y)) (getLeaf b (push_bit 1 x) (push_bit 1 y))
       (getLeaf c (push_bit 1 x) (push_bit 1 y)) (getLeaf d (push_bit 1 x) (push_bit 1 y))"

text \<open>The loop of \<^verbatim>\<open>getLeafStatic\<close>, which starts at the children of a node.\<close>

fun getLeafStatic :: "qtree \<Rightarrow> u32 \<Rightarrow> u32 \<Rightarrow> leaf_id option" where
  "getLeafStatic (QNode a b c d) x y =
     pick (qindex x y)
       (case a of QNull \<Rightarrow> None | QLeaf l \<Rightarrow> Some l | QNode _ _ _ _ \<Rightarrow> getLeafStatic a (push_bit 1 x) (push_bit 1 y))
       (case b of QNull \<Rightarrow> None | QLeaf l \<Rightarrow> Some l | QNode _ _ _ _ \<Rightarrow> getLeafStatic b (push_bit 1 x) (push_bit 1 y))
       (case c of QNull \<Rightarrow> None | QLeaf l \<Rightarrow> Some l | QNode _ _ _ _ \<Rightarrow> getLeafStatic c (push_bit 1 x) (push_bit 1 y))
       (case d of QNull \<Rightarrow> None | QLeaf l \<Rightarrow> Some l | QNode _ _ _ _ \<Rightarrow> getLeafStatic d (push_bit 1 x) (push_bit 1 y))"
| "getLeafStatic QNull x y = None"
| "getLeafStatic (QLeaf l) x y = None"

text \<open>
  \<open>createLeaf\<close> gives the tree, the leaf and whether it is new. Its recursion is on the
  level; a node at level 0 is never reached from the root (the code would go on with a wrapped
  level there).
\<close>

definition set_quad :: "nat \<Rightarrow> qtree \<Rightarrow> qtree \<Rightarrow> qtree" where
  "set_quad i t n =
     (case n of QNode a b c d \<Rightarrow>
        if i = 0 then QNode t b c d else if i = 1 then QNode a t c d
        else if i = 2 then QNode a b t d else QNode a b c t
      | _ \<Rightarrow> n)"

definition get_child :: "nat \<Rightarrow> qtree \<Rightarrow> qtree" where
  "get_child i n = (case n of QNode a b c d \<Rightarrow> pick i a b c d | _ \<Rightarrow> QNull)"

primrec createLeaf :: "nat \<Rightarrow> leaf_id \<Rightarrow> qtree \<Rightarrow> u32 \<Rightarrow> u32 \<Rightarrow> (qtree \<times> leaf_id \<times> bool) option" where
  "createLeaf 0 new t x y = (case t of QLeaf l \<Rightarrow> Some (t, l, False) | _ \<Rightarrow> None)"
| "createLeaf (Suc level) new t x y =
     (case t of
        QLeaf l \<Rightarrow> Some (t, l, False)
      | QNull \<Rightarrow> None
      | QNode _ _ _ _ \<Rightarrow>
          (let index = qindex x y;
               child = get_child index t;
               (child, newLeaf) =
                 (if child = QNull then (if Suc level \<noteq> FLOOR_BITS then (empty_node, False) else (QLeaf new, True))
                  else (child, False))
           in case createLeaf level new child (x * 2) (y * 2) of
                None \<Rightarrow> None
              | Some (child, l, newLeaf') \<Rightarrow> Some (set_quad index child t, l, newLeaf \<or> newLeaf')))"

section \<open>Cells\<close>

text \<open>The coordinates of one leaf agree in the bits 15 to 3.\<close>

definition same_bits :: "nat \<Rightarrow> u32 \<Rightarrow> u32 \<Rightarrow> bool" where
  "same_bits n x x' \<longleftrightarrow> (\<forall>k < n. bit x (15 - k) = bit x' (15 - k))"

lemma same_bits_0 [simp]: "same_bits 0 x x'" by (simp add: same_bits_def)

lemma same_bits_Suc:
  "n \<le> 14 \<Longrightarrow> same_bits (Suc n) x x' \<longleftrightarrow> bit x 15 = bit x' 15 \<and> same_bits n (push_bit 1 x) (push_bit 1 x')"
proof -
  assume n: "n \<le> 14"
  have "bit (push_bit 1 x) (15 - k) = bit x (15 - Suc k)" if "k < n" for k and x :: u32
    unfolding bit_push_bit_iff using that n by (auto simp: possible_bit_word)
  then show ?thesis unfolding same_bits_def All_less_Suc2 by auto
qed

lemma same_bits_refl [simp]: "same_bits n x x" by (simp add: same_bits_def)

lemma same_bits_sym: "same_bits n x y \<Longrightarrow> same_bits n y x" by (simp add: same_bits_def)

lemma same_bits_trans: "same_bits n x y \<Longrightarrow> same_bits n y z \<Longrightarrow> same_bits n x z" by (simp add: same_bits_def)

lemma qindex_bits: "qindex x y = of_bool (bit x 15) + 2 * of_bool (bit y 15)"
proof -
  have "drop_bit 15 (x AND 0x8000) OR drop_bit 14 (y AND 0x8000) = (of_bool (bit x 15) OR push_bit 1 (of_bool (bit y 15)) :: u32)"
    (is "?l = ?r")
  proof (rule bit_word_eqI)
    have m: "bit (0x8000 :: u32) n = (n = 15)" for n
    proof -
      have "(0x8000 :: u32) = push_bit 15 1" by simp
      then show ?thesis by (simp only: bit_push_bit_iff) (auto simp: bit_1_iff)
    qed
    fix n assume n: "n < LENGTH(32)"
    show "bit ?l n = bit ?r n"
      using n by (cases "n = 0"; cases "n = 1") (auto simp: bit_simps m)
  qed
  then show ?thesis
    by (cases "bit x 15"; cases "bit y 15") (simp_all add: qindex_def)
qed

lemma qindex_range: "qindex x y \<in> {0, 1, 2, 3}"
  by (simp add: qindex_bits)

lemma qindex_eq_iff: "qindex x y = qindex x' y' \<longleftrightarrow> bit x 15 = bit x' 15 \<and> bit y 15 = bit y' 15"
  by (auto simp: qindex_bits of_bool_def)

text \<open>The shape of the tree: every leaf lies at the same depth.\<close>

fun qt_ok :: "nat \<Rightarrow> qtree \<Rightarrow> bool" where
  "qt_ok n QNull \<longleftrightarrow> True"
| "qt_ok n (QLeaf l) \<longleftrightarrow> n = 0"
| "qt_ok n (QNode a b c d) \<longleftrightarrow> 0 < n \<and> qt_ok (n - 1) a \<and> qt_ok (n - 1) b \<and> qt_ok (n - 1) c \<and> qt_ok (n - 1) d"

lemma getLeaf_child:
  "getLeaf (QNode a b c d) x y = getLeaf (get_child (qindex x y) (QNode a b c d)) (push_bit 1 x) (push_bit 1 y)"
  by (simp add: get_child_def pick_def)

lemma getLeafStatic_getLeaf: "t = QNode a b c d \<Longrightarrow> getLeafStatic t x y = getLeaf t x y"
proof (induction t arbitrary: a b c d x y)
  case (QNode t1 t2 t3 t4)
  have "(case t of QNull \<Rightarrow> None | QLeaf l \<Rightarrow> Some l | QNode _ _ _ _ \<Rightarrow> getLeafStatic t x y) = getLeaf t x y"
    if "t \<in> {t1, t2, t3, t4}" for t x y
    using that QNode.IH by (cases t) auto
  then show ?case by (simp add: pick_def)
qed simp_all

lemma getLeaf_same_cell:
  assumes "qt_ok n t" and "n \<le> 13" and "same_bits n x x'" and "same_bits n y y'"
  shows "getLeaf t x y = getLeaf t x' y'"
  using assms
proof (induction n arbitrary: t x y x' y')
  case 0
  then show ?case by (cases t) auto
next
  case (Suc n)
  show ?case
  proof (cases t)
    case (QNode a b c d)
    have s: "bit x 15 = bit x' 15" "bit y 15 = bit y' 15" "same_bits n (push_bit 1 x) (push_bit 1 x')"
      "same_bits n (push_bit 1 y) (push_bit 1 y')"
      using Suc.prems by (simp_all add: same_bits_Suc)
    have "qt_ok n (get_child (qindex x y) t)" using Suc.prems(1) QNode by (simp add: get_child_def pick_def)
    from Suc.IH [OF this _ s(3,4)] Suc.prems(2) s(1,2) show ?thesis
      unfolding QNode getLeaf_child by (simp add: qindex_bits)
  qed auto
qed

lemma double_push: "x * 2 = push_bit 1 (x :: u32)"
  by (simp add: push_bit_eq_mult)

lemma getLeaf_set_quad:
  assumes "i \<in> {0, 1, 2, 3}"
  shows "getLeaf (set_quad i u (QNode a b c d)) x y =
    (if qindex x y = i then getLeaf u (push_bit 1 x) (push_bit 1 y) else getLeaf (QNode a b c d) x y)"
  using assms qindex_range [of x y] by (auto simp: set_quad_def pick_def)

lemma qt_ok_set_quad:
  "i \<in> {0, 1, 2, 3} \<Longrightarrow> qt_ok (Suc n) (QNode a b c d) \<Longrightarrow> qt_ok n u \<Longrightarrow> qt_ok (Suc n) (set_quad i u (QNode a b c d))"
  by (auto simp: set_quad_def)

lemma set_quad_node: "\<exists>a' b' c' d'. set_quad i u (QNode a b c d) = QNode a' b' c' d'"
  by (simp add: set_quad_def)

definition leaf_created :: "nat \<Rightarrow> leaf_id \<Rightarrow> qtree \<Rightarrow> u32 \<Rightarrow> u32 \<Rightarrow> qtree \<Rightarrow> leaf_id \<Rightarrow> bool \<Rightarrow> bool" where
  "leaf_created n new t x y t' l b \<longleftrightarrow> qt_ok n t' \<and> t' \<noteq> QNull
     \<and> (\<forall>x' y'. getLeaf t' x' y' = (if same_bits n x x' \<and> same_bits n y y' then Some l else getLeaf t x' y'))
     \<and> (if b then l = new \<and> getLeaf t x y = None else getLeaf t x y = Some l)"

lemma createLeaf_created:
  assumes "qt_ok n t" and "t \<noteq> QNull" and "n \<le> 13"
  shows "\<exists>t' l b. createLeaf (n + 2) new t x y = Some (t', l, b) \<and> leaf_created n new t x y t' l b"
  using assms
proof (induction n arbitrary: t x y)
  case 0
  then obtain l where "t = QLeaf l" by (cases t) auto
  then show ?case by (auto simp: leaf_created_def)
next
  case (Suc n)
  then obtain a b c d where t: "t = QNode a b c d" by (cases t) auto
  let ?i = "qindex x y"
  let ?c = "get_child ?i t"
  let ?x = "push_bit 1 x" and ?y = "push_bit 1 y"
  obtain u nl where u: "(u, nl) = (if ?c = QNull then (if Suc (n + 2) \<noteq> FLOOR_BITS then (empty_node, False) else (QLeaf new, True))
      else (?c, False))" by (metis surj_pair)
  have ci: "qt_ok n ?c" using Suc.prems(1) by (simp add: t get_child_def pick_def)
  have uo: "qt_ok n u" "u \<noteq> QNull" using u ci by (auto simp: FLOOR_BITS_def empty_node_def split: if_splits)
  have ul: "getLeaf u x' y' = (if nl then Some new else getLeaf ?c x' y')" "nl \<Longrightarrow> n = 0 \<and> ?c = QNull" for x' y'
    using u by (auto simp: empty_node_def pick_def FLOOR_BITS_def split: if_splits)
  from Suc.IH [OF uo] Suc.prems(3) obtain u' l b' where
    c: "createLeaf (n + 2) new u (x * 2) (y * 2) = Some (u', l, b')" "leaf_created n new u ?x ?y u' l b'"
    unfolding double_push by force
  let ?t' = "set_quad ?i u' t"
  have "createLeaf (Suc n + 2) new t x y = Some (?t', l, nl \<or> b')"
    by (simp only: add_Suc createLeaf.simps(2) t qtree.case Let_def u [symmetric, unfolded t] prod.case c(1) option.case)
  moreover have "leaf_created (Suc n) new t x y ?t' l (nl \<or> b')"
    unfolding leaf_created_def
  proof (intro conjI allI)
    show "qt_ok (Suc n) ?t'"
      unfolding t using qt_ok_set_quad [OF qindex_range] Suc.prems(1) c(2) by (simp add: t leaf_created_def)
    show "?t' \<noteq> QNull" using set_quad_node by (metis qtree.distinct(3) t)
    fix x' y'
    have g: "getLeaf t x' y' = getLeaf (get_child (qindex x' y') t) (push_bit 1 x') (push_bit 1 y')"
      by (simp only: t getLeaf_child)
    show "getLeaf ?t' x' y' = (if same_bits (Suc n) x x' \<and> same_bits (Suc n) y y' then Some l else getLeaf t x' y')"
    proof (cases "qindex x' y' = ?i")
      case True
      then have e: "bit x' 15 = bit x 15" "bit y' 15 = bit y 15" by (simp_all add: qindex_eq_iff)
      have "getLeaf ?t' x' y' = getLeaf u' (push_bit 1 x') (push_bit 1 y')"
        unfolding t getLeaf_set_quad [OF qindex_range] using True by simp
      also have "\<dots> = (if same_bits n ?x (push_bit 1 x') \<and> same_bits n ?y (push_bit 1 y') then Some l
          else getLeaf u (push_bit 1 x') (push_bit 1 y'))"
        using c(2) by (simp add: leaf_created_def)
      finally show ?thesis
        using e g True ul Suc.prems(3) by (auto simp: same_bits_Suc)
    next
      case False
      then have "getLeaf ?t' x' y' = getLeaf t x' y'" unfolding t getLeaf_set_quad [OF qindex_range] by simp
      moreover have "\<not> (same_bits (Suc n) x x' \<and> same_bits (Suc n) y y')"
        using False Suc.prems(3) by (auto simp: same_bits_Suc qindex_eq_iff)
      ultimately show ?thesis by auto
    qed
  next
    have "getLeaf t x y = getLeaf ?c ?x ?y" by (simp only: t getLeaf_child)
    then show "if nl \<or> b' then l = new \<and> getLeaf t x y = None else getLeaf t x y = Some l"
      using c(2) ul(1) [of ?x ?y] ul(2) by (auto simp: leaf_created_def split: if_splits)
  qed
  ultimately show ?case by blast
qed

section \<open>The map\<close>

type_synonym creature_id = nat

record 'tile grid_leaf =
  leafS :: "leaf_id option"
  leafE :: "leaf_id option"
  lf_floors :: "nat \<Rightarrow> (u16 \<times> u16 \<Rightarrow> 'tile option) option"
  creature_list :: "creature_id list"
  player_list :: "creature_id list"

record 'tile grid =
  gr_root :: qtree
  gr_leaves :: "leaf_id \<Rightarrow> 'tile grid_leaf"
  gr_next :: leaf_id

definition new_leaf :: "'tile grid_leaf" where
  "new_leaf = \<lparr>leafS = None, leafE = None, lf_floors = (\<lambda>z. None), creature_list = [], player_list = []\<rparr>"

definition new_grid :: "'tile grid" where
  "new_grid = \<lparr>gr_root = empty_node, gr_leaves = (\<lambda>l. new_leaf), gr_next = 0\<rparr>"

definition upd_leaf :: "leaf_id \<Rightarrow> ('tile grid_leaf \<Rightarrow> 'tile grid_leaf) \<Rightarrow> 'tile grid \<Rightarrow> 'tile grid" where
  "upd_leaf l f g = g\<lparr>gr_leaves := (gr_leaves g)(l := f (gr_leaves g l))\<rparr>"

definition leaf_at :: "'tile grid \<Rightarrow> u32 \<Rightarrow> u32 \<Rightarrow> leaf_id option" where
  "leaf_at g x y = getLeafStatic (gr_root g) x y"

definition getTile :: "'tile grid \<Rightarrow> u16 \<Rightarrow> u16 \<Rightarrow> byte \<Rightarrow> 'tile option" where
  "getTile g x y z =
     (if unat z \<ge> MAP_MAX_LAYERS then None
      else
        (case leaf_at g (ucast x) (ucast y) of
           None \<Rightarrow> None
         | Some l \<Rightarrow>
             (case lf_floors (gr_leaves g l) (unat z) of
                None \<Rightarrow> None
              | Some tiles \<Rightarrow> tiles (x AND FLOOR_MASK, y AND FLOOR_MASK))))"

definition createFloor :: "nat \<Rightarrow> 'tile grid_leaf \<Rightarrow> 'tile grid_leaf" where
  "createFloor z lf =
     (if lf_floors lf z = None then lf\<lparr>lf_floors := (lf_floors lf)(z \<mapsto> (\<lambda>p. None))\<rparr> else lf)"

text \<open>The links of a new leaf, in the order of the code.\<close>

definition link_new_leaf :: "leaf_id \<Rightarrow> u32 \<Rightarrow> u32 \<Rightarrow> 'tile grid \<Rightarrow> 'tile grid" where
  "link_new_leaf l x y g =
     (let root = gr_root g;
          g = (case getLeaf root x (y - 8) of None \<Rightarrow> g | Some n \<Rightarrow> upd_leaf n (\<lambda>lf. lf\<lparr>leafS := Some l\<rparr>) g);
          g = (case getLeaf root (x - 8) y of None \<Rightarrow> g | Some w \<Rightarrow> upd_leaf w (\<lambda>lf. lf\<lparr>leafE := Some l\<rparr>) g);
          g = (case getLeaf root x (y + 8) of None \<Rightarrow> g | Some s \<Rightarrow> upd_leaf l (\<lambda>lf. lf\<lparr>leafS := Some s\<rparr>) g)
      in case getLeaf root (x + 8) y of None \<Rightarrow> g | Some e \<Rightarrow> upd_leaf l (\<lambda>lf. lf\<lparr>leafE := Some e\<rparr>) g)"

text \<open>The leaf of a position, made and linked when it is missing.\<close>

definition ensure_leaf :: "u32 \<Rightarrow> u32 \<Rightarrow> 'tile grid \<Rightarrow> (leaf_id \<times> 'tile grid) option" where
  "ensure_leaf x y g =
     (case createLeaf 15 (gr_next g) (gr_root g) x y of
        None \<Rightarrow> None
      | Some (root, l, newLeaf) \<Rightarrow>
          (if newLeaf
           then Some (l, link_new_leaf l x y
             (g\<lparr>gr_root := root, gr_leaves := (gr_leaves g)(l := new_leaf), gr_next := Suc (gr_next g)\<rparr>))
           else Some (l, g\<lparr>gr_root := root\<rparr>)))"

text \<open>\<open>merge old new\<close> moves the contents of the new tile into the one that is there.\<close>

definition put_tile :: "('tile \<Rightarrow> 'tile \<Rightarrow> 'tile) \<Rightarrow> u16 \<Rightarrow> u16 \<Rightarrow> nat \<Rightarrow> 'tile \<Rightarrow> 'tile grid_leaf \<Rightarrow> 'tile grid_leaf" where
  "put_tile merge x y z newTile lf =
     (let lf = createFloor z lf;
          tiles = the (lf_floors lf z);
          p = (x AND FLOOR_MASK, y AND FLOOR_MASK);
          tile = (case tiles p of None \<Rightarrow> newTile | Some t \<Rightarrow> merge t newTile)
      in lf\<lparr>lf_floors := (lf_floors lf)(z \<mapsto> tiles(p \<mapsto> tile))\<rparr>)"

definition setTile ::
  "('tile \<Rightarrow> 'tile \<Rightarrow> 'tile) \<Rightarrow> u16 \<Rightarrow> u16 \<Rightarrow> byte \<Rightarrow> 'tile \<Rightarrow> 'tile grid \<Rightarrow> 'tile grid option" where
  "setTile merge x y z newTile g =
     (if unat z \<ge> MAP_MAX_LAYERS then Some g
      else
        (case ensure_leaf (ucast x) (ucast y) g of
           None \<Rightarrow> None
         | Some (l, g) \<Rightarrow> Some (upd_leaf l (put_tile merge x y (unat z) newTile) g)))"

section \<open>The invariant of the leaves\<close>

definition same_cell :: "u32 \<Rightarrow> u32 \<Rightarrow> u32 \<Rightarrow> u32 \<Rightarrow> bool" where
  "same_cell x y x' y' \<longleftrightarrow> same_bits 13 x x' \<and> same_bits 13 y y'"

lemma same_cell_equiv:
  "same_cell x y x y" "same_cell x y x' y' \<Longrightarrow> same_cell x' y' x y"
  "same_cell x y x' y' \<Longrightarrow> same_cell x' y' x'' y'' \<Longrightarrow> same_cell x y x'' y''"
  unfolding same_cell_def using same_bits_sym same_bits_trans by (simp, blast+)

definition grid_inv :: "'tile grid \<Rightarrow> bool" where
  "grid_inv g \<longleftrightarrow> qt_ok 13 (gr_root g) \<and> gr_root g \<noteq> QNull
     \<and> (\<forall>x y l. getLeaf (gr_root g) x y = Some l \<longrightarrow> l < gr_next g)
     \<and> (\<forall>x y x' y' l. getLeaf (gr_root g) x y = Some l \<and> getLeaf (gr_root g) x' y' = Some l \<longrightarrow> same_cell x y x' y')
     \<and> (\<forall>x y l. getLeaf (gr_root g) x y = Some l \<longrightarrow>
          leafS (gr_leaves g l) = getLeaf (gr_root g) x (y + 8) \<and> leafE (gr_leaves g l) = getLeaf (gr_root g) (x + 8) y)"

lemma grid_invD:
  assumes "grid_inv g"
  shows "qt_ok 13 (gr_root g)" and "gr_root g \<noteq> QNull"
    and "getLeaf (gr_root g) x y = Some l \<Longrightarrow> l < gr_next g"
    and "getLeaf (gr_root g) x y = Some l \<Longrightarrow> getLeaf (gr_root g) x' y' = Some l \<Longrightarrow> same_cell x y x' y'"
    and "getLeaf (gr_root g) x y = Some l \<Longrightarrow> leafS (gr_leaves g l) = getLeaf (gr_root g) x (y + 8)"
    and "getLeaf (gr_root g) x y = Some l \<Longrightarrow> leafE (gr_leaves g l) = getLeaf (gr_root g) (x + 8) y"
  using assms unfolding grid_inv_def by blast+

lemma new_grid_inv: "grid_inv new_grid"
proof -
  have "getLeaf empty_node x y = None" for x y by (simp add: empty_node_def pick_def)
  then show ?thesis by (simp add: grid_inv_def new_grid_def) (simp add: empty_node_def)
qed

lemma getLeaf_cell:
  assumes "grid_inv g" and "same_cell x y x' y'"
  shows "getLeaf (gr_root g) x y = getLeaf (gr_root g) x' y'"
  by (rule getLeaf_same_cell [OF grid_invD(1) [OF assms(1)]]) (use assms(2) in \<open>simp_all add: same_cell_def\<close>)

lemma leaf_at_getLeaf: "grid_inv g \<Longrightarrow> leaf_at g x y = getLeaf (gr_root g) x y"
  using grid_invD(1,2) [of g] getLeafStatic_getLeaf by (cases "gr_root g") (auto simp: leaf_at_def)

text \<open>Adding eight moves to the next cell: it commutes with being in one cell.\<close>

lemma bits_drop: "same_bits 13 x x' \<longleftrightarrow> take_bit 13 (drop_bit 3 x) = take_bit 13 (drop_bit 3 (x' :: u32))"
proof
  assume s: "same_bits 13 x x'"
  show "take_bit 13 (drop_bit 3 x) = take_bit 13 (drop_bit 3 x')"
  proof (rule bit_word_eqI)
    fix n assume "n < LENGTH(32)"
    show "bit (take_bit 13 (drop_bit 3 x)) n = bit (take_bit 13 (drop_bit 3 x')) n"
      using s [unfolded same_bits_def, rule_format, of "12 - n"] by (cases "n < 13") (simp_all add: bit_simps)
  qed
next
  assume e: "take_bit 13 (drop_bit 3 x) = take_bit 13 (drop_bit 3 x')"
  show "same_bits 13 x x'"
    unfolding same_bits_def
  proof (intro allI impI)
    fix k :: nat assume "k < 13"
    moreover have "12 - k < 13" by simp
    ultimately show "bit x (15 - k) = bit x' (15 - k)"
      using arg_cong [OF e, of "\<lambda>w. bit w (12 - k)"] by (simp add: bit_simps)
  qed
qed

lemma same_bits_value: "same_bits 13 x x' \<longleftrightarrow> unat x div 8 mod 8192 = unat x' div 8 mod 8192"
proof -
  have u: "unat (take_bit 13 (drop_bit 3 w)) = unat w div 8 mod 8192" for w :: u32
    by (simp add: unsigned_take_bit_eq unsigned_drop_bit_eq take_bit_eq_mod drop_bit_eq_div unat_div unat_mod)
  show ?thesis unfolding bits_drop unat_inject [symmetric] u ..
qed

definition cell_no :: "u32 \<Rightarrow> nat" where "cell_no x = unat x div 8 mod 8192"

lemma cell_no_add: "cell_no (x + 8) = (cell_no x + 1) mod 8192"
proof -
  have m: "n mod 4294967296 div 8 mod 8192 = n div 8 mod 8192" for n :: nat
  proof -
    have "n mod (8 * 536870912) = 8 * (n div 8 mod 536870912) + n mod 8" by (rule mod_mult2_eq)
    then have "n mod 4294967296 div 8 = n div 8 mod 536870912" by simp
    then show ?thesis by (simp add: mod_mod_cancel)
  qed
  have "unat (x + 8) = (unat x + 8) mod 4294967296" by (simp add: unat_word_ariths)
  then have "cell_no (x + 8) = (unat x + 8) div 8 mod 8192" by (simp only: cell_no_def m)
  also have "(unat x + 8) div 8 = unat x div 8 + 1" by (rule div_add_self2) simp
  also have "(unat x div 8 + 1) mod 8192 = (cell_no x + 1) mod 8192" by (simp add: cell_no_def mod_simps)
  finally show ?thesis .
qed

lemma same_bits_cell: "same_bits 13 x x' \<longleftrightarrow> cell_no x = cell_no x'"
  by (simp add: same_bits_value cell_no_def)

lemma cell_no_less: "cell_no x < 8192" by (simp add: cell_no_def)

lemma cell_add_inject: "cell_no (x + 8) = cell_no (x' + 8) \<longleftrightarrow> cell_no x = cell_no x'"
  using cell_no_less [of x] cell_no_less [of x']
  unfolding cell_no_add by (cases "cell_no x = 8191"; cases "cell_no x' = 8191") auto

lemma cell_move: "cell_no x = cell_no (x' + 8) \<longleftrightarrow> cell_no (x - 8) = cell_no x'"
  using cell_add_inject [of "x - 8" x'] by simp

lemma cell_moved: "cell_no (x - 8) \<noteq> cell_no x"
  using cell_no_add [of "x - 8"] cell_no_less [of "x - 8"] by (cases "cell_no (x - 8) = 8191") auto

lemma same_cell_no: "same_cell x y x' y' \<longleftrightarrow> cell_no x = cell_no x' \<and> cell_no y = cell_no y'"
  by (simp add: same_cell_def same_bits_cell)

lemma link_fields:
  assumes "getLeaf (gr_root g) x (y - 8) \<noteq> Some l" and "getLeaf (gr_root g) (x - 8) y \<noteq> Some l"
  shows "gr_root (link_new_leaf l x y g) = gr_root g" and "gr_next (link_new_leaf l x y g) = gr_next g"
    and "leafS (gr_leaves (link_new_leaf l x y g) k) =
      (if k = l then (case getLeaf (gr_root g) x (y + 8) of None \<Rightarrow> leafS (gr_leaves g l) | Some s \<Rightarrow> Some s)
       else if getLeaf (gr_root g) x (y - 8) = Some k then Some l else leafS (gr_leaves g k))"
    and "leafE (gr_leaves (link_new_leaf l x y g) k) =
      (if k = l then (case getLeaf (gr_root g) (x + 8) y of None \<Rightarrow> leafE (gr_leaves g l) | Some s \<Rightarrow> Some s)
       else if getLeaf (gr_root g) (x - 8) y = Some k then Some l else leafE (gr_leaves g k))"
    and "lf_floors (gr_leaves (link_new_leaf l x y g) k) = lf_floors (gr_leaves g k)"
    and "creature_list (gr_leaves (link_new_leaf l x y g) k) = creature_list (gr_leaves g k)"
    and "player_list (gr_leaves (link_new_leaf l x y g) k) = player_list (gr_leaves g k)"
  using assms by (auto simp: link_new_leaf_def upd_leaf_def Let_def split: option.splits)

definition leaf_ensured :: "u32 \<Rightarrow> u32 \<Rightarrow> 'tile grid \<Rightarrow> leaf_id \<Rightarrow> 'tile grid \<Rightarrow> bool" where
  "leaf_ensured x y g l g' \<longleftrightarrow> grid_inv g'
    \<and> (\<forall>x' y'. getLeaf (gr_root g') x' y' = (if same_cell x y x' y' then Some l else getLeaf (gr_root g) x' y'))
    \<and> (\<forall>k. k \<noteq> l \<or> getLeaf (gr_root g) x y = Some l \<longrightarrow>
          lf_floors (gr_leaves g' k) = lf_floors (gr_leaves g k) \<and> creature_list (gr_leaves g' k) = creature_list (gr_leaves g k)
          \<and> player_list (gr_leaves g' k) = player_list (gr_leaves g k))
    \<and> (getLeaf (gr_root g) x y \<noteq> Some l \<longrightarrow> getLeaf (gr_root g) x y = None \<and> lf_floors (gr_leaves g' l) = (\<lambda>z. None)
          \<and> creature_list (gr_leaves g' l) = [] \<and> player_list (gr_leaves g' l) = [])"

lemma leaf_ensuredD:
  assumes "leaf_ensured x y g l g'"
  shows "grid_inv g'"
    and "getLeaf (gr_root g') x' y' = (if same_cell x y x' y' then Some l else getLeaf (gr_root g) x' y')"
    and "k \<noteq> l \<or> getLeaf (gr_root g) x y = Some l \<Longrightarrow> lf_floors (gr_leaves g' k) = lf_floors (gr_leaves g k)"
    and "k \<noteq> l \<or> getLeaf (gr_root g) x y = Some l \<Longrightarrow> creature_list (gr_leaves g' k) = creature_list (gr_leaves g k)"
    and "k \<noteq> l \<or> getLeaf (gr_root g) x y = Some l \<Longrightarrow> player_list (gr_leaves g' k) = player_list (gr_leaves g k)"
    and "getLeaf (gr_root g) x y \<noteq> Some l \<Longrightarrow> getLeaf (gr_root g) x y = None"
    and "getLeaf (gr_root g) x y \<noteq> Some l \<Longrightarrow> lf_floors (gr_leaves g' l) = (\<lambda>z. None)"
    and "getLeaf (gr_root g) x y \<noteq> Some l \<Longrightarrow> creature_list (gr_leaves g' l) = []"
    and "getLeaf (gr_root g) x y \<noteq> Some l \<Longrightarrow> player_list (gr_leaves g' l) = []"
  using assms unfolding leaf_ensured_def by blast+

lemma ensure_leaf_ok:
  assumes g: "grid_inv g"
  shows "\<exists>l g'. ensure_leaf x y g = Some (l, g') \<and> leaf_ensured x y g l g'"
proof -
  note d = grid_invD [OF g]
  obtain root l b where c: "createLeaf 15 (gr_next g) (gr_root g) x y = Some (root, l, b)"
    and lc: "leaf_created 13 (gr_next g) (gr_root g) x y root l b"
    using createLeaf_created [OF d(1,2), of "gr_next g" x y] by auto
  have look: "getLeaf root x' y' = (if same_cell x y x' y' then Some l else getLeaf (gr_root g) x' y')" for x' y'
    using lc unfolding leaf_created_def same_cell_def by simp
  have shape: "qt_ok 13 root" "root \<noteq> QNull" using lc by (simp_all add: leaf_created_def)
  show ?thesis
  proof (cases b)
    case False
    then have old: "getLeaf (gr_root g) x y = Some l" using lc by (simp add: leaf_created_def)
    have e: "getLeaf root x' y' = getLeaf (gr_root g) x' y'" for x' y'
      using look getLeaf_cell [OF g, of x y x' y'] old by auto
    let ?g = "g\<lparr>gr_root := root\<rparr>"
    have "grid_inv ?g" using g shape by (simp add: grid_inv_def e)
    moreover have "ensure_leaf x y g = Some (l, ?g)" using c False by (simp add: ensure_leaf_def)
    ultimately show ?thesis using look old by (intro exI [of _ l] exI [of _ ?g]) (simp add: leaf_ensured_def)
  next
    case True
    then have new: "l = gr_next g" "getLeaf (gr_root g) x y = None" using lc by (simp_all add: leaf_created_def)
    let ?g = "g\<lparr>gr_root := root, gr_leaves := (gr_leaves g)(l := new_leaf), gr_next := Suc (gr_next g)\<rparr>"
    let ?h = "link_new_leaf l x y ?g"
    have ne: "getLeaf (gr_root g) x' y' \<noteq> Some l" for x' y' using d(3) [of x' y' l] new(1) by auto
    have nsc: "\<not> same_cell x y x (y - 8)" "\<not> same_cell x y (x - 8) y"
      using cell_moved [of x] cell_moved [of y] by (auto simp only: same_cell_no)
    have behind: "getLeaf root x0 y0 = Some k \<longleftrightarrow> same_cell x0 y0 x1 y1"
      if "\<not> same_cell x y x0 y0" "getLeaf (gr_root g) x1 y1 = Some k" for x0 y0 x1 y1 k
      using look [of x0 y0] that d(4) [of x0 y0 k x1 y1] getLeaf_cell [OF g, of x0 y0 x1 y1] by auto
    have n: "getLeaf (gr_root ?g) x (y - 8) \<noteq> Some l" "getLeaf (gr_root ?g) (x - 8) y \<noteq> Some l"
      using ne nsc by (simp_all add: look)
    note f = link_fields [OF n]
    have r: "gr_root ?h = root" by (simp add: f(1))
    have south: "leafS (gr_leaves ?h k) = getLeaf root x1 (y1 + 8)" if k: "getLeaf root x1 y1 = Some k" for x1 y1 k
    proof (cases "same_cell x y x1 y1")
      case True
      then have "k = l" using k look by simp
      moreover have "getLeaf root x (y + 8) = getLeaf root x1 (y1 + 8)"
        by (rule getLeaf_same_cell [OF shape(1)]) (use True in \<open>simp_all add: same_cell_no same_bits_cell cell_add_inject\<close>)
      ultimately show ?thesis using f(3) [of k] by (auto simp: new_leaf_def split: option.split)
    next
      case False
      then have old: "getLeaf (gr_root g) x1 y1 = Some k" "k \<noteq> l" using k look ne by auto
      have "getLeaf root x (y - 8) = Some k \<longleftrightarrow> same_cell x y x1 (y1 + 8)"
        unfolding behind [OF nsc(1) old(1)] same_cell_no by (simp only: cell_move)
      then show ?thesis using f(3) [of k] old look [of x1 "y1 + 8"] d(5) [OF old(1)] by auto
    qed
    have east: "leafE (gr_leaves ?h k) = getLeaf root (x1 + 8) y1" if k: "getLeaf root x1 y1 = Some k" for x1 y1 k
    proof (cases "same_cell x y x1 y1")
      case True
      then have "k = l" using k look by simp
      moreover have "getLeaf root (x + 8) y = getLeaf root (x1 + 8) y1"
        by (rule getLeaf_same_cell [OF shape(1)]) (use True in \<open>simp_all add: same_cell_no same_bits_cell cell_add_inject\<close>)
      ultimately show ?thesis using f(4) [of k] by (auto simp: new_leaf_def split: option.split)
    next
      case False
      then have old: "getLeaf (gr_root g) x1 y1 = Some k" "k \<noteq> l" using k look ne by auto
      have "getLeaf root (x - 8) y = Some k \<longleftrightarrow> same_cell x y (x1 + 8) y1"
        unfolding behind [OF nsc(2) old(1)] same_cell_no by (simp only: cell_move)
      then show ?thesis using f(4) [of k] old look [of "x1 + 8" y1] d(6) [OF old(1)] by auto
    qed
    have "grid_inv ?h"
      unfolding grid_inv_def r f(2)
    proof (intro conjI allI impI)
      show "qt_ok 13 root" "root \<noteq> QNull" by (rule shape)+
    next
      fix x1 y1 k assume k: "getLeaf root x1 y1 = Some k"
      then show "k < gr_next ?g" using look d(3) [of x1 y1 k] new(1) by (auto split: if_splits)
      show "leafS (gr_leaves ?h k) = getLeaf root x1 (y1 + 8)" by (rule south [OF k])
      show "leafE (gr_leaves ?h k) = getLeaf root (x1 + 8) y1" by (rule east [OF k])
    next
      fix x1 y1 x2 y2 k assume "getLeaf root x1 y1 = Some k \<and> getLeaf root x2 y2 = Some k"
      then show "same_cell x1 y1 x2 y2"
        using d(4) [of x1 y1 k x2 y2] ne by (auto simp: look same_cell_no split: if_splits)
    qed
    moreover have "ensure_leaf x y g = Some (l, ?h)" using c True by (simp add: ensure_leaf_def)
    ultimately show ?thesis using look new r f(5-7) by (intro exI [of _ l] exI [of _ ?h]) (simp add: leaf_ensured_def new_leaf_def)
  qed
qed

section \<open>Tiles\<close>

lemma unat_ucast_u16: "unat (ucast (x :: u16) :: u32) = unat x"
proof -
  have "unat x < 2 ^ 16" using unat_bound [of x] by simp
  then show ?thesis by (simp add: unsigned_ucast_eq take_bit_nat_eq_self)
qed

lemma cell_no_u16: "cell_no (ucast (x :: u16)) = unat x div 8"
proof -
  have "unat x < 65536" using unat_bound [of x] by simp
  then show ?thesis by (simp add: cell_no_def unat_ucast_u16)
qed

lemma unat_floor_mask: "unat (x AND FLOOR_MASK) = unat x mod 8"
proof -
  have "x AND FLOOR_MASK = take_bit 3 x" by (simp add: FLOOR_MASK_def take_bit_eq_mask mask_eq_exp_minus_1)
  then show ?thesis by (simp add: unsigned_take_bit_eq take_bit_eq_mod unat_mod)
qed

lemma tile_slot_inject:
  "same_cell (ucast x) (ucast y) (ucast x') (ucast y') \<and> (x AND FLOOR_MASK, y AND FLOOR_MASK) = (x' AND FLOOR_MASK, y' AND FLOOR_MASK)
    \<longleftrightarrow> x = x' \<and> y = y'"
proof -
  have "unat a div 8 = unat b div 8 \<and> a AND FLOOR_MASK = b AND FLOOR_MASK \<longleftrightarrow> a = b" for a b :: u16
    unfolding unat_inject [symmetric] unat_floor_mask by (metis div_mult_mod_eq)
  then show ?thesis unfolding same_cell_no cell_no_u16 by auto
qed

definition slot :: "'tile grid_leaf \<Rightarrow> nat \<Rightarrow> u16 \<times> u16 \<Rightarrow> 'tile option" where
  "slot lf z p = (case lf_floors lf z of None \<Rightarrow> None | Some tiles \<Rightarrow> tiles p)"

lemma getTile_slot:
  assumes "grid_inv g"
  shows "getTile g x y z =
    (if unat z \<ge> MAP_MAX_LAYERS then None
     else (case getLeaf (gr_root g) (ucast x) (ucast y) of
             None \<Rightarrow> None | Some l \<Rightarrow> slot (gr_leaves g l) (unat z) (x AND FLOOR_MASK, y AND FLOOR_MASK)))"
  using assms by (auto simp: getTile_def slot_def leaf_at_getLeaf split: option.split)

lemma slot_put_tile:
  "slot (put_tile merge x y z t lf) z' p =
     (if z' = z \<and> p = (x AND FLOOR_MASK, y AND FLOOR_MASK)
      then Some (case slot lf z p of None \<Rightarrow> t | Some u \<Rightarrow> merge u t) else slot lf z' p)"
  by (auto simp: slot_def put_tile_def createFloor_def Let_def split: option.splits)

lemma put_tile_fields [simp]:
  "leafS (put_tile merge x y z t lf) = leafS lf" "leafE (put_tile merge x y z t lf) = leafE lf"
  "creature_list (put_tile merge x y z t lf) = creature_list lf" "player_list (put_tile merge x y z t lf) = player_list lf"
  by (simp_all add: put_tile_def createFloor_def Let_def)

lemma upd_leaf_inv:
  assumes "grid_inv g" and "\<And>lf. leafS (f lf) = leafS lf \<and> leafE (f lf) = leafE lf"
  shows "grid_inv (upd_leaf l f g)"
proof -
  have r: "gr_root (upd_leaf l f g) = gr_root g" "gr_next (upd_leaf l f g) = gr_next g"
    "leafS (gr_leaves (upd_leaf l f g) k) = leafS (gr_leaves g k)" "leafE (gr_leaves (upd_leaf l f g) k) = leafE (gr_leaves g k)" for k
    using assms(2) by (simp_all add: upd_leaf_def)
  show ?thesis using assms(1) unfolding grid_inv_def r .
qed

section \<open>What putting a tile changes\<close>

lemma setTile_defined:
  assumes "grid_inv g"
  shows "\<exists>g'. setTile merge x y z t g = Some g'"
  using ensure_leaf_ok [OF assms, of "ucast x" "ucast y"] by (auto simp: setTile_def)

lemma setTile_some:
  assumes "grid_inv g" and "setTile merge x y z t g = Some g'"
  shows "grid_inv g'
    \<and> (\<forall>x' y' z'. getTile g' x' y' z' =
          (if unat z < MAP_MAX_LAYERS \<and> (x', y', z') = (x, y, z)
           then Some (case getTile g x y z of None \<Rightarrow> t | Some u \<Rightarrow> merge u t) else getTile g x' y' z'))"
proof (cases "unat z < MAP_MAX_LAYERS")
  case False
  then show ?thesis using assms by (auto simp: setTile_def)
next
  case True
  obtain l g1 where e: "ensure_leaf (ucast x) (ucast y) g = Some (l, g1)" and le: "leaf_ensured (ucast x) (ucast y) g l g1"
    using ensure_leaf_ok [OF assms(1), of "ucast x" "ucast y"] by blast
  note i = leaf_ensuredD(1) [OF le] and look = leaf_ensuredD(2) [OF le] and keep = leaf_ensuredD(3) [OF le]
    and new = leaf_ensuredD(6,7) [OF le]
  let ?g = "upd_leaf l (put_tile merge x y (unat z) t) g1"
  let ?at = "\<lambda>g x' y'. getLeaf (gr_root g) (ucast x') (ucast y')"
  have ig: "grid_inv ?g" by (rule upd_leaf_inv [OF i]) simp
  have r: "gr_root ?g = gr_root g1" by (simp add: upd_leaf_def)
  have old: "(case ?at g x' y' of None \<Rightarrow> None | Some k \<Rightarrow> slot (gr_leaves g k) z' p)
      = (case ?at g1 x' y' of None \<Rightarrow> None | Some k \<Rightarrow> slot (gr_leaves g1 k) z' p)" for x' y' z' p
  proof (cases "same_cell (ucast x) (ucast y) (ucast x') (ucast y')")
    case True
    then have s: "?at g x' y' = ?at g x y" using getLeaf_cell [OF assms(1) True] by simp
    show ?thesis
    proof (cases "?at g x y = Some l")
      case True
      then show ?thesis using s look [of "ucast x'" "ucast y'"] keep [of l] by (auto simp: slot_def)
    next
      case False
      then show ?thesis using s True look [of "ucast x'" "ucast y'"] new(1) [OF False] new(2) [OF False] by (simp add: slot_def)
    qed
  next
    case False
    have "k \<noteq> l \<or> ?at g x y = Some l" if "?at g x' y' = Some k" for k
    proof (cases "k = l")
      case True
      then have "getLeaf (gr_root g1) (ucast x') (ucast y') = Some l" using that False look by simp
      moreover have "getLeaf (gr_root g1) (ucast x) (ucast y) = Some l" using look same_cell_equiv(1) by simp
      ultimately have "same_cell (ucast x) (ucast y) (ucast x') (ucast y')" using grid_invD(4) [OF i] by blast
      with False show ?thesis by simp
    qed simp
    then show ?thesis using False look [of "ucast x'" "ucast y'"] keep by (auto simp: slot_def split: option.split)
  qed
  have "getTile ?g x' y' z' =
      (if (x', y', z') = (x, y, z) then Some (case getTile g x y z of None \<Rightarrow> t | Some u \<Rightarrow> merge u t) else getTile g x' y' z')" for x' y' z'
  proof -
    have z: "unat z' = unat z \<longleftrightarrow> z' = z" by (rule unat_inject)
    have L: "?at g1 x' y' = Some l \<longleftrightarrow> same_cell (ucast x) (ucast y) (ucast x') (ucast y')"
      using look [of "ucast x'" "ucast y'"] look [of "ucast x" "ucast y"] same_cell_equiv(1)
        grid_invD(4) [OF i, of "ucast x" "ucast y" l "ucast x'" "ucast y'"] by auto
    have sl: "slot (gr_leaves ?g k) (unat z') (x' AND FLOOR_MASK, y' AND FLOOR_MASK) =
        (if (x', y', z') = (x, y, z)
         then Some (case slot (gr_leaves g1 k) (unat z') (x' AND FLOOR_MASK, y' AND FLOOR_MASK) of None \<Rightarrow> t | Some u \<Rightarrow> merge u t)
         else slot (gr_leaves g1 k) (unat z') (x' AND FLOOR_MASK, y' AND FLOOR_MASK))"
      if "?at g1 x' y' = Some k" for k
    proof (cases "k = l")
      case True
      then have "same_cell (ucast x) (ucast y) (ucast x') (ucast y')" using that L by simp
      then have p: "(x AND FLOOR_MASK, y AND FLOOR_MASK) = (x' AND FLOOR_MASK, y' AND FLOOR_MASK) \<longleftrightarrow> x' = x \<and> y' = y"
        using tile_slot_inject [of x y x' y'] by auto
      have "slot (gr_leaves ?g k) = slot (put_tile merge x y (unat z) t (gr_leaves g1 k))"
        using True by (simp add: upd_leaf_def)
      then show ?thesis using p by (simp only: slot_put_tile z prod.inject) auto
    next
      case False
      then have "\<not> same_cell (ucast x) (ucast y) (ucast x') (ucast y')" using that L by simp
      then have "(x', y') \<noteq> (x, y)" using same_cell_equiv(1) by auto
      then show ?thesis using False by (auto simp: upd_leaf_def)
    qed
    have here: "?at g1 x y = Some l" using look same_cell_equiv(1) by simp
    show ?thesis
    proof (cases "?at g1 x' y'")
      case None
      then have "(x', y') \<noteq> (x, y)" using here by auto
      then show ?thesis unfolding getTile_slot [OF ig] getTile_slot [OF assms(1)] old r using None by auto
    next
      case (Some k)
      show ?thesis unfolding getTile_slot [OF ig] getTile_slot [OF assms(1)] old r Some option.case sl [OF Some]
        using True here Some by auto
    qed
  qed
  moreover have "g' = ?g" using assms(2) e True by (simp add: setTile_def)
  ultimately show ?thesis using True ig by simp
qed

section \<open>Properties of tiles\<close>

text \<open>
  C25. The map is a map from positions to tiles: putting a tile at a position succeeds, changes what
  is read at that position only (to the new tile, or to the old one with its contents merged
  in), ignores floors above the last, and keeps the leaves linked to their neighbours.
\<close>

theorem getTile_setTile:
  assumes "grid_inv g"
  shows "\<exists>g'. setTile merge x y z t g = Some g' \<and> grid_inv g'
    \<and> (\<forall>x' y' z'. getTile g' x' y' z' =
          (if unat z < MAP_MAX_LAYERS \<and> (x', y', z') = (x, y, z)
           then Some (case getTile g x y z of None \<Rightarrow> t | Some u \<Rightarrow> merge u t) else getTile g x' y' z'))"
proof -
  obtain g' where "setTile merge x y z t g = Some g'" using setTile_defined [OF assms] by blast
  with setTile_some [OF assms this] show ?thesis by (intro exI [of _ g']) simp
qed

text \<open>The theorem applies to the map that is still empty: a first tile is stored and read back.\<close>

theorem getTile_setTile_witness:
  "\<exists>g. setTile (\<lambda>a b. a) 100 200 7 (5 :: nat) new_grid = Some g \<and> getTile g 100 200 7 = Some 5 \<and> getTile g 100 201 7 = None"
proof -
  have n: "getTile new_grid x y z = None" for x y z
    by (simp add: getTile_def leaf_at_def new_grid_def empty_node_def pick_def)
  show ?thesis
    using getTile_setTile [OF new_grid_inv, of "\<lambda>a b. a" 100 200 7 "5 :: nat"] by (auto simp: n MAP_MAX_LAYERS_def)
qed

section \<open>The leaves after a tile is put\<close>

text \<open>Putting a tile keeps the leaves and what they list; a new leaf lists no creature.\<close>

lemma setTile_leaves:
  assumes g: "grid_inv g" and run: "setTile merge x y z t g = Some g'"
  shows "getLeaf (gr_root g) a b = Some k \<Longrightarrow> getLeaf (gr_root g') a b = Some k"
    and "getLeaf (gr_root g') a b = Some k \<Longrightarrow>
      getLeaf (gr_root g) a b = Some k \<and> creature_list (gr_leaves g' k) = creature_list (gr_leaves g k)
        \<and> player_list (gr_leaves g' k) = player_list (gr_leaves g k)
      \<or> getLeaf (gr_root g) a b = None \<and> creature_list (gr_leaves g' k) = [] \<and> player_list (gr_leaves g' k) = []"
proof -
  let ?x = "ucast x :: u32" and ?y = "ucast y :: u32"
  have both: "(getLeaf (gr_root g) a b = Some k \<longrightarrow> getLeaf (gr_root g') a b = Some k) \<and> (getLeaf (gr_root g') a b = Some k \<longrightarrow>
      getLeaf (gr_root g) a b = Some k \<and> creature_list (gr_leaves g' k) = creature_list (gr_leaves g k)
        \<and> player_list (gr_leaves g' k) = player_list (gr_leaves g k)
      \<or> getLeaf (gr_root g) a b = None \<and> creature_list (gr_leaves g' k) = [] \<and> player_list (gr_leaves g' k) = [])"
  proof (cases "unat z \<ge> MAP_MAX_LAYERS")
    case True
    then show ?thesis using run by (simp add: setTile_def)
  next
    case False
    obtain l g1 where e: "ensure_leaf ?x ?y g = Some (l, g1)" and le: "leaf_ensured ?x ?y g l g1"
      using ensure_leaf_ok [OF g, of ?x ?y] by blast
    have g': "g' = upd_leaf l (put_tile merge x y (unat z) t) g1" using run False e by (simp add: setTile_def)
    have r: "gr_root g' = gr_root g1" "creature_list (gr_leaves g' k) = creature_list (gr_leaves g1 k)"
      "player_list (gr_leaves g' k) = player_list (gr_leaves g1 k)"
      by (simp_all add: g' upd_leaf_def)
    note look = leaf_ensuredD(2) [OF le, of a b] and here = leaf_ensuredD(2) [OF le, of ?x ?y, simplified same_cell_equiv if_True]
      and keep = leaf_ensuredD(4,5) [OF le, of k] and new = leaf_ensuredD(6) [OF le] leaf_ensuredD(8,9) [OF le]
    show ?thesis
    proof (cases "same_cell ?x ?y a b")
      case True
      then have s: "getLeaf (gr_root g) a b = getLeaf (gr_root g) ?x ?y" using getLeaf_cell [OF g True] by simp
      show ?thesis
        using look True s keep new r by (cases "getLeaf (gr_root g) ?x ?y = Some l") auto
    next
      case False
      have "k \<noteq> l" if "getLeaf (gr_root g1) a b = Some k"
        using that False here grid_invD(4) [OF leaf_ensuredD(1) [OF le], of ?x ?y l a b] by auto
      then show ?thesis using look False keep r by auto
    qed
  qed
  then show "getLeaf (gr_root g) a b = Some k \<Longrightarrow> getLeaf (gr_root g') a b = Some k"
    and "getLeaf (gr_root g') a b = Some k \<Longrightarrow>
      getLeaf (gr_root g) a b = Some k \<and> creature_list (gr_leaves g' k) = creature_list (gr_leaves g k)
        \<and> player_list (gr_leaves g' k) = player_list (gr_leaves g k)
      \<or> getLeaf (gr_root g) a b = None \<and> creature_list (gr_leaves g' k) = [] \<and> player_list (gr_leaves g' k) = []"
    by blast+
qed

end
