(* ===== verification/Spectators.thy ===== *)
theory Spectators
  imports Map_Grid
begin

text \<open>
  The creatures on the map and the search for the spectators of a position
  (\<^verbatim>\<open>getSpectators\<close>, \<^verbatim>\<open>moveCreature\<close> and
  \<^verbatim>\<open>placeCreature\<close> of \<^verbatim>\<open>src/src/map.cpp\<close>, the
  creature branches of \<^verbatim>\<open>src/src/tile.cpp\<close>,
  \<^verbatim>\<open>src/src/spectators.h\<close>): each leaf of the map lists the creatures in its
  cell, a search walks the leaves through their links, and two caches keep the result of the
  common searches until a creature moves. A creature is a number; which of them are players is a
  parameter (a virtual function of the class).
\<close>

section \<open>Vectors of spectators\<close>

text \<open>\<^verbatim>\<open>SpectatorVec\<close>: \<open>erase\<close> is \<open>swap_erase\<close>.\<close>

fun addSpectators :: "creature_id list \<Rightarrow> creature_id list \<Rightarrow> creature_id list" where
  "addSpectators vec [] = vec"
| "addSpectators vec (c # cs) = addSpectators (if c \<in> set vec then vec else vec @ [c]) cs"

lemma addSpectators_set [simp]: "set (addSpectators vec cs) = set vec \<union> set cs"
  by (induction vec cs rule: addSpectators.induct) auto

lemma addSpectators_distinct [simp]: "distinct (addSpectators vec cs) = distinct vec"
  by (induction vec cs rule: addSpectators.induct) auto

lemma addSpectators_Nil [simp]: "distinct cs \<Longrightarrow> addSpectators [] cs = cs"
proof -
  have "distinct (vec @ cs) \<Longrightarrow> addSpectators vec cs = vec @ cs" for vec
    by (induction vec cs rule: addSpectators.induct) auto
  then show "distinct cs \<Longrightarrow> addSpectators [] cs = cs" by simp
qed

section \<open>The world\<close>

text \<open>
  \<open>w_pos\<close> is the member \<^verbatim>\<open>position\<close> of a creature that was placed (set together
  with its tile by \<^verbatim>\<open>setParent\<close>), \<open>w_tiles\<close> the vector of creatures of the tile at a
  position.
\<close>

record 'tile world =
  w_grid :: "'tile grid"
  w_pos :: "creature_id \<rightharpoonup> position"
  w_tiles :: "position \<Rightarrow> creature_id list"
  w_dir :: "creature_id \<Rightarrow> direction"
  spectatorCache :: "position \<rightharpoonup> creature_id list"
  playersSpectatorCache :: "position \<rightharpoonup> creature_id list"

definition clearSpectatorCache :: "'tile world \<Rightarrow> 'tile world" where
  "clearSpectatorCache w = w\<lparr>spectatorCache := Map.empty\<rparr>"

definition clearPlayersSpectatorCache :: "'tile world \<Rightarrow> 'tile world" where
  "clearPlayersSpectatorCache w = w\<lparr>playersSpectatorCache := Map.empty\<rparr>"

definition getQTNode :: "u16 \<Rightarrow> u16 \<Rightarrow> 'tile world \<Rightarrow> leaf_id option" where
  "getQTNode x y w = leaf_at (w_grid w) (ucast x) (ucast y)"

definition tile_of :: "'tile world \<Rightarrow> position \<Rightarrow> 'tile option" where
  "tile_of w p = getTile (w_grid w) (pos_x p) (pos_y p) (pos_z p)"

subsection \<open>The lists of a leaf\<close>

definition leaf_addCreature :: "(creature_id \<Rightarrow> bool) \<Rightarrow> creature_id \<Rightarrow> 'tile grid_leaf \<Rightarrow> 'tile grid_leaf" where
  "leaf_addCreature player c lf =
     (let lf = lf\<lparr>creature_list := creature_list lf @ [c]\<rparr>
      in if player c then lf\<lparr>player_list := player_list lf @ [c]\<rparr> else lf)"

text \<open>None where the iterator of a creature that is not listed would be written through.\<close>

definition leaf_removeCreature ::
  "(creature_id \<Rightarrow> bool) \<Rightarrow> creature_id \<Rightarrow> 'tile grid_leaf \<Rightarrow> 'tile grid_leaf option" where
  "leaf_removeCreature player c lf =
     (if c \<notin> set (creature_list lf) then None
      else
        let lf = lf\<lparr>creature_list := swap_erase c (creature_list lf)\<rparr>
        in if player c
           then (if c \<notin> set (player_list lf) then None else Some (lf\<lparr>player_list := swap_erase c (player_list lf)\<rparr>))
           else Some lf)"

definition node_addCreature :: "(creature_id \<Rightarrow> bool) \<Rightarrow> creature_id \<Rightarrow> leaf_id option \<Rightarrow> 'tile world \<Rightarrow> 'tile world option" where
  "node_addCreature player c node w =
     (case node of
        None \<Rightarrow> None
      | Some l \<Rightarrow> Some (w\<lparr>w_grid := upd_leaf l (leaf_addCreature player c) (w_grid w)\<rparr>))"

definition node_removeCreature :: "(creature_id \<Rightarrow> bool) \<Rightarrow> creature_id \<Rightarrow> leaf_id option \<Rightarrow> 'tile world \<Rightarrow> 'tile world option" where
  "node_removeCreature player c node w =
     (case node of
        None \<Rightarrow> None
      | Some l \<Rightarrow>
          (case leaf_removeCreature player c (gr_leaves (w_grid w) l) of
             None \<Rightarrow> None
           | Some lf \<Rightarrow> Some (w\<lparr>w_grid := upd_leaf l (\<lambda>_. lf) (w_grid w)\<rparr>)))"

subsection \<open>The creatures of a tile\<close>

definition clear_caches :: "(creature_id \<Rightarrow> bool) \<Rightarrow> creature_id \<Rightarrow> 'tile world \<Rightarrow> 'tile world" where
  "clear_caches player c w =
     (let w = clearSpectatorCache w in if player c then clearPlayersSpectatorCache w else w)"

definition tile_addCreature :: "(creature_id \<Rightarrow> bool) \<Rightarrow> position \<Rightarrow> creature_id \<Rightarrow> 'tile world \<Rightarrow> 'tile world" where
  "tile_addCreature player p c w =
     (let w = clear_caches player c w;
          w = w\<lparr>w_pos := (w_pos w)(c \<mapsto> p)\<rparr>
      in w\<lparr>w_tiles := (w_tiles w)(p := c # w_tiles w p)\<rparr>)"

definition tile_removeThing :: "(creature_id \<Rightarrow> bool) \<Rightarrow> position \<Rightarrow> creature_id \<Rightarrow> 'tile world \<Rightarrow> 'tile world" where
  "tile_removeThing player p c w =
     (if c \<in> set (w_tiles w p)
      then let w = clear_caches player c w in w\<lparr>w_tiles := (w_tiles w)(p := remove1 c (w_tiles w p))\<rparr>
      else w)"

definition tile_removeCreature ::
  "(creature_id \<Rightarrow> bool) \<Rightarrow> position \<Rightarrow> creature_id \<Rightarrow> 'tile world \<Rightarrow> 'tile world option" where
  "tile_removeCreature player p c w =
     (case node_removeCreature player c (getQTNode (pos_x p) (pos_y p) w) w of
        None \<Rightarrow> None
      | Some w \<Rightarrow> Some (tile_removeThing player p c w))"

section \<open>The search\<close>

text \<open>The walk over a row or a column of leaves: along the link of a leaf, by a search of the
  tree where there is none.\<close>

function walk_line ::
  "(leaf_id \<Rightarrow> leaf_id option) \<Rightarrow> (int \<Rightarrow> leaf_id option) \<Rightarrow> leaf_id option \<Rightarrow> int \<Rightarrow> int \<Rightarrow> (int \<times> leaf_id option) list" where
  "walk_line follow look node n end =
     (if n > end then []
      else
        (n, node) # walk_line follow look (case node of Some l \<Rightarrow> follow l | None \<Rightarrow> look (n + FLOOR_SIZE))
          (n + FLOOR_SIZE) end)"
  by pat_completeness auto
termination
  by (relation "measure (\<lambda>(_, _, _, n, end). nat (end + 1 - n))") (auto simp: FLOOR_SIZE_def)

declare walk_line.simps [simp del]

definition clamp_u16 :: "int \<Rightarrow> int" where "clamp_u16 v = min 0xFFFF (max 0 v)"

definition look_at :: "'tile grid \<Rightarrow> int \<Rightarrow> int \<Rightarrow> leaf_id option" where
  "look_at g x y = leaf_at g (word_of_int x) (word_of_int y)"

text \<open>What the inner loop keeps of the list of a leaf.\<close>

definition in_search_window :: "position \<Rightarrow> int \<times> int \<times> int \<times> int \<Rightarrow> int \<times> int \<Rightarrow> position \<Rightarrow> bool" where
  "in_search_window centerPos bounds zs cpos =
     (let (min_x, max_x, min_y, max_y) = bounds; (minRangeZ, maxRangeZ) = zs; offsetZ = getOffsetZ centerPos cpos
      in if minRangeZ > getZ cpos \<or> maxRangeZ < getZ cpos then False
         else \<not> (min_y + offsetZ > getY cpos \<or> max_y + offsetZ < getY cpos
                  \<or> min_x + offsetZ > getX cpos \<or> max_x + offsetZ < getX cpos))"

text \<open>\<open>ranges\<close> are the signed ranges: least and greatest for x, then for y.\<close>

definition getSpectatorsInternal ::
  "'tile grid \<Rightarrow> (creature_id \<Rightarrow> position) \<Rightarrow> creature_id list \<Rightarrow> position \<Rightarrow> int \<times> int \<times> int \<times> int \<Rightarrow> int \<times> int
    \<Rightarrow> bool \<Rightarrow> creature_id list" where
  "getSpectatorsInternal g cpos spectators centerPos ranges zs onlyPlayers =
     (let (minRangeX, maxRangeX, minRangeY, maxRangeY) = ranges; (minRangeZ, maxRangeZ) = zs;
          min_y = getY centerPos + minRangeY; min_x = getX centerPos + minRangeX;
          max_y = getY centerPos + maxRangeY; max_x = getX centerPos + maxRangeX;
          minoffset = getZ centerPos - maxRangeZ;
          x1 = clamp_u16 (min_x + minoffset); y1 = clamp_u16 (min_y + minoffset);
          maxoffset = getZ centerPos - minRangeZ;
          x2 = clamp_u16 (max_x + maxoffset); y2 = clamp_u16 (max_y + maxoffset);
          startx1 = x1 - x1 mod FLOOR_SIZE; starty1 = y1 - y1 mod FLOOR_SIZE;
          endx2 = x2 - x2 mod FLOOR_SIZE; endy2 = y2 - y2 mod FLOOR_SIZE;
          keep = in_search_window centerPos (min_x, max_x, min_y, max_y) zs;
          list = (\<lambda>l. if onlyPlayers then player_list (gr_leaves g l) else creature_list (gr_leaves g l))
      in spectators @ concat (map (\<lambda>(ny, rowLeaf).
           concat (map (\<lambda>(nx, leaf). case leaf of None \<Rightarrow> [] | Some l \<Rightarrow> filter (\<lambda>c. keep (cpos c)) (list l))
             (walk_line (\<lambda>l. leafE (gr_leaves g l)) (\<lambda>x. look_at g x ny) rowLeaf startx1 endx2)))
           (walk_line (\<lambda>l. leafS (gr_leaves g l)) (\<lambda>y. look_at g startx1 y) (look_at g startx1 starty1) starty1 endy2)))"

definition maxViewportX :: int where "maxViewportX = 15"
definition maxViewportY :: int where "maxViewportY = 9"

definition floor_range :: "position \<Rightarrow> bool \<Rightarrow> int \<times> int" where
  "floor_range centerPos multifloor =
     (let z = getZ centerPos in
      if multifloor then
        (if z > 7 then (max (z - 2) 0, min (z + 2) (int MAP_MAX_LAYERS - 1))
         else if z = 6 then (0, 8)
         else if z = 7 then (0, 9)
         else (0, 7))
      else (z, z))"

definition positions :: "'tile world \<Rightarrow> creature_id \<Rightarrow> position" where
  "positions w c = (case w_pos w c of None \<Rightarrow> Position 0 0 0 | Some p \<Rightarrow> p)"

definition find_viewers ::
  "'tile world \<Rightarrow> creature_id list \<Rightarrow> position \<Rightarrow> bool \<Rightarrow> bool \<Rightarrow> int \<times> int \<times> int \<times> int \<Rightarrow> creature_id list" where
  "find_viewers w spectators centerPos multifloor onlyPlayers ranges =
     getSpectatorsInternal (w_grid w) (positions w) spectators centerPos ranges (floor_range centerPos multifloor) onlyPlayers"

text \<open>
  \<open>getSpectators\<close> gives the vector and the world, whose caches it fills. The arguments
  \<open>ranges\<close> are minRangeX, maxRangeX, minRangeY and maxRangeY as they are passed.
\<close>

definition view_ranges :: "int \<times> int \<times> int \<times> int \<Rightarrow> int \<times> int \<times> int \<times> int" where
  "view_ranges ranges =
     (let (minRangeX, maxRangeX, minRangeY, maxRangeY) = ranges
      in (if minRangeX = 0 then - maxViewportX else - minRangeX, if maxRangeX = 0 then maxViewportX else maxRangeX,
          if minRangeY = 0 then - maxViewportY else - minRangeY, if maxRangeY = 0 then maxViewportY else maxRangeY))"

definition cached :: "(creature_id \<Rightarrow> bool) \<Rightarrow> 'tile world \<Rightarrow> creature_id list \<Rightarrow> position \<Rightarrow> bool \<Rightarrow> creature_id list option" where
  "cached player w spectators centerPos onlyPlayers =
     (case (if onlyPlayers then playersSpectatorCache w centerPos else None) of
        Some cs \<Rightarrow> Some (if spectators \<noteq> [] then addSpectators spectators cs else cs)
      | None \<Rightarrow>
          (case spectatorCache w centerPos of
             Some cs \<Rightarrow>
               Some (if \<not> onlyPlayers then (if spectators \<noteq> [] then addSpectators spectators cs else cs)
                     else spectators @ filter player cs)
           | None \<Rightarrow> None))"

definition getSpectators ::
  "(creature_id \<Rightarrow> bool) \<Rightarrow> 'tile world \<Rightarrow> creature_id list \<Rightarrow> position \<Rightarrow> bool \<Rightarrow> bool \<Rightarrow> int \<times> int \<times> int \<times> int
    \<Rightarrow> creature_id list \<times> 'tile world" where
  "getSpectators player w spectators centerPos multifloor onlyPlayers args =
     (if getZ centerPos \<ge> int MAP_MAX_LAYERS then (spectators, w)
      else
        let ranges = view_ranges args;
            common = (ranges = (- maxViewportX, maxViewportX, - maxViewportY, maxViewportY) \<and> multifloor);
            found = (if common then cached player w spectators centerPos onlyPlayers else None);
            cacheResult = common
        in case found of
             Some result \<Rightarrow> (result, w)
           | None \<Rightarrow>
               (let result = find_viewers w spectators centerPos multifloor onlyPlayers ranges
                in (result,
                    if cacheResult then
                      (if onlyPlayers then w\<lparr>playersSpectatorCache := (playersSpectatorCache w)(centerPos \<mapsto> result)\<rparr>
                       else w\<lparr>spectatorCache := (spectatorCache w)(centerPos \<mapsto> result)\<rparr>)
                    else w)))"

section \<open>The walk along the links\<close>

function eights :: "int \<Rightarrow> int \<Rightarrow> int list" where
  "eights n end = (if n > end then [] else n # eights (n + FLOOR_SIZE) end)"
  by pat_completeness auto
termination
  by (relation "measure (\<lambda>(n, end). nat (end + 1 - n))") (auto simp: FLOOR_SIZE_def)

declare eights.simps [simp del]

lemma set_eights: "m \<in> set (eights n end) \<longleftrightarrow> n \<le> m \<and> m \<le> end \<and> (m - n) mod 8 = 0"
proof (induction n "end" rule: eights.induct)
  case (1 n e)
  show ?case
  proof (cases "n > e")
    case False
    have "m = n \<or> n + 8 \<le> m \<and> m \<le> e \<and> (m - (n + 8)) mod 8 = 0 \<longleftrightarrow> n \<le> m \<and> m \<le> e \<and> (m - n) mod 8 = 0"
      using False by presburger
    then show ?thesis using 1 False by (subst eights.simps) (simp add: FLOOR_SIZE_def)
  qed (subst eights.simps, auto)
qed

lemma distinct_eights [simp]: "distinct (eights n end)"
proof (induction n "end" rule: eights.induct)
  case (1 n e)
  then show ?case by (subst eights.simps) (auto simp: set_eights FLOOR_SIZE_def)
qed

text \<open>
  A line of leaves: \<open>follow\<close> is the link of a leaf and \<open>look\<close> the search of the tree. The link
  of the leaf at \<open>n\<close> is what the tree has eight further on; then a walk meets the leaves of the
  tree.
\<close>

locale leaf_line =
  fixes inv :: "'s \<Rightarrow> bool"
    and follow :: "'s \<Rightarrow> leaf_id \<Rightarrow> leaf_id option"
    and look :: "'s \<Rightarrow> int \<Rightarrow> int \<Rightarrow> leaf_id option"
  assumes follow_look: "inv s \<Longrightarrow> look s j n = Some l \<Longrightarrow> follow s l = look s j (n + FLOOR_SIZE)"
begin

lemma walk_look:
  assumes "inv s"
  shows "walk_line (follow s) (look s j) (look s j n) n end = map (\<lambda>n. (n, look s j n)) (eights n end)"
proof (induction n "end" rule: eights.induct)
  case (1 n e)
  have "(case look s j n of None \<Rightarrow> look s j (n + FLOOR_SIZE) | Some l \<Rightarrow> follow s l) = look s j (n + FLOOR_SIZE)"
    by (auto simp: follow_look [OF assms] split: option.split)
  with 1 show ?case by (subst walk_line.simps, subst eights.simps) simp
qed

end

interpretation row: leaf_line grid_inv "\<lambda>g l. leafE (gr_leaves g l)" "\<lambda>g y x. look_at g x y"
  by unfold_locales (simp add: look_at_def leaf_at_getLeaf grid_invD(6) FLOOR_SIZE_def)

interpretation column: leaf_line grid_inv "\<lambda>g l. leafS (gr_leaves g l)" "\<lambda>g x y. look_at g x y"
  by unfold_locales (simp add: look_at_def leaf_at_getLeaf grid_invD(5) FLOOR_SIZE_def)

lemma distinct_concat_map:
  assumes "distinct xs" and "\<And>x. x \<in> set xs \<Longrightarrow> distinct (f x)"
    and "\<And>x y. x \<in> set xs \<Longrightarrow> y \<in> set xs \<Longrightarrow> x \<noteq> y \<Longrightarrow> set (f x) \<inter> set (f y) = {}"
  shows "distinct (concat (map f xs))"
  using assms
proof (induction xs)
  case (Cons x xs)
  have "set (f x) \<inter> set (f y) = {}" if "y \<in> set xs" for y using Cons.prems(1,3) that by force
  moreover have "distinct (concat (map f xs))" using Cons by simp
  ultimately show ?case using Cons.prems(2) by auto
qed simp

section \<open>The lists of the leaves\<close>

text \<open>\<open>reg\<close> maps each creature on the map to its position.\<close>

definition at_cell :: "(creature_id \<rightharpoonup> position) \<Rightarrow> u32 \<Rightarrow> u32 \<Rightarrow> creature_id set" where
  "at_cell reg x y = {c. \<exists>p. reg c = Some p \<and> same_cell x y (ucast (pos_x p)) (ucast (pos_y p))}"

definition leaf_lists :: "(creature_id \<Rightarrow> bool) \<Rightarrow> creature_id set \<Rightarrow> 'tile grid_leaf \<Rightarrow> bool" where
  "leaf_lists player S lf \<longleftrightarrow> distinct (creature_list lf) \<and> set (creature_list lf) = S
     \<and> distinct (player_list lf) \<and> set (player_list lf) = {c \<in> S. player c}"

definition leaf_node :: "'tile grid \<Rightarrow> position \<Rightarrow> leaf_id option" where
  "leaf_node g p = getLeaf (gr_root g) (ucast (pos_x p)) (ucast (pos_y p))"

definition lists_ok :: "(creature_id \<Rightarrow> bool) \<Rightarrow> (creature_id \<rightharpoonup> position) \<Rightarrow> 'tile grid \<Rightarrow> bool" where
  "lists_ok player reg g \<longleftrightarrow> (\<forall>c p. reg c = Some p \<longrightarrow> leaf_node g p \<noteq> None)
     \<and> (\<forall>x y l. getLeaf (gr_root g) x y = Some l \<longrightarrow> leaf_lists player (at_cell reg x y) (gr_leaves g l))"

lemma lists_okD:
  assumes "lists_ok player reg g"
  shows "reg c = Some p \<Longrightarrow> \<exists>l. leaf_node g p = Some l"
    and "getLeaf (gr_root g) x y = Some l \<Longrightarrow> leaf_lists player (at_cell reg x y) (gr_leaves g l)"
  using assms unfolding lists_ok_def by blast+

text \<open>The least multiple of eight of a coordinate names its cell.\<close>

lemma cell_no_word:
  assumes "0 \<le> n" and "n < 65536"
  shows "cell_no (word_of_int n) = nat (n div 8)"
proof -
  have "unat (word_of_int n :: u32) = nat n" using assms by (simp add: unsigned_of_int take_bit_int_eq_self)
  moreover have "nat n div 8 < 8192" using assms by (simp add: less_mult_imp_div_less)
  ultimately show ?thesis using assms by (simp add: cell_no_def nat_div_distrib)
qed

lemma same_cell_eights:
  assumes "n mod 8 = 0" and "m mod 8 = 0" and "0 \<le> n" and "n < 65536" and "0 \<le> m" and "m < 65536"
  shows "same_cell (word_of_int n) (word_of_int m) (ucast (pos_x p)) (ucast (pos_y p)) \<longleftrightarrow>
    n = getX p - getX p mod 8 \<and> m = getY p - getY p mod 8"
proof -
  have e: "nat (n div 8) = unat w div 8 \<longleftrightarrow> n = uint w - uint w mod 8" if "n mod 8 = 0" "0 \<le> n" for n :: int and w :: u16
  proof -
    have "unat w div 8 = nat (uint w div 8)" by (simp add: nat_div_distrib flip: nat_uint_eq)
    moreover have "0 \<le> n div 8" "0 \<le> uint w div 8"
      using that uint_ge_0 [of w] by (simp_all add: pos_imp_zdiv_nonneg_iff)
    ultimately have "nat (n div 8) = unat w div 8 \<longleftrightarrow> n div 8 = uint w div 8" by (simp only: eq_nat_nat_iff)
    also have "\<dots> \<longleftrightarrow> n = uint w - uint w mod 8" using that by presburger
    finally show ?thesis .
  qed
  show ?thesis
    using assms e [of n "pos_x p"] e [of m "pos_y p"]
    by (simp add: same_cell_no cell_no_u16 cell_no_word getX_def getY_def)
qed

lemma coord_range: "0 \<le> getX p" "getX p < 65536" "0 \<le> getY p" "getY p < 65536" "0 \<le> getZ p" "getZ p < 256"
  using uint_lt2p [of "pos_x p"] uint_lt2p [of "pos_y p"] uint_lt2p [of "pos_z p"]
  by (simp_all add: getX_def getY_def getZ_def)

section \<open>What a search finds\<close>

definition clamped :: "int \<Rightarrow> int \<Rightarrow> int list" where
  "clamped lo hi = eights (clamp_u16 lo - clamp_u16 lo mod 8) (clamp_u16 hi - clamp_u16 hi mod 8)"

lemma set_clamped:
  "n \<in> set (clamped lo hi) \<Longrightarrow> n mod 8 = 0 \<and> 0 \<le> n \<and> n < 65536"
  "lo \<le> v \<Longrightarrow> v \<le> hi \<Longrightarrow> 0 \<le> v \<Longrightarrow> v < 65536 \<Longrightarrow> v - v mod 8 \<in> set (clamped lo hi)"
proof -
  have c: "0 \<le> clamp_u16 v" "clamp_u16 v < 65536" for v by (simp_all add: clamp_u16_def)
  show "n \<in> set (clamped lo hi) \<Longrightarrow> n mod 8 = 0 \<and> 0 \<le> n \<and> n < 65536"
    using c [of lo] c [of hi] unfolding clamped_def set_eights by presburger
  assume "lo \<le> v" "v \<le> hi" "0 \<le> v" "v < 65536"
  then have "clamp_u16 lo \<le> v" "v \<le> clamp_u16 hi" by (simp_all add: clamp_u16_def)
  then show "v - v mod 8 \<in> set (clamped lo hi)"
    unfolding clamped_def set_eights by presburger
qed

lemma distinct_clamped [simp]: "distinct (clamped lo hi)"
  by (simp add: clamped_def)

text \<open>The window of a search and its creatures.\<close>

definition view_bounds :: "position \<Rightarrow> int \<times> int \<times> int \<times> int \<Rightarrow> int \<times> int \<times> int \<times> int" where
  "view_bounds p r = (case r of (a, b, c, d) \<Rightarrow> (getX p + a, getX p + b, getY p + c, getY p + d))"

definition in_view :: "position \<Rightarrow> int \<times> int \<times> int \<times> int \<Rightarrow> int \<times> int \<Rightarrow> position \<Rightarrow> bool" where
  "in_view centerPos ranges zs p \<longleftrightarrow> in_search_window centerPos (view_bounds centerPos ranges) zs p"

lemma in_view_iff:
  "in_view centerPos (minX, maxX, minY, maxY) (minZ, maxZ) p \<longleftrightarrow>
    minZ \<le> getZ p \<and> getZ p \<le> maxZ
    \<and> getX centerPos + minX + (getZ centerPos - getZ p) \<le> getX p \<and> getX p \<le> getX centerPos + maxX + (getZ centerPos - getZ p)
    \<and> getY centerPos + minY + (getZ centerPos - getZ p) \<le> getY p \<and> getY p \<le> getY centerPos + maxY + (getZ centerPos - getZ p)"
  by (auto simp: in_view_def in_search_window_def view_bounds_def getOffsetZ_def Let_def)

definition cell_found ::
  "'tile grid \<Rightarrow> (creature_id \<Rightarrow> position) \<Rightarrow> position \<Rightarrow> int \<times> int \<times> int \<times> int \<Rightarrow> int \<times> int \<Rightarrow> bool \<Rightarrow> int \<Rightarrow> int \<Rightarrow> creature_id list" where
  "cell_found g cpos centerPos ranges zs onlyPlayers ny nx =
     (case look_at g nx ny of None \<Rightarrow> []
      | Some l \<Rightarrow> filter (\<lambda>c. in_view centerPos ranges zs (cpos c))
          (if onlyPlayers then player_list (gr_leaves g l) else creature_list (gr_leaves g l)))"

lemma getSpectatorsInternal_cells:
  assumes "grid_inv g"
  shows "getSpectatorsInternal g cpos spectators centerPos (minX, maxX, minY, maxY) (minZ, maxZ) onlyPlayers =
    spectators @ concat (map (\<lambda>ny. concat (map (cell_found g cpos centerPos (minX, maxX, minY, maxY) (minZ, maxZ) onlyPlayers ny)
        (clamped (getX centerPos + minX + (getZ centerPos - maxZ)) (getX centerPos + maxX + (getZ centerPos - minZ)))))
      (clamped (getY centerPos + minY + (getZ centerPos - maxZ)) (getY centerPos + maxY + (getZ centerPos - minZ))))"
  by (simp add: getSpectatorsInternal_def Let_def column.walk_look [OF assms] row.walk_look [OF assms] o_def
      case_prod_beta cell_found_def [abs_def] in_view_def view_bounds_def clamped_def FLOOR_SIZE_def
      cong: option.case_cong)

lemma cell_found_set:
  assumes g: "grid_inv g" and ok: "lists_ok player reg g" and pos: "\<And>c p. reg c = Some p \<Longrightarrow> cpos c = p"
    and nx: "nx mod 8 = 0" "0 \<le> nx" "nx < 65536" and ny: "ny mod 8 = 0" "0 \<le> ny" "ny < 65536"
  shows "set (cell_found g cpos centerPos r zs onlyPlayers ny nx) =
      {c. \<exists>p. reg c = Some p \<and> in_view centerPos r zs p \<and> (onlyPlayers \<longrightarrow> player c)
            \<and> nx = getX p - getX p mod 8 \<and> ny = getY p - getY p mod 8}" (is "?L = ?R")
    and "distinct (cell_found g cpos centerPos r zs onlyPlayers ny nx)"
proof -
  let ?x = "word_of_int nx :: u32" and ?y = "word_of_int ny :: u32"
  have look: "look_at g nx ny = getLeaf (gr_root g) ?x ?y" by (simp add: look_at_def leaf_at_getLeaf [OF g])
  have cell: "same_cell ?x ?y (ucast (pos_x p)) (ucast (pos_y p)) \<longleftrightarrow> nx = getX p - getX p mod 8 \<and> ny = getY p - getY p mod 8" for p
    by (rule same_cell_eights [OF nx(1) ny(1) nx(2,3) ny(2,3)])
  have both: "?L = ?R \<and> distinct (cell_found g cpos centerPos r zs onlyPlayers ny nx)"
  proof (cases "look_at g nx ny")
    case None
    have "?R = {}"
    proof -
      { fix c p assume a: "reg c = Some p" "nx = getX p - getX p mod 8" "ny = getY p - getY p mod 8"
        then have "same_cell ?x ?y (ucast (pos_x p)) (ucast (pos_y p))" using cell by simp
        then have "leaf_node g p = None" using None look getLeaf_cell [OF g] unfolding leaf_node_def by metis
        with lists_okD(1) [OF ok a(1)] have False by simp }
      then show ?thesis by blast
    qed
    with None show ?thesis by (simp add: cell_found_def)
  next
    case (Some l)
    then have ll: "leaf_lists player (at_cell reg ?x ?y) (gr_leaves g l)" using lists_okD(2) [OF ok] look by simp
    have "?L = {c \<in> at_cell reg ?x ?y. in_view centerPos r zs (cpos c) \<and> (onlyPlayers \<longrightarrow> player c)}"
      using ll Some by (auto simp: cell_found_def leaf_lists_def)
    also have "\<dots> = ?R" unfolding at_cell_def cell using pos by auto
    finally show ?thesis using ll Some by (auto simp: cell_found_def leaf_lists_def)
  qed
  then show "?L = ?R" "distinct (cell_found g cpos centerPos r zs onlyPlayers ny nx)" by simp_all
qed

definition viewers ::
  "(creature_id \<Rightarrow> bool) \<Rightarrow> (creature_id \<rightharpoonup> position) \<Rightarrow> position \<Rightarrow> int \<times> int \<times> int \<times> int \<Rightarrow> int \<times> int \<Rightarrow> bool \<Rightarrow> creature_id set" where
  "viewers player reg centerPos ranges zs onlyPlayers =
     {c. \<exists>p. reg c = Some p \<and> in_view centerPos ranges zs p \<and> (onlyPlayers \<longrightarrow> player c)}"

lemma search_viewers:
  assumes g: "grid_inv g" and ok: "lists_ok player reg g" and pos: "\<And>c p. reg c = Some p \<Longrightarrow> cpos c = p"
  shows "\<exists>cs. getSpectatorsInternal g cpos spectators centerPos ranges zs onlyPlayers = spectators @ cs
    \<and> distinct cs \<and> set cs = viewers player reg centerPos ranges zs onlyPlayers"
proof -
  obtain minX maxX minY maxY where r: "ranges = (minX, maxX, minY, maxY)" by (cases ranges)
  obtain minZ maxZ where z: "zs = (minZ, maxZ)" by (cases zs)
  let ?z = "getZ centerPos"
  let ?xs = "clamped (getX centerPos + minX + (?z - maxZ)) (getX centerPos + maxX + (?z - minZ))"
  let ?ys = "clamped (getY centerPos + minY + (?z - maxZ)) (getY centerPos + maxY + (?z - minZ))"
  let ?cell = "cell_found g cpos centerPos ranges zs onlyPlayers"
  let ?cs = "concat (map (\<lambda>ny. concat (map (?cell ny) ?xs)) ?ys)"
  have cell: "set (?cell ny nx) = {c. \<exists>p. reg c = Some p \<and> in_view centerPos ranges zs p \<and> (onlyPlayers \<longrightarrow> player c)
        \<and> nx = getX p - getX p mod 8 \<and> ny = getY p - getY p mod 8}"
    and dist: "distinct (?cell ny nx)" if "nx \<in> set ?xs" "ny \<in> set ?ys" for nx ny
    using cell_found_set [OF g ok pos] set_clamped(1) [OF that(1)] set_clamped(1) [OF that(2)] by simp_all
  have "distinct ?cs"
    by (intro distinct_concat_map distinct_clamped) (auto simp: dist cell)
  moreover have "set ?cs = viewers player reg centerPos ranges zs onlyPlayers"
  proof (intro set_eqI iffI)
    fix c assume "c \<in> set ?cs"
    then show "c \<in> viewers player reg centerPos ranges zs onlyPlayers" by (auto simp: viewers_def cell)
  next
    fix c assume "c \<in> viewers player reg centerPos ranges zs onlyPlayers"
    then obtain p where p: "reg c = Some p" "in_view centerPos ranges zs p" "onlyPlayers \<longrightarrow> player c"
      by (auto simp: viewers_def)
    note b = p(2) [unfolded r z in_view_iff]
    have nx: "getX p - getX p mod 8 \<in> set ?xs" using b coord_range [of p] by (intro set_clamped(2)) auto
    have ny: "getY p - getY p mod 8 \<in> set ?ys" using b coord_range [of p] by (intro set_clamped(2)) auto
    have "c \<in> set (?cell (getY p - getY p mod 8) (getX p - getX p mod 8))" unfolding cell [OF nx ny] using p by blast
    then show "c \<in> set ?cs" using nx ny by auto
  qed
  ultimately show ?thesis unfolding r z getSpectatorsInternal_cells [OF g] by blast
qed

end
