(* ===== verification/Creature_Map.thy ===== *)
theory Creature_Map
  imports Spectators Map_Sight
begin

text \<open>
  Placing, moving and removing creatures (\<^verbatim>\<open>placeCreature\<close> and
  \<^verbatim>\<open>moveCreature\<close> of \<^verbatim>\<open>src/src/map.cpp\<close>,
  \<^verbatim>\<open>queryDestination\<close> and \<^verbatim>\<open>removeCreature\<close> of
  \<^verbatim>\<open>src/src/tile.cpp\<close>): the operations, the steps of the map they make, and the
  invariant of all reachable maps: the tiles, the leaves and the caches list the same creatures.
\<close>

section \<open>Changes of floor\<close>

text \<open>The flags of a tile that \<open>queryDestination\<close> tests.\<close>

datatype floor_flag = CHANGE_DOWN | CHANGE_NORTH | CHANGE_SOUTH | CHANGE_EAST | CHANGE_WEST | CHANGE_SOUTH_ALT | CHANGE_EAST_ALT

text \<open>The destination and whether \<^verbatim>\<open>FLAG_NOLIMIT\<close> is set; the arithmetic is that of
  the unsigned coordinates. \<open>flags\<close> gives the flags of the tile at a position of the map.\<close>

definition down_shift :: "floor_flag set \<Rightarrow> u16 \<Rightarrow> u16 \<Rightarrow> u16 \<times> u16" where
  "down_shift fl dx dy =
     (let dy = (if CHANGE_NORTH \<in> fl then dy + 1 else dy);
          dy = (if CHANGE_SOUTH \<in> fl then dy - 1 else dy);
          dy = (if CHANGE_SOUTH_ALT \<in> fl then dy - 2 else dy);
          dx = (if CHANGE_EAST \<in> fl then dx - 1 else dx);
          dx = (if CHANGE_EAST_ALT \<in> fl then dx - 2 else dx);
          dx = (if CHANGE_WEST \<in> fl then dx + 1 else dx)
      in (dx, dy))"

definition up_shift :: "floor_flag set \<Rightarrow> u16 \<Rightarrow> u16 \<Rightarrow> u16 \<times> u16" where
  "up_shift fl dx dy =
     (let dy = (if CHANGE_NORTH \<in> fl then dy - 1 else dy);
          dy = (if CHANGE_SOUTH \<in> fl then dy + 1 else dy);
          dx = (if CHANGE_EAST \<in> fl then dx + 1 else dx);
          dx = (if CHANGE_WEST \<in> fl then dx - 1 else dx);
          dy = (if CHANGE_SOUTH_ALT \<in> fl then dy + 2 else dy);
          dx = (if CHANGE_EAST_ALT \<in> fl then dx + 2 else dx)
      in (dx, dy))"

definition queryDestination ::
  "('tile \<Rightarrow> floor_flag set) \<Rightarrow> (position \<Rightarrow> 'tile option) \<Rightarrow> position \<Rightarrow> 'tile \<Rightarrow> position \<times> bool" where
  "queryDestination flags tile_at tilePos this =
     (let x = pos_x tilePos; y = pos_y tilePos;
          has = (\<lambda>p f. case tile_at p of None \<Rightarrow> False | Some t \<Rightarrow> f \<in> flags t);
          destTile =
            (if CHANGE_DOWN \<in> flags this then
               let dz = pos_z tilePos + 1 in
               if has (Position x (y - 1) dz) CHANGE_SOUTH_ALT then Some (Position x (y - 2) dz)
               else if has (Position (x - 1) y dz) CHANGE_EAST_ALT then Some (Position (x - 2) y dz)
               else
                 (case tile_at (Position x y dz) of
                    None \<Rightarrow> None
                  | Some down \<Rightarrow> (let (dx, dy) = down_shift (flags down) x y in Some (Position dx dy dz)))
             else if flags this \<noteq> {} then
               let (dx, dy) = up_shift (flags this) x y in Some (Position dx dy (pos_z tilePos - 1))
             else None)
      in case destTile of
           None \<Rightarrow> (tilePos, False)
         | Some p \<Rightarrow> (case tile_at p of None \<Rightarrow> (tilePos, False) | Some _ \<Rightarrow> (p, True)))"

lemma queryDestination_on_map:
  assumes "tile_at p = Some this"
  shows "\<exists>t. tile_at (fst (queryDestination flags tile_at p this)) = Some t"
  using assms by (auto simp: queryDestination_def Let_def split: option.split)

section \<open>Placing a creature\<close>

text \<open>
  What the answers of \<^verbatim>\<open>queryAdd\<close> are compared with, and the questions
  \<open>placeCreature\<close> asks; \<open>pe_query\<close> is \<^verbatim>\<open>queryAdd\<close> with the flag
  \<^verbatim>\<open>FLAG_IGNOREBLOCKITEM\<close> or without, \<open>pe_static\<close> the new tile made for a flying
  player, \<open>pe_merge\<close> how \<open>setTile\<close> merges tiles.
\<close>

datatype place_answer = NOERROR | PLAYERISNOTINVITED | OTHER_ERROR

record 'tile place_env =
  pe_player :: "creature_id \<Rightarrow> bool"
  pe_flying :: "creature_id \<Rightarrow> bool"
  pe_pz :: "'tile \<Rightarrow> bool"
  pe_query :: "'tile \<Rightarrow> creature_id \<Rightarrow> bool \<Rightarrow> place_answer"
  pe_flags :: "'tile \<Rightarrow> floor_flag set"
  pe_ground :: "'tile \<Rightarrow> bool"
  pe_sight :: sight_map
  pe_static :: 'tile
  pe_merge :: "'tile \<Rightarrow> 'tile \<Rightarrow> 'tile"

definition extendedRelList :: "(int \<times> int) list" where
  "extendedRelList = [(0, -2), (-1, -1), (0, -1), (1, -1), (-2, 0), (-1, 0), (1, 0), (2, 0), (-1, 1), (0, 1), (1, 1), (0, 2)]"

definition normalRelList :: "(int \<times> int) list" where
  "normalRelList = [(-1, -1), (0, -1), (1, -1), (-1, 0), (1, 0), (-1, 1), (0, 1), (1, 1)]"

definition rel_position :: "position \<Rightarrow> int \<times> int \<Rightarrow> position" where
  "rel_position p d = Position (pos_x p + word_of_int (fst d)) (pos_y p + word_of_int (snd d)) (pos_z p)"

definition sight_or_not :: "'tile place_env \<Rightarrow> position \<Rightarrow> position \<Rightarrow> bool" where
  "sight_or_not env p q = (isSightClear (pe_sight env) p q False = Some True)"

text \<open>The loop over the shuffled list.\<close>

primrec try_positions ::
  "'tile place_env \<Rightarrow> 'tile world \<Rightarrow> creature_id \<Rightarrow> position \<Rightarrow> bool \<Rightarrow> bool \<Rightarrow> (int \<times> int) list
    \<Rightarrow> (position \<times> 'tile) option" where
  "try_positions env w c centerPos extendedPos placeInPZ [] = None"
| "try_positions env w c centerPos extendedPos placeInPZ (it # its) =
     (let tryPos = rel_position centerPos it;
          continue = try_positions env w c centerPos extendedPos placeInPZ its
      in case tile_of w tryPos of
           None \<Rightarrow> continue
         | Some tile \<Rightarrow>
             (if placeInPZ \<and> \<not> pe_pz env tile then continue
              else if pe_query env tile c False = NOERROR \<and> (\<not> extendedPos \<or> sight_or_not env centerPos tryPos)
              then Some (tryPos, tile)
              else continue))"

definition place_on :: "'tile place_env \<Rightarrow> position \<Rightarrow> creature_id \<Rightarrow> 'tile world \<Rightarrow> 'tile world option" where
  "place_on env dest c w =
     (let w = tile_addCreature (pe_player env) dest c w
      in node_addCreature (pe_player env) c (getQTNode (pos_x dest) (pos_y dest) w) w)"

definition place_at :: "'tile place_env \<Rightarrow> position \<Rightarrow> 'tile \<Rightarrow> creature_id \<Rightarrow> 'tile world \<Rightarrow> (bool \<times> 'tile world) option" where
  "place_at env p tile c w =
     (case place_on env (fst (queryDestination (pe_flags env) (tile_of w) p tile)) c w of
        None \<Rightarrow> None
      | Some w \<Rightarrow> Some (True, w))"

definition placeCreature ::
  "'tile place_env \<Rightarrow> (int \<times> int) list \<Rightarrow> position \<Rightarrow> creature_id \<Rightarrow> bool \<Rightarrow> bool \<Rightarrow> bool \<Rightarrow> 'tile world
    \<Rightarrow> (bool \<times> 'tile world) option" where
  "placeCreature env relList centerPos c extendedPos forceLogin isLogin w =
     (let tile = tile_of w centerPos;
          placeInPZ = (case tile of None \<Rightarrow> False | Some t \<Rightarrow> pe_pz env t);
          foundTile = (case tile of None \<Rightarrow> False
             | Some t \<Rightarrow> forceLogin \<or> pe_query env t c True = NOERROR \<or> pe_query env t c True = PLAYERISNOTINVITED)
      in case (foundTile, tile) of
           (True, Some t) \<Rightarrow> place_at env centerPos t c w
         | _ \<Rightarrow>
             (if isLogin \<and> pe_flying env c then
                (case tile of
                   Some t \<Rightarrow> place_at env centerPos t c w
                 | None \<Rightarrow>
                     (case setTile (pe_merge env) (pos_x centerPos) (pos_y centerPos) (pos_z centerPos) (pe_static env) (w_grid w) of
                        None \<Rightarrow> None
                      | Some g \<Rightarrow> place_at env centerPos (pe_static env) c (w\<lparr>w_grid := g\<rparr>)))
              else
                (case try_positions env w c centerPos extendedPos placeInPZ relList of
                   None \<Rightarrow> Some (False, w)
                 | Some (p, t) \<Rightarrow> place_at env p t c w)))"

text \<open>\<^verbatim>\<open>Game::internalPlaceCreature\<close> refuses a creature that already has a tile.\<close>

definition internalPlaceCreature ::
  "'tile place_env \<Rightarrow> (int \<times> int) list \<Rightarrow> position \<Rightarrow> creature_id \<Rightarrow> bool \<Rightarrow> bool \<Rightarrow> bool \<Rightarrow> 'tile world
    \<Rightarrow> (bool \<times> 'tile world) option" where
  "internalPlaceCreature env relList pos c extendedPos forced isLogin w =
     (if w_pos w c \<noteq> None then Some (False, w) else placeCreature env relList pos c extendedPos forced isLogin w)"

section \<open>Moving a creature\<close>

text \<open>What a move tells: the new and the old stack position for one client, and the handlers.\<close>

datatype move_event =
    SendMove creature_id int int bool
  | OnCreatureMove creature_id bool
  | PostRemove position
  | PostAdd position

text \<open>
  \<open>mv_sees\<close> is \<^verbatim>\<open>canSeeCreature\<close> and \<open>mv_index\<close>
  \<^verbatim>\<open>getClientIndexOfCreature\<close> of the tile at a position.
\<close>

record 'tile move_env =
  mv_sees :: "creature_id \<Rightarrow> creature_id \<Rightarrow> bool"
  mv_index :: "'tile world \<Rightarrow> position \<Rightarrow> creature_id \<Rightarrow> creature_id \<Rightarrow> int"

fun old_stack_positions :: "(creature_id \<Rightarrow> bool) \<Rightarrow> (creature_id \<Rightarrow> bool) \<Rightarrow> (creature_id \<Rightarrow> int) \<Rightarrow> creature_id list \<Rightarrow> int list" where
  "old_stack_positions player sees index [] = []"
| "old_stack_positions player sees index (s # ss) =
     (if player s then (if sees s then index s else -1) # old_stack_positions player sees index ss
      else old_stack_positions player sees index ss)"

text \<open>The loop that sends: \<open>stack\<close> is what is left of the vector from the index on; None is a read
  past its end.\<close>

fun send_moves :: "(creature_id \<Rightarrow> bool) \<Rightarrow> (creature_id \<Rightarrow> int) \<Rightarrow> bool \<Rightarrow> creature_id list \<Rightarrow> int list \<Rightarrow> move_event list option" where
  "send_moves player new_index teleport [] stack = Some []"
| "send_moves player new_index teleport (s # ss) stack =
     (if player s then
        (case stack of
           [] \<Rightarrow> None
         | old # stack \<Rightarrow>
             (case send_moves player new_index teleport ss stack of
                None \<Rightarrow> None
              | Some es \<Rightarrow> Some (if old \<noteq> -1 then SendMove s (new_index s) old teleport # es else es)))
      else send_moves player new_index teleport ss stack)"

definition move_direction :: "position \<Rightarrow> position \<Rightarrow> direction \<Rightarrow> direction" where
  "move_direction oldPos newPos d =
     (let d = (if pos_y oldPos > pos_y newPos then DIRECTION_NORTH
               else if pos_y oldPos < pos_y newPos then DIRECTION_SOUTH else d)
      in if pos_x oldPos < pos_x newPos then DIRECTION_EAST
         else if pos_x oldPos > pos_x newPos then DIRECTION_WEST else d)"

definition move_node :: "(creature_id \<Rightarrow> bool) \<Rightarrow> creature_id \<Rightarrow> position \<Rightarrow> position \<Rightarrow> 'tile world \<Rightarrow> 'tile world option" where
  "move_node player c oldPos newPos w =
     (let leaf = getQTNode (pos_x oldPos) (pos_y oldPos) w; new_leaf = getQTNode (pos_x newPos) (pos_y newPos) w
      in if leaf \<noteq> new_leaf then
           (case node_removeCreature player c leaf w of
              None \<Rightarrow> None
            | Some w \<Rightarrow> node_addCreature player c new_leaf w)
         else Some w)"

definition moveCreature ::
  "'tile place_env \<Rightarrow> 'tile move_env \<Rightarrow> creature_id \<Rightarrow> position \<Rightarrow> bool \<Rightarrow> 'tile world
    \<Rightarrow> (move_event list \<times> 'tile world) option" where
  "moveCreature env mv c newPos forceTeleport w =
     (case w_pos w c of
        None \<Rightarrow> None
      | Some oldPos \<Rightarrow>
          (if c \<notin> set (w_tiles w oldPos) then Some ([], w)
           else
             let player = pe_player env;
                 ground = (case tile_of w newPos of None \<Rightarrow> False | Some t \<Rightarrow> pe_ground env t);
                 teleport = (forceTeleport \<or> \<not> ground \<or> \<not> areInRange3 1 1 0 oldPos newPos);
                 (spectators, w) = getSpectators player w [] oldPos True False (0, 0, 0, 0);
                 (newPosSpectators, w) = getSpectators player w [] newPos True False (0, 0, 0, 0);
                 spectators = addSpectators spectators newPosSpectators;
                 stack = old_stack_positions player (\<lambda>s. mv_sees mv s c) (\<lambda>s. mv_index mv w oldPos s c) spectators;
                 w = tile_removeThing player oldPos c w
             in case move_node player c oldPos newPos w of
                  None \<Rightarrow> None
                | Some w \<Rightarrow>
                    (let w = tile_addCreature player newPos c w;
                         w = (if \<not> teleport then w\<lparr>w_dir := (w_dir w)(c := move_direction oldPos newPos (w_dir w c))\<rparr> else w)
                     in case send_moves player (\<lambda>s. mv_index mv w newPos s c) teleport spectators stack of
                          None \<Rightarrow> None
                        | Some sends \<Rightarrow>
                            Some (sends @ map (\<lambda>s. OnCreatureMove s teleport) spectators @ [PostRemove oldPos, PostAdd newPos], w))))"

section \<open>The invariant\<close>

text \<open>The creatures on the map and where they are: those that the tile of their position lists.\<close>

definition registered :: "'tile world \<Rightarrow> creature_id \<rightharpoonup> position" where
  "registered w c = (case w_pos w c of None \<Rightarrow> None | Some p \<Rightarrow> if c \<in> set (w_tiles w p) then Some p else None)"

definition tiles_ok :: "'tile world \<Rightarrow> bool" where
  "tiles_ok w \<longleftrightarrow> (\<forall>p. distinct (w_tiles w p)) \<and> (\<forall>p c. c \<in> set (w_tiles w p) \<longrightarrow> w_pos w c = Some p \<and> getZ p < 16)"

definition common_view :: "(creature_id \<Rightarrow> bool) \<Rightarrow> 'tile world \<Rightarrow> position \<Rightarrow> bool \<Rightarrow> creature_id set" where
  "common_view player w p onlyPlayers =
     viewers player (registered w) p (- maxViewportX, maxViewportX, - maxViewportY, maxViewportY) (floor_range p True) onlyPlayers"

definition cache_ok :: "(creature_id \<Rightarrow> bool) \<Rightarrow> 'tile world \<Rightarrow> bool \<Rightarrow> (position \<rightharpoonup> creature_id list) \<Rightarrow> bool" where
  "cache_ok player w onlyPlayers cache \<longleftrightarrow>
     (\<forall>p cs. cache p = Some cs \<longrightarrow> distinct cs \<and> set cs = common_view player w p onlyPlayers)"

definition world_inv :: "(creature_id \<Rightarrow> bool) \<Rightarrow> 'tile world \<Rightarrow> bool" where
  "world_inv player w \<longleftrightarrow> grid_inv (w_grid w) \<and> tiles_ok w \<and> lists_ok player (registered w) (w_grid w)
     \<and> cache_ok player w False (spectatorCache w) \<and> cache_ok player w True (playersSpectatorCache w)"

lemma world_invD:
  assumes "world_inv player w"
  shows "grid_inv (w_grid w)" and "tiles_ok w" and "lists_ok player (registered w) (w_grid w)"
    and "cache_ok player w False (spectatorCache w)" and "cache_ok player w True (playersSpectatorCache w)"
  using assms by (simp_all add: world_inv_def)

lemma registered_pos: "registered w c = Some p \<Longrightarrow> positions w c = p"
  by (auto simp: registered_def positions_def split: option.splits if_splits)

lemma registered_tile:
  assumes "tiles_ok w"
  shows "registered w c = Some p \<longleftrightarrow> c \<in> set (w_tiles w p)"
proof
  assume "c \<in> set (w_tiles w p)"
  moreover have "w_pos w c = Some p" using assms calculation unfolding tiles_ok_def by blast
  ultimately show "registered w c = Some p" by (simp add: registered_def)
qed (auto simp: registered_def split: option.splits if_splits)

subsection \<open>Searches\<close>

lemma search_spec:
  assumes "world_inv player w"
  shows "\<exists>cs. find_viewers w spectators p multifloor onlyPlayers ranges = spectators @ cs \<and> distinct cs
    \<and> set cs = viewers player (registered w) p ranges (floor_range p multifloor) onlyPlayers"
  unfolding find_viewers_def
  by (rule search_viewers [OF world_invD(1,3) [OF assms] registered_pos])

lemma viewers_player: "viewers player reg p r zs True = {c \<in> viewers player reg p r zs False. player c}"
  by (auto simp: viewers_def)

lemma cached_spec:
  assumes "world_inv player w" and "cached player w [] p onlyPlayers = Some cs"
  shows "distinct cs \<and> set cs = common_view player w p onlyPlayers"
  using world_invD(4,5) [OF assms(1)] assms(2)
  by (cases onlyPlayers) (force simp: cached_def cache_ok_def common_view_def viewers_player split: option.splits)+

lemma cache_store:
  assumes "cache_ok player w onlyPlayers cache" and "distinct cs" and "set cs = common_view player w p onlyPlayers"
  shows "cache_ok player w onlyPlayers (cache(p \<mapsto> cs))"
  using assms by (simp add: cache_ok_def)

lemma registered_cong: "w_pos w' = w_pos w \<Longrightarrow> w_tiles w' = w_tiles w \<Longrightarrow> registered w' = registered w"
  by (simp add: registered_def fun_eq_iff cong: option.case_cong)

lemma cache_ok_cong: "registered w' = registered w \<Longrightarrow> cache_ok player w' = cache_ok player w"
  by (intro ext) (simp add: cache_ok_def common_view_def)

lemma tiles_ok_cong: "w_pos w' = w_pos w \<Longrightarrow> w_tiles w' = w_tiles w \<Longrightarrow> tiles_ok w' = tiles_ok w"
  by (simp add: tiles_ok_def)

lemma cache_fields [simp]:
  "registered (w\<lparr>spectatorCache := a\<rparr>) = registered w" "registered (w\<lparr>playersSpectatorCache := a\<rparr>) = registered w"
  "cache_ok player (w\<lparr>spectatorCache := a\<rparr>) = cache_ok player w"
  "cache_ok player (w\<lparr>playersSpectatorCache := a\<rparr>) = cache_ok player w"
  "tiles_ok (w\<lparr>spectatorCache := a\<rparr>) = tiles_ok w" "tiles_ok (w\<lparr>playersSpectatorCache := a\<rparr>) = tiles_ok w"
  by (auto intro!: registered_cong cache_ok_cong tiles_ok_cong)

definition same_map :: "'tile world \<Rightarrow> 'tile world \<Rightarrow> bool" where
  "same_map w w' \<longleftrightarrow> w_grid w' = w_grid w \<and> w_pos w' = w_pos w \<and> w_tiles w' = w_tiles w \<and> w_dir w' = w_dir w"

lemma getSpectators_inv:
  assumes inv: "world_inv player w" and z: "getZ p < 16"
    and run: "getSpectators player w [] p multifloor onlyPlayers args = (cs, w')"
  shows "distinct cs" and "set cs = viewers player (registered w) p (view_ranges args) (floor_range p multifloor) onlyPlayers"
    and "world_inv player w'" and "same_map w w'"
proof -
  let ?common = "view_ranges args = (- maxViewportX, maxViewportX, - maxViewportY, maxViewportY) \<and> multifloor"
  have view: "common_view player w p onlyPlayers = viewers player (registered w) p (view_ranges args) (floor_range p multifloor) onlyPlayers"
    if ?common using that by (simp add: common_view_def)
  have all: "distinct cs \<and> set cs = viewers player (registered w) p (view_ranges args) (floor_range p multifloor) onlyPlayers
      \<and> world_inv player w' \<and> same_map w w'"
  proof (cases "if ?common then cached player w [] p onlyPlayers else None")
    case (Some result)
    then have ?common "cached player w [] p onlyPlayers = Some result" by (auto split: if_splits)
    moreover have "cs = result" "w' = w" using run Some z by (simp_all add: getSpectators_def MAP_MAX_LAYERS_def)
    ultimately show ?thesis using cached_spec [OF inv] view inv by (simp add: same_map_def)
  next
    case None
    let ?cs = "find_viewers w [] p multifloor onlyPlayers (view_ranges args)"
    let ?w = "if ?common then
        (if onlyPlayers then w\<lparr>playersSpectatorCache := (playersSpectatorCache w)(p \<mapsto> ?cs)\<rparr>
         else w\<lparr>spectatorCache := (spectatorCache w)(p \<mapsto> ?cs)\<rparr>) else w"
    have e: "cs = ?cs" "w' = ?w"
      using run None z by (simp_all add: getSpectators_def MAP_MAX_LAYERS_def Let_def split: if_splits)
    have s: "distinct ?cs" "set ?cs = viewers player (registered w) p (view_ranges args) (floor_range p multifloor) onlyPlayers"
      using search_spec [OF inv, of "[]" p multifloor onlyPlayers "view_ranges args"] by auto
    have "world_inv player ?w"
      using inv s view unfolding world_inv_def by (auto intro!: cache_store)
    then show ?thesis using e s by (simp add: same_map_def)
  qed
  then show "distinct cs" "set cs = viewers player (registered w) p (view_ranges args) (floor_range p multifloor) onlyPlayers"
    "world_inv player w'" "same_map w w'" by blast+
qed


subsection \<open>Changes of the lists\<close>

lemma at_cell_update:
  "at_cell (reg(c \<mapsto> p)) x y = (if same_cell x y (ucast (pos_x p)) (ucast (pos_y p)) then insert c (at_cell reg x y) else at_cell reg x y - {c})"
  by (auto simp: at_cell_def)

lemma at_cell_delete: "at_cell (reg(c := None)) x y = at_cell reg x y - {c}"
  by (auto simp: at_cell_def)

lemma at_cell_none: "reg c = None \<Longrightarrow> c \<notin> at_cell reg x y"
  by (simp add: at_cell_def)

lemma leaf_lists_add:
  "leaf_lists player S lf \<Longrightarrow> c \<notin> S \<Longrightarrow> leaf_lists player (insert c S) (leaf_addCreature player c lf)"
  by (auto simp: leaf_lists_def leaf_addCreature_def Let_def)

lemma leaf_lists_remove:
  assumes "leaf_lists player S lf" and "c \<in> S"
  shows "\<exists>lf'. leaf_removeCreature player c lf = Some lf' \<and> leaf_lists player (S - {c}) lf'
    \<and> leafS lf' = leafS lf \<and> leafE lf' = leafE lf \<and> lf_floors lf' = lf_floors lf"
proof -
  have m: "c \<in> set (creature_list lf)" "player c \<Longrightarrow> c \<in> set (player_list lf)" "distinct (creature_list lf)" "distinct (player_list lf)"
    using assms by (simp_all add: leaf_lists_def)
  show ?thesis
    using assms m set_swap_erase_distinct [OF m(3), of c] set_swap_erase_distinct [OF m(4), of c]
    by (cases "player c") (auto simp: leaf_removeCreature_def leaf_lists_def Let_def)
qed

lemma upd_leaf_fields [simp]:
  "gr_root (upd_leaf l f g) = gr_root g"
  "gr_leaves (upd_leaf l f g) k = (if k = l then f (gr_leaves g l) else gr_leaves g k)"
  by (simp_all add: upd_leaf_def)

text \<open>The leaves at which the lists of one position change: only its own.\<close>

lemma node_cell:
  assumes "grid_inv g" and "leaf_node g p = Some l" and "getLeaf (gr_root g) x y = Some k"
  shows "k = l \<longleftrightarrow> same_cell x y (ucast (pos_x p)) (ucast (pos_y p))"
proof
  assume "k = l"
  then show "same_cell x y (ucast (pos_x p)) (ucast (pos_y p))"
    using assms(2,3) grid_invD(4) [OF assms(1)] unfolding leaf_node_def by blast
next
  assume "same_cell x y (ucast (pos_x p)) (ucast (pos_y p))"
  then have "getLeaf (gr_root g) x y = leaf_node g p" unfolding leaf_node_def by (rule getLeaf_cell [OF assms(1)])
  then show "k = l" using assms(2,3) by simp
qed

lemma lists_ok_add:
  assumes g: "grid_inv g" and ok: "lists_ok player reg g" and c: "reg c = None" and l: "leaf_node g p = Some l"
  shows "lists_ok player (reg(c \<mapsto> p)) (upd_leaf l (leaf_addCreature player c) g)"
  unfolding lists_ok_def
proof (intro conjI allI impI)
  fix d q assume "(reg(c \<mapsto> p)) d = Some q"
  then show "leaf_node (upd_leaf l (leaf_addCreature player c) g) q \<noteq> None"
    using l lists_okD(1) [OF ok, of d q] by (auto simp: leaf_node_def split: if_splits)
next
  fix x y k assume "getLeaf (gr_root (upd_leaf l (leaf_addCreature player c) g)) x y = Some k"
  then have k: "getLeaf (gr_root g) x y = Some k" by simp
  note nc = node_cell [OF g l k] and ll = lists_okD(2) [OF ok k]
  show "leaf_lists player (at_cell (reg(c \<mapsto> p)) x y) (gr_leaves (upd_leaf l (leaf_addCreature player c) g) k)"
    using nc ll at_cell_none [of reg c x y] c by (auto simp: at_cell_update leaf_lists_add)
qed

lemma lists_ok_remove:
  assumes g: "grid_inv g" and ok: "lists_ok player reg g" and c: "reg c = Some p" and l: "leaf_node g p = Some l"
  shows "\<exists>lf. leaf_removeCreature player c (gr_leaves g l) = Some lf
    \<and> lists_ok player (reg(c := None)) (upd_leaf l (\<lambda>_. lf) g) \<and> grid_inv (upd_leaf l (\<lambda>_. lf) g)"
proof -
  have "c \<in> at_cell reg (ucast (pos_x p)) (ucast (pos_y p))" using c same_cell_equiv(1) by (auto simp: at_cell_def)
  with leaf_lists_remove lists_okD(2) [OF ok l [unfolded leaf_node_def]]
  obtain lf where lf: "leaf_removeCreature player c (gr_leaves g l) = Some lf"
    "leaf_lists player (at_cell reg (ucast (pos_x p)) (ucast (pos_y p)) - {c}) lf"
    "leafS lf = leafS (gr_leaves g l)" "leafE lf = leafE (gr_leaves g l)"
    by blast
  let ?g = "upd_leaf l (\<lambda>_. lf) g"
  have leaf: "leaf_lists player (at_cell (reg(c := None)) x y) (gr_leaves ?g k)" if k: "getLeaf (gr_root g) x y = Some k" for x y k
  proof (cases "k = l")
    case True
    then have "same_cell x y (ucast (pos_x p)) (ucast (pos_y p))" using node_cell [OF g l k] by simp
    then have "at_cell reg x y = at_cell reg (ucast (pos_x p)) (ucast (pos_y p))"
      using same_cell_equiv unfolding at_cell_def by blast
    then show ?thesis using True lf(2) by (simp add: at_cell_delete)
  next
    case False
    then have "\<not> same_cell x y (ucast (pos_x p)) (ucast (pos_y p))" using node_cell [OF g l k] by simp
    then have "c \<notin> at_cell reg x y" using c by (simp add: at_cell_def)
    then show ?thesis using False lists_okD(2) [OF ok k] by (simp add: at_cell_delete)
  qed
  have "lists_ok player (reg(c := None)) ?g"
    unfolding lists_ok_def
  proof (intro conjI allI impI)
    fix d q assume "(reg(c := None)) d = Some q"
    then show "leaf_node ?g q \<noteq> None" using lists_okD(1) [OF ok, of d q] by (auto simp: leaf_node_def split: if_splits)
  next
    fix x y k assume "getLeaf (gr_root ?g) x y = Some k"
    then show "leaf_lists player (at_cell (reg(c := None)) x y) (gr_leaves ?g k)" using leaf by simp
  qed
  moreover have "grid_inv ?g"
  proof -
    have e: "gr_next ?g = gr_next g" "leafS (gr_leaves ?g k) = leafS (gr_leaves g k)" "leafE (gr_leaves ?g k) = leafE (gr_leaves g k)" for k
      using lf(3,4) by (simp_all add: upd_leaf_def)
    show ?thesis using g unfolding grid_inv_def e upd_leaf_fields(1) .
  qed
  ultimately show ?thesis using lf(1) by blast
qed

lemma lists_ok_move:
  assumes g: "grid_inv g" and ok: "lists_ok player reg g" and c: "reg c = Some p"
    and l: "leaf_node g p = Some l" "leaf_node g q = Some l"
  shows "lists_ok player (reg(c \<mapsto> q)) g"
  unfolding lists_ok_def
proof (intro conjI allI impI)
  fix d r assume "(reg(c \<mapsto> q)) d = Some r"
  then show "leaf_node g r \<noteq> None" using l(2) lists_okD(1) [OF ok, of d r] by (auto split: if_splits)
next
  fix x y k assume k: "getLeaf (gr_root g) x y = Some k"
  have "same_cell x y (ucast (pos_x p)) (ucast (pos_y p)) \<longleftrightarrow> same_cell x y (ucast (pos_x q)) (ucast (pos_y q))"
    using node_cell [OF g l(1) k] node_cell [OF g l(2) k] by simp
  then have "at_cell (reg(c \<mapsto> q)) x y = at_cell reg x y" using c by (auto simp: at_cell_def)
  then show "leaf_lists player (at_cell (reg(c \<mapsto> q)) x y) (gr_leaves g k)" using lists_okD(2) [OF ok k] by simp
qed


subsection \<open>The operations\<close>

lemma getQTNode_node: "grid_inv (w_grid w) \<Longrightarrow> getQTNode (pos_x p) (pos_y p) w = leaf_node (w_grid w) p"
  by (simp add: getQTNode_def leaf_node_def leaf_at_getLeaf)

lemma tile_of_node:
  assumes "grid_inv (w_grid w)" and "tile_of w p = Some t"
  shows "\<exists>l. leaf_node (w_grid w) p = Some l" and "getZ p < 16"
proof -
  show "\<exists>l. leaf_node (w_grid w) p = Some l"
    using assms by (auto simp: tile_of_def getTile_slot leaf_node_def split: if_splits option.splits)
  have "unat (pos_z p) < 16"
    using assms by (auto simp: tile_of_def getTile_slot MAP_MAX_LAYERS_def not_le split: if_splits)
  then show "getZ p < 16" unfolding getZ_def uint_nat by linarith
qed

lemma cache_ok_players:
  assumes "\<And>d. player d \<Longrightarrow> registered w' d = registered w d"
  shows "cache_ok player w' True = cache_ok player w True"
proof -
  have "common_view player w' p True = common_view player w p True" for p
    using assms by (auto simp: common_view_def viewers_def)
  then show ?thesis by (intro ext) (simp add: cache_ok_def)
qed

text \<open>A change of one creature's tile keeps the caches right: the general one is cleared, the one of
  players too when a player moves.\<close>

lemma caches_cleared:
  assumes "cache_ok player w True (playersSpectatorCache w)"
    and "\<And>d. d \<noteq> c \<Longrightarrow> registered w' d = registered w d"
    and "spectatorCache w' = Map.empty" and "playersSpectatorCache w' = (if player c then Map.empty else playersSpectatorCache w)"
  shows "cache_ok player w' False (spectatorCache w')" and "cache_ok player w' True (playersSpectatorCache w')"
proof -
  show "cache_ok player w' False (spectatorCache w')" using assms(3) by (simp add: cache_ok_def)
  show "cache_ok player w' True (playersSpectatorCache w')"
  proof (cases "player c")
    case True
    then show ?thesis using assms(4) by (simp add: cache_ok_def)
  next
    case False
    then have "cache_ok player w' True = cache_ok player w True" using assms(2) by (intro cache_ok_players) metis
    then show ?thesis using False assms(1,4) by simp
  qed
qed

lemma clear_caches_fields [simp]:
  "w_grid (clear_caches player c w) = w_grid w" "w_pos (clear_caches player c w) = w_pos w"
  "w_tiles (clear_caches player c w) = w_tiles w" "w_dir (clear_caches player c w) = w_dir w"
  "spectatorCache (clear_caches player c w) = Map.empty"
  "playersSpectatorCache (clear_caches player c w) = (if player c then Map.empty else playersSpectatorCache w)"
  by (simp_all add: clear_caches_def clearSpectatorCache_def clearPlayersSpectatorCache_def Let_def)

lemma tile_add_fields [simp]:
  "w_grid (tile_addCreature player p c w) = w_grid w" "w_dir (tile_addCreature player p c w) = w_dir w"
  "w_pos (tile_addCreature player p c w) = (w_pos w)(c \<mapsto> p)"
  "w_tiles (tile_addCreature player p c w) = (w_tiles w)(p := c # w_tiles w p)"
  "spectatorCache (tile_addCreature player p c w) = Map.empty"
  "playersSpectatorCache (tile_addCreature player p c w) = (if player c then Map.empty else playersSpectatorCache w)"
  by (simp_all add: tile_addCreature_def Let_def)

lemma tile_add:
  assumes t: "tiles_ok w" and c: "\<And>q. c \<notin> set (w_tiles w q)" and z: "getZ p < 16"
  shows "tiles_ok (tile_addCreature player p c w)"
    and "registered (tile_addCreature player p c w) = (registered w)(c \<mapsto> p)"
proof -
  let ?w = "tile_addCreature player p c w"
  show t': "tiles_ok ?w" using t c z unfolding tiles_ok_def by (auto simp: c)
  show "registered ?w = (registered w)(c \<mapsto> p)"
  proof
    fix d
    show "registered ?w d = ((registered w)(c \<mapsto> p)) d"
      using c by (auto simp: registered_def split: option.splits)
  qed
qed

lemma tile_remove:
  assumes t: "tiles_ok w" and c: "registered w c = Some p"
  shows "tiles_ok (tile_removeThing player p c w)"
    and "registered (tile_removeThing player p c w) = (registered w)(c := None)"
    and "c \<notin> set (w_tiles (tile_removeThing player p c w) q)"
    and "w_grid (tile_removeThing player p c w) = w_grid w" and "w_dir (tile_removeThing player p c w) = w_dir w"
    and "spectatorCache (tile_removeThing player p c w) = Map.empty"
    and "playersSpectatorCache (tile_removeThing player p c w) = (if player c then Map.empty else playersSpectatorCache w)"
proof -
  let ?w = "tile_removeThing player p c w"
  have m: "c \<in> set (w_tiles w p)" "distinct (w_tiles w q)" "c \<in> set (w_tiles w q) \<Longrightarrow> q = p" for q
    using c registered_tile [OF t] t unfolding tiles_ok_def by (simp_all, metis option.inject)
  have f: "w_pos ?w = w_pos w" "w_tiles ?w = (w_tiles w)(p := remove1 c (w_tiles w p))"
    using m(1) by (simp_all add: tile_removeThing_def Let_def)
  show "w_grid ?w = w_grid w" "w_dir ?w = w_dir w" "spectatorCache ?w = Map.empty"
    "playersSpectatorCache ?w = (if player c then Map.empty else playersSpectatorCache w)"
    using m(1) by (simp_all add: tile_removeThing_def Let_def)
  show gone: "c \<notin> set (w_tiles ?w q)" for q using m(2) [of p] m(3) [of q] by (auto simp: f)
  show "tiles_ok ?w" using t unfolding tiles_ok_def f by (auto dest: notin_set_remove1)
  show "registered ?w = (registered w)(c := None)"
  proof
    fix d
    show "registered ?w d = ((registered w)(c := None)) d"
      using m(2) [of p] gone [unfolded f(2)] by (auto simp: registered_def f split: option.splits)
  qed
qed


text \<open>A creature that has no tile is placed, a registered one moved or removed.\<close>

definition world_at :: "(creature_id \<Rightarrow> bool) \<Rightarrow> 'tile world \<Rightarrow> (creature_id \<rightharpoonup> position) \<Rightarrow> bool" where
  "world_at player w reg \<longleftrightarrow> world_inv player w \<and> registered w = reg"

lemma registered_grid [simp]: "registered (w\<lparr>w_grid := g\<rparr>) = registered w"
  by (intro registered_cong) simp_all

lemma tiles_ok_grid [simp]: "tiles_ok (w\<lparr>w_grid := g\<rparr>) = tiles_ok w"
  by (intro tiles_ok_cong) simp_all

lemma world_atI:
  assumes "grid_inv (w_grid w)" and "tiles_ok w" and "registered w = reg" and "lists_ok player reg (w_grid w)"
    and "cache_ok player w False (spectatorCache w)" and "cache_ok player w True (playersSpectatorCache w)"
  shows "world_at player w reg"
  using assms by (simp add: world_at_def world_inv_def)

lemma leaf_add_inv: "grid_inv g \<Longrightarrow> grid_inv (upd_leaf l (leaf_addCreature player c) g)"
  by (rule upd_leaf_inv) (simp_all add: leaf_addCreature_def Let_def)

lemma cache_ok_grid [simp]: "cache_ok player (w\<lparr>w_grid := g\<rparr>) = cache_ok player w"
  by (intro cache_ok_cong) simp

lemma place_on_ok:
  assumes inv: "world_inv (pe_player env) w" and new: "w_pos w c = None" and tile: "tile_of w p = Some t"
  shows "\<exists>w'. place_on env p c w = Some w' \<and> world_at (pe_player env) w' ((registered w)(c \<mapsto> p))"
proof -
  let ?player = "pe_player env"
  note d = world_invD [OF inv]
  obtain l where l: "leaf_node (w_grid w) p = Some l" and z: "getZ p < 16" using tile_of_node [OF d(1) tile] by blast
  have out: "c \<notin> set (w_tiles w q)" for q using d(2) new unfolding tiles_ok_def by force
  have reg: "registered w c = None" by (simp add: registered_def new)
  let ?w = "tile_addCreature ?player p c w"
  note t = tile_add [OF d(2) out z]
  have ch: "cache_ok ?player ?w False (spectatorCache ?w)" "cache_ok ?player ?w True (playersSpectatorCache ?w)"
    by (rule caches_cleared [OF d(5), where c = c]; simp add: t(2))+
  let ?g = "upd_leaf l (leaf_addCreature ?player c) (w_grid w)"
  have "place_on env p c w = Some (?w\<lparr>w_grid := ?g\<rparr>)"
    using l d(1) by (simp add: place_on_def node_addCreature_def getQTNode_node)
  moreover have "world_at ?player (?w\<lparr>w_grid := ?g\<rparr>) ((registered w)(c \<mapsto> p))"
    using ch t leaf_add_inv [OF d(1)] lists_ok_add [OF d(1,3) reg l] by (intro world_atI) simp_all
  ultimately show ?thesis by blast
qed

lemma tile_removeCreature_ok:
  assumes inv: "world_inv player w" and c: "registered w c = Some p"
  shows "\<exists>w'. tile_removeCreature player p c w = Some w' \<and> world_at player w' ((registered w)(c := None))"
proof -
  note d = world_invD [OF inv]
  obtain l where l: "leaf_node (w_grid w) p = Some l" using lists_okD(1) [OF d(3) c] by blast
  obtain lf where lf: "leaf_removeCreature player c (gr_leaves (w_grid w) l) = Some lf"
    "lists_ok player ((registered w)(c := None)) (upd_leaf l (\<lambda>_. lf) (w_grid w))" "grid_inv (upd_leaf l (\<lambda>_. lf) (w_grid w))"
    using lists_ok_remove [OF d(1,3) c l] by blast
  let ?w = "w\<lparr>w_grid := upd_leaf l (\<lambda>_. lf) (w_grid w)\<rparr>"
  let ?v = "tile_removeThing player p c ?w"
  have t: "tiles_ok ?w" "registered ?w c = Some p" using d(2) c by simp_all
  note r = tile_remove [OF t]
  have reg: "registered ?v = (registered w)(c := None)" using r(2) by simp
  have ch: "cache_ok player ?v False (spectatorCache ?v)" "cache_ok player ?v True (playersSpectatorCache ?v)"
    by (rule caches_cleared [OF d(5), where c = c]; simp add: r(6,7) reg)+
  have "tile_removeCreature player p c w = Some ?v"
    using l d(1) lf(1) by (simp add: tile_removeCreature_def node_removeCreature_def getQTNode_node)
  moreover have "world_at player ?v ((registered w)(c := None))"
    using ch r(1,4) reg lf(2,3) by (intro world_atI) simp_all
  ultimately show ?thesis by blast
qed

lemma move_node_ok:
  assumes g: "grid_inv (w_grid w)" and ok: "lists_ok player reg (w_grid w)" and c: "reg c = Some p"
    and q: "leaf_node (w_grid w) q = Some m"
  shows "\<exists>g'. move_node player c p q w = Some (w\<lparr>w_grid := g'\<rparr>) \<and> grid_inv g' \<and> lists_ok player (reg(c \<mapsto> q)) g'"
proof -
  obtain l where l: "leaf_node (w_grid w) p = Some l" using lists_okD(1) [OF ok c] by blast
  show ?thesis
  proof (cases "l = m")
    case True
    then have "lists_ok player (reg(c \<mapsto> q)) (w_grid w)" using lists_ok_move [OF g ok c l] q by simp
    then show ?thesis
      using True l q g by (intro exI [of _ "w_grid w"]) (simp add: move_node_def getQTNode_node)
  next
    case False
    obtain lf where lf: "leaf_removeCreature player c (gr_leaves (w_grid w) l) = Some lf"
      "lists_ok player (reg(c := None)) (upd_leaf l (\<lambda>_. lf) (w_grid w))" "grid_inv (upd_leaf l (\<lambda>_. lf) (w_grid w))"
      using lists_ok_remove [OF g ok c l] by blast
    let ?g = "upd_leaf l (\<lambda>_. lf) (w_grid w)"
    have m: "leaf_node ?g q = Some m" using q by (simp add: leaf_node_def)
    have "lists_ok player (reg(c := None, c \<mapsto> q)) (upd_leaf m (leaf_addCreature player c) ?g)"
      by (rule lists_ok_add [OF lf(3,2) _ m]) simp
    then show ?thesis
      using False l q g lf(1) leaf_add_inv [OF lf(3), of m player c]
      by (intro exI [of _ "upd_leaf m (leaf_addCreature player c) ?g"])
        (simp add: move_node_def node_removeCreature_def node_addCreature_def getQTNode_node)
  qed
qed


lemma setTile_ok:
  assumes inv: "world_inv player w" and run: "setTile merge x y z t (w_grid w) = Some g"
  shows "world_at player (w\<lparr>w_grid := g\<rparr>) (registered w)"
proof -
  note d = world_invD [OF inv]
  note keep = setTile_leaves(1) [OF d(1) run] and old = setTile_leaves(2) [OF d(1) run]
  have gi: "grid_inv g" using setTile_some [OF d(1) run] by blast
  have "lists_ok player (registered w) g"
    unfolding lists_ok_def
  proof (intro conjI allI impI)
    fix c p assume "registered w c = Some p"
    then show "leaf_node g p \<noteq> None" using lists_okD(1) [OF d(3)] keep unfolding leaf_node_def by fastforce
  next
    fix a b k assume k: "getLeaf (gr_root g) a b = Some k"
    from old [OF k] show "leaf_lists player (at_cell (registered w) a b) (gr_leaves g k)"
    proof (elim disjE conjE)
      assume "getLeaf (gr_root (w_grid w)) a b = Some k"
        "creature_list (gr_leaves g k) = creature_list (gr_leaves (w_grid w) k)"
        "player_list (gr_leaves g k) = player_list (gr_leaves (w_grid w) k)"
      then show ?thesis using lists_okD(2) [OF d(3)] by (simp add: leaf_lists_def)
    next
      assume n: "getLeaf (gr_root (w_grid w)) a b = None" "creature_list (gr_leaves g k) = []" "player_list (gr_leaves g k) = []"
      have "at_cell (registered w) a b = {}"
        using n(1) getLeaf_cell [OF d(1)] lists_okD(1) [OF d(3)] unfolding at_cell_def leaf_node_def by fastforce
      then show ?thesis using n by (simp add: leaf_lists_def)
    qed
  qed
  then show ?thesis using d(2,4,5) gi by (intro world_atI) simp_all
qed

text \<open>What a placement leaves: the map as it was, or one more creature on it.\<close>

definition placed :: "(creature_id \<Rightarrow> bool) \<Rightarrow> creature_id \<Rightarrow> 'tile world \<Rightarrow> bool \<times> 'tile world \<Rightarrow> bool" where
  "placed player c w r \<longleftrightarrow>
     (if fst r then \<exists>q. world_at player (snd r) ((registered w)(c \<mapsto> q)) else snd r = w)"

lemma place_at_ok:
  assumes inv: "world_inv (pe_player env) w" and new: "w_pos w c = None" and tile: "tile_of w p = Some t"
  shows "\<exists>w'. place_at env p t c w = Some (True, w') \<and> placed (pe_player env) c w (True, w')"
proof -
  obtain t' where "tile_of w (fst (queryDestination (pe_flags env) (tile_of w) p t)) = Some t'"
    using queryDestination_on_map [of "tile_of w" p t, OF tile] by blast
  from place_on_ok [OF inv new this] show ?thesis by (auto simp: place_at_def placed_def)
qed

lemma try_positions_tile:
  "try_positions env w c p e pz its = Some (q, t) \<Longrightarrow> tile_of w q = Some t \<and> pe_query env t c False = NOERROR
    \<and> (pz \<longrightarrow> pe_pz env t) \<and> (e \<longrightarrow> sight_or_not env p q) \<and> q \<in> rel_position p ` set its"
  by (induction its) (auto simp: Let_def split: option.splits if_splits)

lemma placeCreature_ok:
  assumes inv: "world_inv (pe_player env) w" and new: "w_pos w c = None" and z: "getZ p < 16"
  shows "\<exists>r. placeCreature env rels p c e f i w = Some r \<and> placed (pe_player env) c w r"
proof -
  note d = world_invD [OF inv]
  have at: "\<exists>r. place_at env q t c w = Some r \<and> placed (pe_player env) c w r" if "tile_of w q = Some t" for q t
    using place_at_ok [OF inv new that] by blast
  have flying: "\<exists>r. (case setTile (pe_merge env) (pos_x p) (pos_y p) (pos_z p) (pe_static env) (w_grid w) of
        None \<Rightarrow> None | Some g \<Rightarrow> place_at env p (pe_static env) c (w\<lparr>w_grid := g\<rparr>)) = Some r \<and> placed (pe_player env) c w r"
    if none: "tile_of w p = None"
  proof -
    obtain g where g: "setTile (pe_merge env) (pos_x p) (pos_y p) (pos_z p) (pe_static env) (w_grid w) = Some g"
      using setTile_defined [OF d(1)] by blast
    have w: "world_inv (pe_player env) (w\<lparr>w_grid := g\<rparr>)" using setTile_ok [OF inv g] by (simp add: world_at_def)
    have "unat (pos_z p) < MAP_MAX_LAYERS" using z unfolding getZ_def uint_nat MAP_MAX_LAYERS_def by linarith
    then have "tile_of (w\<lparr>w_grid := g\<rparr>) p = Some (pe_static env)"
      using setTile_some [OF d(1) g] none by (simp add: tile_of_def)
    from place_at_ok [OF w _ this, of c] new g show ?thesis by (auto simp: placed_def)
  qed
  have tries: "\<exists>r. (case try_positions env w c p e pz rels of None \<Rightarrow> Some (False, w) | Some (p, t) \<Rightarrow> place_at env p t c w) = Some r
      \<and> placed (pe_player env) c w r" for pz
  proof (cases "try_positions env w c p e pz rels")
    case (Some a)
    then show ?thesis using at try_positions_tile by (cases a) fastforce
  qed (simp add: placed_def)
  show ?thesis
  proof (cases "tile_of w p")
    case None
    then show ?thesis
      using flying [OF None] tries [of False] by (cases "i \<and> pe_flying env c") (simp_all add: placeCreature_def Let_def)
  next
    case (Some t)
    let ?found = "f \<or> pe_query env t c True = NOERROR \<or> pe_query env t c True = PLAYERISNOTINVITED"
    show ?thesis
      using Some at [OF Some] tries [of "pe_pz env t"]
      by (cases ?found; cases "i \<and> pe_flying env c") (simp_all only: placeCreature_def Let_def option.case bool.case prod.case if_True if_False simp_thms)
  qed
qed

subsection \<open>Moves\<close>

text \<open>The stack positions that are collected before the move and used after it belong together.\<close>

lemma send_moves_stack:
  "send_moves player ni tp ss (old_stack_positions player sees oi ss) =
    Some (map (\<lambda>s. SendMove s (ni s) (oi s) tp) (filter (\<lambda>s. player s \<and> sees s \<and> oi s \<noteq> -1) ss))"
  by (induction ss) auto

definition move_spectators :: "(creature_id \<Rightarrow> bool) \<Rightarrow> 'tile world \<Rightarrow> position \<Rightarrow> position \<Rightarrow> creature_id list \<Rightarrow> bool" where
  "move_spectators player w p q ss \<longleftrightarrow>
     distinct ss \<and> set ss = common_view player w p False \<union> common_view player w q False"

lemma common_search:
  assumes "world_inv player w" and "getZ p < 16"
    and "getSpectators player w [] p True False (0, 0, 0, 0) = (cs, w')"
  shows "distinct cs" and "set cs = common_view player w p False" and "world_inv player w'" and "same_map w w'"
  using getSpectators_inv [OF assms] by (simp_all add: common_view_def view_ranges_def)

lemma same_map_registered: "same_map w w' \<Longrightarrow> registered w' = registered w"
  unfolding same_map_def by (intro registered_cong) simp_all

text \<open>The events of a move: each player that sees the creature gets the old stack position of its
  own client and the new one, then everybody is told once.\<close>

definition move_events ::
  "'tile place_env \<Rightarrow> 'tile move_env \<Rightarrow> creature_id \<Rightarrow> 'tile world \<Rightarrow> 'tile world \<Rightarrow> position \<Rightarrow> position \<Rightarrow> bool
    \<Rightarrow> creature_id list \<Rightarrow> move_event list" where
  "move_events env mv c before after p q teleport ss =
     map (\<lambda>s. SendMove s (mv_index mv after q s c) (mv_index mv before p s c) teleport)
       (filter (\<lambda>s. pe_player env s \<and> mv_sees mv s c \<and> mv_index mv before p s c \<noteq> -1) ss)
     @ map (\<lambda>s. OnCreatureMove s teleport) ss @ [PostRemove p, PostAdd q]"

lemma world_at_dir [simp]:
  "registered (w\<lparr>w_dir := d\<rparr>) = registered w" "tiles_ok (w\<lparr>w_dir := d\<rparr>) = tiles_ok w"
  "cache_ok player (w\<lparr>w_dir := d\<rparr>) = cache_ok player w" "world_inv player (w\<lparr>w_dir := d\<rparr>) = world_inv player w"
proof -
  show r: "registered (w\<lparr>w_dir := d\<rparr>) = registered w" by (intro registered_cong) simp_all
  show t: "tiles_ok (w\<lparr>w_dir := d\<rparr>) = tiles_ok w" by (intro tiles_ok_cong) simp_all
  show c: "cache_ok player (w\<lparr>w_dir := d\<rparr>) = cache_ok player w" by (rule cache_ok_cong [OF r])
  show "world_inv player (w\<lparr>w_dir := d\<rparr>) = world_inv player w" by (simp add: world_inv_def r t c)
qed

lemma moveCreature_ok:
  assumes inv: "world_inv (pe_player env) w" and c: "registered w c = Some p" and tile: "tile_of w q = Some t"
  shows "\<exists>w' v ss. moveCreature env mv c q force w =
      Some (move_events env mv c v w' p q (force \<or> \<not> pe_ground env t \<or> \<not> areInRange3 1 1 0 p q) ss, w')
    \<and> same_map w v \<and> move_spectators (pe_player env) w p q ss
    \<and> world_at (pe_player env) w' ((registered w)(c \<mapsto> q))"
proof -
  let ?player = "pe_player env"
  let ?tp = "force \<or> \<not> pe_ground env t \<or> \<not> areInRange3 1 1 0 p q"
  obtain cs w1 where s1: "getSpectators ?player w [] p True False (0, 0, 0, 0) = (cs, w1)" by force
  obtain ds w2 where s2: "getSpectators ?player w1 [] q True False (0, 0, 0, 0) = (ds, w2)" by force
  note d = world_invD [OF inv]
  have pc: "w_pos w c = Some p" "c \<in> set (w_tiles w p)" "getZ p < 16"
    using c registered_tile [OF d(2)] d(2) unfolding tiles_ok_def by blast+
  have qz: "getZ q < 16" using tile_of_node(2) [OF d(1) tile] .
  note r1 = common_search [OF inv pc(3) s1]
  note r2 = common_search [OF r1(3) qz s2]
  have e1: "registered w1 = registered w" "registered w2 = registered w"
    using same_map_registered [OF r1(4)] same_map_registered [OF r2(4)] by simp_all
  have sm: "same_map w w2" using r1(4) r2(4) by (simp add: same_map_def)
  let ?ss = "addSpectators cs ds"
  have ss: "move_spectators ?player w p q ?ss"
    using r1(1,2) r2(1,2) e1(1) by (simp add: move_spectators_def common_view_def)
  note d2 = world_invD [OF r2(3)]
  have c2: "registered w2 c = Some p" using e1 c by simp
  let ?w3 = "tile_removeThing ?player p c w2"
  note t3 = tile_remove [OF d2(2) c2]
  obtain m where m: "leaf_node (w_grid w2) q = Some m"
    using tile_of_node(1) [OF d2(1), of q t] tile sm by (auto simp: tile_of_def same_map_def)
  obtain g where g: "move_node ?player c p q ?w3 = Some (?w3\<lparr>w_grid := g\<rparr>)" "grid_inv g"
    "lists_ok ?player ((registered w)(c \<mapsto> q)) g"
    using move_node_ok [of ?w3, unfolded t3(4), OF d2(1,3) c2 m] e1(2) by auto
  let ?w4 = "?w3\<lparr>w_grid := g\<rparr>"
  let ?w5 = "tile_addCreature ?player q c ?w4"
  have t5: "tiles_ok ?w5" "registered ?w5 = (registered w)(c \<mapsto> q)"
    using tile_add [of ?w4 c q ?player] t3(1,2,3) qz e1(2) by simp_all
  have ch: "cache_ok ?player ?w5 False (spectatorCache ?w5)" "cache_ok ?player ?w5 True (playersSpectatorCache ?w5)"
    by (rule caches_cleared [OF d2(5), where c = c]; simp add: t5(2) t3(6,7) e1(2))+
  have w5: "world_at ?player ?w5 ((registered w)(c \<mapsto> q))"
    using t5 ch g(2,3) by (intro world_atI) simp_all
  let ?w6 = "if \<not> ?tp then ?w5\<lparr>w_dir := (w_dir ?w5)(c := move_direction p q (w_dir ?w5 c))\<rparr> else ?w5"
  have w6: "world_at ?player ?w6 ((registered w)(c \<mapsto> q))" using w5 by (simp add: world_at_def)
  have ground: "(case tile_of w q of None \<Rightarrow> False | Some t \<Rightarrow> pe_ground env t) = pe_ground env t" by (simp add: tile)
  have "moveCreature env mv c q force w = Some (move_events env mv c w2 ?w6 p q ?tp ?ss, ?w6)"
    unfolding moveCreature_def pc(1) option.case Let_def ground s1 s2 prod.case g(1) send_moves_stack move_events_def
    using pc(2) by simp
  then show ?thesis using sm ss w6 by blast
qed

section \<open>Reachable maps\<close>

definition new_world :: "'tile world" where
  "new_world = \<lparr>w_grid = new_grid, w_pos = Map.empty, w_tiles = (\<lambda>p. []), w_dir = (\<lambda>c. DIRECTION_SOUTH),
     spectatorCache = Map.empty, playersSpectatorCache = Map.empty\<rparr>"

text \<open>
  What happens to the map: tiles are put, creatures that are not on the map are placed, creatures
  move onto tiles of the map, are removed while they are on it, and spectators are searched with
  an empty vector, as every caller does.
\<close>

inductive map_run :: "'tile place_env \<Rightarrow> 'tile move_env \<Rightarrow> 'tile world \<Rightarrow> bool" for env mv where
  start: "map_run env mv new_world"
| set_tile: "map_run env mv w \<Longrightarrow> setTile (pe_merge env) x y z t (w_grid w) = Some g \<Longrightarrow> map_run env mv (w\<lparr>w_grid := g\<rparr>)"
| place: "map_run env mv w \<Longrightarrow> getZ p < 16 \<Longrightarrow> internalPlaceCreature env rels p c e f i w = Some (b, w') \<Longrightarrow> map_run env mv w'"
| move: "map_run env mv w \<Longrightarrow> tile_of w q = Some t \<Longrightarrow> moveCreature env mv c q force w = Some (es, w') \<Longrightarrow> map_run env mv w'"
| remove: "map_run env mv w \<Longrightarrow> c \<in> set (w_tiles w p) \<Longrightarrow> tile_removeCreature (pe_player env) p c w = Some w' \<Longrightarrow> map_run env mv w'"
| find: "map_run env mv w \<Longrightarrow> getSpectators (pe_player env) w [] p mf players args = (cs, w') \<Longrightarrow> map_run env mv w'"

lemma new_grid_leaf [simp]: "getLeaf (gr_root new_grid) x y = None"
  by (simp add: new_grid_def empty_node_def pick_def)

lemma new_world_inv: "world_inv player new_world"
proof -
  have reg: "registered new_world = Map.empty" by (simp add: registered_def new_world_def fun_eq_iff)
  moreover have f: "w_grid new_world = new_grid" "w_tiles new_world = (\<lambda>p. [])" "spectatorCache new_world = Map.empty"
    "playersSpectatorCache new_world = Map.empty"
    by (simp_all add: new_world_def)
  ultimately show ?thesis
    unfolding world_inv_def f lists_ok_def cache_ok_def tiles_ok_def reg by (simp add: new_grid_inv)
qed

lemma map_run_inv: "map_run env mv w \<Longrightarrow> world_inv (pe_player env) w"
proof (induction rule: map_run.induct)
  case start
  show ?case by (rule new_world_inv)
next
  case (set_tile w x y z t g)
  then show ?case using setTile_ok [OF set_tile.IH] by (simp add: world_at_def)
next
  case (place w p rels c e f i b w')
  show ?case
  proof (cases "w_pos w c = None")
    case True
    then show ?thesis
      using placeCreature_ok [OF place.IH True place.hyps(2), of rels e f i] place
      by (auto simp: internalPlaceCreature_def placed_def world_at_def split: if_splits)
  next
    case False
    then show ?thesis using place by (simp add: internalPlaceCreature_def)
  qed
next
  case (move w q t c force es w')
  show ?case
  proof (cases "registered w c")
    case None
    then have "w' = w" using move.hyps(3) by (auto simp: moveCreature_def registered_def split: option.splits if_splits)
    then show ?thesis using move.IH by simp
  next
    case (Some p)
    from moveCreature_ok [OF move.IH Some move.hyps(2), of mv force] move.hyps(3) show ?thesis by (auto simp: world_at_def)
  qed
next
  case (remove w c p w')
  then have "registered w c = Some p" using registered_tile world_invD(2) by blast
  from tile_removeCreature_ok [OF remove.IH this] remove.hyps(3) show ?case by (auto simp: world_at_def)
next
  case (find w p mf players args cs w')
  show ?case
  proof (cases "getZ p < 16")
    case True
    then show ?thesis using getSpectators_inv(3) [OF find.IH True find.hyps(2)] by simp
  next
    case False
    then show ?thesis using find by (simp add: getSpectators_def MAP_MAX_LAYERS_def)
  qed
qed

section \<open>Properties of the map and its creatures\<close>

text \<open>
  C15. In every reachable map a search of spectators (with or without the caches) gives each
  creature in view once and nobody else: those on tiles whose floor is in the range of floors and
  whose coordinates, shifted by the difference of floors, are in the ranges; the players among
  them when only players are asked for.
\<close>

theorem search_finds_viewers:
  assumes "map_run env mv w" and "getZ p < 16"
    and "getSpectators (pe_player env) w [] p multifloor onlyPlayers args = (cs, w')"
  shows "distinct cs
    \<and> set cs = {c. \<exists>q. c \<in> set (w_tiles w q) \<and> in_view p (view_ranges args) (floor_range p multifloor) q
                  \<and> (onlyPlayers \<longrightarrow> pe_player env c)}"
proof -
  note inv = map_run_inv [OF assms(1)]
  note s = getSpectators_inv [OF inv assms(2,3)]
  show ?thesis
    using s(1) unfolding s(2) viewers_def registered_tile [OF world_invD(2) [OF inv]] by simp
qed

text \<open>
  C27. In every reachable map placing, moving and removing a creature never dereferences a missing
  leaf or writes through the iterator of a creature that is not listed.
\<close>

theorem creature_operations_defined:
  assumes "map_run env mv w" and "getZ p < 16" and "c \<in> set (w_tiles w r)" and "tile_of w q = Some t"
  shows "(\<exists>x. internalPlaceCreature env rels p d e f i w = Some x) \<and> (\<exists>x. moveCreature env mv c q force w = Some x)
    \<and> (\<exists>x. tile_removeCreature (pe_player env) r c w = Some x)"
proof -
  note inv = map_run_inv [OF assms(1)]
  have reg: "registered w c = Some r" using registered_tile [OF world_invD(2) [OF inv]] assms(3) by simp
  have "\<exists>x. internalPlaceCreature env rels p d e f i w = Some x"
    using placeCreature_ok [OF inv _ assms(2), of d rels e f i] by (auto simp: internalPlaceCreature_def)
  moreover have "\<exists>x. moveCreature env mv c q force w = Some x"
    using moveCreature_ok [OF inv reg assms(4)] by blast
  moreover have "\<exists>x. tile_removeCreature (pe_player env) r c w = Some x"
    using tile_removeCreature_ok [OF inv reg] by blast
  ultimately show ?thesis by blast
qed

text \<open>
  C26. A move takes the creature from its tile to the new one and to no other, tells every creature
  in view of either position exactly once, and sends each player that sees it the stack position
  the creature had for that player's own client.
\<close>

theorem moveCreature_tells:
  assumes "map_run env mv w" and "c \<in> set (w_tiles w p)" and "tile_of w q = Some t"
    and "moveCreature env mv c q force w = Some (es, w')"
  shows "(\<exists>v ss. es = move_events env mv c v w' p q (force \<or> \<not> pe_ground env t \<or> \<not> areInRange3 1 1 0 p q) ss
      \<and> same_map w v \<and> distinct ss
      \<and> set ss = {s. \<exists>r. s \<in> set (w_tiles w r) \<and> (in_view p (-15, 15, -9, 9) (floor_range p True) r
                            \<or> in_view q (-15, 15, -9, 9) (floor_range q True) r)})
    \<and> (\<forall>d r. d \<in> set (w_tiles w' r) \<longleftrightarrow> (if d = c then r = q else d \<in> set (w_tiles w r)))"
proof -
  note inv = map_run_inv [OF assms(1)]
  note tile = registered_tile [OF world_invD(2) [OF inv]]
  have reg: "registered w c = Some p" using tile assms(2) by simp
  obtain v ss where m: "es = move_events env mv c v w' p q (force \<or> \<not> pe_ground env t \<or> \<not> areInRange3 1 1 0 p q) ss"
    "same_map w v" "move_spectators (pe_player env) w p q ss" "world_at (pe_player env) w' ((registered w)(c \<mapsto> q))"
    using moveCreature_ok [OF inv reg assms(3), of mv force] assms(4) by auto
  have ss: "distinct ss" "set ss = {s. \<exists>r. s \<in> set (w_tiles w r) \<and> (in_view p (-15, 15, -9, 9) (floor_range p True) r
                            \<or> in_view q (-15, 15, -9, 9) (floor_range q True) r)}"
    using m(3) by (auto simp: move_spectators_def common_view_def viewers_def tile maxViewportX_def maxViewportY_def)
  have "registered w' d = ((registered w)(c \<mapsto> q)) d" "tiles_ok w'" for d using m(4) by (simp_all add: world_at_def world_inv_def)
  then have "d \<in> set (w_tiles w' r) \<longleftrightarrow> (if d = c then r = q else d \<in> set (w_tiles w r))" for d r
    using registered_tile [of w' d r] tile [of d r] by auto
  with m(1,2) ss show ?thesis by blast
qed

text \<open>
  A search over the common view with a vector that is not empty stores the vector's earlier
  contents in the cache with the result: a later search at that position finds creatures that are
  not in view.
\<close>

theorem accumulator_cached:
  assumes "world_inv player w" and "getZ p < 16" and "spectatorCache w p = None" and "c \<notin> common_view player w p False"
    and "getSpectators player w [c] p True False (0, 0, 0, 0) = (cs, w')"
  shows "c \<in> set (fst (getSpectators player w' [] p True False (0, 0, 0, 0)))"
proof -
  have v: "view_ranges (0, 0, 0, 0) = (- maxViewportX, maxViewportX, - maxViewportY, maxViewportY)"
    by (simp add: view_ranges_def)
  obtain ds where "find_viewers w [c] p True False (- maxViewportX, maxViewportX, - maxViewportY, maxViewportY) = [c] @ ds"
    using search_spec [OF assms(1)] by blast
  then have "w' = w\<lparr>spectatorCache := (spectatorCache w)(p \<mapsto> c # ds)\<rparr>"
    using assms(2,3,5) by (auto simp: getSpectators_def MAP_MAX_LAYERS_def v cached_def Let_def)
  then show ?thesis using assms(2) by (simp add: getSpectators_def MAP_MAX_LAYERS_def v cached_def)
qed


subsection \<open>An example\<close>

text \<open>Two tiles and a player on the first of them; every tile can be entered.\<close>

definition open_env :: "nat place_env" where
  "open_env = \<lparr>pe_player = (\<lambda>c. c = 7), pe_flying = (\<lambda>c. False), pe_pz = (\<lambda>t. False), pe_query = (\<lambda>t c b. NOERROR),
     pe_flags = (\<lambda>t. {}), pe_ground = (\<lambda>t. True),
     pe_sight = \<lparr>sm_blockProjectile = (\<lambda>p. False), sm_thingCount = (\<lambda>p. 0)\<rparr>, pe_static = 0, pe_merge = (\<lambda>a b. a)\<rparr>"

definition example_env :: "nat move_env" where
  "example_env = \<lparr>mv_sees = (\<lambda>s c. True), mv_index = (\<lambda>w p s c. 1)\<rparr>"

lemma getTile_upd_lists: "(\<And>lf. lf_floors (f lf) = lf_floors lf) \<Longrightarrow> getTile (upd_leaf l f g) x y z = getTile g x y z"
  by (auto simp: getTile_def leaf_at_def upd_leaf_def split: option.split)

lemma place_on_tile: "place_on env p c w = Some w' \<Longrightarrow> tile_of w' q = tile_of w q"
proof -
  assume "place_on env p c w = Some w'"
  then obtain l where "w_grid w' = upd_leaf l (leaf_addCreature (pe_player env) c) (w_grid w)"
    by (auto simp: place_on_def node_addCreature_def Let_def split: option.splits)
  then show "tile_of w' q = tile_of w q" by (simp add: tile_of_def getTile_upd_lists leaf_addCreature_def Let_def)
qed

definition example_world :: "nat world \<Rightarrow> bool" where
  "example_world w \<longleftrightarrow> map_run open_env example_env w \<and> (\<forall>c q. c \<in> set (w_tiles w q) \<longleftrightarrow> c = 7 \<and> q = Position 100 100 7)
     \<and> tile_of w (Position 101 100 7) = Some 2 \<and> spectatorCache w = Map.empty"

lemma example_worldD:
  assumes "example_world w"
  shows "map_run open_env example_env w" and "c \<in> set (w_tiles w q) \<longleftrightarrow> c = 7 \<and> q = Position 100 100 7"
    and "tile_of w (Position 101 100 7) = Some 2" and "spectatorCache w = Map.empty"
  using assms unfolding example_world_def by blast+

lemma getTile_new_grid [simp]: "getTile new_grid x y z = None"
  by (simp add: getTile_def leaf_at_def new_grid_def empty_node_def pick_def)

lemma example_map: "\<exists>w. example_world w"
proof -
  let ?p = "Position 100 100 7"
  obtain g1 where g1: "setTile (pe_merge open_env) 100 100 7 5 new_grid = Some g1"
    using setTile_defined [OF new_grid_inv, of "pe_merge open_env" 100 100 7 5] by blast
  note s1 = setTile_some [OF new_grid_inv g1]
  obtain g2 where g2: "setTile (pe_merge open_env) 101 100 7 2 g1 = Some g2"
    using setTile_defined [OF conjunct1 [OF s1], of "pe_merge open_env" 101 100 7 2] by blast
  note s2 = setTile_some [OF conjunct1 [OF s1] g2]
  let ?w = "new_world\<lparr>w_grid := g2\<rparr>"
  have "map_run open_env example_env (new_world\<lparr>w_grid := g1\<rparr>)" 
    by (rule map_run.set_tile [OF map_run.start, of open_env 100 100 7 5]) (simp only: new_world_def world.simps g1)
  then have r2: "map_run open_env example_env ?w"
    using map_run.set_tile [of open_env example_env "new_world\<lparr>w_grid := g1\<rparr>" 101 100 7 2 g2] g2 by simp
  have t: "tile_of ?w ?p = Some 5" "tile_of ?w (Position 101 100 7) = Some 2"
    using s1 s2 by (simp_all add: tile_of_def MAP_MAX_LAYERS_def)
  have new: "w_pos ?w 7 = None" by (simp add: new_world_def)
  have dest: "queryDestination (pe_flags open_env) (tile_of ?w) ?p 5 = (?p, False)" by (simp add: queryDestination_def open_env_def)
  obtain w' where w': "place_on open_env ?p 7 ?w = Some w'" using place_on_ok [OF map_run_inv [OF r2] new t(1)] by blast
  have at: "place_at open_env ?p 5 7 ?w = Some (True, w')" by (simp only: place_at_def dest fst_conv w' option.case)
  have query: "pe_query open_env t c b = NOERROR" for t c b by (simp add: open_env_def)
  have "internalPlaceCreature open_env [] ?p 7 False False False ?w = Some (True, w')"
    unfolding internalPlaceCreature_def placeCreature_def Let_def t(1) option.case query new using at by simp
  then have r3: "map_run open_env example_env w'" by (rule map_run.place [OF r2, rotated]) (simp add: getZ_def)
  have "w_tiles w' = (w_tiles ?w)(?p := 7 # w_tiles ?w ?p)" "spectatorCache w' = Map.empty"
    using w' by (auto simp: place_on_def node_addCreature_def Let_def split: option.splits)
  then have "example_world w'" using r3 t(2) place_on_tile [OF w'] by (auto simp: example_world_def new_world_def)
  then show ?thesis by blast
qed

text \<open>The theorems apply to the example.\<close>

theorem search_finds_viewers_witness:
  "\<exists>w :: nat world. \<exists>cs w'. getSpectators (pe_player open_env) w [] (Position 90 95 7) True False (0, 0, 0, 0) = (cs, w') \<and> distinct cs \<and> set cs = {7}"
proof -
  obtain w where w: "example_world w" using example_map by blast
  obtain cs w' where s: "getSpectators (pe_player open_env) w [] (Position 90 95 7) True False (0, 0, 0, 0) = (cs, w')" by force
  have "distinct cs \<and> set cs = {7}"
    using search_finds_viewers [OF example_worldD(1) [OF w] _ s]
    by (simp add: example_worldD(2) [OF w] view_ranges_def floor_range_def in_view_iff getX_def getY_def getZ_def
        maxViewportX_def maxViewportY_def)
  then show ?thesis using s by blast
qed

theorem creature_operations_defined_witness:
  "\<exists>w x y z. internalPlaceCreature open_env [] (Position 100 100 7) 9 False False False w = Some x
    \<and> moveCreature open_env example_env 7 (Position 101 100 7) False w = Some y
    \<and> tile_removeCreature (pe_player open_env) (Position 100 100 7) 7 w = Some z"
proof -
  obtain w where w: "example_world w" using example_map by blast
  note d = example_worldD [OF w]
  have "7 \<in> set (w_tiles w (Position 100 100 7))" by (simp add: d(2))
  from creature_operations_defined [OF d(1) _ this d(3), of "Position 100 100 7" "[]" 9 False False False False]
  show ?thesis by (auto simp: getZ_def)
qed

theorem moveCreature_tells_witness:
  "\<exists>w es w'. moveCreature open_env example_env 7 (Position 101 100 7) False w = Some (es, w')
    \<and> 7 \<in> set (w_tiles w (Position 100 100 7)) \<and> 7 \<in> set (w_tiles w' (Position 101 100 7))"
proof -
  obtain w where w: "example_world w" using example_map by blast
  note d = example_worldD [OF w]
  have m: "7 \<in> set (w_tiles w (Position 100 100 7))" by (simp add: d(2))
  then have "registered w 7 = Some (Position 100 100 7)" using registered_tile [OF world_invD(2) [OF map_run_inv [OF d(1)]]] by simp
  then obtain es w' where r: "moveCreature open_env example_env 7 (Position 101 100 7) False w = Some (es, w')"
    using moveCreature_ok [OF map_run_inv [OF d(1)] _ d(3)] by blast
  have "7 \<in> set (w_tiles w' (Position 101 100 7))" using moveCreature_tells [OF d(1) m d(3) r] by simp
  then show ?thesis using r m by blast
qed

theorem accumulator_cached_witness:
  "\<exists>w :: nat world. \<exists>cs w'. getSpectators (pe_player open_env) w [9] (Position 90 95 7) True False (0, 0, 0, 0) = (cs, w')
    \<and> 9 \<in> set (fst (getSpectators (pe_player open_env) w' [] (Position 90 95 7) True False (0, 0, 0, 0)))"
proof -
  obtain w where w: "example_world w" using example_map by blast
  note d = example_worldD [OF w]
  obtain cs w' where s: "getSpectators (pe_player open_env) w [9] (Position 90 95 7) True False (0, 0, 0, 0) = (cs, w')" by force
  have "9 \<notin> common_view (pe_player open_env) w (Position 90 95 7) False"
    using d(2) registered_tile [OF world_invD(2) [OF map_run_inv [OF d(1)]]] by (auto simp: common_view_def viewers_def)
  from accumulator_cached [OF map_run_inv [OF d(1)] _ _ this s] s d(4) show ?thesis by (auto simp: getZ_def)
qed

end
