(* ===== verification/Advancement.thy ===== *)
theory Advancement
  imports Prelude
begin

text \<open>
  Levels, skills and magic levels of a player (\<^verbatim>\<open>src/src/player.cpp\<close>,
  \<^verbatim>\<open>src/src/player.h\<close>, the checks of \<^verbatim>\<open>src/src/iologindata.cpp\<close>).
  Experience and tries are unsigned 64 bit numbers. The tables of required tries come from
  floating point powers and are a parameter, as are the amounts that the event scripts and the
  floating point loss percentages leave over.
\<close>

section \<open>Experience\<close>

definition getExpForLevel :: "nat \<Rightarrow> u64" where
  "getExpForLevel lv = (let lv = of_nat lv - 1 in (50 * lv * lv * lv - 150 * lv * lv + 400 * lv) div 3)"

definition getPercentLevel :: "u64 \<Rightarrow> u64 \<Rightarrow> byte" where
  "getPercentLevel n nextLevelCount =
     (if nextLevelCount = 0 then 0
      else let result = ucast ((n * 100) div nextLevelCount) :: byte in if result > 100 then 0 else result)"

record vocation_gains =
  vg_hp :: u32
  vg_mana :: u32
  vg_cap :: u32

record player_stats =
  ps_level :: nat
  ps_experience :: u64
  ps_health :: int
  ps_healthMax :: int
  ps_mana :: u32
  ps_manaMax :: u32
  ps_capacity :: u32
  ps_levelPercent :: byte

text \<open>
  \<open>ae_gain\<close> is what the bonus of a monster and the script of
  \<^verbatim>\<open>eventPlayerOnGainExperience\<close> leave of an amount, \<open>ae_lose\<close> the same for
  a loss; \<open>ae_var_hp\<close> and \<open>ae_var_mana\<close> are the modifiers \<^verbatim>\<open>varStats\<close>.
\<close>

record advance_env =
  ae_gains :: vocation_gains
  ae_gain :: "u64 \<Rightarrow> u64"
  ae_lose :: "u64 \<Rightarrow> u64"
  ae_var_hp :: int
  ae_var_mana :: int
  ae_protection :: nat
  ae_party :: bool

datatype level_event = UpdateWalkthrough | UpdateSharedExperience | PlayerAdvance nat nat | Downgraded nat nat

definition getMaxHealth :: "advance_env \<Rightarrow> player_stats \<Rightarrow> int" where
  "getMaxHealth env s = max 1 (ps_healthMax s + ae_var_hp env)"

definition getMaxMana :: "advance_env \<Rightarrow> player_stats \<Rightarrow> u32" where
  "getMaxMana env s = word_of_int (max 0 (sint (ps_manaMax s + word_of_int (ae_var_mana env))))"

definition gain_level :: "advance_env \<Rightarrow> player_stats \<Rightarrow> player_stats" where
  "gain_level env s =
     (let g = ae_gains env in
      s\<lparr>ps_level := Suc (ps_level s), ps_healthMax := ps_healthMax s + uint (vg_hp g), ps_health := ps_health s + uint (vg_hp g),
        ps_manaMax := ps_manaMax s + vg_mana g, ps_mana := ps_mana s + vg_mana g, ps_capacity := ps_capacity s + vg_cap g\<rparr>)"

text \<open>The loop of \<open>addExperience\<close>; it gives the values of \<^verbatim>\<open>currLevelExp\<close> and
  \<^verbatim>\<open>nextLevelExp\<close> at its end.\<close>

function gain_levels :: "advance_env \<Rightarrow> player_stats \<Rightarrow> u64 \<Rightarrow> u64 \<Rightarrow> player_stats \<times> u64 \<times> u64" where
  "gain_levels env s currLevelExp nextLevelExp =
     (if ps_experience s \<ge> nextLevelExp then
        (let s = gain_level env s;
             currLevelExp = nextLevelExp;
             nextLevelExp' = getExpForLevel (ps_level s + 1)
         in if currLevelExp \<ge> nextLevelExp' then (s, currLevelExp, nextLevelExp')
            else gain_levels env s currLevelExp nextLevelExp')
      else (s, currLevelExp, nextLevelExp))"
  by pat_completeness auto
termination
proof (relation "measure (\<lambda>(env, s, curr, next'). 2 ^ 64 - unat next')", goal_cases)
  case (2 env s curr nxt x1 x2 x3)
  then have "unat x2 < unat x3" by (simp add: word_less_nat_alt not_le)
  moreover have "unat x3 < 2 ^ 64" using unat_bound [of x3] by simp
  ultimately show ?case using 2 by simp
qed simp

declare gain_levels.simps [simp del]

definition percent_of :: "u64 \<Rightarrow> u64 \<Rightarrow> u64 \<Rightarrow> byte" where
  "percent_of experience currLevelExp nextLevelExp =
     (if nextLevelExp > currLevelExp then getPercentLevel (experience - currLevelExp) (nextLevelExp - currLevelExp) else 0)"

definition refill :: "advance_env \<Rightarrow> player_stats \<Rightarrow> player_stats" where
  "refill env s = s\<lparr>ps_health := getMaxHealth env s, ps_mana := getMaxMana env s\<rparr>"

definition addExperience :: "advance_env \<Rightarrow> u64 \<Rightarrow> player_stats \<Rightarrow> player_stats \<times> level_event list" where
  "addExperience env rawExp s =
     (let currLevelExp = getExpForLevel (ps_level s);
          nextLevelExp = getExpForLevel (ps_level s + 1)
      in if currLevelExp \<ge> nextLevelExp then (s\<lparr>ps_levelPercent := 0\<rparr>, [])
         else
           (let exp = ae_gain env rawExp in
            if exp = 0 then (s, [])
            else
              (let prevLevel = ps_level s;
                   s = s\<lparr>ps_experience := ps_experience s + exp\<rparr>;
                   (s, currLevelExp, nextLevelExp) = gain_levels env s currLevelExp nextLevelExp;
                   changed = (prevLevel \<noteq> ps_level s);
                   s = (if changed then refill env s else s);
                   events = (if changed then
                       (if prevLevel < ae_protection env \<and> ps_level s \<ge> ae_protection env then [UpdateWalkthrough] else [])
                       @ (if ae_party env then [UpdateSharedExperience] else []) @ [PlayerAdvance prevLevel (ps_level s)]
                     else [])
               in (s\<lparr>ps_levelPercent := percent_of (ps_experience s) currLevelExp nextLevelExp\<rparr>, events))))"

text \<open>The casts of the losses: the maximal health is cut to 32 bits.\<close>

definition int32 :: "int \<Rightarrow> int" where "int32 v = sint (word_of_int v :: u32)"

definition lose_level :: "advance_env \<Rightarrow> player_stats \<Rightarrow> player_stats" where
  "lose_level env s =
     (let g = ae_gains env in
      s\<lparr>ps_level := ps_level s - 1, ps_healthMax := max 0 (int32 (ps_healthMax s - uint (vg_hp g))),
        ps_manaMax := word_of_int (max 0 (sint (ps_manaMax s - vg_mana g))),
        ps_capacity := word_of_int (max 0 (sint (ps_capacity s - vg_cap g)))\<rparr>)"

function lose_levels :: "advance_env \<Rightarrow> player_stats \<Rightarrow> player_stats" where
  "lose_levels env s =
     (if ps_level s > 1 \<and> ps_experience s < getExpForLevel (ps_level s) then lose_levels env (lose_level env s) else s)"
  by pat_completeness auto
termination
  by (relation "measure (\<lambda>(env, s). ps_level s)") (auto simp: lose_level_def Let_def)

declare lose_levels.simps [simp del]

definition subtract_exp :: "u64 \<Rightarrow> u64 \<Rightarrow> u64" where
  "subtract_exp experience exp = word_of_int (max 0 (sint (experience - exp)))"

definition removeExperience :: "advance_env \<Rightarrow> u64 \<Rightarrow> player_stats \<Rightarrow> player_stats \<times> level_event list" where
  "removeExperience env exp s =
     (if ps_experience s = 0 \<or> exp = 0 then (s, [])
      else
        (let exp = ae_lose env exp in
         if exp = 0 then (s, [])
         else
           (let oldLevel = ps_level s;
                s = lose_levels env (s\<lparr>ps_experience := subtract_exp (ps_experience s) exp\<rparr>);
                changed = (oldLevel \<noteq> ps_level s);
                s = (if changed then refill env s else s);
                events = (if changed then
                    (if oldLevel \<ge> ae_protection env \<and> ps_level s < ae_protection env then [UpdateWalkthrough] else [])
                    @ (if ae_party env then [UpdateSharedExperience] else []) @ [Downgraded oldLevel (ps_level s)]
                  else [])
            in (s\<lparr>ps_levelPercent :=
                  percent_of (ps_experience s) (getExpForLevel (ps_level s)) (getExpForLevel (ps_level s + 1))\<rparr>, events))))"

text \<open>The level loss of a death; \<open>expLoss\<close> is the product with the loss percentage, \<open>none\<close> the
  vocation of a new player.\<close>

definition death_level_loss :: "advance_env \<Rightarrow> bool \<Rightarrow> u64 \<Rightarrow> player_stats \<Rightarrow> player_stats \<times> level_event list" where
  "death_level_loss env none expLoss s =
     (let expLoss = ae_lose env expLoss in
      if expLoss = 0 then (s, [])
      else
        (let oldLevel = ps_level s;
             s = (if none \<or> ps_level s > 7 then s\<lparr>ps_experience := ps_experience s - expLoss\<rparr> else s);
             s = lose_levels env s
         in (s\<lparr>ps_levelPercent :=
               percent_of (ps_experience s) (getExpForLevel (ps_level s)) (getExpForLevel (ps_level s + 1))\<rparr>,
             if oldLevel \<noteq> ps_level s then [Downgraded oldLevel (ps_level s)] else [])))"

text \<open>What \<^verbatim>\<open>loadPlayer\<close> makes of the stored level and experience.\<close>

definition load_level :: "nat \<Rightarrow> u64 \<Rightarrow> player_stats \<Rightarrow> player_stats" where
  "load_level dbLevel dbExperience s =
     (let level = max 1 dbLevel;
          currExpCount = getExpForLevel level; nextExpCount = getExpForLevel (level + 1);
          experience = (if dbExperience < currExpCount \<or> dbExperience > nextExpCount then currExpCount else dbExperience)
      in s\<lparr>ps_level := level, ps_experience := experience,
           ps_levelPercent := (if currExpCount < nextExpCount
             then getPercentLevel (experience - currExpCount) (nextExpCount - currExpCount) else 0)\<rparr>)"

section \<open>The table of experience\<close>

text \<open>The last level whose experience fits into 64 bits; the next value wraps and is smaller, which
  the loops read as the end of the table.\<close>

definition MAX_LEVEL :: nat where "MAX_LEVEL = 717217"

definition cubic :: "int \<Rightarrow> int" where "cubic l = 50 * l * l * l - 150 * l * l + 400 * l"

definition exp_at :: "nat \<Rightarrow> int" where "exp_at lv = cubic (int lv - 1) div 3"

lemma cubic_Suc: "cubic (l + 1) = cubic l + 3 * (50 * l * l - 50 * l + 100)"
  by (simp add: cubic_def algebra_simps)

lemma exp_poly: "cubic (int lv - 1) = 3 * exp_at lv"
proof -
  have "3 dvd cubic (int lv - 1)"
  proof (induction lv)
    case 0
    show ?case by (simp add: cubic_def)
  next
    case (Suc lv)
    have "cubic (int (Suc lv) - 1) = cubic (int lv - 1) + 3 * (50 * (int lv - 1) * (int lv - 1) - 50 * (int lv - 1) + 100)"
      using cubic_Suc [of "int lv - 1"] by simp
    then show ?case using Suc.IH by (simp only: dvd_add_triv_right_iff dvd_add dvd_triv_left)
  qed
  then show ?thesis by (simp add: exp_at_def)
qed

lemma exp_at_Suc: "exp_at (Suc lv) = exp_at lv + (50 * (int lv - 1) * (int lv - 1) - 50 * (int lv - 1) + 100)"
proof -
  have "3 * exp_at (Suc lv) = 3 * exp_at lv + 3 * (50 * (int lv - 1) * (int lv - 1) - 50 * (int lv - 1) + 100)"
    using cubic_Suc [of "int lv - 1"] unfolding exp_poly [symmetric] by simp
  then show ?thesis by simp
qed

lemma exp_at_less_Suc: "exp_at lv < exp_at (Suc lv)"
proof -
  have "0 \<le> (l - 1) * l" for l :: int by (cases "l \<le> 0") (auto simp: mult_nonpos_nonpos)
  from this [of "int lv - 1"] have "0 \<le> (int lv - 1) * (int lv - 1) - (int lv - 1)" by (simp add: algebra_simps)
  then show ?thesis by (simp add: exp_at_Suc algebra_simps)
qed

lemma exp_at_mono: "exp_at a < exp_at b \<longleftrightarrow> a < b" "exp_at a \<le> exp_at b \<longleftrightarrow> a \<le> b"
proof -
  have m: "strict_mono exp_at" using exp_at_less_Suc by (simp add: strict_mono_Suc_iff)
  show "exp_at a < exp_at b \<longleftrightarrow> a < b" "exp_at a \<le> exp_at b \<longleftrightarrow> a \<le> b"
    using strict_mono_less [OF m] strict_mono_less_eq [OF m] by simp_all
qed

lemma exp_at_1: "exp_at (Suc 0) = 0" by (simp add: exp_at_def cubic_def)

lemma exp_at_last: "exp_at MAX_LEVEL = 6148891664141657600" by (simp add: exp_at_def cubic_def MAX_LEVEL_def)

lemma exp_word: "uint (getExpForLevel lv) = (3 * exp_at lv mod 2 ^ 64) div 3"
proof -
  let ?v = "cubic (int lv - 1)"
  have w: "word_of_int ?v = (let lv = of_nat lv - 1 in 50 * lv * lv * lv - 150 * lv * lv + 400 * lv :: u64)"
    by (simp add: cubic_def Let_def)
  have "uint (word_of_int ?v :: u64) = ?v mod 2 ^ 64" by (simp add: unsigned_of_int take_bit_eq_mod)
  moreover have "getExpForLevel lv = word_of_int ?v div 3" unfolding w by (simp add: getExpForLevel_def Let_def)
  ultimately show ?thesis unfolding exp_poly [symmetric] by (simp add: uint_div_distrib)
qed

lemma exp_value:
  assumes "1 \<le> lv" and "lv \<le> MAX_LEVEL"
  shows "uint (getExpForLevel lv) = exp_at lv"
proof -
  have "exp_at (Suc 0) \<le> exp_at lv" "exp_at lv \<le> exp_at MAX_LEVEL" using assms by (simp_all only: exp_at_mono)
  then have "0 \<le> exp_at lv" "3 * exp_at lv < 2 ^ 64" by (simp_all add: exp_at_1 exp_at_last)
  then show ?thesis by (simp add: exp_word)
qed

lemma exp_past_last: "uint (getExpForLevel (Suc MAX_LEVEL)) = 2692808812494"
  by (simp add: exp_word exp_at_def cubic_def MAX_LEVEL_def)

section \<open>The level of an experience\<close>

definition level_fits :: "nat \<Rightarrow> u64 \<Rightarrow> bool" where
  "level_fits lv e \<longleftrightarrow> 1 \<le> lv \<and> lv \<le> MAX_LEVEL \<and> exp_at lv \<le> uint e \<and> (lv < MAX_LEVEL \<longrightarrow> uint e < exp_at (Suc lv))"

definition level_ok :: "player_stats \<Rightarrow> bool" where
  "level_ok s \<longleftrightarrow> level_fits (ps_level s) (ps_experience s)"

lemma level_fits_unique: "level_fits a e \<Longrightarrow> level_fits b e \<Longrightarrow> a = b"
proof -
  have le: "a \<le> b" if "level_fits a e" "level_fits b e" for a b
  proof (cases "b < MAX_LEVEL")
    case True
    then have "exp_at a < exp_at (Suc b)" using that by (simp add: level_fits_def)
    then show ?thesis by (simp add: exp_at_mono)
  next
    case False
    then show ?thesis using that by (simp add: level_fits_def)
  qed
  show "level_fits a e \<Longrightarrow> level_fits b e \<Longrightarrow> a = b" using le [of a b] le [of b a] by simp
qed

lemma exp_word_le:
  assumes "1 \<le> lv" and "lv \<le> MAX_LEVEL"
  shows "getExpForLevel lv \<le> e \<longleftrightarrow> exp_at lv \<le> uint e" and "e < getExpForLevel lv \<longleftrightarrow> uint e < exp_at lv"
  using exp_value [OF assms] by (simp_all add: word_le_def word_less_def)

text \<open>The end of the table is where its next value is not greater.\<close>

lemma table_end:
  assumes "1 \<le> lv" and "lv \<le> MAX_LEVEL"
  shows "getExpForLevel (Suc lv) \<le> getExpForLevel lv \<longleftrightarrow> lv = MAX_LEVEL"
proof (cases "lv = MAX_LEVEL")
  case True
  then show ?thesis
    using exp_past_last exp_value [of MAX_LEVEL] exp_at_last assms by (simp add: word_le_def)
next
  case False
  then have "exp_at lv < exp_at (Suc lv)" using exp_at_mono(1) by simp
  then show ?thesis using exp_value [of lv] exp_value [of "Suc lv"] assms False by (simp add: word_le_def)
qed

text \<open>What \<open>k\<close> levels change, health and mana aside.\<close>

definition raised :: "advance_env \<Rightarrow> nat \<Rightarrow> player_stats \<Rightarrow> player_stats" where
  "raised env k s = s\<lparr>ps_level := ps_level s + k, ps_healthMax := ps_healthMax s + int k * uint (vg_hp (ae_gains env)),
     ps_manaMax := ps_manaMax s + of_nat k * vg_mana (ae_gains env),
     ps_capacity := ps_capacity s + of_nat k * vg_cap (ae_gains env)\<rparr>"

lemma raised_simps [simp]:
  "ps_level (raised env k s) = ps_level s + k" "ps_experience (raised env k s) = ps_experience s"
  "ps_health (raised env k s) = ps_health s" "ps_mana (raised env k s) = ps_mana s"
  "raised env 0 s = s"
  by (simp_all add: raised_def)

lemma gain_level_raised:
  "gain_level env s = (raised env 1 s)\<lparr>ps_health := ps_health s + uint (vg_hp (ae_gains env)), ps_mana := ps_mana s + vg_mana (ae_gains env)\<rparr>"
  by (simp add: gain_level_def raised_def Let_def)

lemma raised_add: "raised env j ((raised env k s)\<lparr>ps_health := h, ps_mana := m\<rparr>) = (raised env (k + j) s)\<lparr>ps_health := h, ps_mana := m\<rparr>"
  by (simp add: raised_def algebra_simps)

lemma gain_levels_spec:
  assumes "1 \<le> ps_level s" and "ps_level s < MAX_LEVEL" and "exp_at (ps_level s) \<le> uint (ps_experience s)"
  shows "\<exists>k h m. gain_levels env s (getExpForLevel (ps_level s)) (getExpForLevel (Suc (ps_level s))) =
      ((raised env k s)\<lparr>ps_health := h, ps_mana := m\<rparr>, getExpForLevel (ps_level s + k), getExpForLevel (Suc (ps_level s + k)))
    \<and> level_fits (ps_level s + k) (ps_experience s) \<and> (k = 0 \<longrightarrow> h = ps_health s \<and> m = ps_mana s)"
  using assms
proof (induction "MAX_LEVEL - ps_level s" arbitrary: s rule: less_induct)
  case less
  let ?l = "ps_level s"
  have next': "getExpForLevel (Suc ?l) \<le> ps_experience s \<longleftrightarrow> exp_at (Suc ?l) \<le> uint (ps_experience s)"
    by (rule exp_word_le(1)) (use less.prems in simp_all)
  show ?case
  proof (cases "getExpForLevel (Suc ?l) \<le> ps_experience s")
    case False
    then have "level_fits ?l (ps_experience s)" using less.prems next' by (simp add: level_fits_def)
    moreover have "gain_levels env s (getExpForLevel ?l) (getExpForLevel (Suc ?l)) = (s, getExpForLevel ?l, getExpForLevel (Suc ?l))"
      using False by (subst gain_levels.simps) simp
    ultimately show ?thesis by (intro exI [of _ 0] exI [of _ "ps_health s"] exI [of _ "ps_mana s"]) simp
  next
    case True
    let ?s = "gain_level env s"
    have l: "ps_level ?s = Suc ?l" "ps_experience ?s = ps_experience s" by (simp_all add: gain_level_raised)
    have step: "gain_levels env s (getExpForLevel ?l) (getExpForLevel (Suc ?l)) =
        (if getExpForLevel (Suc (Suc ?l)) \<le> getExpForLevel (Suc ?l)
         then (?s, getExpForLevel (Suc ?l), getExpForLevel (Suc (Suc ?l)))
         else gain_levels env ?s (getExpForLevel (Suc ?l)) (getExpForLevel (Suc (Suc ?l))))"
      using True by (subst gain_levels.simps) (simp add: l Let_def)
    show ?thesis
    proof (cases "Suc ?l = MAX_LEVEL")
      case end': True
      then have "level_fits (?l + 1) (ps_experience s)" using True next' by (simp add: level_fits_def)
      moreover have "getExpForLevel (Suc (Suc ?l)) \<le> getExpForLevel (Suc ?l)" using table_end [of "Suc ?l"] end' by simp
      ultimately show ?thesis
        unfolding step
        by - (rule exI [of _ "Suc 0"], rule exI [of _ "ps_health s + uint (vg_hp (ae_gains env))"],
          rule exI [of _ "ps_mana s + vg_mana (ae_gains env)"], simp add: gain_level_raised)
    next
      case False
      then have "\<not> getExpForLevel (Suc (Suc ?l)) \<le> getExpForLevel (Suc ?l)" using table_end [of "Suc ?l"] less.prems by simp
      moreover obtain k h m where k: "gain_levels env ?s (getExpForLevel (Suc ?l)) (getExpForLevel (Suc (Suc ?l))) =
          ((raised env k ?s)\<lparr>ps_health := h, ps_mana := m\<rparr>, getExpForLevel (Suc ?l + k), getExpForLevel (Suc (Suc ?l + k)))"
        "level_fits (Suc ?l + k) (ps_experience s)"
        using less.hyps [of ?s] less.prems False True next' unfolding l
        by (metis Suc_lessI diff_less_mono2 le_SucI lessI)
      moreover have "(raised env k ?s)\<lparr>ps_health := h, ps_mana := m\<rparr> = (raised env (Suc k) s)\<lparr>ps_health := h, ps_mana := m\<rparr>"
        unfolding gain_level_raised raised_add by simp
      ultimately show ?thesis unfolding step by - (rule exI [of _ "Suc k"], intro exI [of _ h] exI [of _ m], auto)
    qed
  qed
qed


text \<open>
  Gaining experience in one equation: the new level is the one of the new experience, the maxima
  grow by the levels gained, and health and mana are filled up when there are any.
\<close>

definition percent_at :: "player_stats \<Rightarrow> byte" where
  "percent_at s = percent_of (ps_experience s) (getExpForLevel (ps_level s)) (getExpForLevel (Suc (ps_level s)))"

definition settled :: "advance_env \<Rightarrow> nat \<Rightarrow> player_stats \<Rightarrow> player_stats" where
  "settled env k s =
     (let s = (if k = 0 then s else refill env (raised env k s)) in s\<lparr>ps_levelPercent := percent_at s\<rparr>)"

lemma getMax_raised [simp]:
  "getMaxHealth env (s\<lparr>ps_health := h, ps_mana := m\<rparr>) = getMaxHealth env s"
  "getMaxMana env (s\<lparr>ps_health := h, ps_mana := m\<rparr>) = getMaxMana env s"
  by (simp_all add: getMaxHealth_def getMaxMana_def)

lemma level_fits_room:
  assumes "level_fits lv e" and "lv < MAX_LEVEL"
  shows "1 \<le> lv" and "exp_at lv \<le> uint e" and "\<not> getExpForLevel (Suc lv) \<le> getExpForLevel lv"
  using assms table_end [of lv] by (simp_all add: level_fits_def)

lemma uint_plus_no_wrap: "uint a + uint b < 2 ^ 64 \<Longrightarrow> uint (a + b :: u64) = uint a + uint b"
  by (simp add: uint_plus_if_size word_size)

lemma addExperience_near:
  assumes room: "1 \<le> ps_level s" "ps_level s < MAX_LEVEL" "exp_at (ps_level s) \<le> uint (ps_experience s)"
    and x: "x = ae_gain env raw" "x \<noteq> 0" and fits: "uint (ps_experience s) + uint x < 2 ^ 64"
  shows "\<exists>k. level_fits (ps_level s + k) (ps_experience s + x)
    \<and> fst (addExperience env raw s) = settled env k (s\<lparr>ps_experience := ps_experience s + x\<rparr>)"
proof -
  let ?s = "s\<lparr>ps_experience := ps_experience s + x\<rparr>"
  have r: "\<not> getExpForLevel (Suc (ps_level s)) \<le> getExpForLevel (ps_level s)" using table_end [of "ps_level s"] room by simp
  have "exp_at (ps_level s) \<le> uint (ps_experience s + x)"
    using room(3) uint_ge_0 [of x] uint_plus_no_wrap [OF fits] by linarith
  then have e: "exp_at (ps_level ?s) \<le> uint (ps_experience ?s)" by simp
  obtain k h m where k: "gain_levels env ?s (getExpForLevel (ps_level s)) (getExpForLevel (Suc (ps_level s))) =
      ((raised env k ?s)\<lparr>ps_health := h, ps_mana := m\<rparr>, getExpForLevel (ps_level s + k), getExpForLevel (Suc (ps_level s + k)))"
    "level_fits (ps_level s + k) (ps_experience s + x)" "k = 0 \<longrightarrow> h = ps_health s \<and> m = ps_mana s"
    using gain_levels_spec [of ?s env] room(1,2) e by auto
  have "fst (addExperience env raw s) = settled env k ?s"
    using r x k(1,3)
    by (cases "k = 0") (simp_all add: addExperience_def settled_def percent_at_def refill_def Let_def)
  then show ?thesis using k(2) by blast
qed

lemma addExperience_spec:
  assumes ok: "level_ok s" and room: "ps_level s < MAX_LEVEL" and x: "x = ae_gain env raw" "x \<noteq> 0"
    and fits: "uint (ps_experience s) + uint x < 2 ^ 64"
  shows "\<exists>k. level_fits (ps_level s + k) (ps_experience s + x)
    \<and> fst (addExperience env raw s) = settled env k (s\<lparr>ps_experience := ps_experience s + x\<rparr>)"
  using level_fits_room(1,2) [OF ok [unfolded level_ok_def] room] room x fits by (intro addExperience_near) auto

subsection \<open>Losing levels\<close>

text \<open>As long as the maxima stay small enough for the casts, a loss undoes the gain.\<close>

definition small_maxima :: "advance_env \<Rightarrow> nat \<Rightarrow> player_stats \<Rightarrow> bool" where
  "small_maxima env k s \<longleftrightarrow> 0 \<le> ps_healthMax s \<and> ps_healthMax s + int k * uint (vg_hp (ae_gains env)) < 2 ^ 31
     \<and> uint (ps_manaMax s) + int k * uint (vg_mana (ae_gains env)) < 2 ^ 31
     \<and> uint (ps_capacity s) + int k * uint (vg_cap (ae_gains env)) < 2 ^ 31"

lemma small_maxima_Suc: "small_maxima env (Suc k) s \<Longrightarrow> small_maxima env k s"
proof -
  have "int k * uint w \<le> int (Suc k) * uint w" for w :: u32 by (simp add: algebra_simps)
  from this [of "vg_hp (ae_gains env)"] this [of "vg_mana (ae_gains env)"] this [of "vg_cap (ae_gains env)"]
  show "small_maxima env (Suc k) s \<Longrightarrow> small_maxima env k s" unfolding small_maxima_def by linarith
qed

lemma int32_small: "0 \<le> v \<Longrightarrow> v < 2 ^ 31 \<Longrightarrow> int32 v = v"
  by (simp add: int32_def signed_of_int signed_take_bit_int_eq_self)

lemma uint_raised_word:
  assumes "uint w + int k * uint g < 2 ^ 31"
  shows "uint (w + of_nat k * g :: u32) = uint w + int k * uint g"
proof -
  have "w + of_nat k * g = word_of_int (uint w + int k * uint g)" by simp
  moreover have "0 \<le> uint w + int k * uint g" by simp
  ultimately show ?thesis using assms by (simp add: unsigned_of_int take_bit_int_eq_self del: of_int_add)
qed

lemma word_lose:
  assumes "uint w + int (Suc k) * uint g < 2 ^ 31"
  shows "word_of_int (max 0 (sint (w + of_nat (Suc k) * g - g))) = (w + of_nat k * g :: u32)"
proof -
  have e: "w + of_nat (Suc k) * g - g = w + of_nat k * g" by (simp add: algebra_simps)
  moreover have b: "uint w + int k * uint g < 2 ^ 31" using assms by (simp add: algebra_simps) (use uint_ge_0 [of g] in linarith)
  moreover have "sint (w + of_nat k * g) = uint (w + of_nat k * g)"
    using b by (intro sint_small) (simp only: uint_raised_word [OF b])
  ultimately show ?thesis unfolding e by simp
qed

lemma lose_level_raised:
  assumes "small_maxima env (Suc k) s"
  shows "lose_level env (raised env (Suc k) s) = raised env k s"
proof -
  let ?g = "ae_gains env"
  have h: "max 0 (int32 (ps_healthMax s + int (Suc k) * uint (vg_hp ?g) - uint (vg_hp ?g))) = ps_healthMax s + int k * uint (vg_hp ?g)"
  proof -
    have "ps_healthMax s + int (Suc k) * uint (vg_hp ?g) - uint (vg_hp ?g) = ps_healthMax s + int k * uint (vg_hp ?g)"
      by (simp add: algebra_simps)
    moreover have "0 \<le> ps_healthMax s + int k * uint (vg_hp ?g)" "ps_healthMax s + int k * uint (vg_hp ?g) < 2 ^ 31"
      using small_maxima_Suc [OF assms] by (simp_all add: small_maxima_def)
    ultimately show ?thesis using int32_small by simp
  qed
  have m: "uint (ps_manaMax s) + int (Suc k) * uint (vg_mana ?g) < 2 ^ 31" "uint (ps_capacity s) + int (Suc k) * uint (vg_cap ?g) < 2 ^ 31"
    using assms by (simp_all only: small_maxima_def)
  show ?thesis
    using h word_lose [OF m(1)] word_lose [OF m(2)] by (simp only: lose_level_def raised_def Let_def) simp
qed

lemma lose_levels_raised:
  assumes "level_fits (ps_level s) (ps_experience s)" and "small_maxima env k s" and "ps_level s + k \<le> MAX_LEVEL"
  shows "lose_levels env (raised env k s) = s"
  using assms
proof (induction k)
  case 0
  have "\<not> ps_experience s < getExpForLevel (ps_level s)"
    using 0 exp_word_le(2) [of "ps_level s" "ps_experience s"] by (simp add: level_fits_def)
  then show ?case by (subst lose_levels.simps) simp
next
  case (Suc k)
  have l: "1 \<le> ps_level s" "ps_level s < MAX_LEVEL" using Suc.prems by (simp_all add: level_fits_def)
  then have "uint (ps_experience s) < exp_at (Suc (ps_level s))" using Suc.prems(1) by (simp add: level_fits_def)
  also have "exp_at (Suc (ps_level s)) \<le> exp_at (ps_level s + Suc k)" by (simp add: exp_at_mono)
  finally have "ps_experience s < getExpForLevel (ps_level s + Suc k)"
    using exp_word_le(2) [of "ps_level s + Suc k"] Suc.prems(3) by simp
  then have "lose_levels env (raised env (Suc k) s) = lose_levels env (lose_level env (raised env (Suc k) s))"
    using l(1) by (subst lose_levels.simps) simp
  also have "\<dots> = lose_levels env (raised env k s)" by (simp only: lose_level_raised [OF Suc.prems(2)])
  also have "\<dots> = s" using Suc.IH Suc.prems small_maxima_Suc by simp
  finally show ?case .
qed


subsection \<open>The invariant\<close>

lemma settled_simps [simp]:
  "ps_level (settled env k s) = ps_level s + k" "ps_experience (settled env k s) = ps_experience s"
  by (simp_all add: settled_def refill_def Let_def)

lemma lose_levels_experience [simp]: "ps_experience (lose_levels env s) = ps_experience s"
  by (induction env s rule: lose_levels.induct) (subst lose_levels.simps, simp add: lose_level_def Let_def)

text \<open>Losing levels stops at the level of the experience, from any level above it.\<close>

lemma lose_levels_fits:
  assumes "1 \<le> ps_level s" and "ps_level s \<le> MAX_LEVEL"
    and "ps_level s < MAX_LEVEL \<Longrightarrow> uint (ps_experience s) < exp_at (Suc (ps_level s))"
  shows "level_fits (ps_level (lose_levels env s)) (ps_experience s)"
  using assms
proof (induction env s rule: lose_levels.induct)
  case (1 env s)
  have lv: "ps_experience s < getExpForLevel (ps_level s) \<longleftrightarrow> uint (ps_experience s) < exp_at (ps_level s)"
    by (rule exp_word_le(2) [OF 1(2,3)])
  show ?case
  proof (cases "ps_level s > 1 \<and> ps_experience s < getExpForLevel (ps_level s)")
    case True
    have l: "ps_level (lose_level env s) = ps_level s - 1" "ps_experience (lose_level env s) = ps_experience s"
      by (simp_all add: lose_level_def Let_def)
    have "level_fits (ps_level (lose_levels env (lose_level env s))) (ps_experience (lose_level env s))"
      using True 1(2,3) lv by (intro 1(1) [OF True]) (auto simp: l)
    then show ?thesis using True by (subst lose_levels.simps) (simp add: l)
  next
    case False
    have "exp_at (ps_level s) \<le> uint (ps_experience s)"
    proof (cases "ps_level s = 1")
      case True
      then show ?thesis by (simp add: exp_at_1)
    next
      case n: False
      then show ?thesis using False lv 1(2) by auto
    qed
    then have "level_fits (ps_level s) (ps_experience s)" using 1(2,3,4) by (simp add: level_fits_def)
    then show ?thesis by (subst lose_levels.simps, subst if_not_P [OF False])
  qed
qed

lemma level_ok_refill [simp]: "level_ok (refill env s) = level_ok s" "level_ok (s\<lparr>ps_levelPercent := x\<rparr>) = level_ok s"
  by (simp_all add: level_ok_def refill_def)

lemma lose_levels_ok:
  assumes "level_ok s" and "uint e \<le> uint (ps_experience s)"
  shows "level_ok (lose_levels env (s\<lparr>ps_experience := e\<rparr>))"
proof -
  have "level_fits (ps_level (lose_levels env (s\<lparr>ps_experience := e\<rparr>))) (ps_experience (s\<lparr>ps_experience := e\<rparr>))"
    using assms by (intro lose_levels_fits) (auto simp: level_ok_def level_fits_def)
  then show ?thesis by (simp add: level_ok_def)
qed

lemma subtract_exp_value:
  assumes "uint e < 2 ^ 63" and "uint x < 2 ^ 63"
  shows "uint (subtract_exp e x) = (if uint x \<le> uint e then uint e - uint x else 0)"
proof -
  have s: "sint (e - x) = uint e - uint x"
  proof -
    have "e - x = word_of_int (uint e - uint x)" by simp
    moreover have "sint (word_of_int (uint e - uint x) :: u64) = uint e - uint x"
    proof -
      have "- (2 ^ 63) \<le> uint e - uint x" "uint e - uint x < 2 ^ 63" using assms uint_ge_0 [of e] uint_ge_0 [of x] by linarith+
      then have "signed_take_bit 63 (uint e - uint x) = uint e - uint x" by (rule signed_take_bit_int_eq_self)
      then show ?thesis by (simp add: signed_of_int del: of_int_diff)
    qed
    ultimately show ?thesis by (simp only:)
  qed
  have "(2 :: int) ^ 63 < 2 ^ 64" "(0 :: int) < 2 ^ 64" by simp_all
  then have "max 0 (uint e - uint x) < 2 ^ 64" using assms(1) uint_ge_0 [of x] by linarith
  then have "uint (subtract_exp e x) = max 0 (uint e - uint x)"
    by (simp add: subtract_exp_def s unsigned_of_int take_bit_int_eq_self)
  then show ?thesis by simp
qed

section \<open>Properties of levels\<close>

text \<open>The life of a player's level: it is loaded, experience is gained and lost, and everything else leaves
  level and experience alone. A gain must not exceed the 64 bits of the sum, a death takes no more than there
  is, and a loss may exceed the experience by up to 2 to the 63. The flag tells whether loading left the level
  behind.\<close>

inductive level_step :: "player_stats \<Rightarrow> player_stats \<Rightarrow> bool" where
  gains: "uint (ps_experience s) + uint (ae_gain env x) < 2 ^ 64 \<Longrightarrow> level_step s (fst (addExperience env x s))"
| loses: "uint (ae_lose env x) \<le> uint (ps_experience s) + 2 ^ 63 \<Longrightarrow> level_step s (fst (removeExperience env x s))"
| dies: "uint (ae_lose env x) \<le> uint (ps_experience s) \<Longrightarrow> level_step s (fst (death_level_loss env none x s))"
| other: "ps_level s' = ps_level s \<Longrightarrow> ps_experience s' = ps_experience s \<Longrightarrow> level_step s s'"

inductive level_run :: "bool \<Rightarrow> player_stats \<Rightarrow> bool" where
  load: "lv \<le> MAX_LEVEL
    \<Longrightarrow> level_run (max 1 lv < MAX_LEVEL \<and> e = getExpForLevel (Suc (max 1 lv))) (load_level lv e s)"
| step: "level_run behind s \<Longrightarrow> level_step s s' \<Longrightarrow> level_run (behind \<and> ps_experience s' = ps_experience s) s'"

definition level_near :: "player_stats \<Rightarrow> bool" where
  "level_near s \<longleftrightarrow> 1 \<le> ps_level s \<and> ps_level s \<le> MAX_LEVEL \<and> exp_at (ps_level s) \<le> uint (ps_experience s)
     \<and> (ps_level s < MAX_LEVEL \<longrightarrow> uint (ps_experience s) \<le> exp_at (Suc (ps_level s)))"

definition level_behind :: "player_stats \<Rightarrow> bool" where
  "level_behind s \<longleftrightarrow> 1 \<le> ps_level s \<and> ps_level s < MAX_LEVEL \<and> uint (ps_experience s) = exp_at (Suc (ps_level s))"

lemma level_near_intros: "level_ok s \<Longrightarrow> level_near s" "level_behind s \<Longrightarrow> level_near s"
  using exp_at_less_Suc [of "ps_level s"] by (auto simp: level_near_def level_ok_def level_fits_def level_behind_def)

lemma uint_positive: "(x :: u64) \<noteq> 0 \<Longrightarrow> 0 < uint x"
  using uint_ge_0 [of x] by (simp add: order_less_le unsigned_eq_0_iff)

lemma subtract_exp_less:
  assumes "x \<noteq> 0" "e \<noteq> 0" "uint x \<le> uint e + 2 ^ 63"
  shows "uint (subtract_exp e x) < uint e"
proof -
  note e = uint_positive [OF assms(2)] and x = uint_positive [OF assms(1)]
  have w: "uint (subtract_exp e x) = max 0 (sint (e - x))"
  proof -
    have "max 0 (sint (e - x)) < 2 ^ 64" using sint_lt [of "e - x"] by simp
    then show ?thesis by (simp add: subtract_exp_def unsigned_of_int take_bit_int_eq_self)
  qed
  show ?thesis
  proof (cases "uint x \<le> uint e")
    case True
    have "uint (e - x) = uint e - uint x" using True by (simp add: uint_sub_if_size)
    moreover have "sint (e - x) \<le> uint (e - x)"
    proof -
      have "take_bit 64 (uint (e - x)) = uint (e - x)" using uint_bounded [of "e - x"] by (intro take_bit_int_eq_self) simp_all
      then show ?thesis by (simp only: sint_uint) (simp add: signed_take_bit_eq_take_bit_minus)
    qed
    ultimately have "sint (e - x) < uint e" using x by linarith
    then show ?thesis unfolding w using e by simp
  next
    case False
    have "e - x = word_of_int (uint e - uint x)" by simp
    moreover have "signed_take_bit 63 (uint e - uint x) = uint e - uint x"
      using False assms(3) by (intro signed_take_bit_int_eq_self) simp_all
    ultimately have "sint (e - x) = uint e - uint x" by (simp add: signed_of_int del: of_int_diff)
    then show ?thesis unfolding w using False e by simp
  qed
qed

lemma lose_levels_near:
  assumes "level_near s"
  shows "uint e < uint (ps_experience s) \<Longrightarrow> level_ok (lose_levels env (s\<lparr>ps_experience := e\<rparr>))"
    and "lose_levels env s = s"
proof -
  show "level_ok (lose_levels env (s\<lparr>ps_experience := e\<rparr>))" if "uint e < uint (ps_experience s)"
  proof -
    have "level_fits (ps_level (lose_levels env (s\<lparr>ps_experience := e\<rparr>))) (ps_experience (s\<lparr>ps_experience := e\<rparr>))"
      using assms that by (intro lose_levels_fits) (auto simp: level_near_def)
    then show ?thesis by (simp add: level_ok_def)
  qed
  have "\<not> ps_experience s < getExpForLevel (ps_level s)"
    using assms exp_word_le(2) [of "ps_level s" "ps_experience s"] by (simp add: level_near_def)
  then show "lose_levels env s = s" by (subst lose_levels.simps) simp
qed

lemma level_step_keeps:
  assumes "level_step s s'" and "level_near s"
  shows "(ps_experience s' \<noteq> ps_experience s \<longrightarrow> level_ok s') \<and> (ps_experience s' = ps_experience s \<longrightarrow> ps_level s' = ps_level s)"
  using assms(1)
proof cases
  case (gains env x)
  show ?thesis
  proof (cases "ps_level s < MAX_LEVEL \<and> ae_gain env x \<noteq> 0")
    case True
    then obtain k where "level_fits (ps_level s + k) (ps_experience s + ae_gain env x)"
      "fst (addExperience env x s) = settled env k (s\<lparr>ps_experience := ps_experience s + ae_gain env x\<rparr>)"
      using addExperience_near [of s "ae_gain env x" env x] assms(2) gains(2) by (auto simp: level_near_def)
    then show ?thesis using True by (simp add: gains(1) level_ok_def)
  next
    case False
    then have "ae_gain env x = 0 \<or> getExpForLevel (Suc (ps_level s)) \<le> getExpForLevel (ps_level s)"
      using table_end [of "ps_level s"] assms(2) by (auto simp: level_near_def)
    then show ?thesis by (auto simp: gains(1) addExperience_def Let_def)
  qed
next
  case (loses env x)
  show ?thesis
  proof (cases "ps_experience s = 0 \<or> x = 0 \<or> ae_lose env x = 0")
    case True
    then show ?thesis by (auto simp: loses(1) removeExperience_def Let_def)
  next
    case False
    have l: "uint (subtract_exp (ps_experience s) (ae_lose env x)) < uint (ps_experience s)"
      using subtract_exp_less False loses(2) by blast
    have "level_ok s' \<and> ps_experience s' = subtract_exp (ps_experience s) (ae_lose env x)"
      using lose_levels_near(1) [OF assms(2) l, of env] False by (simp add: loses(1) removeExperience_def Let_def refill_def level_ok_def)
    then show ?thesis using l by auto
  qed
next
  case (dies env x none)
  show ?thesis
  proof (cases "ae_lose env x \<noteq> 0 \<and> (none \<or> ps_level s > 7)")
    case True
    have "0 < uint (ae_lose env x)" using True uint_positive by blast
    then have l: "uint (ps_experience s - ae_lose env x) < uint (ps_experience s)"
      using dies(2) by (simp add: uint_sub_if_size)
    have "level_ok s' \<and> ps_experience s' = ps_experience s - ae_lose env x"
      using lose_levels_near(1) [OF assms(2) l, of env] True by (simp add: dies(1) death_level_loss_def Let_def level_ok_def)
    then show ?thesis using l by auto
  next
    case False
    then show ?thesis using lose_levels_near(2) [OF assms(2)] by (auto simp: dies(1) death_level_loss_def Let_def)
  qed
qed auto

lemma load_level_cases:
  assumes "lv \<le> MAX_LEVEL"
  shows "if max 1 lv < MAX_LEVEL \<and> e = getExpForLevel (Suc (max 1 lv)) then level_behind (load_level lv e s) else level_ok (load_level lv e s)"
proof -
  define l where "l = max 1 lv"
  have l: "1 \<le> l" "l \<le> MAX_LEVEL" using assms by (simp_all add: l_def MAX_LEVEL_def)
  have lv: "uint (getExpForLevel l) = exp_at l" using exp_value [OF l] .
  have load: "ps_level (load_level lv e s) = l" "ps_experience (load_level lv e s)
      = (if e < getExpForLevel l \<or> e > getExpForLevel (Suc l) then getExpForLevel l else e)"
    by (simp_all add: load_level_def l_def Let_def)
  show ?thesis
  proof (cases "l < MAX_LEVEL")
    case True
    have n: "uint (getExpForLevel (Suc l)) = exp_at (Suc l)" using exp_value [of "Suc l"] True by simp
    have "e = getExpForLevel (Suc l) \<longleftrightarrow> uint e = exp_at (Suc l)" unfolding n [symmetric] by (simp add: word_uint_eq_iff)
    then show ?thesis
      using l True exp_at_less_Suc [of l] unfolding l_def [symmetric] level_ok_def level_fits_def level_behind_def load
      by (auto simp: word_less_def lv n)
  next
    case False
    then have "l = MAX_LEVEL" using l by simp
    then have "getExpForLevel (Suc l) \<le> getExpForLevel l" using table_end [OF l] by simp
    then show ?thesis
      using False l lv unfolding l_def [symmetric] level_ok_def level_fits_def load
      by (auto simp: word_less_def word_le_def)
  qed
qed

text \<open>
  C36. The level of a player is the one of its experience and stays so through gains, losses, deaths and
  everything else, with one exception: where loading finds exactly the experience of the next level, the
  level stays one behind as long as the experience does not change. The bounds on a single gain or
  loss are those of \<open>level_step\<close>.
\<close>

theorem level_matches_experience:
  assumes "level_run behind s"
  shows "if behind then ps_level s < MAX_LEVEL \<and> uint (ps_experience s) = exp_at (Suc (ps_level s))
      \<and> level_fits (Suc (ps_level s)) (ps_experience s)
    else level_fits (ps_level s) (ps_experience s)"
proof -
  have "if behind then level_behind s else level_ok s"
    using assms
  proof (induction rule: level_run.induct)
    case (load lv e s)
    then show ?case by (rule load_level_cases)
  next
    case (step behind s s')
    then have "level_near s" using level_near_intros [of s] by (auto split: if_splits)
    from level_step_keeps [OF step.hyps(2) this] step.IH show ?case
      by (auto simp: level_behind_def level_ok_def split: if_splits)
  qed
  then show ?thesis
    using exp_at_less_Suc [of "Suc (ps_level s)"] by (auto simp: level_behind_def level_ok_def level_fits_def split: if_splits)
qed

lemma plus_nonzero:
  assumes "uint (a + b :: u64) = uint a + uint b" and "b \<noteq> 0"
  shows "a + b \<noteq> 0"
proof
  assume "a + b = 0"
  then have "uint a + uint b = 0" using assms(1) by simp
  then have "uint b = 0" using uint_ge_0 [of a] uint_ge_0 [of b] by linarith
  then show False using assms(2) by (simp add: unsigned_eq_0_iff)
qed

lemma settled_settled:
  "settled env j ((settled env k s)\<lparr>ps_experience := e\<rparr>) = settled env (k + j) (s\<lparr>ps_experience := e\<rparr>)"
  by (cases "j = 0"; cases "k = 0")
    (simp_all add: settled_def refill_def raised_def percent_at_def getMaxHealth_def getMaxMana_def Let_def algebra_simps)

text \<open>
  Experience gained in two parts makes the same player as experience gained at once: level,
  maxima, capacity, health, mana and percentage, below the last level of the table.
\<close>

theorem addExperience_additive:
  assumes "level_ok s" and "ae_gain env a \<noteq> 0" and "ae_gain env b \<noteq> 0" and "ae_gain env c = ae_gain env a + ae_gain env b"
    and "uint (ps_experience s) + uint (ae_gain env a) + uint (ae_gain env b) < exp_at MAX_LEVEL"
  shows "fst (addExperience env b (fst (addExperience env a s))) = fst (addExperience env c s)"
proof -
  let ?e = "ps_experience s" and ?a = "ae_gain env a" and ?b = "ae_gain env b"
  have last: "exp_at MAX_LEVEL < 2 ^ 64" by (simp add: exp_at_last)
  have ea: "uint (?e + ?a) = uint ?e + uint ?a"
    using assms(5) last uint_ge_0 [of ?b] by (intro uint_plus_no_wrap) linarith
  have eab: "uint (?e + ?a + ?b) = uint ?e + uint ?a + uint ?b"
    using assms(5) last ea uint_plus_no_wrap [of "?e + ?a" ?b] by linarith
  have ab: "uint (?a + ?b) = uint ?a + uint ?b"
    using assms(5) last uint_ge_0 [of ?e] by (intro uint_plus_no_wrap) linarith
  have below: "lv < MAX_LEVEL" if "level_fits lv x" "uint x < exp_at MAX_LEVEL" for lv x
  proof -
    have "exp_at lv < exp_at MAX_LEVEL" using that by (simp add: level_fits_def)
    then show ?thesis by (simp add: exp_at_mono)
  qed
  have "uint ?e < exp_at MAX_LEVEL" using assms(5) uint_ge_0 [of ?a] uint_ge_0 [of ?b] by linarith
  then have l: "ps_level s < MAX_LEVEL" using below [of "ps_level s" ?e] assms(1) by (simp add: level_ok_def)
  have fits: "uint ?e + uint ?a < 2 ^ 64" "uint (?e + ?a) + uint ?b < 2 ^ 64" "uint ?e + uint (?a + ?b) < 2 ^ 64"
    using assms(5) last ea ab uint_ge_0 [of ?b] by linarith+
  obtain k where k: "level_fits (ps_level s + k) (?e + ?a)" "fst (addExperience env a s) = settled env k (s\<lparr>ps_experience := ?e + ?a\<rparr>)"
    using addExperience_spec [OF assms(1) l refl assms(2) fits(1)] by blast
  let ?s = "fst (addExperience env a s)"
  have s1: "level_ok ?s" "ps_experience ?s = ?e + ?a" "ps_level ?s = ps_level s + k" using k by (simp_all add: level_ok_def)
  have "uint (?e + ?a) < exp_at MAX_LEVEL" using assms(5) ea uint_ge_0 [of ?b] by linarith
  then have l1: "ps_level ?s < MAX_LEVEL" using below [OF k(1)] s1(3) by simp
  obtain j where j: "level_fits (ps_level s + k + j) (?e + ?a + ?b)"
    "fst (addExperience env b ?s) = settled env j (?s\<lparr>ps_experience := ?e + ?a + ?b\<rparr>)"
    using addExperience_spec [OF s1(1) l1 refl assms(3)] fits(2) unfolding s1(2,3) by blast
  have nz: "ae_gain env c \<noteq> 0"
    unfolding assms(4) by (rule plus_nonzero [OF ab assms(3)])
  obtain i where i: "level_fits (ps_level s + i) (?e + (?a + ?b))"
    "fst (addExperience env c s) = settled env i (s\<lparr>ps_experience := ?e + (?a + ?b)\<rparr>)"
    using addExperience_spec [OF assms(1) l refl nz, unfolded assms(4), OF fits(3)] by blast
  have "level_fits (ps_level s + (k + j)) (?e + (?a + ?b))" using j(1) by (simp only: add.assoc)
  from level_fits_unique [OF i(1) this] have "i = k + j" by simp
  then show ?thesis unfolding j(2) unfolding k(2) settled_settled i(2) by (simp add: add.assoc)
qed

text \<open>
  Losing the experience just gained restores the level, the experience, the maxima and the
  capacity, as long as the maxima stay below 2^31 and the experience below 2^63.
\<close>

theorem removeExperience_undoes:
  assumes "level_ok s" and "ps_level s < MAX_LEVEL" and "ae_gain env a \<noteq> 0" and "b \<noteq> 0" and "ae_lose env b = ae_gain env a"
    and "uint (ps_experience s) + uint (ae_gain env a) < 2 ^ 63"
    and "small_maxima env (ps_level (fst (addExperience env a s)) - ps_level s) s"
  shows "\<exists>h m p. fst (removeExperience env b (fst (addExperience env a s))) = s\<lparr>ps_health := h, ps_mana := m, ps_levelPercent := p\<rparr>"
proof -
  let ?e = "ps_experience s" and ?a = "ae_gain env a"
  let ?s = "fst (addExperience env a s)"
  have "(2 :: int) ^ 63 < 2 ^ 64" by simp
  then have fits: "uint ?e + uint ?a < 2 ^ 64" using assms(6) by linarith
  have ea: "uint (?e + ?a) = uint ?e + uint ?a" by (rule uint_plus_no_wrap [OF fits])
  obtain k where k: "level_fits (ps_level s + k) (?e + ?a)" "?s = settled env k (s\<lparr>ps_experience := ?e + ?a\<rparr>)"
    using addExperience_spec [OF assms(1,2) refl assms(3) fits] by blast
  have small: "small_maxima env k s" using assms(7) k(2) by simp
  have "uint (subtract_exp (?e + ?a) ?a) = uint ?e"
    using subtract_exp_value [of "?e + ?a" ?a] ea assms(6) uint_ge_0 [of ?e] by (simp del: uint_ge_0)
  then have undo: "subtract_exp (?e + ?a) ?a = ?e" by (rule word_uint_eqI)
  have nz: "?e + ?a \<noteq> 0" by (rule plus_nonzero [OF ea assms(3)])
  obtain h m p where shape: "?s\<lparr>ps_experience := ?e\<rparr> = raised env k (s\<lparr>ps_health := h, ps_mana := m, ps_levelPercent := p\<rparr>)"
  proof (cases "k = 0")
    case True
    then have "?s\<lparr>ps_experience := ?e\<rparr> = raised env k (s\<lparr>ps_health := ps_health s, ps_mana := ps_mana s, ps_levelPercent := ps_levelPercent ?s\<rparr>)"
      by (simp add: k(2) settled_def Let_def)
    then show thesis by (rule that)
  next
    case False
    then have "?s\<lparr>ps_experience := ?e\<rparr> = raised env k (s\<lparr>ps_health := ps_health ?s, ps_mana := ps_mana ?s, ps_levelPercent := ps_levelPercent ?s\<rparr>)"
      by (simp add: k(2) settled_def refill_def raised_def Let_def)
    then show thesis by (rule that)
  qed
  let ?t = "s\<lparr>ps_health := h, ps_mana := m, ps_levelPercent := p\<rparr>"
  have "lose_levels env (raised env k ?t) = ?t"
    using assms(1) small k(1) by (intro lose_levels_raised) (simp_all add: level_ok_def small_maxima_def level_fits_def)
  then have l: "lose_levels env (?s\<lparr>ps_experience := ?e\<rparr>) = ?t" by (simp only: shape)
  have e: "ps_experience ?s = ?e + ?a" by (simp add: k(2))
  have "fst (removeExperience env b ?s) = (let t = (if ps_level ?s \<noteq> ps_level ?t then refill env ?t else ?t) in t\<lparr>ps_levelPercent := percent_at t\<rparr>)"
    using assms(3-5) nz by (simp add: removeExperience_def e undo l Let_def percent_at_def)
  then show ?thesis by (auto simp: refill_def Let_def)
qed


subsection \<open>An example\<close>

text \<open>A player of level 8 in an environment that changes no amount.\<close>

definition plain_env :: advance_env where
  "plain_env = \<lparr>ae_gains = \<lparr>vg_hp = 5, vg_mana = 5, vg_cap = 1000\<rparr>, ae_gain = (\<lambda>x. x), ae_lose = (\<lambda>x. x),
     ae_var_hp = 0, ae_var_mana = 0, ae_protection = 10, ae_party = False\<rparr>"

definition level8 :: player_stats where
  "level8 = \<lparr>ps_level = 8, ps_experience = 4200, ps_health = 100, ps_healthMax = 185, ps_mana = 20, ps_manaMax = 90,
     ps_capacity = 47000, ps_levelPercent = 0\<rparr>"

lemma level8_ok: "level_ok level8"
  by (simp add: level8_def level_ok_def level_fits_def exp_at_def cubic_def MAX_LEVEL_def)

theorem level_matches_experience_witness:
  "level_fits (ps_level (fst (addExperience plain_env 5000 (load_level 8 4200 level8))))
      (ps_experience (fst (addExperience plain_env 5000 (load_level 8 4200 level8))))
   \<and> level_fits (Suc (ps_level (load_level 8 6400 level8))) (ps_experience (load_level 8 6400 level8))"
proof -
  have m: "(8 :: nat) \<le> MAX_LEVEL" by (simp add: MAX_LEVEL_def)
  have "level_run False (load_level 8 4200 level8)"
    using level_run.load [OF m, of 4200 level8] by (simp add: MAX_LEVEL_def getExpForLevel_def)
  from level_run.step [OF this level_step.gains [of _ plain_env 5000]]
  have 1: "level_run False (fst (addExperience plain_env 5000 (load_level 8 4200 level8)))"
    by (simp add: plain_env_def load_level_def Let_def getExpForLevel_def)
  have 2: "level_run True (load_level 8 6400 level8)"
    using level_run.load [OF m, of 6400 level8] by (simp add: MAX_LEVEL_def getExpForLevel_def)
  show ?thesis using level_matches_experience [OF 1] level_matches_experience [OF 2] by simp
qed

theorem addExperience_additive_witness:
  "fst (addExperience plain_env 3000 (fst (addExperience plain_env 2500 level8))) = fst (addExperience plain_env 5500 level8)"
  by (rule addExperience_additive [OF level8_ok]) (simp_all add: level8_def plain_env_def exp_at_last)

lemma level8_gain: "ps_level (fst (addExperience plain_env 5000 level8)) = 9"
  by (simp add: addExperience_def level8_def plain_env_def getExpForLevel_def gain_levels.simps gain_level_def refill_def Let_def)

theorem removeExperience_undoes_witness:
  "\<exists>h m p. fst (removeExperience plain_env 5000 (fst (addExperience plain_env 5000 level8)))
     = level8\<lparr>ps_health := h, ps_mana := m, ps_levelPercent := p\<rparr>"
  by (rule removeExperience_undoes [OF level8_ok])
    (simp_all add: level8_gain, simp_all add: level8_def plain_env_def MAX_LEVEL_def small_maxima_def)

end
