(* ===== verification/Skills.thy ===== *)
theory Skills
  imports Advancement
begin

text \<open>
  Skills and the magic level of a player: \<^verbatim>\<open>addSkillAdvance\<close>,
  \<^verbatim>\<open>addManaSpent\<close>, \<^verbatim>\<open>addOfflineTrainingTries\<close> and the losses in
  \<^verbatim>\<open>death\<close> of \<^verbatim>\<open>src/src/player.cpp\<close>. A level and the tries spent on
  the next one stand for the sum of all tries, and the operations add to that sum or take from it.
  The table of a vocation (\<^verbatim>\<open>getReqSkillTries\<close>, \<^verbatim>\<open>getReqMana\<close>), a floating
  point power, is the parameter \<open>req\<close>.
\<close>

section \<open>Operations\<close>

record skill =
  sk_level :: nat
  sk_tries :: u64
  sk_percent :: byte

text \<open>The loop over the levels gained: level, tries, what is left of the amount, the tries of the
  next level and whether the table ended.\<close>

function advance_tries :: "(nat \<Rightarrow> u64) \<Rightarrow> nat \<Rightarrow> u64 \<Rightarrow> u64 \<Rightarrow> u64 \<Rightarrow> nat \<times> u64 \<times> u64 \<times> u64 \<times> bool" where
  "advance_tries req level tries n nextReq =
     (if tries + n \<ge> nextReq then
        (let n = n - (nextReq - tries);
             level = Suc level;
             nextReq' = req (Suc level)
         in if nextReq \<ge> nextReq' then (level, 0, n, nextReq', True)
            else advance_tries req level 0 n nextReq')
      else (level, tries, n, nextReq, False))"
  by pat_completeness auto
termination
proof (relation "measure (\<lambda>(req, level, tries, n, nextReq). 2 ^ 64 - unat nextReq)", goal_cases)
  case (2 req level tries n nextReq x1 x2 x3)
  then have "unat nextReq < unat x3" by (simp add: word_less_nat_alt not_le)
  moreover have "unat x3 < 2 ^ 64" using unat_bound [of x3] by simp
  ultimately show ?case using 2 by simp
qed simp

declare advance_tries.simps [simp del]

definition advances :: "nat \<Rightarrow> nat \<Rightarrow> level_event list" where
  "advances old new = map (\<lambda>l. PlayerAdvance l (Suc l)) [old..<new]"

definition addSkillAdvance :: "(nat \<Rightarrow> u64) \<Rightarrow> (u64 \<Rightarrow> u64) \<Rightarrow> u64 \<Rightarrow> skill \<Rightarrow> skill \<times> level_event list" where
  "addSkillAdvance req gain n s =
     (let currReqTries = req (sk_level s); nextReqTries = req (Suc (sk_level s)) in
      if currReqTries \<ge> nextReqTries then (s, [])
      else
        let n = gain n in
        if n = 0 then (s, [])
        else
          (let (level, tries, n, nextReqTries, ended) = advance_tries req (sk_level s) (sk_tries s) n nextReqTries;
               n = (if ended then 0 else n);
               tries = tries + n
           in (\<lparr>sk_level = level, sk_tries = tries,
                sk_percent = (if nextReqTries > req level then getPercentLevel tries nextReqTries else 0)\<rparr>,
               advances (sk_level s) level)))"

text \<open>The magic level returns at the end of the table, before the percentage is set.\<close>

definition addManaSpent :: "(nat \<Rightarrow> u64) \<Rightarrow> (u64 \<Rightarrow> u64) \<Rightarrow> bool \<Rightarrow> u64 \<Rightarrow> skill \<Rightarrow> skill \<times> level_event list" where
  "addManaSpent req gain notGainMana amount s =
     (if notGainMana then (s, [])
      else
        (let currReqMana = req (sk_level s); nextReqMana = req (Suc (sk_level s)) in
         if currReqMana \<ge> nextReqMana then (s, [])
         else
           let amount = gain amount in
           if amount = 0 then (s, [])
           else
             (let (level, spent, amount, nextReqMana, ended) = advance_tries req (sk_level s) (sk_tries s) amount nextReqMana
              in if ended then (s\<lparr>sk_level := level, sk_tries := spent\<rparr>, advances (sk_level s) level)
                 else
                   (let spent = spent + amount
                    in (\<lparr>sk_level = level, sk_tries = spent,
                         sk_percent = (if nextReqMana > req level then getPercentLevel spent nextReqMana else 0)\<rparr>,
                        advances (sk_level s) level)))))"

text \<open>Offline training; the result tells whether anything was sent.\<close>

definition addOfflineTrainingTries ::
  "(nat \<Rightarrow> u64) \<Rightarrow> (u64 \<Rightarrow> u64) \<Rightarrow> bool \<Rightarrow> u64 \<Rightarrow> skill \<Rightarrow> bool \<times> skill \<times> level_event list" where
  "addOfflineTrainingTries req gain isLevel tries s =
     (if tries = 0 \<or> isLevel then (False, s, [])
      else
        (let currReq = req (sk_level s); nextReq = req (Suc (sk_level s)) in
         if currReq \<ge> nextReq then (False, s, [])
         else
           (let tries = gain tries;
                (level, spent, tries, nextReq, ended) = advance_tries req (sk_level s) (sk_tries s) tries nextReq;
                spent = spent + (if ended then 0 else tries);
                newPercent = (if nextReq > req level then getPercentLevel spent nextReq else 0)
            in (level \<noteq> sk_level s \<or> newPercent \<noteq> sk_percent s,
                \<lparr>sk_level = level, sk_tries = spent, sk_percent = newPercent\<rparr>, advances (sk_level s) level))))"

fun lose_mana :: "(nat \<Rightarrow> u64) \<Rightarrow> nat \<Rightarrow> u64 \<Rightarrow> u64 \<Rightarrow> nat \<times> u64 \<times> u64" where
  "lose_mana req level spent lost =
     (if lost > spent \<and> level > 0 then lose_mana req (level - 1) (req level) (lost - spent) else (level, spent, lost))"

declare lose_mana.simps [simp del]

definition death_mana_loss :: "(nat \<Rightarrow> u64) \<Rightarrow> u64 \<Rightarrow> skill \<Rightarrow> skill" where
  "death_mana_loss req lostMana s =
     (let (level, spent, lost) = lose_mana req (sk_level s) (sk_tries s) lostMana;
          spent = spent - lost;
          nextReqMana = req (Suc level)
      in \<lparr>sk_level = level, sk_tries = spent,
          sk_percent = (if nextReqMana > req level then getPercentLevel spent nextReqMana else 0)\<rparr>)"

fun lose_tries :: "(nat \<Rightarrow> u64) \<Rightarrow> nat \<Rightarrow> u64 \<Rightarrow> u32 \<Rightarrow> nat \<times> u64 \<times> u32" where
  "lose_tries req level tries lost =
     (if ucast lost > tries then
        (let lost = lost - ucast tries
         in if level \<le> 10 then (10, 0, 0) else lose_tries req (level - 1) (req level) lost)
      else (level, tries, lost))"

declare lose_tries.simps [simp del]

text \<open>The final subtraction goes through a 32 bit integer.\<close>

definition death_skill_loss :: "(nat \<Rightarrow> u64) \<Rightarrow> u32 \<Rightarrow> skill \<Rightarrow> skill" where
  "death_skill_loss req lostSkillTries s =
     (let (level, tries, lost) = lose_tries req (sk_level s) (sk_tries s) lostSkillTries;
          tries = word_of_int (max 0 (sint (ucast (tries - ucast lost) :: u32)))
      in \<lparr>sk_level = level, sk_tries = tries, sk_percent = getPercentLevel tries (req level)\<rparr>)"

section \<open>The sum of tries\<close>

text \<open>The sum starts at level \<open>b\<close>: 11 for skills, 1 for the magic level.\<close>

definition tries_sum :: "(nat \<Rightarrow> u64) \<Rightarrow> nat \<Rightarrow> nat \<Rightarrow> nat \<Rightarrow> nat" where
  "tries_sum req b level tries = (\<Sum>c = b..level. unat (req c)) + tries"

definition skill_sum :: "(nat \<Rightarrow> u64) \<Rightarrow> nat \<Rightarrow> skill \<Rightarrow> nat" where
  "skill_sum req b s = tries_sum req b (sk_level s) (unat (sk_tries s))"

text \<open>The tries of a level stay below what the next one needs.\<close>

definition skill_ok :: "(nat \<Rightarrow> u64) \<Rightarrow> nat \<Rightarrow> skill \<Rightarrow> bool" where
  "skill_ok req b s \<longleftrightarrow> b \<le> Suc (sk_level s) \<and> sk_tries s < req (Suc (sk_level s))"

lemma tries_sum_Suc: "b \<le> Suc level \<Longrightarrow> tries_sum req b (Suc level) t = tries_sum req b level (unat (req (Suc level)) + t)"
  by (simp add: tries_sum_def)

lemma tries_sum_add: "tries_sum req b level (t + u) = tries_sum req b level t + u"
  by (simp add: tries_sum_def)

lemma tries_sum_mono: "l \<le> l' \<Longrightarrow> tries_sum req b l t \<le> tries_sum req b l' t"
  unfolding tries_sum_def by (intro add_mono sum_mono2) auto

text \<open>A sum belongs to one level only.\<close>

lemma tries_sum_unique:
  assumes "tries_sum req b l t = tries_sum req b l' t'" and "t < unat (req (Suc l))" and "t' < unat (req (Suc l'))"
    and "b \<le> Suc l" and "b \<le> Suc l'"
  shows "l = l'" and "t = t'"
proof -
  have le: "\<not> l < l'" if "tries_sum req b l t = tries_sum req b l' t'" "t < unat (req (Suc l))" "b \<le> Suc l" for l t l' t'
  proof
    assume "l < l'"
    have "tries_sum req b l t < tries_sum req b l (unat (req (Suc l)))" using that(2) by (simp add: tries_sum_def)
    also have "\<dots> = tries_sum req b (Suc l) 0" using tries_sum_Suc [OF that(3), of req 0] by simp
    also have "\<dots> \<le> tries_sum req b l' 0" using \<open>l < l'\<close> by (intro tries_sum_mono) simp
    also have "\<dots> \<le> tries_sum req b l' t'" by (simp add: tries_sum_def)
    finally show False using that(1) by simp
  qed
  show "l = l'" using le [OF assms(1,2,4)] le [OF assms(1) [symmetric] assms(3,5)] by simp
  then show "t = t'" using assms(1) by (simp add: tries_sum_def)
qed

lemma unat_plus_u64: "unat a + unat b < 2 ^ 64 \<Longrightarrow> unat (a + b :: u64) = unat a + unat b"
  by (simp add: unat_plus_if_size word_size)

lemma unat_minus_u64: "b \<le> a \<Longrightarrow> unat (a - b :: u64) = unat a - unat b"
  by (simp add: unat_sub)

lemma advance_tries_ended:
  "advance_tries req level tries n nextReq = (level', tries', n', nextReq', ended) \<Longrightarrow> ended \<longrightarrow> tries' = 0"
proof (induction req level tries n nextReq rule: advance_tries.induct)
  case (1 req level tries n nextReq)
  show ?case
    using 1(2) 1(1) [OF _ refl refl refl] unfolding advance_tries.simps [of req level] Let_def
    by (auto split: if_splits)
qed

lemma advance_tries_sum:
  assumes "tries < nextReq" and "nextReq = req (Suc level)" and "b \<le> Suc level" and "unat tries + unat n < 2 ^ 64"
    and "advance_tries req level tries n nextReq = (level', tries', n', nextReq', ended)"
  shows "level \<le> level' \<and> nextReq' = req (Suc level')
    \<and> unat tries' + unat n' \<le> unat tries + unat n
    \<and> tries_sum req b level' (unat tries' + unat n') = tries_sum req b level (unat tries + unat n)
    \<and> (ended = (nextReq' \<le> req level' \<and> level' \<noteq> level))
    \<and> (\<not> ended \<longrightarrow> unat tries' + unat n' < unat nextReq')"
  using assms
proof (induction req level tries n nextReq rule: advance_tries.induct)
  case (1 req level tries n nextReq)
  have sum: "unat (tries + n) = unat tries + unat n" by (rule unat_plus_u64 [OF 1(5)])
  show ?case
  proof (cases "tries + n \<ge> nextReq")
    case False
    then have "unat tries + unat n < unat nextReq" using sum by (simp add: word_less_nat_alt not_le)
    then show ?thesis using False 1(2,3,6) by (auto simp: advance_tries.simps [of req level])
  next
    case True
    let ?n = "n - (nextReq - tries)"
    have le: "nextReq - tries \<le> n" and d: "unat (nextReq - tries) = unat nextReq - unat tries"
      using True 1(2) sum unat_minus_u64 [of tries nextReq] by (simp_all add: word_le_nat_alt word_less_nat_alt)
    have n: "unat ?n = unat tries + unat n - unat nextReq"
      using 1(2) unat_minus_u64 [OF le] d by (simp add: word_less_nat_alt)
    have ge: "unat nextReq \<le> unat tries + unat n" using True sum by (simp add: word_le_nat_alt)
    have s: "tries_sum req b (Suc level) (unat ?n) = tries_sum req b level (unat tries + unat n)"
      using tries_sum_Suc [OF 1(4), of req "unat ?n"] n ge 1(3) by simp
    show ?thesis
    proof (cases "nextReq \<ge> req (Suc (Suc level))")
      case end': True
      have "(Suc level, 0, ?n, req (Suc (Suc level)), True) = (level', tries', n', nextReq', ended)"
        using True end' 1(6) by (simp only: advance_tries.simps [of req level] Let_def if_True)
      then have "Suc level = level'" "0 = tries'" "?n = n'" "req (Suc (Suc level)) = nextReq'" "True = ended"
        unfolding prod.inject by blast+
      then show ?thesis using s n ge end' 1(3) by auto
    next
      case False
      have run: "advance_tries req (Suc level) 0 ?n (req (Suc (Suc level))) = (level', tries', n', nextReq', ended)"
        using True False 1(6) by (simp add: advance_tries.simps [of req level] Let_def)
      have pos: "0 < req (Suc (Suc level))" using False by (metis word_not_simps(1) not_le order_le_less_trans word_zero_le linorder_not_less)
      have "Suc level \<le> level' \<and> nextReq' = req (Suc level') \<and> unat tries' + unat n' \<le> unat (0 :: u64) + unat ?n
        \<and> tries_sum req b level' (unat tries' + unat n') = tries_sum req b (Suc level) (unat (0 :: u64) + unat ?n)
        \<and> (ended = (nextReq' \<le> req level' \<and> level' \<noteq> Suc level))
        \<and> (\<not> ended \<longrightarrow> unat tries' + unat n' < unat nextReq')"
        using 1(5) n ge 1(4) run pos by (intro 1(1) [OF True refl refl refl False]) simp_all
      then show ?thesis using s n ge False 1(3) by auto
    qed
  qed
qed

text \<open>What every operation that adds tries keeps: the sum grows by the amount unless the table ends.\<close>

definition gained :: "(nat \<Rightarrow> u64) \<Rightarrow> nat \<Rightarrow> u64 \<Rightarrow> skill \<Rightarrow> skill \<Rightarrow> bool" where
  "gained req b n s s' \<longleftrightarrow> sk_level s \<le> sk_level s'
     \<and> (if req (sk_level s') < req (Suc (sk_level s'))
        then skill_ok req b s' \<and> skill_sum req b s' = skill_sum req b s + unat n
        else sk_tries s' = 0 \<and> skill_sum req b s' \<le> skill_sum req b s + unat n)"

lemma skill_gain:
  assumes ok: "skill_ok req b s" and grows: "req (sk_level s) < req (Suc (sk_level s))"
    and fits: "unat (sk_tries s) + unat n < 2 ^ 64"
    and run: "advance_tries req (sk_level s) (sk_tries s) n (req (Suc (sk_level s))) = (level', tries', n', nextReq', ended)"
  shows "ended = (nextReq' \<le> req level')" and "ended \<Longrightarrow> tries' = 0"
    and "tries'' = (if ended then tries' else tries' + n') \<Longrightarrow> gained req b n s \<lparr>sk_level = level', sk_tries = tries'', sk_percent = p\<rparr>"
proof -
  have pre: "sk_tries s < req (Suc (sk_level s))" "b \<le> Suc (sk_level s)" using ok by (simp_all add: skill_ok_def)
  note r = advance_tries_sum [OF pre(1) refl pre(2) fits run]
  have zero: "ended \<longrightarrow> tries' = 0" by (rule advance_tries_ended [OF run])
  show e: "ended = (nextReq' \<le> req level')" using r grows by (cases "level' = sk_level s") auto
  show "ended \<Longrightarrow> tries' = 0" using zero by simp
  assume t: "tries'' = (if ended then tries' else tries' + n')"
  show "gained req b n s \<lparr>sk_level = level', sk_tries = tries'', sk_percent = p\<rparr>"
  proof (cases ended)
    case True
    have "tries_sum req b level' 0 \<le> tries_sum req b level' (unat tries' + unat n')" by (simp add: tries_sum_def)
    then show ?thesis using True r e zero t by (auto simp: gained_def skill_sum_def tries_sum_add not_less)
  next
    case False
    have "unat (tries' + n') = unat tries' + unat n'" using r False fits by (intro unat_plus_u64) linarith
    moreover have "req level' < req (Suc level')" and "unat tries' + unat n' < unat (req (Suc level'))"
      and "tries'' = tries' + n'" and "b \<le> Suc level'"
      using False r e t pre by auto
    ultimately show ?thesis
      using r by (simp add: gained_def skill_sum_def skill_ok_def tries_sum_add word_less_nat_alt)
  qed
qed

lemma gained_percent [simp]: "gained req b n s (s'\<lparr>sk_percent := p\<rparr>) = gained req b n s s'"
  by (simp add: gained_def skill_ok_def skill_sum_def)

lemma gained_zero: "skill_ok req b s \<Longrightarrow> req (sk_level s) < req (Suc (sk_level s)) \<Longrightarrow> gained req b 0 s s"
  by (simp add: gained_def)

lemma addManaSpent_gained:
  assumes "skill_ok req b s" and "req (sk_level s) < req (Suc (sk_level s))"
    and "unat (sk_tries s) + unat (gain n) < 2 ^ 64"
    and call: "addManaSpent req gain False n s = (s', ev)"
  shows "gained req b (gain n) s s' \<and> ev = advances (sk_level s) (sk_level s')"
proof (cases "gain n = 0")
  case True
  then have "(s', ev) = (s, [])" using assms(2) call by (simp add: addManaSpent_def Let_def not_le [symmetric])
  then show ?thesis using True gained_zero [OF assms(1,2)] by (simp add: advances_def)
next
  case False
  obtain level tries n' nextReq ended where run: "advance_tries req (sk_level s) (sk_tries s) (gain n)
      (req (Suc (sk_level s))) = (level, tries, n', nextReq, ended)"
    by (metis prod_cases5)
  have all: "\<And>p. gained req b (gain n) s \<lparr>sk_level = level, sk_tries = (if ended then tries else tries + n'), sk_percent = p\<rparr>"
    by (rule skill_gain(3) [OF assms(1-3) run]) simp
  have "s' = (if ended then s\<lparr>sk_level := level, sk_tries := tries\<rparr> else \<lparr>sk_level = level, sk_tries = tries + n',
      sk_percent = (if nextReq > req level then getPercentLevel (tries + n') nextReq else 0)\<rparr>)"
    and "ev = advances (sk_level s) level"
    using assms(2) call run False by (auto simp: addManaSpent_def Let_def not_le split: if_splits)
  then show ?thesis using all [of "sk_percent s"] all by (cases s) auto
qed

section \<open>Properties\<close>

text \<open>
  All three ways to gain tries, \<^verbatim>\<open>addSkillAdvance\<close>, \<^verbatim>\<open>addManaSpent\<close> and
  \<^verbatim>\<open>addOfflineTrainingTries\<close>, add exactly the amount the event allowed to the sum of
  tries, keep the tries below those of the next level, and report every level passed, once and in
  order. When the table ends, at the last level, the rest of the amount is dropped and the tries are 0.
\<close>

theorem tries_are_gained:
  assumes "skill_ok req b s" and "req (sk_level s) < req (Suc (sk_level s))"
    and "unat (sk_tries s) + unat (gain n) < 2 ^ 64" and "n \<noteq> 0"
    and "addSkillAdvance req gain n s = (s1, ev1)" and "addManaSpent req gain False n s = (s2, ev2)"
    and "addOfflineTrainingTries req gain False n s = (sent, s3, ev3)"
  shows "gained req b (gain n) s s1 \<and> gained req b (gain n) s s2 \<and> gained req b (gain n) s s3
    \<and> ev1 = advances (sk_level s) (sk_level s1) \<and> ev2 = advances (sk_level s) (sk_level s2)
    \<and> ev3 = advances (sk_level s) (sk_level s3)"
proof -
  obtain level tries n' nextReq ended where run: "advance_tries req (sk_level s) (sk_tries s) (gain n)
      (req (Suc (sk_level s))) = (level, tries, n', nextReq, ended)"
    by (metis prod_cases5)
  note g = skill_gain [OF assms(1-3) run]
  have all: "\<And>p. gained req b (gain n) s \<lparr>sk_level = level, sk_tries = (if ended then tries else tries + n'), sk_percent = p\<rparr>"
    by (rule g(3)) simp
  have e: "tries + (if ended then 0 else n') = (if ended then tries else tries + n')" by simp
  have none: "gained req b 0 s s" by (rule gained_zero [OF assms(1,2)])
  have one: "gained req b (gain n) s s1 \<and> ev1 = advances (sk_level s) (sk_level s1)"
    using assms(2,5) run all none by (auto simp: addSkillAdvance_def e Let_def advances_def split: if_splits)
  have two: "gained req b (gain n) s s2 \<and> ev2 = advances (sk_level s) (sk_level s2)"
    by (rule addManaSpent_gained [OF assms(1-3,6)])
  have three: "gained req b (gain n) s s3 \<and> ev3 = advances (sk_level s) (sk_level s3)"
  proof -
    have "s3 = \<lparr>sk_level = level, sk_tries = tries + (if ended then 0 else n'),
        sk_percent = (if nextReq > req level then getPercentLevel (tries + (if ended then 0 else n')) nextReq else 0)\<rparr>"
      and "ev3 = advances (sk_level s) level"
      using assms(2,4,7) run by (simp_all add: addOfflineTrainingTries_def Let_def not_le [symmetric])
    then show ?thesis using all by (simp add: e)
  qed
  show ?thesis using one two three by blast
qed

subsection \<open>Losses\<close>

lemma loss_left:
  fixes spent :: u64
  assumes "lost \<le> spent" and "spent \<le> up" and "lost = 0 \<longrightarrow> spent < up"
  shows "spent - lost < up"
proof (cases "lost = 0")
  case False
  then have "unat (spent - lost) < unat spent"
    using assms(1) by (simp add: unat_minus_u64 word_le_nat_alt unat_gt_0 [symmetric])
  then show ?thesis using assms(2) by (simp add: word_less_nat_alt word_le_nat_alt)
qed (use assms in simp)

lemma lose_mana_sum:
  assumes "lose_mana req level spent lost = (level', spent', lost')"
    and "unat lost \<le> tries_sum req 1 level (unat spent)" and "spent \<le> req (Suc level)"
    and "lost = 0 \<longrightarrow> spent < req (Suc level)"
  shows "lost' \<le> spent' \<and> level' \<le> level \<and> tries_sum req 1 level' (unat (spent' - lost')) + unat lost = tries_sum req 1 level (unat spent)
    \<and> spent' - lost' < req (Suc level')"
  using assms
proof (induction req level spent lost rule: lose_mana.induct)
  case (1 req level spent lost)
  show ?case
  proof (cases "lost > spent \<and> level > 0")
    case True
    then obtain l where l: "level = Suc l" by (cases level) auto
    have le: "spent \<le> lost" and gt: "unat spent < unat lost" using True by (auto simp: word_less_nat_alt word_le_nat_alt)
    have d: "unat (lost - spent) = unat lost - unat spent" by (rule unat_minus_u64 [OF le])
    have run: "lose_mana req (level - 1) (req level) (lost - spent) = (level', spent', lost')"
      using 1(2) True by (simp add: lose_mana.simps [of req level])
    have sum: "tries_sum req 1 (level - 1) (unat (req level)) + unat spent = tries_sum req 1 level (unat spent)"
      by (simp add: l tries_sum_def)
    have "lost' \<le> spent' \<and> level' \<le> level - 1 \<and> tries_sum req 1 level' (unat (spent' - lost')) + unat (lost - spent)
        = tries_sum req 1 (level - 1) (unat (req level)) \<and> spent' - lost' < req (Suc level')"
      using 1(3) sum d gt by (intro 1(1) [OF True run]) (auto simp: l)
    then show ?thesis using sum d gt by auto
  next
    case False
    then have le: "lost \<le> spent" using 1(3) by (cases level) (auto simp: tries_sum_def word_le_nat_alt word_less_nat_alt)
    have "level' = level" "spent' = spent" "lost' = lost" using 1(2) False by (auto simp: lose_mana.simps [of req level])
    then show ?thesis
      using le loss_left [OF le 1(4,5)] by (simp add: unat_minus_u64 tries_sum_def word_le_nat_alt)
  qed
qed

lemma lose_tries_sum:
  assumes "lose_tries req level tries lost = (level', tries', lost')" and "10 \<le> level"
    and "unat lost \<le> tries_sum req 11 level (unat tries)" and "tries \<le> req (Suc level)"
    and "lost = 0 \<longrightarrow> tries < req (Suc level)"
  shows "ucast lost' \<le> tries' \<and> 10 \<le> level' \<and> level' \<le> level
    \<and> tries_sum req 11 level' (unat (tries' - ucast lost')) + unat lost = tries_sum req 11 level (unat tries)
    \<and> tries' - ucast lost' < req (Suc level')"
  using assms
proof (induction req level tries lost rule: lose_tries.induct)
  case (1 req level tries lost)
  have up: "unat (ucast lost :: u64) = unat lost" using unat_bound [of lost] by (simp add: unsigned_ucast_eq take_bit_nat_eq_self)
  show ?case
  proof (cases "ucast lost > tries")
    case True
    have "level > 10" using 1(3,4) True up by (cases "level = 10") (auto simp: tries_sum_def word_less_nat_alt)
    then obtain l where l: "level = Suc l" "10 \<le> l" by (cases level) auto
    have gt: "unat tries < unat lost" using True up by (simp add: word_less_nat_alt)
    have "unat lost < 2 ^ 32" using unat_bound [of lost] by simp
    then have ut: "unat (ucast tries :: u32) = unat tries" using gt by (simp add: unsigned_ucast_eq take_bit_nat_eq_self)
    have le: "ucast tries \<le> lost" using gt ut by (simp add: word_le_nat_alt)
    have d: "unat (lost - ucast tries) = unat lost - unat tries" using unat_sub [OF le] ut by simp
    have run: "lose_tries req (level - 1) (req level) (lost - ucast tries) = (level', tries', lost')"
      using 1(2) True \<open>level > 10\<close> by (simp add: lose_tries.simps [of req level] Let_def)
    have sum: "tries_sum req 11 (level - 1) (unat (req level)) + unat tries = tries_sum req 11 level (unat tries)"
      using l by (simp add: tries_sum_def)
    have nz: "lost - ucast tries \<noteq> 0" using d gt by (auto simp: unat_eq_0 [symmetric])
    have "ucast lost' \<le> tries' \<and> 10 \<le> level' \<and> level' \<le> level - 1
        \<and> tries_sum req 11 level' (unat (tries' - ucast lost')) + unat (lost - ucast tries) = tries_sum req 11 (level - 1) (unat (req level))
        \<and> tries' - ucast lost' < req (Suc level')"
      using 1(4) sum d gt l nz by (intro 1(1) [OF True refl _ run]) auto
    then show ?thesis using sum d gt by auto
  next
    case False
    then have le: "ucast lost \<le> tries" by simp
    have e: "level' = level" "tries' = tries" "lost' = lost" using 1(2) False by (auto simp: lose_tries.simps [of req level])
    have "unat (tries - ucast lost) + unat lost = unat tries" using le up by (simp add: unat_minus_u64 word_le_nat_alt)
    moreover have "tries - ucast lost < req (Suc level)"
      using 1(6) up by (intro loss_left [OF le 1(5)]) (metis unat_eq_0)
    ultimately show ?thesis using e le 1(3) by (simp add: tries_sum_def)
  qed
qed

lemma death_mana_takes:
  assumes "skill_ok req 1 m" and "unat lost \<le> skill_sum req 1 m" and "death_mana_loss req lost m = m'"
  shows "skill_sum req 1 m' + unat lost = skill_sum req 1 m \<and> skill_ok req 1 m' \<and> sk_level m' \<le> sk_level m"
proof -
  obtain l t n where run: "lose_mana req (sk_level m) (sk_tries m) lost = (l, t, n)" by (metis prod_cases3)
  have "n \<le> t \<and> l \<le> sk_level m \<and> tries_sum req 1 l (unat (t - n)) + unat lost
      = tries_sum req 1 (sk_level m) (unat (sk_tries m)) \<and> t - n < req (Suc l)"
    using assms(1,2) by (intro lose_mana_sum [OF run]) (auto simp: skill_ok_def skill_sum_def)
  then show ?thesis using assms(3) run by (auto simp: death_mana_loss_def skill_sum_def skill_ok_def Let_def)
qed

text \<open>A loss above the sum.\<close>

lemma lose_mana_all:
  assumes "lose_mana req level spent lost = (level', spent', lost')" and "unat lost > tries_sum req 1 level (unat spent)"
  shows "level' = 0 \<and> unat lost' = unat spent' + (unat lost - tries_sum req 1 level (unat spent))"
  using assms
proof (induction req level spent lost rule: lose_mana.induct)
  case (1 req level spent lost)
  have gt: "unat spent < unat lost" using 1(3) by (simp add: tries_sum_def)
  show ?case
  proof (cases level)
    case 0
    then show ?thesis using 1(2) gt by (auto simp: lose_mana.simps [of req 0] tries_sum_def)
  next
    case (Suc l)
    have c: "lost > spent \<and> level > 0" using gt Suc by (simp add: word_less_nat_alt)
    have d: "unat (lost - spent) = unat lost - unat spent" using gt by (intro unat_minus_u64) (simp add: word_le_nat_alt)
    have run: "lose_mana req (level - 1) (req level) (lost - spent) = (level', spent', lost')"
      using 1(2) c by (simp add: lose_mana.simps [of req level])
    have "tries_sum req 1 (level - 1) (unat (req level)) + unat spent = tries_sum req 1 level (unat spent)"
      by (simp add: Suc tries_sum_def)
    then show ?thesis using 1(1) [OF c run] 1(3) d by auto
  qed
qed

lemma lose_tries_all:
  assumes "10 \<le> level" and "unat lost > tries_sum req 11 level (unat tries)"
  shows "lose_tries req level tries lost = (10, 0, 0)"
  using assms
proof (induction req level tries lost rule: lose_tries.induct)
  case (1 req level tries lost)
  have up: "unat (ucast lost :: u64) = unat lost" using unat_bound [of lost] by (simp add: unsigned_ucast_eq take_bit_nat_eq_self)
  have gt: "unat tries < unat lost" using 1(3) by (simp add: tries_sum_def)
  have c: "ucast lost > tries" using gt up by (simp add: word_less_nat_alt)
  show ?case
  proof (cases "level \<le> 10")
    case True
    then show ?thesis using c by (simp add: lose_tries.simps [of req level] Let_def)
  next
    case False
    then obtain l where l: "level = Suc l" "10 \<le> l" by (cases level) auto
    have "unat lost < 2 ^ 32" using unat_bound [of lost] by simp
    then have ut: "unat (ucast tries :: u32) = unat tries" using gt by (simp add: unsigned_ucast_eq take_bit_nat_eq_self)
    have d: "unat (lost - ucast tries) = unat lost - unat tries"
      using gt ut unat_sub [of "ucast tries" lost] by (simp add: word_le_nat_alt)
    have "tries_sum req 11 (level - 1) (unat (req level)) + unat tries = tries_sum req 11 level (unat tries)"
      using l by (simp add: tries_sum_def)
    then have "lose_tries req (level - 1) (req level) (lost - ucast tries) = (10, 0, 0)"
      using 1(3) d l by (intro 1(1) [OF c refl False]) auto
    then show ?thesis using c False by (simp add: lose_tries.simps [of req level] Let_def)
  qed
qed

text \<open>What is left of a number of tries after the cast to \<^verbatim>\<open>int32_t\<close> and the maximum
  with 0: the last 32 bits, or nothing when these are a negative number.\<close>

definition int32_part :: "nat \<Rightarrow> nat" where
  "int32_part left = (let r = left mod 2 ^ 32 in if r < 2 ^ 31 then r else 0)"

lemma int32_part_small: "left < 2 ^ 31 \<Longrightarrow> int32_part left = left"
  by (simp add: int32_part_def Let_def)

lemma sint_big: "\<not> uint (w :: u32) < 2 ^ 31 \<Longrightarrow> sint w < 0"
proof -
  assume "\<not> uint w < 2 ^ 31"
  moreover have "uint w < 2 ^ 32" using uint_bounded [of w] by simp
  ultimately have "uint w div 2 ^ 31 = 1" by simp
  then have "bit (uint w) 31" by (simp add: bit_iff_odd)
  then show ?thesis by (simp add: sint_uint)
qed

lemma uint_below_31: "uint (r :: u32) < 2 ^ 31 \<longleftrightarrow> unat r < 2 ^ 31"
proof -
  have "int (unat r) < int (2 ^ 31) \<longleftrightarrow> unat r < 2 ^ 31" by (rule of_nat_less_iff)
  then show ?thesis by simp
qed

lemma int32_max: "unat (word_of_int (max 0 (sint (r :: u32))) :: u64) = (if unat r < 2 ^ 31 then unat r else 0)"
proof (cases "unat r < 2 ^ 31")
  case True
  then have "uint r < 2 ^ 31" by (simp only: uint_below_31)
  then have "max 0 (sint r) = int (unat r)" by (simp only: sint_small uint_nat max_absorb2 of_nat_0_le_iff)
  then have "unat (word_of_int (max 0 (sint r)) :: u64) = unat (of_nat (unat r) :: u64)" by (simp only: of_int_of_nat_eq)
  also have "\<dots> = unat r" using True unfolding unat_of_nat by (intro mod_less) simp
  finally show ?thesis using True by (simp only: if_True)
next
  case False
  have "\<not> uint r < 2 ^ 31" using False uint_below_31 [of r] by blast
  then have "max 0 (sint r) = 0" using sint_big [of r] by simp
  then show ?thesis using False by simp
qed

lemma int32_cast: "unat (word_of_int (max 0 (sint (ucast (w :: u64) :: u32))) :: u64) = int32_part (unat w)"
proof -
  have "unat (ucast w :: u32) = unat w mod 2 ^ 32" unfolding unsigned_ucast_eq take_bit_eq_mod by simp
  then show ?thesis by (simp only: int32_max int32_part_def Let_def)
qed

text \<open>The loss of a magic level, whatever the amount: above the sum the subtraction wraps.\<close>

definition mana_lost :: "(nat \<Rightarrow> u64) \<Rightarrow> nat \<Rightarrow> skill \<Rightarrow> skill \<Rightarrow> bool" where
  "mana_lost req n m m' \<longleftrightarrow>
     (if n \<le> skill_sum req 1 m
      then skill_sum req 1 m' + n = skill_sum req 1 m \<and> skill_ok req 1 m' \<and> sk_level m' \<le> sk_level m
      else sk_level m' = 0 \<and> unat (sk_tries m') + (n - skill_sum req 1 m) = 2 ^ 64)"

lemma death_mana_all:
  assumes "unat lost > skill_sum req 1 m" and "death_mana_loss req lost m = m'"
  shows "sk_level m' = 0 \<and> unat (sk_tries m') + (unat lost - skill_sum req 1 m) = 2 ^ 64"
proof -
  obtain l t n where run: "lose_mana req (sk_level m) (sk_tries m) lost = (l, t, n)" by (metis prod_cases3)
  have e: "l = 0 \<and> unat n = unat t + (unat lost - skill_sum req 1 m)"
    using lose_mana_all [OF run] assms(1) by (simp add: skill_sum_def)
  then have "unat t < unat n" using assms(1) by simp
  then have "unat (t - n) = 2 ^ 64 + unat t - unat n" by (simp add: unat_sub_if_size word_size)
  then show ?thesis using e assms(2) run \<open>unat t < unat n\<close> unat_bound [of n]
    by (auto simp: death_mana_loss_def Let_def)
qed

text \<open>The loss of a skill: what is left of the tries is cut by the cast.\<close>

definition skill_lost :: "(nat \<Rightarrow> u64) \<Rightarrow> nat \<Rightarrow> skill \<Rightarrow> skill \<Rightarrow> bool" where
  "skill_lost req n s s' \<longleftrightarrow> 10 \<le> sk_level s' \<and> sk_level s' \<le> sk_level s
     \<and> (if n \<le> skill_sum req 11 s
        then \<exists>left < unat (req (Suc (sk_level s'))). tries_sum req 11 (sk_level s') left + n = skill_sum req 11 s
          \<and> unat (sk_tries s') = int32_part left
        else sk_level s' = 10 \<and> sk_tries s' = 0)"

text \<open>
  C37. A death takes exactly the tries computed from the percentage. The sum of the magic level falls
  by \<^verbatim>\<open>lostMana\<close>, the sum of a skill by \<^verbatim>\<open>lostSkillTries\<close>, the
  levels never rise, a skill never falls below level 10, and what is left stays below the tries of the
  next level. What is left of a skill's tries then goes through an \<^verbatim>\<open>int32_t\<close>: below
  \<open>2 ^ 31\<close> it stays, above it is cut (\<open>int32_part\<close>), which is not what the code
  means to do. The code computes both losses as a fraction of the sum. A loss above the sum, which
  only a rounding could give, would reset a skill to level 10 and wrap the mana.
\<close>

theorem death_takes_the_loss:
  assumes "skill_ok req 1 m" and "skill_ok req 11 s"
    and "death_mana_loss req lostMana m = m'" and "death_skill_loss req lostTries s = s'"
  shows "mana_lost req (unat lostMana) m m' \<and> skill_lost req (unat lostTries) s s'
    \<and> (unat lostTries \<le> skill_sum req 11 s \<and> (\<forall>c \<le> Suc (sk_level s). req c \<le> 2 ^ 31) \<longrightarrow>
        skill_sum req 11 s' + unat lostTries = skill_sum req 11 s \<and> skill_ok req 11 s')"
proof -
  have mana: "mana_lost req (unat lostMana) m m'"
    using death_mana_takes [OF assms(1) _ assms(3)] death_mana_all [OF _ assms(3)] by (auto simp: mana_lost_def)
  obtain l' t' n' where run: "lose_tries req (sk_level s) (sk_tries s) lostTries = (l', t', n')" by (metis prod_cases3)
  define left where "left = t' - ucast n'"
  have s': "sk_level s' = l'" "unat (sk_tries s') = int32_part (unat left)"
    using assms(4) run int32_cast [of left] by (auto simp: death_skill_loss_def left_def Let_def)
  show ?thesis
  proof (cases "unat lostTries \<le> skill_sum req 11 s")
    case True
    have s: "10 \<le> l' \<and> l' \<le> sk_level s \<and> tries_sum req 11 l' (unat left) + unat lostTries = skill_sum req 11 s
        \<and> left < req (Suc l')"
      using lose_tries_sum [OF run] assms(2) True by (auto simp: skill_ok_def skill_sum_def left_def)
    then have "skill_lost req (unat lostTries) s s'" using True s' by (auto simp: skill_lost_def word_less_nat_alt)
    moreover have "unat left < 2 ^ 31" if "\<forall>c \<le> Suc (sk_level s). req c \<le> 2 ^ 31"
    proof -
      have "left < 2 ^ 31" using s that by (meson Suc_le_mono order_less_le_trans)
      then show ?thesis by (simp add: word_less_nat_alt)
    qed
    ultimately show ?thesis
      using mana s s' int32_part_small [of "unat left"] by (auto simp: skill_sum_def skill_ok_def word_less_nat_alt)
  next
    case False
    then have "(l', t', n') = (10, 0, 0)"
      using lose_tries_all [of "sk_level s" req "sk_tries s" lostTries] run assms(2) by (simp add: skill_ok_def skill_sum_def)
    then have "l' = 10" "left = 0" by (simp_all add: left_def)
    then have "skill_lost req (unat lostTries) s s'"
      using False s' assms(2) by (auto simp: skill_lost_def skill_ok_def int32_part_def unat_eq_0)
    then show ?thesis using mana False by simp
  qed
qed

text \<open>
  Gaining an amount of mana and then losing it by a death restores the magic level and the mana
  spent, however many levels were passed, when the table did not end.
\<close>

theorem mana_loss_undoes_gain:
  assumes "skill_ok req 1 s" and "unat (sk_tries s) + unat n < 2 ^ 64"
    and "req (sk_level s) < req (Suc (sk_level s))"
    and "addManaSpent req id False n s = (s1, ev)" and "req (sk_level s1) < req (Suc (sk_level s1))"
  shows "sk_level (death_mana_loss req n s1) = sk_level s \<and> sk_tries (death_mana_loss req n s1) = sk_tries s"
proof -
  have g: "gained req 1 n s s1" using addManaSpent_gained [of req 1 s id n] assms by simp
  then have s1: "skill_ok req 1 s1" "skill_sum req 1 s1 = skill_sum req 1 s + unat n" using assms(5) by (simp_all add: gained_def)
  have l: "unat n \<le> skill_sum req 1 s1" using s1(2) by simp
  note d = death_mana_takes [OF s1(1) l refl]
  then have "tries_sum req 1 (sk_level (death_mana_loss req n s1)) (unat (sk_tries (death_mana_loss req n s1)))
      = tries_sum req 1 (sk_level s) (unat (sk_tries s))"
    using s1(2) by (simp add: skill_sum_def)
  from tries_sum_unique [OF this] d assms(1) show ?thesis by (auto simp: skill_ok_def word_less_nat_alt word_unat_eq_iff)
qed

subsection \<open>An example\<close>

definition linear_table :: "nat \<Rightarrow> u64" where
  "linear_table level = of_nat (100 * level)"

definition novice :: skill where
  "novice = \<lparr>sk_level = 10, sk_tries = 5, sk_percent = 0\<rparr>"

lemma novice_gain: "advance_tries linear_table 10 5 2500 1100 = (12, 0, 205, 1300, False)"
  by (simp add: advance_tries.simps linear_table_def)

theorem tries_are_gained_witness:
  "gained linear_table 11 2500 novice (fst (addSkillAdvance linear_table id 2500 novice))"
  using tries_are_gained [of linear_table 11 novice id 2500, OF _ _ _ _ surjective_pairing surjective_pairing]
  by (cases "addOfflineTrainingTries linear_table id False 2500 novice") (simp add: skill_ok_def novice_def linear_table_def)

lemma linear_table_small: "c \<le> Suc (sk_level novice) \<Longrightarrow> linear_table c \<le> 2 ^ 31"
proof -
  assume "c \<le> Suc (sk_level novice)"
  then have "100 * c \<le> 1100" by (simp add: novice_def)
  then have "unat (linear_table c) = 100 * c" unfolding linear_table_def unat_of_nat by (intro mod_less) simp
  then show ?thesis using \<open>100 * c \<le> 1100\<close> by (simp add: word_le_nat_alt)
qed

lemma novice_ok: "skill_ok linear_table 11 novice" "skill_ok linear_table 1 novice" "skill_sum linear_table 11 novice = 5"
  by (simp_all add: skill_ok_def skill_sum_def tries_sum_def linear_table_def novice_def)

theorem death_takes_the_loss_witness:
  "skill_sum linear_table 11 (death_skill_loss linear_table 3 novice) = 2
    \<and> sk_level (death_skill_loss linear_table 6 novice) = 10 \<and> sk_tries (death_skill_loss linear_table 6 novice) = 0"
proof -
  note d = death_takes_the_loss [OF novice_ok(2,1) refl refl]
  have "skill_sum linear_table 11 (death_skill_loss linear_table 3 novice) + 3 = 5"
    using d [of 0 3] linear_table_small by (simp add: novice_ok)
  moreover have "sk_level (death_skill_loss linear_table 6 novice) = 10 \<and> sk_tries (death_skill_loss linear_table 6 novice) = 0"
    using d [of 0 6] by (simp add: novice_ok skill_lost_def)
  ultimately show ?thesis by simp
qed

theorem mana_loss_undoes_gain_witness:
  "sk_level (death_mana_loss linear_table 2500 (fst (addManaSpent linear_table id False 2500 novice))) = 10"
  using mana_loss_undoes_gain [of linear_table novice 2500, OF _ _ _ surjective_pairing]
  by (simp add: skill_ok_def novice_def linear_table_def addManaSpent_def novice_gain)

text \<open>More than 31 bits of tries are lost by any death.\<close>

lemma long_tries_are_lost: "sk_tries (death_skill_loss (\<lambda>_. 2 ^ 40) 0 \<lparr>sk_level = 10, sk_tries = 2 ^ 31, sk_percent = 0\<rparr>) = 0"
  by (simp add: death_skill_loss_def lose_tries.simps)

end
