(* ===== verification/Dispatcher.thy ===== *)
theory Dispatcher
  imports Prelude "HOL-Library.Sublist"
begin

text \<open>
  The thread that executes all game tasks: \<^verbatim>\<open>src/src/tasks.h\<close>,
  \<^verbatim>\<open>src/src/tasks.cpp\<close> and \<^verbatim>\<open>src/src/thread_holder_base.h\<close>. The steps
  are the sections between two releases of \<^verbatim>\<open>taskLock\<close>, and any thread may step between
  two of them. A signal is sent after the lock is released, so it is a step of its own.
\<close>

section \<open>Tasks\<close>

datatype thread_state = THREAD_STATE_RUNNING | THREAD_STATE_CLOSING | THREAD_STATE_TERMINATED

text \<open>\<open>tk_expiration\<close> is 0 (\<^verbatim>\<open>SYSTEM_TIME_ZERO\<close>) for a task that does not expire.
  \<open>tk_final\<close> marks the task of \<^verbatim>\<open>shutdown\<close>; \<open>tk_id\<close> names the function of any
  other task, whose effect on the dispatcher is what it adds, a step of its own.\<close>

record task =
  tk_id :: nat
  tk_expiration :: nat
  tk_final :: bool

definition DISPATCHER_TASK_EXPIRATION :: nat where "DISPATCHER_TASK_EXPIRATION = 2000"

definition create_task :: "nat \<Rightarrow> task" where
  "create_task i = \<lparr>tk_id = i, tk_expiration = 0, tk_final = False\<rparr>"

definition create_expiring_task :: "nat \<Rightarrow> nat \<Rightarrow> nat \<Rightarrow> task" where
  "create_expiring_task now ms i = \<lparr>tk_id = i, tk_expiration = now + ms, tk_final = False\<rparr>"

definition setDontExpire :: "task \<Rightarrow> task" where
  "setDontExpire t = t\<lparr>tk_expiration := 0\<rparr>"

definition hasExpired :: "nat \<Rightarrow> task \<Rightarrow> bool" where
  "hasExpired now t = (if tk_expiration t = 0 then False else tk_expiration t < now)"

section \<open>The dispatcher\<close>

text \<open>Where the thread is: before the test of the loop, before it takes the lock, waiting for a signal,
  woken and about to take the lock again, at the tasks it took, or out of the loop.\<close>

datatype location = Test | Take_Lock | Waiting | Woken | Executing "task list" | Left

text \<open>\<open>dp_signals\<close> counts the threads that owe a signal. \<open>dp_done\<close> lists the tasks
  taken in order, with whether they were executed; \<open>dp_refused\<close> those deleted at once.\<close>

record dispatcher =
  dp_state :: thread_state
  dp_tasks :: "task list"
  dp_cycle :: nat
  dp_loc :: location
  dp_signals :: nat
  dp_now :: nat
  dp_done :: "(task \<times> bool) list"
  dp_refused :: "task list"

definition notify_one :: "dispatcher \<Rightarrow> dispatcher" where
  "notify_one d = (if dp_loc d = Waiting then d\<lparr>dp_loc := Woken\<rparr> else d)"

text \<open>\<open>addTask\<close> up to the release of the lock; \<^verbatim>\<open>push_front\<close> makes no difference.\<close>

definition addTask :: "task \<Rightarrow> bool \<Rightarrow> dispatcher \<Rightarrow> dispatcher" where
  "addTask t push_front d =
     (if dp_state d = THREAD_STATE_RUNNING then
        (let do_signal = (dp_tasks d = [])
         in d\<lparr>dp_tasks := (if push_front then dp_tasks d @ [t] else dp_tasks d @ [t]),
              dp_signals := (if do_signal then Suc (dp_signals d) else dp_signals d)\<rparr>)
      else d\<lparr>dp_refused := dp_refused d @ [t]\<rparr>)"

definition send_signal :: "dispatcher \<Rightarrow> dispatcher" where
  "send_signal d = (if dp_signals d > 0 then notify_one (d\<lparr>dp_signals := dp_signals d - 1\<rparr>) else d)"

definition final_task :: task where
  "final_task = \<lparr>tk_id = 0, tk_expiration = 0, tk_final = True\<rparr>"

text \<open>\<open>shutdown\<close> signals while it holds the lock.\<close>

definition dispatcher_shutdown :: "dispatcher \<Rightarrow> dispatcher" where
  "dispatcher_shutdown d = notify_one (d\<lparr>dp_tasks := dp_tasks d @ [final_task]\<rparr>)"

definition dispatcher_stop :: "dispatcher \<Rightarrow> dispatcher" where
  "dispatcher_stop d = d\<lparr>dp_state := THREAD_STATE_CLOSING\<rparr>"

definition dispatcher_start :: "nat \<Rightarrow> dispatcher" where
  "dispatcher_start now = \<lparr>dp_state = THREAD_STATE_RUNNING, dp_tasks = [], dp_cycle = 0, dp_loc = Test,
     dp_signals = 0, dp_now = now, dp_done = [], dp_refused = []\<rparr>"

text \<open>One task of the list taken.\<close>

definition execute :: "task \<Rightarrow> dispatcher \<Rightarrow> dispatcher" where
  "execute t d =
     (if \<not> hasExpired (dp_now d) t then
        (let d = d\<lparr>dp_cycle := Suc (dp_cycle d), dp_done := dp_done d @ [(t, True)]\<rparr>
         in if tk_final t then notify_one (d\<lparr>dp_state := THREAD_STATE_TERMINATED\<rparr>) else d)
      else d\<lparr>dp_done := dp_done d @ [(t, False)]\<rparr>)"

definition take_tasks :: "dispatcher \<Rightarrow> dispatcher" where
  "take_tasks d = d\<lparr>dp_loc := Executing (dp_tasks d), dp_tasks := []\<rparr>"

text \<open>A step of the thread; it has none of its own while it waits or after it has left.\<close>

definition threadMain_step :: "dispatcher \<Rightarrow> dispatcher" where
  "threadMain_step d = (case dp_loc d of
       Test \<Rightarrow> d\<lparr>dp_loc := (if dp_state d \<noteq> THREAD_STATE_TERMINATED then Take_Lock else Left)\<rparr>
     | Take_Lock \<Rightarrow> if dp_tasks d = [] then d\<lparr>dp_loc := Waiting\<rparr> else take_tasks d
     | Waiting \<Rightarrow> d
     | Woken \<Rightarrow> take_tasks d
     | Executing [] \<Rightarrow> d\<lparr>dp_loc := Test\<rparr>
     | Executing (t # ts) \<Rightarrow> execute t (d\<lparr>dp_loc := Executing ts\<rparr>)
     | Left \<Rightarrow> d)"

datatype action = Add task bool | Signal | Spurious | Shutdown | Stop | Tick | Thread

fun act :: "action \<Rightarrow> dispatcher \<Rightarrow> dispatcher" where
  "act (Add t push_front) d = addTask t push_front d"
| "act Signal d = send_signal d"
| "act Spurious d = notify_one d"
| "act Shutdown d = dispatcher_shutdown d"
| "act Stop d = dispatcher_stop d"
| "act Tick d = d\<lparr>dp_now := Suc (dp_now d)\<rparr>"
| "act Thread d = threadMain_step d"

text \<open>What can happen: the tasks added by others are not the one of \<open>shutdown\<close>, a signal needs a
  thread that owes one, and the thread steps when it neither waits nor has left.\<close>

fun enabled :: "action \<Rightarrow> dispatcher \<Rightarrow> bool" where
  "enabled (Add t push_front) d \<longleftrightarrow> \<not> tk_final t"
| "enabled Signal d \<longleftrightarrow> dp_signals d > 0"
| "enabled Thread d \<longleftrightarrow> dp_loc d \<noteq> Waiting \<and> dp_loc d \<noteq> Left"
| "enabled _ d \<longleftrightarrow> True"

inductive dispatcher_reachable :: "dispatcher \<Rightarrow> bool" where
  started: "dispatcher_reachable (dispatcher_start now)"
| acted: "dispatcher_reachable d \<Longrightarrow> enabled a d \<Longrightarrow> dispatcher_reachable (act a d)"

text \<open>The tasks the dispatcher ever had, in order: those taken, those it is at, those waiting.\<close>

definition at_hand :: "dispatcher \<Rightarrow> task list" where
  "at_hand d = (case dp_loc d of Executing ts \<Rightarrow> ts | _ \<Rightarrow> [])"

definition accepted :: "dispatcher \<Rightarrow> task list" where
  "accepted d = map fst (dp_done d) @ at_hand d @ dp_tasks d"

fun accepts :: "action \<Rightarrow> dispatcher \<Rightarrow> task list" where
  "accepts (Add t push_front) d = (if dp_state d = THREAD_STATE_RUNNING then [t] else [])"
| "accepts Shutdown d = [final_task]"
| "accepts _ d = []"

text \<open>A run is a sequence of actions; it is fair when the thread steps again and again while it can,
  and a signal that is owed is sent.\<close>

definition dispatcher_run :: "(nat \<Rightarrow> action) \<Rightarrow> (nat \<Rightarrow> dispatcher) \<Rightarrow> bool" where
  "dispatcher_run acts run \<longleftrightarrow> (\<exists>now. run 0 = dispatcher_start now)
     \<and> (\<forall>i. enabled (acts i) (run i) \<and> run (Suc i) = act (acts i) (run i))"

definition fair :: "(nat \<Rightarrow> action) \<Rightarrow> (nat \<Rightarrow> dispatcher) \<Rightarrow> bool" where
  "fair acts run \<longleftrightarrow> (\<forall>i. (enabled Thread (run i) \<longrightarrow> (\<exists>j \<ge> i. acts j = Thread))
     \<and> (enabled Signal (run i) \<longrightarrow> (\<exists>j \<ge> i. acts j = Signal)))"

section \<open>Invariants\<close>

lemmas dispatcher_defs = addTask_def send_signal_def notify_one_def dispatcher_shutdown_def dispatcher_stop_def
  threadMain_step_def take_tasks_def execute_def at_hand_def accepted_def Let_def

definition signal_owed :: "dispatcher \<Rightarrow> bool" where
  "signal_owed d \<longleftrightarrow> (dp_loc d = Waiting \<and> dp_tasks d \<noteq> [] \<longrightarrow> dp_signals d > 0)"

lemma signal_owed_act: "signal_owed d \<Longrightarrow> signal_owed (act a d)"
  by (cases a) (auto simp: signal_owed_def dispatcher_defs split: location.splits list.splits)

definition leaves_after_final :: "dispatcher \<Rightarrow> bool" where
  "leaves_after_final d \<longleftrightarrow> (dp_state d = THREAD_STATE_TERMINATED \<or> dp_loc d = Left \<longrightarrow> (\<exists>t. tk_final t \<and> (t, True) \<in> set (dp_done d)))"

lemma leaves_after_final_act: "leaves_after_final d \<Longrightarrow> leaves_after_final (act a d)"
  by (cases a) (auto simp: leaves_after_final_def dispatcher_defs split: location.splits list.splits)

text \<open>A task is executed unless it has expired, and the cycle counts those executed.\<close>

definition done_right :: "dispatcher \<Rightarrow> bool" where
  "done_right d \<longleftrightarrow> dp_cycle d = length (filter snd (dp_done d))
     \<and> (\<forall>(t, ran) \<in> set (dp_done d). \<not> ran \<longrightarrow> tk_expiration t \<noteq> 0 \<and> tk_expiration t < dp_now d)"

lemma done_right_act: "done_right d \<Longrightarrow> done_right (act a d)"
proof (cases a)
  case Thread
  assume "done_right d"
  moreover have "done_right (execute t (d\<lparr>dp_loc := l\<rparr>))" if "done_right d" for t l
    using that by (auto simp: done_right_def execute_def hasExpired_def notify_one_def Let_def)
  ultimately show ?thesis
    unfolding Thread by (auto simp: threadMain_step_def take_tasks_def split: location.splits list.splits)
      (auto simp: done_right_def)
next
  case Tick
  assume "done_right d"
  then show ?thesis unfolding Tick by (auto simp: done_right_def)
qed (auto simp: done_right_def addTask_def send_signal_def notify_one_def dispatcher_shutdown_def dispatcher_stop_def Let_def)

lemma accepted_thread: "accepted (threadMain_step d) = accepted d"
proof (cases "dp_loc d")
  case (Executing ts)
  then show ?thesis by (cases ts) (simp_all add: accepted_def at_hand_def threadMain_step_def execute_def notify_one_def Let_def)
qed (simp_all add: accepted_def at_hand_def threadMain_step_def take_tasks_def)

lemma at_hand_notify: "at_hand (notify_one d) = at_hand d"
  by (simp add: at_hand_def notify_one_def)

lemma accepted_act: "accepted (act a d) = accepted d @ accepts a d"
proof (cases a)
  case Thread
  then show ?thesis by (simp add: accepted_thread)
qed (simp_all add: accepted_def addTask_def send_signal_def dispatcher_shutdown_def dispatcher_stop_def Let_def at_hand_notify,
  simp_all add: at_hand_def notify_one_def split: location.splits)

lemma reachable_inv: "dispatcher_reachable d \<Longrightarrow> signal_owed d \<and> leaves_after_final d \<and> done_right d"
  by (induction rule: dispatcher_reachable.induct)
    (auto intro: signal_owed_act leaves_after_final_act done_right_act simp: dispatcher_start_def,
     auto simp: signal_owed_def leaves_after_final_def done_right_def)

section \<open>Progress\<close>

text \<open>The steps the thread needs at most to reach the task with number \<open>k\<close>.\<close>

definition steps_to :: "nat \<Rightarrow> dispatcher \<Rightarrow> nat" where
  "steps_to k d = (let r = k - length (dp_done d) in r + (case dp_loc d of
       Executing ts \<Rightarrow> if r < length ts then 1 else 4
     | Test \<Rightarrow> 3 | Waiting \<Rightarrow> 3 | Take_Lock \<Rightarrow> 2 | Woken \<Rightarrow> 2 | Left \<Rightarrow> 0))"

definition pending :: "nat \<Rightarrow> dispatcher \<Rightarrow> bool" where
  "pending k d \<longleftrightarrow> length (dp_done d) \<le> k \<and> k < length (accepted d) \<and> (\<forall>t \<in> set (take k (accepted d)). \<not> tk_final t)"

lemma pending_not_left:
  assumes "pending k d" and "leaves_after_final d"
  shows "dp_loc d \<noteq> Left" and "dp_state d \<noteq> THREAD_STATE_TERMINATED"
proof -
  have "\<not> tk_final t" if "(t, b) \<in> set (dp_done d)" for t b
  proof -
    have "take (length (dp_done d)) (accepted d) = map fst (dp_done d)" by (simp add: accepted_def)
    then have "map fst (dp_done d) = take (length (dp_done d)) (take k (accepted d))"
      using assms(1) by (simp add: pending_def min_absorb1)
    then have "set (map fst (dp_done d)) \<subseteq> set (take k (accepted d))" by (metis set_take_subset)
    then show ?thesis using that assms(1) by (force simp: pending_def)
  qed
  then show "dp_loc d \<noteq> Left" and "dp_state d \<noteq> THREAD_STATE_TERMINATED"
    using assms(2) by (auto simp: leaves_after_final_def)
qed

lemma steps_to_thread:
  assumes "pending k d" and "leaves_after_final d" and "dp_loc d \<noteq> Waiting" and "length (dp_done (act Thread d)) \<le> k"
  shows "steps_to k (act Thread d) < steps_to k d"
proof (cases "dp_loc d")
  case (Executing ts)
  show ?thesis
  proof (cases ts)
    case Nil
    then show ?thesis using Executing by (simp add: steps_to_def threadMain_step_def)
  next
    case (Cons t ts')
    define n where "n = length (dp_done d)"
    have e: "length (dp_done (act Thread d)) = Suc n" "dp_loc (act Thread d) = Executing ts'"
      using Executing Cons by (simp_all add: threadMain_step_def execute_def notify_one_def n_def Let_def)
    have "k - Suc n < k - n" using assms(4) e by simp
    then show ?thesis using Executing Cons e assms(4) by (auto simp: steps_to_def n_def [symmetric])
  qed
qed (use pending_not_left [OF assms(1,2)] assms in \<open>auto simp: steps_to_def pending_def threadMain_step_def take_tasks_def accepted_def at_hand_def\<close>)

lemma steps_to_signal: "dp_loc d = Waiting \<Longrightarrow> enabled Signal d \<Longrightarrow> steps_to k (act Signal d) < steps_to k d"
  by (simp add: steps_to_def dispatcher_defs)

lemma steps_to_other: "a \<noteq> Thread \<Longrightarrow> steps_to k (act a d) \<le> steps_to k d"
  by (cases a) (auto simp: steps_to_def dispatcher_defs split: location.splits)

lemma wakes_only: "a \<noteq> Thread \<Longrightarrow> dp_loc (act a d) = dp_loc d \<or> dp_loc d = Waiting \<and> dp_loc (act a d) = Woken"
  by (cases a) (auto simp: dispatcher_defs)

lemma woken_lower: "dp_loc d = Waiting \<Longrightarrow> dp_loc (act a d) = Woken \<Longrightarrow> steps_to k (act a d) < steps_to k d"
  by (cases a) (auto simp: steps_to_def dispatcher_defs split: if_splits)

lemma pending_act:
  assumes "pending k d" and "length (dp_done (act a d)) \<le> k"
  shows "pending k (act a d)"
  using assms by (simp add: pending_def accepted_act)

lemma run_reachable: "dispatcher_run acts run \<Longrightarrow> dispatcher_reachable (run i)"
proof (induction i)
  case 0
  then show ?case by (auto simp: dispatcher_run_def intro: started)
next
  case (Suc i)
  then show ?case using acted [of "run i" "acts i"] by (simp add: dispatcher_run_def)
qed

lemma accepted_prefix:
  assumes "dispatcher_run acts run" and "i \<le> j"
  shows "\<exists>ts. accepted (run j) = accepted (run i) @ ts"
  using assms(2)
proof (induction j rule: dec_induct)
  case (step j)
  then show ?case using assms(1) by (auto simp: dispatcher_run_def accepted_act)
qed simp

text \<open>As long as the task is not reached, the steps to it do not grow, and some action lowers them.\<close>

lemma not_reached:
  assumes r: "dispatcher_run acts run" and "pending k (run i)" and never: "\<forall>j. length (dp_done (run j)) \<le> k" and "i \<le> j"
  shows "pending k (run j) \<and> steps_to k (run j) \<le> steps_to k (run i)"
  using assms(4)
proof (induction j rule: dec_induct)
  case base
  then show ?case using assms(2) by simp
next
  case (step j)
  have e: "run (Suc j) = act (acts j) (run j)" and en: "enabled (acts j) (run j)" using r by (simp_all add: dispatcher_run_def)
  have d: "length (dp_done (act (acts j) (run j))) \<le> k" using never e by metis
  have l: "leaves_after_final (run j)" using reachable_inv [OF run_reachable [OF r]] by blast
  have "steps_to k (run (Suc j)) \<le> steps_to k (run j)"
    using steps_to_thread [of k "run j"] steps_to_other [of "acts j" k "run j"] step.IH l d en e by (cases "acts j = Thread") auto
  then show ?case using step.IH pending_act [OF _ d] e by auto
qed

lemma lowered:
  assumes r: "dispatcher_run acts run" and f: "fair acts run" and p: "pending k (run i)"
    and never: "\<forall>j. length (dp_done (run j)) \<le> k"
  shows "\<exists>j \<ge> i. steps_to k (run j) < steps_to k (run i)"
proof (rule ccontr)
  assume no: "\<not> ?thesis"
  have e: "run (Suc j) = act (acts j) (run j)" and en: "enabled (acts j) (run j)" for j using r by (simp_all add: dispatcher_run_def)
  note inv = reachable_inv [OF run_reachable [OF r]]
  have same: "pending k (run j) \<and> steps_to k (run j) = steps_to k (run i)" if "i \<le> j" for j
    using not_reached [OF r p never that] no that by (metis le_neq_implies_less)
  have thread: "acts j \<noteq> Thread" if "i \<le> j" for j
  proof
    assume a: "acts j = Thread"
    have "steps_to k (act Thread (run j)) < steps_to k (run j)"
      using a same [OF that] inv en [of j] never [rule_format, of "Suc j"] e [of j] by (intro steps_to_thread) auto
    then show False using same [OF that] same [of "Suc j"] that a e [of j] by simp
  qed
  show False
  proof (cases "dp_loc (run i) = Waiting")
    case True
    have stay: "dp_loc (run j) = Waiting" if "i \<le> j" for j
      using that
    proof (induction j rule: dec_induct)
      case base
      then show ?case by (rule True)
    next
      case (step j)
      have "steps_to k (act (acts j) (run j)) = steps_to k (run j)"
        using same [of j] same [of "Suc j"] step.hyps(1) e [of j] by simp
      then show ?case
        using wakes_only [OF thread [OF step.hyps(1)], of "run j"] woken_lower [of "run j" "acts j" k] step.IH e [of j] by force
    qed
    have "dp_tasks (run i) \<noteq> []" using p True by (auto simp: pending_def accepted_def at_hand_def)
    then have "enabled Signal (run i)" using inv [of i] True by (simp add: signal_owed_def)
    then obtain j where j: "i \<le> j" "acts j = Signal" using f by (auto simp: fair_def)
    have "steps_to k (run (Suc j)) < steps_to k (run j)"
      using steps_to_signal [OF stay [OF j(1)]] en [of j] e [of j] j(2) by simp
    then show False using same [of j] same [of "Suc j"] j(1) by simp
  next
    case False
    then have "enabled Thread (run i)" using pending_not_left(1) [OF p] inv [of i] by simp
    then obtain j where "i \<le> j" "acts j = Thread" using f by (auto simp: fair_def)
    then show False using thread by blast
  qed
qed

section \<open>Properties\<close>

text \<open>
  C38. No signal is lost: in every reachable state in which the thread waits although there are tasks,
  some thread still owes it a signal. A task is left out only when it has expired, and after the loop
  is left the task of \<^verbatim>\<open>shutdown\<close> has run.
\<close>

theorem no_signal_is_lost:
  assumes "dispatcher_reachable d"
  shows "(dp_loc d = Waiting \<and> dp_tasks d \<noteq> [] \<longrightarrow> dp_signals d > 0)
    \<and> (dp_loc d = Left \<longrightarrow> (\<exists>t. tk_final t \<and> (t, True) \<in> set (dp_done d)))
    \<and> dp_cycle d = length (filter snd (dp_done d))
    \<and> (\<forall>(t, ran) \<in> set (dp_done d). \<not> ran \<longrightarrow> tk_expiration t \<noteq> 0 \<and> tk_expiration t < dp_now d)"
  using reachable_inv [OF assms] by (auto simp: signal_owed_def leaves_after_final_def done_right_def)

text \<open>
  Tasks are taken in the order in which they were added: every step, of whichever thread, extends
  the sequence of tasks taken, at hand and waiting by the task it adds, if it adds one, and the tasks
  taken are a prefix of that sequence. A task added while the dispatcher is not running is refused.
\<close>

theorem tasks_in_order:
  "accepted (act a d) = accepted d @ accepts a d \<and> prefix (map fst (dp_done d)) (accepted d)
    \<and> dp_refused (act a d) = dp_refused d
      @ (case a of Add t _ \<Rightarrow> if dp_state d = THREAD_STATE_RUNNING then [] else [t] | _ \<Rightarrow> [])"
proof -
  have "dp_refused (act a d) = dp_refused d
      @ (case a of Add t _ \<Rightarrow> if dp_state d = THREAD_STATE_RUNNING then [] else [t] | _ \<Rightarrow> [])"
    by (cases a) (auto simp: dispatcher_defs split: location.splits list.splits)
  then show ?thesis by (simp add: accepted_act) (simp add: accepted_def)
qed

text \<open>
  C13. Every accepted task is taken in the end: in a fair run, a task in the sequence that has no task
  of \<^verbatim>\<open>shutdown\<close> before it is reached by the thread, in its place, however the other
  threads add tasks and whenever their signals arrive.
\<close>

theorem accepted_task_is_taken:
  assumes "dispatcher_run acts run" and "fair acts run" and "k < length (accepted (run i))"
    and "\<forall>t \<in> set (take k (accepted (run i))). \<not> tk_final t"
  shows "\<exists>j. k < length (dp_done (run j)) \<and> fst (dp_done (run j) ! k) = accepted (run i) ! k"
proof -
  have "\<exists>j. k < length (dp_done (run j))"
  proof (rule ccontr)
    assume "\<not> ?thesis"
    then have never: "\<forall>j. length (dp_done (run j)) \<le> k" by (simp add: not_less)
    then have start: "pending k (run i)" using assms(3,4) by (simp add: pending_def)
    have "\<not> pending k (run j)" for j
    proof (induction "steps_to k (run j)" arbitrary: j rule: less_induct)
      case less
      show ?case
      proof
        assume p: "pending k (run j)"
        obtain j' where "j \<le> j'" "steps_to k (run j') < steps_to k (run j)" using lowered [OF assms(1,2) p never] by blast
        then show False using less not_reached [OF assms(1) p never] by blast
      qed
    qed
    then show False using start by blast
  qed
  then obtain j where j: "k < length (dp_done (run j))" by blast
  have "accepted (run j) ! k = fst (dp_done (run j) ! k)" using j by (simp add: accepted_def nth_append)
  moreover have "accepted (run j) ! k = accepted (run i) ! k"
  proof (cases "i \<le> j")
    case True
    then obtain ts where "accepted (run j) = accepted (run i) @ ts" using accepted_prefix [OF assms(1)] by blast
    then show ?thesis using assms(3) by (simp add: nth_append)
  next
    case False
    then obtain ts where "accepted (run i) = accepted (run j) @ ts" using accepted_prefix [OF assms(1), of j i] by auto
    then show ?thesis using j by (simp add: nth_append accepted_def)
  qed
  ultimately show ?thesis using j by metis
qed

subsection \<open>An example\<close>

primrec run_of :: "(nat \<Rightarrow> action) \<Rightarrow> nat \<Rightarrow> dispatcher" where
  "run_of acts 0 = dispatcher_start 5"
| "run_of acts (Suc i) = act (acts i) (run_of acts i)"

definition example_acts :: "nat \<Rightarrow> action" where
  "example_acts i = (if i = 2 then Add (create_task 7) False else if i = 3 then Signal else if i < 9 then Thread else Tick)"

lemma example_run:
  "run_of example_acts 3 = (dispatcher_start 5)\<lparr>dp_loc := Waiting, dp_tasks := [create_task 7], dp_signals := 1\<rparr>"
  "run_of example_acts 4 = (dispatcher_start 5)\<lparr>dp_loc := Woken, dp_tasks := [create_task 7]\<rparr>"
  "dp_signals (run_of example_acts 5) = 0" "dp_signals (run_of example_acts 6) = 0"
  "dp_signals (run_of example_acts 7) = 0" "dp_signals (run_of example_acts 8) = 0"
  "run_of example_acts 9 = (dispatcher_start 5)\<lparr>dp_loc := Waiting, dp_cycle := 1, dp_done := [(create_task 7, True)]\<rparr>"
  by (simp_all add: eval_nat_numeral example_acts_def dispatcher_start_def dispatcher_defs create_task_def hasExpired_def)

lemma example_end: "dp_loc (run_of example_acts (9 + n)) = Waiting \<and> dp_signals (run_of example_acts (9 + n)) = 0"
proof (induction n)
  case 0
  then show ?case by (simp add: example_run(7) dispatcher_start_def)
next
  case (Suc n)
  have "example_acts (9 + n) = Tick" by (simp add: example_acts_def)
  then have "run_of example_acts (9 + Suc n) = (run_of example_acts (9 + n))\<lparr>dp_now := Suc (dp_now (run_of example_acts (9 + n)))\<rparr>"
    unfolding add_Suc_right run_of.simps by simp
  then show ?case using Suc by (simp del: run_of.simps)
qed

lemma example_cases: "i \<le> 3 \<or> (i = 4 \<or> i = 5 \<or> i = 6 \<or> i = 7 \<or> i = 8) \<or> (\<exists>n. i = 9 + (n :: nat))"
  using le_Suc_ex [of 9 i] by arith

lemma example_enabled: "enabled (example_acts i) (run_of example_acts i)"
proof -
  have "i = 0 \<or> i = 1 \<or> i = 2 \<or> i = 3 \<or> i = 4 \<or> i = 5 \<or> i = 6 \<or> i = 7 \<or> i = 8 \<or> 9 \<le> i" by arith
  then show ?thesis
    by (elim disjE) (simp_all add: eval_nat_numeral example_acts_def dispatcher_start_def dispatcher_defs create_task_def hasExpired_def)
qed

lemma example_fair: "dispatcher_run example_acts (run_of example_acts) \<and> fair example_acts (run_of example_acts)"
proof -
  have "(enabled Thread (run_of example_acts i) \<longrightarrow> (\<exists>j \<ge> i. example_acts j = Thread))
      \<and> (enabled Signal (run_of example_acts i) \<longrightarrow> (\<exists>j \<ge> i. example_acts j = Signal))" for i
  proof -
    consider "i \<le> 3" | "i = 4 \<or> i = 5 \<or> i = 6 \<or> i = 7 \<or> i = 8" | n where "i = 9 + n"
      by (metis (no_types) example_cases)
    then show ?thesis
    proof cases
      case 1
      have "example_acts 8 = Thread" "example_acts 3 = Signal" by (simp_all add: example_acts_def)
      then show ?thesis using 1 by (meson le_trans numeral_le_iff semiring_norm)
    next
      case 2
      have "dp_signals (run_of example_acts i) = 0" using 2 example_run(2-6) by (auto simp: dispatcher_start_def)
      moreover have "\<exists>j \<ge> i. example_acts j = Thread" using 2 by (intro exI [of _ 8]) (auto simp: example_acts_def)
      ultimately show ?thesis by simp
    next
      case 3
      then show ?thesis using example_end [of n] by simp
    qed
  qed
  then show ?thesis using example_enabled by (auto simp: dispatcher_run_def fair_def)
qed

theorem accepted_task_is_taken_witness:
  "\<exists>j. 0 < length (dp_done (run_of example_acts j)) \<and> fst (dp_done (run_of example_acts j) ! 0) = create_task 7"
  using accepted_task_is_taken [of example_acts "run_of example_acts" 0 3] example_fair
  by (simp add: example_run(1) accepted_def at_hand_def dispatcher_start_def)

lemma example_reachable: "dispatcher_reachable (run_of example_acts i)"
  using example_fair by (intro run_reachable [of example_acts]) simp

text \<open>A run in which a task expires before the thread takes it, and which ends with \<open>shutdown\<close>.\<close>

fun all_enabled :: "action list \<Rightarrow> dispatcher \<Rightarrow> bool" where
  "all_enabled [] d \<longleftrightarrow> True"
| "all_enabled (a # as) d \<longleftrightarrow> enabled a d \<and> all_enabled as (act a d)"

lemma reachable_fold: "dispatcher_reachable d \<Longrightarrow> all_enabled as d \<Longrightarrow> dispatcher_reachable (fold act as d)"
  by (induction as arbitrary: d) (auto intro: acted)

definition late_task :: task where
  "late_task = create_expiring_task 5 1 8"

definition last_acts :: "action list" where
  "last_acts = [Add late_task False, Tick, Tick, Thread, Thread, Thread, Shutdown, Thread, Thread, Thread, Thread, Thread, Thread]"

lemma last_run:
  "all_enabled last_acts (dispatcher_start 5)"
  "fold act last_acts (dispatcher_start 5) = (dispatcher_start 7)\<lparr>dp_state := THREAD_STATE_TERMINATED, dp_cycle := 1,
     dp_loc := Left, dp_signals := 1, dp_done := [(late_task, False), (final_task, True)]\<rparr>"
  by (simp_all add: last_acts_def late_task_def dispatcher_start_def dispatcher_defs create_expiring_task_def
      hasExpired_def final_task_def)

text \<open>The thread waits, a task has been added and its signal is on the way; and a run in which the
  thread has left, after it skipped an expired task.\<close>

theorem no_signal_is_lost_witness:
  "dp_loc (run_of example_acts 3) = Waiting \<and> dp_tasks (run_of example_acts 3) = [create_task 7]
     \<and> dp_signals (run_of example_acts 3) > 0
     \<and> dp_loc (fold act last_acts (dispatcher_start 5)) = Left
     \<and> (\<exists>t. tk_final t \<and> (t, True) \<in> set (dp_done (fold act last_acts (dispatcher_start 5))))
     \<and> tk_expiration late_task < dp_now (fold act last_acts (dispatcher_start 5))"
proof -
  have e: "dp_loc (run_of example_acts 3) = Waiting" "dp_tasks (run_of example_acts 3) = [create_task 7]"
    by (simp_all only: example_run(1)) simp_all
  have "dp_signals (run_of example_acts 3) > 0" using no_signal_is_lost [OF example_reachable [of 3]] e by (simp del: run_of.simps)
  moreover note no_signal_is_lost [OF reachable_fold [OF started last_run(1)]]
  moreover have "dp_loc (fold act last_acts (dispatcher_start 5)) = Left"
    and "(late_task, False) \<in> set (dp_done (fold act last_acts (dispatcher_start 5)))"
    by (simp_all only: last_run(2)) simp_all
  ultimately show ?thesis using e by fast
qed

end
