(* ===== verification/Item_Attributes.thy ===== *)
theory Item_Attributes
  imports File_Loader String_Tools
begin

text \<open>
  The attributes of an item and the form in which they are saved: \<^verbatim>\<open>ItemAttributes\<close> of
  \<^verbatim>\<open>src/src/item.h\<close> and \<^verbatim>\<open>src/src/item.cpp\<close>, with
  \<^verbatim>\<open>serializeAttr\<close>, \<^verbatim>\<open>readAttr\<close> and \<^verbatim>\<open>unserializeAttr\<close>
  over the property streams of \<open>File_Loader\<close>.
\<close>

section \<open>Types of attributes\<close>

datatype itemAttrTypes = ITEM_ATTRIBUTE_NONE | ITEM_ATTRIBUTE_ACTIONID | ITEM_ATTRIBUTE_UNIQUEID | ITEM_ATTRIBUTE_DESCRIPTION | ITEM_ATTRIBUTE_TEXT
   | ITEM_ATTRIBUTE_DATE | ITEM_ATTRIBUTE_WRITER | ITEM_ATTRIBUTE_NAME | ITEM_ATTRIBUTE_ARTICLE
   | ITEM_ATTRIBUTE_PLURALNAME | ITEM_ATTRIBUTE_WEIGHT | ITEM_ATTRIBUTE_ATTACK | ITEM_ATTRIBUTE_DEFENSE
   | ITEM_ATTRIBUTE_EXTRADEFENSE | ITEM_ATTRIBUTE_ARMOR | ITEM_ATTRIBUTE_HITCHANCE | ITEM_ATTRIBUTE_SHOOTRANGE
   | ITEM_ATTRIBUTE_OWNER | ITEM_ATTRIBUTE_DURATION | ITEM_ATTRIBUTE_DECAYSTATE | ITEM_ATTRIBUTE_CORPSEOWNER
   | ITEM_ATTRIBUTE_CHARGES | ITEM_ATTRIBUTE_FLUIDTYPE | ITEM_ATTRIBUTE_DOORID | ITEM_ATTRIBUTE_SPECIAL
   | ITEM_ATTRIBUTE_BLINK | ITEM_ATTRIBUTE_POKEMONHOLDER | ITEM_ATTRIBUTE_POKEMONHOLDERINFO
   | ITEM_ATTRIBUTE_POKEMONHOLDERCREATUREID | ITEM_ATTRIBUTE_UNIQUE_ITEM | ITEM_ATTRIBUTE_AUTOOPEN
   | ITEM_ATTRIBUTE_HELDX | ITEM_ATTRIBUTE_HELDY | ITEM_ATTRIBUTE_HELDU | ITEM_ATTRIBUTE_CUSTOM
   | ITEM_ATTRIBUTE_DECAYTO | ITEM_ATTRIBUTE_WRAPID

text \<open>The number of the bit of a type; \<^verbatim>\<open>ITEM_ATTRIBUTE_NONE\<close> has none.\<close>

primrec attr_index :: "itemAttrTypes \<Rightarrow> nat option" where
  "attr_index ITEM_ATTRIBUTE_NONE = None"
| "attr_index ITEM_ATTRIBUTE_ACTIONID = Some 0"
| "attr_index ITEM_ATTRIBUTE_UNIQUEID = Some 1"
| "attr_index ITEM_ATTRIBUTE_DESCRIPTION = Some 2"
| "attr_index ITEM_ATTRIBUTE_TEXT = Some 3"
| "attr_index ITEM_ATTRIBUTE_DATE = Some 4"
| "attr_index ITEM_ATTRIBUTE_WRITER = Some 5"
| "attr_index ITEM_ATTRIBUTE_NAME = Some 6"
| "attr_index ITEM_ATTRIBUTE_ARTICLE = Some 7"
| "attr_index ITEM_ATTRIBUTE_PLURALNAME = Some 8"
| "attr_index ITEM_ATTRIBUTE_WEIGHT = Some 9"
| "attr_index ITEM_ATTRIBUTE_ATTACK = Some 10"
| "attr_index ITEM_ATTRIBUTE_DEFENSE = Some 11"
| "attr_index ITEM_ATTRIBUTE_EXTRADEFENSE = Some 12"
| "attr_index ITEM_ATTRIBUTE_ARMOR = Some 13"
| "attr_index ITEM_ATTRIBUTE_HITCHANCE = Some 14"
| "attr_index ITEM_ATTRIBUTE_SHOOTRANGE = Some 15"
| "attr_index ITEM_ATTRIBUTE_OWNER = Some 16"
| "attr_index ITEM_ATTRIBUTE_DURATION = Some 17"
| "attr_index ITEM_ATTRIBUTE_DECAYSTATE = Some 18"
| "attr_index ITEM_ATTRIBUTE_CORPSEOWNER = Some 19"
| "attr_index ITEM_ATTRIBUTE_CHARGES = Some 20"
| "attr_index ITEM_ATTRIBUTE_FLUIDTYPE = Some 21"
| "attr_index ITEM_ATTRIBUTE_DOORID = Some 22"
| "attr_index ITEM_ATTRIBUTE_SPECIAL = Some 23"
| "attr_index ITEM_ATTRIBUTE_BLINK = Some 24"
| "attr_index ITEM_ATTRIBUTE_POKEMONHOLDER = Some 25"
| "attr_index ITEM_ATTRIBUTE_POKEMONHOLDERINFO = Some 26"
| "attr_index ITEM_ATTRIBUTE_POKEMONHOLDERCREATUREID = Some 27"
| "attr_index ITEM_ATTRIBUTE_UNIQUE_ITEM = Some 28"
| "attr_index ITEM_ATTRIBUTE_AUTOOPEN = Some 29"
| "attr_index ITEM_ATTRIBUTE_HELDX = Some 30"
| "attr_index ITEM_ATTRIBUTE_HELDY = Some 31"
| "attr_index ITEM_ATTRIBUTE_HELDU = Some 32"
| "attr_index ITEM_ATTRIBUTE_CUSTOM = Some 33"
| "attr_index ITEM_ATTRIBUTE_DECAYTO = Some 34"
| "attr_index ITEM_ATTRIBUTE_WRAPID = Some 35"

definition attr_flag :: "itemAttrTypes \<Rightarrow> u64" where
  "attr_flag type = (case attr_index type of None \<Rightarrow> 0 | Some n \<Rightarrow> push_bit n 1)"

definition flag_union :: "itemAttrTypes list \<Rightarrow> u64" where
  "flag_union types = foldr (OR) (map attr_flag types) 0"

definition intAttributeTypes :: u64 where
  "intAttributeTypes = flag_union
     [ITEM_ATTRIBUTE_ACTIONID, ITEM_ATTRIBUTE_UNIQUEID, ITEM_ATTRIBUTE_DATE, ITEM_ATTRIBUTE_WEIGHT
      , ITEM_ATTRIBUTE_ATTACK, ITEM_ATTRIBUTE_DEFENSE, ITEM_ATTRIBUTE_EXTRADEFENSE, ITEM_ATTRIBUTE_ARMOR
      , ITEM_ATTRIBUTE_HITCHANCE, ITEM_ATTRIBUTE_SHOOTRANGE, ITEM_ATTRIBUTE_OWNER, ITEM_ATTRIBUTE_DURATION
      , ITEM_ATTRIBUTE_DECAYSTATE, ITEM_ATTRIBUTE_CORPSEOWNER, ITEM_ATTRIBUTE_CHARGES, ITEM_ATTRIBUTE_FLUIDTYPE
      , ITEM_ATTRIBUTE_DOORID, ITEM_ATTRIBUTE_POKEMONHOLDERCREATUREID, ITEM_ATTRIBUTE_UNIQUE_ITEM
      , ITEM_ATTRIBUTE_AUTOOPEN, ITEM_ATTRIBUTE_HELDX, ITEM_ATTRIBUTE_HELDY, ITEM_ATTRIBUTE_HELDU
      , ITEM_ATTRIBUTE_BLINK, ITEM_ATTRIBUTE_DECAYTO, ITEM_ATTRIBUTE_WRAPID]"

definition stringAttributeTypes :: u64 where
  "stringAttributeTypes = flag_union
     [ITEM_ATTRIBUTE_DESCRIPTION, ITEM_ATTRIBUTE_TEXT, ITEM_ATTRIBUTE_WRITER, ITEM_ATTRIBUTE_NAME
      , ITEM_ATTRIBUTE_ARTICLE, ITEM_ATTRIBUTE_PLURALNAME, ITEM_ATTRIBUTE_SPECIAL, ITEM_ATTRIBUTE_POKEMONHOLDER
      , ITEM_ATTRIBUTE_POKEMONHOLDERINFO]"

definition isIntAttrType :: "itemAttrTypes \<Rightarrow> bool" where
  "isIntAttrType type \<longleftrightarrow> attr_flag type AND intAttributeTypes \<noteq> 0"

definition isStrAttrType :: "itemAttrTypes \<Rightarrow> bool" where
  "isStrAttrType type \<longleftrightarrow> attr_flag type AND stringAttributeTypes \<noteq> 0"

definition isCustomAttrType :: "itemAttrTypes \<Rightarrow> bool" where
  "isCustomAttrType type \<longleftrightarrow> attr_flag type AND attr_flag ITEM_ATTRIBUTE_CUSTOM = attr_flag type"

definition attr_types :: "itemAttrTypes list" where
  "attr_types = [ITEM_ATTRIBUTE_ACTIONID, ITEM_ATTRIBUTE_UNIQUEID, ITEM_ATTRIBUTE_DESCRIPTION, ITEM_ATTRIBUTE_TEXT
      , ITEM_ATTRIBUTE_DATE, ITEM_ATTRIBUTE_WRITER, ITEM_ATTRIBUTE_NAME, ITEM_ATTRIBUTE_ARTICLE
      , ITEM_ATTRIBUTE_PLURALNAME, ITEM_ATTRIBUTE_WEIGHT, ITEM_ATTRIBUTE_ATTACK, ITEM_ATTRIBUTE_DEFENSE
      , ITEM_ATTRIBUTE_EXTRADEFENSE, ITEM_ATTRIBUTE_ARMOR, ITEM_ATTRIBUTE_HITCHANCE, ITEM_ATTRIBUTE_SHOOTRANGE
      , ITEM_ATTRIBUTE_OWNER, ITEM_ATTRIBUTE_DURATION, ITEM_ATTRIBUTE_DECAYSTATE, ITEM_ATTRIBUTE_CORPSEOWNER
      , ITEM_ATTRIBUTE_CHARGES, ITEM_ATTRIBUTE_FLUIDTYPE, ITEM_ATTRIBUTE_DOORID, ITEM_ATTRIBUTE_SPECIAL
      , ITEM_ATTRIBUTE_BLINK, ITEM_ATTRIBUTE_POKEMONHOLDER, ITEM_ATTRIBUTE_POKEMONHOLDERINFO
      , ITEM_ATTRIBUTE_POKEMONHOLDERCREATUREID, ITEM_ATTRIBUTE_UNIQUE_ITEM, ITEM_ATTRIBUTE_AUTOOPEN
      , ITEM_ATTRIBUTE_HELDX, ITEM_ATTRIBUTE_HELDY, ITEM_ATTRIBUTE_HELDU, ITEM_ATTRIBUTE_CUSTOM
      , ITEM_ATTRIBUTE_DECAYTO, ITEM_ATTRIBUTE_WRAPID]"

lemma attr_index_nth: "attr_index type = Some n \<Longrightarrow> attr_types ! n = type \<and> n < 64"
  by (cases type) (auto simp: attr_types_def)

lemma attr_index_inject: "attr_index a = Some n \<Longrightarrow> attr_index b = Some n \<Longrightarrow> a = b"
  using attr_index_nth by metis

lemma attr_index_None: "attr_index type = None \<longleftrightarrow> type = ITEM_ATTRIBUTE_NONE"
  by (cases type) simp_all

lemma bit_attr_flag: "bit (attr_flag type) n \<longleftrightarrow> attr_index type = Some n"
  using attr_index_nth [of type] by (auto simp: attr_flag_def bit_simps split: option.splits)

lemma flag_and: "attr_flag type AND w \<noteq> 0 \<longleftrightarrow> (\<exists>n. attr_index type = Some n \<and> bit w n)"
proof -
  have "attr_flag type AND w \<noteq> 0 \<longleftrightarrow> (\<exists>n. bit (attr_flag type AND w) n)" by (metis bit_eq_iff bit_0_eq bot_apply bot_bool_def)
  then show ?thesis by (simp add: bit_and_iff bit_attr_flag)
qed

lemma bit_flag_union: "bit (flag_union types) n \<longleftrightarrow> (\<exists>type \<in> set types. attr_index type = Some n)"
  by (induction types) (auto simp: flag_union_def bit_or_iff bit_attr_flag)

lemma flag_and_union: "attr_flag type AND flag_union types \<noteq> 0 \<longleftrightarrow> type \<in> set types \<and> type \<noteq> ITEM_ATTRIBUTE_NONE"
proof (cases "attr_index type")
  case None
  then show ?thesis unfolding flag_and by (simp add: attr_index_None)
next
  case (Some n)
  then have "type \<noteq> ITEM_ATTRIBUTE_NONE" by auto
  moreover have "(\<exists>t \<in> set types. attr_index t = Some n) \<longleftrightarrow> type \<in> set types"
    using Some attr_index_inject by blast
  ultimately show ?thesis unfolding flag_and bit_flag_union using Some by simp
qed

lemmas attr_kinds = isIntAttrType_def isStrAttrType_def intAttributeTypes_def stringAttributeTypes_def flag_and_union

section \<open>Values\<close>

text \<open>The value of a custom attribute, a variant; \<open>CustomDouble\<close> holds the bits of the number.\<close>

datatype custom_value = CustomBlank | CustomString string | CustomInt u64 | CustomDouble u64 | CustomBool bool

text \<open>The union of an attribute. An integer is a signed 64 bit number, by its bits; the map of the
  custom attributes is unordered, the list gives the order in which it is iterated.\<close>

datatype attr_value = AttrInteger u64 | AttrString string | AttrCustom "(string \<times> custom_value) list"

record item_attributes =
  ia_list :: "(itemAttrTypes \<times> attr_value) list"
  ia_bits :: u64

definition no_attributes :: item_attributes where
  "no_attributes = \<lparr>ia_list = [], ia_bits = 0\<rparr>"

section \<open>Operations\<close>

definition attr_hasAttribute :: "itemAttrTypes \<Rightarrow> item_attributes \<Rightarrow> bool" where
  "attr_hasAttribute type a \<longleftrightarrow> attr_flag type AND ia_bits a \<noteq> 0"

definition getExistingAttr :: "itemAttrTypes \<Rightarrow> item_attributes \<Rightarrow> attr_value option" where
  "getExistingAttr type a = (if attr_hasAttribute type a then map_of (ia_list a) type else None)"

text \<open>The reference that \<open>getAttr\<close> gives is an index; a new attribute has a union of zeros.\<close>

definition getAttr :: "itemAttrTypes \<Rightarrow> item_attributes \<Rightarrow> nat \<times> item_attributes" where
  "getAttr type a =
     (case (if attr_hasAttribute type a then List.find (\<lambda>i. fst (ia_list a ! i) = type) [0..<length (ia_list a)] else None) of
       Some i \<Rightarrow> (i, a)
     | None \<Rightarrow> (length (ia_list a), a\<lparr>ia_bits := ia_bits a OR attr_flag type, ia_list := ia_list a @ [(type, AttrInteger 0)]\<rparr>))"

definition assign_attr :: "itemAttrTypes \<Rightarrow> (attr_value \<Rightarrow> attr_value) \<Rightarrow> item_attributes \<Rightarrow> item_attributes" where
  "assign_attr type f a =
     (let (i, a) = getAttr type a; (t, v) = ia_list a ! i in a\<lparr>ia_list := (ia_list a)[i := (t, f v)]\<rparr>)"

text \<open>Reading a member of the union; \<open>attrs_ok\<close> below shows that it is always the one written.\<close>

definition attr_integer :: "attr_value \<Rightarrow> u64" where
  "attr_integer v = (case v of AttrInteger n \<Rightarrow> n | _ \<Rightarrow> 0)"

definition attr_string :: "attr_value \<Rightarrow> string" where
  "attr_string v = (case v of AttrString s \<Rightarrow> s | _ \<Rightarrow> [])"

definition attr_getStrAttr :: "itemAttrTypes \<Rightarrow> item_attributes \<Rightarrow> string" where
  "attr_getStrAttr type a =
     (if \<not> isStrAttrType type then []
      else case getExistingAttr type a of None \<Rightarrow> [] | Some v \<Rightarrow> attr_string v)"

definition attr_setStrAttr :: "itemAttrTypes \<Rightarrow> string \<Rightarrow> item_attributes \<Rightarrow> item_attributes" where
  "attr_setStrAttr type value a =
     (if \<not> isStrAttrType type then a
      else if value = [] then a
      else assign_attr type (\<lambda>_. AttrString value) a)"

definition attr_removeAttribute :: "itemAttrTypes \<Rightarrow> item_attributes \<Rightarrow> item_attributes" where
  "attr_removeAttribute type a =
     (if \<not> attr_hasAttribute type a then a
      else
        (let xs = ia_list a;
             xs = (if fst (last xs) = type then butlast xs
                   else case List.find (\<lambda>i. fst (xs ! i) = type) (rev [0..<length xs - 1]) of
                       Some i \<Rightarrow> butlast (xs[i := last xs])
                     | None \<Rightarrow> xs)
         in a\<lparr>ia_list := xs, ia_bits := ia_bits a AND NOT (attr_flag type)\<rparr>))"

definition attr_getIntAttr :: "itemAttrTypes \<Rightarrow> item_attributes \<Rightarrow> u64" where
  "attr_getIntAttr type a =
     (if \<not> isIntAttrType type then 0
      else case getExistingAttr type a of None \<Rightarrow> 0 | Some v \<Rightarrow> attr_integer v)"

definition attr_setIntAttr :: "itemAttrTypes \<Rightarrow> u64 \<Rightarrow> item_attributes \<Rightarrow> item_attributes" where
  "attr_setIntAttr type value a =
     (if \<not> isIntAttrType type then a else assign_attr type (\<lambda>_. AttrInteger value) a)"

definition attr_increaseIntAttr :: "itemAttrTypes \<Rightarrow> u64 \<Rightarrow> item_attributes \<Rightarrow> item_attributes" where
  "attr_increaseIntAttr type value a =
     (if \<not> isIntAttrType type then a else assign_attr type (\<lambda>v. AttrInteger (attr_integer v + value)) a)"

text \<open>Custom attributes: \<^verbatim>\<open>emplace\<close> keeps an entry that is there.\<close>

definition custom_emplace :: "string \<Rightarrow> custom_value \<Rightarrow> (string \<times> custom_value) list \<Rightarrow> (string \<times> custom_value) list" where
  "custom_emplace key value m = (if map_of m key = None then m @ [(key, value)] else m)"

definition custom_erase :: "string \<Rightarrow> (string \<times> custom_value) list \<Rightarrow> (string \<times> custom_value) list" where
  "custom_erase key m = filter (\<lambda>(k, _). k \<noteq> key) m"

definition attr_custom :: "attr_value \<Rightarrow> (string \<times> custom_value) list" where
  "attr_custom v = (case v of AttrCustom m \<Rightarrow> m | _ \<Rightarrow> [])"

definition getCustomAttributeMap :: "item_attributes \<Rightarrow> (string \<times> custom_value) list option" where
  "getCustomAttributeMap a = map_option attr_custom (getExistingAttr ITEM_ATTRIBUTE_CUSTOM a)"

definition attr_getCustomAttribute :: "string \<Rightarrow> item_attributes \<Rightarrow> custom_value option" where
  "attr_getCustomAttribute key a =
     (case getCustomAttributeMap a of Some m \<Rightarrow> map_of m (asLowerCaseString key) | None \<Rightarrow> None)"

definition attr_removeCustomAttribute :: "string \<Rightarrow> item_attributes \<Rightarrow> bool \<times> item_attributes" where
  "attr_removeCustomAttribute key a =
     (case getCustomAttributeMap a of
       Some m \<Rightarrow>
         if map_of m (asLowerCaseString key) \<noteq> None
         then (True, assign_attr ITEM_ATTRIBUTE_CUSTOM (\<lambda>v. AttrCustom (custom_erase (asLowerCaseString key) (attr_custom v))) a)
         else (False, a)
     | None \<Rightarrow> (False, a))"

definition attr_setCustomAttribute :: "string \<Rightarrow> custom_value \<Rightarrow> item_attributes \<Rightarrow> item_attributes" where
  "attr_setCustomAttribute key value a =
     (let key = toLowerCaseString key;
          a = (if attr_hasAttribute ITEM_ATTRIBUTE_CUSTOM a then snd (attr_removeCustomAttribute key a)
               else assign_attr ITEM_ATTRIBUTE_CUSTOM (\<lambda>_. AttrCustom []) a)
      in assign_attr ITEM_ATTRIBUTE_CUSTOM (\<lambda>v. AttrCustom (custom_emplace key value (attr_custom v))) a)"

section \<open>The store of attributes\<close>

text \<open>A value is of the member that belongs to its type.\<close>

definition value_fits :: "itemAttrTypes \<Rightarrow> attr_value \<Rightarrow> bool" where
  "value_fits type v = (case v of
       AttrInteger _ \<Rightarrow> isIntAttrType type
     | AttrString str \<Rightarrow> isStrAttrType type \<and> str \<noteq> []
     | AttrCustom m \<Rightarrow> type = ITEM_ATTRIBUTE_CUSTOM \<and> distinct (map fst m) \<and> (\<forall>k \<in> fst ` set m. asLowerCaseString k = k))"

text \<open>Each type occurs once, and the bits say which types there are.\<close>

definition attrs_ok :: "item_attributes \<Rightarrow> bool" where
  "attrs_ok a \<longleftrightarrow> distinct (map fst (ia_list a)) \<and> (\<forall>(type, v) \<in> set (ia_list a). value_fits type v)
     \<and> ia_bits a = flag_union (map fst (ia_list a))"

lemma attrs_ok_empty: "attrs_ok no_attributes"
  by (simp add: attrs_ok_def no_attributes_def flag_union_def)

lemma none_no_kind: "\<not> isIntAttrType ITEM_ATTRIBUTE_NONE" "\<not> isStrAttrType ITEM_ATTRIBUTE_NONE"
  by (simp_all add: attr_kinds)

lemma fits_not_none: "value_fits type v \<Longrightarrow> type \<noteq> ITEM_ATTRIBUTE_NONE"
  by (auto simp: value_fits_def none_no_kind split: attr_value.splits)

lemma hasAttribute_in: "attrs_ok a \<Longrightarrow> attr_hasAttribute type a \<longleftrightarrow> type \<in> fst ` set (ia_list a)"
proof -
  assume ok: "attrs_ok a"
  then have "attr_hasAttribute type a \<longleftrightarrow> type \<in> set (map fst (ia_list a)) \<and> type \<noteq> ITEM_ATTRIBUTE_NONE"
    unfolding attr_hasAttribute_def attrs_ok_def by (simp only: flag_and_union)
  moreover have "ITEM_ATTRIBUTE_NONE \<notin> set (map fst (ia_list a))"
    using ok fits_not_none by (force simp: attrs_ok_def)
  ultimately show ?thesis by (metis list.set_map)
qed

lemma getExistingAttr_map: "attrs_ok a \<Longrightarrow> getExistingAttr type a = map_of (ia_list a) type"
  using map_of_eq_None_iff [of "ia_list a" type] by (cases "map_of (ia_list a) type") (auto simp: getExistingAttr_def hasAttribute_in)

lemma hasAttribute_existing: "attrs_ok a \<Longrightarrow> attr_hasAttribute type a \<longleftrightarrow> getExistingAttr type a \<noteq> None"
  by (simp add: getExistingAttr_map hasAttribute_in map_of_eq_None_iff)

lemma find_upt:
  assumes "List.find P [0..<n] = Some i"
  shows "i < n \<and> P i \<and> (\<forall>j < i. \<not> P j)"
  using assms by (auto simp: find_Some_iff)

lemma find_key:
  assumes "type \<in> fst ` set xs"
  obtains i where "List.find (\<lambda>i. fst (xs ! i) = type) [0..<length xs] = Some i" and "i < length xs" and "fst (xs ! i) = type"
proof (cases "List.find (\<lambda>i. fst (xs ! i) = type) [0..<length xs]")
  case None
  then have "\<forall>i < length xs. fst (xs ! i) \<noteq> type" by (auto simp: find_None_iff)
  then show ?thesis using assms by (metis image_iff in_set_conv_nth)
next
  case (Some i)
  then show ?thesis using that find_upt [OF Some] by blast
qed

text \<open>Assigning at the index of a key changes the map at the key only.\<close>

lemma update_index:
  assumes "distinct (map fst xs)" and "i < length xs" and "fst (xs ! i) = type"
  shows "map_of (xs[i := (type, v)]) = (map_of xs)(type \<mapsto> v)" and "map fst (xs[i := (type, v)]) = map fst xs"
    and "set (xs[i := (type, v)]) \<subseteq> insert (type, v) (set xs)"
    and "map_of xs type = Some (snd (xs ! i))"
proof -
  show m: "map fst (xs[i := (type, v)]) = map fst xs"
    using assms(2,3) by (simp add: map_update list_update_same_conv)
  show "set (xs[i := (type, v)]) \<subseteq> insert (type, v) (set xs)" by (rule set_update_subset_insert)
  have d: "distinct (map fst (xs[i := (type, v)]))" using assms(1) m by simp
  show at: "map_of xs type = Some (snd (xs ! i))"
    using assms by (metis map_of_is_SomeI nth_mem prod.collapse)
  show "map_of (xs[i := (type, v)]) = (map_of xs)(type \<mapsto> v)"
  proof
    fix t
    show "map_of (xs[i := (type, v)]) t = ((map_of xs)(type \<mapsto> v)) t"
    proof (cases "t = type")
      case True
      have "(type, v) \<in> set (xs[i := (type, v)])" using assms(2) by (metis set_update_memI)
      then show ?thesis using True d by (simp add: map_of_is_SomeI)
    next
      case False
      have "(t, w) \<in> set (xs[i := (type, v)]) \<longleftrightarrow> (t, w) \<in> set xs" for w
      proof
        assume "(t, w) \<in> set (xs[i := (type, v)])"
        then show "(t, w) \<in> set xs" using False set_update_subset_insert [of xs i "(type, v)"] by auto
      next
        assume "(t, w) \<in> set xs"
        then obtain j where j: "j < length xs" "xs ! j = (t, w)" by (meson in_set_conv_nth)
        then have "j \<noteq> i" using False assms(3) by auto
        then show "(t, w) \<in> set (xs[i := (type, v)])" using j by (metis length_list_update nth_list_update_neq nth_mem)
      qed
      then show ?thesis using False d assms(1) by (metis fun_upd_apply map_of_eq_Some_iff option.exhaust)
    qed
  qed
qed

lemma map_of_snoc: "type \<notin> fst ` set xs \<Longrightarrow> map_of (xs @ [(type, v)]) = (map_of xs)(type \<mapsto> v)"
  by (induction xs) (auto simp: fun_upd_twist)

text \<open>What an assignment makes of the map; a new attribute starts as the integer 0.\<close>

lemma assign_attr_map:
  assumes ok: "attrs_ok a" and t: "type \<noteq> ITEM_ATTRIBUTE_NONE"
    and fits: "value_fits type (f (case getExistingAttr type a of Some v \<Rightarrow> v | None \<Rightarrow> AttrInteger 0))"
  shows "attrs_ok (assign_attr type f a)"
    and "getExistingAttr t' (assign_attr type f a) = (if t' = type
      then Some (f (case getExistingAttr type a of Some v \<Rightarrow> v | None \<Rightarrow> AttrInteger 0)) else getExistingAttr t' a)"
proof -
  let ?v = "f (case getExistingAttr type a of Some v \<Rightarrow> v | None \<Rightarrow> AttrInteger 0)"
  have d: "distinct (map fst (ia_list a))" and b: "ia_bits a = flag_union (map fst (ia_list a))"
    and vs: "\<And>t v. (t, v) \<in> set (ia_list a) \<Longrightarrow> value_fits t v" using ok by (auto simp: attrs_ok_def)
  have both: "attrs_ok (assign_attr type f a) \<and> map_of (ia_list (assign_attr type f a)) = (map_of (ia_list a))(type \<mapsto> ?v)"
  proof (cases "type \<in> fst ` set (ia_list a)")
    case True
    then obtain i where i: "List.find (\<lambda>i. fst (ia_list a ! i) = type) [0..<length (ia_list a)] = Some i"
      "i < length (ia_list a)" "fst (ia_list a ! i) = type" by (rule find_key)
    have e: "assign_attr type f a = a\<lparr>ia_list := (ia_list a)[i := (type, ?v)]\<rparr>"
      using True i update_index(4) [OF d i(2,3)]
      by (simp add: assign_attr_def getAttr_def hasAttribute_in [OF ok] getExistingAttr_map [OF ok] split_beta)
    show ?thesis
      unfolding e using update_index(1,2,3) [OF d i(2,3), of ?v] d b vs fits by (auto simp: attrs_ok_def)
  next
    case False
    then have none: "getExistingAttr type a = None" by (simp add: getExistingAttr_def hasAttribute_in [OF ok])
    have "\<not> attr_hasAttribute type a" using False by (simp add: hasAttribute_in [OF ok])
    then have e: "assign_attr type f a = a\<lparr>ia_list := ia_list a @ [(type, ?v)], ia_bits := ia_bits a OR attr_flag type\<rparr>"
      using none by (simp add: assign_attr_def getAttr_def)
    have "flag_union (ts @ [type]) = flag_union ts OR attr_flag type" for ts
      by (induction ts) (simp_all add: flag_union_def or.assoc)
    moreover have "map_of (ia_list a @ [(type, ?v)]) = (map_of (ia_list a))(type \<mapsto> ?v)"
      using False by (rule map_of_snoc)
    ultimately show ?thesis unfolding e using False d b vs fits by (auto simp: attrs_ok_def)
  qed
  then show "attrs_ok (assign_attr type f a)" by blast
  then show "getExistingAttr t' (assign_attr type f a) = (if t' = type then Some ?v else getExistingAttr t' a)"
    using both by (simp add: getExistingAttr_map ok)
qed

lemma map_of_same_set:
  "distinct (map fst xs) \<Longrightarrow> distinct (map fst ys) \<Longrightarrow> set xs = set ys \<Longrightarrow> map_of xs = map_of ys"
  by (rule map_of_inject_set [THEN iffD2])

lemma flag_union_remove:
  assumes "\<And>t. t \<in> set ts' \<longleftrightarrow> t \<in> set ts \<and> t \<noteq> type"
  shows "flag_union ts AND NOT (attr_flag type) = flag_union ts'"
proof (rule bit_word_eqI)
  fix n
  assume "n < LENGTH(64)"
  then show "bit (flag_union ts AND NOT (attr_flag type)) n \<longleftrightarrow> bit (flag_union ts') n"
    using assms attr_index_inject [of type n] by (auto simp: bit_and_iff bit_not_iff bit_attr_flag bit_flag_union)
qed

text \<open>The list after a removal holds the other entries.\<close>

lemma swap_pop:
  assumes "distinct (map fst xs)" and "i < length xs - 1"
  shows "distinct (map fst (butlast (xs[i := last xs])))" and "set (butlast (xs[i := last xs])) = set xs - {xs ! i}"
proof -
  have ne: "xs \<noteq> []" using assms(2) by auto
  have "mset xs = add_mset (last xs) (mset (butlast xs))"
    using ne by (metis append_butlast_last_id mset.simps(1,2) mset_append union_mset_add_mset_right add.right_neutral)
  moreover have "butlast (xs[i := last xs]) = (butlast xs)[i := last xs]" using assms(2) by (auto simp: butlast_list_update)
  moreover have "mset ((butlast xs)[i := last xs]) = add_mset (last xs) (mset (butlast xs) - {#butlast xs ! i#})"
    using assms(2) by (simp add: mset_update)
  moreover have "butlast xs ! i = xs ! i" using assms(2) by (simp add: nth_butlast)
  moreover have "xs ! i \<in># mset (butlast xs)" using assms(2) by (metis length_butlast nth_butlast nth_mem set_mset_mset)
  ultimately have m: "mset (butlast (xs[i := last xs])) = mset xs - {#xs ! i#}" by simp
  also have "\<dots> = mset (remove1 (xs ! i) xs)" by simp
  finally have "mset (butlast (xs[i := last xs])) = mset (remove1 (xs ! i) xs)" .
  moreover have "distinct xs" using assms(1) by (simp add: distinct_map)
  ultimately show "set (butlast (xs[i := last xs])) = set xs - {xs ! i}" by (metis mset_eq_setD set_remove1_eq)
  have "mset (map fst (butlast (xs[i := last xs]))) = mset (map fst (remove1 (xs ! i) xs))" using m by simp
  moreover have "distinct (map fst (remove1 (xs ! i) xs))" using assms(1) by (metis distinct_map distinct_remove1 inj_on_subset set_remove1_subset)
  ultimately show "distinct (map fst (butlast (xs[i := last xs])))" by (metis mset_eq_imp_distinct_iff)
qed

lemma removeAttribute_list:
  assumes "distinct (map fst xs)" and "(type, v) \<in> set xs"
  defines "ys \<equiv> (if fst (last xs) = type then butlast xs
                   else case List.find (\<lambda>i. fst (xs ! i) = type) (rev [0..<length xs - 1]) of
                       Some i \<Rightarrow> butlast (xs[i := last xs])
                     | None \<Rightarrow> xs)"
  shows "distinct (map fst ys) \<and> set ys = set xs - {(type, v)}"
proof (cases "fst (last xs) = type")
  case True
  have ne: "xs \<noteq> []" using assms(2) by auto
  have "last xs \<in> set xs" using ne by simp
  then have l: "last xs = (type, v)" using True assms(1,2) by (metis eq_key_imp_eq_value prod.collapse)
  have "xs = butlast xs @ [(type, v)]" using ne l by (metis append_butlast_last_id)
  then have "distinct (map fst (butlast xs @ [(type, v)]))" and "set xs = set (butlast xs @ [(type, v)])" using assms(1) by metis+
  moreover from this(1) have "(type, v) \<notin> set (butlast xs)" by (metis distinct_append distinct_map distinct_butlast not_distinct_conv_prefix)
  ultimately show ?thesis using True by (simp add: ys_def)
next
  case False
  obtain j where j: "j < length xs" "xs ! j = (type, v)" using assms(2) by (meson in_set_conv_nth)
  then have "j \<noteq> length xs - 1" using False assms(2) by (metis fst_conv last_conv_nth length_pos_if_in_set length_greater_0_conv)
  then have jl: "j < length xs - 1" using j by simp
  obtain i where f: "List.find (\<lambda>i. fst (xs ! i) = type) (rev [0..<length xs - 1]) = Some i"
    using j jl by (cases "List.find (\<lambda>i. fst (xs ! i) = type) (rev [0..<length xs - 1])") (auto simp: find_None_iff)
  then have i: "i < length xs - 1" "fst (xs ! i) = type" by (auto simp: find_Some_iff rev_nth)
  then have "xs ! i = (type, v)" using assms(1,2) by (metis eq_key_imp_eq_value less_imp_diff_less nth_mem less_diff_conv add_lessD1 prod.collapse)
  then show ?thesis using swap_pop [OF assms(1) i(1)] f False by (simp add: ys_def)
qed

lemma removeAttribute_map:
  assumes ok: "attrs_ok a"
  shows "attrs_ok (attr_removeAttribute type a)"
    and "getExistingAttr t' (attr_removeAttribute type a) = (if t' = type then None else getExistingAttr t' a)"
proof -
  have both: "attrs_ok (attr_removeAttribute type a) \<and> set (ia_list (attr_removeAttribute type a)) = {(t, v) \<in> set (ia_list a). t \<noteq> type}"
  proof (cases "attr_hasAttribute type a")
    case True
    then obtain v where v: "(type, v) \<in> set (ia_list a)" by (auto simp: hasAttribute_in [OF ok])
    have d: "distinct (map fst (ia_list a))" using ok by (simp add: attrs_ok_def)
    let ?b = "attr_removeAttribute type a"
    have l: "distinct (map fst (ia_list ?b)) \<and> set (ia_list ?b) = set (ia_list a) - {(type, v)}"
      using removeAttribute_list [OF d v] True by (simp add: attr_removeAttribute_def Let_def)
    moreover have "set (ia_list a) - {(type, v)} = {(t, v) \<in> set (ia_list a). t \<noteq> type}"
      using d v by (auto dest: eq_key_imp_eq_value)
    ultimately have s: "set (ia_list ?b) = {(t, v) \<in> set (ia_list a). t \<noteq> type}" by simp
    have "ia_bits ?b = flag_union (map fst (ia_list a)) AND NOT (attr_flag type)"
      using True ok by (simp add: attr_removeAttribute_def attrs_ok_def Let_def)
    also have "\<dots> = flag_union (map fst (ia_list ?b))" by (rule flag_union_remove) (force simp: s)
    finally show ?thesis using l s ok by (auto simp: attrs_ok_def)
  next
    case False
    then show ?thesis using ok by (force simp: attr_removeAttribute_def hasAttribute_in [OF ok])
  qed
  then show k: "attrs_ok (attr_removeAttribute type a)" by blast
  have "map_of (ia_list (attr_removeAttribute type a)) t' = Some v \<longleftrightarrow> map_of (ia_list a) t' = Some v \<and> t' \<noteq> type" for v
    using both ok by (auto simp: attrs_ok_def)
  then show "getExistingAttr t' (attr_removeAttribute type a) = (if t' = type then None else getExistingAttr t' a)"
    unfolding getExistingAttr_map [OF ok] getExistingAttr_map [OF k] by (metis not_None_eq)
qed

section \<open>Access by the type\<close>

text \<open>Integers and strings are set and read in the same way; the laws of both accesses.\<close>

locale typed_access =
  fixes kind :: "itemAttrTypes \<Rightarrow> bool"
    and wrap :: "'v \<Rightarrow> attr_value"
    and unwrap :: "attr_value \<Rightarrow> 'v"
    and kept :: "'v \<Rightarrow> bool"
    and default :: 'v
    and set_attr :: "itemAttrTypes \<Rightarrow> 'v \<Rightarrow> item_attributes \<Rightarrow> item_attributes"
    and get_attr :: "itemAttrTypes \<Rightarrow> item_attributes \<Rightarrow> 'v"
  assumes unwrap_wrap: "unwrap (wrap v) = v"
    and wrap_fits: "kind t \<Longrightarrow> kept v \<Longrightarrow> value_fits t (wrap v)"
    and set_is: "set_attr t v a = (if kind t \<and> kept v then assign_attr t (\<lambda>_. wrap v) a else a)"
    and get_is: "get_attr t a = (if kind t then case getExistingAttr t a of None \<Rightarrow> default | Some w \<Rightarrow> unwrap w else default)"
begin

lemma set_ok: "attrs_ok a \<Longrightarrow> attrs_ok (set_attr t v a)"
  using assign_attr_map(1) [of a t "\<lambda>_. wrap v"] wrap_fits [of t v] fits_not_none [of t "wrap v"] by (auto simp: set_is)

lemma set_existing:
  "attrs_ok a \<Longrightarrow> getExistingAttr t' (set_attr t v a) = (if t' = t \<and> kind t \<and> kept v then Some (wrap v) else getExistingAttr t' a)"
  using assign_attr_map(2) [of a t "\<lambda>_. wrap v"] wrap_fits [of t v] fits_not_none [of t "wrap v"] by (auto simp: set_is)

lemma get_set:
  "attrs_ok a \<Longrightarrow> get_attr t' (set_attr t v a) = (if t' = t \<and> kind t \<and> kept v then v else get_attr t' a)"
  by (simp add: get_is set_existing unwrap_wrap)

lemma get_remove:
  "attrs_ok a \<Longrightarrow> get_attr t' (attr_removeAttribute t a) = (if t' = t then default else get_attr t' a)"
  by (simp add: get_is removeAttribute_map(2))

end

interpretation int_access: typed_access isIntAttrType AttrInteger attr_integer "\<lambda>_. True" 0 attr_setIntAttr attr_getIntAttr
  by unfold_locales (simp_all add: attr_integer_def value_fits_def attr_setIntAttr_def attr_getIntAttr_def)

interpretation str_access: typed_access isStrAttrType AttrString attr_string "\<lambda>str. str \<noteq> []" "[]" attr_setStrAttr attr_getStrAttr
  by unfold_locales (simp_all add: attr_string_def value_fits_def attr_setStrAttr_def attr_getStrAttr_def)

lemma increase_ok:
  assumes "attrs_ok a"
  shows "attrs_ok (attr_increaseIntAttr t n a)"
    and "getExistingAttr t' (attr_increaseIntAttr t n a)
      = (if t' = t \<and> isIntAttrType t then Some (AttrInteger (attr_getIntAttr t a + n)) else getExistingAttr t' a)"
proof -
  let ?f = "\<lambda>v. AttrInteger (attr_integer v + n)"
  have e: "?f (case getExistingAttr t a of Some v \<Rightarrow> v | None \<Rightarrow> AttrInteger 0) = AttrInteger (attr_getIntAttr t a + n)"
    if "isIntAttrType t" using that by (simp add: attr_getIntAttr_def attr_integer_def split: option.split)
  have i: "isIntAttrType t \<Longrightarrow> t \<noteq> ITEM_ATTRIBUTE_NONE" using none_no_kind by auto
  have f: "isIntAttrType t \<Longrightarrow> value_fits t (?f (case getExistingAttr t a of Some v \<Rightarrow> v | None \<Rightarrow> AttrInteger 0))"
    by (simp add: value_fits_def)
  show "attrs_ok (attr_increaseIntAttr t n a)"
    using assign_attr_map(1) [of a t ?f, OF assms i f] assms by (simp add: attr_increaseIntAttr_def)
  show "getExistingAttr t' (attr_increaseIntAttr t n a)
      = (if t' = t \<and> isIntAttrType t then Some (AttrInteger (attr_getIntAttr t a + n)) else getExistingAttr t' a)"
    using assign_attr_map(2) [of a t ?f, OF assms i f, of t'] e by (auto simp: attr_increaseIntAttr_def)
qed

subsection \<open>Custom attributes\<close>

lemma lower_idem [simp]: "asLowerCaseString (asLowerCaseString s) = asLowerCaseString s"
  "asLowerCaseString (toLowerCaseString s) = asLowerCaseString s" "toLowerCaseString s = asLowerCaseString s"
  by (simp_all add: asLowerCaseString_def toLowerCaseString_def)

lemma custom_erase_map: "map_of (custom_erase key m) = (map_of m)(key := None)"
  unfolding custom_erase_def by (induction m) (auto simp: fun_eq_iff)

lemma custom_erase_keys: "distinct (map fst m) \<Longrightarrow> distinct (map fst (custom_erase key m))"
  "fst ` set (custom_erase key m) \<subseteq> fst ` set m"
  by (auto simp: custom_erase_def distinct_map inj_on_def)

lemma custom_emplace_map: "map_of (custom_emplace key v m) = (if map_of m key = None then (map_of m)(key \<mapsto> v) else map_of m)"
  using map_of_snoc [of key m v] map_of_eq_None_iff [of m key] unfolding custom_emplace_def by simp

lemma custom_emplace_keys: "distinct (map fst m) \<Longrightarrow> distinct (map fst (custom_emplace key v m))"
  "fst ` set (custom_emplace key v m) \<subseteq> insert key (fst ` set m)"
  by (auto simp: custom_emplace_def map_of_eq_None_iff image_iff)

lemma custom_not_none: "ITEM_ATTRIBUTE_CUSTOM \<noteq> ITEM_ATTRIBUTE_NONE" by simp

lemma existing_fits: "attrs_ok a \<Longrightarrow> getExistingAttr t a = Some v \<Longrightarrow> value_fits t v"
  by (auto simp: getExistingAttr_map attrs_ok_def dest!: map_of_SomeD)

lemma custom_kind: "\<not> isIntAttrType ITEM_ATTRIBUTE_CUSTOM" "\<not> isStrAttrType ITEM_ATTRIBUTE_CUSTOM"
  by (simp_all add: attr_kinds)

text \<open>The map is there, with keys in lower case, when the attribute is.\<close>

lemma custom_existing:
  assumes "attrs_ok a" and "getExistingAttr ITEM_ATTRIBUTE_CUSTOM a = Some v"
  shows "v = AttrCustom (attr_custom v)" and "distinct (map fst (attr_custom v))"
    and "\<forall>k \<in> fst ` set (attr_custom v). asLowerCaseString k = k"
  using existing_fits [OF assms] by (auto simp: value_fits_def attr_custom_def custom_kind split: attr_value.splits)

definition customs :: "item_attributes \<Rightarrow> (string \<times> custom_value) list" where
  "customs a = (case getExistingAttr ITEM_ATTRIBUTE_CUSTOM a of Some v \<Rightarrow> attr_custom v | None \<Rightarrow> [])"

definition custom_keys :: "(string \<times> custom_value) list \<Rightarrow> bool" where
  "custom_keys m \<longleftrightarrow> distinct (map fst m) \<and> (\<forall>k \<in> fst ` set m. asLowerCaseString k = k)"

lemma customs_keys: "attrs_ok a \<Longrightarrow> custom_keys (customs a)"
  using custom_existing(2,3) [of a] by (cases "getExistingAttr ITEM_ATTRIBUTE_CUSTOM a") (simp_all add: customs_def custom_keys_def)

lemma getCustomAttribute_customs: "attr_getCustomAttribute key a = map_of (customs a) (asLowerCaseString key)"
  by (auto simp: attr_getCustomAttribute_def getCustomAttributeMap_def customs_def split: option.split)

lemma custom_assign:
  assumes "attrs_ok a" and "custom_keys (g (customs a))"
  shows "attrs_ok (assign_attr ITEM_ATTRIBUTE_CUSTOM (\<lambda>v. AttrCustom (g (attr_custom v))) a)"
    and "customs (assign_attr ITEM_ATTRIBUTE_CUSTOM (\<lambda>v. AttrCustom (g (attr_custom v))) a) = g (customs a)"
    and "t \<noteq> ITEM_ATTRIBUTE_CUSTOM \<Longrightarrow>
      getExistingAttr t (assign_attr ITEM_ATTRIBUTE_CUSTOM (\<lambda>v. AttrCustom (g (attr_custom v))) a) = getExistingAttr t a"
proof -
  let ?f = "\<lambda>v. AttrCustom (g (attr_custom v))"
  have e: "?f (case getExistingAttr ITEM_ATTRIBUTE_CUSTOM a of Some v \<Rightarrow> v | None \<Rightarrow> AttrInteger 0) = AttrCustom (g (customs a))"
    by (simp add: customs_def attr_custom_def split: option.split)
  have f: "value_fits ITEM_ATTRIBUTE_CUSTOM (?f (case getExistingAttr ITEM_ATTRIBUTE_CUSTOM a of Some v \<Rightarrow> v | None \<Rightarrow> AttrInteger 0))"
    unfolding e using assms(2) by (simp add: value_fits_def custom_keys_def)
  note r = assign_attr_map [of a ITEM_ATTRIBUTE_CUSTOM ?f, OF assms(1) custom_not_none f]
  show "attrs_ok (assign_attr ITEM_ATTRIBUTE_CUSTOM ?f a)" by (rule r(1))
  show "customs (assign_attr ITEM_ATTRIBUTE_CUSTOM ?f a) = g (customs a)"
    unfolding customs_def [of "assign_attr ITEM_ATTRIBUTE_CUSTOM ?f a"] r(2) e by (simp add: attr_custom_def)
  show "t \<noteq> ITEM_ATTRIBUTE_CUSTOM \<Longrightarrow> getExistingAttr t (assign_attr ITEM_ATTRIBUTE_CUSTOM ?f a) = getExistingAttr t a"
    using r(2) by simp
qed

lemma erase_keys: "custom_keys m \<Longrightarrow> custom_keys (custom_erase key m)"
  unfolding custom_keys_def using custom_erase_keys(1) [of m key] custom_erase_keys(2) [of key m] by blast

lemma emplace_keys: "custom_keys m \<Longrightarrow> asLowerCaseString key = key \<Longrightarrow> custom_keys (custom_emplace key v m)"
  unfolding custom_keys_def using custom_emplace_keys(1) [of m key v] custom_emplace_keys(2) [of key v m] by blast

text \<open>What removing and setting one custom attribute does.\<close>

lemma removeCustom_map:
  assumes ok: "attrs_ok a"
  shows "attrs_ok (snd (attr_removeCustomAttribute key a))"
    and "t \<noteq> ITEM_ATTRIBUTE_CUSTOM \<Longrightarrow> getExistingAttr t (snd (attr_removeCustomAttribute key a)) = getExistingAttr t a"
    and "map_of (customs (snd (attr_removeCustomAttribute key a))) = (map_of (customs a))(asLowerCaseString key := None)"
proof -
  let ?k = "asLowerCaseString key"
  let ?a = "assign_attr ITEM_ATTRIBUTE_CUSTOM (\<lambda>v. AttrCustom (custom_erase ?k (attr_custom v))) a"
  note r = custom_assign [of a "custom_erase ?k", OF ok erase_keys [OF customs_keys [OF ok]]]
  have "map_of (customs a) ?k = None \<and> snd (attr_removeCustomAttribute key a) = a
    \<or> snd (attr_removeCustomAttribute key a) = ?a"
    by (auto simp: attr_removeCustomAttribute_def getCustomAttributeMap_def customs_def split: option.splits)
  then show "attrs_ok (snd (attr_removeCustomAttribute key a))"
    and "t \<noteq> ITEM_ATTRIBUTE_CUSTOM \<Longrightarrow> getExistingAttr t (snd (attr_removeCustomAttribute key a)) = getExistingAttr t a"
    and "map_of (customs (snd (attr_removeCustomAttribute key a))) = (map_of (customs a))(?k := None)"
    using ok r(1,2) r(3) [of t] by (auto simp: custom_erase_map fun_upd_idem_iff fun_upd_idem)
qed

lemma setCustom_map:
  assumes ok: "attrs_ok a"
  shows "attrs_ok (attr_setCustomAttribute key v a)"
    and "t \<noteq> ITEM_ATTRIBUTE_CUSTOM \<Longrightarrow> getExistingAttr t (attr_setCustomAttribute key v a) = getExistingAttr t a"
    and "map_of (customs (attr_setCustomAttribute key v a)) = (map_of (customs a))(asLowerCaseString key \<mapsto> v)"
proof -
  let ?k = "asLowerCaseString key"
  define b where "b = (if attr_hasAttribute ITEM_ATTRIBUTE_CUSTOM a then snd (attr_removeCustomAttribute ?k a)
    else assign_attr ITEM_ATTRIBUTE_CUSTOM (\<lambda>_. AttrCustom []) a)"
  note rm = removeCustom_map(1) [OF ok, of ?k] removeCustom_map(2) [OF ok, of _ ?k] removeCustom_map(3) [OF ok, of ?k, unfolded lower_idem]
  have n: "custom_keys []" by (simp add: custom_keys_def)
  note new = custom_assign [of a "\<lambda>_. []", OF ok n]
  have "\<not> attr_hasAttribute ITEM_ATTRIBUTE_CUSTOM a \<Longrightarrow> customs a = []"
    by (simp add: hasAttribute_existing [OF ok] customs_def)
  then have b: "attrs_ok b" "\<And>t. t \<noteq> ITEM_ATTRIBUTE_CUSTOM \<Longrightarrow> getExistingAttr t b = getExistingAttr t a"
      "map_of (customs b) = (map_of (customs a))(?k := None)"
    using rm new by (auto simp: b_def)
  have l: "asLowerCaseString ?k = ?k" by simp
  note r = custom_assign [of b "custom_emplace ?k v", OF b(1) emplace_keys [OF customs_keys [OF b(1)] l]]
  have e: "attr_setCustomAttribute key v a = assign_attr ITEM_ATTRIBUTE_CUSTOM (\<lambda>w. AttrCustom (custom_emplace ?k v (attr_custom w))) b"
    by (simp add: attr_setCustomAttribute_def b_def Let_def)
  show "attrs_ok (attr_setCustomAttribute key v a)" unfolding e by (rule r(1))
  show "t \<noteq> ITEM_ATTRIBUTE_CUSTOM \<Longrightarrow> getExistingAttr t (attr_setCustomAttribute key v a) = getExistingAttr t a"
    unfolding e using r(3) b(2) by simp
  show "map_of (customs (attr_setCustomAttribute key v a)) = (map_of (customs a))(?k \<mapsto> v)"
    unfolding e r(2) custom_emplace_map b(3) by simp
qed

section \<open>Items\<close>

text \<open>What the saved form needs of the type of an item, \<^verbatim>\<open>Item::items[id]\<close>.\<close>

record saved_type =
  st_fluidContainer :: bool
  st_splash :: bool
  st_stackable :: bool
  st_charges :: u32
  st_moveable :: bool

record saved_item =
  si_count :: u16
  si_attributes :: "item_attributes option"

definition getAttributes :: "saved_item \<Rightarrow> item_attributes" where
  "getAttributes i = (case si_attributes i of None \<Rightarrow> no_attributes | Some a \<Rightarrow> a)"

definition map_attributes :: "(item_attributes \<Rightarrow> item_attributes) \<Rightarrow> saved_item \<Rightarrow> saved_item" where
  "map_attributes f i = i\<lparr>si_attributes := Some (f (getAttributes i))\<rparr>"

definition getStrAttr :: "itemAttrTypes \<Rightarrow> saved_item \<Rightarrow> string" where
  "getStrAttr type i = (case si_attributes i of None \<Rightarrow> [] | Some a \<Rightarrow> attr_getStrAttr type a)"

definition setStrAttr :: "itemAttrTypes \<Rightarrow> string \<Rightarrow> saved_item \<Rightarrow> saved_item" where
  "setStrAttr type value = map_attributes (attr_setStrAttr type value)"

definition getIntAttr :: "itemAttrTypes \<Rightarrow> saved_item \<Rightarrow> u64" where
  "getIntAttr type i = (case si_attributes i of None \<Rightarrow> 0 | Some a \<Rightarrow> attr_getIntAttr type a)"

definition setIntAttr :: "itemAttrTypes \<Rightarrow> u64 \<Rightarrow> saved_item \<Rightarrow> saved_item" where
  "setIntAttr type value = map_attributes (attr_setIntAttr type value)"

definition hasAttribute :: "itemAttrTypes \<Rightarrow> saved_item \<Rightarrow> bool" where
  "hasAttribute type i = (case si_attributes i of None \<Rightarrow> False | Some a \<Rightarrow> attr_hasAttribute type a)"

definition setCustomAttribute :: "string \<Rightarrow> custom_value \<Rightarrow> saved_item \<Rightarrow> saved_item" where
  "setCustomAttribute key value = map_attributes (attr_setCustomAttribute key value)"

definition getCustomAttribute :: "string \<Rightarrow> saved_item \<Rightarrow> custom_value option" where
  "getCustomAttribute key i = (case si_attributes i of None \<Rightarrow> None | Some a \<Rightarrow> attr_getCustomAttribute key a)"

text \<open>The named accessors; those of 16 bits cut the number.\<close>

definition setActionId :: "u16 \<Rightarrow> saved_item \<Rightarrow> saved_item" where
  "setActionId n = (let n = (if n < 100 then 100 else n) in setIntAttr ITEM_ATTRIBUTE_ACTIONID (ucast n))"

definition getActionId :: "saved_item \<Rightarrow> u16" where
  "getActionId i = ucast (getIntAttr ITEM_ATTRIBUTE_ACTIONID i)"

definition setCharges :: "u16 \<Rightarrow> saved_item \<Rightarrow> saved_item" where
  "setCharges n = setIntAttr ITEM_ATTRIBUTE_CHARGES (ucast n)"

definition getCharges :: "saved_item \<Rightarrow> u16" where
  "getCharges i = ucast (getIntAttr ITEM_ATTRIBUTE_CHARGES i)"

definition setFluidType :: "u16 \<Rightarrow> saved_item \<Rightarrow> saved_item" where
  "setFluidType n = setIntAttr ITEM_ATTRIBUTE_FLUIDTYPE (ucast n)"

definition getFluidType :: "saved_item \<Rightarrow> u16" where
  "getFluidType i = ucast (getIntAttr ITEM_ATTRIBUTE_FLUIDTYPE i)"

definition setItemCount :: "u16 \<Rightarrow> saved_item \<Rightarrow> saved_item" where
  "setItemCount n i = i\<lparr>si_count := n\<rparr>"

definition setSubType :: "saved_type \<Rightarrow> u16 \<Rightarrow> saved_item \<Rightarrow> saved_item" where
  "setSubType it n i =
     (if st_fluidContainer it \<or> st_splash it then setFluidType n i
      else if st_stackable it then setItemCount n i
      else if st_charges it \<noteq> 0 then setCharges n i
      else setItemCount n i)"

definition getSubType :: "saved_type \<Rightarrow> saved_item \<Rightarrow> u16" where
  "getSubType it i =
     (if st_fluidContainer it \<or> st_splash it then getFluidType i
      else if st_stackable it then si_count i
      else if st_charges it \<noteq> 0 then getCharges i
      else si_count i)"

definition DECAYING_FALSE :: byte where "DECAYING_FALSE = 0"
definition DECAYING_TRUE :: byte where "DECAYING_TRUE = 1"
definition DECAYING_PENDING :: byte where "DECAYING_PENDING = 2"

definition getDecaying :: "saved_item \<Rightarrow> byte" where
  "getDecaying i = ucast (getIntAttr ITEM_ATTRIBUTE_DECAYSTATE i)"

text \<open>The unique id is kept unless another item has it: \<open>unique\<close> are the ids that the game knows.\<close>

definition setUniqueId :: "u16 \<Rightarrow> u16 set \<times> saved_item \<Rightarrow> u16 set \<times> saved_item" where
  "setUniqueId n = (\<lambda>(unique, i).
     if hasAttribute ITEM_ATTRIBUTE_UNIQUEID i then (unique, i)
     else if n \<notin> unique then (insert n unique, setIntAttr ITEM_ATTRIBUTE_UNIQUEID (ucast n) i)
     else (unique, i))"

section \<open>Properties\<close>

text \<open>
  C12. The store of attributes is well typed, whatever is done with it: each type occurs once, the value
  of a type is in the member of the union that the type says, a string is never empty (the pointer
  never null), the keys of the custom attributes are in lower case and distinct, and a bit is set
  exactly for the types that are there. It holds of the empty store and every operation keeps it.
\<close>

theorem attributes_well_typed:
  assumes "attrs_ok a"
  shows "attrs_ok no_attributes \<and> attrs_ok (attr_setIntAttr t n a) \<and> attrs_ok (attr_increaseIntAttr t n a)
    \<and> attrs_ok (attr_setStrAttr t str a) \<and> attrs_ok (attr_removeAttribute t a)
    \<and> attrs_ok (attr_setCustomAttribute key v a) \<and> attrs_ok (snd (attr_removeCustomAttribute key a))
    \<and> (\<forall>w. getExistingAttr t a = Some w \<longrightarrow> value_fits t w)"
  using existing_fits [OF assms, of t]
  by (intro conjI attrs_ok_empty int_access.set_ok [OF assms] increase_ok(1) [OF assms] str_access.set_ok [OF assms]
      removeAttribute_map(1) [OF assms] setCustom_map(1) [OF assms] removeCustom_map(1) [OF assms]) blast

text \<open>
  The store behaves as a map from types to values: setting, increasing and removing an attribute
  changes what is read of its type and nothing else. A type of the other kind is not set, an
  empty string is not set, and a removed attribute reads as 0 or as the empty string.
\<close>

theorem attributes_as_map:
  assumes "attrs_ok a"
  shows "attr_getIntAttr t' (attr_setIntAttr t n a) = (if t' = t \<and> isIntAttrType t then n else attr_getIntAttr t' a)
    \<and> attr_getStrAttr t' (attr_setStrAttr t str a) = (if t' = t \<and> isStrAttrType t \<and> str \<noteq> [] then str else attr_getStrAttr t' a)
    \<and> attr_getIntAttr t' (attr_increaseIntAttr t n a)
      = (if t' = t \<and> isIntAttrType t then attr_getIntAttr t a + n else attr_getIntAttr t' a)
    \<and> attr_getIntAttr t' (attr_removeAttribute t a) = (if t' = t then 0 else attr_getIntAttr t' a)
    \<and> attr_getStrAttr t' (attr_removeAttribute t a) = (if t' = t then [] else attr_getStrAttr t' a)
    \<and> (attr_hasAttribute t' (attr_removeAttribute t a) \<longleftrightarrow> t' \<noteq> t \<and> attr_hasAttribute t' a)"
proof -
  have "attr_getIntAttr t' (attr_increaseIntAttr t n a)
      = (if t' = t \<and> isIntAttrType t then attr_getIntAttr t a + n else attr_getIntAttr t' a)"
    by (simp add: attr_getIntAttr_def [of t'] increase_ok(2) [OF assms] attr_integer_def)
  moreover have "attr_hasAttribute t' (attr_removeAttribute t a) \<longleftrightarrow> t' \<noteq> t \<and> attr_hasAttribute t' a"
    by (simp add: hasAttribute_existing [OF removeAttribute_map(1) [OF assms]] hasAttribute_existing [OF assms] removeAttribute_map(2) [OF assms])
  ultimately show ?thesis
    by (simp add: int_access.get_set [OF assms] str_access.get_set [OF assms] int_access.get_remove [OF assms] str_access.get_remove [OF assms])
qed

text \<open>
  Custom attributes behave as a map from names to values, without regard to letter case.
\<close>

theorem custom_attributes_as_map:
  assumes "attrs_ok a"
  shows "attr_getCustomAttribute k (attr_setCustomAttribute key v a)
      = (if asLowerCaseString k = asLowerCaseString key then Some v else attr_getCustomAttribute k a)
    \<and> attr_getCustomAttribute k (snd (attr_removeCustomAttribute key a))
      = (if asLowerCaseString k = asLowerCaseString key then None else attr_getCustomAttribute k a)"
  using assms by (simp add: getCustomAttribute_customs setCustom_map(3) removeCustom_map(3))

definition some_attributes :: item_attributes where
  "some_attributes = attr_setCustomAttribute ''Boost'' (CustomInt 5)
     (attr_setStrAttr ITEM_ATTRIBUTE_NAME ''ball'' (attr_setIntAttr ITEM_ATTRIBUTE_WEIGHT 7 no_attributes))"

lemma some_attributes_ok: "attrs_ok some_attributes"
  unfolding some_attributes_def
  by (intro setCustom_map(1) str_access.set_ok int_access.set_ok attrs_ok_empty)

theorem attributes_well_typed_witness: "attrs_ok (attr_removeAttribute ITEM_ATTRIBUTE_WEIGHT some_attributes)"
  using attributes_well_typed [OF some_attributes_ok, of ITEM_ATTRIBUTE_WEIGHT] by blast

theorem attributes_as_map_witness:
  "attr_getIntAttr ITEM_ATTRIBUTE_HELDX (attr_setIntAttr ITEM_ATTRIBUTE_HELDX 3 some_attributes) = 3"
  using attributes_as_map [OF some_attributes_ok, of ITEM_ATTRIBUTE_HELDX ITEM_ATTRIBUTE_HELDX 3] by (simp add: attr_kinds)

lemma same_name: "asLowerCaseString ''pokeBoost'' = asLowerCaseString ''POKEBOOST''"
  by code_simp

theorem custom_attributes_as_map_witness:
  "attr_getCustomAttribute ''pokeBoost'' (attr_setCustomAttribute ''POKEBOOST'' (CustomInt 2) some_attributes) = Some (CustomInt 2)"
  using custom_attributes_as_map [OF some_attributes_ok, of "''pokeBoost''" "''POKEBOOST''" "CustomInt 2"] same_name
  by simp

end
