(* ===== verification/Item_Saving.thy ===== *)
theory Item_Saving
  imports Item_Attributes
begin

text \<open>
  The saved form of an item: \<^verbatim>\<open>serializeAttr\<close>, \<^verbatim>\<open>readAttr\<close> and
  \<^verbatim>\<open>unserializeAttr\<close> of \<^verbatim>\<open>src/src/item.cpp\<close> and the custom attributes of
  \<^verbatim>\<open>src/src/item.h\<close>. Reading what was written overlays the attributes that are
  saved on those the item has.
\<close>

section \<open>Codes\<close>

definition ATTR_ACTION_ID :: byte where "ATTR_ACTION_ID = 4"
definition ATTR_UNIQUE_ID :: byte where "ATTR_UNIQUE_ID = 5"
definition ATTR_TEXT :: byte where "ATTR_TEXT = 6"
definition ATTR_DESC :: byte where "ATTR_DESC = 7"
definition ATTR_TELE_DEST :: byte where "ATTR_TELE_DEST = 8"
definition ATTR_DEPOT_ID :: byte where "ATTR_DEPOT_ID = 10"
definition ATTR_RUNE_CHARGES :: byte where "ATTR_RUNE_CHARGES = 12"
definition ATTR_HOUSEDOORID :: byte where "ATTR_HOUSEDOORID = 14"
definition ATTR_COUNT_OLD :: byte where "ATTR_COUNT_OLD = 15"
definition ATTR_DURATION :: byte where "ATTR_DURATION = 16"
definition ATTR_DECAYING_STATE :: byte where "ATTR_DECAYING_STATE = 17"
definition ATTR_WRITTENDATE :: byte where "ATTR_WRITTENDATE = 18"
definition ATTR_WRITTENBY :: byte where "ATTR_WRITTENBY = 19"
definition ATTR_SLEEPERGUID :: byte where "ATTR_SLEEPERGUID = 20"
definition ATTR_SLEEPSTART :: byte where "ATTR_SLEEPSTART = 21"
definition ATTR_CHARGES :: byte where "ATTR_CHARGES = 22"
definition ATTR_CONTAINER_ITEMS :: byte where "ATTR_CONTAINER_ITEMS = 23"
definition ATTR_NAME :: byte where "ATTR_NAME = 24"
definition ATTR_ARTICLE :: byte where "ATTR_ARTICLE = 25"
definition ATTR_PLURALNAME :: byte where "ATTR_PLURALNAME = 26"
definition ATTR_WEIGHT :: byte where "ATTR_WEIGHT = 27"
definition ATTR_ATTACK :: byte where "ATTR_ATTACK = 28"
definition ATTR_DEFENSE :: byte where "ATTR_DEFENSE = 29"
definition ATTR_EXTRADEFENSE :: byte where "ATTR_EXTRADEFENSE = 30"
definition ATTR_ARMOR :: byte where "ATTR_ARMOR = 31"
definition ATTR_HITCHANCE :: byte where "ATTR_HITCHANCE = 32"
definition ATTR_SHOOTRANGE :: byte where "ATTR_SHOOTRANGE = 33"
definition ATTR_SPECIAL :: byte where "ATTR_SPECIAL = 34"
definition ATTR_AUTOOPEN :: byte where "ATTR_AUTOOPEN = 35"
definition ATTR_COUNT :: byte where "ATTR_COUNT = 36"
definition ATTR_POKEMONHOLDER :: byte where "ATTR_POKEMONHOLDER = 38"
definition ATTR_POKEMONHOLDERINFO :: byte where "ATTR_POKEMONHOLDERINFO = 39"
definition ATTR_POKEMONHOLDERCREATUREID :: byte where "ATTR_POKEMONHOLDERCREATUREID = 40"
definition ATTR_UNIQUE_ITEM :: byte where "ATTR_UNIQUE_ITEM = 41"
definition ATTR_ATTRIBUTE_HELDX :: byte where "ATTR_ATTRIBUTE_HELDX = 42"
definition ATTR_ATTRIBUTE_HELDY :: byte where "ATTR_ATTRIBUTE_HELDY = 43"
definition ATTR_ATTRIBUTE_HELDU :: byte where "ATTR_ATTRIBUTE_HELDU = 44"
definition ATTR_ATTRIBUTE_BLINK :: byte where "ATTR_ATTRIBUTE_BLINK = 45"
definition ATTR_CUSTOM_ATTRIBUTES :: byte where "ATTR_CUSTOM_ATTRIBUTES = 46"
definition ATTR_DECAYTO :: byte where "ATTR_DECAYTO = 47"
definition ATTR_WRAPID :: byte where "ATTR_WRAPID = 48"

lemmas attr_codes =
  ATTR_ACTION_ID_def ATTR_UNIQUE_ID_def ATTR_TEXT_def ATTR_DESC_def ATTR_TELE_DEST_def 
  ATTR_DEPOT_ID_def ATTR_RUNE_CHARGES_def ATTR_HOUSEDOORID_def ATTR_COUNT_OLD_def ATTR_DURATION_def 
  ATTR_DECAYING_STATE_def ATTR_WRITTENDATE_def ATTR_WRITTENBY_def ATTR_SLEEPERGUID_def ATTR_SLEEPSTART_def 
  ATTR_CHARGES_def ATTR_CONTAINER_ITEMS_def ATTR_NAME_def ATTR_ARTICLE_def ATTR_PLURALNAME_def 
  ATTR_WEIGHT_def ATTR_ATTACK_def ATTR_DEFENSE_def ATTR_EXTRADEFENSE_def ATTR_ARMOR_def 
  ATTR_HITCHANCE_def ATTR_SHOOTRANGE_def ATTR_SPECIAL_def ATTR_AUTOOPEN_def ATTR_COUNT_def 
  ATTR_POKEMONHOLDER_def ATTR_POKEMONHOLDERINFO_def ATTR_POKEMONHOLDERCREATUREID_def ATTR_UNIQUE_ITEM_def ATTR_ATTRIBUTE_HELDX_def 
  ATTR_ATTRIBUTE_HELDY_def ATTR_ATTRIBUTE_HELDU_def ATTR_ATTRIBUTE_BLINK_def ATTR_CUSTOM_ATTRIBUTES_def ATTR_DECAYTO_def 
  ATTR_WRAPID_def

datatype Attr_ReadValue = ATTR_READ_CONTINUE | ATTR_READ_ERROR | ATTR_READ_END

record read_state =
  rs_item :: saved_item
  rs_stream :: prop_stream
  rs_unique :: "u16 set"

section \<open>Reading\<close>

definition read_value ::
  "(byte list \<Rightarrow> 'a) \<Rightarrow> nat \<Rightarrow> ('a \<Rightarrow> saved_item \<Rightarrow> saved_item) \<Rightarrow> read_state \<Rightarrow> Attr_ReadValue \<times> read_state" where
  "read_value dec width put s =
     (case prop_read dec width (rs_stream s) of
       None \<Rightarrow> (ATTR_READ_ERROR, s)
     | Some (v, ps) \<Rightarrow> (ATTR_READ_CONTINUE, s\<lparr>rs_stream := ps, rs_item := put v (rs_item s)\<rparr>))"

definition read_text :: "itemAttrTypes \<Rightarrow> read_state \<Rightarrow> Attr_ReadValue \<times> read_state" where
  "read_text type s =
     (case prop_readString (rs_stream s) of
       (None, ps) \<Rightarrow> (ATTR_READ_ERROR, s\<lparr>rs_stream := ps\<rparr>)
     | (Some str, ps) \<Rightarrow> (ATTR_READ_CONTINUE, s\<lparr>rs_stream := ps, rs_item := setStrAttr type str (rs_item s)\<rparr>))"

definition read_skip :: "nat \<Rightarrow> read_state \<Rightarrow> Attr_ReadValue \<times> read_state" where
  "read_skip n s =
     (case prop_skip n (rs_stream s) of
       None \<Rightarrow> (ATTR_READ_ERROR, s)
     | Some ps \<Rightarrow> (ATTR_READ_CONTINUE, s\<lparr>rs_stream := ps\<rparr>))"

definition read_unique :: "read_state \<Rightarrow> Attr_ReadValue \<times> read_state" where
  "read_unique s =
     (case prop_read dec16 2 (rs_stream s) of
       None \<Rightarrow> (ATTR_READ_ERROR, s)
     | Some (v, ps) \<Rightarrow> (ATTR_READ_CONTINUE,
         (let (unique, i) = setUniqueId v (rs_unique s, rs_item s)
          in s\<lparr>rs_stream := ps, rs_unique := unique, rs_item := i\<rparr>)))"

text \<open>The value of a custom attribute. A byte is read into a \<^verbatim>\<open>bool\<close>.\<close>

definition custom_unserialize :: "prop_stream \<Rightarrow> custom_value option \<times> prop_stream" where
  "custom_unserialize ps =
     (case prop_read dec8 1 ps of
       None \<Rightarrow> (None, ps)
     | Some (pos, ps) \<Rightarrow>
         if pos = 1 then
           (case prop_readString ps of (None, ps) \<Rightarrow> (None, ps) | (Some str, ps) \<Rightarrow> (Some (CustomString str), ps))
         else if pos = 2 then
           (case prop_read dec64 8 ps of None \<Rightarrow> (None, ps) | Some (v, ps) \<Rightarrow> (Some (CustomInt v), ps))
         else if pos = 3 then
           (case prop_read dec64 8 ps of None \<Rightarrow> (None, ps) | Some (v, ps) \<Rightarrow> (Some (CustomDouble v), ps))
         else if pos = 4 then
           (case prop_read dec8 1 ps of None \<Rightarrow> (None, ps) | Some (v, ps) \<Rightarrow> (Some (CustomBool (v \<noteq> 0)), ps))
         else (None, ps))"

primrec read_customs :: "nat \<Rightarrow> read_state \<Rightarrow> Attr_ReadValue \<times> read_state" where
  "read_customs 0 s = (ATTR_READ_CONTINUE, s)"
| "read_customs (Suc n) s =
     (case prop_readString (rs_stream s) of
       (None, ps) \<Rightarrow> (ATTR_READ_ERROR, s\<lparr>rs_stream := ps\<rparr>)
     | (Some key, ps) \<Rightarrow>
         (case custom_unserialize ps of
           (None, ps) \<Rightarrow> (ATTR_READ_ERROR, s\<lparr>rs_stream := ps\<rparr>)
         | (Some val, ps) \<Rightarrow>
             read_customs n (s\<lparr>rs_stream := ps, rs_item := setCustomAttribute key val (rs_item s)\<rparr>)))"

definition read_custom_map :: "read_state \<Rightarrow> Attr_ReadValue \<times> read_state" where
  "read_custom_map s =
     (case prop_read dec64 8 (rs_stream s) of
       None \<Rightarrow> (ATTR_READ_ERROR, s)
     | Some (entries, ps) \<Rightarrow> read_customs (unat entries) (s\<lparr>rs_stream := ps\<rparr>))"

definition put_u8 :: "itemAttrTypes \<Rightarrow> byte \<Rightarrow> saved_item \<Rightarrow> saved_item" where
  "put_u8 type v = setIntAttr type (ucast v)"

definition put_i8 :: "itemAttrTypes \<Rightarrow> byte \<Rightarrow> saved_item \<Rightarrow> saved_item" where
  "put_i8 type v = setIntAttr type (scast v)"

definition put_u16 :: "itemAttrTypes \<Rightarrow> u16 \<Rightarrow> saved_item \<Rightarrow> saved_item" where
  "put_u16 type v = setIntAttr type (ucast v)"

definition put_u32 :: "itemAttrTypes \<Rightarrow> u32 \<Rightarrow> saved_item \<Rightarrow> saved_item" where
  "put_u32 type v = setIntAttr type (ucast v)"

definition put_i32 :: "itemAttrTypes \<Rightarrow> u32 \<Rightarrow> saved_item \<Rightarrow> saved_item" where
  "put_i32 type v = setIntAttr type (scast v)"

definition put_duration :: "u32 \<Rightarrow> saved_item \<Rightarrow> saved_item" where
  "put_duration v = setIntAttr ITEM_ATTRIBUTE_DURATION (word_of_int (max 0 (sint v)))"

definition put_decaying :: "byte \<Rightarrow> saved_item \<Rightarrow> saved_item" where
  "put_decaying state i = (if state \<noteq> DECAYING_FALSE then setIntAttr ITEM_ATTRIBUTE_DECAYSTATE (ucast DECAYING_PENDING) i else i)"

text \<open>The cases of \<^verbatim>\<open>readAttr\<close>, in three groups.\<close>

definition readAttr_others :: "byte \<Rightarrow> read_state \<Rightarrow> Attr_ReadValue \<times> read_state" where
  "readAttr_others attr =
     (if attr = ATTR_DECAYTO then read_value dec32 4 (put_i32 ITEM_ATTRIBUTE_DECAYTO)
      else if attr = ATTR_WRAPID then read_value dec16 2 (put_u16 ITEM_ATTRIBUTE_WRAPID)
      else if attr = ATTR_DEPOT_ID then read_skip 2
      else if attr = ATTR_HOUSEDOORID then read_skip 1
      else if attr = ATTR_SLEEPERGUID then read_skip 4
      else if attr = ATTR_SLEEPSTART then read_skip 4
      else if attr = ATTR_TELE_DEST then read_skip 5
      else if attr = ATTR_CONTAINER_ITEMS then (\<lambda>s. (ATTR_READ_ERROR, s))
      else if attr = ATTR_CUSTOM_ATTRIBUTES then read_custom_map
      else (\<lambda>s. (ATTR_READ_ERROR, s)))"

definition readAttr_fields :: "byte \<Rightarrow> read_state \<Rightarrow> Attr_ReadValue \<times> read_state" where
  "readAttr_fields attr =
     (if attr = ATTR_NAME then read_text ITEM_ATTRIBUTE_NAME
      else if attr = ATTR_ARTICLE then read_text ITEM_ATTRIBUTE_ARTICLE
      else if attr = ATTR_PLURALNAME then read_text ITEM_ATTRIBUTE_PLURALNAME
      else if attr = ATTR_WEIGHT then read_value dec32 4 (put_u32 ITEM_ATTRIBUTE_WEIGHT)
      else if attr = ATTR_ATTACK then read_value dec32 4 (put_i32 ITEM_ATTRIBUTE_ATTACK)
      else if attr = ATTR_DEFENSE then read_value dec32 4 (put_i32 ITEM_ATTRIBUTE_DEFENSE)
      else if attr = ATTR_EXTRADEFENSE then read_value dec32 4 (put_i32 ITEM_ATTRIBUTE_EXTRADEFENSE)
      else if attr = ATTR_ARMOR then read_value dec32 4 (put_i32 ITEM_ATTRIBUTE_ARMOR)
      else if attr = ATTR_HITCHANCE then read_value dec8 1 (put_i8 ITEM_ATTRIBUTE_HITCHANCE)
      else if attr = ATTR_SHOOTRANGE then read_value dec8 1 (put_u8 ITEM_ATTRIBUTE_SHOOTRANGE)
      else if attr = ATTR_SPECIAL then read_text ITEM_ATTRIBUTE_SPECIAL
      else if attr = ATTR_UNIQUE_ITEM then read_value dec32 4 (put_i32 ITEM_ATTRIBUTE_UNIQUE_ITEM)
      else if attr = ATTR_POKEMONHOLDER then read_text ITEM_ATTRIBUTE_POKEMONHOLDER
      else if attr = ATTR_POKEMONHOLDERINFO then read_text ITEM_ATTRIBUTE_POKEMONHOLDERINFO
      else if attr = ATTR_POKEMONHOLDERCREATUREID then read_value dec64 8 (setIntAttr ITEM_ATTRIBUTE_POKEMONHOLDERCREATUREID)
      else if attr = ATTR_ATTRIBUTE_HELDX then read_value dec32 4 (put_i32 ITEM_ATTRIBUTE_HELDX)
      else if attr = ATTR_ATTRIBUTE_HELDY then read_value dec32 4 (put_i32 ITEM_ATTRIBUTE_HELDY)
      else if attr = ATTR_ATTRIBUTE_HELDU then read_value dec32 4 (put_i32 ITEM_ATTRIBUTE_HELDU)
      else if attr = ATTR_ATTRIBUTE_BLINK then read_value dec64 8 (setIntAttr ITEM_ATTRIBUTE_BLINK)
      else readAttr_others attr)"

definition readAttr :: "saved_type \<Rightarrow> byte \<Rightarrow> read_state \<Rightarrow> Attr_ReadValue \<times> read_state" where
  "readAttr it attr =
     (if attr = ATTR_COUNT_OLD \<or> attr = ATTR_RUNE_CHARGES then read_value dec8 1 (\<lambda>v. setSubType it (ucast v))
      else if attr = ATTR_COUNT then read_value dec16 2 (setSubType it)
      else if attr = ATTR_AUTOOPEN then read_value dec8 1 (put_i8 ITEM_ATTRIBUTE_AUTOOPEN)
      else if attr = ATTR_ACTION_ID then read_value dec16 2 setActionId
      else if attr = ATTR_UNIQUE_ID then read_unique
      else if attr = ATTR_TEXT then read_text ITEM_ATTRIBUTE_TEXT
      else if attr = ATTR_WRITTENDATE then read_value dec32 4 (put_i32 ITEM_ATTRIBUTE_DATE)
      else if attr = ATTR_WRITTENBY then read_text ITEM_ATTRIBUTE_WRITER
      else if attr = ATTR_DESC then read_text ITEM_ATTRIBUTE_DESCRIPTION
      else if attr = ATTR_CHARGES then read_value dec16 2 (setSubType it)
      else if attr = ATTR_DURATION then read_value dec32 4 put_duration
      else if attr = ATTR_DECAYING_STATE then read_value dec8 1 put_decaying
      else readAttr_fields attr)"

text \<open>No reader goes back in the stream, so the loop over the attributes ends.\<close>

definition no_further :: "(read_state \<Rightarrow> Attr_ReadValue \<times> read_state) \<Rightarrow> bool" where
  "no_further rd \<longleftrightarrow> (\<forall>s. length (rs_stream (snd (rd s))) \<le> length (rs_stream s))"

lemma prop_readString_shorter: "prop_readString ps = (r, ps') \<Longrightarrow> length ps' \<le> length ps"
  by (auto simp: prop_readString_def prop_read_def split: option.splits if_splits)

lemma custom_unserialize_shorter: "custom_unserialize ps = (r, ps') \<Longrightarrow> length ps' \<le> length ps"
  by (auto simp: custom_unserialize_def prop_read_def split: option.splits if_splits prod.splits dest!: prop_readString_shorter)

lemma read_customs_shorter: "no_further (read_customs n)"
  unfolding no_further_def
proof (induction n)
  case (Suc n)
  have le: "length (rs_stream (snd (read_customs n (s\<lparr>rs_stream := ps, rs_item := i\<rparr>)))) \<le> length ps" for s ps i
    using Suc [rule_format, of "s\<lparr>rs_stream := ps, rs_item := i\<rparr>"] by simp
  show ?case
  proof
    fix s
    show "length (rs_stream (snd (read_customs (Suc n) s))) \<le> length (rs_stream s)"
      using le by (auto split: prod.splits option.splits dest!: prop_readString_shorter custom_unserialize_shorter)
        (meson le_trans)+
  qed
qed simp

lemma readers_shorter:
  "no_further (read_value dec width put)" "no_further (read_text type)" "no_further (read_skip n)" "no_further read_unique"
  "no_further read_custom_map" "no_further (\<lambda>s. (ATTR_READ_ERROR, s))"
proof -
  show "no_further read_custom_map"
    unfolding no_further_def
  proof
    fix s
    show "length (rs_stream (snd (read_custom_map s))) \<le> length (rs_stream s)"
    proof (cases "prop_read dec64 8 (rs_stream s)")
      case (Some p)
      obtain entries ps where p: "p = (entries, ps)" by (cases p)
      have "length (rs_stream (snd (read_customs (unat entries) (s\<lparr>rs_stream := ps\<rparr>)))) \<le> length ps"
        using read_customs_shorter [unfolded no_further_def, rule_format, of "unat entries" "s\<lparr>rs_stream := ps\<rparr>"] by simp
      also have "\<dots> \<le> length (rs_stream s)" using Some p by (auto simp: prop_read_def split: if_splits)
      finally show ?thesis using Some p by (simp add: read_custom_map_def)
    qed (simp add: read_custom_map_def)
  qed
qed (auto simp: no_further_def read_value_def read_text_def read_skip_def read_unique_def prop_read_def prop_skip_def
  split: option.splits prod.splits if_splits dest: prop_readString_shorter)

lemma readAttr_shorter: "length (rs_stream (snd (readAttr it attr s))) \<le> length (rs_stream s)"
  by (rule no_further_def [THEN iffD1, rule_format]) (simp add: readAttr_def readAttr_fields_def readAttr_others_def readers_shorter)

text \<open>\<open>ATTR_READ_END\<close> is for the readers of derived classes; the loop stops at it with success.\<close>

function unserializeAttr :: "saved_type \<Rightarrow> read_state \<Rightarrow> bool \<times> read_state" where
  "unserializeAttr it s =
     (case prop_read dec8 1 (rs_stream s) of
       None \<Rightarrow> (True, s)
     | Some (attr_type, ps) \<Rightarrow>
         let s = s\<lparr>rs_stream := ps\<rparr> in
         if attr_type = 0 then (True, s)
         else
           let (ret, s) = readAttr it attr_type s
           in if ret = ATTR_READ_ERROR then (False, s)
              else if ret = ATTR_READ_END then (True, s)
              else unserializeAttr it s)"
  by pat_completeness auto
termination
proof (relation "measure (\<lambda>(it, s). length (rs_stream s))", goal_cases)
  case (2 it s x2 x y s' x' ret t)
  then have "length y < length (rs_stream s)" by (auto simp: prop_read_def split: if_splits)
  moreover have "length (rs_stream t) \<le> length y"
    using 2 readAttr_shorter [of it x "s\<lparr>rs_stream := y\<rparr>"] by (cases "readAttr it x (s\<lparr>rs_stream := y\<rparr>)") auto
  ultimately show ?case by simp
qed simp

declare unserializeAttr.simps [simp del]

section \<open>Writing\<close>

definition save_if :: "bool \<Rightarrow> byte \<Rightarrow> (byte list \<Rightarrow> byte list) \<Rightarrow> byte list \<Rightarrow> byte list" where
  "save_if b code write buffer = (if b then write (prop_write enc8 code buffer) else buffer)"

definition save_int :: "('a::len word \<Rightarrow> byte list) \<Rightarrow> itemAttrTypes \<Rightarrow> byte \<Rightarrow> saved_item \<Rightarrow> byte list \<Rightarrow> byte list" where
  "save_int enc type code i = save_if (hasAttribute type i) code (prop_write enc (ucast (getIntAttr type i)))"

definition save_str :: "itemAttrTypes \<Rightarrow> byte \<Rightarrow> saved_item \<Rightarrow> byte list \<Rightarrow> byte list" where
  "save_str type code i = save_if (hasAttribute type i) code (prop_writeString (getStrAttr type i))"

primrec custom_serialize :: "custom_value \<Rightarrow> byte list \<Rightarrow> byte list" where
  "custom_serialize CustomBlank buffer = prop_write enc8 0 buffer"
| "custom_serialize (CustomString str) buffer = prop_writeString str (prop_write enc8 1 buffer)"
| "custom_serialize (CustomInt v) buffer = prop_write enc64 v (prop_write enc8 2 buffer)"
| "custom_serialize (CustomDouble v) buffer = prop_write enc64 v (prop_write enc8 3 buffer)"
| "custom_serialize (CustomBool v) buffer = prop_write enc8 (if v then 1 else 0) (prop_write enc8 4 buffer)"

definition save_custom_map :: "(string \<times> custom_value) list \<Rightarrow> byte list \<Rightarrow> byte list" where
  "save_custom_map m buffer =
     fold (\<lambda>(key, v) buffer. custom_serialize v (prop_writeString key buffer)) m (prop_write enc64 (of_nat (length m)) buffer)"

definition save_customs :: "saved_item \<Rightarrow> byte list \<Rightarrow> byte list" where
  "save_customs i = save_if (hasAttribute ITEM_ATTRIBUTE_CUSTOM i) ATTR_CUSTOM_ATTRIBUTES
     (save_custom_map (case getCustomAttributeMap (getAttributes i) of None \<Rightarrow> [] | Some m \<Rightarrow> m))"

definition attr_writers :: "saved_type \<Rightarrow> saved_item \<Rightarrow> (byte list \<Rightarrow> byte list) list" where
  "attr_writers it i = [
     save_if (st_stackable it \<or> st_fluidContainer it \<or> st_splash it) ATTR_COUNT (prop_write enc16 (getSubType it i)),
     save_if (getCharges i \<noteq> 0) ATTR_CHARGES (prop_write enc16 (getCharges i)),
     save_if (st_moveable it \<and> getActionId i \<noteq> 0) ATTR_ACTION_ID (prop_write enc16 (getActionId i)),
     save_if (getStrAttr ITEM_ATTRIBUTE_TEXT i \<noteq> []) ATTR_TEXT (prop_writeString (getStrAttr ITEM_ATTRIBUTE_TEXT i)),
     save_if (getIntAttr ITEM_ATTRIBUTE_DATE i \<noteq> 0) ATTR_WRITTENDATE (prop_write enc32 (ucast (getIntAttr ITEM_ATTRIBUTE_DATE i))),
     save_if (getStrAttr ITEM_ATTRIBUTE_WRITER i \<noteq> []) ATTR_WRITTENBY (prop_writeString (getStrAttr ITEM_ATTRIBUTE_WRITER i)),
     save_if (getStrAttr ITEM_ATTRIBUTE_DESCRIPTION i \<noteq> []) ATTR_DESC (prop_writeString (getStrAttr ITEM_ATTRIBUTE_DESCRIPTION i)),
     save_int enc8 ITEM_ATTRIBUTE_AUTOOPEN ATTR_AUTOOPEN i,
     save_int enc32 ITEM_ATTRIBUTE_DURATION ATTR_DURATION i,
     save_if (getDecaying i = DECAYING_TRUE \<or> getDecaying i = DECAYING_PENDING) ATTR_DECAYING_STATE (prop_write enc8 (getDecaying i)),
     save_str ITEM_ATTRIBUTE_NAME ATTR_NAME i,
     save_str ITEM_ATTRIBUTE_ARTICLE ATTR_ARTICLE i,
     save_str ITEM_ATTRIBUTE_PLURALNAME ATTR_PLURALNAME i,
     save_int enc32 ITEM_ATTRIBUTE_WEIGHT ATTR_WEIGHT i,
     save_int enc32 ITEM_ATTRIBUTE_ATTACK ATTR_ATTACK i,
     save_int enc32 ITEM_ATTRIBUTE_DEFENSE ATTR_DEFENSE i,
     save_int enc32 ITEM_ATTRIBUTE_EXTRADEFENSE ATTR_EXTRADEFENSE i,
     save_int enc32 ITEM_ATTRIBUTE_ARMOR ATTR_ARMOR i,
     save_int enc8 ITEM_ATTRIBUTE_HITCHANCE ATTR_HITCHANCE i,
     save_int enc8 ITEM_ATTRIBUTE_SHOOTRANGE ATTR_SHOOTRANGE i,
     save_str ITEM_ATTRIBUTE_SPECIAL ATTR_SPECIAL i,
     save_int enc32 ITEM_ATTRIBUTE_UNIQUE_ITEM ATTR_UNIQUE_ITEM i,
     save_str ITEM_ATTRIBUTE_POKEMONHOLDER ATTR_POKEMONHOLDER i,
     save_str ITEM_ATTRIBUTE_POKEMONHOLDERINFO ATTR_POKEMONHOLDERINFO i,
     save_int enc64 ITEM_ATTRIBUTE_POKEMONHOLDERCREATUREID ATTR_POKEMONHOLDERCREATUREID i,
     save_int enc32 ITEM_ATTRIBUTE_HELDY ATTR_ATTRIBUTE_HELDY i,
     save_int enc32 ITEM_ATTRIBUTE_HELDX ATTR_ATTRIBUTE_HELDX i,
     save_int enc32 ITEM_ATTRIBUTE_HELDU ATTR_ATTRIBUTE_HELDU i,
     save_int enc64 ITEM_ATTRIBUTE_BLINK ATTR_ATTRIBUTE_BLINK i,
     save_customs i,
     save_int enc32 ITEM_ATTRIBUTE_DECAYTO ATTR_DECAYTO i,
     save_int enc16 ITEM_ATTRIBUTE_WRAPID ATTR_WRAPID i]"

definition serializeAttr :: "saved_type \<Rightarrow> saved_item \<Rightarrow> byte list \<Rightarrow> byte list" where
  "serializeAttr it i buffer = fold (\<lambda>write buffer. write buffer) (attr_writers it i) buffer"

section \<open>Reading what was written\<close>

text \<open>A writer appends, and reading what it appends applies \<open>e\<close> to the item.\<close>

definition overlays :: "saved_type \<Rightarrow> (byte list \<Rightarrow> byte list) \<Rightarrow> (saved_item \<Rightarrow> saved_item) \<Rightarrow> bool" where
  "overlays it w e \<longleftrightarrow> (\<forall>buffer. w buffer = buffer @ w []) \<and>
     (\<forall>i rest unique. unserializeAttr it \<lparr>rs_item = i, rs_stream = w [] @ rest, rs_unique = unique\<rparr>
       = unserializeAttr it \<lparr>rs_item = e i, rs_stream = rest, rs_unique = unique\<rparr>)"

definition all_overlays :: "saved_type \<Rightarrow> (byte list \<Rightarrow> byte list) list \<Rightarrow> (saved_item \<Rightarrow> saved_item) list \<Rightarrow> bool" where
  "all_overlays it ws es \<longleftrightarrow> list_all2 (overlays it) ws es"

lemma fold_writers: "list_all2 (overlays it) ws es \<Longrightarrow> fold (\<lambda>w b. w b) ws buffer = buffer @ fold (\<lambda>w b. w b) ws []"
proof (induction arbitrary: buffer rule: list_all2_induct)
  case (Cons w ws e es)
  have a: "w buffer = buffer @ w []" for buffer using Cons(1) unfolding overlays_def by blast
  show ?case using Cons(3) [of "w buffer"] Cons(3) [of "w []"] a [of buffer] by (metis append_assoc fold_simps(2))
qed simp

lemma overlays_fold:
  assumes "list_all2 (overlays it) ws es"
  shows "unserializeAttr it \<lparr>rs_item = i, rs_stream = fold (\<lambda>w b. w b) ws [] @ rest, rs_unique = unique\<rparr>
    = unserializeAttr it \<lparr>rs_item = fold (\<lambda>e i. e i) es i, rs_stream = rest, rs_unique = unique\<rparr>"
  using assms
proof (induction arbitrary: i rule: list_all2_induct)
  case (Cons w ws e es)
  have s: "fold (\<lambda>w b. w b) ws (w []) = w [] @ fold (\<lambda>w b. w b) ws []" by (rule fold_writers [OF Cons(2)])
  have "unserializeAttr it \<lparr>rs_item = i, rs_stream = w [] @ r, rs_unique = unique\<rparr>
      = unserializeAttr it \<lparr>rs_item = e i, rs_stream = r, rs_unique = unique\<rparr>" for r
    using Cons(1) unfolding overlays_def by blast
  then show ?case using Cons(3) [of "e i"] by (simp add: s)
qed simp

lemma overlays_skip: "overlays it (save_if False code w) (\<lambda>i. i)"
  by (simp add: overlays_def save_if_def)

lemma read_code: "prop_read dec8 1 (enc8 c @ ps) = Some (c, ps)"
  by (rule mem8.prop_read_enc)

text \<open>One attribute whose reader reads the value written.\<close>

lemma overlays_read:
  assumes w: "\<And>buffer. w buffer = buffer @ w []" and nz: "code \<noteq> 0"
    and rd: "\<And>i rest unique. readAttr it code \<lparr>rs_item = i, rs_stream = w [] @ rest, rs_unique = unique\<rparr>
      = (ATTR_READ_CONTINUE, \<lparr>rs_item = e i, rs_stream = rest, rs_unique = unique\<rparr>)"
  shows "overlays it (save_if b code w) (if b then e else (\<lambda>i. i))"
proof (cases b)
  case True
  have "save_if b code w buffer = buffer @ enc8 code @ w []" for buffer
    using w [of "prop_write enc8 code buffer"] True by (simp add: save_if_def prop_write_def)
  moreover have "unserializeAttr it \<lparr>rs_item = i, rs_stream = enc8 code @ w [] @ rest, rs_unique = unique\<rparr>
      = unserializeAttr it \<lparr>rs_item = e i, rs_stream = rest, rs_unique = unique\<rparr>" for i rest unique
    unfolding unserializeAttr.simps [of it "\<lparr>rs_item = i, rs_stream = enc8 code @ w [] @ rest, rs_unique = unique\<rparr>"]
    by (simp only: read_code read_state.simps option.case prod.case Let_def nz if_False rd Attr_ReadValue.distinct)
  ultimately show ?thesis using True by (simp add: overlays_def)
next
  case False
  then show ?thesis using overlays_skip [of it code w] by simp
qed

lemma overlays_value:
  assumes "readAttr it code = read_value dec width put" and "code \<noteq> 0"
    and "\<And>rest. prop_read dec width (enc v @ rest) = Some (v, rest)"
  shows "overlays it (save_if b code (prop_write enc v)) (if b then put v else (\<lambda>i. i))"
proof (rule overlays_read)
  show "readAttr it code \<lparr>rs_item = i, rs_stream = prop_write enc v [] @ rest, rs_unique = unique\<rparr>
      = (ATTR_READ_CONTINUE, \<lparr>rs_item = put v i, rs_stream = rest, rs_unique = unique\<rparr>)" for i rest unique
    by (simp only: assms(1) read_value_def read_state.simps prop_write_def append_Nil assms(3) option.case prod.case)
qed (simp_all add: prop_write_def assms(2))

lemma overlays_text:
  assumes "readAttr it code = read_text type" and "code \<noteq> 0" and "length str \<le> 65535"
  shows "overlays it (save_if b code (prop_writeString str)) (if b then setStrAttr type str else (\<lambda>i. i))"
proof (rule overlays_read)
  show "prop_writeString str buffer = buffer @ prop_writeString str []" for buffer
    using assms(3) by (simp add: prop_writeString_def prop_write_def)
  show "readAttr it code \<lparr>rs_item = i, rs_stream = prop_writeString str [] @ rest, rs_unique = unique\<rparr>
      = (ATTR_READ_CONTINUE, \<lparr>rs_item = setStrAttr type str i, rs_stream = rest, rs_unique = unique\<rparr>)" for i rest unique
    using assms(3) prop_readString_write [of str rest] by (simp add: assms(1) read_text_def)
qed (rule assms(2))

text \<open>The custom attributes.\<close>

definition custom_storable :: "custom_value \<Rightarrow> bool" where
  "custom_storable v = (case v of CustomBlank \<Rightarrow> False | CustomString str \<Rightarrow> length str \<le> 65535 | _ \<Rightarrow> True)"

definition put_customs :: "(string \<times> custom_value) list \<Rightarrow> saved_item \<Rightarrow> saved_item" where
  "put_customs m i = fold (\<lambda>(key, v). setCustomAttribute key v) m i"

lemma prop_writeString_append: "prop_writeString str buffer = buffer @ prop_writeString str []"
  by (simp add: prop_writeString_def prop_write_def)

lemma custom_serialize_append: "custom_serialize v buffer = buffer @ custom_serialize v []"
proof (cases v)
  case (CustomString str)
  then show ?thesis
    using prop_writeString_append [of str "buffer @ enc8 1"] prop_writeString_append [of str "enc8 1"] by (simp add: prop_write_def)
qed (simp_all add: prop_write_def)

lemma custom_read_back: "custom_storable v \<Longrightarrow> custom_unserialize (custom_serialize v [] @ rest) = (Some v, rest)"
proof (cases v)
  case (CustomString str)
  assume "custom_storable v"
  then show ?thesis
    using CustomString prop_writeString_append [of str "enc8 1"] prop_readString_write [of str rest]
    by (simp add: custom_storable_def custom_unserialize_def prop_write_def read_code del: One_nat_def)
qed (simp_all add: custom_storable_def custom_unserialize_def prop_write_def read_code mem64.prop_read_enc del: One_nat_def)

lemma customs_append:
  "fold (\<lambda>(key, v) buffer. custom_serialize v (prop_writeString key buffer)) m buffer
    = buffer @ fold (\<lambda>(key, v) buffer. custom_serialize v (prop_writeString key buffer)) m []"
proof (induction m arbitrary: buffer)
  case (Cons kv m)
  obtain k v where kv: "kv = (k, v)" by (cases kv)
  have e: "custom_serialize v (prop_writeString k b) = b @ custom_serialize v (prop_writeString k [])" for b
    using custom_serialize_append prop_writeString_append by (metis append_assoc)
  show ?case
    using Cons [of "custom_serialize v (prop_writeString k buffer)"] Cons [of "custom_serialize v (prop_writeString k [])"] e [of buffer]
    by (simp add: kv)
qed simp

lemma read_customs_back:
  assumes "\<forall>(k, v) \<in> set m. length k \<le> 65535 \<and> custom_storable v"
  shows "read_customs (length m) \<lparr>rs_item = i,
      rs_stream = fold (\<lambda>(key, v) buffer. custom_serialize v (prop_writeString key buffer)) m [] @ rest, rs_unique = unique\<rparr>
    = (ATTR_READ_CONTINUE, \<lparr>rs_item = put_customs m i, rs_stream = rest, rs_unique = unique\<rparr>)"
  using assms
proof (induction m arbitrary: i)
  case (Cons kv m)
  obtain k v where kv: "kv = (k, v)" by (cases kv)
  have ok: "length k \<le> 65535" "custom_storable v" using Cons.prems kv by auto
  define tail where "tail = fold (\<lambda>(key, v) buffer. custom_serialize v (prop_writeString key buffer)) m [] @ rest"
  have "fold (\<lambda>(key, v) buffer. custom_serialize v (prop_writeString key buffer)) (kv # m) [] @ rest
      = prop_writeString k [] @ custom_serialize v [] @ tail"
    using customs_append [of m "custom_serialize v (prop_writeString k [])"] custom_serialize_append [of v "prop_writeString k []"]
    by (simp add: kv tail_def)
  then show ?case
    using Cons.IH [of "setCustomAttribute k v i"] Cons.prems ok
      prop_readString_write [of k "custom_serialize v [] @ tail"] custom_read_back [of v tail]
    by (simp add: kv put_customs_def tail_def)
qed (simp add: put_customs_def)

lemma overlays_customs:
  assumes "readAttr it code = read_custom_map" and "code \<noteq> 0" and "length m < 2 ^ 64"
    and "\<forall>(k, v) \<in> set m. length k \<le> 65535 \<and> custom_storable v"
  shows "overlays it (save_if b code (save_custom_map m)) (if b then put_customs m else (\<lambda>i. i))"
proof (rule overlays_read)
  show "save_custom_map m buffer = buffer @ save_custom_map m []" for buffer
    using customs_append [of m "buffer @ enc64 (of_nat (length m))"] customs_append [of m "enc64 (of_nat (length m))"]
    by (simp add: save_custom_map_def prop_write_def)
  have n: "unat (of_nat (length m) :: u64) = length m" using assms(3) by (simp add: unat_of_nat)
  show "readAttr it code \<lparr>rs_item = i, rs_stream = save_custom_map m [] @ rest, rs_unique = unique\<rparr>
      = (ATTR_READ_CONTINUE, \<lparr>rs_item = put_customs m i, rs_stream = rest, rs_unique = unique\<rparr>)" for i rest unique
    using customs_append [of m "enc64 (of_nat (length m))"] read_customs_back [OF assms(4)]
    by (simp add: assms(1) read_custom_map_def save_custom_map_def prop_write_def mem64.prop_read_enc n)
qed (rule assms(2))

subsection \<open>All attributes\<close>

lemma readers:
  "readAttr it ATTR_CUSTOM_ATTRIBUTES = read_custom_map"
  "readAttr it ATTR_COUNT = read_value dec16 2 (setSubType it)"
  "readAttr it ATTR_AUTOOPEN = read_value dec8 1 (put_i8 ITEM_ATTRIBUTE_AUTOOPEN)"
  "readAttr it ATTR_ACTION_ID = read_value dec16 2 setActionId"
  "readAttr it ATTR_TEXT = read_text ITEM_ATTRIBUTE_TEXT"
  "readAttr it ATTR_WRITTENDATE = read_value dec32 4 (put_i32 ITEM_ATTRIBUTE_DATE)"
  "readAttr it ATTR_WRITTENBY = read_text ITEM_ATTRIBUTE_WRITER"
  "readAttr it ATTR_DESC = read_text ITEM_ATTRIBUTE_DESCRIPTION"
  "readAttr it ATTR_CHARGES = read_value dec16 2 (setSubType it)"
  "readAttr it ATTR_DURATION = read_value dec32 4 put_duration"
  "readAttr it ATTR_DECAYING_STATE = read_value dec8 1 put_decaying"
  "readAttr it ATTR_NAME = read_text ITEM_ATTRIBUTE_NAME"
  "readAttr it ATTR_ARTICLE = read_text ITEM_ATTRIBUTE_ARTICLE"
  "readAttr it ATTR_PLURALNAME = read_text ITEM_ATTRIBUTE_PLURALNAME"
  "readAttr it ATTR_WEIGHT = read_value dec32 4 (put_u32 ITEM_ATTRIBUTE_WEIGHT)"
  "readAttr it ATTR_ATTACK = read_value dec32 4 (put_i32 ITEM_ATTRIBUTE_ATTACK)"
  "readAttr it ATTR_DEFENSE = read_value dec32 4 (put_i32 ITEM_ATTRIBUTE_DEFENSE)"
  "readAttr it ATTR_EXTRADEFENSE = read_value dec32 4 (put_i32 ITEM_ATTRIBUTE_EXTRADEFENSE)"
  "readAttr it ATTR_ARMOR = read_value dec32 4 (put_i32 ITEM_ATTRIBUTE_ARMOR)"
  "readAttr it ATTR_HITCHANCE = read_value dec8 1 (put_i8 ITEM_ATTRIBUTE_HITCHANCE)"
  "readAttr it ATTR_SHOOTRANGE = read_value dec8 1 (put_u8 ITEM_ATTRIBUTE_SHOOTRANGE)"
  "readAttr it ATTR_SPECIAL = read_text ITEM_ATTRIBUTE_SPECIAL"
  "readAttr it ATTR_UNIQUE_ITEM = read_value dec32 4 (put_i32 ITEM_ATTRIBUTE_UNIQUE_ITEM)"
  "readAttr it ATTR_POKEMONHOLDER = read_text ITEM_ATTRIBUTE_POKEMONHOLDER"
  "readAttr it ATTR_POKEMONHOLDERINFO = read_text ITEM_ATTRIBUTE_POKEMONHOLDERINFO"
  "readAttr it ATTR_POKEMONHOLDERCREATUREID = read_value dec64 8 (setIntAttr ITEM_ATTRIBUTE_POKEMONHOLDERCREATUREID)"
  "readAttr it ATTR_ATTRIBUTE_HELDX = read_value dec32 4 (put_i32 ITEM_ATTRIBUTE_HELDX)"
  "readAttr it ATTR_ATTRIBUTE_HELDY = read_value dec32 4 (put_i32 ITEM_ATTRIBUTE_HELDY)"
  "readAttr it ATTR_ATTRIBUTE_HELDU = read_value dec32 4 (put_i32 ITEM_ATTRIBUTE_HELDU)"
  "readAttr it ATTR_ATTRIBUTE_BLINK = read_value dec64 8 (setIntAttr ITEM_ATTRIBUTE_BLINK)"
  "readAttr it ATTR_DECAYTO = read_value dec32 4 (put_i32 ITEM_ATTRIBUTE_DECAYTO)"
  "readAttr it ATTR_WRAPID = read_value dec16 2 (put_u16 ITEM_ATTRIBUTE_WRAPID)"
  by (simp_all add: readAttr_def readAttr_fields_def readAttr_others_def attr_codes)

lemma attr_codes_nonzero:
  "ATTR_CUSTOM_ATTRIBUTES \<noteq> 0" "ATTR_COUNT \<noteq> 0" "ATTR_AUTOOPEN \<noteq> 0" "ATTR_ACTION_ID \<noteq> 0" "ATTR_TEXT \<noteq> 0" "ATTR_WRITTENDATE \<noteq> 0" "ATTR_WRITTENBY \<noteq> 0" "ATTR_DESC \<noteq> 0" "ATTR_CHARGES \<noteq> 0" "ATTR_DURATION \<noteq> 0" "ATTR_DECAYING_STATE \<noteq> 0" "ATTR_NAME \<noteq> 0" "ATTR_ARTICLE \<noteq> 0" "ATTR_PLURALNAME \<noteq> 0" "ATTR_WEIGHT \<noteq> 0" "ATTR_ATTACK \<noteq> 0" "ATTR_DEFENSE \<noteq> 0" "ATTR_EXTRADEFENSE \<noteq> 0" "ATTR_ARMOR \<noteq> 0" "ATTR_HITCHANCE \<noteq> 0" "ATTR_SHOOTRANGE \<noteq> 0" "ATTR_SPECIAL \<noteq> 0" "ATTR_UNIQUE_ITEM \<noteq> 0" "ATTR_POKEMONHOLDER \<noteq> 0" "ATTR_POKEMONHOLDERINFO \<noteq> 0" "ATTR_POKEMONHOLDERCREATUREID \<noteq> 0" "ATTR_ATTRIBUTE_HELDX \<noteq> 0" "ATTR_ATTRIBUTE_HELDY \<noteq> 0" "ATTR_ATTRIBUTE_HELDU \<noteq> 0" "ATTR_ATTRIBUTE_BLINK \<noteq> 0" "ATTR_DECAYTO \<noteq> 0" "ATTR_WRAPID \<noteq> 0"
  by (simp_all add: attr_codes)

definition attr_effects :: "saved_type \<Rightarrow> saved_item \<Rightarrow> (saved_item \<Rightarrow> saved_item) list" where
  "attr_effects it i = [
     (if st_stackable it \<or> st_fluidContainer it \<or> st_splash it then setSubType it (getSubType it i) else (\<lambda>i. i)),
     (if getCharges i \<noteq> 0 then setSubType it (getCharges i) else (\<lambda>i. i)),
     (if st_moveable it \<and> getActionId i \<noteq> 0 then setActionId (getActionId i) else (\<lambda>i. i)),
     (if getStrAttr ITEM_ATTRIBUTE_TEXT i \<noteq> [] then setStrAttr ITEM_ATTRIBUTE_TEXT (getStrAttr ITEM_ATTRIBUTE_TEXT i) else (\<lambda>i. i)),
     (if getIntAttr ITEM_ATTRIBUTE_DATE i \<noteq> 0 then put_i32 ITEM_ATTRIBUTE_DATE (ucast (getIntAttr ITEM_ATTRIBUTE_DATE i)) else (\<lambda>i. i)),
     (if getStrAttr ITEM_ATTRIBUTE_WRITER i \<noteq> [] then setStrAttr ITEM_ATTRIBUTE_WRITER (getStrAttr ITEM_ATTRIBUTE_WRITER i) else (\<lambda>i. i)),
     (if getStrAttr ITEM_ATTRIBUTE_DESCRIPTION i \<noteq> [] then setStrAttr ITEM_ATTRIBUTE_DESCRIPTION (getStrAttr ITEM_ATTRIBUTE_DESCRIPTION i) else (\<lambda>i. i)),
     (if hasAttribute ITEM_ATTRIBUTE_AUTOOPEN i then put_i8 ITEM_ATTRIBUTE_AUTOOPEN (ucast (getIntAttr ITEM_ATTRIBUTE_AUTOOPEN i)) else (\<lambda>i. i)),
     (if hasAttribute ITEM_ATTRIBUTE_DURATION i then put_duration (ucast (getIntAttr ITEM_ATTRIBUTE_DURATION i)) else (\<lambda>i. i)),
     (if getDecaying i = DECAYING_TRUE \<or> getDecaying i = DECAYING_PENDING then put_decaying (getDecaying i) else (\<lambda>i. i)),
     (if hasAttribute ITEM_ATTRIBUTE_NAME i then setStrAttr ITEM_ATTRIBUTE_NAME (getStrAttr ITEM_ATTRIBUTE_NAME i) else (\<lambda>i. i)),
     (if hasAttribute ITEM_ATTRIBUTE_ARTICLE i then setStrAttr ITEM_ATTRIBUTE_ARTICLE (getStrAttr ITEM_ATTRIBUTE_ARTICLE i) else (\<lambda>i. i)),
     (if hasAttribute ITEM_ATTRIBUTE_PLURALNAME i then setStrAttr ITEM_ATTRIBUTE_PLURALNAME (getStrAttr ITEM_ATTRIBUTE_PLURALNAME i) else (\<lambda>i. i)),
     (if hasAttribute ITEM_ATTRIBUTE_WEIGHT i then put_u32 ITEM_ATTRIBUTE_WEIGHT (ucast (getIntAttr ITEM_ATTRIBUTE_WEIGHT i)) else (\<lambda>i. i)),
     (if hasAttribute ITEM_ATTRIBUTE_ATTACK i then put_i32 ITEM_ATTRIBUTE_ATTACK (ucast (getIntAttr ITEM_ATTRIBUTE_ATTACK i)) else (\<lambda>i. i)),
     (if hasAttribute ITEM_ATTRIBUTE_DEFENSE i then put_i32 ITEM_ATTRIBUTE_DEFENSE (ucast (getIntAttr ITEM_ATTRIBUTE_DEFENSE i)) else (\<lambda>i. i)),
     (if hasAttribute ITEM_ATTRIBUTE_EXTRADEFENSE i then put_i32 ITEM_ATTRIBUTE_EXTRADEFENSE (ucast (getIntAttr ITEM_ATTRIBUTE_EXTRADEFENSE i)) else (\<lambda>i. i)),
     (if hasAttribute ITEM_ATTRIBUTE_ARMOR i then put_i32 ITEM_ATTRIBUTE_ARMOR (ucast (getIntAttr ITEM_ATTRIBUTE_ARMOR i)) else (\<lambda>i. i)),
     (if hasAttribute ITEM_ATTRIBUTE_HITCHANCE i then put_i8 ITEM_ATTRIBUTE_HITCHANCE (ucast (getIntAttr ITEM_ATTRIBUTE_HITCHANCE i)) else (\<lambda>i. i)),
     (if hasAttribute ITEM_ATTRIBUTE_SHOOTRANGE i then put_u8 ITEM_ATTRIBUTE_SHOOTRANGE (ucast (getIntAttr ITEM_ATTRIBUTE_SHOOTRANGE i)) else (\<lambda>i. i)),
     (if hasAttribute ITEM_ATTRIBUTE_SPECIAL i then setStrAttr ITEM_ATTRIBUTE_SPECIAL (getStrAttr ITEM_ATTRIBUTE_SPECIAL i) else (\<lambda>i. i)),
     (if hasAttribute ITEM_ATTRIBUTE_UNIQUE_ITEM i then put_i32 ITEM_ATTRIBUTE_UNIQUE_ITEM (ucast (getIntAttr ITEM_ATTRIBUTE_UNIQUE_ITEM i)) else (\<lambda>i. i)),
     (if hasAttribute ITEM_ATTRIBUTE_POKEMONHOLDER i then setStrAttr ITEM_ATTRIBUTE_POKEMONHOLDER (getStrAttr ITEM_ATTRIBUTE_POKEMONHOLDER i) else (\<lambda>i. i)),
     (if hasAttribute ITEM_ATTRIBUTE_POKEMONHOLDERINFO i then setStrAttr ITEM_ATTRIBUTE_POKEMONHOLDERINFO (getStrAttr ITEM_ATTRIBUTE_POKEMONHOLDERINFO i) else (\<lambda>i. i)),
     (if hasAttribute ITEM_ATTRIBUTE_POKEMONHOLDERCREATUREID i then setIntAttr ITEM_ATTRIBUTE_POKEMONHOLDERCREATUREID (ucast (getIntAttr ITEM_ATTRIBUTE_POKEMONHOLDERCREATUREID i)) else (\<lambda>i. i)),
     (if hasAttribute ITEM_ATTRIBUTE_HELDY i then put_i32 ITEM_ATTRIBUTE_HELDY (ucast (getIntAttr ITEM_ATTRIBUTE_HELDY i)) else (\<lambda>i. i)),
     (if hasAttribute ITEM_ATTRIBUTE_HELDX i then put_i32 ITEM_ATTRIBUTE_HELDX (ucast (getIntAttr ITEM_ATTRIBUTE_HELDX i)) else (\<lambda>i. i)),
     (if hasAttribute ITEM_ATTRIBUTE_HELDU i then put_i32 ITEM_ATTRIBUTE_HELDU (ucast (getIntAttr ITEM_ATTRIBUTE_HELDU i)) else (\<lambda>i. i)),
     (if hasAttribute ITEM_ATTRIBUTE_BLINK i then setIntAttr ITEM_ATTRIBUTE_BLINK (ucast (getIntAttr ITEM_ATTRIBUTE_BLINK i)) else (\<lambda>i. i)),
     (if hasAttribute ITEM_ATTRIBUTE_CUSTOM i then put_customs (case getCustomAttributeMap (getAttributes i) of None \<Rightarrow> [] | Some m \<Rightarrow> m) else (\<lambda>i. i)),
     (if hasAttribute ITEM_ATTRIBUTE_DECAYTO i then put_i32 ITEM_ATTRIBUTE_DECAYTO (ucast (getIntAttr ITEM_ATTRIBUTE_DECAYTO i)) else (\<lambda>i. i)),
     (if hasAttribute ITEM_ATTRIBUTE_WRAPID i then put_u16 ITEM_ATTRIBUTE_WRAPID (ucast (getIntAttr ITEM_ATTRIBUTE_WRAPID i)) else (\<lambda>i. i))]"

text \<open>What the field of an attribute gives back of a number.\<close>

definition read_back :: "itemAttrTypes \<Rightarrow> u64 \<Rightarrow> u64" where
  "read_back t n =
     (if t \<in> {ITEM_ATTRIBUTE_AUTOOPEN, ITEM_ATTRIBUTE_HITCHANCE} then scast (ucast n :: byte)
      else if t = ITEM_ATTRIBUTE_SHOOTRANGE then ucast (ucast n :: byte)
      else if t = ITEM_ATTRIBUTE_WRAPID then ucast (ucast n :: u16)
      else if t = ITEM_ATTRIBUTE_WEIGHT then ucast (ucast n :: u32)
      else if t = ITEM_ATTRIBUTE_DURATION then word_of_int (max 0 (sint (ucast n :: u32)))
      else if t \<in> {ITEM_ATTRIBUTE_POKEMONHOLDERCREATUREID, ITEM_ATTRIBUTE_BLINK} then n
      else scast (ucast n :: u32))"

text \<open>The assignments these effects amount to: whether, to which type, and of what value.\<close>

definition assignments1 :: "saved_type \<Rightarrow> saved_item \<Rightarrow> (bool \<times> itemAttrTypes \<times> attr_value) list" where
  "assignments1 it i = [
     (st_moveable it \<and> getActionId i \<noteq> 0, ITEM_ATTRIBUTE_ACTIONID, AttrInteger (ucast (max 100 (getActionId i)))),
     (hasAttribute ITEM_ATTRIBUTE_TEXT i, ITEM_ATTRIBUTE_TEXT, AttrString (getStrAttr ITEM_ATTRIBUTE_TEXT i)),
     (getIntAttr ITEM_ATTRIBUTE_DATE i \<noteq> 0, ITEM_ATTRIBUTE_DATE, AttrInteger (read_back ITEM_ATTRIBUTE_DATE (getIntAttr ITEM_ATTRIBUTE_DATE i))),
     (hasAttribute ITEM_ATTRIBUTE_WRITER i, ITEM_ATTRIBUTE_WRITER, AttrString (getStrAttr ITEM_ATTRIBUTE_WRITER i)),
     (hasAttribute ITEM_ATTRIBUTE_DESCRIPTION i, ITEM_ATTRIBUTE_DESCRIPTION, AttrString (getStrAttr ITEM_ATTRIBUTE_DESCRIPTION i)),
     (hasAttribute ITEM_ATTRIBUTE_AUTOOPEN i, ITEM_ATTRIBUTE_AUTOOPEN, AttrInteger (read_back ITEM_ATTRIBUTE_AUTOOPEN (getIntAttr ITEM_ATTRIBUTE_AUTOOPEN i))),
     (hasAttribute ITEM_ATTRIBUTE_DURATION i, ITEM_ATTRIBUTE_DURATION, AttrInteger (read_back ITEM_ATTRIBUTE_DURATION (getIntAttr ITEM_ATTRIBUTE_DURATION i))),
     (getDecaying i = DECAYING_TRUE \<or> getDecaying i = DECAYING_PENDING, ITEM_ATTRIBUTE_DECAYSTATE, AttrInteger (ucast DECAYING_PENDING)),
     (hasAttribute ITEM_ATTRIBUTE_NAME i, ITEM_ATTRIBUTE_NAME, AttrString (getStrAttr ITEM_ATTRIBUTE_NAME i)),
     (hasAttribute ITEM_ATTRIBUTE_ARTICLE i, ITEM_ATTRIBUTE_ARTICLE, AttrString (getStrAttr ITEM_ATTRIBUTE_ARTICLE i)),
     (hasAttribute ITEM_ATTRIBUTE_PLURALNAME i, ITEM_ATTRIBUTE_PLURALNAME, AttrString (getStrAttr ITEM_ATTRIBUTE_PLURALNAME i)),
     (hasAttribute ITEM_ATTRIBUTE_WEIGHT i, ITEM_ATTRIBUTE_WEIGHT, AttrInteger (read_back ITEM_ATTRIBUTE_WEIGHT (getIntAttr ITEM_ATTRIBUTE_WEIGHT i))),
     (hasAttribute ITEM_ATTRIBUTE_ATTACK i, ITEM_ATTRIBUTE_ATTACK, AttrInteger (read_back ITEM_ATTRIBUTE_ATTACK (getIntAttr ITEM_ATTRIBUTE_ATTACK i))),
     (hasAttribute ITEM_ATTRIBUTE_DEFENSE i, ITEM_ATTRIBUTE_DEFENSE, AttrInteger (read_back ITEM_ATTRIBUTE_DEFENSE (getIntAttr ITEM_ATTRIBUTE_DEFENSE i))),
     (hasAttribute ITEM_ATTRIBUTE_EXTRADEFENSE i, ITEM_ATTRIBUTE_EXTRADEFENSE, AttrInteger (read_back ITEM_ATTRIBUTE_EXTRADEFENSE (getIntAttr ITEM_ATTRIBUTE_EXTRADEFENSE i))),
     (hasAttribute ITEM_ATTRIBUTE_ARMOR i, ITEM_ATTRIBUTE_ARMOR, AttrInteger (read_back ITEM_ATTRIBUTE_ARMOR (getIntAttr ITEM_ATTRIBUTE_ARMOR i))),
     (hasAttribute ITEM_ATTRIBUTE_HITCHANCE i, ITEM_ATTRIBUTE_HITCHANCE, AttrInteger (read_back ITEM_ATTRIBUTE_HITCHANCE (getIntAttr ITEM_ATTRIBUTE_HITCHANCE i))),
     (hasAttribute ITEM_ATTRIBUTE_SHOOTRANGE i, ITEM_ATTRIBUTE_SHOOTRANGE, AttrInteger (read_back ITEM_ATTRIBUTE_SHOOTRANGE (getIntAttr ITEM_ATTRIBUTE_SHOOTRANGE i))),
     (hasAttribute ITEM_ATTRIBUTE_SPECIAL i, ITEM_ATTRIBUTE_SPECIAL, AttrString (getStrAttr ITEM_ATTRIBUTE_SPECIAL i)),
     (hasAttribute ITEM_ATTRIBUTE_UNIQUE_ITEM i, ITEM_ATTRIBUTE_UNIQUE_ITEM, AttrInteger (read_back ITEM_ATTRIBUTE_UNIQUE_ITEM (getIntAttr ITEM_ATTRIBUTE_UNIQUE_ITEM i))),
     (hasAttribute ITEM_ATTRIBUTE_POKEMONHOLDER i, ITEM_ATTRIBUTE_POKEMONHOLDER, AttrString (getStrAttr ITEM_ATTRIBUTE_POKEMONHOLDER i)),
     (hasAttribute ITEM_ATTRIBUTE_POKEMONHOLDERINFO i, ITEM_ATTRIBUTE_POKEMONHOLDERINFO, AttrString (getStrAttr ITEM_ATTRIBUTE_POKEMONHOLDERINFO i)),
     (hasAttribute ITEM_ATTRIBUTE_POKEMONHOLDERCREATUREID i, ITEM_ATTRIBUTE_POKEMONHOLDERCREATUREID, AttrInteger (read_back ITEM_ATTRIBUTE_POKEMONHOLDERCREATUREID (getIntAttr ITEM_ATTRIBUTE_POKEMONHOLDERCREATUREID i))),
     (hasAttribute ITEM_ATTRIBUTE_HELDY i, ITEM_ATTRIBUTE_HELDY, AttrInteger (read_back ITEM_ATTRIBUTE_HELDY (getIntAttr ITEM_ATTRIBUTE_HELDY i))),
     (hasAttribute ITEM_ATTRIBUTE_HELDX i, ITEM_ATTRIBUTE_HELDX, AttrInteger (read_back ITEM_ATTRIBUTE_HELDX (getIntAttr ITEM_ATTRIBUTE_HELDX i))),
     (hasAttribute ITEM_ATTRIBUTE_HELDU i, ITEM_ATTRIBUTE_HELDU, AttrInteger (read_back ITEM_ATTRIBUTE_HELDU (getIntAttr ITEM_ATTRIBUTE_HELDU i))),
     (hasAttribute ITEM_ATTRIBUTE_BLINK i, ITEM_ATTRIBUTE_BLINK, AttrInteger (read_back ITEM_ATTRIBUTE_BLINK (getIntAttr ITEM_ATTRIBUTE_BLINK i)))]"

definition assignments2 :: "saved_item \<Rightarrow> (bool \<times> itemAttrTypes \<times> attr_value) list" where
  "assignments2 i = [
     (hasAttribute ITEM_ATTRIBUTE_DECAYTO i, ITEM_ATTRIBUTE_DECAYTO, AttrInteger (read_back ITEM_ATTRIBUTE_DECAYTO (getIntAttr ITEM_ATTRIBUTE_DECAYTO i))),
     (hasAttribute ITEM_ATTRIBUTE_WRAPID i, ITEM_ATTRIBUTE_WRAPID, AttrInteger (read_back ITEM_ATTRIBUTE_WRAPID (getIntAttr ITEM_ATTRIBUTE_WRAPID i)))]"

text \<open>When an item can be written so that it can be read: its strings have a length that fits in 16 bits, and
  no custom attribute is blank.\<close>

definition value_writable :: "attr_value \<Rightarrow> bool" where
  "value_writable v = (case v of
       AttrInteger n \<Rightarrow> True
     | AttrString str \<Rightarrow> length str \<le> 65535
     | AttrCustom m \<Rightarrow> length m < 2 ^ 64 \<and> (\<forall>(k, w) \<in> set m. length k \<le> 65535 \<and> custom_storable w))"

definition look :: "itemAttrTypes \<Rightarrow> saved_item \<Rightarrow> attr_value option" where
  "look t i = getExistingAttr t (getAttributes i)"

definition writable :: "saved_item \<Rightarrow> bool" where
  "writable i \<longleftrightarrow> attrs_ok (getAttributes i) \<and> (\<forall>(t, v) \<in> set (ia_list (getAttributes i)). value_writable v)"

lemma writable_look: "writable i \<Longrightarrow> look t i = Some v \<Longrightarrow> value_writable v \<and> value_fits t v"
  by (auto simp: writable_def look_def getExistingAttr_map attrs_ok_def dest!: map_of_SomeD)

lemma item_access:
  "hasAttribute t i = attr_hasAttribute t (getAttributes i)" "getIntAttr t i = attr_getIntAttr t (getAttributes i)"
  "getStrAttr t i = attr_getStrAttr t (getAttributes i)"
  by (simp_all add: hasAttribute_def getIntAttr_def getStrAttr_def getAttributes_def attr_hasAttribute_def no_attributes_def
      attr_getIntAttr_def attr_getStrAttr_def getExistingAttr_def split: option.split)

lemma kinds_differ: "isIntAttrType t \<Longrightarrow> \<not> isStrAttrType t \<and> t \<noteq> ITEM_ATTRIBUTE_CUSTOM"
  by (cases t) (simp_all add: attr_kinds)

lemma look_int:
  assumes "writable i" and "isIntAttrType t"
  shows "look t i = (if hasAttribute t i then Some (AttrInteger (getIntAttr t i)) else None)"
    and "\<not> hasAttribute t i \<Longrightarrow> getIntAttr t i = 0"
proof -
  have ok: "attrs_ok (getAttributes i)" using assms(1) by (simp add: writable_def)
  have k: "v = AttrInteger (attr_integer v)" if "look t i = Some v" for v
    using writable_look [OF assms(1) that] kinds_differ [OF assms(2)]
    by (auto simp: value_fits_def attr_integer_def split: attr_value.splits)
  show l: "look t i = (if hasAttribute t i then Some (AttrInteger (getIntAttr t i)) else None)"
    using k by (auto simp: item_access hasAttribute_existing [OF ok] look_def attr_getIntAttr_def assms(2))
  show "\<not> hasAttribute t i \<Longrightarrow> getIntAttr t i = 0"
    using l by (simp add: item_access hasAttribute_existing [OF ok] attr_getIntAttr_def)
qed

lemma look_str:
  assumes "writable i" and "isStrAttrType t"
  shows "look t i = (if hasAttribute t i then Some (AttrString (getStrAttr t i)) else None)"
    and "length (getStrAttr t i) \<le> 65535" and "hasAttribute t i \<longleftrightarrow> getStrAttr t i \<noteq> []"
proof -
  have ok: "attrs_ok (getAttributes i)" using assms(1) by (simp add: writable_def)
  have k: "v = AttrString (attr_string v) \<and> attr_string v \<noteq> []" if "look t i = Some v" for v
    using writable_look [OF assms(1) that] kinds_differ [of t] assms(2) custom_kind
    by (auto simp: value_fits_def attr_string_def split: attr_value.splits)
  show l: "look t i = (if hasAttribute t i then Some (AttrString (getStrAttr t i)) else None)"
    using k by (auto simp: item_access hasAttribute_existing [OF ok] look_def attr_getStrAttr_def assms(2))
  show n: "hasAttribute t i \<longleftrightarrow> getStrAttr t i \<noteq> []"
    using k by (auto simp: item_access hasAttribute_existing [OF ok] look_def attr_getStrAttr_def assms(2) split: option.splits)
  show "length (getStrAttr t i) \<le> 65535"
    using writable_look [OF assms(1), of t "AttrString (getStrAttr t i)"] l n by (cases "hasAttribute t i") (auto simp: value_writable_def)
qed

lemma str_kinds: "\<forall>t \<in> {ITEM_ATTRIBUTE_TEXT, ITEM_ATTRIBUTE_WRITER, ITEM_ATTRIBUTE_DESCRIPTION, ITEM_ATTRIBUTE_NAME,
    ITEM_ATTRIBUTE_ARTICLE, ITEM_ATTRIBUTE_PLURALNAME, ITEM_ATTRIBUTE_SPECIAL, ITEM_ATTRIBUTE_POKEMONHOLDER,
    ITEM_ATTRIBUTE_POKEMONHOLDERINFO}. isStrAttrType t"
  by (simp add: attr_kinds)

lemma writers_overlay:
  assumes "writable i"
  shows "list_all2 (overlays it) (attr_writers it i) (attr_effects it i)"
proof -
  have len: "length (getStrAttr t i) \<le> 65535" if "t \<in> {ITEM_ATTRIBUTE_TEXT, ITEM_ATTRIBUTE_WRITER, ITEM_ATTRIBUTE_DESCRIPTION,
      ITEM_ATTRIBUTE_NAME, ITEM_ATTRIBUTE_ARTICLE, ITEM_ATTRIBUTE_PLURALNAME, ITEM_ATTRIBUTE_SPECIAL,
      ITEM_ATTRIBUTE_POKEMONHOLDER, ITEM_ATTRIBUTE_POKEMONHOLDERINFO}" for t
    using look_str(2) [OF assms] str_kinds that by blast
  define m where "m = (case getCustomAttributeMap (getAttributes i) of None \<Rightarrow> [] | Some m \<Rightarrow> m)"
  have m: "length m < 2 ^ 64" "\<forall>(k, v) \<in> set m. length k \<le> 65535 \<and> custom_storable v"
  proof -
    have "m = [] \<or> (\<exists>v. look ITEM_ATTRIBUTE_CUSTOM i = Some v \<and> m = attr_custom v)"
      by (auto simp: m_def getCustomAttributeMap_def look_def split: option.split)
    moreover have "v = AttrCustom (attr_custom v)" if "look ITEM_ATTRIBUTE_CUSTOM i = Some v" for v
      using custom_existing(1) [of "getAttributes i" v] assms that by (simp add: look_def writable_def)
    ultimately have "m = [] \<or> value_writable (AttrCustom m)"
      using writable_look [OF assms, of ITEM_ATTRIBUTE_CUSTOM] by metis
    then show "length m < 2 ^ 64" "\<forall>(k, v) \<in> set m. length k \<le> 65535 \<and> custom_storable v"
      by (auto simp: value_writable_def)
  qed
  note enc = mem8.prop_read_enc mem16.prop_read_enc mem32.prop_read_enc mem64.prop_read_enc
  show ?thesis
    unfolding attr_writers_def attr_effects_def save_int_def save_str_def save_customs_def m_def [symmetric]
    by (intro list.rel_intros;
      ((rule overlays_value, rule readers, rule attr_codes_nonzero, rule enc)
        | (rule overlays_text, rule readers, rule attr_codes_nonzero, rule len, simp)
        | (rule overlays_customs, rule readers, rule attr_codes_nonzero, rule m, rule m)))
qed

text \<open>The effects as assignments.\<close>

definition put_if :: "bool \<times> itemAttrTypes \<times> attr_value \<Rightarrow> saved_item \<Rightarrow> saved_item" where
  "put_if = (\<lambda>(b, t, v). if b then map_attributes (assign_attr t (\<lambda>_. v)) else (\<lambda>i. i))"

lemma set_as_put:
  "isIntAttrType t \<Longrightarrow> setIntAttr t n = put_if (True, t, AttrInteger n)"
  "isStrAttrType t \<Longrightarrow> str \<noteq> [] \<Longrightarrow> setStrAttr t str = put_if (True, t, AttrString str)"
  by (auto simp: put_if_def setIntAttr_def setStrAttr_def attr_setIntAttr_def attr_setStrAttr_def map_attributes_def fun_eq_iff)

lemma put_if_if: "(if b then put_if (True, t, v) else (\<lambda>i. i)) = put_if (b, t, v)"
  by (simp add: put_if_def)

lemma str_effect:
  assumes "writable i" and "isStrAttrType t"
  shows "(if hasAttribute t i then setStrAttr t (getStrAttr t i) else (\<lambda>i. i)) = put_if (hasAttribute t i, t, AttrString (getStrAttr t i))"
    and "(if getStrAttr t i \<noteq> [] then setStrAttr t (getStrAttr t i) else (\<lambda>i. i)) = put_if (hasAttribute t i, t, AttrString (getStrAttr t i))"
  using look_str(3) [OF assms] set_as_put(2) [OF assms(2), of "getStrAttr t i"] by (auto simp: put_if_def)

lemma sized_effects:
  "t \<in> {ITEM_ATTRIBUTE_AUTOOPEN, ITEM_ATTRIBUTE_HITCHANCE} \<Longrightarrow>
      (if b then put_i8 t (ucast n) else (\<lambda>i. i)) = put_if (b, t, AttrInteger (read_back t n))"
  "t = ITEM_ATTRIBUTE_SHOOTRANGE \<Longrightarrow> (if b then put_u8 t (ucast n) else (\<lambda>i. i)) = put_if (b, t, AttrInteger (read_back t n))"
  "t = ITEM_ATTRIBUTE_WRAPID \<Longrightarrow> (if b then put_u16 t (ucast n) else (\<lambda>i. i)) = put_if (b, t, AttrInteger (read_back t n))"
  "t \<in> {ITEM_ATTRIBUTE_ATTACK, ITEM_ATTRIBUTE_DEFENSE, ITEM_ATTRIBUTE_EXTRADEFENSE, ITEM_ATTRIBUTE_ARMOR, ITEM_ATTRIBUTE_UNIQUE_ITEM}
      \<or> t \<in> {ITEM_ATTRIBUTE_HELDX, ITEM_ATTRIBUTE_HELDY, ITEM_ATTRIBUTE_HELDU, ITEM_ATTRIBUTE_DECAYTO, ITEM_ATTRIBUTE_DATE} \<Longrightarrow>
      (if b then put_i32 t (ucast n) else (\<lambda>i. i)) = put_if (b, t, AttrInteger (read_back t n))"
  "t = ITEM_ATTRIBUTE_WEIGHT \<Longrightarrow> (if b then put_u32 t (ucast n) else (\<lambda>i. i)) = put_if (b, t, AttrInteger (read_back t n))"
  "t \<in> {ITEM_ATTRIBUTE_POKEMONHOLDERCREATUREID, ITEM_ATTRIBUTE_BLINK} \<Longrightarrow>
      (if b then setIntAttr t (ucast n) else (\<lambda>i. i)) = put_if (b, t, AttrInteger (read_back t n))"
  "t = ITEM_ATTRIBUTE_DURATION \<Longrightarrow> (if b then put_duration (ucast n) else (\<lambda>i. i)) = put_if (b, t, AttrInteger (read_back t n))"
  by (auto simp: put_if_def put_i8_def put_u8_def put_u16_def put_i32_def put_u32_def put_duration_def read_back_def set_as_put attr_kinds)

lemma special_effects:
  "(if b then setActionId n else (\<lambda>i. i)) = put_if (b, ITEM_ATTRIBUTE_ACTIONID, AttrInteger (ucast (max 100 n)))"
  "(if getDecaying i = DECAYING_TRUE \<or> getDecaying i = DECAYING_PENDING then put_decaying (getDecaying i) else (\<lambda>i. i))
    = put_if (getDecaying i = DECAYING_TRUE \<or> getDecaying i = DECAYING_PENDING, ITEM_ATTRIBUTE_DECAYSTATE, AttrInteger (ucast DECAYING_PENDING))"
proof -
  have k: "isIntAttrType ITEM_ATTRIBUTE_ACTIONID" "isIntAttrType ITEM_ATTRIBUTE_DECAYSTATE" by (simp_all add: attr_kinds)
  have "(if n < 100 then 100 else n) = max 100 n" unfolding max_def by (auto simp: not_less dest: leD)
  then show "(if b then setActionId n else (\<lambda>i. i)) = put_if (b, ITEM_ATTRIBUTE_ACTIONID, AttrInteger (ucast (max 100 n)))"
    using set_as_put(1) [OF k(1)] by (simp add: setActionId_def put_if_def fun_eq_iff)
  show "(if getDecaying i = DECAYING_TRUE \<or> getDecaying i = DECAYING_PENDING then put_decaying (getDecaying i) else (\<lambda>i. i))
    = put_if (getDecaying i = DECAYING_TRUE \<or> getDecaying i = DECAYING_PENDING, ITEM_ATTRIBUTE_DECAYSTATE, AttrInteger (ucast DECAYING_PENDING))"
    using set_as_put(1) [OF k(2)]
    by (auto simp: put_decaying_def put_if_def DECAYING_TRUE_def DECAYING_PENDING_def DECAYING_FALSE_def fun_eq_iff)
qed

definition subtype_effect :: "bool \<Rightarrow> saved_type \<Rightarrow> u16 \<Rightarrow> saved_item \<Rightarrow> saved_item" where
  "subtype_effect b it n = (if b then setSubType it n else (\<lambda>i. i))"

text \<open>The count is written, and the charges after it, and both are read as the subtype.\<close>

abbreviation counted :: "saved_type \<Rightarrow> bool" where
  "counted it \<equiv> st_stackable it \<or> st_fluidContainer it \<or> st_splash it"

definition customs_effect :: "saved_item \<Rightarrow> saved_item \<Rightarrow> saved_item" where
  "customs_effect i = (if hasAttribute ITEM_ATTRIBUTE_CUSTOM i then put_customs (customs (getAttributes i)) else (\<lambda>i. i))"

lemma effects_are_assignments:
  assumes "writable i"
  shows "attr_effects it i = subtype_effect (counted it) it (getSubType it i) # subtype_effect (getCharges i \<noteq> 0) it (getCharges i)
    # map put_if (assignments1 it i) @ customs_effect i # map put_if (assignments2 i)"
proof -
  have c: "(case getCustomAttributeMap (getAttributes i) of None \<Rightarrow> [] | Some m \<Rightarrow> m) = customs (getAttributes i)"
    by (simp add: getCustomAttributeMap_def customs_def split: option.split)
  have k: "isStrAttrType t" if "t \<in> {ITEM_ATTRIBUTE_TEXT, ITEM_ATTRIBUTE_WRITER, ITEM_ATTRIBUTE_DESCRIPTION, ITEM_ATTRIBUTE_NAME,
      ITEM_ATTRIBUTE_ARTICLE, ITEM_ATTRIBUTE_PLURALNAME, ITEM_ATTRIBUTE_SPECIAL, ITEM_ATTRIBUTE_POKEMONHOLDER,
      ITEM_ATTRIBUTE_POKEMONHOLDERINFO}" for t
    using str_kinds that by blast
  note e = special_effects sized_effects str_effect [OF assms k]
  show ?thesis
    unfolding attr_effects_def assignments1_def assignments2_def subtype_effect_def customs_effect_def c list.map append.simps
    by (intro arg_cong2 [where f = Cons] refl; (rule e; simp))
qed

abbreviation item_ok :: "saved_item \<Rightarrow> bool" where
  "item_ok i \<equiv> attrs_ok (getAttributes i)"

lemma getAttributes_map [simp]: "getAttributes (map_attributes f i) = f (getAttributes i)"
  "si_count (map_attributes f i) = si_count i"
  by (simp_all add: map_attributes_def getAttributes_def)

lemma put_if_one:
  assumes "item_ok j" and "b \<Longrightarrow> value_fits t v"
  shows "item_ok (put_if (b, t, v) j)" and "look t' (put_if (b, t, v) j) = (if b \<and> t' = t then Some v else look t' j)"
    and "si_count (put_if (b, t, v) j) = si_count j"
  using assms assign_attr_map [OF assms(1), of t "\<lambda>_. v"] fits_not_none [of t v] by (auto simp: put_if_def look_def)

definition assigned :: "(bool \<times> itemAttrTypes \<times> attr_value) list \<Rightarrow> itemAttrTypes \<Rightarrow> attr_value option" where
  "assigned xs t = map_of (rev (map snd (filter fst xs))) t"

lemma put_if_fold:
  assumes "item_ok j" and "\<forall>(b, t, v) \<in> set xs. b \<longrightarrow> value_fits t v"
  shows "item_ok (fold (\<lambda>e i. e i) (map put_if xs) j)
    \<and> look t (fold (\<lambda>e i. e i) (map put_if xs) j) = (case assigned xs t of Some v \<Rightarrow> Some v | None \<Rightarrow> look t j)
    \<and> si_count (fold (\<lambda>e i. e i) (map put_if xs) j) = si_count j"
  using assms
proof (induction xs arbitrary: j)
  case (Cons x xs)
  obtain b t' v where x: "x = (b, t', v)" by (cases x)
  have f: "b \<Longrightarrow> value_fits t' v" using Cons.prems(2) x by auto
  note one = put_if_one [of j b t' v, OF Cons.prems(1) f]
  show ?case
    using Cons.IH [OF one(1)] Cons.prems(2) one(2) [of t] one(3)
    by (auto simp: x assigned_def map_add_def split: option.splits)
qed (simp add: assigned_def)

lemma put_customs_all:
  assumes "item_ok j" and "custom_keys m"
  shows "item_ok (put_customs m j) \<and> (t \<noteq> ITEM_ATTRIBUTE_CUSTOM \<longrightarrow> look t (put_customs m j) = look t j)
    \<and> map_of (customs (getAttributes (put_customs m j))) = map_of (customs (getAttributes j)) ++ map_of m
    \<and> si_count (put_customs m j) = si_count j"
  using assms
proof (induction m arbitrary: j)
  case (Cons kv m)
  obtain k v where kv: "kv = (k, v)" by (cases kv)
  have k: "asLowerCaseString k = k" "custom_keys m" "k \<notin> dom (map_of m)"
    using Cons.prems(2) kv by (auto simp: custom_keys_def dom_map_of_conv_image_fst)
  let ?j = "setCustomAttribute k v j"
  have one: "item_ok ?j" "t \<noteq> ITEM_ATTRIBUTE_CUSTOM \<Longrightarrow> look t ?j = look t j"
    "map_of (customs (getAttributes ?j)) = (map_of (customs (getAttributes j)))(k \<mapsto> v)" "si_count ?j = si_count j"
    using setCustom_map [OF Cons.prems(1)] k(1) by (simp_all add: setCustomAttribute_def look_def)
  have e: "map_of (customs (getAttributes ?j)) ++ map_of m = map_of (customs (getAttributes j)) ++ map_of (kv # m)"
    using k(3) by (auto simp: one(3) kv map_add_def fun_eq_iff split: option.split)
  have "put_customs (kv # m) j = put_customs m ?j" by (simp add: kv put_customs_def)
  then show ?case unfolding e [symmetric] using Cons.IH [OF one(1) k(2)] one(2,4) by simp
qed (simp add: put_customs_def)

section \<open>Properties\<close>

text \<open>What of an item comes back: the value of each attribute that is saved, and the count.\<close>

definition saved_value :: "saved_type \<Rightarrow> saved_item \<Rightarrow> itemAttrTypes \<Rightarrow> attr_value option" where
  "saved_value it i t =
     (if t \<in> {ITEM_ATTRIBUTE_UNIQUEID, ITEM_ATTRIBUTE_OWNER, ITEM_ATTRIBUTE_CORPSEOWNER, ITEM_ATTRIBUTE_DOORID} then None
      else if t = ITEM_ATTRIBUTE_FLUIDTYPE then
        (if st_fluidContainer it \<or> st_splash it
         then Some (AttrInteger (ucast (if getCharges i \<noteq> 0 then getCharges i else getFluidType i))) else None)
      else if t = ITEM_ATTRIBUTE_CHARGES then
        (if getCharges i \<noteq> 0 \<and> \<not> counted it \<and> st_charges it \<noteq> 0 then Some (AttrInteger (ucast (getCharges i))) else None)
      else if t = ITEM_ATTRIBUTE_ACTIONID then
        (if st_moveable it \<and> getActionId i \<noteq> 0 then Some (AttrInteger (ucast (max 100 (getActionId i)))) else None)
      else if t = ITEM_ATTRIBUTE_DECAYSTATE then
        (if getDecaying i = DECAYING_TRUE \<or> getDecaying i = DECAYING_PENDING then Some (AttrInteger (ucast DECAYING_PENDING)) else None)
      else if t = ITEM_ATTRIBUTE_DATE \<and> getIntAttr t i = 0 then None
      else if isIntAttrType t then (if hasAttribute t i then Some (AttrInteger (read_back t (getIntAttr t i))) else None)
      else look t i)"

definition saved_count :: "saved_type \<Rightarrow> saved_item \<Rightarrow> u16 option" where
  "saved_count it i =
     (if st_fluidContainer it \<or> st_splash it then None
      else if getCharges i \<noteq> 0 \<and> (st_stackable it \<or> st_charges it = 0) then Some (getCharges i)
      else if st_stackable it then Some (si_count i)
      else None)"

text \<open>When an attribute comes back as it was: a text always, a number when its field holds it and it does not
  share the field of the subtype with another.\<close>

definition comes_back :: "saved_type \<Rightarrow> saved_item \<Rightarrow> itemAttrTypes \<Rightarrow> bool" where
  "comes_back it i t =
     (case look t i of
        Some (AttrString _) \<Rightarrow> True
      | Some (AttrInteger n) \<Rightarrow>
          (if t \<in> {ITEM_ATTRIBUTE_UNIQUEID, ITEM_ATTRIBUTE_OWNER, ITEM_ATTRIBUTE_CORPSEOWNER, ITEM_ATTRIBUTE_DOORID,
                 ITEM_ATTRIBUTE_DECAYSTATE} then False
           else if t = ITEM_ATTRIBUTE_FLUIDTYPE then (st_fluidContainer it \<or> st_splash it) \<and> getCharges i = 0 \<and> n < 2 ^ 16
           else if t = ITEM_ATTRIBUTE_CHARGES then n \<noteq> 0 \<and> n < 2 ^ 16 \<and> \<not> counted it \<and> st_charges it \<noteq> 0
           else if t = ITEM_ATTRIBUTE_ACTIONID then st_moveable it \<and> 100 \<le> n \<and> n < 2 ^ 16
           else if t = ITEM_ATTRIBUTE_DATE then n \<noteq> 0 \<and> read_back t n = n
           else read_back t n = n)
      | _ \<Rightarrow> False)"

lemma ucast_small:
  assumes "n < 2 ^ 16"
  shows "unat (ucast n :: u16) = unat (n :: u64)" and "ucast (ucast n :: u16) = n"
proof -
  have n: "unat n < 65536" using assms by (simp add: word_less_nat_alt)
  then show u: "unat (ucast n :: u16) = unat n" by (simp add: unsigned_ucast_eq take_bit_nat_eq_self)
  have "unat (ucast (ucast n :: u16) :: u64) = unat n"
    using n by (simp add: unsigned_ucast_eq [where w = "ucast n :: u16"] u take_bit_nat_eq_self)
  then show "ucast (ucast n :: u16) = n" by (simp only: word_unat_eq_iff)
qed

lemma comes_back_saved:
  assumes "writable i" and "comes_back it i t"
  shows "saved_value it i t = look t i"
proof (cases "look t i")
  case (Some v)
  show ?thesis
  proof (cases v)
    case (AttrInteger n)
    have "isIntAttrType t"
      using writable_look [OF assms(1) Some] AttrInteger by (auto simp: value_fits_def split: if_splits)
    note l = look_int [OF assms(1) this] this
    have n: "hasAttribute t i" "getIntAttr t i = n" using l(1) Some AttrInteger by (auto split: if_splits)
    have a: "max 100 (ucast n :: u16) = ucast n" if "100 \<le> n" "n < 2 ^ 16"
      using that(1) ucast_small(1) [OF that(2)] by (simp add: max_def word_le_nat_alt)
    show ?thesis
      using assms(2) n l(3) ucast_small(2) [of n] a Some AttrInteger
      by (auto simp: comes_back_def saved_value_def getCharges_def getFluidType_def getActionId_def split: if_splits)
  next
    case (AttrString str)
    have "isStrAttrType t"
      using writable_look [OF assms(1) Some] AttrString by (auto simp: value_fits_def split: if_splits)
    then show ?thesis by (cases t) (simp_all add: saved_value_def attr_kinds)
  next
    case (AttrCustom m)
    then show ?thesis using assms(2) Some by (simp add: comes_back_def)
  qed
qed (use assms(2) in \<open>simp add: comes_back_def\<close>)

lemma assigned_values:
  assumes "writable i"
  shows "\<forall>(b, t, v) \<in> set (assignments1 it i) \<union> set (assignments2 i). b \<longrightarrow> value_fits t v"
proof -
  have "\<forall>t \<in> {ITEM_ATTRIBUTE_TEXT, ITEM_ATTRIBUTE_WRITER, ITEM_ATTRIBUTE_DESCRIPTION, ITEM_ATTRIBUTE_NAME,
      ITEM_ATTRIBUTE_ARTICLE, ITEM_ATTRIBUTE_PLURALNAME, ITEM_ATTRIBUTE_SPECIAL, ITEM_ATTRIBUTE_POKEMONHOLDER,
      ITEM_ATTRIBUTE_POKEMONHOLDERINFO}. hasAttribute t i \<longrightarrow> getStrAttr t i \<noteq> []"
    using look_str(3) [OF assms] str_kinds by blast
  then show ?thesis by (simp add: assignments1_def assignments2_def value_fits_def attr_kinds)
qed

lemma subtype_effect_look:
  assumes "item_ok j"
  shows "item_ok (subtype_effect b it n j)"
    and "look t (subtype_effect b it n j) =
      (if b \<and> (t = ITEM_ATTRIBUTE_FLUIDTYPE \<and> (st_fluidContainer it \<or> st_splash it)
               \<or> t = ITEM_ATTRIBUTE_CHARGES \<and> \<not> counted it \<and> st_charges it \<noteq> 0)
       then Some (AttrInteger (ucast n)) else look t j)"
    and "si_count (subtype_effect b it n j) =
      (if b \<and> \<not> st_fluidContainer it \<and> \<not> st_splash it \<and> (st_stackable it \<or> st_charges it = 0) then n else si_count j)"
proof -
  have k: "isIntAttrType ITEM_ATTRIBUTE_FLUIDTYPE" "isIntAttrType ITEM_ATTRIBUTE_CHARGES" by (simp_all add: attr_kinds)
  have v: "value_fits ITEM_ATTRIBUTE_FLUIDTYPE (AttrInteger m)" "value_fits ITEM_ATTRIBUTE_CHARGES (AttrInteger m)" for m
    by (simp_all add: value_fits_def k)
  note f = put_if_one [of j True ITEM_ATTRIBUTE_FLUIDTYPE "AttrInteger (ucast n)", OF assms v(1)]
    and c = put_if_one [of j True ITEM_ATTRIBUTE_CHARGES "AttrInteger (ucast n)", OF assms v(2)]
  have e: "setSubType it n = (if st_fluidContainer it \<or> st_splash it then put_if (True, ITEM_ATTRIBUTE_FLUIDTYPE, AttrInteger (ucast n))
      else if \<not> st_stackable it \<and> st_charges it \<noteq> 0 then put_if (True, ITEM_ATTRIBUTE_CHARGES, AttrInteger (ucast n))
      else setItemCount n)"
    using set_as_put(1) [OF k(1)] set_as_put(1) [OF k(2)] by (auto simp: setSubType_def setFluidType_def setCharges_def fun_eq_iff)
  have g: "getAttributes (setItemCount n j) = getAttributes j" "si_count (setItemCount n j) = n"
    by (simp_all add: setItemCount_def getAttributes_def)
  show "item_ok (subtype_effect b it n j)" using assms f(1) c(1) g by (simp add: subtype_effect_def e)
  show "look t (subtype_effect b it n j) =
      (if b \<and> (t = ITEM_ATTRIBUTE_FLUIDTYPE \<and> (st_fluidContainer it \<or> st_splash it)
               \<or> t = ITEM_ATTRIBUTE_CHARGES \<and> \<not> counted it \<and> st_charges it \<noteq> 0)
       then Some (AttrInteger (ucast n)) else look t j)"
    using f(2) c(2) g by (auto simp: subtype_effect_def e look_def)
  show "si_count (subtype_effect b it n j) =
      (if b \<and> \<not> st_fluidContainer it \<and> \<not> st_splash it \<and> (st_stackable it \<or> st_charges it = 0) then n else si_count j)"
    using f(3) c(3) g by (simp add: subtype_effect_def e)
qed

text \<open>What the assignments give for each type.\<close>

lemma assigned_simps:
  "assigned [] t = None"
  "t' \<noteq> t \<Longrightarrow> assigned ((b, t', v) # xs) t = assigned xs t"
  "assigned ((b, t, v) # xs) t = (case assigned xs t of Some w \<Rightarrow> Some w | None \<Rightarrow> if b then Some v else None)"
  by (auto simp: assigned_def map_add_def split: option.splits)

lemma assigned_look:
  assumes "writable i" and "t \<notin> {ITEM_ATTRIBUTE_CUSTOM, ITEM_ATTRIBUTE_FLUIDTYPE, ITEM_ATTRIBUTE_CHARGES}"
  shows "(case assigned (assignments2 i) t of Some v \<Rightarrow> Some v | None \<Rightarrow> assigned (assignments1 it i) t) = saved_value it i t"
proof -
  have none: "look ITEM_ATTRIBUTE_NONE i = None"
    using writable_look [OF assms(1), of ITEM_ATTRIBUTE_NONE] fits_not_none
    by (cases "look ITEM_ATTRIBUTE_NONE i") auto
  have date: "getIntAttr ITEM_ATTRIBUTE_DATE i \<noteq> 0 \<Longrightarrow> hasAttribute ITEM_ATTRIBUTE_DATE i"
    using look_int(2) [OF assms(1), of ITEM_ATTRIBUTE_DATE] by (auto simp: attr_kinds)
  note ls = look_str(1) [OF assms(1)]
  show ?thesis
    using assms(2) none date
    by (cases t) (auto simp: assignments1_def assignments2_def assigned_simps saved_value_def ls attr_kinds)
qed

lemma assigned_none:
  "assigned (assignments1 it i) t = None \<and> assigned (assignments2 i) t = None"
  if "t \<in> {ITEM_ATTRIBUTE_CUSTOM, ITEM_ATTRIBUTE_FLUIDTYPE, ITEM_ATTRIBUTE_CHARGES}"
  using that by (auto simp: assignments1_def assignments2_def assigned_simps)

text \<open>Reading an item back, attribute by attribute.\<close>

lemma saved_item_overlays:
  assumes "writable i" and "item_ok j"
  shows "\<exists>r. unserializeAttr it \<lparr>rs_item = j, rs_stream = serializeAttr it i [], rs_unique = unique\<rparr>
        = (True, \<lparr>rs_item = r, rs_stream = [], rs_unique = unique\<rparr>)
    \<and> (\<forall>t. t \<noteq> ITEM_ATTRIBUTE_CUSTOM \<longrightarrow> look t r = (case saved_value it i t of Some v \<Rightarrow> Some v | None \<Rightarrow> look t j))
    \<and> (\<forall>key. getCustomAttribute key r
        = (case getCustomAttribute key i of Some v \<Rightarrow> Some v | None \<Rightarrow> getCustomAttribute key j))
    \<and> si_count r = (case saved_count it i of Some n \<Rightarrow> n | None \<Rightarrow> si_count j)"
proof -
  define j0 where "j0 = subtype_effect (counted it) it (getSubType it i) j"
  define jc where "jc = subtype_effect (getCharges i \<noteq> 0) it (getCharges i) j0"
  define j1 where "j1 = fold (\<lambda>e i. e i) (map put_if (assignments1 it i)) jc"
  define j2 where "j2 = customs_effect i j1"
  define r where "r = fold (\<lambda>e i. e i) (map put_if (assignments2 i)) j2"
  have run: "unserializeAttr it \<lparr>rs_item = j, rs_stream = serializeAttr it i [], rs_unique = unique\<rparr>
      = (True, \<lparr>rs_item = r, rs_stream = [], rs_unique = unique\<rparr>)"
    using overlays_fold [OF writers_overlay [OF assms(1)], of it j "[]" unique]
    by (simp add: serializeAttr_def effects_are_assignments [OF assms(1)] j0_def jc_def j1_def j2_def r_def unserializeAttr.simps prop_read_def)
  note s0 = subtype_effect_look [OF assms(2), where b = "counted it" and it = it and n = "getSubType it i", folded j0_def]
  note sc = subtype_effect_look [OF s0(1), where b = "getCharges i \<noteq> 0" and it = it and n = "getCharges i", folded jc_def]
  have v1: "\<forall>(b, t, v) \<in> set (assignments1 it i). b \<longrightarrow> value_fits t v" and v2: "\<forall>(b, t, v) \<in> set (assignments2 i). b \<longrightarrow> value_fits t v"
    using assigned_values [OF assms(1), of it] by (auto simp only: ball_Un)
  note s1 = put_if_fold [OF sc(1) v1, folded j1_def]
  have ok1: "item_ok j1" using s1 by blast
  have keys: "custom_keys (customs (getAttributes i))" using customs_keys assms(1) by (simp add: writable_def)
  have nocustom: "\<not> hasAttribute ITEM_ATTRIBUTE_CUSTOM i \<Longrightarrow> customs (getAttributes i) = []"
    using assms(1) by (simp add: item_access hasAttribute_existing customs_def writable_def)
  have s2: "item_ok j2 \<and> (t \<noteq> ITEM_ATTRIBUTE_CUSTOM \<longrightarrow> look t j2 = look t j1)
      \<and> map_of (customs (getAttributes j2)) = map_of (customs (getAttributes j1)) ++ map_of (customs (getAttributes i))
      \<and> si_count j2 = si_count j1" for t
    using put_customs_all [OF ok1 keys, of t] ok1 nocustom by (auto simp: j2_def customs_effect_def)
  then have ok2: "item_ok j2" by blast
  note s3 = put_if_fold [OF ok2 v2, folded r_def]
  have attr: "look t r = (case saved_value it i t of Some v \<Rightarrow> Some v | None \<Rightarrow> look t j)" if "t \<noteq> ITEM_ATTRIBUTE_CUSTOM" for t
  proof -
    have l: "look t r = (case (case assigned (assignments2 i) t of Some v \<Rightarrow> Some v | None \<Rightarrow> assigned (assignments1 it i) t) of
        Some v \<Rightarrow> Some v | None \<Rightarrow> look t jc)"
      using s1 [of t] s2 [of t] s3 [of t] that by (simp split: option.splits)
    consider "t = ITEM_ATTRIBUTE_FLUIDTYPE \<or> t = ITEM_ATTRIBUTE_CHARGES" | "t \<notin> {ITEM_ATTRIBUTE_CUSTOM, ITEM_ATTRIBUTE_FLUIDTYPE, ITEM_ATTRIBUTE_CHARGES}"
      using \<open>t \<noteq> ITEM_ATTRIBUTE_CUSTOM\<close> by blast
    then show ?thesis
    proof cases
      case 1
      then have "look t r = look t jc" unfolding l using assigned_none [of t it i] by auto
      then show ?thesis using 1 unfolding sc(2) s0(2) by (auto simp: saved_value_def getSubType_def)
    next
      case 2
      then show ?thesis unfolding l assigned_look [OF assms(1) 2] by (auto simp: sc(2) s0(2) split: option.split)
    qed
  qed
  have c: "look ITEM_ATTRIBUTE_CUSTOM r = look ITEM_ATTRIBUTE_CUSTOM j2" "look ITEM_ATTRIBUTE_CUSTOM j1 = look ITEM_ATTRIBUTE_CUSTOM j"
    using s1 [of ITEM_ATTRIBUTE_CUSTOM] s3 [of ITEM_ATTRIBUTE_CUSTOM] sc(2) [of ITEM_ATTRIBUTE_CUSTOM] s0(2) [of ITEM_ATTRIBUTE_CUSTOM]
      assigned_none by simp_all
  have get: "getCustomAttribute key x = map_of (customs (getAttributes x)) (asLowerCaseString key)" for key x
    by (simp add: getCustomAttribute_def getAttributes_def getCustomAttribute_customs customs_def getExistingAttr_def
        attr_hasAttribute_def no_attributes_def split: option.split)
  have "map_of (customs (getAttributes r)) = map_of (customs (getAttributes j)) ++ map_of (customs (getAttributes i))"
    using s2 c by (simp add: customs_def look_def)
  then have "getCustomAttribute key r = (case getCustomAttribute key i of Some v \<Rightarrow> Some v | None \<Rightarrow> getCustomAttribute key j)" for key
    unfolding get by (simp add: map_add_def)
  moreover have "si_count r = (case saved_count it i of Some n \<Rightarrow> n | None \<Rightarrow> si_count j)"
    using s1 s2 s3 sc(3) s0(3) by (auto simp: saved_count_def getSubType_def)
  ultimately show ?thesis using run attr by blast
qed

text \<open>
  C11. An item whose strings fit their length fields and that has no blank custom attribute can be saved
  and read. Reading what \<^verbatim>\<open>serializeAttr\<close> wrote, onto any item \<open>j\<close>, succeeds and uses up the bytes.
  Each attribute then has the value \<open>saved_value\<close> tells, which is the number as its field
  holds it; what is not saved stays as it is in \<open>j\<close> (the unique id, the owners, the door, an action
  id of what cannot be moved). Texts come back as they were, and so do the numbers of
  \<open>comes_back\<close>. A decaying item waits to decay, custom attributes are merged by name, and the count
  is the one of \<open>saved_count\<close>: that of a stackable item, unless charges, which share its field,
  replace it.
\<close>

theorem saved_item_roundtrip:
  assumes "writable i" and "item_ok j"
  shows "\<exists>r. unserializeAttr it \<lparr>rs_item = j, rs_stream = serializeAttr it i [], rs_unique = unique\<rparr>
        = (True, \<lparr>rs_item = r, rs_stream = [], rs_unique = unique\<rparr>)
    \<and> (\<forall>t. comes_back it i t \<longrightarrow> look t r = look t i)
    \<and> (\<forall>t. t \<noteq> ITEM_ATTRIBUTE_CUSTOM \<longrightarrow> look t r = (case saved_value it i t of Some v \<Rightarrow> Some v | None \<Rightarrow> look t j))
    \<and> (\<forall>key. getCustomAttribute key r
        = (case getCustomAttribute key i of Some v \<Rightarrow> Some v | None \<Rightarrow> getCustomAttribute key j))
    \<and> si_count r = (case saved_count it i of Some n \<Rightarrow> n | None \<Rightarrow> si_count j)"
proof -
  have present: "t \<noteq> ITEM_ATTRIBUTE_CUSTOM" "look t i \<noteq> None" if "comes_back it i t" for t
    using that writable_look [OF assms(1), of t] by (auto simp: comes_back_def value_fits_def attr_kinds split: option.splits attr_value.splits if_splits)
  have same: "(case saved_value it i t of Some v \<Rightarrow> Some v | None \<Rightarrow> look t j) = look t i \<and> t \<noteq> ITEM_ATTRIBUTE_CUSTOM"
    if c: "comes_back it i t" for t
  proof -
    from present(2) [OF c] obtain v where "look t i = Some v" by auto
    then show ?thesis
      using comes_back_saved [OF assms(1) c] present(1) [OF c] by simp
  qed
  obtain r where r: "unserializeAttr it \<lparr>rs_item = j, rs_stream = serializeAttr it i [], rs_unique = unique\<rparr>
        = (True, \<lparr>rs_item = r, rs_stream = [], rs_unique = unique\<rparr>)"
    "\<forall>t. t \<noteq> ITEM_ATTRIBUTE_CUSTOM \<longrightarrow> look t r = (case saved_value it i t of Some v \<Rightarrow> Some v | None \<Rightarrow> look t j)"
    "\<forall>key. getCustomAttribute key r = (case getCustomAttribute key i of Some v \<Rightarrow> Some v | None \<Rightarrow> getCustomAttribute key j)"
    "si_count r = (case saved_count it i of Some n \<Rightarrow> n | None \<Rightarrow> si_count j)"
    using saved_item_overlays [OF assms, of it unique] by blast
  show ?thesis using r same by (intro exI [of _ r]) (auto split del: if_split)
qed

subsection \<open>Examples\<close>

definition potion_type :: saved_type where
  "potion_type = \<lparr>st_fluidContainer = False, st_splash = False, st_stackable = True, st_charges = 0, st_moveable = True\<rparr>"

definition named_potion :: saved_item where
  "named_potion = \<lparr>si_count = 9, si_attributes = Some some_attributes\<rparr>"

definition fresh_potion :: saved_item where
  "fresh_potion = \<lparr>si_count = 1, si_attributes = None\<rparr>"

lemma some_attributes_list:
  "ia_list some_attributes = [(ITEM_ATTRIBUTE_WEIGHT, AttrInteger 7), (ITEM_ATTRIBUTE_NAME, AttrString ''ball''),
     (ITEM_ATTRIBUTE_CUSTOM, AttrCustom [(asLowerCaseString ''Boost'', CustomInt 5)])]"
proof -
  define a1 where "a1 = attr_setIntAttr ITEM_ATTRIBUTE_WEIGHT 7 no_attributes"
  define a2 where "a2 = attr_setStrAttr ITEM_ATTRIBUTE_NAME ''ball'' a1"
  have k: "isIntAttrType ITEM_ATTRIBUTE_WEIGHT" "isStrAttrType ITEM_ATTRIBUTE_NAME" by (simp_all add: attr_kinds)
  have "attrs_ok a1" and "attrs_ok a2"
    unfolding a1_def a2_def by (intro int_access.set_ok str_access.set_ok attrs_ok_empty)+
  note h = hasAttribute_in [OF \<open>attrs_ok a1\<close>] hasAttribute_in [OF \<open>attrs_ok a2\<close>] hasAttribute_in [OF attrs_ok_empty]
  have 1: "ia_list a1 = [(ITEM_ATTRIBUTE_WEIGHT, AttrInteger 7)]"
    unfolding a1_def by (simp add: attr_setIntAttr_def assign_attr_def getAttr_def h k no_attributes_def [THEN arg_cong [of _ _ ia_list]])
  have 2: "ia_list a2 = [(ITEM_ATTRIBUTE_WEIGHT, AttrInteger 7), (ITEM_ATTRIBUTE_NAME, AttrString ''ball'')]"
    unfolding a2_def by (simp add: attr_setStrAttr_def assign_attr_def getAttr_def h k 1)
  define a3 where "a3 = assign_attr ITEM_ATTRIBUTE_CUSTOM (\<lambda>_. AttrCustom []) a2"
  have 3: "ia_list a3 = [(ITEM_ATTRIBUTE_WEIGHT, AttrInteger 7), (ITEM_ATTRIBUTE_NAME, AttrString ''ball''), (ITEM_ATTRIBUTE_CUSTOM, AttrCustom [])]"
    unfolding a3_def by (simp add: assign_attr_def getAttr_def h 2)
  have "attrs_ok a3"
    unfolding a3_def using custom_assign(1) [of a2 "\<lambda>_. []"] \<open>attrs_ok a2\<close> by (simp add: custom_keys_def)
  then have "attr_hasAttribute ITEM_ATTRIBUTE_CUSTOM a3" by (simp add: hasAttribute_in 3)
  then have "ia_list (assign_attr ITEM_ATTRIBUTE_CUSTOM (\<lambda>v. AttrCustom (custom_emplace key val (attr_custom v))) a3) =
      [(ITEM_ATTRIBUTE_WEIGHT, AttrInteger 7), (ITEM_ATTRIBUTE_NAME, AttrString ''ball''), (ITEM_ATTRIBUTE_CUSTOM, AttrCustom [(key, val)])]" for key val
    by (simp add: assign_attr_def getAttr_def 3 upt_rec [of 0] attr_custom_def custom_emplace_def upt_conv_Cons)
  moreover have "\<not> attr_hasAttribute ITEM_ATTRIBUTE_CUSTOM a2" by (simp add: h 2)
  ultimately show ?thesis
    by (simp add: some_attributes_def a1_def [symmetric] a2_def [symmetric] attr_setCustomAttribute_def a3_def [symmetric])
qed

lemma named_potion_writable: "writable named_potion"
proof -
  have "length (asLowerCaseString ''Boost'') = 5"
    unfolding asLowerCaseString_def toLowerCaseString_def length_map by simp
  then show ?thesis
    using some_attributes_ok
    by (simp add: writable_def named_potion_def getAttributes_def some_attributes_list value_writable_def custom_storable_def)
qed

theorem saved_item_roundtrip_witness:
  "\<exists>r. unserializeAttr potion_type \<lparr>rs_item = fresh_potion, rs_stream = serializeAttr potion_type named_potion [], rs_unique = {}\<rparr>
      = (True, \<lparr>rs_item = r, rs_stream = [], rs_unique = {}\<rparr>)
    \<and> look ITEM_ATTRIBUTE_WEIGHT r = Some (AttrInteger 7) \<and> look ITEM_ATTRIBUTE_NAME r = Some (AttrString ''ball'') \<and> si_count r = 9"
proof -
  have l: "look t named_potion = map_of [(ITEM_ATTRIBUTE_WEIGHT, AttrInteger 7), (ITEM_ATTRIBUTE_NAME, AttrString ''ball''),
     (ITEM_ATTRIBUTE_CUSTOM, AttrCustom [(asLowerCaseString ''Boost'', CustomInt 5)])] t" for t
    using some_attributes_ok by (simp add: look_def named_potion_def getAttributes_def getExistingAttr_map some_attributes_list)
  have c: "comes_back potion_type named_potion ITEM_ATTRIBUTE_WEIGHT" "comes_back potion_type named_potion ITEM_ATTRIBUTE_NAME"
    by (simp_all add: comes_back_def l read_back_def)
  have "\<not> hasAttribute ITEM_ATTRIBUTE_CHARGES named_potion"
    using look_int(1) [OF named_potion_writable, of ITEM_ATTRIBUTE_CHARGES] l [of ITEM_ATTRIBUTE_CHARGES] by (auto simp: attr_kinds split: if_splits)
  then have "getCharges named_potion = 0"
    using look_int(2) [OF named_potion_writable, of ITEM_ATTRIBUTE_CHARGES] by (simp add: attr_kinds getCharges_def)
  then have n: "saved_count potion_type named_potion = Some 9"
    by (simp add: saved_count_def potion_type_def named_potion_def)
  have "item_ok fresh_potion" by (simp add: fresh_potion_def getAttributes_def attrs_ok_empty)
  from saved_item_roundtrip [OF named_potion_writable this, of potion_type "{}"] c n l show ?thesis by auto
qed

text \<open>Charges of a type without charges come back as the count.\<close>

definition tool_type :: saved_type where
  "tool_type = \<lparr>st_fluidContainer = False, st_splash = False, st_stackable = False, st_charges = 0, st_moveable = True\<rparr>"

lemma charges_become_count:
  "si_count (rs_item (snd (readAttr tool_type ATTR_CHARGES
     \<lparr>rs_item = fresh_potion, rs_stream = enc16 7, rs_unique = {}\<rparr>))) = 7"
  using mem16.prop_read_enc [of 7 "[]"]
  by (simp add: readers read_value_def setSubType_def tool_type_def setItemCount_def)

end
