(* ===== verification/Monster_Steps.thy ===== *)
theory Monster_Steps
  imports Position
begin

text \<open>
  How a monster chooses its steps: \<^verbatim>\<open>canWalkTo\<close>, \<^verbatim>\<open>getRandomStep\<close>,
  \<^verbatim>\<open>getDanceStep\<close>, \<^verbatim>\<open>getDistanceStep\<close>, \<^verbatim>\<open>getNextStep\<close>,
  \<^verbatim>\<open>canUseAttack\<close> and \<^verbatim>\<open>updateLookDirection\<close> of
  \<^verbatim>\<open>src/src/monster.cpp\<close>, with \<^verbatim>\<open>isInZone\<close> of
  \<^verbatim>\<open>src/src/spawn.cpp\<close>. What the random generator gives is an argument: the outcome of
  \<^verbatim>\<open>boolean_random\<close>, the order after \<^verbatim>\<open>shuffle\<close>, the index drawn.
\<close>

section \<open>Where a monster can walk\<close>

definition isInZone :: "position \<Rightarrow> int \<Rightarrow> position \<Rightarrow> bool" where
  "isInZone centerPos radius pos =
     (if radius = -1 then True
      else getX pos \<ge> getX centerPos - radius \<and> getX pos \<le> getX centerPos + radius
        \<and> getY pos \<ge> getY centerPos - radius \<and> getY pos \<le> getY centerPos + radius)"

text \<open>\<open>tv_creature\<close>: a creature on top that the monster sees; \<open>tv_enter\<close>: \<^verbatim>\<open>queryAdd\<close>
  allows it to enter. \<open>wv_cache\<close> is \<^verbatim>\<open>getWalkCache\<close> of the monster.\<close>

record tile_view =
  tv_creature :: bool
  tv_enter :: bool

record walk_view =
  wv_spawn :: bool
  wv_masterPos :: position
  wv_despawnRadius :: int
  wv_despawnRange :: int
  wv_cache :: "position \<Rightarrow> int"
  wv_tile :: "position \<Rightarrow> tile_view option"

definition isInSpawnRange :: "walk_view \<Rightarrow> position \<Rightarrow> bool" where
  "isInSpawnRange v pos =
     (if \<not> wv_spawn v then True
      else if wv_despawnRadius v = 0 then True
      else if \<not> isInZone (wv_masterPos v) (wv_despawnRadius v) pos then False
      else if wv_despawnRange v = 0 then True
      else if getDistanceZ pos (wv_masterPos v) > wv_despawnRange v then False
      else True)"

definition monster_canWalkTo :: "walk_view \<Rightarrow> position \<Rightarrow> direction \<Rightarrow> bool" where
  "monster_canWalkTo v pos dir =
     (let pos = getNextPosition dir pos in
      if isInSpawnRange v pos then
        (if wv_cache v pos = 0 then False
         else case wv_tile v pos of
             None \<Rightarrow> False
           | Some tile \<Rightarrow> \<not> tv_creature tile \<and> tv_enter tile)
      else False)"

section \<open>Random steps\<close>

text \<open>\<open>can\<close> stands for \<^verbatim>\<open>canWalkTo\<close> from the position of the monster, \<open>order\<close> for the
  shuffled list of the four straight directions.\<close>

definition dirList :: "direction list" where
  "dirList = [DIRECTION_NORTH, DIRECTION_WEST, DIRECTION_EAST, DIRECTION_SOUTH]"

definition getRandomStep :: "(direction \<Rightarrow> bool) \<Rightarrow> direction list \<Rightarrow> direction \<Rightarrow> bool \<times> direction" where
  "getRandomStep can order direction =
     (case List.find can order of Some dir \<Rightarrow> (True, dir) | None \<Rightarrow> (False, direction))"

section \<open>Keeping the distance\<close>

text \<open>One of two directions, by the coin.\<close>

definition either :: "bool \<Rightarrow> direction \<Rightarrow> direction \<Rightarrow> direction" where
  "either coin a b = (if coin then a else b)"

text \<open>
  The target is diagonal: first the two straight directions away from it and the diagonal between
  them, then, when fleeing, the two straight directions past it, and at last one of these next to a
  free diagonal.
\<close>

definition diagonal_step ::
  "(direction \<Rightarrow> bool) \<Rightarrow> bool \<Rightarrow> bool \<Rightarrow> direction \<Rightarrow> direction \<times> direction \<times> direction \<Rightarrow> direction \<times> direction
    \<Rightarrow> direction \<times> direction \<Rightarrow> direction \<times> direction \<Rightarrow> bool \<times> direction" where
  "diagonal_step can coin flee direction = (\<lambda>(a, b, ab) (c, d) (x, xd) (y, yd).
     if can a \<and> can b then (True, either coin a b)
     else if can a then (True, a)
     else if can b then (True, b)
     else if can ab then (True, ab)
     else if flee \<and> can c \<and> can d then (True, either coin c d)
     else if flee \<and> can c then (True, c)
     else if flee \<and> can d then (True, d)
     else if can x \<and> can xd then (True, x)
     else if can y \<and> can yd then (True, y)
     else (True, direction))"

text \<open>The four places of the target.\<close>

definition from_northwest :: "(direction \<Rightarrow> bool) \<Rightarrow> bool \<Rightarrow> bool \<Rightarrow> direction \<Rightarrow> bool \<times> direction" where
  "from_northwest can coin flee direction = diagonal_step can coin flee direction
     (DIRECTION_SOUTH, DIRECTION_EAST, DIRECTION_SOUTHEAST) (DIRECTION_NORTH, DIRECTION_WEST)
     (DIRECTION_WEST, DIRECTION_SOUTHWEST) (DIRECTION_NORTH, DIRECTION_NORTHEAST)"

definition from_southeast :: "(direction \<Rightarrow> bool) \<Rightarrow> bool \<Rightarrow> bool \<Rightarrow> direction \<Rightarrow> bool \<times> direction" where
  "from_southeast can coin flee direction = diagonal_step can coin flee direction
     (DIRECTION_WEST, DIRECTION_NORTH, DIRECTION_NORTHWEST) (DIRECTION_SOUTH, DIRECTION_EAST)
     (DIRECTION_SOUTH, DIRECTION_SOUTHWEST) (DIRECTION_EAST, DIRECTION_NORTHEAST)"

definition from_southwest :: "(direction \<Rightarrow> bool) \<Rightarrow> bool \<Rightarrow> bool \<Rightarrow> direction \<Rightarrow> bool \<times> direction" where
  "from_southwest can coin flee direction = diagonal_step can coin flee direction
     (DIRECTION_NORTH, DIRECTION_EAST, DIRECTION_NORTHEAST) (DIRECTION_SOUTH, DIRECTION_WEST)
     (DIRECTION_WEST, DIRECTION_NORTHWEST) (DIRECTION_SOUTH, DIRECTION_SOUTHEAST)"

definition from_northeast :: "(direction \<Rightarrow> bool) \<Rightarrow> bool \<Rightarrow> bool \<Rightarrow> direction \<Rightarrow> bool \<times> direction" where
  "from_northeast can coin flee direction = diagonal_step can coin flee direction
     (DIRECTION_WEST, DIRECTION_SOUTH, DIRECTION_SOUTHWEST) (DIRECTION_NORTH, DIRECTION_EAST)
     (DIRECTION_EAST, DIRECTION_SOUTHEAST) (DIRECTION_NORTH, DIRECTION_NORTHWEST)"

text \<open>
  The target is more to one side: away from it, then to a side that does not come closer on the other
  axis (\<open>off\<close> is the offset on it), when fleeing to any side, then the diagonals away, and when fleeing
  towards the target as a last resort.
\<close>

definition straight_step ::
  "(direction \<Rightarrow> bool) \<Rightarrow> bool \<Rightarrow> bool \<Rightarrow> direction \<Rightarrow> int \<Rightarrow> direction \<times> direction \<Rightarrow> direction \<times> direction
    \<Rightarrow> direction \<times> direction \<Rightarrow> direction \<times> direction \<Rightarrow> bool \<times> direction" where
  "straight_step can coin flee direction off = (\<lambda>(away, towards) (l, r) (p, pd) (q, qd).
     if can away then (True, away)
     else if can l \<and> can r \<and> off = 0 then (True, either coin l r)
     else if can l \<and> off \<le> 0 then (True, l)
     else if can r \<and> off \<ge> 0 then (True, r)
     else if flee \<and> can l \<and> can r then (True, either coin l r)
     else if flee \<and> can l then (True, l)
     else if flee \<and> can r then (True, r)
     else if can pd \<and> can qd then (True, either coin pd qd)
     else if (can pd \<or> can qd) \<and> can p then (True, p)
     else if can pd then (True, pd)
     else if can qd \<and> can q then (True, q)
     else if can qd then (True, qd)
     else if flee \<and> can towards then (True, towards)
     else (True, direction))"

definition from_north :: "(direction \<Rightarrow> bool) \<Rightarrow> bool \<Rightarrow> bool \<Rightarrow> direction \<Rightarrow> int \<Rightarrow> bool \<times> direction" where
  "from_north can coin flee direction offsetx = straight_step can coin flee direction offsetx
     (DIRECTION_SOUTH, DIRECTION_NORTH) (DIRECTION_WEST, DIRECTION_EAST)
     (DIRECTION_WEST, DIRECTION_SOUTHWEST) (DIRECTION_EAST, DIRECTION_SOUTHEAST)"

definition from_south :: "(direction \<Rightarrow> bool) \<Rightarrow> bool \<Rightarrow> bool \<Rightarrow> direction \<Rightarrow> int \<Rightarrow> bool \<times> direction" where
  "from_south can coin flee direction offsetx = straight_step can coin flee direction offsetx
     (DIRECTION_NORTH, DIRECTION_SOUTH) (DIRECTION_WEST, DIRECTION_EAST)
     (DIRECTION_WEST, DIRECTION_NORTHWEST) (DIRECTION_EAST, DIRECTION_NORTHEAST)"

definition from_west :: "(direction \<Rightarrow> bool) \<Rightarrow> bool \<Rightarrow> bool \<Rightarrow> direction \<Rightarrow> int \<Rightarrow> bool \<times> direction" where
  "from_west can coin flee direction offsety = straight_step can coin flee direction offsety
     (DIRECTION_EAST, DIRECTION_WEST) (DIRECTION_NORTH, DIRECTION_SOUTH)
     (DIRECTION_SOUTH, DIRECTION_SOUTHEAST) (DIRECTION_NORTH, DIRECTION_NORTHEAST)"

definition from_east :: "(direction \<Rightarrow> bool) \<Rightarrow> bool \<Rightarrow> bool \<Rightarrow> direction \<Rightarrow> int \<Rightarrow> bool \<times> direction" where
  "from_east can coin flee direction offsety = straight_step can coin flee direction offsety
     (DIRECTION_WEST, DIRECTION_EAST) (DIRECTION_NORTH, DIRECTION_SOUTH)
     (DIRECTION_NORTH, DIRECTION_NORTHWEST) (DIRECTION_SOUTH, DIRECTION_SOUTHWEST)"

text \<open>The result, the direction and the duration of a step; \<open>sight\<close> is \<^verbatim>\<open>isSightClear\<close> to the
  target.\<close>

definition getDistanceStep ::
  "(direction \<Rightarrow> bool) \<Rightarrow> bool \<Rightarrow> direction list \<Rightarrow> int \<Rightarrow> bool \<Rightarrow> position \<Rightarrow> position \<Rightarrow> bool \<Rightarrow> direction \<Rightarrow> int
    \<Rightarrow> (bool \<times> direction) \<times> int" where
  "getDistanceStep can coin order targetDistance sight creaturePos targetPos flee direction stepDuration =
     (let dx = getDistanceX creaturePos targetPos; dy = getDistanceY creaturePos targetPos; distance = max dx dy in
      if \<not> flee \<and> (distance > targetDistance \<or> \<not> sight) then ((False, direction), stepDuration)
      else if \<not> flee \<and> distance = targetDistance then ((True, direction), stepDuration)
      else
        (let offsetx = getOffsetX creaturePos targetPos; offsety = getOffsetY creaturePos targetPos;
             stepDuration = (if dx \<le> 1 \<and> dy \<le> 1 then (if stepDuration < 2 then stepDuration + 1 else stepDuration)
               else if stepDuration > 0 then stepDuration - 1 else stepDuration)
         in (if offsetx = 0 \<and> offsety = 0 then getRandomStep can order direction
             else if dx = dy \<and> offsetx \<ge> 1 \<and> offsety \<ge> 1 then from_northwest can coin flee direction
             else if dx = dy \<and> offsetx \<le> -1 \<and> offsety \<le> -1 then from_southeast can coin flee direction
             else if dx = dy \<and> offsetx \<ge> 1 \<and> offsety \<le> -1 then from_southwest can coin flee direction
             else if dx = dy \<and> offsetx \<le> -1 \<and> offsety \<ge> 1 then from_northeast can coin flee direction
             else if dy > dx then (if offsety < 0 then from_south else from_north) can coin flee direction offsetx
             else (if offsetx < 0 then from_east else from_west) can coin flee direction offsety,
             stepDuration)))"

section \<open>Dancing around the target\<close>

text \<open>\<open>ranges\<close> are the ranges of the attack spells, \<open>sight\<close> is \<^verbatim>\<open>isSightClear\<close>
  between two positions.\<close>

record attack_view =
  av_hostile :: bool
  av_ranges :: "nat list"
  av_sight :: "position \<Rightarrow> position \<Rightarrow> bool"

definition canUseAttack :: "attack_view \<Rightarrow> position \<Rightarrow> position \<Rightarrow> bool" where
  "canUseAttack v pos targetPos =
     (if av_hostile v then
        (let distance = nat (max (getDistanceX pos targetPos) (getDistanceY pos targetPos)) in
         if list_ex (\<lambda>range. range \<noteq> 0 \<and> distance \<le> range) (av_ranges v) then av_sight v pos targetPos else False)
      else True)"

text \<open>One of the four directions: \<open>side\<close> tells whether the target is on its other side, \<open>tmpDist\<close> is
  the distance after the step.\<close>

definition dance_option ::
  "attack_view \<Rightarrow> (direction \<Rightarrow> bool) \<Rightarrow> position \<Rightarrow> position \<Rightarrow> bool \<Rightarrow> bool \<Rightarrow> direction \<Rightarrow> bool \<Rightarrow> int \<Rightarrow> direction list" where
  "dance_option v can creaturePos centerPos keepAttack keepDistance dir side tmpDist =
     (let centerToDist = max (getDistanceX creaturePos centerPos) (getDistanceY creaturePos centerPos) in
      if \<not> keepDistance \<or> side then
        (if tmpDist = centerToDist \<and> can dir then
           (let result = (if keepAttack
                then \<not> canUseAttack v creaturePos centerPos \<or> canUseAttack v (getNextPosition dir creaturePos) centerPos
                else True)
            in if result then [dir] else [])
         else [])
      else [])"

definition dance_list :: "attack_view \<Rightarrow> (direction \<Rightarrow> bool) \<Rightarrow> position \<Rightarrow> position \<Rightarrow> bool \<Rightarrow> bool \<Rightarrow> direction list" where
  "dance_list v can creaturePos centerPos keepAttack keepDistance =
     (let offset_x = getOffsetX creaturePos centerPos; offset_y = getOffsetY creaturePos centerPos;
          distance_x = \<bar>offset_x\<bar>; distance_y = \<bar>offset_y\<bar>;
          option = dance_option v can creaturePos centerPos keepAttack keepDistance
      in option DIRECTION_NORTH (offset_y \<ge> 0) (max distance_x \<bar>getY creaturePos - 1 - getY centerPos\<bar>)
         @ option DIRECTION_SOUTH (offset_y \<le> 0) (max distance_x \<bar>getY creaturePos + 1 - getY centerPos\<bar>)
         @ option DIRECTION_EAST (offset_x \<le> 0) (max \<bar>getX creaturePos + 1 - getX centerPos\<bar> distance_y)
         @ option DIRECTION_WEST (offset_x \<ge> 0) (max \<bar>getX creaturePos - 1 - getX centerPos\<bar> distance_y))"

text \<open>The list is shuffled and one of it is drawn: \<open>drawn\<close> is its index in the list.\<close>

definition getDanceStep ::
  "attack_view \<Rightarrow> (direction \<Rightarrow> bool) \<Rightarrow> nat \<Rightarrow> position \<Rightarrow> position \<Rightarrow> bool \<Rightarrow> bool \<Rightarrow> direction \<Rightarrow> bool \<times> direction" where
  "getDanceStep v can drawn creaturePos centerPos keepAttack keepDistance direction =
     (let dirs = dance_list v can creaturePos centerPos keepAttack keepDistance in
      if dirs \<noteq> [] then (True, dirs ! (drawn mod length dirs)) else (False, direction))"

section \<open>The next step\<close>

text \<open>What \<^verbatim>\<open>getNextStep\<close> looks at, apart from the tiles. \<open>nv_walk\<close> is the next direction of
  the walk list, if there is one.\<close>

record next_view =
  nv_idle :: bool
  nv_health :: int
  nv_follow :: bool
  nv_hasFollowPath :: bool
  nv_summon :: bool
  nv_masterInRange :: bool
  nv_sinceLastMove :: int
  nv_walk :: "direction option"
  nv_attacked :: "position option"
  nv_attackedIsFollowed :: bool
  nv_fleeing :: bool
  nv_staticAttackChance :: nat
  nv_pushes :: bool

text \<open>The random generator: the shuffled directions, the number from 1 to 100, the direction drawn.\<close>

record step_random =
  sr_order :: "direction list"
  sr_percent :: nat
  sr_drawn :: nat

text \<open>The result: whether there is a step, its direction, whether it is by the path, and the position from
  which things are pushed away.\<close>

record step_result =
  st_result :: bool
  st_direction :: direction
  st_pathfinding :: bool
  st_push :: "position option"

definition getNextStep ::
  "next_view \<Rightarrow> attack_view \<Rightarrow> walk_view \<Rightarrow> step_random \<Rightarrow> position \<Rightarrow> direction \<Rightarrow> step_result" where
  "getNextStep n v w r pos direction =
     (if nv_idle n \<or> nv_health n \<le> 0
      then \<lparr>st_result = False, st_direction = direction, st_pathfinding = False, st_push = None\<rparr>
      else
        (let (result, direction, path) =
           (if (\<not> nv_follow n \<or> \<not> nv_hasFollowPath n) \<and> (\<not> nv_summon n \<or> \<not> nv_masterInRange n) then
              (if nv_sinceLastMove n > 1000
               then (let (result, direction) = getRandomStep (monster_canWalkTo w pos) (sr_order r) direction in (result, direction, False))
               else (False, direction, False))
            else if (nv_summon n \<and> nv_masterInRange n) \<or> nv_follow n then
              (case nv_walk n of
                Some dir \<Rightarrow> (True, dir, True)
              | None \<Rightarrow>
                  (case nv_attacked n of
                    None \<Rightarrow> (False, direction, False)
                  | Some centerPos \<Rightarrow>
                      if nv_attackedIsFollowed n then
                        (if nv_fleeing n
                         then (let (result, direction) = getDanceStep v (monster_canWalkTo w pos) (sr_drawn r) pos centerPos False False direction
                               in (result, direction, False))
                         else if nv_staticAttackChance n < sr_percent r
                         then (let (result, direction) = getDanceStep v (monster_canWalkTo w pos) (sr_drawn r) pos centerPos True True direction
                               in (result, direction, False))
                         else (False, direction, False))
                      else (False, direction, False)))
            else (False, direction, False))
         in \<lparr>st_result = result, st_direction = direction, st_pathfinding = path,
             st_push = (if result \<and> nv_pushes n then Some (getNextPosition direction pos) else None)\<rparr>))"

section \<open>Looking at the target\<close>

definition updateLookDirection :: "bool \<Rightarrow> position \<Rightarrow> position option \<Rightarrow> direction \<Rightarrow> direction option" where
  "updateLookDirection stunned pos attacked dir =
     (if stunned then None
      else case attacked of
        None \<Rightarrow> Some dir
      | Some targetPos \<Rightarrow>
          (let offsetx = getOffsetX targetPos pos; offsety = getOffsetY targetPos pos;
               dx = \<bar>offsetx\<bar>; dy = \<bar>offsety\<bar>
           in Some (
             if dx > dy then (if offsetx < 0 then DIRECTION_WEST else DIRECTION_EAST)
             else if dx < dy then (if offsety < 0 then DIRECTION_NORTH else DIRECTION_SOUTH)
             else if offsetx < 0 \<and> offsety < 0 then
               (if dir = DIRECTION_SOUTH \<or> dir = DIRECTION_NORTH then DIRECTION_WEST
                else if dir = DIRECTION_EAST then DIRECTION_NORTH else dir)
             else if offsetx < 0 \<and> offsety > 0 then
               (if dir = DIRECTION_NORTH \<or> dir = DIRECTION_SOUTH then DIRECTION_WEST
                else if dir = DIRECTION_EAST then DIRECTION_SOUTH else dir)
             else if offsetx > 0 \<and> offsety < 0 then
               (if dir = DIRECTION_SOUTH \<or> dir = DIRECTION_NORTH then DIRECTION_EAST
                else if dir = DIRECTION_WEST then DIRECTION_NORTH else dir)
             else
               (if dir = DIRECTION_NORTH \<or> dir = DIRECTION_SOUTH then DIRECTION_EAST
                else if dir = DIRECTION_WEST then DIRECTION_SOUTH else dir))))"

section \<open>Lemmas\<close>

abbreviation straight :: "direction set" where
  "straight \<equiv> {DIRECTION_NORTH, DIRECTION_WEST, DIRECTION_EAST, DIRECTION_SOUTH}"

definition far :: "position \<Rightarrow> position \<Rightarrow> int" where
  "far p q = max (getDistanceX p q) (getDistanceY p q)"

definition far_after :: "direction \<Rightarrow> position \<Rightarrow> position \<Rightarrow> int" where
  "far_after d p q = max \<bar>getOffsetX p q + dir_dx d\<bar> \<bar>getOffsetY p q + dir_dy d\<bar>"

lemma far_next: "step_inside d p \<Longrightarrow> far (getNextPosition d p) q = far_after d p q"
  by (simp add: far_def far_after_def getDistanceX_def getDistanceY_def getOffsetX_def getOffsetY_def getNextPosition_offsets algebra_simps)

text \<open>The outcomes of the two kinds of step.\<close>

lemma diagonal_outcome:
  assumes "diagonal_step can coin flee direction (a, b, ab) (c, d) (x, xd) (y, yd) = (result, dir)"
    and "{x, y} \<subseteq> {c, d}"
  shows "result \<and> (dir = direction \<or> can dir \<and> dir \<in> {a, b, ab, c, d})
    \<and> (flee \<and> dir = direction \<longrightarrow> direction \<in> {a, b, ab, c, d} \<or> \<not> can a \<and> \<not> can b \<and> \<not> can c \<and> \<not> can d)"
  using assms by (auto simp: diagonal_step_def either_def split: if_splits)

lemma straight_outcome:
  assumes "straight_step can coin flee direction off (away, towards) (l, r) (p, pd) (q, qd) = (result, dir)"
    and "{p, q} = {l, r}"
  shows "result \<and> (dir = direction \<or> can dir \<and> dir \<in> {away, l, r, pd, qd}
      \<or> can dir \<and> dir = towards \<and> flee \<and> \<not> can away \<and> \<not> can l \<and> \<not> can r \<and> \<not> can pd \<and> \<not> can qd)
    \<and> (flee \<and> dir = direction \<longrightarrow> direction \<in> {away, l, r, pd, qd, towards} \<or> \<not> can away \<and> \<not> can l \<and> \<not> can r \<and> \<not> can towards)"
  using assms by (auto simp: straight_step_def either_def split: if_splits)

text \<open>Which directions do not come closer.\<close>

lemma far_diagonal:
  assumes "\<bar>getOffsetX p q\<bar> = \<bar>getOffsetY p q\<bar>" and "dir_dx d = 0 \<or> dir_dy d = 0 \<or>
    dir_dx d * getOffsetX p q \<ge> 0 \<or> dir_dy d * getOffsetY p q \<ge> 0"
  shows "far p q \<le> far_after d p q"
  using assms dir_dx_range [of d] dir_dy_range [of d] by (auto simp: far_def far_after_def getDistanceX_def getDistanceY_def)

lemma far_straight:
  "\<bar>getOffsetX p q\<bar> < \<bar>getOffsetY p q\<bar> \<Longrightarrow> dir_dy d * getOffsetY p q \<ge> 0 \<Longrightarrow> far p q \<le> far_after d p q"
  "\<bar>getOffsetY p q\<bar> < \<bar>getOffsetX p q\<bar> \<Longrightarrow> dir_dx d * getOffsetX p q \<ge> 0 \<Longrightarrow> far p q \<le> far_after d p q"
  using dir_dx_range [of d] dir_dy_range [of d] by (auto simp: far_def far_after_def getDistanceX_def getDistanceY_def)

lemmas from_defs = from_northwest_def from_southeast_def from_southwest_def from_northeast_def
  from_north_def from_south_def from_west_def from_east_def

text \<open>What a call gives when nothing was chosen before it.\<close>

definition good_step :: "(direction \<Rightarrow> bool) \<Rightarrow> bool \<Rightarrow> position \<Rightarrow> position \<Rightarrow> bool \<times> direction \<Rightarrow> bool" where
  "good_step can flee p q = (\<lambda>(result, dir).
     (dir \<noteq> DIRECTION_NONE \<longrightarrow> result \<and> can dir
       \<and> (far p q \<le> far_after dir p q \<or> flee \<and> (\<forall>d \<in> straight - {dir}. \<not> can d)))
     \<and> (flee \<and> dir = DIRECTION_NONE \<longrightarrow> (\<forall>d \<in> straight. \<not> can d)))"

lemma diagonal_good:
  assumes "\<bar>getOffsetX p q\<bar> = \<bar>getOffsetY p q\<bar>" and "{x, y} \<subseteq> {c, d}" and "{a, b, c, d} = straight"
    and "dir_dx ab * getOffsetX p q \<ge> 0" and "ab \<noteq> DIRECTION_NONE"
  shows "good_step can flee p q (diagonal_step can coin flee DIRECTION_NONE (a, b, ab) (c, d) (x, xd) (y, yd))"
proof -
  obtain result dir where r: "diagonal_step can coin flee DIRECTION_NONE (a, b, ab) (c, d) (x, xd) (y, yd) = (result, dir)"
    by fastforce
  have s: "dir_dx e = 0 \<or> dir_dy e = 0" "e \<noteq> DIRECTION_NONE" if "e \<in> straight" for e using that by auto
  have m: "e \<in> straight" if "e \<in> {a, b, c, d}" for e using that assms(3) by blast
  have f: "far p q \<le> far_after dir p q" if "dir \<in> {a, b, ab, c, d}"
  proof (rule far_diagonal [OF assms(1)])
    show "dir_dx dir = 0 \<or> dir_dy dir = 0 \<or> dir_dx dir * getOffsetX p q \<ge> 0 \<or> dir_dy dir * getOffsetY p q \<ge> 0"
      using that assms(4) s(1) [OF m, of dir] by blast
  qed
  have n: "DIRECTION_NONE \<notin> {a, b, ab, c, d}" using s(2) [OF m, of DIRECTION_NONE] assms(5) by blast
  have all: "(\<not> can a \<and> \<not> can b \<and> \<not> can c \<and> \<not> can d) \<longleftrightarrow> (\<forall>e \<in> straight. \<not> can e)"
    unfolding assms(3) [symmetric] by simp
  show ?thesis
    unfolding r good_step_def prod.case using diagonal_outcome [OF r assms(2)] f n unfolding all [symmetric] by blast
qed

lemma straight_good:
  assumes "\<And>e. e \<in> {away, l, r, pd, qd} \<Longrightarrow> far p q \<le> far_after e p q" and "{p', q'} = {l, r}" and "{away, l, r, towards} = straight"
    and "pd \<noteq> DIRECTION_NONE" and "qd \<noteq> DIRECTION_NONE"
  shows "good_step can flee p q (straight_step can coin flee DIRECTION_NONE off (away, towards) (l, r) (p', pd) (q', qd))"
proof -
  obtain result dir where r: "straight_step can coin flee DIRECTION_NONE off (away, towards) (l, r) (p', pd) (q', qd) = (result, dir)"
    by fastforce
  have n: "DIRECTION_NONE \<notin> {away, l, r, pd, qd, towards}"
    using assms(3-5) by (metis (no_types, lifting) direction.distinct insertE insert_iff singletonD)
  have "(\<forall>e \<in> straight - {towards}. \<not> can e)" if "\<not> can away" "\<not> can l" "\<not> can r"
    unfolding assms(3) [symmetric] using that by blast
  moreover have "(\<forall>e \<in> straight. \<not> can e)" if "\<not> can away" "\<not> can l" "\<not> can r" "\<not> can towards"
    unfolding assms(3) [symmetric] using that by simp
  ultimately show ?thesis
    unfolding r good_step_def prod.case using straight_outcome [OF r assms(2)] assms(1) [of dir] n by blast
qed

lemma random_good:
  assumes "set order = straight" and "far p q = 0"
  shows "good_step can flee p q (getRandomStep can order DIRECTION_NONE)"
proof (cases "List.find can order")
  case None
  then have "\<forall>d \<in> straight. \<not> can d" unfolding assms(1) [symmetric] by (simp add: find_None_iff)
  then show ?thesis using None by (simp add: getRandomStep_def good_step_def)
next
  case (Some d)
  then have "can d" "d \<in> straight" unfolding assms(1) [symmetric] by (auto simp: find_Some_iff)
  moreover have "0 \<le> far_after d p q" by (simp add: far_after_def)
  ultimately show ?thesis using Some assms(2) by (auto simp: getRandomStep_def good_step_def)
qed

lemma good_if: "(b \<Longrightarrow> good_step can flee p q x) \<Longrightarrow> (\<not> b \<Longrightarrow> good_step can flee p q y) \<Longrightarrow> good_step can flee p q (if b then x else y)"
  by simp

lemma distance_step_good:
  assumes "set order = straight"
    and "flee \<or> (far p q < targetDistance \<and> sight)"
  shows "good_step can flee p q (fst (getDistanceStep can coin order targetDistance sight p q flee DIRECTION_NONE stepDuration))"
proof -
  let ?x = "getOffsetX p q" and ?y = "getOffsetY p q"
  have go: "\<not> (\<not> flee \<and> (max (getDistanceX p q) (getDistanceY p q) > targetDistance \<or> \<not> sight))"
    "\<not> (\<not> flee \<and> max (getDistanceX p q) (getDistanceY p q) = targetDistance)"
    using assms(2) by (auto simp: far_def)
  have d: "getDistanceX p q = \<bar>?x\<bar>" "getDistanceY p q = \<bar>?y\<bar>" by (simp_all add: getDistanceX_def getDistanceY_def)
  have zero: "?x = 0 \<Longrightarrow> ?y = 0 \<Longrightarrow> far p q = 0" by (simp add: far_def d)
  have nw: "good_step can flee p q (from_northwest can coin flee DIRECTION_NONE)" if "\<bar>?x\<bar> = \<bar>?y\<bar>" "?x \<ge> 1"
    unfolding from_defs using that by (intro diagonal_good) auto
  have se: "good_step can flee p q (from_southeast can coin flee DIRECTION_NONE)" if "\<bar>?x\<bar> = \<bar>?y\<bar>" "?x \<le> -1"
    unfolding from_defs using that by (intro diagonal_good) auto
  have sw: "good_step can flee p q (from_southwest can coin flee DIRECTION_NONE)" if "\<bar>?x\<bar> = \<bar>?y\<bar>" "?x \<ge> 1"
    unfolding from_defs using that by (intro diagonal_good) auto
  have ne: "good_step can flee p q (from_northeast can coin flee DIRECTION_NONE)" if "\<bar>?x\<bar> = \<bar>?y\<bar>" "?x \<le> -1"
    unfolding from_defs using that by (intro diagonal_good) auto
  have n: "good_step can flee p q (from_north can coin flee DIRECTION_NONE ?x)" if "\<bar>?x\<bar> < \<bar>?y\<bar>" "\<not> ?y < 0"
    unfolding from_defs using that by (intro straight_good far_straight(1)) auto
  have so: "good_step can flee p q (from_south can coin flee DIRECTION_NONE ?x)" if "\<bar>?x\<bar> < \<bar>?y\<bar>" "?y < 0"
    unfolding from_defs using that by (intro straight_good far_straight(1)) auto
  have w: "good_step can flee p q (from_west can coin flee DIRECTION_NONE ?y)" if "\<bar>?y\<bar> < \<bar>?x\<bar>" "\<not> ?x < 0"
    unfolding from_defs using that by (intro straight_good far_straight(2)) auto
  have e: "good_step can flee p q (from_east can coin flee DIRECTION_NONE ?y)" if "\<bar>?y\<bar> < \<bar>?x\<bar>" "?x < 0"
    unfolding from_defs using that by (intro straight_good far_straight(2)) auto
  have 1: "good_step can flee p q (if ?y < 0 then from_south can coin flee DIRECTION_NONE ?x else from_north can coin flee DIRECTION_NONE ?x)"
    if "\<bar>?x\<bar> < \<bar>?y\<bar>" by (rule good_if) (use n so that in blast)+
  have 2: "good_step can flee p q (if ?x < 0 then from_east can coin flee DIRECTION_NONE ?y else from_west can coin flee DIRECTION_NONE ?y)"
    if "\<bar>?y\<bar> < \<bar>?x\<bar>" by (rule good_if) (use w e that in blast)+
  have 3: "good_step can flee p q (if ?x = 0 \<and> ?y = 0 then getRandomStep can order DIRECTION_NONE
      else if \<bar>?x\<bar> = \<bar>?y\<bar> \<and> ?x \<ge> 1 \<and> ?y \<ge> 1 then from_northwest can coin flee DIRECTION_NONE
      else if \<bar>?x\<bar> = \<bar>?y\<bar> \<and> ?x \<le> -1 \<and> ?y \<le> -1 then from_southeast can coin flee DIRECTION_NONE
      else if \<bar>?x\<bar> = \<bar>?y\<bar> \<and> ?x \<ge> 1 \<and> ?y \<le> -1 then from_southwest can coin flee DIRECTION_NONE
      else if \<bar>?x\<bar> = \<bar>?y\<bar> \<and> ?x \<le> -1 \<and> ?y \<ge> 1 then from_northeast can coin flee DIRECTION_NONE
      else if \<bar>?x\<bar> < \<bar>?y\<bar> then if ?y < 0 then from_south can coin flee DIRECTION_NONE ?x else from_north can coin flee DIRECTION_NONE ?x
      else if ?x < 0 then from_east can coin flee DIRECTION_NONE ?y else from_west can coin flee DIRECTION_NONE ?y)"
    (is "good_step _ _ _ _ ?step")
  proof -
    consider "?x = 0 \<and> ?y = 0" | "\<bar>?x\<bar> = \<bar>?y\<bar>" "?x \<ge> 1" "?y \<ge> 1" | "\<bar>?x\<bar> = \<bar>?y\<bar>" "?x \<le> -1" "?y \<le> -1"
      | "\<bar>?x\<bar> = \<bar>?y\<bar>" "?x \<ge> 1" "?y \<le> -1" | "\<bar>?x\<bar> = \<bar>?y\<bar>" "?x \<le> -1" "?y \<ge> 1" | "\<bar>?x\<bar> < \<bar>?y\<bar>" | "\<bar>?y\<bar> < \<bar>?x\<bar>"
      by linarith
    then show ?thesis
    proof cases
      case 1
      then show ?thesis using random_good [OF assms(1) zero, of can flee] by simp
    next
      case 6
      then have "?step = (if ?y < 0 then from_south can coin flee DIRECTION_NONE ?x else from_north can coin flee DIRECTION_NONE ?x)"
        by auto
      then show ?thesis using 1 [OF 6] by simp
    next
      case 7
      then have "?step = (if ?x < 0 then from_east can coin flee DIRECTION_NONE ?y else from_west can coin flee DIRECTION_NONE ?y)"
        by auto
      then show ?thesis using 2 [OF 7] by simp
    qed (use nw se sw ne in simp_all)
  qed
  show ?thesis
    unfolding getDistanceStep_def Let_def if_not_P [OF go(1)] if_not_P [OF go(2)] fst_conv
    unfolding d if_distribR by (rule 3)
qed

lemma dance_option_set:
  "set (dance_option a can p q keepAttack False d side (far_after d p q))
    = (if can d \<and> far_after d p q = far p q \<and> (keepAttack \<and> canUseAttack a p q \<longrightarrow> canUseAttack a (getNextPosition d p) q) then {d} else {})"
  by (auto simp: dance_option_def far_def Let_def)

lemma dance_set:
  "set (dance_list a can p q keepAttack False) = {d \<in> straight. can d \<and> far_after d p q = far p q
    \<and> (keepAttack \<and> canUseAttack a p q \<longrightarrow> canUseAttack a (getNextPosition d p) q)}"
proof -
  have e: "max \<bar>getOffsetX p q\<bar> \<bar>getY p - 1 - getY q\<bar> = far_after DIRECTION_NORTH p q"
    "max \<bar>getOffsetX p q\<bar> \<bar>getY p + 1 - getY q\<bar> = far_after DIRECTION_SOUTH p q"
    "max \<bar>getX p + 1 - getX q\<bar> \<bar>getOffsetY p q\<bar> = far_after DIRECTION_EAST p q"
    "max \<bar>getX p - 1 - getX q\<bar> \<bar>getOffsetY p q\<bar> = far_after DIRECTION_WEST p q"
    by (simp_all add: far_after_def getOffsetX_def getOffsetY_def algebra_simps)
  show ?thesis unfolding dance_list_def Let_def e set_append dance_option_set by auto
qed

section \<open>Properties\<close>

text \<open>
  A step that keeps the distance is a good one. Whatever is chosen can be walked to; a monster that
  does not flee never comes closer to its target by it, and one that flees only when all three other
  straight directions are blocked; a fleeing monster finds a step while any straight direction is free.
  When the target is too far or out of sight the monster does not flee from, the path search is left to
  decide, and the slow-down counter stays between 0 and 2.
\<close>

theorem distance_step_keeps_away:
  assumes "set order = straight" and "0 \<le> stepDuration" and "stepDuration \<le> 2"
    and "getDistanceStep (monster_canWalkTo v p) coin order targetDistance sight p q flee DIRECTION_NONE stepDuration = ((result, dir), stepDuration')"
  shows "(dir \<noteq> DIRECTION_NONE \<longrightarrow> result \<and> monster_canWalkTo v p dir
      \<and> (step_inside dir p \<longrightarrow> far p q \<le> far (getNextPosition dir p) q \<or> flee \<and> (\<forall>d \<in> straight - {dir}. \<not> monster_canWalkTo v p d)))
    \<and> (flee \<and> dir = DIRECTION_NONE \<longrightarrow> (\<forall>d \<in> straight. \<not> monster_canWalkTo v p d))
    \<and> (\<not> flee \<and> (far p q > targetDistance \<or> \<not> sight) \<longrightarrow> \<not> result \<and> dir = DIRECTION_NONE)
    \<and> 0 \<le> stepDuration' \<and> stepDuration' \<le> 2"
proof (cases "flee \<or> (far p q < targetDistance \<and> sight)")
  case True
  have "good_step (monster_canWalkTo v p) flee p q (result, dir)"
    using distance_step_good [OF assms(1) True, of "monster_canWalkTo v p" coin stepDuration] assms(4) by simp
  moreover have "0 \<le> stepDuration' \<and> stepDuration' \<le> 2"
    using assms(2-4) by (auto simp: getDistanceStep_def Let_def split: if_splits)
  ultimately show ?thesis using True by (auto simp: good_step_def far_next)
next
  case False
  then show ?thesis using assms(2-4) by (auto simp: getDistanceStep_def far_def Let_def split: if_splits)
qed

text \<open>
  A dance step keeps the distance to the target and, when asked, the ability to attack: the step
  taken is straight, can be walked, leaves the distance as it was, and a monster that could attack
  still can. There is no step only when no straight direction has these properties.
\<close>

theorem dance_step_keeps_distance:
  assumes "\<forall>d \<in> straight. step_inside d p"
    and "getDanceStep a (monster_canWalkTo v p) drawn p q keepAttack False DIRECTION_NONE = (result, dir)"
  shows "(result \<longrightarrow> dir \<in> straight \<and> monster_canWalkTo v p dir \<and> far (getNextPosition dir p) q = far p q
      \<and> (keepAttack \<and> canUseAttack a p q \<longrightarrow> canUseAttack a (getNextPosition dir p) q))
    \<and> (\<not> result \<longrightarrow> (\<forall>d \<in> straight. \<not> (monster_canWalkTo v p d \<and> far (getNextPosition d p) q = far p q
      \<and> (keepAttack \<and> canUseAttack a p q \<longrightarrow> canUseAttack a (getNextPosition d p) q))))"
proof -
  let ?dirs = "dance_list a (monster_canWalkTo v p) p q keepAttack False"
  have "set ?dirs = {d \<in> straight. monster_canWalkTo v p d \<and> far (getNextPosition d p) q = far p q
      \<and> (keepAttack \<and> canUseAttack a p q \<longrightarrow> canUseAttack a (getNextPosition d p) q)}"
    using far_next [OF bspec [OF assms(1)]] unfolding dance_set by (intro Collect_cong) (metis (no_types, lifting))
  then have m: "d \<in> set ?dirs \<longleftrightarrow> d \<in> straight \<and> monster_canWalkTo v p d \<and> far (getNextPosition d p) q = far p q
      \<and> (keepAttack \<and> canUseAttack a p q \<longrightarrow> canUseAttack a (getNextPosition d p) q)" for d
    by blast
  show ?thesis
  proof (cases "?dirs = []")
    case True
    then show ?thesis using m assms(2) by (auto simp: getDanceStep_def)
  next
    case False
    then have "result \<and> dir \<in> set ?dirs" using assms(2) by (auto simp: getDanceStep_def Let_def)
    then show ?thesis unfolding m by blast
  qed
qed

text \<open>
  A monster turns to its target: with a straight direction before, the new direction is straight and the
  target is on that side of the monster.
\<close>

theorem look_faces_target:
  assumes "dir \<in> straight" and "(pos_x p, pos_y p) \<noteq> (pos_x q, pos_y q)" and "updateLookDirection False p (Some q) dir = Some look"
  shows "look \<in> straight \<and> dir_dx look * getOffsetX q p \<ge> 0 \<and> dir_dy look * getOffsetY q p \<ge> 0
    \<and> dir_dx look * getOffsetX q p + dir_dy look * getOffsetY q p > 0"
proof -
  have "getOffsetX q p \<noteq> 0 \<or> getOffsetY q p \<noteq> 0"
    using assms(2) by (auto simp: getOffsetX_def getOffsetY_def getX_def getY_def word_uint_eq_iff)
  then show ?thesis using assms(1,3) by (auto simp: updateLookDirection_def Let_def split: if_splits)
qed

subsection \<open>Examples\<close>

definition open_view :: walk_view where
  "open_view = \<lparr>wv_spawn = False, wv_masterPos = Position 0 0 0, wv_despawnRadius = 0, wv_despawnRange = 0,
     wv_cache = (\<lambda>_. 1), wv_tile = (\<lambda>_. Some \<lparr>tv_creature = False, tv_enter = True\<rparr>)\<rparr>"

lemma open_view_can: "monster_canWalkTo open_view p d"
  by (simp add: monster_canWalkTo_def isInSpawnRange_def open_view_def Let_def)

definition here :: position where "here = Position 10 10 7"
definition there :: position where "there = Position 9 9 7"

lemma here_inside: "\<forall>d \<in> straight. step_inside d here"
  by (simp add: here_def step_inside_def getX_def getY_def)

lemma here_there: "getOffsetX here there = 1" "getOffsetY here there = 1" "getOffsetX there here = -1" "getOffsetY there here = -1"
  by (simp_all add: here_def there_def getOffsetX_def getOffsetY_def getX_def getY_def)

lemma step_example:
  "getDistanceStep (monster_canWalkTo open_view here) True dirList 4 True here there False DIRECTION_NONE 1 = ((True, DIRECTION_SOUTH), 2)"
  by (simp add: getDistanceStep_def getDistanceX_def getDistanceY_def here_there from_northwest_def diagonal_step_def
      open_view_can either_def Let_def)

theorem distance_step_keeps_away_witness: "far here there \<le> far (getNextPosition DIRECTION_SOUTH here) there"
  using distance_step_keeps_away [OF _ _ _ step_example] here_inside by (auto simp: dirList_def)

definition calm :: attack_view where
  "calm = \<lparr>av_hostile = False, av_ranges = [], av_sight = (\<lambda>_ _. True)\<rparr>"

theorem dance_step_keeps_distance_witness:
  "far (getNextPosition (snd (getDanceStep calm (monster_canWalkTo open_view here) 0 here there False False DIRECTION_NONE)) here) there = 1"
proof -
  have f: "far here there = 1" by (simp add: far_def getDistanceX_def getDistanceY_def here_there)
  obtain result dir where r: "getDanceStep calm (monster_canWalkTo open_view here) 0 here there False False DIRECTION_NONE = (result, dir)"
    by fastforce
  have n: "far (getNextPosition DIRECTION_NORTH here) there = 1"
    using far_next [of DIRECTION_NORTH here there] here_inside by (simp add: far_after_def here_there)
  note t = dance_step_keeps_distance [OF here_inside r]
  have result using t open_view_can [of here DIRECTION_NORTH] f n by auto
  then show ?thesis using t f r by simp
qed

theorem look_faces_target_witness: "updateLookDirection False here (Some there) DIRECTION_EAST = Some DIRECTION_NORTH \<and> DIRECTION_NORTH \<in> straight"
proof -
  have "updateLookDirection False here (Some there) DIRECTION_EAST = Some DIRECTION_NORTH"
    by (simp add: updateLookDirection_def here_there Let_def)
  then show ?thesis using look_faces_target [of DIRECTION_EAST here there DIRECTION_NORTH] by (simp add: here_def there_def)
qed

end
