(* ===== verification/Monster_Targets.thy ===== *)
theory Monster_Targets
  imports Monster_Steps Spectators
begin

text \<open>
  Whom a monster knows and whom it follows: the lists of friends and targets of
  \<^verbatim>\<open>src/src/monster.cpp\<close> with the references they hold, the idle status, the
  search for a target, the target part of a turn of thinking, and \<^verbatim>\<open>canSee\<close>,
  \<^verbatim>\<open>setAttackedCreature\<close>, \<^verbatim>\<open>setFollowCreature\<close> and
  \<^verbatim>\<open>onCreatureDisappear\<close> of \<^verbatim>\<open>src/src/creature.cpp\<close>. Creatures are
  numbers that stand for the pointers. What the monster reads of other creatures is a world that may be
  another one at every event. The calls into other objects (the fight status of the attacked creature,
  the scripts, the walk timer) are left out; the orders a monster passes on to its summons are a log.
\<close>

section \<open>Creatures\<close>

record creature_view =
  cv_position :: position
  cv_health :: int
  cv_removed :: bool
  cv_attackable :: bool
  cv_protectionZone :: bool
  cv_invisible :: bool
  cv_player :: bool
  cv_monster :: bool
  cv_guardian :: bool
  cv_master :: "nat option"
  cv_summonCount :: nat
  cv_ignoredByMonsters :: bool
  cv_guid :: nat
  cv_duelistContract :: "nat option"
  cv_attacked :: "nat option"

text \<open>\<open>mw_partner\<close> is \<^verbatim>\<open>isPartner\<close> between players, \<open>mw_damaged\<close>
  \<^verbatim>\<open>hasBeenAttacked\<close> of the monster.\<close>

record monster_world =
  mw_creature :: "nat \<Rightarrow> creature_view"
  mw_partner :: "nat \<Rightarrow> nat \<Rightarrow> bool"
  mw_attack :: attack_view
  mw_damaged :: "nat \<Rightarrow> bool"
  mw_passive :: bool
  mw_seesInvisible :: bool
  mw_aggressiveCondition :: bool
  mw_changeTargetSpeed :: int
  mw_changeTargetChance :: int
  mw_targetDistance :: int
  mw_fleeing :: bool

text \<open>\<open>mo_refs\<close> are the reference counters of the creatures; \<open>mo_check\<close> and \<open>mo_inCheck\<close>
  are \<^verbatim>\<open>creatureCheck\<close> and \<^verbatim>\<open>inCheckCreaturesVector\<close>; \<open>mo_attacks\<close> counts
  the attacks scheduled. Durations are integers: an interval is a few seconds at most.\<close>

record monster =
  mo_self :: nat
  mo_friends :: "nat set"
  mo_targets :: "nat list"
  mo_refs :: "nat \<Rightarrow> int"
  mo_idle :: bool
  mo_check :: bool
  mo_inCheck :: bool
  mo_masterInRange :: bool
  mo_attacked :: "nat option"
  mo_follow :: "nat option"
  mo_hasFollowPath :: bool
  mo_forceUpdateFollowPath :: bool
  mo_updatingPath :: bool
  mo_walkDirs :: "direction list"
  mo_attacks :: nat
  mo_orders :: "nat option list"
  mo_attackTicks :: int
  mo_targetChangeTicks :: int
  mo_targetChangeCooldown :: int
  mo_challengeFocusDuration :: int

definition me :: "monster_world \<Rightarrow> monster \<Rightarrow> creature_view" where
  "me w m = mw_creature w (mo_self m)"

abbreviation isSummon :: "monster_world \<Rightarrow> monster \<Rightarrow> bool" where
  "isSummon w m \<equiv> cv_master (me w m) \<noteq> None"

text \<open>The player that is the master of a creature.\<close>

definition master_player :: "monster_world \<Rightarrow> creature_view \<Rightarrow> nat option" where
  "master_player w c =
     (case cv_master c of None \<Rightarrow> None | Some q \<Rightarrow> if cv_player (mw_creature w q) then Some q else None)"

text \<open>\<^verbatim>\<open>Creature::canSee\<close>.\<close>

definition creature_canSee :: "position \<Rightarrow> position \<Rightarrow> bool" where
  "creature_canSee myPos pos =
     (if pos_z myPos \<le> 7 \<and> pos_z pos > 7 then False
      else if \<not> pos_z myPos \<le> 7 \<and> pos_z pos < 8 then False
      else if \<not> pos_z myPos \<le> 7 \<and> getDistanceZ myPos pos > 2 then False
      else
        (let offsetz = getZ myPos - getZ pos in
         getX pos \<ge> getX myPos - (maxViewportX - 2) + offsetz \<and> getX pos \<le> getX myPos + (maxViewportX - 2) + offsetz
         \<and> getY pos \<ge> getY myPos - (maxViewportY - 1) + offsetz \<and> getY pos \<le> getY myPos + (maxViewportY - 1) + offsetz))"

definition monster_canSee :: "monster_world \<Rightarrow> monster \<Rightarrow> nat \<Rightarrow> bool" where
  "monster_canSee w m c = creature_canSee (cv_position (me w m)) (cv_position (mw_creature w c))"

definition canSeeCreature :: "monster_world \<Rightarrow> nat \<Rightarrow> bool" where
  "canSeeCreature w c = (\<not> (\<not> mw_seesInvisible w \<and> cv_invisible (mw_creature w c)))"

section \<open>Friends, opponents, targets\<close>

definition isFriend :: "monster_world \<Rightarrow> monster \<Rightarrow> nat \<Rightarrow> bool" where
  "isFriend w m c =
     (let cr = mw_creature w c in
      if cv_guardian cr then True
      else case master_player w (me w m) of
        Some masterPlayer \<Rightarrow>
          (case (if cv_player cr then Some c else master_player w cr) of
             Some tmpPlayer \<Rightarrow> tmpPlayer = masterPlayer \<or> mw_partner w masterPlayer tmpPlayer
           | None \<Rightarrow> False)
      | None \<Rightarrow> cv_monster cr \<and> cv_master cr = None)"

text \<open>The contract of the duelist who is the master.\<close>

definition duel_opponent :: "monster_world \<Rightarrow> monster \<Rightarrow> nat \<Rightarrow> bool" where
  "duel_opponent w m c =
     (let cr = mw_creature w c in
      case cv_master (me w m) of
        None \<Rightarrow> False
      | Some master \<Rightarrow>
          (case cv_duelistContract (mw_creature w master) of
             None \<Rightarrow> False
           | Some contract \<Rightarrow>
               if contract = 0 then True
               else case (if cv_player cr then Some c else master_player w cr) of
                   Some player \<Rightarrow> cv_guid (mw_creature w player) = contract
                 | None \<Rightarrow> False))"

definition isOpponent :: "monster_world \<Rightarrow> monster \<Rightarrow> nat \<Rightarrow> bool" where
  "isOpponent w m c =
     (let cr = mw_creature w c in
      if cv_summonCount cr > 0 \<or> cv_guardian cr then False
      else if duel_opponent w m c then True
      else if master_player w (me w m) \<noteq> None then
        (if cv_master cr \<noteq> None \<and> cv_master cr = cv_master (me w m) then False
         else Some c \<noteq> cv_master (me w m))
      else cv_player cr \<and> \<not> cv_ignoredByMonsters cr \<or> master_player w cr \<noteq> None)"

definition isTarget :: "monster_world \<Rightarrow> monster \<Rightarrow> nat \<Rightarrow> bool" where
  "isTarget w m c =
     (let cr = mw_creature w c in
      if cv_removed cr \<or> \<not> cv_attackable cr \<or> cv_protectionZone cr \<or> \<not> canSeeCreature w c then False
      else if cv_summonCount cr > 0 \<or> cv_guardian cr then False
      else if pos_z (cv_position cr) \<noteq> pos_z (cv_position (me w m)) then False
      else True)"

section \<open>The lists\<close>

definition incrementReferenceCounter :: "nat \<Rightarrow> monster \<Rightarrow> monster" where
  "incrementReferenceCounter c m = m\<lparr>mo_refs := (mo_refs m)(c := mo_refs m c + 1)\<rparr>"

definition decrementReferenceCounter :: "nat \<Rightarrow> monster \<Rightarrow> monster" where
  "decrementReferenceCounter c m = m\<lparr>mo_refs := (mo_refs m)(c := mo_refs m c - 1)\<rparr>"

definition addFriend :: "nat \<Rightarrow> monster \<Rightarrow> monster" where
  "addFriend c m =
     (if c \<in> mo_friends m then m
      else incrementReferenceCounter c (m\<lparr>mo_friends := insert c (mo_friends m)\<rparr>))"

definition removeFriend :: "nat \<Rightarrow> monster \<Rightarrow> monster" where
  "removeFriend c m =
     (if c \<in> mo_friends m then (decrementReferenceCounter c m)\<lparr>mo_friends := mo_friends m - {c}\<rparr> else m)"

definition addTarget :: "nat \<Rightarrow> bool \<Rightarrow> monster \<Rightarrow> monster" where
  "addTarget c pushFront m =
     (if c \<notin> set (mo_targets m) then
        (let m = incrementReferenceCounter c m in
         if pushFront then m\<lparr>mo_targets := c # mo_targets m\<rparr> else m\<lparr>mo_targets := mo_targets m @ [c]\<rparr>)
      else m)"

definition removeTarget :: "nat \<Rightarrow> monster \<Rightarrow> monster" where
  "removeTarget c m =
     (if c \<in> set (mo_targets m) then (decrementReferenceCounter c m)\<lparr>mo_targets := remove1 c (mo_targets m)\<rparr> else m)"

text \<open>The loops that drop the listed creatures of a set.\<close>

definition drop_friends :: "(nat \<Rightarrow> bool) \<Rightarrow> monster \<Rightarrow> monster" where
  "drop_friends gone m = m\<lparr>
     mo_refs := (\<lambda>c. if c \<in> mo_friends m \<and> gone c then mo_refs m c - 1 else mo_refs m c),
     mo_friends := {c \<in> mo_friends m. \<not> gone c}\<rparr>"

definition drop_targets :: "(nat \<Rightarrow> bool) \<Rightarrow> monster \<Rightarrow> monster" where
  "drop_targets gone m =
     (fold decrementReferenceCounter (filter gone (mo_targets m)) m)\<lparr>mo_targets := filter (\<lambda>c. \<not> gone c) (mo_targets m)\<rparr>"

definition clearFriendList :: "monster \<Rightarrow> monster" where
  "clearFriendList = drop_friends (\<lambda>_. True)"

definition clearTargetList :: "monster \<Rightarrow> monster" where
  "clearTargetList = drop_targets (\<lambda>_. True)"

section \<open>Idle or not\<close>

definition addCreatureCheck :: "monster \<Rightarrow> monster" where
  "addCreatureCheck m =
     (let m = m\<lparr>mo_check := True\<rparr> in
      if mo_inCheck m then m
      else incrementReferenceCounter (mo_self m) (m\<lparr>mo_inCheck := True\<rparr>))"

definition removeCreatureCheck :: "monster \<Rightarrow> monster" where
  "removeCreatureCheck m = (if mo_inCheck m then m\<lparr>mo_check := False\<rparr> else m)"

definition setIdle :: "monster_world \<Rightarrow> bool \<Rightarrow> monster \<Rightarrow> monster" where
  "setIdle w idle m =
     (if cv_removed (me w m) \<or> cv_health (me w m) \<le> 0 then m
      else
        (let m = m\<lparr>mo_idle := idle\<rparr> in
         if \<not> idle then addCreatureCheck m
         else removeCreatureCheck (clearFriendList (clearTargetList m))))"

definition updateIdleStatus :: "monster_world \<Rightarrow> monster \<Rightarrow> monster" where
  "updateIdleStatus w m =
     setIdle w (if \<not> isSummon w m \<and> mo_targets m = [] then \<not> mw_aggressiveCondition w else False) m"

section \<open>Creatures that come and go\<close>

definition onCreatureFound :: "monster_world \<Rightarrow> bool \<Rightarrow> nat \<Rightarrow> monster \<Rightarrow> monster" where
  "onCreatureFound w pushFront c m =
     (if c = mo_self m then m
      else if \<not> monster_canSee w m c then m
      else
        (let m = (if isFriend w m c then addFriend c m else m);
             m = (if isOpponent w m c then addTarget c pushFront m else m)
         in updateIdleStatus w m))"

definition onCreatureEnter :: "monster_world \<Rightarrow> nat \<Rightarrow> monster \<Rightarrow> monster" where
  "onCreatureEnter w c m =
     (let m = (if cv_master (me w m) = Some c then m\<lparr>mo_masterInRange := True\<rparr> else m)
      in onCreatureFound w True c m)"

definition onCreatureLeave :: "monster_world \<Rightarrow> nat \<Rightarrow> monster \<Rightarrow> monster" where
  "onCreatureLeave w c m =
     (let m = (if cv_master (me w m) = Some c then m\<lparr>mo_masterInRange := False\<rparr> else m);
          m = (if isFriend w m c then removeFriend c m else m)
      in if isOpponent w m c then
           (let m = removeTarget c m in if mo_targets m = [] then updateIdleStatus w m else m)
         else m)"

text \<open>\<open>spectators\<close> is the result of \<^verbatim>\<open>getSpectators\<close> at the position of the monster.\<close>

definition updateTargetList :: "monster_world \<Rightarrow> nat list \<Rightarrow> monster \<Rightarrow> monster" where
  "updateTargetList w spectators m =
     (let gone = (\<lambda>c. cv_health (mw_creature w c) \<le> 0 \<or> \<not> monster_canSee w m c);
          m = drop_targets gone (drop_friends gone m)
      in fold (onCreatureFound w False) (swap_erase (mo_self m) spectators) m)"

section \<open>Attacking and following\<close>

definition setAttackedCreature :: "monster_world \<Rightarrow> nat option \<Rightarrow> monster \<Rightarrow> bool \<times> monster" where
  "setAttackedCreature w creature m =
     (case creature of
        Some c \<Rightarrow>
          if pos_z (cv_position (mw_creature w c)) \<noteq> pos_z (cv_position (me w m)) \<or> \<not> monster_canSee w m c
          then (False, m\<lparr>mo_attacked := None\<rparr>)
          else (True, m\<lparr>mo_attacked := Some c, mo_orders := mo_orders m @ [creature]\<rparr>)
      | None \<Rightarrow> (True, m\<lparr>mo_attacked := None, mo_orders := mo_orders m @ [creature]\<rparr>))"

definition setFollowCreature :: "monster_world \<Rightarrow> nat option \<Rightarrow> monster \<Rightarrow> bool \<times> monster" where
  "setFollowCreature w creature m =
     (case creature of
        Some c \<Rightarrow>
          if mo_follow m = Some c then (True, m)
          else if pos_z (cv_position (mw_creature w c)) \<noteq> pos_z (cv_position (me w m)) \<or> \<not> monster_canSee w m c
          then (False, m\<lparr>mo_follow := None\<rparr>)
          else (True, m\<lparr>mo_walkDirs := [], mo_hasFollowPath := False, mo_forceUpdateFollowPath := False,
             mo_follow := Some c, mo_updatingPath := True\<rparr>)
      | None \<Rightarrow> (True, m\<lparr>mo_updatingPath := False, mo_follow := None\<rparr>))"

definition onCreatureDisappear :: "monster_world \<Rightarrow> nat \<Rightarrow> monster \<Rightarrow> monster" where
  "onCreatureDisappear w c m =
     (let m = (if mo_attacked m = Some c then (snd (setAttackedCreature w None m))\<lparr>mo_attackTicks := 0\<rparr> else m)
      in if mo_follow m = Some c then snd (setFollowCreature w None m) else m)"

definition onFollowCreatureComplete :: "monster_world \<Rightarrow> nat option \<Rightarrow> monster \<Rightarrow> monster" where
  "onFollowCreatureComplete w creature m =
     (case creature of
        None \<Rightarrow> m
      | Some c \<Rightarrow>
          if c \<in> set (mo_targets m) then
            (let m = m\<lparr>mo_targets := remove1 c (mo_targets m)\<rparr> in
             if mo_hasFollowPath m then m\<lparr>mo_targets := c # mo_targets m\<rparr>
             else if \<not> isSummon w m then m\<lparr>mo_targets := mo_targets m @ [c]\<rparr>
             else decrementReferenceCounter c m)
          else m)"

section \<open>Choosing a target\<close>

definition selectTarget :: "monster_world \<Rightarrow> nat \<Rightarrow> monster \<Rightarrow> bool \<times> monster" where
  "selectTarget w c m =
     (if \<not> isTarget w m c then (False, m)
      else if c \<notin> set (mo_targets m) then (False, m)
      else if mw_passive w
        \<and> \<not> mw_damaged w (case master_player w (mw_creature w c) of Some player \<Rightarrow> player | None \<Rightarrow> c) then (False, m)
      else
        (let m = (if av_hostile (mw_attack w) \<or> isSummon w m then
                    (let (attacked, m) = setAttackedCreature w (Some c) m in
                     if attacked \<and> (\<not> isSummon w m \<or> cv_guardian (me w m)) then m\<lparr>mo_attacks := mo_attacks m + 1\<rparr> else m)
                  else m)
         in setFollowCreature w (Some c) m))"

datatype target_search = TARGETSEARCH_DEFAULT | TARGETSEARCH_RANDOM | TARGETSEARCH_ATTACKRANGE | TARGETSEARCH_NEAREST

definition target_distance :: "monster_world \<Rightarrow> monster \<Rightarrow> nat \<Rightarrow> int" where
  "target_distance w m c =
     getDistanceX (cv_position (me w m)) (cv_position (mw_creature w c))
     + getDistanceY (cv_position (me w m)) (cv_position (mw_creature w c))"

text \<open>The first of the nearest: the loop keeps a candidate with its distance.\<close>

fun nearest :: "(nat \<Rightarrow> int) \<Rightarrow> nat option \<Rightarrow> int \<Rightarrow> nat list \<Rightarrow> nat option" where
  "nearest d target minRange [] = target"
| "nearest d target minRange (c # cs) =
     (if d c < minRange then nearest d (Some c) (d c) cs else nearest d target minRange cs)"

definition target_results :: "monster_world \<Rightarrow> target_search \<Rightarrow> monster \<Rightarrow> nat list" where
  "target_results w searchType m =
     filter (\<lambda>c. mo_follow m \<noteq> Some c \<and> isTarget w m c
       \<and> (searchType = TARGETSEARCH_RANDOM
          \<or> canUseAttack (mw_attack w) (cv_position (me w m)) (cv_position (mw_creature w c)))) (mo_targets m)"

definition nearest_target :: "monster_world \<Rightarrow> monster \<Rightarrow> nat option" where
  "nearest_target w m =
     (case target_results w TARGETSEARCH_NEAREST m of
        c # cs \<Rightarrow> nearest (target_distance w m) (Some c) (target_distance w m c) cs
      | [] \<Rightarrow> nearest (target_distance w m) None (2 ^ 31 - 1) (filter (isTarget w m) (mo_targets m)))"

text \<open>The last loop over the list of targets; a failed \<^verbatim>\<open>selectTarget\<close> may already have changed the
  monster.\<close>

fun first_target :: "monster_world \<Rightarrow> nat list \<Rightarrow> monster \<Rightarrow> bool \<times> monster" where
  "first_target w [] m = (False, m)"
| "first_target w (c # cs) m =
     (if mo_follow m \<noteq> Some c
      then (case selectTarget w c m of (True, m) \<Rightarrow> (True, m) | (False, m) \<Rightarrow> first_target w cs m)
      else first_target w cs m)"

definition searchTarget :: "monster_world \<Rightarrow> target_search \<Rightarrow> nat \<Rightarrow> monster \<Rightarrow> bool \<times> monster" where
  "searchTarget w searchType drawn m =
     (if searchType = TARGETSEARCH_NEAREST then
        (case nearest_target w m of
           Some target \<Rightarrow>
             (case selectTarget w target m of
                (True, m) \<Rightarrow> (True, m)
              | (False, m) \<Rightarrow> first_target w (mo_targets m) m)
         | None \<Rightarrow> first_target w (mo_targets m) m)
      else
        (let resultList = target_results w searchType m in
         if resultList \<noteq> [] then selectTarget w (resultList ! (drawn mod length resultList)) m
         else if searchType = TARGETSEARCH_ATTACKRANGE then (False, m)
         else first_target w (mo_targets m) m))"

text \<open>A player challenges the monster.\<close>

definition challengeCreature :: "monster_world \<Rightarrow> nat \<Rightarrow> monster \<Rightarrow> bool \<times> monster" where
  "challengeCreature w c m =
     (if isSummon w m then (False, m)
      else case selectTarget w c m of
          (True, m) \<Rightarrow> (True, m\<lparr>mo_targetChangeCooldown := 8000, mo_challengeFocusDuration := 8000, mo_targetChangeTicks := 0\<rparr>)
        | (False, m) \<Rightarrow> (False, m))"

section \<open>Thinking\<close>

text \<open>What the random generator gives in one turn: the index in the list of candidates, twice, and the number
  from 1 to 100.\<close>

record think_random =
  tr_search :: nat
  tr_percent :: int
  tr_change :: nat

definition onThinkTarget :: "monster_world \<Rightarrow> think_random \<Rightarrow> int \<Rightarrow> monster \<Rightarrow> monster" where
  "onThinkTarget w r interval m =
     (if \<not> isSummon w m then
        (if mw_changeTargetSpeed w \<noteq> 0 then
           (let m = (if mo_challengeFocusDuration m > 0
                  then m\<lparr>mo_challengeFocusDuration := max 0 (mo_challengeFocusDuration m - interval)\<rparr> else m);
                (canChangeTarget, m) =
                  (if mo_targetChangeCooldown m > 0 then
                     (let m = m\<lparr>mo_targetChangeCooldown := mo_targetChangeCooldown m - interval\<rparr> in
                      if mo_targetChangeCooldown m \<le> 0
                      then (True, m\<lparr>mo_targetChangeCooldown := 0, mo_targetChangeTicks := mw_changeTargetSpeed w\<rparr>)
                      else (False, m))
                   else (True, m))
            in if canChangeTarget then
                 (let m = m\<lparr>mo_targetChangeTicks := mo_targetChangeTicks m + interval\<rparr> in
                  if mo_targetChangeTicks m \<ge> mw_changeTargetSpeed w then
                    (let m = m\<lparr>mo_targetChangeTicks := 0, mo_targetChangeCooldown := mw_changeTargetSpeed w,
                           mo_challengeFocusDuration := (if mo_challengeFocusDuration m > 0 then 0 else mo_challengeFocusDuration m)\<rparr>
                     in if mw_changeTargetChance w \<ge> tr_percent r
                        then snd (searchTarget w (if mw_targetDistance w \<le> 1 then TARGETSEARCH_RANDOM else TARGETSEARCH_NEAREST)
                                    (tr_change r) m)
                        else m)
                  else m)
               else m)
         else m)
      else if cv_guardian (me w m) then
        (if mo_attacked m = None then snd (searchTarget w TARGETSEARCH_RANDOM (tr_change r) m) else m)
      else m)"

text \<open>The order of a summon, or a target for the others.\<close>

definition think_order :: "monster_world \<Rightarrow> think_random \<Rightarrow> monster \<Rightarrow> monster" where
  "think_order w r m =
     (case cv_master (me w m) of
        Some master \<Rightarrow>
          (case mo_attacked m of
             None \<Rightarrow>
               (case cv_attacked (mw_creature w master) of
                  Some target \<Rightarrow> snd (selectTarget w target m)
                | None \<Rightarrow> if mo_follow m \<noteq> Some master then snd (setFollowCreature w (Some master) m) else m)
           | Some attacked \<Rightarrow>
               if attacked = mo_self m then snd (setFollowCreature w None m)
               else if mo_follow m \<noteq> Some attacked then snd (setFollowCreature w (Some attacked) m)
               else m)
      | None \<Rightarrow>
          if mo_targets m \<noteq> [] then
            (if mo_follow m = None \<or> \<not> mo_hasFollowPath m then snd (searchTarget w TARGETSEARCH_DEFAULT (tr_search r) m)
             else if mw_fleeing w then
               (case mo_attacked m of
                  Some attacked \<Rightarrow>
                    if \<not> canUseAttack (mw_attack w) (cv_position (me w m)) (cv_position (mw_creature w attacked))
                    then snd (searchTarget w TARGETSEARCH_ATTACKRANGE (tr_search r) m) else m
                | None \<Rightarrow> m)
             else m)
          else m)"

text \<open>A turn of a monster that is where it spawned.\<close>

definition monster_think :: "monster_world \<Rightarrow> think_random \<Rightarrow> int \<Rightarrow> monster \<Rightarrow> monster" where
  "monster_think w r interval m =
     (let m = updateIdleStatus w m in
      if \<not> mo_idle m then onThinkTarget w r interval (think_order w r m) else m)"

section \<open>Creatures that move\<close>

definition monster_moved :: "monster_world \<Rightarrow> nat list \<Rightarrow> monster \<Rightarrow> monster" where
  "monster_moved w spectators m =
     (let m = (case cv_master (me w m) of
                 Some master \<Rightarrow> m\<lparr>mo_masterInRange := monster_canSee w m master\<rparr>
               | None \<Rightarrow> m)
      in updateIdleStatus w (updateTargetList w spectators m))"

text \<open>Another creature moves: \<open>blocker\<close> is the creature on top of the next tile towards the followed one.\<close>

definition creature_moved ::
  "monster_world \<Rightarrow> nat \<Rightarrow> position \<Rightarrow> position \<Rightarrow> (monster \<Rightarrow> nat option) \<Rightarrow> monster \<Rightarrow> monster" where
  "creature_moved w c newPos oldPos blocker m =
     (let canSeeNewPos = creature_canSee (cv_position (me w m)) newPos;
          canSeeOldPos = creature_canSee (cv_position (me w m)) oldPos;
          m = (if canSeeNewPos \<and> \<not> canSeeOldPos then onCreatureEnter w c m
               else if \<not> canSeeNewPos \<and> canSeeOldPos then onCreatureLeave w c m
               else m);
          m = (if canSeeNewPos \<and> cv_master (me w m) = Some c then m\<lparr>mo_masterInRange := True\<rparr> else m);
          m = updateIdleStatus w m
      in if \<not> isSummon w m \<or> cv_guardian (me w m) then
           (case mo_follow m of
              Some followed \<Rightarrow>
                if (getDistanceX (cv_position (mw_creature w followed)) (cv_position (me w m)) > 1
                    \<or> getDistanceY (cv_position (mw_creature w followed)) (cv_position (me w m)) > 1)
                  \<and> mw_changeTargetChance w > 0
                then (case blocker m of
                        Some topCreature \<Rightarrow>
                          if followed \<noteq> topCreature \<and> isOpponent w m topCreature then snd (selectTarget w topCreature m) else m
                      | None \<Rightarrow> m)
                else m
            | None \<Rightarrow> if isOpponent w m c then snd (selectTarget w c m) else m)
         else m)"

text \<open>A creature is removed from the map; the death of the monster itself (its summons are left out).\<close>

definition creature_removed :: "monster_world \<Rightarrow> nat \<Rightarrow> monster \<Rightarrow> monster" where
  "creature_removed w c m =
     (let m = onCreatureDisappear w c m in
      if c = mo_self m then setIdle w True m else onCreatureLeave w c m)"

definition monster_death :: "monster_world \<Rightarrow> monster \<Rightarrow> monster" where
  "monster_death w m = clearFriendList (clearTargetList (snd (setAttackedCreature w None m)))"

text \<open>The game has found the monster unchecked and lets go of it.\<close>

definition leave_check :: "monster \<Rightarrow> monster" where
  "leave_check m =
     (if mo_inCheck m \<and> \<not> mo_check m then decrementReferenceCounter (mo_self m) (m\<lparr>mo_inCheck := False\<rparr>) else m)"

section \<open>The events of a monster\<close>

text \<open>\<open>loses_sight\<close> is what \<^verbatim>\<open>Creature::onCreatureMove\<close>,
  \<^verbatim>\<open>Creature::onThink\<close> and \<^verbatim>\<open>Creature::onChangeZone\<close> do, before the
  functions of the monster, to a followed or attacked creature out of sight.\<close>

inductive monster_step :: "monster_world \<Rightarrow> monster \<Rightarrow> monster \<Rightarrow> bool" for w where
  moved: "monster_step w m (monster_moved w spectators m)"
| appears: "monster_step w m (onCreatureEnter w c m)"
| disappears: "monster_step w m (creature_removed w c m)"
| moves: "monster_step w m (creature_moved w c newPos oldPos blocker m)"
| thinks: "monster_step w m (monster_think w r interval m)"
| far_away: "monster_step w m (setIdle w True m)"
| harmed: "monster_step w m (setIdle w False m)"
| condition: "monster_step w m (updateIdleStatus w m)"
| ordered: "monster_step w m (snd (setAttackedCreature w target m))"
| challenged: "monster_step w m (snd (challengeCreature w c m))"
| followed: "monster_step w m (onFollowCreatureComplete w target m)"
| let_go: "monster_step w m (leave_check m)"
| loses_sight: "monster_step w m (onCreatureDisappear w c m)"

definition alive :: "monster_world \<Rightarrow> monster \<Rightarrow> bool" where
  "alive w m \<longleftrightarrow> \<not> cv_removed (me w m) \<and> cv_health (me w m) > 0"

text \<open>A run: events while the monster lives, the world being any at each of them, and its death.\<close>

inductive monster_run :: "monster \<Rightarrow> monster \<Rightarrow> bool" for m0 where
  start: "monster_run m0 m0"
| event: "monster_run m0 m \<Longrightarrow> alive w m \<Longrightarrow> monster_step w m m' \<Longrightarrow> monster_run m0 m'"
| dies: "monster_run m0 m \<Longrightarrow> monster_run m0 (monster_death w m)"

section \<open>References and lists\<close>

text \<open>The references a monster holds on a creature: as a friend, as a target, and the one the game holds on the
  monster itself.\<close>

definition held :: "monster \<Rightarrow> nat \<Rightarrow> int" where
  "held m c = (if c \<in> mo_friends m then 1 else 0) + int (count_list (mo_targets m) c)
     + (if c = mo_self m \<and> mo_inCheck m then 1 else 0)"

definition listed_well :: "monster \<Rightarrow> bool" where
  "listed_well m \<longleftrightarrow> distinct (mo_targets m) \<and> mo_self m \<notin> set (mo_targets m) \<and> mo_self m \<notin> mo_friends m"

definition idle_well :: "monster \<Rightarrow> bool" where
  "idle_well m \<longleftrightarrow> (if mo_idle m then mo_targets m = [] \<and> mo_friends m = {} else mo_check m \<and> mo_inCheck m)"

text \<open>What a change keeps: the counters change by the references taken and given back, the lists stay well formed,
  and for a living monster so does the idle status.\<close>

definition kept :: "bool \<Rightarrow> monster \<Rightarrow> monster \<Rightarrow> bool" where
  "kept living m m' \<longleftrightarrow> mo_self m' = mo_self m \<and> (\<forall>c. mo_refs m' c - held m' c = mo_refs m c - held m c)
     \<and> (listed_well m \<longrightarrow> listed_well m') \<and> (living \<and> idle_well m \<longrightarrow> idle_well m')"

lemma kept_refl: "kept living m m"
  by (simp add: kept_def)

lemma kept_trans: "kept living m m' \<Longrightarrow> kept living m' m'' \<Longrightarrow> kept living m m''"
  by (simp add: kept_def)

lemma kept_self: "kept living m m' \<Longrightarrow> mo_self m' = mo_self m"
  by (simp add: kept_def)

lemma kept_alive: "kept living m m' \<Longrightarrow> alive w m' = alive w m"
  by (simp add: kept_def alive_def me_def)

lemma kept_le: "living \<le> alive w m \<Longrightarrow> kept living m m' \<Longrightarrow> living \<le> alive w m'"
  by (simp add: kept_alive)

text \<open>The part of a monster that choosing a target leaves alone.\<close>

definition lists_of :: "monster \<Rightarrow> nat \<times> nat set \<times> nat list \<times> (nat \<Rightarrow> int) \<times> bool \<times> bool \<times> bool" where
  "lists_of m = (mo_self m, mo_friends m, mo_targets m, mo_refs m, mo_idle m, mo_check m, mo_inCheck m)"

lemma kept_lists: "lists_of m' = lists_of m \<Longrightarrow> kept living m m'"
  by (simp add: lists_of_def kept_def held_def listed_well_def idle_well_def)

lemma lists_attack: "setAttackedCreature w c m = (r, m') \<Longrightarrow> lists_of m' = lists_of m"
  by (auto simp: setAttackedCreature_def lists_of_def split: option.splits if_splits)

lemma lists_follow: "setFollowCreature w c m = (r, m') \<Longrightarrow> lists_of m' = lists_of m"
  by (auto simp: setFollowCreature_def lists_of_def split: option.splits if_splits)

lemma lists_select: "selectTarget w c m = (r, m') \<Longrightarrow> lists_of m' = lists_of m"
proof -
  assume s: "selectTarget w c m = (r, m')"
  obtain a m1 where a: "setAttackedCreature w (Some c) m = (a, m1)" by fastforce
  have 1: "lists_of m1 = lists_of m" "lists_of (m1\<lparr>mo_attacks := k\<rparr>) = lists_of m1" for k
    using lists_attack [OF a] by (simp_all add: lists_of_def)
  show ?thesis using s 1 lists_follow [of w "Some c" _ r m']
    unfolding selectTarget_def Let_def a prod.case by (auto split: if_splits)
qed

lemma lists_first: "first_target w cs m = (r, m') \<Longrightarrow> lists_of m' = lists_of m"
proof (induction w cs m rule: first_target.induct)
  case (2 w c cs m)
  obtain s m1 where s: "selectTarget w c m = (s, m1)" by fastforce
  show ?case
  proof (cases "mo_follow m \<noteq> Some c")
    case True
    then show ?thesis using 2 s lists_select [OF s] by (cases s) auto
  qed (use 2 in simp)
qed simp

lemma lists_search: "searchTarget w t i m = (r, m') \<Longrightarrow> lists_of m' = lists_of m"
proof -
  assume s: "searchTarget w t i m = (r, m')"
  have 1: "lists_of m1 = lists_of m" if "selectTarget w c m = (b, m1)" for c b m1 using lists_select [OF that] .
  have 2: "lists_of m' = lists_of m1" if "first_target w cs m1 = (r, m')" for cs m1 using lists_first [OF that] .
  show ?thesis using s unfolding searchTarget_def Let_def
    by (auto split: option.splits prod.splits bool.splits if_splits dest!: 1 2)
qed

lemma lists_snd:
  "lists_of (snd (setAttackedCreature w c m)) = lists_of m" "lists_of (snd (setFollowCreature w c m)) = lists_of m"
  "lists_of (snd (selectTarget w d m)) = lists_of m" "lists_of (snd (searchTarget w t i m)) = lists_of m"
  using lists_attack lists_follow lists_select lists_search by (metis prod.collapse)+

lemma lists_disappear: "lists_of (onCreatureDisappear w c m) = lists_of m"
proof -
  have "lists_of (m1\<lparr>mo_attackTicks := k\<rparr>) = lists_of m1" for m1 k by (simp add: lists_of_def)
  then show ?thesis by (simp add: onCreatureDisappear_def Let_def lists_snd)
qed

lemma lists_challenge: "lists_of (snd (challengeCreature w c m)) = lists_of m"
proof -
  have "lists_of (m1\<lparr>mo_targetChangeCooldown := a, mo_challengeFocusDuration := b, mo_targetChangeTicks := d\<rparr>) = lists_of m1" for m1 a b d
    by (simp add: lists_of_def)
  then show ?thesis using lists_select [of w c m] by (auto simp: challengeCreature_def split: prod.splits bool.splits)
qed

lemma lists_order: "lists_of (think_order w r m) = lists_of m"
  by (simp add: think_order_def lists_snd split: option.splits)

lemma lists_thinkTarget: "lists_of (onThinkTarget w r t m) = lists_of m"
proof -
  have [simp]: "lists_of (m1\<lparr>mo_targetChangeCooldown := a\<rparr>) = lists_of m1" "lists_of (m1\<lparr>mo_challengeFocusDuration := a\<rparr>) = lists_of m1"
    "lists_of (m1\<lparr>mo_targetChangeTicks := a\<rparr>) = lists_of m1" for m1 a
    by (simp_all add: lists_of_def)
  show ?thesis by (simp add: onThinkTarget_def Let_def lists_snd)
qed

section \<open>What the operations keep\<close>

lemma kept_idle: "kept False m m' \<Longrightarrow> (living \<Longrightarrow> idle_well m') \<Longrightarrow> kept living m m'"
  by (simp add: kept_def)

lemma kept_master: "kept living m (m\<lparr>mo_masterInRange := b\<rparr>)"
  by (rule kept_lists) (simp add: lists_of_def)

lemma kept_addFriend: "c \<noteq> mo_self m \<Longrightarrow> kept False m (addFriend c m)"
  by (auto simp: kept_def held_def addFriend_def incrementReferenceCounter_def listed_well_def)

lemma kept_addTarget: "c \<noteq> mo_self m \<Longrightarrow> kept False m (addTarget c b m)"
  by (auto simp: kept_def held_def addTarget_def incrementReferenceCounter_def listed_well_def Let_def)

lemma kept_removeFriend: "kept living m (removeFriend c m)"
  by (auto simp: kept_def held_def removeFriend_def decrementReferenceCounter_def listed_well_def idle_well_def)

lemma count_list_remove1: "c \<in> set xs \<Longrightarrow> int (count_list (remove1 c xs) d) = int (count_list xs d) - (if d = c then 1 else 0)"
  by (induction xs) auto

lemma kept_removeTarget: "kept living m (removeTarget c m)"
  using count_list_remove1 [of c "mo_targets m"]
  by (auto simp: kept_def held_def removeTarget_def decrementReferenceCounter_def listed_well_def idle_well_def
      dest: notin_set_remove1)

lemma kept_dropFriends: "kept living m (drop_friends g m)"
  by (auto simp: kept_def held_def drop_friends_def listed_well_def idle_well_def)

lemma fold_decrement:
  "fold decrementReferenceCounter cs m = m\<lparr>mo_refs := (\<lambda>c. mo_refs m c - int (count_list cs c))\<rparr>"
  by (induction cs arbitrary: m) (auto simp: decrementReferenceCounter_def fun_eq_iff)

lemma count_list_filters: "int (count_list (filter (\<lambda>c. \<not> g c) cs) d) = int (count_list cs d) - int (count_list (filter g cs) d)"
  by (induction cs) auto

lemma kept_dropTargets: "kept living m (drop_targets g m)"
  by (auto simp: kept_def held_def drop_targets_def fold_decrement count_list_filters listed_well_def idle_well_def)

lemma cleared:
  "mo_targets (clearTargetList m) = []" "mo_friends (clearTargetList m) = mo_friends m" "mo_friends (clearFriendList m) = {}"
  "mo_targets (clearFriendList m) = mo_targets m" "mo_idle (clearTargetList m) = mo_idle m" "mo_idle (clearFriendList m) = mo_idle m"
  by (simp_all add: clearTargetList_def clearFriendList_def drop_targets_def drop_friends_def fold_decrement)

lemma kept_clear: "kept living m (clearFriendList (clearTargetList m))"
  unfolding clearFriendList_def clearTargetList_def by (blast intro: kept_trans kept_dropFriends kept_dropTargets)

lemma addCheck_well: "\<not> mo_idle m \<Longrightarrow> idle_well (addCreatureCheck m)"
  by (simp add: addCreatureCheck_def incrementReferenceCounter_def idle_well_def Let_def)

lemma kept_addCheck: "kept False m (addCreatureCheck m)"
  by (auto simp: kept_def held_def addCreatureCheck_def incrementReferenceCounter_def listed_well_def Let_def)

lemma setIdle_well: "alive w m \<Longrightarrow> idle_well (setIdle w b m)"
  using addCheck_well [of "m\<lparr>mo_idle := False\<rparr>"]
  by (auto simp: setIdle_def alive_def idle_well_def removeCreatureCheck_def cleared Let_def)

lemma kept_flag: "kept False m (m\<lparr>mo_idle := b\<rparr>)" "kept False m (removeCreatureCheck m)"
  by (simp_all add: kept_def held_def listed_well_def removeCreatureCheck_def)

lemma kept_setIdle: "living \<le> alive w m \<Longrightarrow> kept living m (setIdle w b m)"
proof (rule kept_idle)
  show "kept False m (setIdle w b m)"
    unfolding setIdle_def Let_def
    by (auto intro: kept_refl kept_trans [OF kept_flag(1) kept_addCheck]
        kept_trans [OF kept_flag(1) kept_trans [OF kept_clear kept_flag(2)]])
qed (use setIdle_well in auto)

lemma kept_updateIdle: "living \<le> alive w m \<Longrightarrow> kept living m (updateIdleStatus w m)"
  unfolding updateIdleStatus_def by (rule kept_setIdle)

lemma updateIdle_well: "alive w m \<Longrightarrow> idle_well (updateIdleStatus w m)"
  unfolding updateIdleStatus_def by (rule setIdle_well)

lemma kept_found:
  assumes "living \<le> alive w m"
  shows "kept living m (onCreatureFound w b c m)"
proof (cases "c = mo_self m \<or> \<not> monster_canSee w m c")
  case True
  then show ?thesis by (auto simp: onCreatureFound_def kept_refl)
next
  case False
  define m1 where "m1 = (if isFriend w m c then addFriend c m else m)"
  define m2 where "m2 = (if isOpponent w m1 c then addTarget c b m1 else m1)"
  have 1: "kept False m m1" using False kept_addFriend kept_refl by (simp add: m1_def)
  then have 2: "kept False m1 m2" using False kept_addTarget kept_refl kept_self [OF 1] by (simp add: m2_def)
  have k: "kept False m m2" using 1 2 by (rule kept_trans)
  have f: "onCreatureFound w b c m = updateIdleStatus w m2"
    using False by (simp add: onCreatureFound_def Let_def m1_def m2_def)
  show ?thesis
  proof (rule kept_idle)
    show "kept False m (onCreatureFound w b c m)" unfolding f by (rule kept_trans [OF k kept_updateIdle]) simp
    show "living \<Longrightarrow> idle_well (onCreatureFound w b c m)"
      unfolding f using assms kept_alive [OF k] by (simp add: updateIdle_well)
  qed
qed

lemma kept_enter: "living \<le> alive w m \<Longrightarrow> kept living m (onCreatureEnter w c m)"
  unfolding onCreatureEnter_def Let_def
  by (auto intro!: kept_found kept_trans [OF kept_master kept_found] simp: alive_def me_def simp del: not_None_eq)

lemma kept_leave:
  assumes "living \<le> alive w m"
  shows "kept living m (onCreatureLeave w c m)"
proof -
  define m1 where "m1 = (if cv_master (me w m) = Some c then m\<lparr>mo_masterInRange := False\<rparr> else m)"
  define m2 where "m2 = (if isFriend w m1 c then removeFriend c m1 else m1)"
  have 2: "kept living m m2"
    unfolding m2_def m1_def by (auto intro: kept_refl kept_master kept_removeFriend kept_trans)
  have 3: "kept living m2 (removeTarget c m2)" by (rule kept_removeTarget)
  have "living \<le> alive w (removeTarget c m2)" using assms kept_alive [OF kept_trans [OF 2 3]] by simp
  then have 4: "kept living (removeTarget c m2) (updateIdleStatus w (removeTarget c m2))" by (rule kept_updateIdle)
  show ?thesis
    unfolding onCreatureLeave_def Let_def m1_def [symmetric] m2_def [symmetric] using 2 3 4 by (auto intro: kept_trans)
qed

lemma kept_fold:
  assumes "\<And>x m. living \<le> alive w m \<Longrightarrow> kept living m (f x m)" "living \<le> alive w m"
  shows "kept living m (fold f xs m)"
  using assms(2)
proof (induction xs arbitrary: m)
  case (Cons x xs)
  have k: "kept living m (f x m)" using assms(1) Cons.prems .
  then have "kept living (f x m) (fold f xs (f x m))" using Cons kept_alive [OF k] by simp
  with k show ?case by (auto intro: kept_trans)
qed (simp add: kept_refl)

lemma kept_update:
  assumes "living \<le> alive w m"
  shows "kept living m (updateTargetList w spectators m)"
proof -
  let ?gone = "\<lambda>c. cv_health (mw_creature w c) \<le> 0 \<or> \<not> monster_canSee w m c"
  have k: "kept living m (drop_targets ?gone (drop_friends ?gone m))"
    by (blast intro: kept_trans kept_dropFriends kept_dropTargets)
  have "living \<le> alive w (drop_targets ?gone (drop_friends ?gone m))" using assms kept_alive [OF k] by simp
  then have "kept living (drop_targets ?gone (drop_friends ?gone m)) (updateTargetList w spectators m)"
    unfolding updateTargetList_def Let_def by (intro kept_fold kept_found)
  with k show ?thesis by (rule kept_trans)
qed

lemma kept_complete: "kept living m (onFollowCreatureComplete w c m)"
proof (cases c)
  case (Some d)
  show ?thesis
  proof (cases "d \<in> set (mo_targets m)")
    case True
    have n: "mo_targets m \<noteq> []" using True by auto
    have x: "int (count_list (remove1 d (mo_targets m)) e) = int (count_list (mo_targets m) e) - (if e = d then 1 else 0)" for e
      using count_list_remove1 [OF True] .
    have k: "0 < count_list (mo_targets m) d" using True by (metis count_list_0_iff gr0I)
    have h: "held (m\<lparr>mo_targets := d # remove1 d (mo_targets m)\<rparr>) e = held m e"
      "held (m\<lparr>mo_targets := remove1 d (mo_targets m) @ [d]\<rparr>) e = held m e"
      "held (decrementReferenceCounter d (m\<lparr>mo_targets := remove1 d (mo_targets m)\<rparr>)) e = held m e - (if e = d then 1 else 0)" for e
      using x [of e] k by (auto simp: held_def decrementReferenceCounter_def)
    have w: "listed_well m \<longrightarrow> listed_well (m\<lparr>mo_targets := d # remove1 d (mo_targets m)\<rparr>)
        \<and> listed_well (m\<lparr>mo_targets := remove1 d (mo_targets m) @ [d]\<rparr>)
        \<and> listed_well (decrementReferenceCounter d (m\<lparr>mo_targets := remove1 d (mo_targets m)\<rparr>))"
      using True by (auto simp: listed_well_def decrementReferenceCounter_def dest: notin_set_remove1)
    have 1: "kept living m (m\<lparr>mo_targets := d # remove1 d (mo_targets m)\<rparr>)"
      "kept living m (m\<lparr>mo_targets := remove1 d (mo_targets m) @ [d]\<rparr>)"
      using n h w by (simp_all add: kept_def idle_well_def)
    have 2: "kept living m (decrementReferenceCounter d (m\<lparr>mo_targets := remove1 d (mo_targets m)\<rparr>))"
      using n h w by (simp add: kept_def idle_well_def) (simp add: decrementReferenceCounter_def)
    show ?thesis using 1 2 True by (simp add: onFollowCreatureComplete_def Some Let_def me_def)
  next
    case False
    then show ?thesis by (simp add: onFollowCreatureComplete_def Some kept_refl)
  qed
qed (simp add: onFollowCreatureComplete_def kept_refl)

lemma kept_think: "living \<le> alive w m \<Longrightarrow> kept living m (monster_think w r t m)"
  unfolding monster_think_def Let_def
  by (auto intro!: kept_updateIdle kept_trans [OF kept_updateIdle kept_lists] simp: lists_order lists_thinkTarget)

lemma kept_moved:
  assumes "living \<le> alive w m"
  shows "kept living m (monster_moved w spectators m)"
proof -
  define m1 where "m1 = (case cv_master (me w m) of Some master \<Rightarrow> m\<lparr>mo_masterInRange := monster_canSee w m master\<rparr> | None \<Rightarrow> m)"
  have 1: "kept living m m1" unfolding m1_def by (auto intro: kept_refl kept_master split: option.split)
  then have 2: "kept living m1 (updateTargetList w spectators m1)" by (intro kept_update kept_le [OF assms])
  have 12: "kept living m (updateTargetList w spectators m1)" using 1 2 by (rule kept_trans)
  then have "living \<le> alive w (updateTargetList w spectators m1)" by (rule kept_le [OF assms])
  from kept_trans [OF 12 kept_updateIdle [OF this]] show ?thesis unfolding monster_moved_def Let_def m1_def .
qed

lemma kept_creature_moved:
  assumes "living \<le> alive w m"
  shows "kept living m (creature_moved w c newPos oldPos blocker m)"
proof -
  let ?new = "creature_canSee (cv_position (me w m)) newPos" and ?old = "creature_canSee (cv_position (me w m)) oldPos"
  define m1 where "m1 = (if ?new \<and> \<not> ?old then onCreatureEnter w c m else if \<not> ?new \<and> ?old then onCreatureLeave w c m else m)"
  define m2 where "m2 = (if ?new \<and> cv_master (me w m1) = Some c then m1\<lparr>mo_masterInRange := True\<rparr> else m1)"
  have "kept living m m1" unfolding m1_def using assms by (auto intro: kept_refl kept_enter kept_leave)
  then have 2: "kept living m m2" unfolding m2_def using kept_trans [OF _ kept_master] by auto
  then have "living \<le> alive w m2" by (rule kept_le [OF assms])
  then have 3: "kept living m (updateIdleStatus w m2)" using kept_trans [OF 2 kept_updateIdle] by blast
  have 4: "kept living m (snd (selectTarget w d (updateIdleStatus w m2)))" for d
    using kept_trans [OF 3 kept_lists] lists_snd by blast
  show ?thesis
    unfolding creature_moved_def Let_def m1_def [symmetric] m2_def [symmetric] using 3 4 by (auto split: option.split)
qed

lemma kept_removed:
  assumes "living \<le> alive w m"
  shows "kept living m (creature_removed w c m)"
proof -
  have 1: "kept living m (onCreatureDisappear w c m)" by (rule kept_lists) (rule lists_disappear)
  then have 2: "living \<le> alive w (onCreatureDisappear w c m)" by (rule kept_le [OF assms])
  show ?thesis
    unfolding creature_removed_def Let_def using kept_trans [OF 1 kept_setIdle [OF 2]] kept_trans [OF 1 kept_leave [OF 2]] by auto
qed

lemma kept_death: "kept living m (monster_death w m)"
  unfolding monster_death_def using kept_trans [OF kept_lists [OF lists_snd(1)] kept_clear] .

lemma kept_leave_check: "kept living m (leave_check m)"
  by (auto simp: leave_check_def kept_def held_def decrementReferenceCounter_def listed_well_def idle_well_def)

lemma kept_step:
  assumes "monster_step w m m'" "living \<le> alive w m"
  shows "kept living m m'"
  using assms
  by cases (auto intro: kept_moved kept_enter kept_removed kept_creature_moved kept_think kept_setIdle kept_updateIdle
      kept_complete kept_leave_check kept_lists simp: lists_snd lists_challenge lists_disappear)

lemma kept_run: "monster_run m0 m \<Longrightarrow> kept True m0 m"
proof (induction rule: monster_run.induct)
  case (event m w m')
  then show ?case using kept_step [of w m m' True] by (auto intro: kept_trans)
qed (auto intro: kept_refl kept_trans kept_death)

section \<open>What a search finds\<close>

text \<open>A monster that attacks what it selects, and a creature that a passive one may select.\<close>

definition fights :: "monster_world \<Rightarrow> monster \<Rightarrow> bool" where
  "fights w m \<longleftrightarrow> av_hostile (mw_attack w) \<or> isSummon w m"

definition provoked :: "monster_world \<Rightarrow> nat \<Rightarrow> bool" where
  "provoked w c \<longleftrightarrow> \<not> mw_passive w
     \<or> mw_damaged w (case master_player w (mw_creature w c) of Some player \<Rightarrow> player | None \<Rightarrow> c)"

definition selected :: "monster_world \<Rightarrow> monster \<Rightarrow> nat \<Rightarrow> monster \<Rightarrow> bool" where
  "selected w m c m' \<longleftrightarrow> c \<in> set (mo_targets m) \<and> isTarget w m c \<and> provoked w c \<and> mo_follow m' = Some c
     \<and> mo_attacked m' = (if \<not> fights w m then mo_attacked m else if monster_canSee w m c then Some c else None)
     \<and> (\<not> monster_canSee w m c \<longrightarrow> mo_follow m = Some c)"

text \<open>What a selection that fails may leave behind.\<close>

definition missed :: "monster_world \<Rightarrow> monster \<Rightarrow> monster \<Rightarrow> bool" where
  "missed w m m1 \<longleftrightarrow> lists_of m1 = lists_of m \<and> (mo_follow m1 = mo_follow m \<or> mo_follow m1 = None)
     \<and> (\<not> fights w m \<longrightarrow> mo_attacked m1 = mo_attacked m)"

lemma follow_true:
  "setFollowCreature w (Some c) m = (True, m') \<Longrightarrow> mo_follow m' = Some c \<and> mo_attacked m' = mo_attacked m"
  by (auto simp: setFollowCreature_def split: if_splits)

lemma follow_cases:
  assumes "setFollowCreature w (Some c) m = (r, m')"
  shows "mo_attacked m' = mo_attacked m" and "\<not> r \<Longrightarrow> mo_follow m' = None"
    and "r \<Longrightarrow> mo_follow m' = Some c \<and> (\<not> monster_canSee w m c \<longrightarrow> mo_follow m = Some c)"
  using assms by (auto simp: setFollowCreature_def split: if_splits)

lemma attack_cases:
  assumes "setAttackedCreature w (Some c) m = (r, m')"
  shows "mo_follow m' = mo_follow m"
    and "pos_z (cv_position (mw_creature w c)) = pos_z (cv_position (me w m))
      \<Longrightarrow> mo_attacked m' = (if monster_canSee w m c then Some c else None)"
  using assms by (auto simp: setAttackedCreature_def split: if_splits)

lemma attack_visible:
  "pos_z (cv_position (mw_creature w c)) = pos_z (cv_position (me w m)) \<Longrightarrow> monster_canSee w m c
    \<Longrightarrow> setAttackedCreature w (Some c) m = (True, m\<lparr>mo_attacked := Some c, mo_orders := mo_orders m @ [Some c]\<rparr>)"
  by (simp add: setAttackedCreature_def)

lemma isTarget_floor: "isTarget w m c \<Longrightarrow> pos_z (cv_position (mw_creature w c)) = pos_z (cv_position (me w m))"
  by (simp add: isTarget_def Let_def split: if_splits)

text \<open>The monster between the attack and the following.\<close>

lemma select_split:
  assumes "selectTarget w c m = (r, m')" "isTarget w m c" "c \<in> set (mo_targets m)" "provoked w c"
  obtains m1 where "setFollowCreature w (Some c) m1 = (r, m')" "mo_follow m1 = mo_follow m" "lists_of m1 = lists_of m"
    "mo_attacked m1 = (if \<not> fights w m then mo_attacked m else if monster_canSee w m c then Some c else None)"
proof -
  obtain a m0 where a: "setAttackedCreature w (Some c) m = (a, m0)" by fastforce
  note c = attack_cases [OF a] lists_attack [OF a]
  define m1 where "m1 = (if fights w m
    then (if a \<and> (\<not> isSummon w m0 \<or> cv_guardian (me w m0)) then m0\<lparr>mo_attacks := mo_attacks m0 + 1\<rparr> else m0) else m)"
  have "setFollowCreature w (Some c) m1 = (r, m')"
  proof -
    have np: "\<not> (mw_passive w
        \<and> \<not> mw_damaged w (case master_player w (mw_creature w c) of Some player \<Rightarrow> player | None \<Rightarrow> c))"
      using assms(4) by (auto simp: provoked_def)
    show ?thesis
      using assms(1-3) unfolding selectTarget_def Let_def a prod.case if_not_P [OF np] m1_def fights_def by (simp split del: if_split)
  qed
  moreover have "mo_follow m1 = mo_follow m" "lists_of m1 = lists_of m"
    "mo_attacked m1 = (if \<not> fights w m then mo_attacked m else if monster_canSee w m c then Some c else None)"
    using c(1,3) c(2) [OF isTarget_floor [OF assms(2)]] by (auto simp: m1_def lists_of_def)
  ultimately show thesis by (rule that)
qed

lemma select_true:
  assumes "selectTarget w c m = (True, m')"
  shows "selected w m c m'"
proof -
  have t: "isTarget w m c" "c \<in> set (mo_targets m)" "provoked w c"
    using assms by (auto simp: selectTarget_def provoked_def split: if_splits)
  obtain m1 where m1: "setFollowCreature w (Some c) m1 = (True, m')" "mo_follow m1 = mo_follow m" "lists_of m1 = lists_of m"
    "mo_attacked m1 = (if \<not> fights w m then mo_attacked m else if monster_canSee w m c then Some c else None)"
    using select_split [OF assms t] .
  have "monster_canSee w m1 c = monster_canSee w m c" using m1(3) by (simp add: monster_canSee_def me_def lists_of_def)
  then show ?thesis using t follow_cases(1,3) [OF m1(1)] m1(2,4) by (simp add: selected_def)
qed

lemma select_missed:
  assumes "selectTarget w c m = (False, m1)"
  shows "missed w m m1"
proof (cases "isTarget w m c \<and> c \<in> set (mo_targets m) \<and> provoked w c")
  case True
  then obtain m2 where m2: "setFollowCreature w (Some c) m2 = (False, m1)" "mo_follow m2 = mo_follow m"
    "mo_attacked m2 = (if \<not> fights w m then mo_attacked m else if monster_canSee w m c then Some c else None)"
    using select_split [OF assms] by blast
  then show ?thesis using lists_select [OF assms] follow_cases(1,2) [OF m2(1)] by (simp add: missed_def)
next
  case False
  then have "m1 = m" using assms by (auto simp: selectTarget_def provoked_def split: if_splits)
  then show ?thesis by (simp add: missed_def)
qed

lemma select_visible:
  assumes "isTarget w m c" "c \<in> set (mo_targets m)" "\<not> mw_passive w" "monster_canSee w m c"
  shows "\<exists>m'. selectTarget w c m = (True, m')"
proof -
  note z = isTarget_floor [OF assms(1)]
  have f: "\<exists>m'. setFollowCreature w (Some c) m1 = (True, m')" if "mo_self m1 = mo_self m" for m1
    using z assms(4) that by (simp add: setFollowCreature_def monster_canSee_def me_def)
  show ?thesis
    unfolding selectTarget_def Let_def attack_visible [OF z assms(4)] prod.case using assms f by (auto simp: me_def)
qed

lemma selected_missed:
  assumes "missed w m m1" and "selected w m1 c m'"
  shows "selected w m c m'"
proof -
  have l: "mo_self m1 = mo_self m" "mo_targets m1 = mo_targets m" using assms(1) by (simp_all add: missed_def lists_of_def)
  have me: "me w m1 = me w m" using l(1) by (simp add: me_def)
  have same: "isTarget w m1 c = isTarget w m c" "monster_canSee w m1 c = monster_canSee w m c" "fights w m1 = fights w m"
    by (simp_all only: isTarget_def monster_canSee_def fights_def me)
  have "mo_follow m1 = Some c \<Longrightarrow> mo_follow m = Some c" "\<not> fights w m \<Longrightarrow> mo_attacked m1 = mo_attacked m"
    using assms(1) by (auto simp: missed_def)
  then show ?thesis using assms(2) unfolding selected_def l(2) same by presburger
qed

lemma first_true:
  assumes "first_target w cs m = (True, m')"
  shows "\<exists>c. selected w m c m'"
  using assms
proof (induction w cs m rule: first_target.induct)
  case (2 w c cs m)
  obtain s m1 where s: "selectTarget w c m = (s, m1)" by fastforce
  show ?case
  proof (cases "mo_follow m \<noteq> Some c")
    case True
    show ?thesis
    proof (cases s)
      case True
      then have "selectTarget w c m = (True, m')" using s 2(3) \<open>mo_follow m \<noteq> Some c\<close> by simp
      then show ?thesis using select_true by blast
    next
      case False
      then have "\<exists>d. selected w m1 d m'" using 2(1) 2(3) s True by auto
      moreover have "missed w m m1" using select_missed s False by simp
      ultimately show ?thesis using selected_missed by blast
    qed
  qed (use 2 in simp)
qed simp

lemma results_subset: "c \<in> set (target_results w t m) \<longleftrightarrow> c \<in> set (mo_targets m) \<and> mo_follow m \<noteq> Some c \<and> isTarget w m c
    \<and> (t = TARGETSEARCH_RANDOM \<or> canUseAttack (mw_attack w) (cv_position (me w m)) (cv_position (mw_creature w c)))"
  by (auto simp: target_results_def)

lemma nearest_least:
  assumes "t \<in> set ts \<or> t \<in> set cs" "d t = r" "\<forall>c \<in> set ts. r \<le> d c"
  shows "\<exists>c. nearest d (Some t) r cs = Some c \<and> c \<in> set ts \<union> set cs \<union> {t} \<and> (\<forall>e \<in> set ts \<union> set cs. d c \<le> d e)"
  using assms
proof (induction cs arbitrary: t r ts)
  case (Cons x cs)
  have "\<forall>c \<in> set (x # ts). (if d x < r then d x else r) \<le> d c" using Cons.prems by auto
  then show ?case
    using Cons.IH [of x "x # ts" "d x"] Cons.IH [of t "x # t # ts" r] Cons.prems by (cases "d x < r") auto
qed auto

lemma nearest_result:
  assumes "target_results w TARGETSEARCH_NEAREST m \<noteq> []"
  shows "\<exists>c \<in> set (target_results w TARGETSEARCH_NEAREST m). nearest_target w m = Some c
    \<and> (\<forall>d \<in> set (target_results w TARGETSEARCH_NEAREST m). target_distance w m c \<le> target_distance w m d)"
proof (cases "target_results w TARGETSEARCH_NEAREST m")
  case (Cons x xs)
  then show ?thesis using nearest_least [of x "[x]" xs "target_distance w m" "target_distance w m x"]
    by (auto simp: nearest_target_def)
qed (use assms in simp)

section \<open>Properties\<close>

text \<open>
  C1. References are balanced. Whatever happens to a monster, the reference counter of every
  creature has changed by exactly the references the monster (and for itself the game's list) now holds on
  it more than at the start; no creature is listed twice, the monster never lists itself; and an idle
  monster knows nobody while one that is not idle is in the game's list of creatures that think.
\<close>

theorem monster_references_balanced:
  assumes "monster_run m0 m" and "listed_well m0" and "idle_well m0"
  shows "mo_refs m c - held m c = mo_refs m0 c - held m0 c \<and> distinct (mo_targets m) \<and> mo_self m \<notin> set (mo_targets m)
    \<and> mo_self m \<notin> mo_friends m
    \<and> (if mo_idle m then mo_targets m = [] \<and> mo_friends m = {} else mo_check m \<and> mo_inCheck m)"
proof -
  have "listed_well m \<and> idle_well m" "mo_refs m c - held m c = mo_refs m0 c - held m0 c"
    using kept_run [OF assms(1)] assms(2,3) by (auto simp: kept_def)
  then show ?thesis unfolding listed_well_def idle_well_def by blast
qed

text \<open>
  A living monster that has looked at a creature it sees is idle exactly when it is nobody's summon, has no target
  and suffers no aggressive condition; an idle one has dropped its friends too.
\<close>

theorem monster_idle_without_targets:
  assumes "alive w m" and "c \<noteq> mo_self m" and "monster_canSee w m c" and "onCreatureFound w pushFront c m = m'"
  shows "(mo_idle m' \<longleftrightarrow> \<not> isSummon w m \<and> mo_targets m = [] \<and> \<not> isOpponent w m c \<and> \<not> mw_aggressiveCondition w)
    \<and> (mo_idle m' \<longrightarrow> mo_targets m' = [] \<and> mo_friends m' = {})
    \<and> (\<not> mo_idle m' \<longrightarrow> set (mo_targets m') = set (mo_targets m) \<union> (if isOpponent w m c then {c} else {})
         \<and> mo_friends m' = mo_friends m \<union> (if isFriend w m c then {c} else {}))"
proof -
  define m1 where "m1 = (if isFriend w m c then addFriend c m else m)"
  define m2 where "m2 = (if isOpponent w m1 c then addTarget c pushFront m1 else m1)"
  have 1: "me w m1 = me w m" "mo_targets m1 = mo_targets m" "mo_friends m1 = mo_friends m \<union> (if isFriend w m c then {c} else {})"
    by (auto simp: m1_def addFriend_def incrementReferenceCounter_def me_def)
  have o: "isOpponent w m1 c = isOpponent w m c" by (simp add: isOpponent_def duel_opponent_def 1)
  have 2: "me w m2 = me w m1" "set (mo_targets m2) = set (mo_targets m1) \<union> (if isOpponent w m c then {c} else {})"
    "mo_friends m2 = mo_friends m1"
    by (auto simp: m2_def o addTarget_def incrementReferenceCounter_def me_def Let_def)
  have e: "mo_targets m2 = [] \<longleftrightarrow> mo_targets m = [] \<and> \<not> isOpponent w m c"
    using 2(2) 1(2) by (metis Un_empty insert_not_empty set_empty)
  have m': "m' = updateIdleStatus w m2"
    using assms(2-4) unfolding onCreatureFound_def Let_def m1_def [symmetric] m2_def [symmetric] by simp
  have a: "\<not> (cv_removed (me w m2) \<or> cv_health (me w m2) \<le> 0)" using assms(1) 1 2 by (simp add: alive_def)
  have i: "mo_idle m' = (\<not> isSummon w m \<and> mo_targets m2 = [] \<and> \<not> mw_aggressiveCondition w)"
    using a by (auto simp: m' updateIdleStatus_def setIdle_def addCreatureCheck_def incrementReferenceCounter_def
        removeCreatureCheck_def cleared Let_def 1 2)
  have l: "mo_idle m' \<longrightarrow> mo_targets m' = [] \<and> mo_friends m' = {}"
    using updateIdle_well [of w m2] assms(1) 1 2 by (simp add: m' idle_well_def alive_def)
  have n: "\<not> mo_idle m' \<longrightarrow> mo_targets m' = mo_targets m2 \<and> mo_friends m' = mo_friends m2"
    using a i by (auto simp: m' updateIdleStatus_def setIdle_def addCreatureCheck_def incrementReferenceCounter_def Let_def 1 2)
  show ?thesis using i l n e 1 2 by auto
qed

text \<open>
  C20. A successful search ends with a followed creature that is in the list of targets, may be attacked and, for a
  passive monster, has hurt it. A hostile monster or a summon then attacks this creature if it sees it and nobody if
  not, which happens only with a creature that it followed before; other monsters attack whom they attacked. A
  search by attack range finds a creature in that range that was not followed before, and the lists are as they were.
\<close>

theorem search_selects_a_target:
  assumes "searchTarget w searchType drawn m = (True, m')"
  shows "\<exists>c. c \<in> set (mo_targets m) \<and> isTarget w m c \<and> provoked w c \<and> mo_follow m' = Some c
    \<and> mo_attacked m' = (if \<not> fights w m then mo_attacked m else if monster_canSee w m c then Some c else None)
    \<and> (\<not> monster_canSee w m c \<longrightarrow> mo_follow m = Some c)
    \<and> (searchType = TARGETSEARCH_ATTACKRANGE \<longrightarrow> mo_follow m \<noteq> Some c
         \<and> canUseAttack (mw_attack w) (cv_position (me w m)) (cv_position (mw_creature w c)))
    \<and> mo_targets m' = mo_targets m \<and> mo_friends m' = mo_friends m \<and> mo_refs m' = mo_refs m"
proof -
  have l: "mo_targets m' = mo_targets m \<and> mo_friends m' = mo_friends m \<and> mo_refs m' = mo_refs m"
    using lists_search [OF assms] by (simp add: lists_of_def)
  have f: "\<exists>c. selected w m c m'" if "first_target w cs m1 = (True, m')" "missed w m m1" for cs m1
    using first_true [OF that(1)] selected_missed [OF that(2)] by blast
  have here: "missed w m m" by (simp add: missed_def)
  have "\<exists>c. selected w m c m' \<and> (searchType = TARGETSEARCH_ATTACKRANGE \<longrightarrow> c \<in> set (target_results w searchType m))"
  proof (cases "searchType = TARGETSEARCH_NEAREST")
    case True
    have "\<exists>c. selected w m c m'"
    proof (cases "nearest_target w m")
      case None
      then show ?thesis using assms True f [OF _ here, of "mo_targets m"] by (simp add: searchTarget_def)
    next
      case (Some c)
      obtain b m1 where b: "selectTarget w c m = (b, m1)" by fastforce
      show ?thesis
      proof (cases b)
        case b': True
        then have "selectTarget w c m = (True, m')" using assms True Some b by (simp add: searchTarget_def)
        then show ?thesis using select_true by blast
      next
        case b': False
        then have "first_target w (mo_targets m1) m1 = (True, m')" using assms True Some b by (simp add: searchTarget_def)
        moreover have "missed w m m1" using select_missed b b' by simp
        ultimately show ?thesis using f by blast
      qed
    qed
    then show ?thesis using True by simp
  next
    case False
    let ?r = "target_results w searchType m"
    show ?thesis
    proof (cases "?r = []")
      case True
      then show ?thesis using assms False f [OF _ here, of "mo_targets m"] by (auto simp: searchTarget_def split: if_splits)
    next
      case n: False
      then have "?r ! (drawn mod length ?r) \<in> set ?r" by simp
      moreover have "selectTarget w (?r ! (drawn mod length ?r)) m = (True, m')"
        using assms False n by (simp add: searchTarget_def Let_def)
      ultimately show ?thesis using select_true by blast
    qed
  qed
  then show ?thesis using l unfolding selected_def results_subset by blast
qed

text \<open>
  The search for the nearest target succeeds and takes the nearest: for a monster that is not passive and sees its
  targets, when some target that it does not follow yet is in range of an attack, the one it then follows is such a target
  and none of them is nearer.
\<close>

theorem nearest_search_takes_nearest:
  assumes "\<not> mw_passive w" and "\<forall>c \<in> set (mo_targets m). monster_canSee w m c"
    and "target_results w TARGETSEARCH_NEAREST m \<noteq> []"
  shows "\<exists>m' c. searchTarget w TARGETSEARCH_NEAREST drawn m = (True, m') \<and> mo_follow m' = Some c
    \<and> c \<in> set (target_results w TARGETSEARCH_NEAREST m)
    \<and> (\<forall>d \<in> set (target_results w TARGETSEARCH_NEAREST m). target_distance w m c \<le> target_distance w m d)"
proof -
  obtain c where c: "c \<in> set (target_results w TARGETSEARCH_NEAREST m)" "nearest_target w m = Some c"
    "\<forall>d \<in> set (target_results w TARGETSEARCH_NEAREST m). target_distance w m c \<le> target_distance w m d"
    using nearest_result [OF assms(3)] by blast
  then obtain m' where m': "selectTarget w c m = (True, m')"
    using select_visible assms(1,2) unfolding results_subset by blast
  then have "searchTarget w TARGETSEARCH_NEAREST drawn m = (True, m')" by (simp add: searchTarget_def c)
  then show ?thesis using c select_true [OF m'] unfolding selected_def by blast
qed

subsection \<open>Examples\<close>

definition some_creature :: creature_view where
  "some_creature = \<lparr>cv_position = here, cv_health = 100, cv_removed = False, cv_attackable = True, cv_protectionZone = False,
     cv_invisible = False, cv_player = False, cv_monster = True, cv_guardian = False, cv_master = None, cv_summonCount = 0,
     cv_ignoredByMonsters = False, cv_guid = 0, cv_duelistContract = None, cv_attacked = None\<rparr>"

definition some_world :: monster_world where
  "some_world = \<lparr>mw_creature = (\<lambda>c. if c = 1 then some_creature
       else some_creature\<lparr>cv_position := there, cv_player := True, cv_monster := False\<rparr>),
     mw_partner = (\<lambda>_ _. False), mw_attack = calm, mw_damaged = (\<lambda>_. False), mw_passive = False, mw_seesInvisible = False,
     mw_aggressiveCondition = False, mw_changeTargetSpeed = 0, mw_changeTargetChance = 0, mw_targetDistance = 1, mw_fleeing = False\<rparr>"

definition spawned :: monster where
  "spawned = \<lparr>mo_self = 1, mo_friends = {}, mo_targets = [], mo_refs = (\<lambda>_. 1), mo_idle = True, mo_check = False, mo_inCheck = False,
     mo_masterInRange = False, mo_attacked = None, mo_follow = None, mo_hasFollowPath = False, mo_forceUpdateFollowPath = False,
     mo_updatingPath = False, mo_walkDirs = [], mo_attacks = 0, mo_orders = [], mo_attackTicks = 0, mo_targetChangeTicks = 0,
     mo_targetChangeCooldown = 0, mo_challengeFocusDuration = 0\<rparr>"

lemma spawned_sees: "creature_canSee here there" "creature_canSee here here"
  by (simp_all add: creature_canSee_def here_def there_def getX_def getY_def getZ_def maxViewportX_def maxViewportY_def Let_def)

lemmas example_simps = some_world_def some_creature_def spawned_def me_def alive_def monster_canSee_def spawned_sees
  isOpponent_def isFriend_def duel_opponent_def master_player_def Let_def

lemma enters_example:
  "mo_targets (onCreatureEnter some_world 2 spawned) = [2] \<and> \<not> mo_idle (onCreatureEnter some_world 2 spawned)
    \<and> mo_refs (onCreatureEnter some_world 2 spawned) 2 = 2 \<and> mo_follow (onCreatureEnter some_world 2 spawned) = None
    \<and> mo_self (onCreatureEnter some_world 2 spawned) = 1"
  by (simp add: onCreatureEnter_def onCreatureFound_def example_simps addTarget_def incrementReferenceCounter_def
      updateIdleStatus_def setIdle_def addCreatureCheck_def)

theorem monster_references_balanced_witness:
  "mo_refs (onCreatureEnter some_world 2 spawned) 2 = 1 + held (onCreatureEnter some_world 2 spawned) 2"
proof -
  have "monster_run spawned (onCreatureEnter some_world 2 spawned)"
    by (rule monster_run.event [OF monster_run.start _ monster_step.appears]) (simp add: example_simps)
  moreover have "listed_well spawned" "idle_well spawned" "held spawned 2 = 0" "mo_refs spawned 2 = 1"
    by (simp_all add: listed_well_def idle_well_def held_def spawned_def)
  ultimately show ?thesis using monster_references_balanced [of spawned "onCreatureEnter some_world 2 spawned" 2] by simp
qed

theorem monster_idle_without_targets_witness: "\<not> mo_idle (onCreatureFound some_world True 2 spawned)"
  using monster_idle_without_targets [of some_world spawned 2 True, OF _ _ _ refl] by (simp add: example_simps)

definition hunting :: monster where "hunting = spawned\<lparr>mo_targets := [2]\<rparr>"

lemma hunting_results: "target_results some_world TARGETSEARCH_NEAREST hunting = [2]"
  by (simp add: target_results_def hunting_def isTarget_def canSeeCreature_def canUseAttack_def calm_def example_simps)
    (simp add: here_def there_def)

theorem nearest_search_takes_nearest_witness:
  "mo_follow (snd (searchTarget some_world TARGETSEARCH_NEAREST 0 hunting)) = Some 2"
  using nearest_search_takes_nearest [of some_world hunting 0] unfolding hunting_results
  by (auto simp: hunting_def example_simps)

theorem search_selects_a_target_witness:
  "mo_follow (snd (searchTarget some_world TARGETSEARCH_RANDOM 0 hunting)) = Some 2"
proof -
  have 1: "target_results some_world TARGETSEARCH_RANDOM hunting = [2]"
    by (simp add: target_results_def hunting_def isTarget_def canSeeCreature_def example_simps) (simp add: here_def there_def)
  have "\<exists>m'. selectTarget some_world 2 hunting = (True, m')"
    by (rule select_visible)
      (simp_all add: hunting_def isTarget_def canSeeCreature_def example_simps, simp add: here_def there_def)
  then obtain m' where "searchTarget some_world TARGETSEARCH_RANDOM 0 hunting = (True, m')"
    by (auto simp: searchTarget_def 1)
  then show ?thesis using search_selects_a_target [of some_world TARGETSEARCH_RANDOM 0 hunting m'] by (auto simp: hunting_def)
qed

end
