(* ===== verification/Combat_Area.thy ===== *)
theory Combat_Area
  imports Position "HOL-Library.Monad_Syntax"
begin

text \<open>
  The areas that a spell covers: \<^verbatim>\<open>MatrixArea\<close> and \<^verbatim>\<open>AreaCombat\<close> of
  \<^verbatim>\<open>src/src/combat.h\<close> and \<^verbatim>\<open>src/src/combat.cpp\<close>. A matrix is a
  list of rows with a centre; an access outside of it, which the code does not check, is the value
  \<open>None\<close>. The rotations multiply by the sine and cosine of a multiple of a right angle and
  round, which is exact; the model has the integers.
\<close>

section \<open>Matrices\<close>

record matrix_area =
  ma_centerX :: int
  ma_centerY :: int
  ma_rows :: nat
  ma_cols :: nat
  ma_data :: "bool list list"

definition new_MatrixArea :: "nat \<Rightarrow> nat \<Rightarrow> matrix_area" where
  "new_MatrixArea rows cols =
     \<lparr>ma_centerX = 0, ma_centerY = 0, ma_rows = rows, ma_cols = cols, ma_data = replicate rows (replicate cols False)\<rparr>"

definition getValue :: "matrix_area \<Rightarrow> int \<Rightarrow> int \<Rightarrow> bool option" where
  "getValue m row col =
     (if 0 \<le> row \<and> row < int (ma_rows m) \<and> 0 \<le> col \<and> col < int (ma_cols m)
      then Some (ma_data m ! nat row ! nat col) else None)"

definition setValue :: "int \<Rightarrow> int \<Rightarrow> bool \<Rightarrow> matrix_area \<Rightarrow> matrix_area option" where
  "setValue row col v m =
     (if 0 \<le> row \<and> row < int (ma_rows m) \<and> 0 \<le> col \<and> col < int (ma_cols m)
      then Some (m\<lparr>ma_data := (ma_data m)[nat row := (ma_data m ! nat row)[nat col := v]]\<rparr>) else None)"

text \<open>The centre is a pair of unsigned 32 bit numbers.\<close>

definition setCenter :: "int \<Rightarrow> int \<Rightarrow> matrix_area \<Rightarrow> matrix_area" where
  "setCenter y x m = m\<lparr>ma_centerX := x mod 2 ^ 32, ma_centerY := y mod 2 ^ 32\<rparr>"

section \<open>Copies\<close>

datatype matrix_operation = MATRIXOPERATION_COPY | MATRIXOPERATION_MIRROR | MATRIXOPERATION_FLIP
  | MATRIXOPERATION_ROTATE90 | MATRIXOPERATION_ROTATE180 | MATRIXOPERATION_ROTATE270

text \<open>Copying cells one by one: each entry is the cell read and the cell written, row first.\<close>

fun copy_cells :: "matrix_area \<Rightarrow> ((int \<times> int) \<times> int \<times> int) list \<Rightarrow> matrix_area \<Rightarrow> matrix_area option" where
  "copy_cells input [] output = Some output"
| "copy_cells input (((y, x), (row, col)) # cells) output =
     do { v \<leftarrow> getValue input y x;
          output \<leftarrow> setValue row col v output;
          copy_cells input cells output }"

text \<open>The cosine and the sine.\<close>

definition rotation :: "matrix_operation \<Rightarrow> int \<times> int" where
  "rotation operation =
     (case operation of
        MATRIXOPERATION_ROTATE90 \<Rightarrow> (0, 1)
      | MATRIXOPERATION_ROTATE180 \<Rightarrow> (-1, 0)
      | MATRIXOPERATION_ROTATE270 \<Rightarrow> (0, -1)
      | _ \<Rightarrow> (1, 0))"

definition rotate :: "int \<times> int \<Rightarrow> int \<Rightarrow> int \<Rightarrow> int \<times> int" where
  "rotate cs newX newY = (let (a, c) = cs; b = - c; d = a in (newX * a + newY * b, newX * c + newY * d))"

definition copyArea :: "matrix_area \<Rightarrow> matrix_area \<Rightarrow> matrix_operation \<Rightarrow> matrix_area option" where
  "copyArea input output operation =
     (let rows = int (ma_rows input); cols = int (ma_cols input); centerX = ma_centerX input; centerY = ma_centerY input in
      if operation = MATRIXOPERATION_COPY then
        map_option (setCenter centerY centerX)
          (copy_cells input (concat (map (\<lambda>y. map (\<lambda>x. ((y, x), (y, x))) [0..cols - 1]) [0..rows - 1])) output)
      else if operation = MATRIXOPERATION_MIRROR then
        map_option (setCenter centerY ((rows - 1) - centerX))
          (copy_cells input (concat (map (\<lambda>y. map (\<lambda>rx. ((y, cols - 1 - rx), (y, rx))) [0..cols - 1]) [0..rows - 1])) output)
      else if operation = MATRIXOPERATION_FLIP then
        map_option (setCenter ((cols - 1) - centerY) centerX)
          (copy_cells input (concat (map (\<lambda>x. map (\<lambda>ry. ((rows - 1 - ry, x), (ry, x))) [0..rows - 1]) [0..cols - 1])) output)
      else
        (let rotateCenterX = int (ma_cols output) div 2 - 1; rotateCenterY = int (ma_rows output) div 2 - 1 in
         map_option (setCenter rotateCenterY rotateCenterX)
           (copy_cells input (concat (map (\<lambda>x. map (\<lambda>y.
                let (rotatedX, rotatedY) = rotate (rotation operation) (x - centerX) (y - centerY)
                in ((y, x), (rotatedY + rotateCenterY, rotatedX + rotateCenterX))) [0..rows - 1]) [0..cols - 1])) output)))"

section \<open>Areas from lists\<close>

fun fill_area :: "nat list \<Rightarrow> nat \<Rightarrow> nat \<Rightarrow> matrix_area \<Rightarrow> matrix_area option" where
  "fill_area [] x y area = Some area"
| "fill_area (val # vals) x y area =
     do { area \<leftarrow> (if val = 1 \<or> val = 3 then setValue (int y) (int x) True area else Some area);
          let area = (if val = 2 \<or> val = 3 then setCenter (int y) (int x) area else area);
          if ma_cols area = x + 1 then fill_area vals 0 (y + 1) area else fill_area vals (x + 1) y area }"

definition createArea :: "nat list \<Rightarrow> nat \<Rightarrow> matrix_area option" where
  "createArea vals rows =
     (let cols = (if rows = 0 then 0 else length vals div rows) in fill_area vals 0 0 (new_MatrixArea rows cols))"

record area_combat =
  ac_areas :: "direction \<Rightarrow> matrix_area option"
  ac_hasExtArea :: bool

definition no_area :: area_combat where
  "no_area = \<lparr>ac_areas = (\<lambda>_. None), ac_hasExtArea = False\<rparr>"

definition put_area :: "direction \<Rightarrow> matrix_area \<Rightarrow> area_combat \<Rightarrow> area_combat" where
  "put_area d area c = c\<lparr>ac_areas := (ac_areas c)(d := Some area)\<rparr>"

definition setupArea :: "nat list \<Rightarrow> nat \<Rightarrow> area_combat \<Rightarrow> area_combat option" where
  "setupArea vals rows c =
     do { area \<leftarrow> createArea vals rows;
          let maxOutput = max (ma_cols area) (ma_rows area) * 2;
          southArea \<leftarrow> copyArea area (new_MatrixArea maxOutput maxOutput) MATRIXOPERATION_ROTATE180;
          eastArea \<leftarrow> copyArea area (new_MatrixArea maxOutput maxOutput) MATRIXOPERATION_ROTATE90;
          westArea \<leftarrow> copyArea area (new_MatrixArea maxOutput maxOutput) MATRIXOPERATION_ROTATE270;
          Some (put_area DIRECTION_WEST westArea (put_area DIRECTION_EAST eastArea
            (put_area DIRECTION_SOUTH southArea (put_area DIRECTION_NORTH area c)))) }"

definition setupExtArea :: "nat list \<Rightarrow> nat \<Rightarrow> area_combat \<Rightarrow> area_combat option" where
  "setupExtArea vals rows c =
     (if vals = [] then Some c
      else
        do { area \<leftarrow> createArea vals rows;
             let maxOutput = max (ma_cols area) (ma_rows area) * 2;
             neArea \<leftarrow> copyArea area (new_MatrixArea maxOutput maxOutput) MATRIXOPERATION_MIRROR;
             swArea \<leftarrow> copyArea area (new_MatrixArea maxOutput maxOutput) MATRIXOPERATION_FLIP;
             seArea \<leftarrow> copyArea swArea (new_MatrixArea maxOutput maxOutput) MATRIXOPERATION_MIRROR;
             Some (put_area DIRECTION_SOUTHEAST seArea (put_area DIRECTION_SOUTHWEST swArea
               (put_area DIRECTION_NORTHEAST neArea (put_area DIRECTION_NORTHWEST area (c\<lparr>ac_hasExtArea := True\<rparr>))))) })"

text \<open>A wave of a length and a spread: the rows from the far end to the caster, \<open>y\<close> counting from 1.\<close>

definition wave_cols :: "int \<Rightarrow> int \<Rightarrow> int" where
  "wave_cols len spread = (if spread \<noteq> 0 then (len - len mod spread) div spread * 2 + 1 else 1)"

fun wave_rows :: "int \<Rightarrow> int \<Rightarrow> int \<Rightarrow> int \<Rightarrow> int \<Rightarrow> nat \<Rightarrow> nat list" where
  "wave_rows rows cols spread y colSpread 0 = []"
| "wave_rows rows cols spread y colSpread (Suc n) =
     map (\<lambda>x. if y = rows \<and> x = (cols - cols mod 2) div 2 + 1 then 3
              else if cols - colSpread + 1 \<le> x \<and> x \<le> cols - (cols - colSpread) then 1 else 0) [1..cols]
     @ wave_rows rows cols spread (y + 1) (if spread > 0 \<and> y mod spread = 0 then colSpread - 1 else colSpread) n"

definition setupArea_wave :: "nat \<Rightarrow> nat \<Rightarrow> area_combat \<Rightarrow> area_combat option" where
  "setupArea_wave len spread c =
     (let cols = wave_cols (int len) (int spread)
      in setupArea (wave_rows (int len) cols (int spread) 1 cols len) len c)"

definition radius_matrix :: "nat list" where
  "radius_matrix =
     [0, 0, 0, 0, 0, 0, 8, 0, 0, 0, 0, 0, 0,
      0, 0, 0, 0, 8, 8, 7, 8, 8, 0, 0, 0, 0,
      0, 0, 0, 8, 7, 6, 6, 6, 7, 8, 0, 0, 0,
      0, 0, 8, 7, 6, 5, 5, 5, 6, 7, 8, 0, 0,
      0, 8, 7, 6, 5, 4, 4, 4, 5, 6, 7, 8, 0,
      0, 8, 6, 5, 4, 3, 2, 3, 4, 5, 6, 8, 0,
      8, 7, 6, 5, 4, 2, 1, 2, 4, 5, 6, 7, 8,
      0, 8, 6, 5, 4, 3, 2, 3, 4, 5, 6, 8, 0,
      0, 8, 7, 6, 5, 4, 4, 4, 5, 6, 7, 8, 0,
      0, 0, 8, 7, 6, 5, 5, 5, 6, 7, 8, 0, 0,
      0, 0, 0, 8, 7, 6, 6, 6, 7, 8, 0, 0, 0,
      0, 0, 0, 0, 8, 8, 7, 8, 8, 0, 0, 0, 0,
      0, 0, 0, 0, 0, 0, 8, 0, 0, 0, 0, 0, 0]"

definition setupArea_radius :: "int \<Rightarrow> area_combat \<Rightarrow> area_combat option" where
  "setupArea_radius radius c =
     setupArea (map (\<lambda>cell. if cell = 1 then 3 else if cell > 0 \<and> int cell \<le> radius then 1 else 0) radius_matrix) 13 c"

section \<open>The tiles of an area\<close>

definition area_direction :: "bool \<Rightarrow> position \<Rightarrow> position \<Rightarrow> direction" where
  "area_direction ext centerPos targetPos =
     (let dx = getOffsetX targetPos centerPos; dy = getOffsetY targetPos centerPos;
          dir = (if dx < 0 then DIRECTION_WEST else if dx > 0 then DIRECTION_EAST
                 else if dy < 0 then DIRECTION_NORTH else DIRECTION_SOUTH)
      in if ext then
           (if dx < 0 \<and> dy < 0 then DIRECTION_NORTHWEST
            else if dx > 0 \<and> dy < 0 then DIRECTION_NORTHEAST
            else if dx < 0 \<and> dy > 0 then DIRECTION_SOUTHWEST
            else if dx > 0 \<and> dy > 0 then DIRECTION_SOUTHEAST
            else dir)
         else dir)"

definition getArea :: "area_combat \<Rightarrow> position \<Rightarrow> position \<Rightarrow> matrix_area option" where
  "getArea c centerPos targetPos = ac_areas c (area_direction (ac_hasExtArea c) centerPos targetPos)"

text \<open>The position of a cell, in the 16 bits of a coordinate.\<close>

definition cell_position :: "matrix_area \<Rightarrow> position \<Rightarrow> int \<Rightarrow> int \<Rightarrow> position" where
  "cell_position area targetPos y x =
     Position (pos_x targetPos - of_int (ma_centerX area) + of_int x) (pos_y targetPos - of_int (ma_centerY area) + of_int y)
       (pos_z targetPos)"

text \<open>The loop pushes the tiles to the front of a list and makes those that are missing: \<open>tiles\<close> are the
  positions that have one.\<close>

definition add_tile :: "position \<Rightarrow> position list \<times> position set \<Rightarrow> position list \<times> position set" where
  "add_tile p = (\<lambda>(list, tiles). (p # list, insert p tiles))"

definition area_positions :: "(position \<Rightarrow> position \<Rightarrow> bool) \<Rightarrow> matrix_area \<Rightarrow> position \<Rightarrow> position list" where
  "area_positions sight area targetPos =
     filter (sight targetPos)
       (concat (map (\<lambda>y. map (cell_position area targetPos y) (filter (\<lambda>x. getValue area y x = Some True) [0..int (ma_cols area) - 1]))
          [0..int (ma_rows area) - 1]))"

definition getList ::
  "(position \<Rightarrow> position \<Rightarrow> bool) \<Rightarrow> area_combat \<Rightarrow> position \<Rightarrow> position \<Rightarrow> position list \<times> position set
    \<Rightarrow> position list \<times> position set" where
  "getList sight c centerPos targetPos out =
     (case getArea c centerPos targetPos of
        None \<Rightarrow> out
      | Some area \<Rightarrow> fold add_tile (area_positions sight area targetPos) out)"

definition getCombatArea ::
  "(position \<Rightarrow> position \<Rightarrow> bool) \<Rightarrow> area_combat option \<Rightarrow> position \<Rightarrow> position \<Rightarrow> position list \<times> position set
    \<Rightarrow> position list \<times> position set" where
  "getCombatArea sight area centerPos targetPos out =
     (if unat (pos_z targetPos) \<ge> 16 then out
      else case area of
          Some c \<Rightarrow> getList sight c centerPos targetPos out
        | None \<Rightarrow> add_tile targetPos out)"

section \<open>Cells\<close>

text \<open>A matrix with as many rows and columns as it says, the cells that are set, and the same relative to the
  centre, column first.\<close>

definition matrix_ok :: "matrix_area \<Rightarrow> bool" where
  "matrix_ok m \<longleftrightarrow> length (ma_data m) = ma_rows m \<and> (\<forall>r \<in> set (ma_data m). length r = ma_cols m)"

definition cells_set :: "matrix_area \<Rightarrow> (int \<times> int) set" where
  "cells_set m = {(y, x). getValue m y x = Some True}"

definition area_cells :: "matrix_area \<Rightarrow> (int \<times> int) set" where
  "area_cells m = (\<lambda>(y, x). (x - ma_centerX m, y - ma_centerY m)) ` cells_set m"

abbreviation in_matrix :: "matrix_area \<Rightarrow> int \<times> int \<Rightarrow> bool" where
  "in_matrix m \<equiv> \<lambda>(y, x). 0 \<le> y \<and> y < int (ma_rows m) \<and> 0 \<le> x \<and> x < int (ma_cols m)"

lemma cells_in: "c \<in> cells_set m \<Longrightarrow> in_matrix m c"
  by (auto simp: cells_set_def getValue_def split: if_splits)

lemma new_matrix: "matrix_ok (new_MatrixArea rows cols)" "cells_set (new_MatrixArea rows cols) = {}"
  by (auto simp: matrix_ok_def new_MatrixArea_def cells_set_def getValue_def split: if_splits)

lemma setCenter_simps [simp]:
  "matrix_ok (setCenter a b m) = matrix_ok m" "cells_set (setCenter a b m) = cells_set m"
  "ma_rows (setCenter a b m) = ma_rows m" "ma_cols (setCenter a b m) = ma_cols m"
  "ma_centerX (setCenter a b m) = b mod 2 ^ 32" "ma_centerY (setCenter a b m) = a mod 2 ^ 32"
  by (simp_all add: matrix_ok_def cells_set_def getValue_def setCenter_def)

lemma setValue_some:
  assumes "matrix_ok m" "in_matrix m (y, x)"
  obtains m' where "setValue y x v m = Some m'" "matrix_ok m'"
    "cells_set m' = (if v then insert (y, x) (cells_set m) else cells_set m - {(y, x)})"
    "ma_rows m' = ma_rows m" "ma_cols m' = ma_cols m" "ma_centerX m' = ma_centerX m" "ma_centerY m' = ma_centerY m"
proof
  let ?m = "m\<lparr>ma_data := (ma_data m)[nat y := (ma_data m ! nat y)[nat x := v]]\<rparr>"
  show "setValue y x v m = Some ?m" using assms(2) by (simp add: setValue_def)
  have l: "nat y < length (ma_data m)" "nat x < length (ma_data m ! nat y)"
    using assms by (auto simp: matrix_ok_def nat_less_iff)
  show "matrix_ok ?m" using assms(1) l by (auto simp: matrix_ok_def dest!: set_update_subset_insert [THEN subsetD])
  have "getValue ?m r c = (if (r, c) = (y, x) then Some v else getValue m r c)" for r c
    using l assms(2) by (auto simp: getValue_def nth_list_update nat_eq_iff)
  then show "cells_set ?m = (if v then insert (y, x) (cells_set m) else cells_set m - {(y, x)})"
    by (auto simp: cells_set_def split: if_splits)
qed auto

lemma copy_cells_some:
  assumes "matrix_ok out" "\<forall>(s, d) \<in> set cs. in_matrix input s \<and> in_matrix out d"
    "\<forall>(s, d) \<in> set cs. \<forall>(s', d') \<in> set cs. d = d' \<longrightarrow> s = s'"
  shows "\<exists>out'. copy_cells input cs out = Some out' \<and> matrix_ok out' \<and> ma_rows out' = ma_rows out \<and> ma_cols out' = ma_cols out
    \<and> cells_set out' = {d. \<exists>s. (s, d) \<in> set cs \<and> s \<in> cells_set input} \<union> (cells_set out - snd ` set cs)"
  using assms
proof (induction cs arbitrary: out)
  case (Cons c cs)
  obtain y x row col where c: "c = ((y, x), (row, col))" by (metis prod.collapse)
  have b: "in_matrix input (y, x)" "in_matrix out (row, col)" using Cons.prems(2) c by auto
  then obtain v where v: "getValue input y x = Some v" by (simp add: getValue_def)
  obtain m where m: "setValue row col v out = Some m" "matrix_ok m"
    "cells_set m = (if v then insert (row, col) (cells_set out) else cells_set out - {(row, col)})"
    "ma_rows m = ma_rows out" "ma_cols m = ma_cols out"
    using setValue_some [OF Cons.prems(1) b(2)] by metis
  have 1: "\<forall>(s, d) \<in> set cs. in_matrix input s \<and> in_matrix m d"
    using Cons.prems(2) m(4,5) by (auto simp: split_beta)
  have 2: "\<forall>(s, d) \<in> set cs. \<forall>(s', d') \<in> set cs. d = d' \<longrightarrow> s = s'"
    using Cons.prems(3) by auto
  have f: "s = (y, x)" if "(s, (row, col)) \<in> set cs" for s
    using bspec [OF Cons.prems(3), of "(s, (row, col))"] that c by auto
  obtain out' where o: "copy_cells input cs m = Some out'" "matrix_ok out'" "ma_rows out' = ma_rows out" "ma_cols out' = ma_cols out"
    "cells_set out' = {d. \<exists>s. (s, d) \<in> set cs \<and> s \<in> cells_set input} \<union> (cells_set m - snd ` set cs)"
    using Cons.IH [OF m(2) 1 2] m(4,5) by auto
  have vc: "v = ((y, x) \<in> cells_set input)" using v by (simp add: cells_set_def)
  have "{d. \<exists>s. (s, d) \<in> set cs \<and> s \<in> cells_set input} \<union> (cells_set m - snd ` set cs)
    = {d. \<exists>s. (s, d) \<in> set (c # cs) \<and> s \<in> cells_set input} \<union> (cells_set out - snd ` set (c # cs))" (is "?l = ?r")
  proof -
    have "d \<in> ?l \<longleftrightarrow> d \<in> ?r" for d
    proof (cases "d = (row, col)")
      case True
      show ?thesis
      proof (cases "(row, col) \<in> snd ` set cs")
        case d: True
        then obtain s where "(s, (row, col)) \<in> set cs" by auto
        then show ?thesis using f True c m(3) vc by (auto simp: image_iff)
      next
        case False
        then show ?thesis using True c m(3) vc by (auto simp: image_iff)
      qed
    next
      case False
      then show ?thesis using c m(3) by auto
    qed
    then show ?thesis by blast
  qed
  then show ?case using c v m(1) o by (intro exI [of _ out']) simp
qed simp

text \<open>Copying along a map of the cells.\<close>

lemma copy_along:
  assumes "matrix_ok out" "cells_set out = {}" "set cs = (\<lambda>c. (c, f c)) ` {c. in_matrix input c}"
    "\<forall>c. in_matrix input c \<longrightarrow> in_matrix out (f c)" "inj_on f {c. in_matrix input c}"
  shows "\<exists>out'. copy_cells input cs out = Some out' \<and> matrix_ok out' \<and> ma_rows out' = ma_rows out \<and> ma_cols out' = ma_cols out
    \<and> cells_set out' = f ` cells_set input"
proof -
  have "\<forall>(s, d) \<in> set cs. in_matrix input s \<and> in_matrix out d"
    using assms(3,4) by auto
  moreover have "\<forall>(s, d) \<in> set cs. \<forall>(s', d') \<in> set cs. d = d' \<longrightarrow> s = s'"
    using assms(3,5) by (auto dest: inj_onD)
  moreover have "{d. \<exists>s. (s, d) \<in> set cs \<and> s \<in> cells_set input} = f ` cells_set input"
  proof -
    have "cells_set input \<subseteq> {c. in_matrix input c}" using cells_in by blast
    then show ?thesis unfolding assms(3) by blast
  qed
  ultimately show ?thesis using copy_cells_some [OF assms(1), of cs input] assms(2) by auto
qed

lemma set_grid: "set (concat (map (\<lambda>a. map (f a) [0..m - 1]) [0..n - 1])) = {f a b | a b. 0 \<le> a \<and> a < n \<and> 0 \<le> b \<and> b < m}"
  by force

section \<open>The copies of a matrix\<close>

abbreviation area_size :: "matrix_area \<Rightarrow> nat" where
  "area_size m \<equiv> max (ma_cols m) (ma_rows m)"

definition centred :: "matrix_area \<Rightarrow> bool" where
  "centred m \<longleftrightarrow> in_matrix m (ma_centerY m, ma_centerX m) \<and> ma_rows m < 2 ^ 30 \<and> ma_cols m < 2 ^ 30"

abbreviation is_rotation :: "matrix_operation \<Rightarrow> bool" where
  "is_rotation operation \<equiv> operation \<in> {MATRIXOPERATION_ROTATE90, MATRIXOPERATION_ROTATE180, MATRIXOPERATION_ROTATE270}"

lemma rotate_cases:
  "rotate (rotation MATRIXOPERATION_ROTATE90) dx dy = (- dy, dx)"
  "rotate (rotation MATRIXOPERATION_ROTATE180) dx dy = (- dx, - dy)"
  "rotate (rotation MATRIXOPERATION_ROTATE270) dx dy = (dy, - dx)"
  by (simp_all add: rotate_def rotation_def)

lemma copyArea_rotates:
  assumes "matrix_ok m" "centred m" "is_rotation operation"
  shows "\<exists>out. copyArea m (new_MatrixArea (area_size m * 2) (area_size m * 2)) operation = Some out
    \<and> area_cells out = (\<lambda>(dx, dy). rotate (rotation operation) dx dy) ` area_cells m"
proof -
  let ?n = "area_size m" and ?out = "new_MatrixArea (area_size m * 2) (area_size m * 2)"
  let ?r = "rotate (rotation operation)"
  let ?f = "\<lambda>(y, x). (snd (?r (x - ma_centerX m) (y - ma_centerY m)) + (int ?n - 1), fst (?r (x - ma_centerX m) (y - ma_centerY m)) + (int ?n - 1))"
  let ?cs = "concat (map (\<lambda>x. map (\<lambda>y. let (rotatedX, rotatedY) = ?r (x - ma_centerX m) (y - ma_centerY m)
      in ((y, x), (rotatedY + (int ?n - 1), rotatedX + (int ?n - 1)))) [0..int (ma_rows m) - 1]) [0..int (ma_cols m) - 1])"
  have "set ?cs = {((y, x), ?f (y, x)) | x y. 0 \<le> x \<and> x < int (ma_cols m) \<and> 0 \<le> y \<and> y < int (ma_rows m)}"
    unfolding set_grid by (simp add: split_beta Let_def)
  also have "\<dots> = (\<lambda>c. (c, ?f c)) ` {c. in_matrix m c}" by force
  finally have cs: "set ?cs = (\<lambda>c. (c, ?f c)) ` {c. in_matrix m c}" .
  have i: "\<forall>c. in_matrix m c \<longrightarrow> in_matrix ?out (?f c)"
    using assms(2,3) by (auto simp: rotate_cases centred_def new_MatrixArea_def)
  have j: "inj_on ?f {c. in_matrix m c}"
    using assms(3) by (auto simp: rotate_cases inj_on_def)
  obtain out where o: "copy_cells m ?cs ?out = Some out" "ma_rows out = ?n * 2" "cells_set out = ?f ` cells_set m"
    using copy_along [OF new_matrix cs i j] by (auto simp: new_MatrixArea_def)
  have n: "int ?n \<ge> 1" "int ?n < 2 ^ 30" using assms(2) by (auto simp: centred_def)
  have d: "int (?n * 2) div 2 - 1 = int ?n - 1" by simp
  have c: "copyArea m ?out operation = Some (setCenter (int ?n - 1) (int ?n - 1) out)"
    using assms(3) o(1) unfolding copyArea_def Let_def by (auto simp: new_MatrixArea_def d simp del: of_nat_mult of_nat_max)
  have "area_cells (setCenter (int ?n - 1) (int ?n - 1) out) = (\<lambda>(dx, dy). ?r dx dy) ` area_cells m"
    using n by (simp add: area_cells_def o(3) image_image split_beta)
  then show ?thesis using c by blast
qed

lemma copyArea_mirrors:
  assumes "matrix_ok m" "ma_rows m \<le> n" "ma_cols m \<le> n"
  shows "\<exists>out. copyArea m (new_MatrixArea n n) MATRIXOPERATION_MIRROR = Some out \<and> matrix_ok out
    \<and> ma_rows out = n \<and> ma_cols out = n \<and> ma_centerY out = ma_centerY m mod 2 ^ 32
    \<and> ma_centerX out = (int (ma_rows m) - 1 - ma_centerX m) mod 2 ^ 32
    \<and> cells_set out = (\<lambda>(y, x). (y, int (ma_cols m) - 1 - x)) ` cells_set m"
proof -
  let ?f = "\<lambda>(y, x). (y, int (ma_cols m) - 1 - x)"
  let ?cs = "concat (map (\<lambda>y. map (\<lambda>rx. ((y, int (ma_cols m) - 1 - rx), (y, rx))) [0..int (ma_cols m) - 1]) [0..int (ma_rows m) - 1])"
  have "set ?cs = {((y, int (ma_cols m) - 1 - rx), (y, rx)) | y rx. 0 \<le> y \<and> y < int (ma_rows m) \<and> 0 \<le> rx \<and> rx < int (ma_cols m)}"
    by (rule set_grid)
  also have "\<dots> = (\<lambda>c. (c, ?f c)) ` {c. in_matrix m c}"
  proof (intro set_eqI iffI)
    fix e
    assume "e \<in> {((y, int (ma_cols m) - 1 - rx), (y, rx)) | y rx. 0 \<le> y \<and> y < int (ma_rows m) \<and> 0 \<le> rx \<and> rx < int (ma_cols m)}"
    then show "e \<in> (\<lambda>c. (c, ?f c)) ` {c. in_matrix m c}" by (auto simp: image_iff)
  next
    fix e
    assume "e \<in> (\<lambda>c. (c, ?f c)) ` {c. in_matrix m c}"
    then obtain y x where "e = ((y, x), (y, int (ma_cols m) - 1 - x))" "in_matrix m (y, x)" by auto
    then show "e \<in> {((y, int (ma_cols m) - 1 - rx), (y, rx)) | y rx. 0 \<le> y \<and> y < int (ma_rows m) \<and> 0 \<le> rx \<and> rx < int (ma_cols m)}"
      by (auto intro!: exI [of _ "int (ma_cols m) - 1 - x"])
  qed
  finally have cs: "set ?cs = (\<lambda>c. (c, ?f c)) ` {c. in_matrix m c}" .
  have i: "\<forall>c. in_matrix m c \<longrightarrow> in_matrix (new_MatrixArea n n) (?f c)"
    using assms(2,3) by (auto simp: new_MatrixArea_def)
  have j: "inj_on ?f {c. in_matrix m c}" by (auto simp: inj_on_def)
  obtain out where "copy_cells m ?cs (new_MatrixArea n n) = Some out" "ma_rows out = n" "ma_cols out = n"
    "matrix_ok out" "cells_set out = ?f ` cells_set m"
    using copy_along [OF new_matrix cs i j] by (auto simp: new_MatrixArea_def)
  then show ?thesis by (simp add: copyArea_def Let_def)
qed

lemma copyArea_flips:
  assumes "matrix_ok m" "ma_rows m \<le> n" "ma_cols m \<le> n"
  shows "\<exists>out. copyArea m (new_MatrixArea n n) MATRIXOPERATION_FLIP = Some out \<and> matrix_ok out
    \<and> ma_rows out = n \<and> ma_cols out = n \<and> ma_centerX out = ma_centerX m mod 2 ^ 32
    \<and> ma_centerY out = (int (ma_cols m) - 1 - ma_centerY m) mod 2 ^ 32
    \<and> cells_set out = (\<lambda>(y, x). (int (ma_rows m) - 1 - y, x)) ` cells_set m"
proof -
  let ?f = "\<lambda>(y, x). (int (ma_rows m) - 1 - y, x)"
  let ?cs = "concat (map (\<lambda>x. map (\<lambda>ry. ((int (ma_rows m) - 1 - ry, x), (ry, x))) [0..int (ma_rows m) - 1]) [0..int (ma_cols m) - 1])"
  have "set ?cs = {((int (ma_rows m) - 1 - ry, x), (ry, x)) | x ry. 0 \<le> x \<and> x < int (ma_cols m) \<and> 0 \<le> ry \<and> ry < int (ma_rows m)}"
    by (rule set_grid)
  also have "\<dots> = (\<lambda>c. (c, ?f c)) ` {c. in_matrix m c}"
  proof (intro set_eqI iffI)
    fix e
    assume "e \<in> {((int (ma_rows m) - 1 - ry, x), (ry, x)) | x ry. 0 \<le> x \<and> x < int (ma_cols m) \<and> 0 \<le> ry \<and> ry < int (ma_rows m)}"
    then show "e \<in> (\<lambda>c. (c, ?f c)) ` {c. in_matrix m c}" by (auto simp: image_iff)
  next
    fix e
    assume "e \<in> (\<lambda>c. (c, ?f c)) ` {c. in_matrix m c}"
    then obtain y x where "e = ((y, x), (int (ma_rows m) - 1 - y, x))" "in_matrix m (y, x)" by auto
    then show "e \<in> {((int (ma_rows m) - 1 - ry, x), (ry, x)) | x ry. 0 \<le> x \<and> x < int (ma_cols m) \<and> 0 \<le> ry \<and> ry < int (ma_rows m)}"
      by (auto intro!: exI [of _ "int (ma_rows m) - 1 - y"])
  qed
  finally have cs: "set ?cs = (\<lambda>c. (c, ?f c)) ` {c. in_matrix m c}" .
  have i: "\<forall>c. in_matrix m c \<longrightarrow> in_matrix (new_MatrixArea n n) (?f c)"
    using assms(2,3) by (auto simp: new_MatrixArea_def)
  have j: "inj_on ?f {c. in_matrix m c}" by (auto simp: inj_on_def)
  obtain out where "copy_cells m ?cs (new_MatrixArea n n) = Some out" "ma_rows out = n" "ma_cols out = n"
    "matrix_ok out" "cells_set out = ?f ` cells_set m"
    using copy_along [OF new_matrix cs i j] by (auto simp: new_MatrixArea_def)
  then show ?thesis by (simp add: copyArea_def Let_def)
qed

section \<open>What a list says\<close>

text \<open>The cells that a list with so many columns sets, and the index of its centre: the last entry that is 2
  or 3, the first cell without one.\<close>

definition list_cells :: "nat \<Rightarrow> nat list \<Rightarrow> (int \<times> int) set" where
  "list_cells cols vals = {(int (j div cols), int (j mod cols)) | j. j < length vals \<and> vals ! j \<in> {1, 3}}"

fun centre_index :: "nat list \<Rightarrow> nat \<Rightarrow> nat \<Rightarrow> nat" where
  "centre_index [] i k = k"
| "centre_index (val # vals) i k = centre_index vals (Suc i) (if val = 2 \<or> val = 3 then i else k)"

lemma centre_less: "k < i + length vals \<or> vals = [] \<Longrightarrow> k < n \<Longrightarrow> i + length vals \<le> n \<Longrightarrow> centre_index vals i k < n"
  by (induction vals arbitrary: i k) auto

lemma list_cells_step:
  "{(int (j div cols), int (j mod cols)) | j. i \<le> j \<and> j < i + length (v # vals) \<and> (v # vals) ! (j - i) \<in> {1, 3}}
    = (if v \<in> {1, 3} then {(int (i div cols), int (i mod cols))} else {})
      \<union> {(int (j div cols), int (j mod cols)) | j. Suc i \<le> j \<and> j < Suc i + length vals \<and> vals ! (j - Suc i) \<in> {1, 3}}"
proof -
  have "i \<le> j \<and> j < i + length (v # vals) \<and> (v # vals) ! (j - i) \<in> {1, 3}
      \<longleftrightarrow> (j = i \<and> v \<in> {1, 3}) \<or> (Suc i \<le> j \<and> j < Suc i + length vals \<and> vals ! (j - Suc i) \<in> {1, 3})" for j
    by (cases "j = i") (auto simp: nth_Cons' Suc_diff_le le_Suc_eq)
  then show ?thesis by auto
qed

lemma fill_area_some:
  assumes "matrix_ok area" "0 < ma_cols area" "i + length vals \<le> ma_rows area * ma_cols area"
    "ma_rows area < 2 ^ 30" "ma_cols area < 2 ^ 30"
    "ma_centerX area = int (k mod ma_cols area)" "ma_centerY area = int (k div ma_cols area)"
  shows "\<exists>area'. fill_area vals (i mod ma_cols area) (i div ma_cols area) area = Some area' \<and> matrix_ok area'
    \<and> ma_rows area' = ma_rows area \<and> ma_cols area' = ma_cols area
    \<and> cells_set area' = cells_set area \<union> {(int (j div ma_cols area), int (j mod ma_cols area)) | j.
         i \<le> j \<and> j < i + length vals \<and> vals ! (j - i) \<in> {1, 3}}
    \<and> ma_centerX area' = int (centre_index vals i k mod ma_cols area) \<and> ma_centerY area' = int (centre_index vals i k div ma_cols area)"
  using assms
proof (induction vals arbitrary: i k area)
  case (Cons v vals)
  let ?c = "ma_cols area"
  have i: "i < ma_rows area * ?c" using Cons.prems(3) by simp
  then have "i div ?c < ma_rows area" by (simp add: less_mult_imp_div_less)
  then have b: "in_matrix area (int (i div ?c), int (i mod ?c))" using Cons.prems(2) by simp
  obtain a1 where a1: "(if v = 1 \<or> v = 3 then setValue (int (i div ?c)) (int (i mod ?c)) True area else Some area) = Some a1"
    "matrix_ok a1" "ma_rows a1 = ma_rows area" "ma_cols a1 = ?c" "ma_centerX a1 = ma_centerX area" "ma_centerY a1 = ma_centerY area"
    "cells_set a1 = cells_set area \<union> (if v \<in> {1, 3} then {(int (i div ?c), int (i mod ?c))} else {})"
  proof (cases "v = 1 \<or> v = 3")
    case True
    obtain a where "setValue (int (i div ?c)) (int (i mod ?c)) True area = Some a" "matrix_ok a" "ma_rows a = ma_rows area" "ma_cols a = ?c"
      "ma_centerX a = ma_centerX area" "ma_centerY a = ma_centerY area" "cells_set a = insert (int (i div ?c), int (i mod ?c)) (cells_set area)"
      using setValue_some [OF Cons.prems(1) b, of True] by auto
    then show ?thesis using True that by auto
  next
    case False
    then show ?thesis using Cons.prems(1) that by auto
  qed
  let ?k = "if v = 2 \<or> v = 3 then i else k"
  define a2 where "a2 = (if v = 2 \<or> v = 3 then setCenter (int (i div ?c)) (int (i mod ?c)) a1 else a1)"
  have "i mod ?c < ?c" using Cons.prems(2) by simp
  then have lt: "i div ?c < 2 ^ 32" "i mod ?c < 2 ^ 32"
    using \<open>i div ?c < ma_rows area\<close> Cons.prems(4,5) by simp_all
  then have w: "int (i div ?c) mod 2 ^ 32 = int (i div ?c)" "int (i mod ?c) mod 2 ^ 32 = int (i mod ?c)"
    by (metis mod_pos_pos_trivial of_nat_0_le_iff of_nat_less_numeral_power_cancel_iff)+
  have a2: "matrix_ok a2" "ma_rows a2 = ma_rows area" "ma_cols a2 = ?c" "cells_set a2 = cells_set a1"
    "ma_centerX a2 = int (?k mod ?c)" "ma_centerY a2 = int (?k div ?c)"
    using a1 w Cons.prems(6,7) by (auto simp: a2_def)
  have n: "(if ?c = i mod ?c + 1 then fill_area vals 0 (i div ?c + 1) a2 else fill_area vals (i mod ?c + 1) (i div ?c) a2)
    = fill_area vals (Suc i mod ?c) (Suc i div ?c) a2"
    by (simp add: mod_Suc div_Suc)
  have "fill_area (v # vals) (i mod ?c) (i div ?c) area = fill_area vals (Suc i mod ?c) (Suc i div ?c) a2"
    unfolding fill_area.simps(2) a1(1) Option.bind.bind_lunit Let_def a2_def [symmetric] a2(3) by (rule n)
  moreover obtain area' where "fill_area vals (Suc i mod ?c) (Suc i div ?c) a2 = Some area'" "matrix_ok area'" "ma_rows area' = ma_rows area"
    "ma_cols area' = ?c" "cells_set area' = cells_set a2 \<union> {(int (j div ?c), int (j mod ?c)) | j.
         Suc i \<le> j \<and> j < Suc i + length vals \<and> vals ! (j - Suc i) \<in> {1, 3}}"
    "ma_centerX area' = int (centre_index vals (Suc i) ?k mod ?c)" "ma_centerY area' = int (centre_index vals (Suc i) ?k div ?c)"
    using Cons.IH [of a2 "Suc i" ?k] a2 Cons.prems by auto
  ultimately show ?case unfolding list_cells_step a1(7) a2(4) by (intro exI [of _ area']) auto
qed auto

text \<open>The cells of a list relative to its centre.\<close>

definition list_area :: "nat list \<Rightarrow> nat \<Rightarrow> (int \<times> int) set" where
  "list_area vals cols =
     (\<lambda>(y, x). (x - int (centre_index vals 0 0 mod cols), y - int (centre_index vals 0 0 div cols))) ` list_cells cols vals"

lemma createArea_some:
  assumes "length vals = rows * cols" "0 < rows" "0 < cols" "rows < 2 ^ 30" "cols < 2 ^ 30"
  shows "\<exists>area. createArea vals rows = Some area \<and> matrix_ok area \<and> centred area \<and> ma_rows area = rows \<and> ma_cols area = cols
    \<and> cells_set area = list_cells cols vals \<and> ma_centerX area = int (centre_index vals 0 0 mod cols)
    \<and> ma_centerY area = int (centre_index vals 0 0 div cols)"
proof -
  let ?new = "new_MatrixArea rows cols"
  have n: "ma_rows ?new = rows" "ma_cols ?new = cols" "ma_centerX ?new = 0" "ma_centerY ?new = 0" by (simp_all add: new_MatrixArea_def)
  have c: "createArea vals rows = fill_area vals (0 mod ma_cols ?new) (0 div ma_cols ?new) ?new"
    using assms(1-3) by (simp add: createArea_def)
  obtain area where a: "createArea vals rows = Some area" "matrix_ok area" "ma_rows area = rows" "ma_cols area = cols"
    "cells_set area = list_cells cols vals" "ma_centerX area = int (centre_index vals 0 0 mod cols)"
    "ma_centerY area = int (centre_index vals 0 0 div cols)"
    using fill_area_some [OF new_matrix(1), of rows cols 0 vals 0] assms n unfolding c list_cells_def by (auto simp: new_matrix)
  have "centre_index vals 0 0 < rows * cols" using centre_less [of 0 0 vals "rows * cols"] assms by auto
  then have "centre_index vals 0 0 div cols < rows" by (simp add: less_mult_imp_div_less)
  then have "centred area" using a assms(3-5) by (simp add: centred_def)
  with a show ?thesis by blast
qed

text \<open>The turn that takes north to a direction.\<close>

definition turn_north :: "direction \<Rightarrow> int \<times> int \<Rightarrow> int \<times> int" where
  "turn_north d = (\<lambda>(dx, dy). if d = DIRECTION_EAST then (- dy, dx) else if d = DIRECTION_SOUTH then (- dx, - dy)
     else if d = DIRECTION_WEST then (dy, - dx) else (dx, dy))"

lemma setupArea_some:
  assumes "length vals = rows * cols" "0 < rows" "0 < cols" "rows < 2 ^ 30" "cols < 2 ^ 30"
  shows "\<exists>c'. setupArea vals rows c = Some c' \<and> ac_hasExtArea c' = ac_hasExtArea c
    \<and> (\<forall>d \<in> {DIRECTION_NORTH, DIRECTION_EAST, DIRECTION_SOUTH, DIRECTION_WEST}.
        \<exists>m. ac_areas c' d = Some m \<and> area_cells m = turn_north d ` list_area vals cols)
    \<and> (\<forall>d. d \<notin> {DIRECTION_NORTH, DIRECTION_EAST, DIRECTION_SOUTH, DIRECTION_WEST} \<longrightarrow> ac_areas c' d = ac_areas c d)"
proof -
  obtain area where a: "createArea vals rows = Some area" "matrix_ok area" "centred area"
    "cells_set area = list_cells cols vals" "ma_centerX area = int (centre_index vals 0 0 mod cols)"
    "ma_centerY area = int (centre_index vals 0 0 div cols)"
    using createArea_some [OF assms] by blast
  have cells: "area_cells area = list_area vals cols" by (simp add: area_cells_def list_area_def a)
  let ?copy = "copyArea area (new_MatrixArea (area_size area * 2) (area_size area * 2))"
  note r = copyArea_rotates [OF a(2,3), unfolded cells]
  obtain s where s: "?copy MATRIXOPERATION_ROTATE180 = Some s" "area_cells s = (\<lambda>(dx, dy). (- dx, - dy)) ` list_area vals cols"
    using r [of MATRIXOPERATION_ROTATE180] unfolding rotate_cases by auto
  obtain e where e: "?copy MATRIXOPERATION_ROTATE90 = Some e" "area_cells e = (\<lambda>(dx, dy). (- dy, dx)) ` list_area vals cols"
    using r [of MATRIXOPERATION_ROTATE90] unfolding rotate_cases by auto
  obtain w where w: "?copy MATRIXOPERATION_ROTATE270 = Some w" "area_cells w = (\<lambda>(dx, dy). (dy, - dx)) ` list_area vals cols"
    using r [of MATRIXOPERATION_ROTATE270] unfolding rotate_cases by auto
  let ?c = "put_area DIRECTION_WEST w (put_area DIRECTION_EAST e (put_area DIRECTION_SOUTH s (put_area DIRECTION_NORTH area c)))"
  have c: "setupArea vals rows c = Some ?c"
    unfolding setupArea_def a(1) Let_def Option.bind.bind_lunit s(1) e(1) w(1) ..
  have t: "turn_north DIRECTION_NORTH = (\<lambda>p. p)" "turn_north DIRECTION_EAST = (\<lambda>(dx, dy). (- dy, dx))"
    "turn_north DIRECTION_SOUTH = (\<lambda>(dx, dy). (- dx, - dy))" "turn_north DIRECTION_WEST = (\<lambda>(dx, dy). (dy, - dx))"
    by (simp_all add: turn_north_def fun_eq_iff)
  have "ac_hasExtArea ?c = ac_hasExtArea c"
    "ac_areas ?c = (ac_areas c)(DIRECTION_NORTH \<mapsto> area, DIRECTION_SOUTH \<mapsto> s, DIRECTION_EAST \<mapsto> e, DIRECTION_WEST \<mapsto> w)"
    by (simp_all add: put_area_def)
  then show ?thesis using c by (simp add: t cells s(2) e(2) w(2))
qed

section \<open>Tiles\<close>

text \<open>The position at an offset, in the 16 bits of a coordinate.\<close>

definition at_offset :: "position \<Rightarrow> int \<times> int \<Rightarrow> position" where
  "at_offset p = (\<lambda>(dx, dy). Position (pos_x p + of_int dx) (pos_y p + of_int dy) (pos_z p))"

lemma cell_position_offset: "cell_position area p y x = at_offset p (x - ma_centerX area, y - ma_centerY area)"
  by (simp add: cell_position_def at_offset_def)

lemma image_Sigma: "(\<Union>y \<in> A. f y ` B y) = (\<lambda>(y, x). f y x) ` (SIGMA y:A. B y)"
  by auto

lemma area_positions_set: "set (area_positions sight area p) = {q \<in> at_offset p ` area_cells area. sight p q}"
proof -
  let ?rows = "set [0..int (ma_rows area) - 1]" and ?cols = "set [0..int (ma_cols area) - 1]"
  have c: "cells_set area = (SIGMA y:?rows. {x \<in> ?cols. getValue area y x = Some True})"
  proof (intro set_eqI)
    fix e :: "int \<times> int"
    obtain y x where e: "e = (y, x)" by fastforce
    have "getValue area y x = Some True \<longrightarrow> y \<in> ?rows \<and> x \<in> ?cols" by (simp add: getValue_def)
    then show "e \<in> cells_set area \<longleftrightarrow> e \<in> (SIGMA y:?rows. {x \<in> ?cols. getValue area y x = Some True})"
      by (simp add: e cells_set_def) blast
  qed
  have "set (concat (map (\<lambda>y. map (cell_position area p y) (filter (\<lambda>x. getValue area y x = Some True) [0..int (ma_cols area) - 1]))
          [0..int (ma_rows area) - 1])) = (\<Union>y \<in> ?rows. cell_position area p y ` {x \<in> ?cols. getValue area y x = Some True})"
    by simp
  also have "\<dots> = (\<lambda>(y, x). cell_position area p y x) ` cells_set area"
    unfolding c by (rule image_Sigma)
  also have "\<dots> = at_offset p ` area_cells area"
    by (simp add: cell_position_offset area_cells_def image_image split_beta)
  finally show ?thesis by (auto simp: area_positions_def)
qed

lemma fold_add_tile: "fold add_tile ps (qs, tiles) = (rev ps @ qs, set ps \<union> tiles)"
  by (induction ps arbitrary: qs tiles) (auto simp: add_tile_def)

lemma getList_some:
  assumes "getArea c centerPos targetPos = Some m"
  shows "getList sight c centerPos targetPos ([], tiles)
    = (rev (area_positions sight m targetPos), set (area_positions sight m targetPos) \<union> tiles)"
  by (simp add: getList_def assms fold_add_tile)

section \<open>Waves\<close>

lemma concat_rows:
  assumes "\<forall>k < n. length (f k) = c"
  shows "length (concat (map f [0..<n])) = n * c"
    and "j < n * c \<Longrightarrow> concat (map f [0..<n]) ! j = f (j div c) ! (j mod c)"
proof -
  show l: "length (concat (map f [0..<n])) = n * c" using assms by (induction n) auto
  show "concat (map f [0..<n]) ! j = f (j div c) ! (j mod c)" if "j < n * c"
    using assms that
  proof (induction n)
    case (Suc n)
    have l: "length (concat (map f [0..<n])) = n * c" using Suc.prems(1) by (induction n) auto
    show ?case
    proof (cases "j < n * c")
      case True
      then show ?thesis using Suc l by (simp add: nth_append)
    next
      case False
      then have "j = n * c + (j - n * c)" "j - n * c < c" using Suc.prems(2) by simp_all
      then have "j div c = n" "j mod c = j - n * c" by (metis div_mult_self3 div_less add.right_neutral less_nat_zero_code, metis mod_mult_self3 mod_less)
      then show ?thesis using False l by (simp add: nth_append)
    qed
  qed simp
qed

lemma list_cells_rows:
  assumes "\<forall>k < n. length (f k) = c"
  shows "list_cells c (concat (map f [0..<n])) = {(int r, int x) | r x. r < n \<and> x < c \<and> f r ! x \<in> {1, 3}}"
proof (intro set_eqI iffI)
  fix e
  assume "e \<in> list_cells c (concat (map f [0..<n]))"
  then obtain j where j: "e = (int (j div c), int (j mod c))" "j < n * c" "concat (map f [0..<n]) ! j \<in> {1, 3}"
    unfolding list_cells_def concat_rows(1) [OF assms] by auto
  moreover from j(2) have "j div c < n" "j mod c < c"
    by (simp add: less_mult_imp_div_less, cases c) simp_all
  ultimately show "e \<in> {(int r, int x) | r x. r < n \<and> x < c \<and> f r ! x \<in> {1, 3}}"
    using concat_rows(2) [OF assms j(2)] by auto
next
  fix e
  assume "e \<in> {(int r, int x) | r x. r < n \<and> x < c \<and> f r ! x \<in> {1, 3}}"
  then obtain r x where e: "e = (int r, int x)" "r < n" "x < c" "f r ! x \<in> {1, 3}" by auto
  have b: "r * c + x < n * c"
  proof -
    have "r * c + x < Suc r * c" using e(3) by simp
    also have "\<dots> \<le> n * c" using e(2) by (intro mult_le_mono1) simp
    finally show ?thesis .
  qed
  have "(r * c + x) div c = r" "(r * c + x) mod c = x" using e(3) by simp_all
  then show "e \<in> list_cells c (concat (map f [0..<n]))"
    unfolding list_cells_def concat_rows(1) [OF assms] using concat_rows(2) [OF assms b] b e
    by (intro CollectI exI [of _ "r * c + x"]) simp
qed

lemma centre_unique:
  "j < length vals \<Longrightarrow> vals ! j \<in> {2, 3} \<Longrightarrow> \<forall>j' < length vals. vals ! j' \<in> {2, 3} \<longrightarrow> j' = j \<Longrightarrow> centre_index vals i k = i + j"
proof (induction vals arbitrary: i j k)
  case (Cons v vals)
  show ?case
  proof (cases j)
    case 0
    have n: "v' \<notin> {2, 3}" if v': "v' \<in> set vals" for v'
    proof
      assume "v' \<in> {2, 3}"
      moreover obtain m where "m < length vals" "vals ! m = v'" using v' by (auto simp: in_set_conv_nth)
      ultimately show False using Cons.prems(3) [rule_format, of "Suc m"] 0 by simp
    qed
    have "centre_index xs i' k' = k'" if "\<forall>v' \<in> set xs. v' \<notin> {2, 3}" for xs i' k'
      using that by (induction xs arbitrary: i') auto
    then show ?thesis using n Cons.prems(2) 0 by auto
  next
    case (Suc j')
    have "v \<notin> {2, 3}" using Cons.prems(3) [rule_format, of 0] Suc by auto
    moreover have "centre_index vals (Suc i) k = Suc i + j'"
      using Cons.prems Suc by (intro Cons.IH) auto
    ultimately show ?thesis using Suc by auto
  qed
qed simp

definition wave_row :: "int \<Rightarrow> int \<Rightarrow> int \<Rightarrow> int \<Rightarrow> nat list" where
  "wave_row rows cols colSpread y =
     map (\<lambda>x. if y = rows \<and> x = (cols - cols mod 2) div 2 + 1 then 3
              else if cols - colSpread + 1 \<le> x \<and> x \<le> cols - (cols - colSpread) then 1 else 0) [1..cols]"

lemma div_next:
  fixes y s :: int
  assumes "0 \<le> y" "0 < s"
  shows "(y + 1) div s = y div s + (if (y + 1) mod s = 0 then 1 else 0)"
proof -
  obtain m t where m: "y = int m" "s = int t" using assms nonneg_int_cases by (metis less_le)
  have "(y + 1) div s = int (Suc m div t)" "(y + 1) mod s = int (Suc m mod t)"
    unfolding m by (simp_all flip: zdiv_int zmod_int of_nat_Suc add: add.commute)
  then show ?thesis unfolding m by (simp add: div_Suc mod_Suc flip: zdiv_int)
qed

lemma wave_rows_concat:
  assumes "0 \<le> spread" "colSpread = cols - y div spread" "0 \<le> y"
  shows "wave_rows rows cols spread (y + 1) colSpread n
    = concat (map (\<lambda>k. wave_row rows cols (cols - (y + int k) div spread) (y + int k + 1)) [0..<n])"
  using assms(2,3)
proof (induction n arbitrary: y colSpread)
  case (Suc n)
  have "(if spread > 0 \<and> (y + 1) mod spread = 0 then colSpread - 1 else colSpread) = cols - (y + 1) div spread"
  proof (cases "spread = 0")
    case False
    then have s: "spread > 0" using assms(1) by simp
    have "(y + 1) div spread = y div spread + (if (y + 1) mod spread = 0 then 1 else 0)"
      using div_next [OF Suc.prems(2) s] .
    then show ?thesis using s Suc.prems(1) by simp
  qed (use Suc.prems(1) in simp)
  then have "wave_rows rows cols spread (y + 1 + 1) (if spread > 0 \<and> (y + 1) mod spread = 0 then colSpread - 1 else colSpread) n
    = concat (map (\<lambda>k. wave_row rows cols (cols - (y + 1 + int k) div spread) (y + 1 + int k + 1)) [0..<n])"
    using Suc.IH [OF _ , of _ "y + 1"] Suc.prems(2) by simp
  moreover have "[0..<Suc n] = 0 # map Suc [0..<n]" by (simp add: upt_conv_Cons map_Suc_upt)
  ultimately show ?case
    unfolding wave_rows.simps(2) wave_row_def [symmetric]
    by (simp add: o_def algebra_simps del: upt_Suc) (simp add: Suc.prems(1))
qed simp

text \<open>The cells of a wave: at most \<open>len\<close> rows to the north, wider with the distance.\<close>

definition wave_area :: "nat \<Rightarrow> nat \<Rightarrow> (int \<times> int) set" where
  "wave_area len spread =
     {(dx, dy). - int len < dy \<and> dy \<le> 0 \<and> \<bar>dx\<bar> \<le> int len div int spread - (int len - 1 + dy) div int spread}"

lemma wave_cols_odd: "wave_cols (int len) (int spread) = 2 * (int len div int spread) + 1"
  by (simp add: wave_cols_def minus_mod_eq_mult_div)

lemma wave_row_nth:
  assumes "x < nat (2 * k + 1)" "0 \<le> k"
  shows "wave_row rows (2 * k + 1) colSpread y ! x =
    (if y = rows \<and> int x = k then 3 else if 2 * k + 1 - colSpread \<le> int x \<and> int x < colSpread then 1 else 0)"
proof -
  have "(2 * k + 1 - (2 * k + 1) mod 2) div 2 = k" by simp
  moreover have "[1..2 * k + 1] ! x = 1 + int x" using assms by (simp add: nth_upto)
  ultimately show ?thesis using assms by (auto simp add: wave_row_def)
qed

lemma wave_list:
  fixes len spread :: nat
  assumes "0 < len"
  defines "cols \<equiv> wave_cols (int len) (int spread)"
  shows "length (wave_rows (int len) cols (int spread) 1 cols len) = len * nat cols"
    and "list_area (wave_rows (int len) cols (int spread) 1 cols len) (nat cols) = wave_area len spread"
proof -
  let ?k = "int len div int spread" and ?d = "\<lambda>r. int r div int spread"
  let ?f = "\<lambda>r. wave_row (int len) cols (cols - int r div int spread) (int r + 1)"
  have k: "0 \<le> ?k" "cols = 2 * ?k + 1" by (simp_all add: cols_def wave_cols_odd div_int_pos_iff)
  have e: "wave_rows (int len) cols (int spread) 1 cols len = concat (map ?f [0..<len])"
    using wave_rows_concat [of "int spread" cols cols 0 "int len" len] by simp
  have l: "\<forall>r < len. length (?f r) = nat cols" by (simp add: wave_row_def)
  show "length (wave_rows (int len) cols (int spread) 1 cols len) = len * nat cols"
    unfolding e by (rule concat_rows(1) [OF l])
  have n: "?f r ! x = (if r = len - 1 \<and> int x = ?k then 3 else if ?d r \<le> int x \<and> int x < cols - ?d r then 1 else 0)"
    if "x < nat cols" for r x
    using wave_row_nth [of x ?k "int len" "cols - ?d r" "int r + 1"] that k assms(1) by auto
  have b: "(len - 1) * nat cols + nat ?k < len * nat cols"
  proof -
    have "nat ?k < nat cols" using k by simp
    then have "(len - 1) * nat cols + nat ?k < Suc (len - 1) * nat cols" by simp
    then show ?thesis using assms(1) by simp
  qed
  have dm: "((len - 1) * nat cols + nat ?k) div nat cols = len - 1" "((len - 1) * nat cols + nat ?k) mod nat cols = nat ?k"
    using k by simp_all
  have c: "centre_index (concat (map ?f [0..<len])) 0 0 = 0 + ((len - 1) * nat cols + nat ?k)"
  proof (rule centre_unique)
    show "(len - 1) * nat cols + nat ?k < length (concat (map ?f [0..<len]))" using b by (simp add: concat_rows(1) [OF l])
    show "concat (map ?f [0..<len]) ! ((len - 1) * nat cols + nat ?k) \<in> {2, 3}"
    proof -
      have "nat ?k < nat cols" using k by simp
      then have "?f (len - 1) ! nat ?k = 3" using n k by simp
      then show ?thesis unfolding concat_rows(2) [OF l b] dm by simp
    qed
    show "\<forall>j' < length (concat (map ?f [0..<len])). concat (map ?f [0..<len]) ! j' \<in> {2, 3} \<longrightarrow> j' = (len - 1) * nat cols + nat ?k"
    proof (intro allI impI)
      fix j assume j: "j < length (concat (map ?f [0..<len]))" "concat (map ?f [0..<len]) ! j \<in> {2, 3}"
      then have jl: "j < len * nat cols" by (simp add: concat_rows(1) [OF l])
      have "j mod nat cols < nat cols" using k by simp
      then have "j div nat cols = len - 1 \<and> int (j mod nat cols) = ?k"
        using j(2) n [of "j mod nat cols" "j div nat cols"] unfolding concat_rows(2) [OF l jl] by (auto split: if_splits)
      then show "j = (len - 1) * nat cols + nat ?k" by (metis div_mult_mod_eq nat_int)
    qed
  qed
  have "list_area (concat (map ?f [0..<len])) (nat cols)
    = (\<lambda>(y, x). (x - ?k, y - int (len - 1))) ` {(int r, int x) | r x. r < len \<and> x < nat cols \<and> ?f r ! x \<in> {1, 3}}"
    unfolding list_area_def c add_0 dm list_cells_rows [OF l] using k by simp
  also have "{(int r, int x) | r x. r < len \<and> x < nat cols \<and> ?f r ! x \<in> {1, 3}}
    = {(int r, int x) | r x. r < len \<and> x < nat cols \<and> ?d r \<le> int x \<and> int x < cols - ?d r}"
  proof -
    have "?f r ! x \<in> {1, 3} \<longleftrightarrow> ?d r \<le> int x \<and> int x < cols - ?d r" if "r < len" "x < nat cols" for r x
    proof -
      have "?d r \<le> ?k" using that(1) by (cases "spread = 0") (simp_all add: zdiv_mono1)
      then show ?thesis using n [OF that(2), of r] k by auto
    qed
    then show ?thesis by blast
  qed
  also have "(\<lambda>(y, x). (x - ?k, y - int (len - 1))) ` \<dots> = wave_area len spread"
  proof (intro set_eqI iffI)
    fix p
    assume "p \<in> (\<lambda>(y, x). (x - ?k, y - int (len - 1))) ` {(int r, int x) | r x. r < len \<and> x < nat cols \<and> ?d r \<le> int x \<and> int x < cols - ?d r}"
    then obtain r x where p: "p = (int x - ?k, int r - int (len - 1))" "r < len" "?d r \<le> int x" "int x < cols - ?d r" by auto
    moreover have "int len - 1 + (int r - int (len - 1)) = int r" using assms(1) by simp
    ultimately show "p \<in> wave_area len spread" using k assms(1) by (simp add: wave_area_def)
  next
    fix p
    assume "p \<in> wave_area len spread"
    then obtain dx dy where p: "p = (dx, dy)" "- int len < dy" "dy \<le> 0" "\<bar>dx\<bar> \<le> ?k - (int len - 1 + dy) div int spread"
      by (auto simp: wave_area_def)
    define r where "r = nat (int len - 1 + dy)"
    have r: "int r = int len - 1 + dy" "r < len" using p(2,3) by (simp_all add: r_def)
    have d: "0 \<le> ?d r" by (simp add: div_int_pos_iff)
    define x where "x = nat (dx + ?k)"
    have "dx \<le> ?k - ?d r" "- dx \<le> ?k - ?d r" using p(4) unfolding r(1) by (simp_all add: abs_le_iff)
    then have x: "int x = dx + ?k" "?d r \<le> int x" "int x < cols - ?d r" using d k(2) unfolding x_def by simp_all
    then have "x < nat cols" using d by linarith
    then have m: "(int r, int x) \<in> {(int r, int x) | r x. r < len \<and> x < nat cols \<and> ?d r \<le> int x \<and> int x < cols - ?d r}"
      using r(2) x by blast
    show "p \<in> (\<lambda>(y, x). (x - ?k, y - int (len - 1))) ` {(int r, int x) | r x. r < len \<and> x < nat cols \<and> ?d r \<le> int x \<and> int x < cols - ?d r}"
      using r(1) x(1) assms(1) by (intro image_eqI [OF _ m]) (simp add: p(1))
  qed
  finally show "list_area (wave_rows (int len) cols (int spread) 1 cols len) (nat cols) = wave_area len spread" unfolding e .
qed

section \<open>Properties\<close>

text \<open>
  C19. An area is drawn once, facing north, and the other three directions are its rotations. For a list with
  as many entries as rows and columns, a spell cast on a target covers the tiles at exactly the offsets of the list
  from its centre, turned to the direction of the target, as far as they are in sight; each of them has a tile afterwards.
\<close>

theorem area_turns_to_target:
  assumes "length vals = rows * cols" and "0 < rows" and "0 < cols" and "rows < 2 ^ 30" and "cols < 2 ^ 30"
    and "\<not> ac_hasExtArea c" and "getList sight (the (setupArea vals rows c)) centerPos targetPos ([], tiles) = (hit, tiles')"
  shows "setupArea vals rows c \<noteq> None
    \<and> set hit = {q \<in> at_offset targetPos ` turn_north (area_direction False centerPos targetPos) ` list_area vals cols. sight targetPos q}
    \<and> tiles' = set hit \<union> tiles"
proof -
  obtain c' where c': "setupArea vals rows c = Some c'" "ac_hasExtArea c' = ac_hasExtArea c"
    "\<forall>d \<in> {DIRECTION_NORTH, DIRECTION_EAST, DIRECTION_SOUTH, DIRECTION_WEST}.
        \<exists>m. ac_areas c' d = Some m \<and> area_cells m = turn_north d ` list_area vals cols"
    using setupArea_some [OF assms(1-5), of c] by (elim exE conjE) (rule that)
  let ?d = "area_direction False centerPos targetPos"
  have "?d \<in> {DIRECTION_NORTH, DIRECTION_EAST, DIRECTION_SOUTH, DIRECTION_WEST}"
    by (simp add: area_direction_def Let_def)
  then obtain m where m: "getArea c' centerPos targetPos = Some m" "area_cells m = turn_north ?d ` list_area vals cols"
    using c'(2,3) assms(6) unfolding getArea_def by (metis (full_types))
  have "hit = rev (area_positions sight m targetPos)" "tiles' = set (area_positions sight m targetPos) \<union> tiles"
    using assms(7) getList_some [OF m(1), of sight tiles] by (simp_all add: c'(1))
  then show ?thesis using c'(1) by (simp add: area_positions_set m(2))
qed

text \<open>
  A wave widens as it goes: a spell of a length and a spread covers that many rows in front of the caster, and in
  each row as many tiles to both sides as whole spreads fit between it and the caster's own row, the same in all four directions.
\<close>

theorem wave_widens:
  assumes "0 < len" and "len < 2 ^ 28"
  shows "\<exists>c'. setupArea_wave len spread no_area = Some c'
    \<and> (\<forall>d \<in> {DIRECTION_NORTH, DIRECTION_EAST, DIRECTION_SOUTH, DIRECTION_WEST}.
        \<exists>m. ac_areas c' d = Some m \<and> area_cells m = turn_north d ` wave_area len spread)"
proof -
  let ?cols = "wave_cols (int len) (int spread)"
  have "int len div int spread \<le> int len" by (simp flip: zdiv_int)
  then have c: "0 < nat ?cols" "nat ?cols < 2 ^ 30" using assms(2) by (simp_all add: wave_cols_odd div_int_pos_iff)
  show ?thesis
    using setupArea_some [OF wave_list(1) [OF assms(1), of spread] assms(1) c(1) _ c(2), of no_area] assms(2)
    unfolding setupArea_wave_def Let_def wave_list(2) [OF assms(1)] by auto
qed

text \<open>The number of the ring around the target at an offset.\<close>

definition ring :: "int \<Rightarrow> int \<Rightarrow> nat" where
  "ring dx dy = radius_matrix ! nat ((dy + 6) * 13 + dx + 6)"

lemma ring_turns: "\<forall>dx \<in> {-6..6}. \<forall>dy \<in> {-6..6}. ring (- dy) dx = ring dx dy"
proof -
  have "\<forall>dx \<in> set [-6..6]. \<forall>dy \<in> set [-6..6]. ring (- dy) dx = ring dx dy" by code_simp
  then show ?thesis unfolding set_upto .
qed

definition radius_area :: "int \<Rightarrow> (int \<times> int) set" where
  "radius_area radius =
     {(dx, dy). \<bar>dx\<bar> \<le> 6 \<and> \<bar>dy\<bar> \<le> 6 \<and> (ring dx dy = 1 \<or> 0 < ring dx dy \<and> int (ring dx dy) \<le> radius)}"

lemma radius_turns: "d \<in> {DIRECTION_NORTH, DIRECTION_EAST, DIRECTION_SOUTH, DIRECTION_WEST} \<Longrightarrow> turn_north d ` radius_area radius = radius_area radius"
proof -
  have in1: "(- dy, dx) \<in> radius_area radius" if "(dx, dy) \<in> radius_area radius" for dx dy
  proof -
    have "dx \<in> {-6..6}" "dy \<in> {-6..6}" using that by (auto simp: radius_area_def)
    then have "ring (- dy) dx = ring dx dy" using ring_turns by blast
    then show ?thesis using that by (simp add: radius_area_def)
  qed
  have in2: "(- dx, - dy) \<in> radius_area radius" if "(dx, dy) \<in> radius_area radius" for dx dy
    using in1 [OF in1 [OF that]] .
  have in3: "(dy, - dx) \<in> radius_area radius" if "(dx, dy) \<in> radius_area radius" for dx dy
    using in2 [OF in1 [OF that]] by simp
  assume "d \<in> {DIRECTION_NORTH, DIRECTION_EAST, DIRECTION_SOUTH, DIRECTION_WEST}"
  then consider "d = DIRECTION_NORTH" | "d = DIRECTION_EAST" | "d = DIRECTION_SOUTH" | "d = DIRECTION_WEST" by blast
  then show "turn_north d ` radius_area radius = radius_area radius"
  proof cases
    case 1
    then show ?thesis by (simp add: turn_north_def split_beta)
  next
    case 2
    have "p \<in> turn_north d ` radius_area radius" if "p \<in> radius_area radius" for p
      using that in3 [of "fst p" "snd p"] 2 by (intro image_eqI [of _ _ "(snd p, - fst p)"]) (auto simp: turn_north_def)
    then show ?thesis using in1 2 by (auto simp: turn_north_def)
  next
    case 3
    have "p \<in> turn_north d ` radius_area radius" if "p \<in> radius_area radius" for p
      using that in2 [of "fst p" "snd p"] 3 by (intro image_eqI [of _ _ "(- fst p, - snd p)"]) (auto simp: turn_north_def)
    then show ?thesis using in2 3 by (auto simp: turn_north_def)
  next
    case 4
    have "p \<in> turn_north d ` radius_area radius" if "p \<in> radius_area radius" for p
      using that in1 [of "fst p" "snd p"] 4 by (intro image_eqI [of _ _ "(- snd p, fst p)"]) (auto simp: turn_north_def)
    then show ?thesis using in3 4 by (auto simp: turn_north_def)
  qed
qed

definition radius_list :: "int \<Rightarrow> nat list" where
  "radius_list radius = map (\<lambda>cell. if cell = 1 then 3 else if cell > 0 \<and> int cell \<le> radius then 1 else 0) radius_matrix"

lemma radius_matrix_length: "length radius_matrix = 13 * 13"
  by (simp add: radius_matrix_def)

lemma radius_one: "j < 169 \<Longrightarrow> radius_matrix ! j = 1 \<longleftrightarrow> j = 84"
proof -
  have "\<forall>j \<in> set [0..<169]. (radius_matrix ! j = 1) = (j = 84)" by code_simp
  then show "j < 169 \<Longrightarrow> ?thesis" by simp
qed

lemma radius_list_area: "list_area (radius_list radius) 13 = radius_area radius"
proof -
  have l: "length (radius_list radius) = 169" by (simp add: radius_list_def radius_matrix_length)
  have n: "radius_list radius ! j = (let cell = radius_matrix ! j in if cell = 1 then 3 else if cell > 0 \<and> int cell \<le> radius then 1 else 0)"
    if "j < 169" for j
    using that by (simp add: radius_list_def radius_matrix_length Let_def)
  have c: "centre_index (radius_list radius) 0 0 = 0 + 84"
    using l n radius_one by (intro centre_unique) (auto simp: Let_def split: if_splits)
  have m: "radius_list radius ! j \<in> {1, 3} \<longleftrightarrow> radius_matrix ! j = 1 \<or> 0 < radius_matrix ! j \<and> int (radius_matrix ! j) \<le> radius"
    if "j < 169" for j
    using n [OF that] by (simp add: Let_def)
  have "list_cells 13 (radius_list radius)
    = {(int (j div 13), int (j mod 13)) | j. j < 169 \<and> (radius_matrix ! j = 1 \<or> 0 < radius_matrix ! j \<and> int (radius_matrix ! j) \<le> radius)}"
    unfolding list_cells_def l using m by (intro Collect_cong ex_cong1) (simp cong: conj_cong)
  then have "list_area (radius_list radius) 13
    = (\<lambda>j. (int (j mod 13) - 6, int (j div 13) - 6)) ` {j. j < 169 \<and> (radius_matrix ! j = 1 \<or> 0 < radius_matrix ! j \<and> int (radius_matrix ! j) \<le> radius)}"
    unfolding list_area_def c by auto
  also have "\<dots> = radius_area radius"
  proof (intro set_eqI iffI)
    fix p
    assume "p \<in> (\<lambda>j. (int (j mod 13) - 6, int (j div 13) - 6)) ` {j. j < 169 \<and> (radius_matrix ! j = 1 \<or> 0 < radius_matrix ! j \<and> int (radius_matrix ! j) \<le> radius)}"
    then obtain j where j: "p = (int (j mod 13) - 6, int (j div 13) - 6)" "j < 169"
      "radius_matrix ! j = 1 \<or> 0 < radius_matrix ! j \<and> int (radius_matrix ! j) \<le> radius" by auto
    have "int (j div 13) * 13 + int (j mod 13) = int j"
      by (metis div_mult_mod_eq of_nat_add of_nat_mult of_nat_numeral)
    then have "nat (int (j div 13) * 13 + int (j mod 13)) = j" by simp
    then have "ring (fst p) (snd p) = radius_matrix ! j" by (simp add: j(1) ring_def)
    moreover have "j div 13 < 13" "j mod 13 < 13" using j(2) by simp_all
    ultimately show "p \<in> radius_area radius" using j(1,3) by (auto simp: radius_area_def)
  next
    fix p
    assume "p \<in> radius_area radius"
    then obtain dx dy where p: "p = (dx, dy)" "\<bar>dx\<bar> \<le> 6" "\<bar>dy\<bar> \<le> 6" "ring dx dy = 1 \<or> 0 < ring dx dy \<and> int (ring dx dy) \<le> radius"
      by (auto simp: radius_area_def)
    define j where "j = nat ((dy + 6) * 13 + dx + 6)"
    define x y where "x = nat (dx + 6)" and "y = nat (dy + 6)"
    have xy: "int x = dx + 6" "int y = dy + 6" "x < 13" "y < 13" using p(2,3) by (simp_all add: x_def y_def)
    have j: "j = y * 13 + x" using xy by (simp add: j_def)
    have "j div 13 = y" "j mod 13 = x" "j < 169" using j xy(3,4) by simp_all
    then show "p \<in> (\<lambda>j. (int (j mod 13) - 6, int (j div 13) - 6)) ` {j. j < 169 \<and> (radius_matrix ! j = 1 \<or> 0 < radius_matrix ! j \<and> int (radius_matrix ! j) \<le> radius)}"
      using p(1,4) xy(1,2) unfolding ring_def j_def [symmetric] by (intro image_eqI [of _ _ j]) simp_all
  qed
  finally show ?thesis .
qed

text \<open>
  An area given by a radius is round: it consists of the rings around the target up to the radius and is the
  same in all four directions.
\<close>

theorem radius_area_round:
  "\<exists>c'. setupArea_radius radius no_area = Some c'
    \<and> (\<forall>d \<in> {DIRECTION_NORTH, DIRECTION_EAST, DIRECTION_SOUTH, DIRECTION_WEST}.
        \<exists>m. ac_areas c' d = Some m \<and> area_cells m = radius_area radius)"
proof -
  have l: "length (radius_list radius) = 13 * 13" by (simp add: radius_list_def radius_matrix_length)
  have "setupArea_radius radius no_area = setupArea (radius_list radius) 13 no_area"
    by (simp add: setupArea_radius_def radius_list_def)
  then show ?thesis
    using setupArea_some [OF l, of no_area] radius_turns unfolding radius_list_area by auto
qed

text \<open>
  A diagonal area is drawn facing north west, and the other three diagonals are its mirror images, when it is square.
\<close>

theorem square_area_mirrored:
  assumes "length vals = n * n" and "0 < n" and "n < 2 ^ 29"
    and "(d, sx, sy) \<in> {(DIRECTION_NORTHWEST, 1, 1), (DIRECTION_NORTHEAST, -1, 1), (DIRECTION_SOUTHWEST, 1, -1), (DIRECTION_SOUTHEAST, -1, -1)}"
  shows "\<exists>c' m. setupExtArea vals n c = Some c' \<and> ac_hasExtArea c' \<and> ac_areas c' d = Some m
    \<and> area_cells m = (\<lambda>(dx, dy). (sx * dx, sy * dy)) ` list_area vals n"
proof -
  obtain area where a: "createArea vals n = Some area" "matrix_ok area" "centred area" "ma_rows area = n" "ma_cols area = n"
    "cells_set area = list_cells n vals" "ma_centerX area = int (centre_index vals 0 0 mod n)"
    "ma_centerY area = int (centre_index vals 0 0 div n)"
    using createArea_some [OF assms(1,2,2)] assms(3) by auto
  have cells: "area_cells area = list_area vals n" by (simp add: area_cells_def list_area_def a)
  let ?new = "new_MatrixArea (n * 2) (n * 2)"
  have b: "0 \<le> ma_centerX area" "ma_centerX area < int n" "0 \<le> ma_centerY area" "ma_centerY area < int n" "int n < 2 ^ 29"
    using a(3,4,5) assms(3) by (simp_all add: centred_def)
  have md: "v mod 2 ^ 32 = v" if "0 \<le> v" "v < 2 * int n" for v :: int using that b(5) by simp
  obtain ne where ne: "copyArea area ?new MATRIXOPERATION_MIRROR = Some ne" "ma_centerY ne = ma_centerY area mod 2 ^ 32"
    "ma_centerX ne = (int n - 1 - ma_centerX area) mod 2 ^ 32" "cells_set ne = (\<lambda>(y, x). (y, int n - 1 - x)) ` cells_set area"
    using copyArea_mirrors [OF a(2), of "n * 2"] a(4,5) by auto
  obtain sw where sw: "copyArea area ?new MATRIXOPERATION_FLIP = Some sw" "matrix_ok sw" "ma_rows sw = n * 2" "ma_cols sw = n * 2"
    "ma_centerX sw = ma_centerX area mod 2 ^ 32" "ma_centerY sw = (int n - 1 - ma_centerY area) mod 2 ^ 32"
    "cells_set sw = (\<lambda>(y, x). (int n - 1 - y, x)) ` cells_set area"
    using copyArea_flips [OF a(2), of "n * 2"] a(4,5) by auto
  obtain se where se: "copyArea sw ?new MATRIXOPERATION_MIRROR = Some se" "ma_centerY se = ma_centerY sw mod 2 ^ 32"
    "ma_centerX se = (int (n * 2) - 1 - ma_centerX sw) mod 2 ^ 32" "cells_set se = (\<lambda>(y, x). (y, int (n * 2) - 1 - x)) ` cells_set sw"
    using copyArea_mirrors [OF sw(2), of "n * 2"] sw(3,4) by auto
  have n1: "ma_centerX ne = int n - 1 - ma_centerX area" "ma_centerY ne = ma_centerY area"
    unfolding ne by (rule md; use b in linarith)+
  have s1: "ma_centerX sw = ma_centerX area" "ma_centerY sw = int n - 1 - ma_centerY area"
    unfolding sw by (rule md; use b in linarith)+
  have s2: "ma_centerX se = int (n * 2) - 1 - ma_centerX area" "ma_centerY se = int n - 1 - ma_centerY area"
    unfolding se s1 by (rule md; use b in simp)+
  have c1: "area_cells ne = (\<lambda>(dx, dy). (- dx, dy)) ` area_cells area"
    by (simp add: area_cells_def ne(4) n1 image_image split_beta)
  have c2: "area_cells sw = (\<lambda>(dx, dy). (dx, - dy)) ` area_cells area"
    by (simp add: area_cells_def sw(7) s1 image_image split_beta)
  have c3: "area_cells se = (\<lambda>(dx, dy). (- dx, - dy)) ` area_cells area"
    by (simp add: area_cells_def se(4) sw(7) s2 image_image split_beta)
  let ?c = "put_area DIRECTION_SOUTHEAST se (put_area DIRECTION_SOUTHWEST sw (put_area DIRECTION_NORTHEAST ne
      (put_area DIRECTION_NORTHWEST area (c\<lparr>ac_hasExtArea := True\<rparr>))))"
  have "vals \<noteq> []" using assms(1,2) by auto
  then have "setupExtArea vals n c = Some ?c"
    using ne(1) sw(1) se(1) by (simp add: setupExtArea_def a(1,4,5))
  moreover have "ac_hasExtArea ?c" by (simp add: put_area_def)
  moreover have "ac_areas ?c = (ac_areas c)(DIRECTION_NORTHWEST \<mapsto> area, DIRECTION_NORTHEAST \<mapsto> ne, DIRECTION_SOUTHWEST \<mapsto> sw, DIRECTION_SOUTHEAST \<mapsto> se)"
    by (simp add: put_area_def)
  moreover have "\<exists>m. ((ac_areas c)(DIRECTION_NORTHWEST \<mapsto> area, DIRECTION_NORTHEAST \<mapsto> ne, DIRECTION_SOUTHWEST \<mapsto> sw, DIRECTION_SOUTHEAST \<mapsto> se)) d
      = Some m \<and> area_cells m = (\<lambda>(dx, dy). (sx * dx, sy * dy)) ` list_area vals n"
  proof -
    consider "d = DIRECTION_NORTHWEST" "sx = 1" "sy = 1" | "d = DIRECTION_NORTHEAST" "sx = -1" "sy = 1"
      | "d = DIRECTION_SOUTHWEST" "sx = 1" "sy = -1" | "d = DIRECTION_SOUTHEAST" "sx = -1" "sy = -1"
      using assms(4) by blast
    then show ?thesis by cases (simp_all add: c1 c2 c3 cells)
  qed
  ultimately show ?thesis by metis
qed

text \<open>A diagonal area that is not square is displaced: the centre is mirrored with the number of rows. The cell of the
  centre itself ends up one field away.\<close>

theorem oblong_area_displaced:
  "\<exists>c' m. setupExtArea [3, 1] 1 no_area = Some c' \<and> ac_areas c' DIRECTION_NORTHEAST = Some m
    \<and> area_cells m = {(0, 0), (1, 0)} \<and> list_area [3, 1] 2 = {(0, 0), (1, 0)}"
proof -
  let ?m = "\<lparr>ma_centerX = 0, ma_centerY = 0, ma_rows = 4, ma_cols = 4,
      ma_data = [[True, True, False, False], replicate 4 False, replicate 4 False, replicate 4 False]\<rparr>"
  have "map_option (\<lambda>c. ac_areas c DIRECTION_NORTHEAST) (setupExtArea [3, 1] 1 no_area) = Some (Some ?m)"
    by code_simp
  then obtain c' where c': "setupExtArea [3, 1] 1 no_area = Some c'" "ac_areas c' DIRECTION_NORTHEAST = Some ?m" by auto
  have "cells_set ?m = {(0, 0), (0, 1)}"
  proof -
    have "getValue ?m y x = Some True \<longleftrightarrow> y = 0 \<and> (x = 0 \<or> x = 1)" for y x
    proof (cases "0 \<le> y \<and> y < 4 \<and> 0 \<le> x \<and> x < 4")
      case True
      then have "y \<in> {0, 1, 2, 3}" "x \<in> {0, 1, 2, 3}" by auto
      then show ?thesis by (auto simp: getValue_def nth_Cons' numeral_2_eq_2 numeral_3_eq_3)
    next
      case False
      then show ?thesis by (auto simp: getValue_def)
    qed
    then show ?thesis by (auto simp: cells_set_def)
  qed
  then have "area_cells ?m = {(0, 0), (1, 0)}" by (simp add: area_cells_def)
  moreover have "list_area [3, 1] 2 = {(0, 0), (1, 0)}"
  proof -
    have "j < 2 \<Longrightarrow> j = 0 \<or> j = 1" for j :: nat by auto
    then have "{j. j < length [3, 1 :: nat] \<and> [3, 1 :: nat] ! j \<in> {1, 3}} = {0, 1}" by auto
    then have "list_cells 2 [3, 1] = (\<lambda>j. (int (j div 2), int (j mod 2))) ` {0, 1}" unfolding list_cells_def by blast
    then have "list_cells 2 [3, 1] = {(0, 0), (0, 1)}" by simp
    then show ?thesis by (simp add: list_area_def)
  qed
  ultimately show ?thesis using c' by blast
qed

subsection \<open>Examples\<close>

theorem wave_widens_witness:
  "\<exists>c' m. setupArea_wave 3 1 no_area = Some c' \<and> ac_areas c' DIRECTION_NORTH = Some m \<and> (2, -2) \<in> area_cells m"
proof -
  have "(2, -2) \<in> turn_north DIRECTION_NORTH ` wave_area 3 1"
    by (auto simp: turn_north_def wave_area_def intro: image_eqI [of _ _ "(2, -2)"])
  then show ?thesis using wave_widens [of 3 1] by fastforce
qed

theorem square_area_mirrored_witness:
  "\<exists>c' m. setupExtArea [3] 1 no_area = Some c' \<and> ac_areas c' DIRECTION_SOUTHEAST = Some m \<and> (0, 0) \<in> area_cells m"
proof -
  have "list_area [3] 1 = {(0, 0)}" by (auto simp: list_area_def list_cells_def)
  then show ?thesis using square_area_mirrored [of "[3]" 1 DIRECTION_SOUTHEAST "-1" "-1" no_area] by auto
qed

theorem area_turns_to_target_witness:
  "Position 12 10 7 \<in> set (fst (getList (\<lambda>_ _. True) (the (setupArea [1, 2] 2 no_area)) (Position 9 10 7) (Position 11 10 7) ([], {})))"
proof -
  obtain hit tiles where h: "getList (\<lambda>_ _. True) (the (setupArea [1, 2] 2 no_area)) (Position 9 10 7) (Position 11 10 7) ([], {}) = (hit, tiles)"
    by fastforce
  have "list_cells 1 [1, 2] = {(0, 0)}" by (auto simp: list_cells_def less_Suc_eq)
  then have l: "list_area [1, 2] 1 = {(0, -1)}" by (simp add: list_area_def)
  have d: "area_direction False (Position 9 10 7) (Position 11 10 7) = DIRECTION_EAST"
    by (simp add: area_direction_def getOffsetX_def getX_def Let_def)
  show ?thesis
    using area_turns_to_target [OF _ _ _ _ _ _ h, of 1] unfolding d l h by (simp add: no_area_def turn_north_def at_offset_def)
qed

end
