(* ===== verification/Container.thy ===== *)
theory Container
  imports Item_Attributes "HOL-Library.Monad_Syntax"
begin

text \<open>
  Containers: \<^verbatim>\<open>src/src/container.cpp\<close>, \<^verbatim>\<open>src/src/container.h\<close>, with
  \<^verbatim>\<open>equals\<close>, \<^verbatim>\<open>getWeight\<close> and \<^verbatim>\<open>getTopParent\<close> of
  \<^verbatim>\<open>src/src/item.cpp\<close>. Items, containers, players and tiles are numbers that stand for
  the pointers; each has a parent, and a container lists the items in it and adds up their weight. The
  messages to clients are left out. A climb along the parents is a partial function: that it ends is a
  theorem about stores without cycles.
\<close>

section \<open>Items in a store\<close>

record thing_type =
  tt_weight :: u32
  tt_stackable :: bool
  tt_pickupable :: bool
  tt_moveable :: bool
  tt_pokeball :: bool
  tt_decayTime :: u32
  tt_stopTime :: bool
  tt_decayTo :: int
  tt_saved :: saved_type

record item =
  im_id :: u16
  im_data :: saved_item

record container =
  co_items :: "nat list"
  co_maxSize :: nat
  co_totalWeight :: u32
  co_unlocked :: bool
  co_pokeballs :: "nat list"

text \<open>\<open>is_inbox\<close> and \<open>is_house\<close>: the inboxes and the house tiles; \<open>is_player\<close> gives the players
  with their pokeballs.\<close>

record item_store =
  is_type :: "u16 \<Rightarrow> thing_type"
  is_item :: "nat \<Rightarrow> item option"
  is_parent :: "nat \<Rightarrow> nat option"
  is_container :: "nat \<Rightarrow> container option"
  is_player :: "nat \<Rightarrow> nat list option"
  is_inbox :: "nat \<Rightarrow> bool"
  is_house :: "nat \<Rightarrow> bool"

definition the_item :: "item_store \<Rightarrow> nat \<Rightarrow> item" where
  "the_item s i = (case is_item s i of Some it \<Rightarrow> it | None \<Rightarrow> \<lparr>im_id = 0, im_data = \<lparr>si_count = 0, si_attributes = None\<rparr>\<rparr>)"

definition the_type :: "item_store \<Rightarrow> nat \<Rightarrow> thing_type" where
  "the_type s i = is_type s (im_id (the_item s i))"

definition item_count :: "item_store \<Rightarrow> nat \<Rightarrow> u16" where
  "item_count s i = si_count (im_data (the_item s i))"

text \<open>Equality of items for stacking. The values of custom attributes are compared as pointers: \<open>same\<close> tells
  whether both are the same object.\<close>

definition values_differ :: "bool \<Rightarrow> itemAttrTypes \<Rightarrow> attr_value \<Rightarrow> attr_value \<Rightarrow> bool" where
  "values_differ same type v v' =
     (if isStrAttrType type then attr_string v \<noteq> attr_string v'
      else case (v, v') of (AttrCustom _, AttrCustom _) \<Rightarrow> \<not> same | _ \<Rightarrow> attr_integer v \<noteq> attr_integer v')"

definition equals_attributes :: "bool \<Rightarrow> item_attributes option \<Rightarrow> item_attributes option \<Rightarrow> bool" where
  "equals_attributes same attributes otherAttributes =
     (case attributes of
        None \<Rightarrow> (case otherAttributes of None \<Rightarrow> True | Some b \<Rightarrow> ia_bits b = 0)
      | Some a \<Rightarrow>
          (case otherAttributes of
             None \<Rightarrow> ia_bits a = 0
           | Some b \<Rightarrow>
               if ia_bits a \<noteq> ia_bits b then False
               else \<not> list_ex (\<lambda>(type, v). list_ex (\<lambda>(type', v'). type = type' \<and> values_differ same type v v') (ia_list b)) (ia_list a)))"

definition equals :: "item_store \<Rightarrow> nat \<Rightarrow> nat \<Rightarrow> bool" where
  "equals s i j =
     (im_id (the_item s i) = im_id (the_item s j)
      \<and> equals_attributes (i = j) (si_attributes (im_data (the_item s i))) (si_attributes (im_data (the_item s j))))"

section \<open>Weights\<close>

definition getBaseWeight :: "item_store \<Rightarrow> nat \<Rightarrow> u32" where
  "getBaseWeight s i =
     (if hasAttribute ITEM_ATTRIBUTE_WEIGHT (im_data (the_item s i))
      then ucast (getIntAttr ITEM_ATTRIBUTE_WEIGHT (im_data (the_item s i)))
      else tt_weight (the_type s i))"

definition item_getWeight :: "item_store \<Rightarrow> nat \<Rightarrow> u32" where
  "item_getWeight s i =
     (if tt_stackable (the_type s i) then getBaseWeight s i * max 1 (ucast (item_count s i)) else getBaseWeight s i)"

definition getWeight :: "item_store \<Rightarrow> nat \<Rightarrow> u32" where
  "getWeight s i =
     (case is_container s i of Some c \<Rightarrow> item_getWeight s i + co_totalWeight c | None \<Rightarrow> item_getWeight s i)"

definition map_container :: "nat \<Rightarrow> (container \<Rightarrow> container) \<Rightarrow> item_store \<Rightarrow> item_store" where
  "map_container c f s = s\<lparr>is_container := (is_container s)(c := map_option f (is_container s c))\<rparr>"

definition set_parent :: "nat \<Rightarrow> nat option \<Rightarrow> item_store \<Rightarrow> item_store" where
  "set_parent i p s = s\<lparr>is_parent := (is_parent s)(i := p)\<rparr>"

definition getParentContainer :: "item_store \<Rightarrow> nat \<Rightarrow> nat option" where
  "getParentContainer s c =
     (case is_parent s c of None \<Rightarrow> None | Some p \<Rightarrow> if is_container s p \<noteq> None then Some p else None)"

partial_function (option) updateItemWeight :: "u32 \<Rightarrow> nat \<Rightarrow> item_store \<Rightarrow> item_store option" where
  "updateItemWeight diff c s =
     (let s = map_container c (\<lambda>d. d\<lparr>co_totalWeight := co_totalWeight d + diff\<rparr>) s in
      case getParentContainer s c of
        Some parentContainer \<Rightarrow> updateItemWeight diff parentContainer s
      | None \<Rightarrow> Some s)"

section \<open>Parents\<close>

partial_function (option) climb :: "item_store \<Rightarrow> nat \<Rightarrow> nat \<Rightarrow> nat option" where
  "climb s prevaux aux =
     (case is_parent s aux of None \<Rightarrow> Some prevaux | Some aux' \<Rightarrow> climb s aux aux')"

text \<open>Of a container, which is a cylinder itself.\<close>

definition getTopParent :: "item_store \<Rightarrow> nat \<Rightarrow> nat option" where
  "getTopParent s c = (case is_parent s c of None \<Rightarrow> Some c | Some aux \<Rightarrow> climb s c aux)"

section \<open>Queries\<close>

text \<open>The answers of the queries modelled; \<open>RETURNVALUE_OTHER\<close> stands for any other of the enumeration.\<close>

datatype return_value = RETURNVALUE_NOERROR | RETURNVALUE_NOTPOSSIBLE | RETURNVALUE_NOTENOUGHROOM | RETURNVALUE_CANNOTPICKUP
  | RETURNVALUE_THISISIMPOSSIBLE | RETURNVALUE_CONTAINERNOTENOUGHROOM | RETURNVALUE_NOTMOVEABLE | RETURNVALUE_NEEDEXCHANGE
  | RETURNVALUE_PLAYERISPZLOCKED | RETURNVALUE_PLAYERISPZLOCKEDENTERPVPZONE | RETURNVALUE_PLAYERISPZLOCKEDLEAVEPVPZONE
  | RETURNVALUE_CANNOTTHROW | RETURNVALUE_FIRSTGODOWNSTAIRS | RETURNVALUE_FIRSTGOUPSTAIRS
  | RETURNVALUE_YOUMAYNOTATTACKTHISPLAYER | RETURNVALUE_YOUMAYNOTATTACKTHISCREATURE | RETURNVALUE_YOUMAYNOTATTACKAPERSONINPROTECTIONZONE
  | RETURNVALUE_YOUMAYNOTATTACKAPERSONWHILEINPROTECTIONZONE | RETURNVALUE_ACTIONNOTPERMITTEDINPROTECTIONZONE
  | RETURNVALUE_ACTIONNOTPERMITTEDINANOPVPZONE | RETURNVALUE_TURNSECUREMODETOATTACKUNMARKEDPLAYERS | RETURNVALUE_OTHER nat

record query_flags =
  qf_noLimit :: bool
  qf_childIsOwner :: bool
  qf_ignoreNotMoveable :: bool
  qf_ignoreAutoStack :: bool
  qf_ignoreBlockItem :: bool
  qf_ignoreBlockCreature :: bool
  qf_pathfinding :: bool
  qf_ignoreFieldDamage :: bool

definition no_query_flags :: query_flags where
  "no_query_flags = \<lparr>qf_noLimit = False, qf_childIsOwner = False, qf_ignoreNotMoveable = False, qf_ignoreAutoStack = False,
     qf_ignoreBlockItem = False, qf_ignoreBlockCreature = False, qf_pathfinding = False, qf_ignoreFieldDamage = False\<rparr>"

text \<open>The loop over the cylinders around the container: the first that forbids the item.\<close>

partial_function (option) query_parents :: "item_store \<Rightarrow> bool \<Rightarrow> nat \<Rightarrow> nat \<Rightarrow> return_value option" where
  "query_parents s noLimit thing cyl =
     (if cyl = thing then Some RETURNVALUE_THISISIMPOSSIBLE
      else if \<not> noLimit \<and> is_inbox s cyl then Some RETURNVALUE_CONTAINERNOTENOUGHROOM
      else case is_parent s cyl of None \<Rightarrow> Some RETURNVALUE_NOERROR | Some cyl' \<Rightarrow> query_parents s noLimit thing cyl')"

text \<open>\<open>index\<close> is \<open>None\<close> for \<^verbatim>\<open>INDEX_WHEREEVER\<close>; \<open>ask\<close> is \<^verbatim>\<open>queryAdd\<close> of the
  cylinder around all, asked for its child.\<close>

definition queryAdd ::
  "(nat \<Rightarrow> nat \<Rightarrow> nat \<Rightarrow> query_flags \<Rightarrow> return_value) \<Rightarrow> item_store \<Rightarrow> nat \<Rightarrow> nat option \<Rightarrow> nat \<Rightarrow> nat \<Rightarrow> query_flags
    \<Rightarrow> return_value option" where
  "queryAdd ask s c index thing n flags =
     (case is_container s c of
        None \<Rightarrow> None
      | Some d \<Rightarrow>
          if qf_childIsOwner flags then Some RETURNVALUE_NOERROR
          else if \<not> co_unlocked d then Some RETURNVALUE_NOTPOSSIBLE
          else if is_item s thing = None then Some RETURNVALUE_NOTPOSSIBLE
          else if \<not> tt_pickupable (the_type s thing) then Some RETURNVALUE_CANNOTPICKUP
          else if thing = c then Some RETURNVALUE_THISISIMPOSSIBLE
          else
            do { r \<leftarrow> (case is_parent s c of None \<Rightarrow> Some RETURNVALUE_NOERROR
                        | Some cyl \<Rightarrow> query_parents s (qf_noLimit flags) thing cyl);
                 if r \<noteq> RETURNVALUE_NOERROR then Some r
                 else if \<not> qf_noLimit flags \<and> index = None \<and> length (co_items d) \<ge> co_maxSize d
                 then Some RETURNVALUE_CONTAINERNOTENOUGHROOM
                 else
                   do { topParent \<leftarrow> getTopParent s c;
                        if topParent \<noteq> c then Some (ask topParent thing n (flags\<lparr>qf_childIsOwner := True\<rparr>))
                        else Some RETURNVALUE_NOERROR } })"

definition MAX_ITEM_COUNT :: nat where "MAX_ITEM_COUNT = 10000"

definition getItemByIndex :: "item_store \<Rightarrow> nat \<Rightarrow> nat \<Rightarrow> nat option" where
  "getItemByIndex s c index =
     (case is_container s c of
        Some d \<Rightarrow> if index \<ge> length (co_items d) then None else Some (co_items d ! index)
      | None \<Rightarrow> None)"

text \<open>The room on the stacks of the container: each stack that accepts what it lacks.\<close>

fun stack_room ::
  "(nat \<Rightarrow> nat \<Rightarrow> return_value option) \<Rightarrow> item_store \<Rightarrow> nat \<Rightarrow> nat list \<Rightarrow> nat \<Rightarrow> nat option" where
  "stack_room query s item [] slotIndex = Some 0"
| "stack_room query s item (i # is) slotIndex =
     (if i \<noteq> item \<and> equals s i item \<and> unat (item_count s i) < MAX_ITEM_COUNT then
        do { let remainder = MAX_ITEM_COUNT - unat (item_count s i);
             r \<leftarrow> query slotIndex remainder;
             n \<leftarrow> stack_room query s item is (slotIndex + 1);
             Some ((if r = RETURNVALUE_NOERROR then remainder else 0) + n) }
      else stack_room query s item is slotIndex)"

definition queryMaxCount ::
  "(nat \<Rightarrow> nat \<Rightarrow> nat \<Rightarrow> query_flags \<Rightarrow> return_value) \<Rightarrow> item_store \<Rightarrow> nat \<Rightarrow> nat option \<Rightarrow> nat \<Rightarrow> nat \<Rightarrow> query_flags
    \<Rightarrow> (return_value \<times> nat) option" where
  "queryMaxCount ask s c index item n flags =
     (case is_container s c of
        None \<Rightarrow> None
      | Some d \<Rightarrow>
          if is_item s item = None then Some (RETURNVALUE_NOTPOSSIBLE, 0)
          else if qf_noLimit flags then Some (RETURNVALUE_NOERROR, max 1 n)
          else
            (let freeSlots = co_maxSize d - length (co_items d) in
             if tt_stackable (the_type s item) then
               do { stacks \<leftarrow>
                      (case index of
                         None \<Rightarrow> stack_room (\<lambda>slot remainder. queryAdd ask s c (Some slot) item remainder flags) s item (co_items d) 0
                       | Some k \<Rightarrow>
                           (case getItemByIndex s c k of
                              Some destItem \<Rightarrow>
                                if equals s item destItem \<and> unat (item_count s destItem) < MAX_ITEM_COUNT then
                                  do { let remainder = MAX_ITEM_COUNT - unat (item_count s destItem);
                                       r \<leftarrow> queryAdd ask s c index item remainder flags;
                                       Some (if r = RETURNVALUE_NOERROR then remainder else 0) }
                                else Some 0
                            | None \<Rightarrow> Some 0));
                    let maxQueryCount = freeSlots * MAX_ITEM_COUNT + stacks;
                    Some (if maxQueryCount < n then RETURNVALUE_CONTAINERNOTENOUGHROOM else RETURNVALUE_NOERROR, maxQueryCount) }
             else Some (if freeSlots = 0 then RETURNVALUE_CONTAINERNOTENOUGHROOM else RETURNVALUE_NOERROR, freeSlots)))"

fun index_of :: "nat \<Rightarrow> nat list \<Rightarrow> nat option" where
  "index_of thing [] = None"
| "index_of thing (i # is) = (if i = thing then Some 0 else map_option Suc (index_of thing is))"

definition getThingIndex :: "item_store \<Rightarrow> nat \<Rightarrow> nat \<Rightarrow> nat option" where
  "getThingIndex s c thing = (case is_container s c of Some d \<Rightarrow> index_of thing (co_items d) | None \<Rightarrow> None)"

definition queryRemove ::
  "(nat \<Rightarrow> nat \<Rightarrow> nat \<Rightarrow> query_flags \<Rightarrow> return_value) \<Rightarrow> item_store \<Rightarrow> nat \<Rightarrow> nat \<Rightarrow> nat \<Rightarrow> query_flags \<Rightarrow> return_value option" where
  "queryRemove houseRemove s c thing n flags =
     (if getThingIndex s c thing = None then Some RETURNVALUE_NOTPOSSIBLE
      else if is_item s thing = None then Some RETURNVALUE_NOTPOSSIBLE
      else if n = 0 \<or> tt_stackable (the_type s thing) \<and> n > unat (item_count s thing) then Some RETURNVALUE_NOTPOSSIBLE
      else if \<not> tt_moveable (the_type s thing) \<and> \<not> qf_ignoreNotMoveable flags then Some RETURNVALUE_NOTMOVEABLE
      else
        do { top \<leftarrow> getTopParent s c;
             if is_house s top then Some (houseRemove top thing n flags) else Some RETURNVALUE_NOERROR })"

text \<open>The cylinder, the index in it and the item there, if any. \<open>index\<close> is what the client sent.\<close>

definition container_queryDestination :: "item_store \<Rightarrow> nat \<Rightarrow> nat option \<Rightarrow> nat \<Rightarrow> query_flags \<Rightarrow> nat \<times> nat option \<times> nat option" where
  "container_queryDestination s c index thing flags =
     (case is_container s c of
        None \<Rightarrow> (c, index, None)
      | Some d \<Rightarrow>
          if \<not> co_unlocked d then (c, index, None)
          else if index = Some 254 then (case getParentContainer s c of Some p \<Rightarrow> (p, None, None) | None \<Rightarrow> (c, None, None))
          else
            (let index = (case index of None \<Rightarrow> None | Some k \<Rightarrow> if k = 255 \<or> k \<ge> co_maxSize d then None else Some k) in
             if is_item s thing = None then (c, index, None)
             else
               (let destItem = (case index of None \<Rightarrow> None | Some k \<Rightarrow> getItemByIndex s c k) in
                case (case destItem of Some i \<Rightarrow> if is_container s i \<noteq> None then Some i else None | None \<Rightarrow> None) of
                  Some subCylinder \<Rightarrow> (subCylinder, None, None)
                | None \<Rightarrow>
                    if \<not> qf_ignoreAutoStack flags \<and> tt_stackable (the_type s thing) \<and> is_parent s thing \<noteq> Some c then
                      (if (case destItem of Some i \<Rightarrow> equals s i thing \<and> unat (item_count s i) < 100 | None \<Rightarrow> False) then (c, index, destItem)
                       else case List.find (\<lambda>n. let i = co_items d ! n in
                                 i \<noteq> thing \<and> equals s i thing \<and> unat (item_count s i) < MAX_ITEM_COUNT) [0..<length (co_items d)] of
                           Some n \<Rightarrow> (c, Some n, Some (co_items d ! n))
                         | None \<Rightarrow> (c, index, destItem))
                    else (c, index, destItem))))"

section \<open>Changes\<close>

definition top_player :: "item_store \<Rightarrow> nat \<Rightarrow> nat option option" where
  "top_player s c = do { t \<leftarrow> getTopParent s c; Some (if is_player s t \<noteq> None then Some t else None) }"

definition map_balls :: "(nat list \<Rightarrow> nat list) \<Rightarrow> nat option \<Rightarrow> nat \<Rightarrow> item_store \<Rightarrow> item_store" where
  "map_balls f player c s =
     (let s = (case player of
                 Some p \<Rightarrow> s\<lparr>is_player := (is_player s)(p := map_option f (is_player s p))\<rparr>
               | None \<Rightarrow> s)
      in map_container c (\<lambda>d. d\<lparr>co_pokeballs := f (co_pokeballs d)\<rparr>) s)"

definition insertPokeball :: "nat option \<Rightarrow> nat \<Rightarrow> nat \<Rightarrow> item_store \<Rightarrow> item_store" where
  "insertPokeball player c ball = map_balls (\<lambda>balls. balls @ [ball]) player c"

definition removeBallFromCache :: "nat option \<Rightarrow> nat \<Rightarrow> nat \<Rightarrow> item_store \<Rightarrow> item_store" where
  "removeBallFromCache player c ball = map_balls (remove1 ball) player c"

text \<open>A pokeball itself, or the pokeballs that a container has seen.\<close>

definition the_balls :: "item_store \<Rightarrow> nat \<Rightarrow> nat list" where
  "the_balls s i =
     (if tt_pokeball (the_type s i) then [i]
      else case is_container s i of Some d \<Rightarrow> co_pokeballs d | None \<Rightarrow> [])"

definition container_addItem :: "bool \<Rightarrow> nat \<Rightarrow> nat \<Rightarrow> item_store \<Rightarrow> item_store" where
  "container_addItem front c i s =
     map_container c (\<lambda>d. d\<lparr>co_items := (if front then i # co_items d else co_items d @ [i])\<rparr>) (set_parent i (Some c) s)"

definition internalAddThing :: "nat \<Rightarrow> nat \<Rightarrow> item_store \<Rightarrow> item_store option" where
  "internalAddThing c i s =
     (if is_item s i = None then Some s
      else
        do { let s = container_addItem True c i s;
             s \<leftarrow> updateItemWeight (getWeight s i) c s;
             player \<leftarrow> top_player s c;
             Some (fold (insertPokeball player c) (the_balls s i) s) })"

definition addThing :: "nat \<Rightarrow> nat option \<Rightarrow> nat \<Rightarrow> item_store \<Rightarrow> item_store option" where
  "addThing c index i s =
     (case is_container s c of
        None \<Rightarrow> None
      | Some d \<Rightarrow> if (case index of Some k \<Rightarrow> k \<ge> co_maxSize d | None \<Rightarrow> False) then Some s else internalAddThing c i s)"

definition addItemBack :: "nat \<Rightarrow> nat \<Rightarrow> item_store \<Rightarrow> item_store option" where
  "addItemBack c i s = (let s = container_addItem False c i s in updateItemWeight (getWeight s i) c s)"

definition set_item :: "nat \<Rightarrow> (item \<Rightarrow> item) \<Rightarrow> item_store \<Rightarrow> item_store" where
  "set_item i f s = s\<lparr>is_item := (is_item s)(i := map_option f (is_item s i))\<rparr>"

definition removeAttribute :: "itemAttrTypes \<Rightarrow> saved_item \<Rightarrow> saved_item" where
  "removeAttribute type i = i\<lparr>si_attributes := map_option (attr_removeAttribute type) (si_attributes i)\<rparr>"

definition setID :: "(u16 \<Rightarrow> thing_type) \<Rightarrow> u16 \<Rightarrow> item \<Rightarrow> item" where
  "setID types newid im =
     (let prevIt = types (im_id im); it = types newid; newDuration = tt_decayTime it * 1000; i = im_data im;
          i = (if newDuration = 0 \<and> \<not> tt_stopTime it \<and> tt_decayTo it < 0
               then removeAttribute ITEM_ATTRIBUTE_DURATION (removeAttribute ITEM_ATTRIBUTE_DECAYSTATE i) else i);
          i = removeAttribute ITEM_ATTRIBUTE_CORPSEOWNER i;
          i = (if newDuration > 0 \<and> (\<not> tt_stopTime prevIt \<or> \<not> hasAttribute ITEM_ATTRIBUTE_DURATION i)
               then setIntAttr ITEM_ATTRIBUTE_DURATION (scast newDuration) (setIntAttr ITEM_ATTRIBUTE_DECAYSTATE (ucast DECAYING_FALSE) i)
               else i)
      in im\<lparr>im_id := newid, im_data := i\<rparr>)"

definition updateThing :: "nat \<Rightarrow> nat \<Rightarrow> u16 \<Rightarrow> u16 \<Rightarrow> item_store \<Rightarrow> item_store option" where
  "updateThing c i itemId n s =
     (if getThingIndex s c i = None then Some s
      else if is_item s i = None then Some s
      else
        (let oldWeight = getWeight s i;
             s = set_item i (setID (is_type s) itemId) s;
             s = set_item i (\<lambda>it. it\<lparr>im_data := setSubType (tt_saved (is_type s (im_id it))) n (im_data it)\<rparr>) s
         in updateItemWeight (- oldWeight + getWeight s i) c s))"

definition replaceThing :: "nat \<Rightarrow> nat \<Rightarrow> nat \<Rightarrow> item_store \<Rightarrow> item_store option" where
  "replaceThing c index i s =
     (if is_item s i = None then Some s
      else case getItemByIndex s c index of
          None \<Rightarrow> Some s
        | Some replacedItem \<Rightarrow>
            do { let s = set_parent i (Some c) (map_container c (\<lambda>d. d\<lparr>co_items := (co_items d)[index := i]\<rparr>) s);
                 s \<leftarrow> updateItemWeight (- getWeight s replacedItem + getWeight s i) c s;
                 Some (set_parent replacedItem None s) })"

definition removeThing :: "nat \<Rightarrow> nat \<Rightarrow> nat \<Rightarrow> item_store \<Rightarrow> item_store option" where
  "removeThing c i n s =
     (if is_item s i = None then Some s
      else if getThingIndex s c i = None then Some s
      else if tt_stackable (the_type s i) \<and> n \<noteq> unat (item_count s i) then
        (let newCount = of_nat (unat (item_count s i) - n) :: u16;
             oldWeight = getWeight s i;
             s = set_item i (\<lambda>it. it\<lparr>im_data := setItemCount newCount (im_data it)\<rparr>) s
         in updateItemWeight (- oldWeight + getWeight s i) c s)
      else
        do { s \<leftarrow> updateItemWeight (- getWeight s i) c s;
             let s = map_container c (\<lambda>d. d\<lparr>co_items := remove1 i (co_items d)\<rparr>) (set_parent i None s);
             player \<leftarrow> top_player s c;
             Some (fold (removeBallFromCache player c) (the_balls s i) s) })"

section \<open>Iteration\<close>

text \<open>The containers still to visit and what is left of the first of them.\<close>

type_synonym container_iterator = "nat list \<times> nat list"

definition items_of :: "item_store \<Rightarrow> nat \<Rightarrow> nat list" where
  "items_of s c = (case is_container s c of Some d \<Rightarrow> co_items d | None \<Rightarrow> [])"

definition iterator :: "item_store \<Rightarrow> nat \<Rightarrow> container_iterator" where
  "iterator s c = (if items_of s c \<noteq> [] then ([c], items_of s c) else ([], []))"

definition hasNext :: "container_iterator \<Rightarrow> bool" where
  "hasNext it \<longleftrightarrow> fst it \<noteq> []"

definition advance :: "item_store \<Rightarrow> container_iterator \<Rightarrow> container_iterator" where
  "advance s = (\<lambda>(over, cur).
     let over = (if items_of s (hd cur) \<noteq> [] then over @ [hd cur] else over);
         cur = tl cur
     in if cur = []
        then (let over = tl over in (over, if over \<noteq> [] then items_of s (hd over) else []))
        else (over, cur))"

partial_function (option) iterate :: "item_store \<Rightarrow> container_iterator \<Rightarrow> nat list option" where
  "iterate s it = (if hasNext it then do { rest \<leftarrow> iterate s (advance s it); Some (hd (snd it) # rest) } else Some [])"

definition getItems :: "item_store \<Rightarrow> nat \<Rightarrow> bool \<Rightarrow> nat list option" where
  "getItems s c recursive = (if recursive then iterate s (iterator s c) else Some (items_of s c))"

definition getItemHoldingCount :: "item_store \<Rightarrow> nat \<Rightarrow> nat option" where
  "getItemHoldingCount s c = map_option length (iterate s (iterator s c))"

partial_function (option) holding :: "item_store \<Rightarrow> nat \<Rightarrow> container_iterator \<Rightarrow> bool option" where
  "holding s i it =
     (if hasNext it then (if hd (snd it) = i then Some True else holding s i (advance s it)) else Some False)"

definition isHoldingItem :: "item_store \<Rightarrow> nat \<Rightarrow> nat \<Rightarrow> bool option" where
  "isHoldingItem s c i = holding s i (iterator s c)"

definition countByType :: "item_store \<Rightarrow> nat \<Rightarrow> u16 option \<Rightarrow> nat" where
  "countByType s i subType =
     (if subType = None \<or> subType = Some (getSubType (tt_saved (the_type s i)) (im_data (the_item s i)))
      then unat (item_count s i) else 0)"

definition getItemTypeCount :: "item_store \<Rightarrow> nat \<Rightarrow> u16 \<Rightarrow> u16 option \<Rightarrow> nat" where
  "getItemTypeCount s c itemId subType =
     sum_list (map (\<lambda>i. countByType s i subType) (filter (\<lambda>i. im_id (the_item s i) = itemId) (items_of s c)))"

section \<open>Stores in order\<close>

text \<open>The parents have no cycle, and a container lists exactly the things that have it as their parent.\<close>

definition parent_rel :: "item_store \<Rightarrow> (nat \<times> nat) set" where
  "parent_rel s = {(p, x). is_parent s x = Some p}"

definition store_ok :: "item_store \<Rightarrow> bool" where
  "store_ok s \<longleftrightarrow> wf (parent_rel s) \<and> (\<forall>c. is_container s c \<noteq> None \<longrightarrow>
     distinct (items_of s c) \<and> (\<forall>i. i \<in> set (items_of s c) \<longleftrightarrow> is_parent s i = Some c))"

definition total :: "item_store \<Rightarrow> nat \<Rightarrow> u32" where
  "total s c = (case is_container s c of Some d \<Rightarrow> co_totalWeight d | None \<Rightarrow> 0)"

definition content_weight :: "item_store \<Rightarrow> nat \<Rightarrow> u32" where
  "content_weight s c = sum_list (map (getWeight s) (items_of s c))"

definition weights_ok :: "item_store \<Rightarrow> bool" where
  "weights_ok s \<longleftrightarrow> (\<forall>c. is_container s c \<noteq> None \<longrightarrow> total s c = content_weight s c)"

text \<open>All weights are right but that of one container, which lacks a difference.\<close>

definition weights_off :: "item_store \<Rightarrow> nat \<Rightarrow> u32 \<Rightarrow> bool" where
  "weights_off s c diff \<longleftrightarrow> (\<forall>y. is_container s y \<noteq> None \<longrightarrow> total s y + (if y = c then diff else 0) = content_weight s y)"

text \<open>Stores that differ in the total weights only.\<close>

definition reweigh :: "(nat \<Rightarrow> u32) \<Rightarrow> item_store \<Rightarrow> item_store" where
  "reweigh f s = s\<lparr>is_container := (\<lambda>y. map_option (\<lambda>d. d\<lparr>co_totalWeight := f y\<rparr>) (is_container s y))\<rparr>"

lemma reweigh_reweigh [simp]: "reweigh f (reweigh g s) = reweigh f s"
  by (simp add: reweigh_def option.map_comp o_def)

lemma reweigh_simps [simp]:
  "is_parent (reweigh f s) = is_parent s" "is_item (reweigh f s) = is_item s" "is_type (reweigh f s) = is_type s"
  "is_player (reweigh f s) = is_player s" "is_inbox (reweigh f s) = is_inbox s" "is_house (reweigh f s) = is_house s"
  "parent_rel (reweigh f s) = parent_rel s" "items_of (reweigh f s) = items_of s" "item_getWeight (reweigh f s) = item_getWeight s"
  "is_container (reweigh f s) c = map_option (\<lambda>d. d\<lparr>co_totalWeight := f c\<rparr>) (is_container s c)"
  "the_item (reweigh f s) = the_item s" "the_type (reweigh f s) = the_type s"
  by (auto simp: reweigh_def parent_rel_def items_of_def item_getWeight_def getBaseWeight_def the_item_def the_type_def
      item_count_def fun_eq_iff split: option.split)

lemma store_ok_reweigh [simp]: "store_ok (reweigh f s) = store_ok s"
  by (simp add: store_ok_def)

lemma total_reweigh [simp]: "total (reweigh f s) c = (if is_container s c = None then 0 else f c)"
  by (auto simp: total_def)

lemma add_weight: "map_container c (\<lambda>d. d\<lparr>co_totalWeight := co_totalWeight d + v\<rparr>) s = reweigh ((total s)(c := total s c + v)) s"
proof -
  have "is_container (map_container c (\<lambda>d. d\<lparr>co_totalWeight := co_totalWeight d + v\<rparr>) s)
    = is_container (reweigh ((total s)(c := total s c + v)) s)"
    by (rule ext) (auto simp: map_container_def total_def split: option.split)
  then show ?thesis by (simp add: map_container_def reweigh_def)
qed

lemma getWeight_total: "getWeight s i = item_getWeight s i + total s i"
  by (simp add: getWeight_def total_def split: option.split)

lemma sum_list_one:
  "distinct xs \<Longrightarrow> sum_list (map (\<lambda>i. f i + (if i = c then v else 0)) xs) = sum_list (map f xs) + (if c \<in> set xs then v else (0 :: u32))"
  by (induction xs) auto

text \<open>The weights become right on the way up.\<close>

lemma weight_step:
  assumes "store_ok s" "weights_off s c v" "is_container s c \<noteq> None"
  defines "s1 \<equiv> reweigh ((total s)(c := total s c + v)) s"
  shows "(getParentContainer s1 c = None \<longrightarrow> weights_ok s1) \<and> (\<forall>p. getParentContainer s1 c = Some p \<longrightarrow> weights_off s1 p v)"
proof -
  have g: "getWeight s1 i = getWeight s i + (if i = c then v else 0)" for i
    using assms(3) by (auto simp: s1_def getWeight_total) (simp add: total_def)
  have w: "total s1 y + (if c \<in> set (items_of s y) then v else 0) = content_weight s1 y" if y: "is_container s1 y \<noteq> None" for y
  proof -
    have y: "is_container s y \<noteq> None" using y by (simp add: s1_def)
    then have "distinct (items_of s y)" using assms(1) by (simp add: store_ok_def)
    then have "content_weight s1 y = content_weight s y + (if c \<in> set (items_of s y) then v else 0)"
      unfolding content_weight_def g by (simp add: s1_def sum_list_one)
    moreover have "total s1 y = total s y + (if y = c then v else 0)" using y by (auto simp: s1_def)
    ultimately show ?thesis using assms(2) y unfolding weights_off_def by auto
  qed
  have p: "c \<in> set (items_of s y) \<longleftrightarrow> getParentContainer s1 c = Some y" if "is_container s1 y \<noteq> None" for y
    using assms(1) that by (auto simp: s1_def store_ok_def getParentContainer_def split: option.splits)
  show ?thesis
  proof (intro conjI impI allI)
    assume "getParentContainer s1 c = None"
    then show "weights_ok s1" using w p unfolding weights_ok_def by fastforce
  next
    fix q
    assume "getParentContainer s1 c = Some q"
    then show "weights_off s1 q v" using w p unfolding weights_off_def by fastforce
  qed
qed

lemma update_weight:
  assumes "store_ok s" "weights_off s c v" "is_container s c \<noteq> None"
  shows "\<exists>f. updateItemWeight v c s = Some (reweigh f s) \<and> weights_ok (reweigh f s)"
proof -
  have "wf (parent_rel s)" using assms(1) by (simp add: store_ok_def)
  moreover have "parent_rel s' = parent_rel s \<Longrightarrow> store_ok s' \<Longrightarrow> weights_off s' c v \<Longrightarrow> is_container s' c \<noteq> None
      \<Longrightarrow> \<exists>f. updateItemWeight v c s' = Some (reweigh f s') \<and> weights_ok (reweigh f s')" if "wf (parent_rel s)" for s'
    using that
  proof (induction c arbitrary: s' rule: wf_induct_rule)
    case (less c)
    let ?s = "reweigh ((total s')(c := total s' c + v)) s'"
    note step = weight_step [OF less.prems(2-4)]
    have u: "updateItemWeight v c s' = (case getParentContainer ?s c of Some p \<Rightarrow> updateItemWeight v p ?s | None \<Rightarrow> Some ?s)"
      by (subst updateItemWeight.simps) (simp add: add_weight Let_def)
    show ?case
    proof (cases "getParentContainer ?s c")
      case None
      then show ?thesis using step u by auto
    next
      case (Some p)
      then have "(p, c) \<in> parent_rel s" "is_container ?s p \<noteq> None"
        using less.prems(1) by (auto simp: getParentContainer_def parent_rel_def split: option.splits if_splits)
      then have "\<exists>f. updateItemWeight v p ?s = Some (reweigh f ?s) \<and> weights_ok (reweigh f ?s)"
        using less.prems step Some by (intro less.IH) auto
      then show ?thesis using u Some by auto
    qed
  qed
  ultimately show ?thesis using assms by blast
qed

section \<open>Climbing\<close>

lemma parent_in: "is_parent s x = Some p \<Longrightarrow> (p, x) \<in> parent_rel s"
  by (simp add: parent_rel_def)

lemma climb_some:
  assumes "wf (parent_rel s)"
  shows "\<exists>t. climb s prevaux aux = Some t"
  using assms
proof (induction aux arbitrary: prevaux rule: wf_induct_rule)
  case (less aux)
  show ?case
  proof (cases "is_parent s aux")
    case None
    then show ?thesis by (subst climb.simps) simp
  next
    case (Some p)
    then obtain t where "climb s aux p = Some t" using less parent_in by blast
    then show ?thesis using Some by (subst climb.simps) simp
  qed
qed

lemma getTopParent_some: "wf (parent_rel s) \<Longrightarrow> \<exists>t. getTopParent s c = Some t"
  unfolding getTopParent_def using climb_some by (auto split: option.split)

lemma top_player_some: "wf (parent_rel s) \<Longrightarrow> \<exists>t. top_player s c = Some t"
  unfolding top_player_def using getTopParent_some [of s c] by auto

text \<open>A walk up that meets neither the thing nor an inbox has left all ancestors behind.\<close>

lemma query_parents_some:
  assumes "wf (parent_rel s)"
  shows "\<exists>r. query_parents s nl thing cyl = Some r
    \<and> (r = RETURNVALUE_NOERROR \<longrightarrow> (thing, cyl) \<notin> (parent_rel s)\<^sup>* \<and> (nl \<or> (\<forall>x. (x, cyl) \<in> (parent_rel s)\<^sup>* \<longrightarrow> \<not> is_inbox s x)))
    \<and> (r \<noteq> RETURNVALUE_NOERROR \<longrightarrow> r = RETURNVALUE_THISISIMPOSSIBLE \<and> (thing, cyl) \<in> (parent_rel s)\<^sup>*
         \<or> r = RETURNVALUE_CONTAINERNOTENOUGHROOM \<and> \<not> nl \<and> (\<exists>x. (x, cyl) \<in> (parent_rel s)\<^sup>* \<and> is_inbox s x))"
  using assms
proof (induction cyl rule: wf_induct_rule)
  case (less cyl)
  have up: "(x, cyl) \<in> (parent_rel s)\<^sup>* \<longleftrightarrow> x = cyl \<or> (\<exists>p. is_parent s cyl = Some p \<and> (x, p) \<in> (parent_rel s)\<^sup>*)" for x
    unfolding parent_rel_def by (auto elim: rtranclE intro: rtrancl_into_rtrancl)
  have e: "query_parents s nl thing cyl
    = (if cyl = thing then Some RETURNVALUE_THISISIMPOSSIBLE
       else if \<not> nl \<and> is_inbox s cyl then Some RETURNVALUE_CONTAINERNOTENOUGHROOM
       else case is_parent s cyl of None \<Rightarrow> Some RETURNVALUE_NOERROR | Some p \<Rightarrow> query_parents s nl thing p)"
    by (rule query_parents.simps)
  show ?case
  proof (cases "cyl = thing \<or> \<not> nl \<and> is_inbox s cyl")
    case True
    then show ?thesis unfolding e by auto
  next
    case False
    show ?thesis
    proof (cases "is_parent s cyl")
      case None
      then show ?thesis using False unfolding e up by auto
    next
      case (Some p)
      then have e': "query_parents s nl thing cyl = query_parents s nl thing p" using False unfolding e by auto
      obtain r where "query_parents s nl thing p = Some r"
        "r = RETURNVALUE_NOERROR \<longrightarrow> (thing, p) \<notin> (parent_rel s)\<^sup>* \<and> (nl \<or> (\<forall>x. (x, p) \<in> (parent_rel s)\<^sup>* \<longrightarrow> \<not> is_inbox s x))"
        "r \<noteq> RETURNVALUE_NOERROR \<longrightarrow> r = RETURNVALUE_THISISIMPOSSIBLE \<and> (thing, p) \<in> (parent_rel s)\<^sup>*
           \<or> r = RETURNVALUE_CONTAINERNOTENOUGHROOM \<and> \<not> nl \<and> (\<exists>x. (x, p) \<in> (parent_rel s)\<^sup>* \<and> is_inbox s x)"
        using less.IH [OF parent_in [OF Some]] less.prems by blast
      then show ?thesis using False Some unfolding e' up by auto
    qed
  qed
qed

section \<open>What the changes keep\<close>

definition skeleton :: "item_store \<Rightarrow> (nat \<Rightarrow> nat option) \<times> (nat \<Rightarrow> nat list) \<times> (nat \<Rightarrow> u32) \<times> (nat \<Rightarrow> u32) \<times> (nat \<Rightarrow> bool) \<times> (nat \<Rightarrow> item option)" where
  "skeleton s = (is_parent s, items_of s, total s, item_getWeight s, \<lambda>c. is_container s c = None, is_item s)"

lemma skeleton_ok: "skeleton s' = skeleton s \<Longrightarrow> (store_ok s' \<longleftrightarrow> store_ok s) \<and> (weights_ok s' \<longleftrightarrow> weights_ok s)"
  unfolding skeleton_def store_ok_def weights_ok_def content_weight_def getWeight_total parent_rel_def
  by (simp add: fun_eq_iff)

lemma skeleton_balls: "skeleton (map_balls f player c s) = skeleton s"
  by (auto simp: skeleton_def map_balls_def map_container_def items_of_def total_def item_getWeight_def getBaseWeight_def the_item_def
      the_type_def item_count_def fun_eq_iff Let_def split: option.split)

lemma skeleton_fold_balls:
  "skeleton (fold (insertPokeball player c) balls s) = skeleton s" "skeleton (fold (removeBallFromCache player c) balls s) = skeleton s"
  by (induction balls arbitrary: s) (simp_all add: insertPokeball_def removeBallFromCache_def skeleton_balls)

lemma item_maps [simp]:
  "item_getWeight (map_container c f s) = item_getWeight s" "item_getWeight (set_parent i p s) = item_getWeight s"
  "is_parent (map_container c f s) = is_parent s" "is_parent (set_parent i p s) = (is_parent s)(i := p)"
  "is_container (set_parent i p s) = is_container s" "items_of (set_parent i p s) = items_of s" "total (set_parent i p s) = total s"
  "is_container (map_container c f s) y = (if y = c then map_option f (is_container s c) else is_container s y)"
  "is_item (map_container c f s) = is_item s" "is_item (set_parent i p s) = is_item s"
  by (auto simp: map_container_def set_parent_def item_getWeight_def getBaseWeight_def the_item_def the_type_def item_count_def
      items_of_def total_def fun_eq_iff)

lemma total_items: "total (map_container c (\<lambda>d. d\<lparr>co_items := g (co_items d)\<rparr>) s) = total s"
  by (auto simp: total_def fun_eq_iff split: option.split)

lemma items_of_items:
  "items_of (map_container c (\<lambda>d. d\<lparr>co_items := g (co_items d)\<rparr>) s) y = (if y = c \<and> is_container s c \<noteq> None then g (items_of s c) else items_of s y)"
  by (auto simp: items_of_def split: option.split)

lemma getWeight_items:
  "getWeight (map_container c (\<lambda>d. d\<lparr>co_items := g (co_items d)\<rparr>) s) = getWeight s" "getWeight (set_parent i p s) = getWeight s"
  by (simp_all add: getWeight_total total_items fun_eq_iff)

text \<open>Putting an item where nothing holds it.\<close>

lemma container_addItem_ok:
  assumes "store_ok s" "weights_ok s" "is_container s c \<noteq> None" "is_parent s i = None" "(i, c) \<notin> (parent_rel s)\<^sup>*"
  shows "store_ok (container_addItem front c i s) \<and> weights_off (container_addItem front c i s) c (getWeight s i)
    \<and> is_container (container_addItem front c i s) c \<noteq> None \<and> getWeight (container_addItem front c i s) = getWeight s
    \<and> (\<forall>y. is_container (container_addItem front c i s) y = None \<longleftrightarrow> is_container s y = None)"
proof -
  let ?g = "\<lambda>xs. if front then i # xs else xs @ [i]"
  let ?s = "map_container c (\<lambda>d. d\<lparr>co_items := ?g (co_items d)\<rparr>) (set_parent i (Some c) s)"
  have s: "container_addItem front c i s = ?s" by (simp add: container_addItem_def)
  have r: "parent_rel ?s = insert (c, i) (parent_rel s)"
    using assms(4) by (auto simp: parent_rel_def)
  have items: "items_of ?s y = (if y = c then ?g (items_of s c) else items_of s y)" for y
    using assms(3) items_of_items [of c ?g "set_parent i (Some c) s" y] by simp
  have none: "is_container ?s y = None \<longleftrightarrow> is_container s y = None" for y by simp
  have new: "i \<notin> set (items_of s y)" if "is_container s y \<noteq> None" for y
    using assms(1,4) that by (auto simp: store_ok_def)
  have "wf (parent_rel ?s)" unfolding r wf_insert using assms(1,5) by (simp add: store_ok_def)
  moreover have "distinct (items_of ?s y) \<and> (\<forall>j. j \<in> set (items_of ?s y) \<longleftrightarrow> is_parent ?s j = Some y)" if "is_container s y \<noteq> None" for y
    using assms(1) that new [OF that] unfolding items by (auto simp: store_ok_def)
  ultimately have 1: "store_ok ?s" unfolding store_ok_def none by blast
  have w: "getWeight ?s = getWeight s"
    using getWeight_items(1) [of c ?g "set_parent i (Some c) s"] getWeight_items(2) [of i "Some c" s] by simp
  have t: "total ?s = total s" using total_items [of c ?g "set_parent i (Some c) s"] by simp
  have "content_weight ?s y = content_weight s y + (if y = c then getWeight s i else 0)" for y
    unfolding content_weight_def items w by simp
  then have 2: "weights_off ?s c (getWeight s i)" using assms(2) unfolding weights_off_def weights_ok_def none t by simp
  show ?thesis unfolding s using 1 2 w none assms(3) by auto
qed

lemma addThing_ok:
  assumes "store_ok s" "weights_ok s" "is_container s c \<noteq> None" "is_parent s i = None" "(i, c) \<notin> (parent_rel s)\<^sup>*"
  shows "\<exists>s'. internalAddThing c i s = Some s' \<and> store_ok s' \<and> weights_ok s'
    \<and> (is_item s i \<noteq> None \<longrightarrow> items_of s' c = i # items_of s c)"
proof (cases "is_item s i = None")
  case False
  let ?s = "container_addItem True c i s"
  note a = container_addItem_ok [OF assms, of True]
  obtain f where f: "updateItemWeight (getWeight ?s i) c ?s = Some (reweigh f ?s)" "weights_ok (reweigh f ?s)"
    using update_weight [of ?s c "getWeight s i"] a by (metis (no_types, lifting))
  have ok: "store_ok (reweigh f ?s)" using a by simp
  then obtain player where p: "top_player (reweigh f ?s) c = Some player" using top_player_some unfolding store_ok_def by blast
  let ?r = "fold (insertPokeball player c) (the_balls (reweigh f ?s) i) (reweigh f ?s)"
  have "internalAddThing c i s = Some ?r"
    unfolding internalAddThing_def Let_def if_not_P [OF False] f(1) Option.bind.bind_lunit p ..
  moreover have "items_of ?r c = i # items_of s c"
    using skeleton_fold_balls(1) [of player c "the_balls (reweigh f ?s) i" "reweigh f ?s"] assms(3)
    by (auto simp: skeleton_def container_addItem_def items_of_def split: option.splits)
  ultimately show ?thesis using skeleton_ok [OF skeleton_fold_balls(1)] ok f(2) by blast
qed (use assms in \<open>simp add: internalAddThing_def\<close>)

lemma addItemBack_ok:
  assumes "store_ok s" "weights_ok s" "is_container s c \<noteq> None" "is_parent s i = None" "(i, c) \<notin> (parent_rel s)\<^sup>*"
  shows "\<exists>s'. addItemBack c i s = Some s' \<and> store_ok s' \<and> weights_ok s'"
proof -
  note a = container_addItem_ok [OF assms, of False]
  then obtain f where "updateItemWeight (getWeight s i) c (container_addItem False c i s) = Some (reweigh f (container_addItem False c i s))"
    "weights_ok (reweigh f (container_addItem False c i s))"
    using update_weight [of "container_addItem False c i s" c "getWeight s i"] by blast
  then show ?thesis using a by (simp add: addItemBack_def Let_def)
qed

text \<open>Changing an item in place.\<close>

lemma set_item_simps [simp]:
  "is_parent (set_item i f s) = is_parent s" "is_container (set_item i f s) = is_container s" "items_of (set_item i f s) = items_of s"
  "total (set_item i f s) = total s" "parent_rel (set_item i f s) = parent_rel s" "store_ok (set_item i f s) = store_ok s"
  by (auto simp: set_item_def items_of_def total_def parent_rel_def store_ok_def)

lemma set_item_other: "j \<noteq> i \<Longrightarrow> getWeight (set_item i f s) j = getWeight s j"
  by (simp add: getWeight_total item_getWeight_def getBaseWeight_def the_item_def the_type_def item_count_def) (simp add: set_item_def)

lemma sum_list_other:
  "distinct xs \<Longrightarrow> i \<in> set xs \<Longrightarrow> \<forall>j. j \<noteq> i \<longrightarrow> f j = g j \<Longrightarrow> sum_list (map f xs) = sum_list (map g xs) + (f i - (g i :: u32))"
proof (induction xs)
  case (Cons x xs)
  show ?case
  proof (cases "x = i")
    case True
    then have "map f xs = map g xs" using Cons.prems by (intro map_cong) auto
    then have "sum_list (map f xs) = sum_list (map g xs)" by (rule arg_cong)
    then show ?thesis using True by (simp add: algebra_simps)
  next
    case False
    then show ?thesis using Cons by (simp add: algebra_simps)
  qed
qed simp

lemma index_of_none: "index_of i xs = None \<longleftrightarrow> i \<notin> set xs"
  by (induction xs) auto

lemma getThingIndex_none: "getThingIndex s c i = None \<longleftrightarrow> i \<notin> set (items_of s c)"
  by (auto simp: getThingIndex_def items_of_def index_of_none split: option.split)

lemma change_ok:
  assumes "store_ok s" "weights_ok s" "i \<in> set (items_of s c)" "store_ok s'" "items_of s' = items_of s" "total s' = total s"
    "\<forall>y. is_container s' y = None \<longleftrightarrow> is_container s y = None" "\<forall>j. j \<noteq> i \<longrightarrow> getWeight s' j = getWeight s j"
  shows "\<exists>f. updateItemWeight (- getWeight s i + getWeight s' i) c s' = Some (reweigh f s') \<and> weights_ok (reweigh f s')"
proof -
  have c: "is_container s c \<noteq> None" using assms(3) by (cases "is_container s c") (auto simp: items_of_def)
  have only: "y = c" if "is_container s y \<noteq> None" "i \<in> set (items_of s y)" for y
    using assms(1,3) c that unfolding store_ok_def by (metis option.inject)
  have "total s' y + (if y = c then - getWeight s i + getWeight s' i else 0) = content_weight s' y" if y: "is_container s' y \<noteq> None" for y
  proof (cases "y = c")
    case True
    have "distinct (items_of s c)" using assms(1) c by (simp add: store_ok_def)
    then have "content_weight s' c = content_weight s c + (getWeight s' i - getWeight s i)"
      unfolding content_weight_def assms(5) using assms(3,8) by (rule sum_list_other)
    then show ?thesis using True assms(2,6) c by (simp add: weights_ok_def)
  next
    case False
    then have "i \<notin> set (items_of s y)" using only [of y] y assms(7) by metis
    then have "content_weight s' y = content_weight s y"
      unfolding content_weight_def assms(5) using assms(8) by (intro arg_cong [where f = sum_list] map_cong) auto
    then show ?thesis using False assms(2,6,7) y by (simp add: weights_ok_def)
  qed
  then have "weights_off s' c (- getWeight s i + getWeight s' i)" unfolding weights_off_def by blast
  moreover have "is_container s' c \<noteq> None" using c assms(7) by simp
  ultimately show ?thesis by (rule update_weight [OF assms(4)])
qed

lemma updateThing_ok:
  assumes "store_ok s" "weights_ok s"
  shows "\<exists>s'. updateThing c i itemId n s = Some s' \<and> store_ok s' \<and> weights_ok s'"
proof (cases "getThingIndex s c i = None \<or> is_item s i = None")
  case True
  then show ?thesis using assms by (auto simp: updateThing_def)
next
  case False
  then have i: "i \<in> set (items_of s c)" by (simp add: getThingIndex_none)
  let ?s1 = "set_item i (setID (is_type s) itemId) s"
  let ?s2 = "set_item i (\<lambda>it. it\<lparr>im_data := setSubType (tt_saved (is_type ?s1 (im_id it))) n (im_data it)\<rparr>) ?s1"
  obtain f where "updateItemWeight (- getWeight s i + getWeight ?s2 i) c ?s2 = Some (reweigh f ?s2)" "weights_ok (reweigh f ?s2)"
    using change_ok [OF assms i, of ?s2] assms by (auto simp: set_item_other)
  then show ?thesis using False assms(1) by (auto simp: updateThing_def Let_def)
qed

text \<open>Weights move up past a change that the containers on the way do not see.\<close>

lemma update_commutes:
  assumes "wf (parent_rel s)" "(x, c) \<in> (parent_rel s)\<^sup>*"
    and t: "\<And>y g u. t (map_container y (\<lambda>d. d\<lparr>co_totalWeight := co_totalWeight d + g\<rparr>) u)
          = map_container y (\<lambda>d. d\<lparr>co_totalWeight := co_totalWeight d + g\<rparr>) (t u)"
    and p: "\<And>y u. (y, c) \<in> (parent_rel s)\<^sup>* \<Longrightarrow> getParentContainer (t u) y = getParentContainer u y"
    and "is_parent u = is_parent s"
  shows "updateItemWeight v x (t u) = map_option t (updateItemWeight v x u)"
  using assms(1,2,5)
proof (induction x arbitrary: u rule: wf_induct_rule)
  case (less x)
  let ?u = "map_container x (\<lambda>d. d\<lparr>co_totalWeight := co_totalWeight d + v\<rparr>) u"
  have e: "updateItemWeight v x u = (case getParentContainer ?u x of Some q \<Rightarrow> updateItemWeight v q ?u | None \<Rightarrow> Some ?u)"
    "updateItemWeight v x (t u) = (case getParentContainer ?u x of Some q \<Rightarrow> updateItemWeight v q (t ?u) | None \<Rightarrow> Some (t ?u))"
    by (subst updateItemWeight.simps, simp add: Let_def) (subst updateItemWeight.simps, simp add: Let_def t [symmetric] p [OF less.prems(1)])
  show ?case
  proof (cases "getParentContainer ?u x")
    case None
    then show ?thesis by (simp add: e)
  next
    case (Some q)
    then have q: "(q, x) \<in> parent_rel s"
      using less.prems(2) by (auto simp: getParentContainer_def parent_rel_def split: option.splits if_splits)
    then have "(q, c) \<in> (parent_rel s)\<^sup>*" using less.prems(1) by (rule converse_rtrancl_into_rtrancl)
    then show ?thesis using less.IH [OF q, of ?u] less.prems(2) Some by (simp add: e)
  qed
qed

lemma wf_no_loop: "wf r \<Longrightarrow> (a, b) \<in> r \<Longrightarrow> (b, a) \<notin> r\<^sup>*"
  using wf_not_refl [OF wf_trancl, of r a] by (metis rtrancl_into_trancl2)

lemma container_updates: "d\<lparr>co_totalWeight := a, co_items := b\<rparr> = d\<lparr>co_items := b, co_totalWeight := a\<rparr>"
  by (cases d) simp

definition take_out :: "nat \<Rightarrow> nat \<Rightarrow> item_store \<Rightarrow> item_store" where
  "take_out c i s = map_container c (\<lambda>d. d\<lparr>co_items := remove1 i (co_items d)\<rparr>) (set_parent i None s)"

lemma take_out_simps:
  "is_parent (take_out c i s) = (is_parent s)(i := None)" "getWeight (take_out c i s) = getWeight s" "total (take_out c i s) = total s"
  "items_of (take_out c i s) y = (if y = c then remove1 i (items_of s c) else items_of s y)"
  "is_container (take_out c i s) y = None \<longleftrightarrow> is_container s y = None"
proof -
  show "getWeight (take_out c i s) = getWeight s"
    using getWeight_items(1) [of c "remove1 i" "set_parent i None s"] getWeight_items(2) [of i None s] by (simp add: take_out_def)
  show "total (take_out c i s) = total s" using total_items [of c "remove1 i" "set_parent i None s"] by (simp add: take_out_def)
  show "items_of (take_out c i s) y = (if y = c then remove1 i (items_of s c) else items_of s y)"
    using items_of_items [of c "remove1 i" "set_parent i None s" y] by (auto simp: take_out_def items_of_def split: option.splits)
qed (auto simp: take_out_def)

lemma take_out_ok:
  assumes "store_ok s" "weights_ok s" "i \<in> set (items_of s c)"
  shows "store_ok (take_out c i s) \<and> weights_off (take_out c i s) c (- getWeight s i)"
proof -
  have c: "is_container s c \<noteq> None" using assms(3) by (cases "is_container s c") (auto simp: items_of_def)
  have "parent_rel (take_out c i s) \<subseteq> parent_rel s" by (auto simp: parent_rel_def take_out_simps)
  then have "wf (parent_rel (take_out c i s))" using assms(1) wf_subset unfolding store_ok_def by blast
  moreover have "distinct (items_of (take_out c i s) y) \<and> (\<forall>j. j \<in> set (items_of (take_out c i s) y) \<longleftrightarrow> is_parent (take_out c i s) j = Some y)"
    if "is_container s y \<noteq> None" for y
    using assms(1,3) c that unfolding take_out_simps store_ok_def by auto
  moreover have "content_weight (take_out c i s) y = content_weight s y + (if y = c then - getWeight s i else 0)" for y
    unfolding content_weight_def take_out_simps using sum_list_map_remove1 [OF assms(3), of "getWeight s"] by simp
  ultimately show ?thesis
    using assms(2) unfolding store_ok_def weights_off_def weights_ok_def take_out_simps by simp
qed

lemma removeThing_ok:
  assumes "store_ok s" "weights_ok s"
  shows "\<exists>s'. removeThing c i n s = Some s' \<and> store_ok s' \<and> weights_ok s'
    \<and> (is_item s i \<noteq> None \<and> i \<in> set (items_of s c) \<and> \<not> (tt_stackable (the_type s i) \<and> n \<noteq> unat (item_count s i)) \<longrightarrow>
        is_parent s' = (is_parent s)(i := None) \<and> is_item s' = is_item s \<and> (\<forall>y. is_container s' y = None \<longleftrightarrow> is_container s y = None))"
proof -
  consider "is_item s i = None \<or> getThingIndex s c i = None"
    | "is_item s i \<noteq> None" "getThingIndex s c i \<noteq> None" "tt_stackable (the_type s i) \<and> n \<noteq> unat (item_count s i)"
    | "is_item s i \<noteq> None" "getThingIndex s c i \<noteq> None" "\<not> (tt_stackable (the_type s i) \<and> n \<noteq> unat (item_count s i))" by blast
  then show ?thesis
  proof cases
    case 1
    then show ?thesis using assms by (auto simp: removeThing_def getThingIndex_none)
  next
    case 2
    then have i: "i \<in> set (items_of s c)" by (simp add: getThingIndex_none)
    let ?s = "set_item i (\<lambda>it. it\<lparr>im_data := setItemCount (of_nat (unat (item_count s i) - n)) (im_data it)\<rparr>) s"
    obtain f where "updateItemWeight (- getWeight s i + getWeight ?s i) c ?s = Some (reweigh f ?s)" "weights_ok (reweigh f ?s)"
      using change_ok [OF assms i, of ?s] assms by (auto simp: set_item_other)
    then show ?thesis using 2 assms(1) unfolding removeThing_def Let_def by auto
  next
    case 3
    then have i: "i \<in> set (items_of s c)" by (simp add: getThingIndex_none)
    have c: "is_container s c \<noteq> None" using i by (cases "is_container s c") (auto simp: items_of_def)
    note ok = take_out_ok [OF assms i]
    obtain f where f: "updateItemWeight (- getWeight s i) c (take_out c i s) = Some (reweigh f (take_out c i s))"
      "weights_ok (reweigh f (take_out c i s))"
      using update_weight [of "take_out c i s" c "- getWeight s i"] ok c by (auto simp: take_out_simps(5))
    have w: "wf (parent_rel s)" using assms(1) by (simp add: store_ok_def)
    have ic: "(c, i) \<in> parent_rel s" using assms(1) i c by (auto simp: store_ok_def parent_rel_def)
    have "updateItemWeight (- getWeight s i) c (take_out c i s) = map_option (take_out c i) (updateItemWeight (- getWeight s i) c s)"
    proof (rule update_commutes [OF w rtrancl_refl])
      show "take_out c i (map_container y (\<lambda>d. d\<lparr>co_totalWeight := co_totalWeight d + g\<rparr>) u)
          = map_container y (\<lambda>d. d\<lparr>co_totalWeight := co_totalWeight d + g\<rparr>) (take_out c i u)" for y g u
        by (simp add: take_out_def map_container_def set_parent_def fun_eq_iff option.map_comp o_def container_updates)
    next
      fix y u
      assume "(y, c) \<in> (parent_rel s)\<^sup>*"
      then have "y \<noteq> i" using wf_no_loop [OF w ic] by blast
      then show "getParentContainer (take_out c i u) y = getParentContainer u y"
        by (simp add: getParentContainer_def take_out_simps(1,5) split: option.split)
    qed simp
    then have "map_option (take_out c i) (updateItemWeight (- getWeight s i) c s) = Some (reweigh f (take_out c i s))"
      unfolding f(1) by (rule sym)
    then obtain s1 where s1: "updateItemWeight (- getWeight s i) c s = Some s1" "take_out c i s1 = reweigh f (take_out c i s)"
      unfolding map_option_eq_Some by (elim exE conjE) (rule that)
    have s1_ok: "store_ok (take_out c i s1)" "weights_ok (take_out c i s1)" using ok f(2) s1(2) by simp_all
    then obtain player where p: "top_player (take_out c i s1) c = Some player" using top_player_some unfolding store_ok_def by blast
    have no: "\<not> is_item s i = None" "\<not> getThingIndex s c i = None" using 3 by simp_all
    have "removeThing c i n s = Some (fold (removeBallFromCache player c) (the_balls (take_out c i s1) i) (take_out c i s1))"
      unfolding removeThing_def if_not_P [OF no(1)] if_not_P [OF no(2)] if_not_P [OF 3(3)] s1(1) Let_def Option.bind.bind_lunit
        take_out_def [symmetric] p ..
    moreover have "skeleton (take_out c i s1) = skeleton (fold (removeBallFromCache player c) (the_balls (take_out c i s1) i) (take_out c i s1))"
      by (rule skeleton_fold_balls(2) [symmetric])
    moreover from this have "is_parent (fold (removeBallFromCache player c) (the_balls (take_out c i s1) i) (take_out c i s1)) = (is_parent s)(i := None)
      \<and> is_item (fold (removeBallFromCache player c) (the_balls (take_out c i s1) i) (take_out c i s1)) = is_item s
      \<and> (\<forall>y. is_container (fold (removeBallFromCache player c) (the_balls (take_out c i s1) i) (take_out c i s1)) y = None \<longleftrightarrow> is_container s y = None)"
      unfolding s1(2) skeleton_def by (simp add: fun_eq_iff take_out_simps(1,5)) (simp add: take_out_def)
    ultimately show ?thesis using skeleton_ok [OF skeleton_fold_balls(2)] s1_ok by blast
  qed
qed

lemma sum_list_exchange:
  "k < length xs \<Longrightarrow> sum_list (map f (xs[k := x])) = sum_list (map f xs) + (f x - (f (xs ! k) :: u32))"
  by (induction xs arbitrary: k) (auto simp: less_Suc_eq_0_disj algebra_simps)

definition exchange :: "nat \<Rightarrow> nat \<Rightarrow> nat \<Rightarrow> item_store \<Rightarrow> item_store" where
  "exchange c k i s = set_parent i (Some c) (map_container c (\<lambda>d. d\<lparr>co_items := (co_items d)[k := i]\<rparr>) s)"

lemma exchange_simps:
  "is_parent (exchange c k i s) = (is_parent s)(i := Some c)" "getWeight (exchange c k i s) = getWeight s" "total (exchange c k i s) = total s"
  "items_of (exchange c k i s) y = (if y = c then (items_of s c)[k := i] else items_of s y)"
  "is_container (exchange c k i s) y = None \<longleftrightarrow> is_container s y = None"
proof -
  let ?u = "map_container c (\<lambda>d. d\<lparr>co_items := (co_items d)[k := i]\<rparr>) s"
  show "getWeight (exchange c k i s) = getWeight s"
    using getWeight_items(1) [of c "\<lambda>xs. xs[k := i]" s] getWeight_items(2) [of i "Some c" ?u] by (simp add: exchange_def)
  show "total (exchange c k i s) = total s" using total_items [of c "\<lambda>xs. xs[k := i]" s] by (simp add: exchange_def)
  show "items_of (exchange c k i s) y = (if y = c then (items_of s c)[k := i] else items_of s y)"
    using items_of_items [of c "\<lambda>xs. xs[k := i]" s y] by (auto simp: exchange_def items_of_def split: option.splits)
qed (auto simp: exchange_def)

lemma exchange_ok:
  assumes "store_ok s" "weights_ok s" "is_container s c \<noteq> None" "is_parent s i = None" "(i, c) \<notin> (parent_rel s)\<^sup>*"
    and k: "k < length (items_of s c)" "items_of s c ! k = r"
  defines "u \<equiv> set_parent r None (exchange c k i s)"
  shows "store_ok u \<and> weights_off u c (- getWeight s r + getWeight s i) \<and> wf (parent_rel (exchange c k i s))
    \<and> (c, r) \<in> parent_rel (exchange c k i s)"
proof -
  have r: "is_parent s r = Some c" using assms(1,3) k nth_mem unfolding store_ok_def by metis
  then have ir: "i \<noteq> r" using assms(4) by auto
  have new: "i \<notin> set (items_of s y)" if "is_container s y \<noteq> None" for y
    using assms(1,4) that by (auto simp: store_ok_def)
  have d: "distinct (items_of s c)" using assms(1,3) by (simp add: store_ok_def)
  then have set_c: "set ((items_of s c)[k := i]) = insert i (set (items_of s c) - {r})"
    unfolding k(2) [symmetric] using k(1) by (rule set_update_distinct)
  have d_c: "distinct ((items_of s c)[k := i])" using distinct_list_update [OF d] new [OF assms(3)] by simp
  have pr: "parent_rel (exchange c k i s) = insert (c, i) (parent_rel s)"
    using assms(4) by (auto simp: parent_rel_def exchange_simps)
  have w: "wf (parent_rel (exchange c k i s))" unfolding pr wf_insert using assms(1,5) by (simp add: store_ok_def)
  have "parent_rel u \<subseteq> parent_rel (exchange c k i s)" by (auto simp: u_def parent_rel_def)
  then have wu: "wf (parent_rel u)" using w wf_subset by blast
  have items: "items_of u y = (if y = c then (items_of s c)[k := i] else items_of s y)" for y
    by (simp add: u_def exchange_simps)
  have none: "is_container u y = None \<longleftrightarrow> is_container s y = None" for y
    by (simp add: u_def exchange_simps)
  have par: "is_parent u = (is_parent s)(i := Some c, r := None)" by (simp add: u_def exchange_simps)
  have "distinct (items_of u y) \<and> (\<forall>j. j \<in> set (items_of u y) \<longleftrightarrow> is_parent u j = Some y)" if "is_container s y \<noteq> None" for y
    using assms(1) that new [OF that] r ir set_c d_c unfolding items par by (auto simp: store_ok_def)
  then have ok: "store_ok u" using wu unfolding store_ok_def none by blast
  have g: "getWeight u = getWeight s" using getWeight_items(2) [of r None "exchange c k i s"] by (simp add: u_def exchange_simps)
  have "content_weight u y = content_weight s y + (if y = c then - getWeight s r + getWeight s i else 0)" for y
    unfolding content_weight_def items g using sum_list_exchange [OF k(1), of "getWeight s" i] k(2) by simp
  moreover have "total u = total s" by (simp add: u_def exchange_simps)
  ultimately have "weights_off u c (- getWeight s r + getWeight s i)"
    using assms(2) unfolding weights_off_def weights_ok_def none by simp
  moreover have "(c, r) \<in> parent_rel (exchange c k i s)" using r ir by (simp add: parent_rel_def exchange_simps)
  ultimately show ?thesis using ok w by blast
qed

lemma replaceThing_ok:
  assumes "store_ok s" "weights_ok s" "is_container s c \<noteq> None" "is_parent s i = None" "(i, c) \<notin> (parent_rel s)\<^sup>*"
  shows "\<exists>s'. replaceThing c k i s = Some s' \<and> store_ok s' \<and> weights_ok s'"
proof (cases "is_item s i = None \<or> getItemByIndex s c k = None")
  case True
  then show ?thesis using assms by (auto simp: replaceThing_def)
next
  case False
  then have no: "\<not> is_item s i = None" by simp
  obtain r where r: "getItemByIndex s c k = Some r" using False by auto
  then have k: "k < length (items_of s c)" "items_of s c ! k = r"
    by (auto simp: getItemByIndex_def items_of_def split: option.splits if_splits)
  let ?e = "exchange c k i s" and ?u = "set_parent r None (exchange c k i s)" and ?v = "- getWeight s r + getWeight s i"
  note ok = exchange_ok [OF assms k]
  have c: "is_container ?u c \<noteq> None" using assms(3) by (simp add: exchange_simps)
  obtain f where f: "updateItemWeight ?v c ?u = Some (reweigh f ?u)" "weights_ok (reweigh f ?u)"
    using update_weight [of ?u c ?v] ok c by blast
  have "updateItemWeight ?v c ?u = map_option (set_parent r None) (updateItemWeight ?v c ?e)"
  proof (rule update_commutes)
    show "wf (parent_rel ?e)" using ok by blast
  next
    fix y u
    assume "(y, c) \<in> (parent_rel ?e)\<^sup>*"
    then have "y \<noteq> r" using wf_no_loop [of "parent_rel ?e" c r] ok by blast
    then show "getParentContainer (set_parent r None u) y = getParentContainer u y"
      by (simp add: getParentContainer_def split: option.split)
  qed (simp_all add: map_container_def set_parent_def)
  then have "map_option (set_parent r None) (updateItemWeight ?v c ?e) = Some (reweigh f ?u)"
    unfolding f(1) by (rule sym)
  then obtain s1 where s1: "updateItemWeight ?v c ?e = Some s1" "set_parent r None s1 = reweigh f ?u"
    unfolding map_option_eq_Some by (elim exE conjE) (rule that)
  have "replaceThing c k i s = Some (set_parent r None s1)"
    unfolding replaceThing_def if_not_P [OF no] r Let_def option.case exchange_def [symmetric] exchange_simps(2) s1(1)
      Option.bind.bind_lunit ..
  then show ?thesis using s1(2) f(2) ok by simp
qed

end
