(* ===== verification/Container_Moves.thy ===== *)
theory Container_Moves
  imports Container "HOL-Library.Multiset"
begin

text \<open>
  What the containers of \<^verbatim>\<open>src/src/container.cpp\<close> promise together: every operation keeps the
  store in order and the weights right, what \<^verbatim>\<open>queryAdd\<close> lets through can be added without making a
  cycle, and the iterator meets everything inside exactly once, so that the weight of a container is
  its own and that of all things in it.
\<close>

section \<open>Operations\<close>

text \<open>The calls that change a container: what is added or exchanged is nowhere else and does not hold the
  container.\<close>

inductive container_op :: "item_store \<Rightarrow> item_store option \<Rightarrow> bool" where
  op_add: "is_container s c \<noteq> None \<Longrightarrow> is_parent s i = None \<Longrightarrow> (i, c) \<notin> (parent_rel s)\<^sup>* \<Longrightarrow> container_op s (addThing c index i s)"
| op_internal_add: "is_container s c \<noteq> None \<Longrightarrow> is_parent s i = None \<Longrightarrow> (i, c) \<notin> (parent_rel s)\<^sup>* \<Longrightarrow> container_op s (internalAddThing c i s)"
| op_add_back: "is_container s c \<noteq> None \<Longrightarrow> is_parent s i = None \<Longrightarrow> (i, c) \<notin> (parent_rel s)\<^sup>* \<Longrightarrow> container_op s (addItemBack c i s)"
| op_replace: "is_container s c \<noteq> None \<Longrightarrow> is_parent s i = None \<Longrightarrow> (i, c) \<notin> (parent_rel s)\<^sup>* \<Longrightarrow> container_op s (replaceThing c k i s)"
| op_update: "container_op s (updateThing c i itemId n s)"
| op_remove: "container_op s (removeThing c i n s)"

inductive container_run :: "item_store \<Rightarrow> item_store \<Rightarrow> bool" where
  run_none: "container_run s s"
| run_op: "container_run s s' \<Longrightarrow> container_op s' (Some s'') \<Longrightarrow> container_run s s''"

lemma addThing_cases: "is_container s c \<noteq> None \<Longrightarrow> addThing c index i s = Some s \<or> addThing c index i s = internalAddThing c i s"
  by (auto simp: addThing_def split: option.split)

lemma container_op_ok:
  "container_op s r \<Longrightarrow> store_ok s \<Longrightarrow> weights_ok s \<Longrightarrow> \<exists>s'. r = Some s' \<and> store_ok s' \<and> weights_ok s'"
proof (induction rule: container_op.induct)
  case (op_add s c i index)
  then show ?case using addThing_ok [of s c i] addThing_cases [of s c index i] by auto
next
  case (op_internal_add s c i)
  then show ?case using addThing_ok [of s c i] by blast
next
  case (op_add_back s c i)
  then show ?case using addItemBack_ok [of s c i] by blast
next
  case (op_replace s c i k)
  then show ?case using replaceThing_ok [of s c i k] by blast
next
  case (op_update s c i itemId n)
  then show ?case by (rule updateThing_ok)
next
  case (op_remove s c i n)
  then show ?case using removeThing_ok [of s c i n] by blast
qed

lemma container_run_ok: "container_run s s' \<Longrightarrow> store_ok s \<Longrightarrow> weights_ok s \<Longrightarrow> store_ok s' \<and> weights_ok s'"
  by (induction rule: container_run.induct) (auto dest: container_op_ok)

text \<open>C2. However often containers are changed, the parents stay free of cycles and agree with the
  lists of the containers, the total weight of every container is the sum of the weights of what it
  lists, with everything inside that counted, and no change hangs on its way up the parents.\<close>

theorem container_weights_kept:
  assumes "store_ok s" "weights_ok s" "container_run s s'" "container_op s' r"
  shows "\<exists>s''. r = Some s'' \<and> store_ok s'' \<and> weights_ok s''"
proof -
  have "store_ok s' \<and> weights_ok s'" using assms(1-3) by (intro container_run_ok)
  then show ?thesis using container_op_ok [OF assms(4)] by blast
qed

section \<open>Moving an item\<close>

lemma query_add_cases:
  assumes "is_container s c = Some d" "\<not> qf_childIsOwner flags"
  shows "queryAdd ask s c index thing n flags =
    (if \<not> co_unlocked d then Some RETURNVALUE_NOTPOSSIBLE
     else if is_item s thing = None then Some RETURNVALUE_NOTPOSSIBLE
     else if \<not> tt_pickupable (the_type s thing) then Some RETURNVALUE_CANNOTPICKUP
     else if thing = c then Some RETURNVALUE_THISISIMPOSSIBLE
     else do { r \<leftarrow> (case is_parent s c of None \<Rightarrow> Some RETURNVALUE_NOERROR
                        | Some cyl \<Rightarrow> query_parents s (qf_noLimit flags) thing cyl);
               if r \<noteq> RETURNVALUE_NOERROR then Some r
               else if \<not> qf_noLimit flags \<and> index = None \<and> length (co_items d) \<ge> co_maxSize d
               then Some RETURNVALUE_CONTAINERNOTENOUGHROOM
               else
                 do { topParent \<leftarrow> getTopParent s c;
                      if topParent \<noteq> c then Some (ask topParent thing n (flags\<lparr>qf_childIsOwner := True\<rparr>))
                      else Some RETURNVALUE_NOERROR } })"
  using assms by (simp add: queryAdd_def)

lemma around:
  "(x, c) \<in> (parent_rel s)\<^sup>+ \<longleftrightarrow> (\<exists>p. is_parent s c = Some p \<and> (x, p) \<in> (parent_rel s)\<^sup>*)"
  unfolding trancl_unfold_right [of "parent_rel s"] by (auto simp: parent_rel_def)

lemma query_around:
  assumes "wf (parent_rel s)"
  shows "\<exists>r. (case is_parent s c of None \<Rightarrow> Some RETURNVALUE_NOERROR | Some cyl \<Rightarrow> query_parents s nl thing cyl) = Some r
    \<and> (r = RETURNVALUE_NOERROR \<longrightarrow> (thing, c) \<notin> (parent_rel s)\<^sup>+ \<and> (nl \<or> (\<forall>x. (x, c) \<in> (parent_rel s)\<^sup>+ \<longrightarrow> \<not> is_inbox s x)))
    \<and> (r \<noteq> RETURNVALUE_NOERROR \<longrightarrow> r = RETURNVALUE_THISISIMPOSSIBLE \<and> (thing, c) \<in> (parent_rel s)\<^sup>+
         \<or> r = RETURNVALUE_CONTAINERNOTENOUGHROOM \<and> \<not> nl \<and> (\<exists>x. (x, c) \<in> (parent_rel s)\<^sup>+ \<and> is_inbox s x))"
proof (cases "is_parent s c")
  case None
  then show ?thesis unfolding around by simp
next
  case (Some p)
  then show ?thesis using query_parents_some [OF assms, of nl thing p] unfolding around by simp
qed

lemma queryAdd_cases:
  assumes "store_ok s" "is_container s c = Some d" "\<not> qf_childIsOwner flags"
  shows "\<exists>r. queryAdd ask s c index thing n flags = Some r
    \<and> (\<not> co_unlocked d \<or> is_item s thing = None \<longrightarrow> r = RETURNVALUE_NOTPOSSIBLE)
    \<and> (co_unlocked d \<and> is_item s thing \<noteq> None \<and> \<not> tt_pickupable (the_type s thing) \<longrightarrow> r = RETURNVALUE_CANNOTPICKUP)
    \<and> (co_unlocked d \<and> is_item s thing \<noteq> None \<and> tt_pickupable (the_type s thing) \<and> (thing, c) \<in> (parent_rel s)\<^sup>*
        \<longrightarrow> r = RETURNVALUE_THISISIMPOSSIBLE \<or> r = RETURNVALUE_CONTAINERNOTENOUGHROOM \<and> (\<exists>x. (x, c) \<in> (parent_rel s)\<^sup>+ \<and> is_inbox s x))
    \<and> (r = RETURNVALUE_NOERROR \<longrightarrow> co_unlocked d \<and> is_item s thing \<noteq> None \<and> tt_pickupable (the_type s thing) \<and> (thing, c) \<notin> (parent_rel s)\<^sup>*
        \<and> (qf_noLimit flags \<or> (index \<noteq> None \<or> length (co_items d) < co_maxSize d) \<and> (\<forall>x. (x, c) \<in> (parent_rel s)\<^sup>+ \<longrightarrow> \<not> is_inbox s x)))"
proof (cases "co_unlocked d \<and> is_item s thing \<noteq> None \<and> tt_pickupable (the_type s thing) \<and> thing \<noteq> c")
  case False
  then show ?thesis unfolding query_add_cases [OF assms(2,3)] by auto
next
  case True
  have w: "wf (parent_rel s)" using assms(1) by (simp add: store_ok_def)
  have star: "(thing, c) \<in> (parent_rel s)\<^sup>* \<longleftrightarrow> (thing, c) \<in> (parent_rel s)\<^sup>+" using True by (simp add: rtrancl_eq_or_trancl)
  obtain t where t: "getTopParent s c = Some t" using getTopParent_some [OF w] by blast
  obtain r where r: "(case is_parent s c of None \<Rightarrow> Some RETURNVALUE_NOERROR | Some cyl \<Rightarrow> query_parents s (qf_noLimit flags) thing cyl) = Some r"
    "r = RETURNVALUE_NOERROR \<longrightarrow> (thing, c) \<notin> (parent_rel s)\<^sup>+ \<and> (qf_noLimit flags \<or> (\<forall>x. (x, c) \<in> (parent_rel s)\<^sup>+ \<longrightarrow> \<not> is_inbox s x))"
    "r \<noteq> RETURNVALUE_NOERROR \<longrightarrow> r = RETURNVALUE_THISISIMPOSSIBLE \<and> (thing, c) \<in> (parent_rel s)\<^sup>+
       \<or> r = RETURNVALUE_CONTAINERNOTENOUGHROOM \<and> \<not> qf_noLimit flags \<and> (\<exists>x. (x, c) \<in> (parent_rel s)\<^sup>+ \<and> is_inbox s x)"
    using query_around [OF w, where c = c and nl = "qf_noLimit flags" and thing = thing] by blast
  have ask: "queryAdd ask s c index thing n flags =
    Some (if r \<noteq> RETURNVALUE_NOERROR then r
          else if \<not> qf_noLimit flags \<and> index = None \<and> length (co_items d) \<ge> co_maxSize d then RETURNVALUE_CONTAINERNOTENOUGHROOM
          else if t \<noteq> c then ask t thing n (flags\<lparr>qf_childIsOwner := True\<rparr>) else RETURNVALUE_NOERROR)"
  proof -
    have ok: "\<not> \<not> co_unlocked d" "is_item s thing \<noteq> None" "\<not> \<not> tt_pickupable (the_type s thing)" "thing \<noteq> c" using True by simp_all
    show ?thesis
      unfolding query_add_cases [OF assms(2,3)] if_not_P [OF ok(1)] if_not_P [OF ok(2)] if_not_P [OF ok(3)] if_not_P [OF ok(4)]
        r(1) t Option.bind.bind_lunit by (simp only: if_distrib [of Some] split: if_split)
  qed
  show ?thesis
  proof (cases "r = RETURNVALUE_NOERROR")
    case no_error: True
    then show ?thesis using True r(2) unfolding ask star by auto
  next
    case False
    then show ?thesis using True r(3) unfolding ask star by auto
  qed
qed

lemma queryAdd_lets:
  assumes "store_ok s" "is_container s c = Some d" "\<not> qf_childIsOwner flags" "queryAdd ask s c index thing n flags = Some RETURNVALUE_NOERROR"
  shows "is_item s thing \<noteq> None \<and> (thing, c) \<notin> (parent_rel s)\<^sup>*"
  using queryAdd_cases [OF assms(1-3), of ask index thing n] assms(4) by auto

text \<open>C40. What \<^verbatim>\<open>queryAdd\<close> answers to somebody who is not a container inside: always something; a
  locked container, a thing that is no item and an item that cannot be picked up are refused as such;
  the container itself and everything around it are refused; and an answer without error means that
  the item may be put there: it is no container around, no inbox is around unless limits are ignored,
  and a place is left unless one was named. Which refusal a full container gives is not stated, nor
  what the owner asked through \<open>ask\<close> answers.\<close>

theorem queryAdd_decides:
  assumes "store_ok s" "is_container s c = Some d" "\<not> qf_childIsOwner flags"
  shows "\<exists>r. queryAdd ask s c index thing n flags = Some r
    \<and> (\<not> co_unlocked d \<or> is_item s thing = None \<longrightarrow> r = RETURNVALUE_NOTPOSSIBLE)
    \<and> (co_unlocked d \<and> is_item s thing \<noteq> None \<and> \<not> tt_pickupable (the_type s thing) \<longrightarrow> r = RETURNVALUE_CANNOTPICKUP)
    \<and> (co_unlocked d \<and> is_item s thing \<noteq> None \<and> tt_pickupable (the_type s thing) \<and> (thing, c) \<in> (parent_rel s)\<^sup>*
        \<longrightarrow> r = RETURNVALUE_THISISIMPOSSIBLE \<or> r = RETURNVALUE_CONTAINERNOTENOUGHROOM \<and> (\<exists>x. (x, c) \<in> (parent_rel s)\<^sup>+ \<and> is_inbox s x))
    \<and> (r = RETURNVALUE_NOERROR \<longrightarrow> co_unlocked d \<and> is_item s thing \<noteq> None \<and> tt_pickupable (the_type s thing) \<and> (thing, c) \<notin> (parent_rel s)\<^sup>*
        \<and> (qf_noLimit flags \<or> (index \<noteq> None \<or> length (co_items d) < co_maxSize d) \<and> (\<forall>x. (x, c) \<in> (parent_rel s)\<^sup>+ \<longrightarrow> \<not> is_inbox s x)))"
  using queryAdd_cases [OF assms] .

text \<open>C3. Asking, taking out and adding move a whole item between containers: if \<^verbatim>\<open>queryAdd\<close> of the
  target lets the item through, then \<^verbatim>\<open>removeThing\<close> and \<^verbatim>\<open>addThing\<close> succeed, the item is the
  first of the target, and the store is in order with every weight right.\<close>

theorem move_keeps_order:
  assumes "store_ok s" "weights_ok s" "is_container s from \<noteq> None" "is_container s target \<noteq> None" "i \<in> set (items_of s from)"
    "\<not> (tt_stackable (the_type s i) \<and> n \<noteq> unat (item_count s i))"
    and "\<not> qf_childIsOwner flags" "queryAdd ask s target None i n flags = Some RETURNVALUE_NOERROR"
  shows "\<exists>s1 s2. removeThing from i n s = Some s1 \<and> addThing target None i s1 = Some s2 \<and> hd (items_of s2 target) = i
    \<and> is_parent s2 i = Some target \<and> store_ok s2 \<and> weights_ok s2"
proof -
  obtain d where d: "is_container s target = Some d" using assms(4) by blast
  have q: "is_item s i \<noteq> None" "(i, target) \<notin> (parent_rel s)\<^sup>*"
    using queryAdd_lets [OF assms(1) d assms(7,8)] by simp_all
  obtain s1 where s1: "removeThing from i n s = Some s1" "store_ok s1" "weights_ok s1"
    "is_parent s1 = (is_parent s)(i := None)" "is_item s1 = is_item s" "\<forall>y. is_container s1 y = None \<longleftrightarrow> is_container s y = None"
    using removeThing_ok [OF assms(1,2), of "from" i n] q(1) assms(5,6) by blast
  have "parent_rel s1 \<subseteq> parent_rel s" by (auto simp: parent_rel_def s1(4))
  then have "(i, target) \<notin> (parent_rel s1)\<^sup>*" using q(2) rtrancl_mono by blast
  then obtain s2 where s2: "internalAddThing target i s1 = Some s2" "store_ok s2" "weights_ok s2" "items_of s2 target = i # items_of s1 target"
    using addThing_ok [of s1 target i] s1 assms(4) q(1) by auto
  have a: "addThing target None i s1 = Some s2"
    using s1(6) assms(4) s2(1) by (auto simp: addThing_def split: option.split)
  have "is_container s2 target \<noteq> None" using s2(4) by (cases "is_container s2 target") (auto simp: items_of_def)
  then have "is_parent s2 i = Some target" using s2(2,4) unfolding store_ok_def by (metis list.set_intros(1))
  then show ?thesis using s1(1) a s2 by auto
qed

section \<open>Everything inside\<close>

definition inside_rel :: "item_store \<Rightarrow> (nat \<times> nat) set" where
  "inside_rel s = {(c, i). i \<in> set (items_of s c)}"

text \<open>The items that an iterator has still to meet, apart from what is inside them.\<close>

definition pending :: "item_store \<Rightarrow> container_iterator \<Rightarrow> nat list" where
  "pending s it = (case it of (over, cur) \<Rightarrow> if over = [] then [] else cur @ concat (map (items_of s) (tl over)))"

definition iterator_ok :: "item_store \<Rightarrow> container_iterator \<Rightarrow> bool" where
  "iterator_ok s it \<longleftrightarrow> (case it of (over, cur) \<Rightarrow> (\<forall>c \<in> set over. items_of s c \<noteq> []) \<and> (over \<noteq> [] \<longrightarrow> cur \<noteq> []))"

lemma inside_parent: "store_ok s \<Longrightarrow> inside_rel s \<subseteq> parent_rel s"
  by (auto simp: inside_rel_def parent_rel_def store_ok_def items_of_def split: option.splits)

lemma inside_wf:
  assumes "store_ok s" "finite (dom (is_parent s))"
  shows "wf ((inside_rel s)\<inverse>)"
proof -
  have "parent_rel s \<subseteq> (\<lambda>x. (the (is_parent s x), x)) ` dom (is_parent s)"
    by (force simp: parent_rel_def)
  then have "finite (parent_rel s)" using assms(2) finite_surj by blast
  moreover have "acyclic (parent_rel s)" using assms(1) wf_acyclic unfolding store_ok_def by blast
  ultimately have "wf ((parent_rel s)\<inverse>)" by (rule finite_acyclic_wf_converse)
  moreover have "(inside_rel s)\<inverse> \<subseteq> (parent_rel s)\<inverse>" using inside_parent [OF assms(1)] by auto
  ultimately show ?thesis by (rule wf_subset)
qed

lemma advance_ok:
  assumes "iterator_ok s it" "hasNext it"
  shows "iterator_ok s (advance s it) \<and> pending s it \<noteq> [] \<and> hd (pending s it) = hd (snd it)
    \<and> pending s (advance s it) = tl (pending s it) @ items_of s (hd (snd it))"
proof -
  obtain c over x cur where it: "it = (c # over, x # cur)"
    using assms by (cases it; cases "fst it"; cases "snd it") (auto simp: hasNext_def iterator_ok_def)
  show ?thesis
  proof (cases "cur = [] \<and> over = []")
    case True
    then show ?thesis using assms it by (cases "items_of s x = []") (auto simp: iterator_ok_def pending_def advance_def Let_def)
  next
    case False
    then show ?thesis using assms it
      by (cases "items_of s x = []"; cases over) (auto simp: iterator_ok_def pending_def advance_def Let_def)
  qed
qed

text \<open>Nothing is in two things at once, so what waits stays apart.\<close>

definition apart :: "item_store \<Rightarrow> nat list \<Rightarrow> bool" where
  "apart s xs \<longleftrightarrow> distinct xs \<and> (\<forall>a \<in> set xs. \<forall>b \<in> set xs. (a, b) \<notin> (inside_rel s)\<^sup>+)"

lemma inside_up:
  assumes "store_ok s" "(a, j) \<in> (inside_rel s)\<^sup>+" "j \<in> set (items_of s i)"
  shows "(a, i) \<in> (inside_rel s)\<^sup>*"
proof -
  obtain p where p: "(a, p) \<in> (inside_rel s)\<^sup>*" "(p, j) \<in> inside_rel s" using assms(2) by (meson tranclD2)
  have "(p, j) \<in> parent_rel s" "(i, j) \<in> parent_rel s"
    using p(2) assms(3) inside_parent [OF assms(1)] by (auto simp: inside_rel_def)
  then show ?thesis using p(1) by (simp add: parent_rel_def)
qed

lemma apart_next:
  assumes "store_ok s" "apart s (i # xs)"
  shows "apart s (xs @ items_of s i) \<and> i \<notin> (inside_rel s)\<^sup>* `` set (xs @ items_of s i)"
proof -
  have wf: "wf (parent_rel s)" using assms(1) by (simp add: store_ok_def)
  then have "acyclic (inside_rel s)" using inside_parent [OF assms(1)] acyclic_subset wf_acyclic by blast
  then have no_loop: "(a, a) \<notin> (inside_rel s)\<^sup>+" for a by (simp add: acyclic_def)
  have child: "(i, j) \<in> (inside_rel s)\<^sup>+" if "j \<in> set (items_of s i)" for j using that by (auto simp: inside_rel_def)
  have d: "distinct (items_of s i)" using assms(1) by (auto simp: store_ok_def items_of_def split: option.split)
  have old: "(a, b) \<notin> (inside_rel s)\<^sup>+" if "a \<in> set (i # xs)" "b \<in> set (i # xs)" for a b
    using assms(2) that unfolding apart_def by blast
  have fresh: "j \<notin> set xs" if "j \<in> set (items_of s i)" for j using child [OF that] old by auto
  have to_old: "(j, b) \<notin> (inside_rel s)\<^sup>*" if "j \<in> set (items_of s i)" "b \<in> set (i # xs)" for j b
    using child [OF that(1)] old that(2) by (meson list.set_intros(1) trancl_rtrancl_trancl)
  have to_new: "(a, j) \<notin> (inside_rel s)\<^sup>+" if j: "j \<in> set (items_of s i)" and a: "a \<in> set (xs @ items_of s i)" for a j
  proof
    assume "(a, j) \<in> (inside_rel s)\<^sup>+"
    then have "(a, i) \<in> (inside_rel s)\<^sup>*" using inside_up [OF assms(1) _ j] by blast
    moreover have "(a, i) \<notin> (inside_rel s)\<^sup>*"
      using a to_old [of a i] old [of a i] assms(2) by (auto simp: rtrancl_eq_or_trancl apart_def)
    ultimately show False by blast
  qed
  have "(a, b) \<notin> (inside_rel s)\<^sup>+" if "a \<in> set (xs @ items_of s i)" "b \<in> set (xs @ items_of s i)" for a b
    using that to_new [of b a] old [of a b] to_old [of a b] by (auto dest: trancl_into_rtrancl)
  moreover have "distinct (xs @ items_of s i)" using assms(2) d fresh by (auto simp: apart_def)
  moreover have "(a, i) \<notin> (inside_rel s)\<^sup>*" if "a \<in> set (xs @ items_of s i)" for a
    using that to_old [of a i] old [of a i] assms(2) by (auto simp: rtrancl_eq_or_trancl apart_def)
  ultimately show ?thesis unfolding apart_def by blast
qed

lemma not_hasNext: "\<not> hasNext it \<Longrightarrow> pending s it = []"
  by (auto simp: hasNext_def pending_def split: prod.split)

text \<open>\<open>T\<close> adds up \<open>f\<close> over a thing and everything inside it.\<close>

lemma iterate_all:
  assumes "store_ok s" "finite (dom (is_parent s))" "iterator_ok s it" "apart s (pending s it)"
    and T: "\<And>i. T i = f i + (sum_list (map T (items_of s i)) :: u32)"
  shows "\<exists>xs. iterate s it = Some xs \<and> distinct xs \<and> set xs = (inside_rel s)\<^sup>* `` set (pending s it)
    \<and> sum_list (map f xs) = sum_list (map T (pending s it)) \<and> (\<forall>i. holding s i it = Some (i \<in> set xs))"
  using wf_mult [OF inside_wf [OF assms(1,2)]] assms(3,4)
proof (induction "mset (pending s it)" arbitrary: it rule: wf_induct_rule)
  case less
  have e: "iterate s it = (if hasNext it then do { rest \<leftarrow> iterate s (advance s it); Some (hd (snd it) # rest) } else Some [])"
    "holding s i it = (if hasNext it then (if hd (snd it) = i then Some True else holding s i (advance s it)) else Some False)" for i
    by (rule iterate.simps) (rule holding.simps)
  show ?case
  proof (cases "hasNext it")
    case False
    then show ?thesis unfolding e by (simp add: not_hasNext)
  next
    case True
    let ?i = "hd (snd it)" and ?rest = "tl (pending s it)"
    have a: "iterator_ok s (advance s it)" "pending s it = ?i # ?rest" "pending s (advance s it) = ?rest @ items_of s ?i"
      using advance_ok [OF less.prems(1) True] by (auto intro: list.expand)
    have ap: "apart s (?rest @ items_of s ?i)" "?i \<notin> (inside_rel s)\<^sup>* `` set (?rest @ items_of s ?i)"
      using apart_next [OF assms(1), of ?i ?rest] less.prems(2) a(2) by simp_all
    have "(mset ?rest + mset (items_of s ?i), mset ?rest + {#?i#}) \<in> mult ((inside_rel s)\<inverse>)"
      by (rule one_step_implies_mult) (auto simp: inside_rel_def)
    then have "(mset (pending s (advance s it)), mset (pending s it)) \<in> mult ((inside_rel s)\<inverse>)"
      unfolding a(3) by (subst a(2)) simp
    then obtain xs where xs: "iterate s (advance s it) = Some xs" "distinct xs" "set xs = (inside_rel s)\<^sup>* `` set (?rest @ items_of s ?i)"
      "sum_list (map f xs) = sum_list (map T (?rest @ items_of s ?i))" "\<forall>i. holding s i (advance s it) = Some (i \<in> set xs)"
      using less.hyps [of "advance s it"] a(1,3) ap(1) by auto
    have "(inside_rel s)\<^sup>* `` set (?i # ?rest) = insert ?i (set xs)"
      unfolding xs(3) by (auto simp: inside_rel_def elim: converse_rtranclE intro: converse_rtrancl_into_rtrancl)
    moreover have "sum_list (map f (?i # xs)) = sum_list (map T (?i # ?rest))"
      using xs(4) T [of ?i] by simp
    moreover have "?i \<notin> set xs" using ap(2) xs(3) by simp
    ultimately show ?thesis unfolding e using True xs(1,2,5) a(2) by auto
  qed
qed

lemma iterator_start: "pending s (iterator s c) = items_of s c" "iterator_ok s (iterator s c)"
  by (auto simp: pending_def iterator_def iterator_ok_def)

lemma weight_unfolds: "weights_ok s \<Longrightarrow> getWeight s i = item_getWeight s i + sum_list (map (getWeight s) (items_of s i))"
  by (cases "is_container s i = None") (auto simp: getWeight_total total_def weights_ok_def content_weight_def items_of_def)

lemma inside_from: "(inside_rel s)\<^sup>* `` set (items_of s c) = (inside_rel s)\<^sup>+ `` {c}"
  unfolding trancl_unfold_left by (auto simp: inside_rel_def)

lemma iterator_from:
  assumes "store_ok s" "finite (dom (is_parent s))" "\<And>i. T i = f i + (sum_list (map T (items_of s i)) :: u32)"
  shows "\<exists>xs. getItems s c True = Some xs \<and> distinct xs \<and> set xs = (inside_rel s)\<^sup>+ `` {c}
    \<and> sum_list (map f xs) = sum_list (map T (items_of s c))
    \<and> getItemHoldingCount s c = Some (length xs) \<and> (\<forall>i. isHoldingItem s c i = Some (i \<in> set xs))"
proof -
  have acyc: "acyclic (inside_rel s)"
    using assms(1) inside_parent [OF assms(1)] acyclic_subset wf_acyclic unfolding store_ok_def by blast
  have "(a, b) \<notin> (inside_rel s)\<^sup>+" if "a \<in> set (items_of s c)" "b \<in> set (items_of s c)" for a b
  proof
    assume "(a, b) \<in> (inside_rel s)\<^sup>+"
    then have "(a, c) \<in> (inside_rel s)\<^sup>*" by (rule inside_up [OF assms(1) _ that(2)])
    moreover have "(c, a) \<in> inside_rel s" using that(1) by (simp add: inside_rel_def)
    ultimately have "(c, c) \<in> (inside_rel s)\<^sup>+" by (rule rtrancl_into_trancl2 [rotated])
    then show False using acyc by (simp add: acyclic_def)
  qed
  moreover have "distinct (items_of s c)" using assms(1) by (auto simp: store_ok_def items_of_def split: option.split)
  ultimately have "apart s (pending s (iterator s c))" unfolding iterator_start apart_def by blast
  then obtain xs where "iterate s (iterator s c) = Some xs" "distinct xs" "set xs = (inside_rel s)\<^sup>+ `` {c}"
    "sum_list (map f xs) = sum_list (map T (items_of s c))" "\<forall>i. holding s i (iterator s c) = Some (i \<in> set xs)"
    using iterate_all [OF assms(1,2) iterator_start(2), of c T f] assms(3) unfolding iterator_start inside_from by blast
  then show ?thesis by (auto simp: getItems_def getItemHoldingCount_def isHoldingItem_def)
qed

text \<open>C39. The iterator of a container, which queues the containers it meets, ends, and meets each thing
  inside, at whatever depth, exactly once: \<^verbatim>\<open>getItems\<close> lists them all,
  \<^verbatim>\<open>getItemHoldingCount\<close> counts them and \<^verbatim>\<open>isHoldingItem\<close> finds exactly them.\<close>

theorem iterator_meets_each_once:
  assumes "store_ok s" "finite (dom (is_parent s))"
  shows "\<exists>xs. getItems s c True = Some xs \<and> distinct xs \<and> set xs = (inside_rel s)\<^sup>+ `` {c}
    \<and> getItemHoldingCount s c = Some (length xs) \<and> (\<forall>i. isHoldingItem s c i = Some (i \<in> set xs))"
  using iterator_from [OF assms, of "\<lambda>_. 0" "\<lambda>_. 0" c] by auto

text \<open>C4. The weight a container has added up over all changes is, modulo 2 to the 32, its own and
  that of every thing inside at whatever depth, each counted once.\<close>

theorem weight_of_everything_inside:
  assumes "store_ok s" "weights_ok s" "finite (dom (is_parent s'))" "container_run s s'"
  shows "\<exists>xs. distinct xs \<and> set xs = (inside_rel s')\<^sup>+ `` {c}
    \<and> getWeight s' c = item_getWeight s' c + sum_list (map (item_getWeight s') xs)"
proof -
  have ok: "store_ok s'" "weights_ok s'" using container_run_ok [OF assms(4,1,2)] by simp_all
  obtain xs where "distinct xs" "set xs = (inside_rel s')\<^sup>+ `` {c}"
    "sum_list (map (item_getWeight s') xs) = sum_list (map (getWeight s') (items_of s' c))"
    using iterator_from [OF ok(1) assms(3), of "getWeight s'" "item_getWeight s'" c] weight_unfolds [OF ok(2)] by blast
  then show ?thesis using weight_unfolds [OF ok(2), of c] by auto
qed

text \<open>Two items with the same custom attributes are never equal.\<close>

lemma custom_attributes_differ:
  assumes "(type, AttrCustom m) \<in> set (ia_list a)" "\<not> isStrAttrType type"
  shows "\<not> equals_attributes False (Some a) (Some a)"
  using assms by (force simp: equals_attributes_def values_differ_def list_ex_iff)

section \<open>A player with bags\<close>

text \<open>Player 1 on the tile 0 carries the bag 2 with the bag 3 and the item 5 in it; the bag 4 is in bag 3,
  and the pokeball 6 is nowhere.\<close>

definition sample_item :: "u16 \<Rightarrow> item" where
  "sample_item n = \<lparr>im_id = n, im_data = \<lparr>si_count = 1, si_attributes = None\<rparr>\<rparr>"

definition sample_type :: "u16 \<Rightarrow> thing_type" where
  "sample_type n = \<lparr>tt_weight = 10, tt_stackable = False, tt_pickupable = True, tt_moveable = True, tt_pokeball = (n = 7),
     tt_decayTime = 0, tt_stopTime = False, tt_decayTo = -1,
     tt_saved = \<lparr>st_fluidContainer = False, st_splash = False, st_stackable = False, st_charges = 0, st_moveable = True\<rparr>\<rparr>"

definition sample_bag :: "nat list \<Rightarrow> u32 \<Rightarrow> container" where
  "sample_bag is w = \<lparr>co_items = is, co_maxSize = 4, co_totalWeight = w, co_unlocked = True, co_pokeballs = []\<rparr>"

definition sample_store :: item_store where
  "sample_store = \<lparr>is_type = sample_type,
     is_item = [2 \<mapsto> sample_item 1, 3 \<mapsto> sample_item 1, 4 \<mapsto> sample_item 1, 5 \<mapsto> sample_item 2, 6 \<mapsto> sample_item 7],
     is_parent = [1 \<mapsto> 0, 2 \<mapsto> 1, 3 \<mapsto> 2, 5 \<mapsto> 2, 4 \<mapsto> 3],
     is_container = [2 \<mapsto> sample_bag [3, 5] 30, 3 \<mapsto> sample_bag [4] 10, 4 \<mapsto> sample_bag [] 0],
     is_player = [1 \<mapsto> []], is_inbox = (\<lambda>_. False), is_house = (\<lambda>_. False)\<rparr>"

lemma below_only: "parent_rel s \<subseteq> less_than \<Longrightarrow> (x, y) \<in> (parent_rel s)\<^sup>* \<Longrightarrow> x \<le> (y :: nat)"
  by (erule rtrancl_induct) (auto simp: subset_iff intro: le_less_trans less_imp_le)

lemma sample_rel: "parent_rel sample_store \<subseteq> less_than"
  by (auto simp: parent_rel_def sample_store_def split: if_splits)

lemma sample_ok: "store_ok sample_store"
  using wf_subset [OF wf_less_than sample_rel]
  by (auto simp: store_ok_def sample_store_def items_of_def sample_bag_def split: if_splits)

lemma sample_weight: "item_getWeight sample_store i = 10"
  by (simp add: item_getWeight_def getBaseWeight_def the_item_def the_type_def sample_store_def sample_type_def sample_item_def
      hasAttribute_def)

lemma sample_weights: "weights_ok sample_store"
  unfolding weights_ok_def content_weight_def getWeight_total sample_weight
  by (auto simp: sample_store_def items_of_def total_def sample_bag_def split: if_splits)

lemma sample_finite: "finite (dom (is_parent sample_store))"
  by (simp add: sample_store_def)

lemma sample_add: "container_op sample_store (addThing 4 (Some 0) 6 sample_store)"
proof (rule op_add)
  show "(6, 4) \<notin> (parent_rel sample_store)\<^sup>*" using below_only [OF sample_rel] by fastforce
qed (simp_all add: sample_store_def)

lemma container_weights_kept_witness:
  "\<exists>s. addThing 4 (Some 0) 6 sample_store = Some s \<and> store_ok s \<and> weights_ok s"
  by (rule container_weights_kept [OF sample_ok sample_weights run_none sample_add])

lemma queryAdd_decides_witness:
  "queryAdd (\<lambda>_ _ _ _. RETURNVALUE_NOERROR) sample_store 4 None 2 1 no_query_flags
    = Some RETURNVALUE_THISISIMPOSSIBLE"
proof -
  let ?f = no_query_flags
  have d: "is_container sample_store 4 = Some (sample_bag [] 0)" "\<not> qf_childIsOwner ?f" by (simp_all add: sample_store_def no_query_flags_def)
  have "(2, 3) \<in> parent_rel sample_store" "(3, 4) \<in> parent_rel sample_store" by (simp_all add: parent_rel_def sample_store_def)
  then have "(2, 4) \<in> (parent_rel sample_store)\<^sup>*" by (meson r_into_rtrancl rtrancl_trans)
  then show ?thesis
    using queryAdd_decides [OF sample_ok d, of "\<lambda>_ _ _ _. RETURNVALUE_NOERROR" None 2 1]
    by (auto simp: sample_store_def sample_bag_def the_type_def sample_type_def)
qed

lemma move_keeps_order_witness:
  "\<exists>s1 s2. removeThing 2 5 1 sample_store = Some s1 \<and> addThing 4 None 5 s1 = Some s2 \<and> hd (items_of s2 4) = 5
    \<and> is_parent s2 5 = Some 4 \<and> store_ok s2 \<and> weights_ok s2"
proof (rule move_keeps_order [OF sample_ok sample_weights])
  let ?f = no_query_flags
  have "query_parents sample_store False 5 3 = Some RETURNVALUE_NOERROR"
    by (subst query_parents.simps, simp add: sample_store_def, subst query_parents.simps, simp, subst query_parents.simps, simp,
        subst query_parents.simps, simp)
  moreover have "getTopParent sample_store 4 = Some 1"
    unfolding getTopParent_def
    by (simp add: sample_store_def, subst climb.simps, simp, subst climb.simps, simp, subst climb.simps, simp, subst climb.simps, simp)
  ultimately show "queryAdd (\<lambda>_ _ _ _. RETURNVALUE_NOERROR) sample_store 4 None 5 1 ?f = Some RETURNVALUE_NOERROR"
    unfolding queryAdd_def by (simp add: no_query_flags_def sample_store_def sample_bag_def the_type_def the_item_def sample_item_def sample_type_def)
  show "\<not> qf_childIsOwner ?f" by (simp add: no_query_flags_def)
qed (simp_all add: sample_store_def sample_bag_def items_of_def the_type_def sample_type_def)

lemma iterator_meets_each_once_witness:
  "\<exists>xs. getItems sample_store 2 True = Some xs \<and> distinct xs \<and> set xs = (inside_rel sample_store)\<^sup>+ `` {2}
    \<and> getItemHoldingCount sample_store 2 = Some (length xs) \<and> (\<forall>i. isHoldingItem sample_store 2 i = Some (i \<in> set xs))"
  by (rule iterator_meets_each_once [OF sample_ok sample_finite])

lemma weight_of_everything_inside_witness:
  "\<exists>xs. distinct xs \<and> set xs = (inside_rel sample_store)\<^sup>+ `` {2}
    \<and> getWeight sample_store 2 = item_getWeight sample_store 2 + sum_list (map (item_getWeight sample_store) xs)"
  by (rule weight_of_everything_inside [OF sample_ok sample_weights sample_finite run_none])

text \<open>A ball put into the inner bag is noted by that bag and by the player, not by the bags around it; so
  when the outer bag leaves, the player keeps a ball that is no longer there.\<close>

definition ball_added :: "item_store option" where
  "ball_added = addThing 4 (Some 0) 6 sample_store"

definition ball_gone :: "item_store option" where
  "ball_gone = do { s \<leftarrow> ball_added; removeThing 2 3 1 s }"

declare updateItemWeight.simps [code] climb.simps [code]

lemma player_keeps_lost_ball:
  "map_option (\<lambda>s. (is_player s 1, is_parent s 6, is_parent s 4, is_parent s 3)) ball_gone = Some (Some [6], Some 4, Some 3, None)"
  by code_simp

end
