(* ===== verification/Tile_Stack.thy ===== *)
theory Tile_Stack
  imports Container Damage Position
begin

text \<open>
  The things on one tile: \<^verbatim>\<open>src/src/tile.cpp\<close>, \<^verbatim>\<open>src/src/tile.h\<close> with
  \<^verbatim>\<open>hasProperty\<close> of \<^verbatim>\<open>src/src/item.cpp\<close>. A tile has a ground, a vector of items whose
  first \<^verbatim>\<open>downItemCount\<close> lie below the creatures and whose rest is always on top, the
  creatures, and flags that sum up what lies on it. The items live in the store of \<open>Container\<close>. What is
  told to clients and scripts, the fields shown by browsing and the caches of spectators (see
  \<open>Creature_Map\<close>) are left out.
\<close>

section \<open>Types of items\<close>

record stack_type =
  sk_ground :: bool
  sk_splash :: bool
  sk_magicField :: bool
  sk_bed :: bool
  sk_alwaysOnTop :: bool
  sk_topOrder :: byte
  sk_blockSolid :: bool
  sk_allowPickupable :: bool
  sk_hasHeight :: bool
  sk_hangable :: bool
  sk_vertical :: bool
  sk_horizontal :: bool
  sk_blockPathFind :: bool
  sk_blockProjectile :: bool
  sk_floorChange :: byte
  sk_replaceable :: bool
  sk_combatType :: combat_type
  sk_lookThrough :: bool

datatype item_class = Plain_Item | Teleport_Item | MagicField_Item | Mailbox_Item | TrashHolder_Item | Bed_Item | DepotLocker_Item

text \<open>The table of item types and the class of every object.\<close>

record tile_types =
  ts_type :: "u16 \<Rightarrow> stack_type"
  ts_class :: "nat \<Rightarrow> item_class"

definition stack_type_of :: "tile_types \<Rightarrow> item_store \<Rightarrow> nat \<Rightarrow> stack_type" where
  "stack_type_of ts s i = ts_type ts (im_id (the_item s i))"

definition isAlwaysOnTop :: "tile_types \<Rightarrow> item_store \<Rightarrow> nat \<Rightarrow> bool" where
  "isAlwaysOnTop ts s i = sk_alwaysOnTop (stack_type_of ts s i)"

datatype item_property = CONST_PROP_BLOCKSOLID | CONST_PROP_HASHEIGHT | CONST_PROP_BLOCKPROJECTILE | CONST_PROP_BLOCKPATH
  | CONST_PROP_ISVERTICAL | CONST_PROP_ISHORIZONTAL | CONST_PROP_MOVEABLE | CONST_PROP_IMMOVABLEBLOCKSOLID
  | CONST_PROP_IMMOVABLEBLOCKPATH | CONST_PROP_IMMOVABLENOFIELDBLOCKPATH | CONST_PROP_NOFIELDBLOCKPATH | CONST_PROP_SUPPORTHANGABLE

definition item_hasProperty :: "tile_types \<Rightarrow> item_store \<Rightarrow> nat \<Rightarrow> item_property \<Rightarrow> bool" where
  "item_hasProperty ts s i prop =
     (let it = stack_type_of ts s i; moveable = tt_moveable (the_type s i);
          unique = hasAttribute ITEM_ATTRIBUTE_UNIQUEID (im_data (the_item s i))
      in case prop of
           CONST_PROP_BLOCKSOLID \<Rightarrow> sk_blockSolid it
         | CONST_PROP_MOVEABLE \<Rightarrow> moveable \<and> \<not> unique
         | CONST_PROP_HASHEIGHT \<Rightarrow> sk_hasHeight it
         | CONST_PROP_BLOCKPROJECTILE \<Rightarrow> sk_blockProjectile it
         | CONST_PROP_BLOCKPATH \<Rightarrow> sk_blockPathFind it
         | CONST_PROP_ISVERTICAL \<Rightarrow> sk_vertical it
         | CONST_PROP_ISHORIZONTAL \<Rightarrow> sk_horizontal it
         | CONST_PROP_IMMOVABLEBLOCKSOLID \<Rightarrow> sk_blockSolid it \<and> (\<not> moveable \<or> unique)
         | CONST_PROP_IMMOVABLEBLOCKPATH \<Rightarrow> sk_blockPathFind it \<and> (\<not> moveable \<or> unique)
         | CONST_PROP_IMMOVABLENOFIELDBLOCKPATH \<Rightarrow> \<not> sk_magicField it \<and> sk_blockPathFind it \<and> (\<not> moveable \<or> unique)
         | CONST_PROP_NOFIELDBLOCKPATH \<Rightarrow> \<not> sk_magicField it \<and> sk_blockPathFind it
         | CONST_PROP_SUPPORTHANGABLE \<Rightarrow> sk_horizontal it \<or> sk_vertical it)"

section \<open>Tiles and their flags\<close>

record tile_stack =
  ti_ground :: "nat option"
  ti_items :: "nat list"
  ti_downItemCount :: nat
  ti_creatures :: "nat list"
  ti_flags :: u32
  ti_pos :: position

text \<open>The value of a flag is one bit of the flags.\<close>

definition tile_bit :: "nat \<Rightarrow> u32" where "tile_bit k = push_bit k 1"

definition TILESTATE_FLOORCHANGE_DOWN :: u32 where "TILESTATE_FLOORCHANGE_DOWN = tile_bit 0"
definition TILESTATE_FLOORCHANGE_NORTH :: u32 where "TILESTATE_FLOORCHANGE_NORTH = tile_bit 1"
definition TILESTATE_FLOORCHANGE_SOUTH :: u32 where "TILESTATE_FLOORCHANGE_SOUTH = tile_bit 2"
definition TILESTATE_FLOORCHANGE_EAST :: u32 where "TILESTATE_FLOORCHANGE_EAST = tile_bit 3"
definition TILESTATE_FLOORCHANGE_WEST :: u32 where "TILESTATE_FLOORCHANGE_WEST = tile_bit 4"
definition TILESTATE_FLOORCHANGE_SOUTH_ALT :: u32 where "TILESTATE_FLOORCHANGE_SOUTH_ALT = tile_bit 5"
definition TILESTATE_FLOORCHANGE_EAST_ALT :: u32 where "TILESTATE_FLOORCHANGE_EAST_ALT = tile_bit 6"
definition TILESTATE_PROTECTIONZONE :: u32 where "TILESTATE_PROTECTIONZONE = tile_bit 7"
definition TILESTATE_NOPVPZONE :: u32 where "TILESTATE_NOPVPZONE = tile_bit 8"
definition TILESTATE_NOLOGOUT :: u32 where "TILESTATE_NOLOGOUT = tile_bit 9"
definition TILESTATE_PVPZONE :: u32 where "TILESTATE_PVPZONE = tile_bit 10"
definition TILESTATE_TELEPORT :: u32 where "TILESTATE_TELEPORT = tile_bit 11"
definition TILESTATE_MAGICFIELD :: u32 where "TILESTATE_MAGICFIELD = tile_bit 12"
definition TILESTATE_MAILBOX :: u32 where "TILESTATE_MAILBOX = tile_bit 13"
definition TILESTATE_TRASHHOLDER :: u32 where "TILESTATE_TRASHHOLDER = tile_bit 14"
definition TILESTATE_BED :: u32 where "TILESTATE_BED = tile_bit 15"
definition TILESTATE_DEPOT :: u32 where "TILESTATE_DEPOT = tile_bit 16"
definition TILESTATE_BLOCKSOLID :: u32 where "TILESTATE_BLOCKSOLID = tile_bit 17"
definition TILESTATE_BLOCKPATH :: u32 where "TILESTATE_BLOCKPATH = tile_bit 18"
definition TILESTATE_IMMOVABLEBLOCKSOLID :: u32 where "TILESTATE_IMMOVABLEBLOCKSOLID = tile_bit 19"
definition TILESTATE_IMMOVABLEBLOCKPATH :: u32 where "TILESTATE_IMMOVABLEBLOCKPATH = tile_bit 20"
definition TILESTATE_IMMOVABLENOFIELDBLOCKPATH :: u32 where "TILESTATE_IMMOVABLENOFIELDBLOCKPATH = tile_bit 21"
definition TILESTATE_NOFIELDBLOCKPATH :: u32 where "TILESTATE_NOFIELDBLOCKPATH = tile_bit 22"
definition TILESTATE_SUPPORTS_HANGABLE :: u32 where "TILESTATE_SUPPORTS_HANGABLE = tile_bit 23"

definition TILESTATE_FLOORCHANGE :: u32 where
  "TILESTATE_FLOORCHANGE = TILESTATE_FLOORCHANGE_DOWN OR TILESTATE_FLOORCHANGE_NORTH OR TILESTATE_FLOORCHANGE_SOUTH
     OR TILESTATE_FLOORCHANGE_EAST OR TILESTATE_FLOORCHANGE_WEST OR TILESTATE_FLOORCHANGE_SOUTH_ALT OR TILESTATE_FLOORCHANGE_EAST_ALT"

lemmas tile_state_defs = TILESTATE_FLOORCHANGE_DOWN_def TILESTATE_FLOORCHANGE_NORTH_def TILESTATE_FLOORCHANGE_SOUTH_def
  TILESTATE_FLOORCHANGE_EAST_def TILESTATE_FLOORCHANGE_WEST_def TILESTATE_FLOORCHANGE_SOUTH_ALT_def TILESTATE_FLOORCHANGE_EAST_ALT_def
  TILESTATE_PROTECTIONZONE_def TILESTATE_NOPVPZONE_def TILESTATE_NOLOGOUT_def TILESTATE_PVPZONE_def TILESTATE_TELEPORT_def
  TILESTATE_MAGICFIELD_def TILESTATE_MAILBOX_def TILESTATE_TRASHHOLDER_def TILESTATE_BED_def TILESTATE_DEPOT_def
  TILESTATE_BLOCKSOLID_def TILESTATE_BLOCKPATH_def TILESTATE_IMMOVABLEBLOCKSOLID_def TILESTATE_IMMOVABLEBLOCKPATH_def
  TILESTATE_IMMOVABLENOFIELDBLOCKPATH_def TILESTATE_NOFIELDBLOCKPATH_def TILESTATE_SUPPORTS_HANGABLE_def

definition hasFlag :: "u32 \<Rightarrow> tile_stack \<Rightarrow> bool" where "hasFlag flag t = hasBitSet flag (ti_flags t)"
definition setFlag :: "u32 \<Rightarrow> tile_stack \<Rightarrow> tile_stack" where "setFlag flag t = t\<lparr>ti_flags := ti_flags t OR flag\<rparr>"
definition resetFlag :: "u32 \<Rightarrow> tile_stack \<Rightarrow> tile_stack" where "resetFlag flag t = t\<lparr>ti_flags := ti_flags t AND NOT flag\<rparr>"

definition downItems :: "tile_stack \<Rightarrow> nat list" where "downItems t = take (ti_downItemCount t) (ti_items t)"
definition topItems :: "tile_stack \<Rightarrow> nat list" where "topItems t = drop (ti_downItemCount t) (ti_items t)"

definition ground_list :: "tile_stack \<Rightarrow> nat list" where
  "ground_list t = (case ti_ground t of Some g \<Rightarrow> [g] | None \<Rightarrow> [])"

definition Tile_hasProperty :: "tile_types \<Rightarrow> item_store \<Rightarrow> tile_stack \<Rightarrow> item_property \<Rightarrow> bool" where
  "Tile_hasProperty ts s t prop = list_ex (\<lambda>i. item_hasProperty ts s i prop) (ground_list t @ ti_items t)"

definition hasProperty_except :: "tile_types \<Rightarrow> item_store \<Rightarrow> nat \<Rightarrow> tile_stack \<Rightarrow> item_property \<Rightarrow> bool" where
  "hasProperty_except ts s exclude t prop =
     list_ex (\<lambda>i. i \<noteq> exclude \<and> item_hasProperty ts s i prop) (ground_list t @ ti_items t)"

fun height_of :: "(nat \<Rightarrow> bool) \<Rightarrow> nat \<Rightarrow> nat \<Rightarrow> nat list \<Rightarrow> bool" where
  "height_of high n height [] = False"
| "height_of high n height (i # is) =
     (let height = (if high i then height + 1 else height) in if n = height then True else height_of high n height is)"

definition hasHeight :: "tile_types \<Rightarrow> item_store \<Rightarrow> nat \<Rightarrow> tile_stack \<Rightarrow> bool" where
  "hasHeight ts s n t = height_of (\<lambda>i. item_hasProperty ts s i CONST_PROP_HASHEIGHT) n 0 (ground_list t @ ti_items t)"

definition set_if :: "bool \<Rightarrow> u32 \<Rightarrow> tile_stack \<Rightarrow> tile_stack" where
  "set_if c flag t = (if c then setFlag flag t else t)"

definition reset_if :: "bool \<Rightarrow> u32 \<Rightarrow> tile_stack \<Rightarrow> tile_stack" where
  "reset_if c flag t = (if c then resetFlag flag t else t)"

definition setTileFlags :: "tile_types \<Rightarrow> item_store \<Rightarrow> nat \<Rightarrow> tile_stack \<Rightarrow> tile_stack" where
  "setTileFlags ts s i t =
     (let has = item_hasProperty ts s i; floorChange = sk_floorChange (stack_type_of ts s i);
          t = (if \<not> hasFlag TILESTATE_FLOORCHANGE t \<and> floorChange \<noteq> 0 then setFlag (ucast floorChange) t else t);
          t = set_if (has CONST_PROP_IMMOVABLEBLOCKSOLID) TILESTATE_IMMOVABLEBLOCKSOLID t;
          t = set_if (has CONST_PROP_BLOCKPATH) TILESTATE_BLOCKPATH t;
          t = set_if (has CONST_PROP_NOFIELDBLOCKPATH) TILESTATE_NOFIELDBLOCKPATH t;
          t = set_if (has CONST_PROP_IMMOVABLENOFIELDBLOCKPATH) TILESTATE_IMMOVABLENOFIELDBLOCKPATH t;
          t = set_if (ts_class ts i = Teleport_Item) TILESTATE_TELEPORT t;
          t = set_if (ts_class ts i = MagicField_Item) TILESTATE_MAGICFIELD t;
          t = set_if (ts_class ts i = Mailbox_Item) TILESTATE_MAILBOX t;
          t = set_if (ts_class ts i = TrashHolder_Item) TILESTATE_TRASHHOLDER t;
          t = set_if (has CONST_PROP_BLOCKSOLID) TILESTATE_BLOCKSOLID t;
          t = set_if (ts_class ts i = Bed_Item) TILESTATE_BED t;
          t = set_if (ts_class ts i = DepotLocker_Item) TILESTATE_DEPOT t
      in set_if (has CONST_PROP_SUPPORTHANGABLE) TILESTATE_SUPPORTS_HANGABLE t)"

definition resetTileFlags :: "tile_types \<Rightarrow> item_store \<Rightarrow> nat \<Rightarrow> tile_stack \<Rightarrow> tile_stack" where
  "resetTileFlags ts s i t =
     (let last = (\<lambda>prop. item_hasProperty ts s i prop \<and> \<not> hasProperty_except ts s i t prop);
          t = reset_if (sk_floorChange (stack_type_of ts s i) \<noteq> 0) TILESTATE_FLOORCHANGE t;
          t = reset_if (last CONST_PROP_BLOCKSOLID) TILESTATE_BLOCKSOLID t;
          t = reset_if (last CONST_PROP_IMMOVABLEBLOCKSOLID) TILESTATE_IMMOVABLEBLOCKSOLID t;
          t = reset_if (last CONST_PROP_BLOCKPATH) TILESTATE_BLOCKPATH t;
          t = reset_if (last CONST_PROP_NOFIELDBLOCKPATH) TILESTATE_NOFIELDBLOCKPATH t;
          t = reset_if (last CONST_PROP_IMMOVABLEBLOCKPATH) TILESTATE_IMMOVABLEBLOCKPATH t;
          t = reset_if (last CONST_PROP_IMMOVABLENOFIELDBLOCKPATH) TILESTATE_IMMOVABLENOFIELDBLOCKPATH t;
          t = reset_if (ts_class ts i = Teleport_Item) TILESTATE_TELEPORT t;
          t = reset_if (ts_class ts i = MagicField_Item) TILESTATE_MAGICFIELD t;
          t = reset_if (ts_class ts i = Mailbox_Item) TILESTATE_MAILBOX t;
          t = reset_if (ts_class ts i = TrashHolder_Item) TILESTATE_TRASHHOLDER t;
          t = reset_if (ts_class ts i = Bed_Item) TILESTATE_BED t;
          t = reset_if (ts_class ts i = DepotLocker_Item) TILESTATE_DEPOT t
      in reset_if (item_hasProperty ts s i CONST_PROP_SUPPORTHANGABLE) TILESTATE_SUPPORTS_HANGABLE t)"

section \<open>Indices\<close>

text \<open>A thing that is no item of the store is a creature. \<open>None\<close> stands for -1.\<close>

definition is_creature :: "item_store \<Rightarrow> nat \<Rightarrow> bool" where "is_creature s i \<longleftrightarrow> is_item s i = None"

definition Tile_getThingIndex :: "tile_types \<Rightarrow> item_store \<Rightarrow> tile_stack \<Rightarrow> nat \<Rightarrow> nat option" where
  "Tile_getThingIndex ts s t thing =
     (if ti_ground t = Some thing then Some 0
      else
        (let n = length (ground_list t) in
         if \<not> is_creature s thing \<and> isAlwaysOnTop ts s thing \<and> thing \<in> set (topItems t)
         then map_option (\<lambda>k. n + k) (index_of thing (topItems t))
         else
           (let n = n + length (topItems t) in
            if is_creature s thing then map_option (\<lambda>k. n + k) (index_of thing (ti_creatures t))
            else
              (let n = n + length (ti_creatures t) in
               if \<not> isAlwaysOnTop ts s thing then map_option (\<lambda>k. n + k) (index_of thing (downItems t)) else None))))"

definition Tile_getThing :: "tile_stack \<Rightarrow> nat \<Rightarrow> nat option" where
  "Tile_getThing t index =
     (if ti_ground t \<noteq> None \<and> index = 0 then ti_ground t
      else
        (let index = (if ti_ground t \<noteq> None then index - 1 else index) in
         if index < length (topItems t) then Some (ti_items t ! (length (downItems t) + index))
         else
           (let index = index - length (topItems t) in
            if index < length (ti_creatures t) then Some (ti_creatures t ! index)
            else
              (let index = index - length (ti_creatures t) in
               if index < length (downItems t) then Some (ti_items t ! index) else None))))"

text \<open>The stack position that a player is told: the walks over the top items and the down items stop at ten
  things. \<open>sees\<close> tells which creatures the player sees.\<close>

fun pos_on_top :: "nat \<Rightarrow> nat \<Rightarrow> nat list \<Rightarrow> nat option" where
  "pos_on_top item n [] = None"
| "pos_on_top item n (i # is) = (if i = item then Some n else if n + 1 = 10 then None else pos_on_top item (n + 1) is)"

fun pos_below :: "nat \<Rightarrow> nat \<Rightarrow> nat list \<Rightarrow> nat option" where
  "pos_below item n [] = None"
| "pos_below item n (i # is) = (if i = item then Some n else if n + 1 \<ge> 10 then None else pos_below item (n + 1) is)"

fun pass_creatures :: "(nat \<Rightarrow> bool) \<Rightarrow> nat \<Rightarrow> nat list \<Rightarrow> nat option" where
  "pass_creatures sees n [] = Some n"
| "pass_creatures sees n (c # cs) =
     (if sees c then (if n + 1 \<ge> 10 then None else pass_creatures sees (n + 1) cs) else pass_creatures sees n cs)"

definition getStackposOfItem :: "tile_types \<Rightarrow> item_store \<Rightarrow> tile_stack \<Rightarrow> (nat \<Rightarrow> bool) \<Rightarrow> nat \<Rightarrow> nat option" where
  "getStackposOfItem ts s t sees item =
     (if ti_ground t = Some item then Some 0
      else
        (let n = length (ground_list t); top = isAlwaysOnTop ts s item in
         if top then pos_on_top item n (topItems t)
         else
           (let n = n + length (topItems t) in
            if n \<ge> 10 then None
            else case pass_creatures sees n (ti_creatures t) of
                None \<Rightarrow> None
              | Some n \<Rightarrow> pos_below item n (downItems t))))"

definition getClientIndexOfCreature :: "tile_stack \<Rightarrow> (nat \<Rightarrow> bool) \<Rightarrow> nat \<Rightarrow> nat option" where
  "getClientIndexOfCreature t sees creature =
     (let n = length (ground_list t) + length (topItems t); before = takeWhile (\<lambda>c. c \<noteq> creature) (rev (ti_creatures t)) in
      if creature \<in> set (ti_creatures t) then Some (n + length (filter sees before)) else None)"

definition Tile_getItemTypeCount :: "item_store \<Rightarrow> tile_stack \<Rightarrow> u16 \<Rightarrow> u16 option \<Rightarrow> nat" where
  "Tile_getItemTypeCount s t itemId subType =
     sum_list (map (\<lambda>i. countByType s i subType) (filter (\<lambda>i. im_id (the_item s i) = itemId) (ground_list t @ ti_items t)))"

section \<open>Changes\<close>

text \<open>The tile as a cylinder is the number \<open>t\<close>; its state travels with the store.\<close>

type_synonym tile_state = "tile_stack \<times> item_store"

definition set_down :: "nat list \<Rightarrow> tile_stack \<Rightarrow> tile_stack" where
  "set_down is t = t\<lparr>ti_items := is @ topItems t, ti_downItemCount := length is\<rparr>"

definition set_top :: "nat list \<Rightarrow> tile_stack \<Rightarrow> tile_stack" where
  "set_top is t = t\<lparr>ti_items := downItems t @ is\<rparr>"

definition Tile_removeThing :: "tile_types \<Rightarrow> nat \<Rightarrow> nat \<Rightarrow> tile_state \<Rightarrow> tile_state" where
  "Tile_removeThing ts thing n = (\<lambda>(t, s).
     if is_creature s thing then (t\<lparr>ti_creatures := remove1 thing (ti_creatures t)\<rparr>, s)
     else if Tile_getThingIndex ts s t thing = None then (t, s)
     else if ti_ground t = Some thing then
       (let s = set_parent thing None s in (resetTileFlags ts s thing (t\<lparr>ti_ground := None\<rparr>), s))
     else if isAlwaysOnTop ts s thing then
       (if thing \<notin> set (topItems t) then (t, s)
        else
          (let s = set_parent thing None s
           in (resetTileFlags ts s thing (set_top (remove1 thing (topItems t)) t), s)))
     else if thing \<notin> set (downItems t) then (t, s)
     else if tt_stackable (the_type s thing) \<and> n \<noteq> unat (item_count s thing) then
       (let newCount = of_nat (unat (item_count s thing) - n) :: u16
        in (t, set_item thing (\<lambda>it. it\<lparr>im_data := setItemCount newCount (im_data it)\<rparr>) s))
     else
       (let s = set_parent thing None s
        in (resetTileFlags ts s thing (set_down (remove1 thing (downItems t)) t), s)))"

text \<open>Where a new item goes among the top items: before the first whose order is not smaller, but after all of
  the same order when the map is loaded.\<close>

definition insert_before :: "(nat \<Rightarrow> bool) \<Rightarrow> nat \<Rightarrow> nat list \<Rightarrow> nat list" where
  "insert_before stop i is = takeWhile (\<lambda>j. \<not> stop j) is @ i # dropWhile (\<lambda>j. \<not> stop j) is"

definition release :: "tile_types \<Rightarrow> nat \<Rightarrow> tile_state \<Rightarrow> tile_state" where
  "release ts old st = (let (t, s) = Tile_removeThing ts old 1 st in (t, set_parent old None s))"

definition top_order :: "tile_types \<Rightarrow> item_store \<Rightarrow> nat \<Rightarrow> byte" where
  "top_order ts s i = sk_topOrder (stack_type_of ts s i)"

definition Tile_addThing :: "tile_types \<Rightarrow> nat \<Rightarrow> nat \<Rightarrow> tile_state \<Rightarrow> tile_state" where
  "Tile_addThing ts tile thing = (\<lambda>(t, s).
     if is_creature s thing then (t\<lparr>ti_creatures := thing # ti_creatures t\<rparr>, set_parent thing (Some tile) s)
     else if length (ti_items t) \<ge> 65535 then (t, s)
     else
       (let s = set_parent thing (Some tile) s; itemType = stack_type_of ts s thing in
        if sk_ground itemType then
          (case ti_ground t of
             None \<Rightarrow> (setTileFlags ts s thing (t\<lparr>ti_ground := Some thing\<rparr>), s)
           | Some oldGround \<Rightarrow>
               (let s = set_parent oldGround None s;
                    t = resetTileFlags ts s oldGround (t\<lparr>ti_ground := Some thing\<rparr>)
                in (setTileFlags ts s thing t, s)))
        else if sk_alwaysOnTop itemType then
          (let (t, s) = (case (if sk_splash itemType then List.find (\<lambda>i. sk_splash (stack_type_of ts s i)) (topItems t) else None) of
                           Some oldSplash \<Rightarrow> release ts oldSplash (t, s)
                         | None \<Rightarrow> (t, s));
               t = set_top (insert_before (\<lambda>i. sk_topOrder itemType \<le> top_order ts s i) thing (topItems t)) t
           in (setTileFlags ts s thing t, s))
        else
          (let put = (\<lambda>(t, s). (setTileFlags ts s thing (set_down (thing # downItems t) t), s)) in
           case (if sk_magicField itemType then List.find (\<lambda>i. ts_class ts i = MagicField_Item) (downItems t) else None) of
             Some oldField \<Rightarrow>
               if sk_replaceable (stack_type_of ts s oldField) then put (release ts oldField (t, s))
               else (t, set_parent thing None s)
           | None \<Rightarrow> put (t, s))))"

definition Tile_updateThing :: "tile_types \<Rightarrow> nat \<Rightarrow> u16 \<Rightarrow> u16 \<Rightarrow> tile_state \<Rightarrow> tile_state" where
  "Tile_updateThing ts thing itemId n = (\<lambda>(t, s).
     if Tile_getThingIndex ts s t thing = None then (t, s)
     else if is_creature s thing then (t, s)
     else
       (let t = resetTileFlags ts s thing t;
            s = set_item thing (setID (is_type s) itemId) s;
            s = set_item thing (\<lambda>it. it\<lparr>im_data := setSubType (tt_saved (is_type s (im_id it))) n (im_data it)\<rparr>) s
        in (setTileFlags ts s thing t, s)))"

text \<open>The tile with the item at an index exchanged, and the item that was there.\<close>

definition exchange_at :: "nat \<Rightarrow> nat \<Rightarrow> tile_stack \<Rightarrow> (tile_stack \<times> nat) option" where
  "exchange_at index thing t =
     (case (if index = 0 then ti_ground t else None) of
        Some g \<Rightarrow> Some (t\<lparr>ti_ground := Some thing\<rparr>, g)
      | None \<Rightarrow>
          (let pos = (if ti_ground t \<noteq> None then index - 1 else index) in
           if pos < length (topItems t) then Some (set_top ((topItems t)[pos := thing]) t, topItems t ! pos)
           else
             (let pos = pos - length (topItems t) in
              if pos < length (ti_creatures t) then None
              else
                (let pos = pos - length (ti_creatures t) in
                 if pos < length (downItems t) then Some (set_down ((downItems t)[pos := thing]) t, downItems t ! pos)
                 else None))))"

definition Tile_replaceThing :: "tile_types \<Rightarrow> nat \<Rightarrow> nat \<Rightarrow> nat \<Rightarrow> tile_state \<Rightarrow> tile_state" where
  "Tile_replaceThing ts tile index thing = (\<lambda>(t, s).
     if is_creature s thing then (t, s)
     else
       case exchange_at index thing t of
         None \<Rightarrow> (t, s)
       | Some (t, oldItem) \<Rightarrow>
           (let s = set_parent thing (Some tile) s;
                t = resetTileFlags ts s oldItem t;
                t = setTileFlags ts s thing t
            in (t, set_parent oldItem None s)))"

definition Tile_internalAddThing :: "tile_types \<Rightarrow> nat \<Rightarrow> nat \<Rightarrow> tile_state \<Rightarrow> tile_state" where
  "Tile_internalAddThing ts tile thing = (\<lambda>(t, s).
     let s = set_parent thing (Some tile) s in
     if is_creature s thing then (t\<lparr>ti_creatures := thing # ti_creatures t\<rparr>, s)
     else
       (let itemType = stack_type_of ts s thing in
        if sk_ground itemType then
          (if ti_ground t = None then (setTileFlags ts s thing (t\<lparr>ti_ground := Some thing\<rparr>), s) else (t, s))
        else if length (ti_items t) \<ge> 65535 then (t, s)
        else if sk_alwaysOnTop itemType then
          (setTileFlags ts s thing
             (set_top (insert_before (\<lambda>i. top_order ts s i > sk_topOrder itemType) thing (topItems t)) t), s)
        else (setTileFlags ts s thing (set_down (thing # downItems t) t), s)))"

section \<open>Tiles in order\<close>

text \<open>The first items of the vector are down items and the rest are top items, nothing is there twice, and
  all items are in the store and have the tile as their parent. Magic fields do not stack.\<close>

definition tile_ok :: "tile_types \<Rightarrow> nat \<Rightarrow> tile_state \<Rightarrow> bool" where
  "tile_ok ts tile = (\<lambda>(t, s).
     distinct (ground_list t @ ti_items t) \<and> ti_downItemCount t \<le> length (ti_items t) \<and> length (ti_items t) \<le> 65535
     \<and> (\<forall>i \<in> set (downItems t). \<not> isAlwaysOnTop ts s i) \<and> (\<forall>i \<in> set (topItems t). isAlwaysOnTop ts s i)
     \<and> (\<forall>i \<in> set (ground_list t @ ti_items t). \<not> is_creature s i \<and> is_parent s i = Some tile)
     \<and> (\<forall>i \<in> set (ti_items t). ts_class ts i = MagicField_Item \<longrightarrow> \<not> tt_stackable (the_type s i))
     \<and> distinct (ti_creatures t) \<and> (\<forall>c \<in> set (ti_creatures t). is_creature s c))"

text \<open>The flags that tell whether any item on the tile blocks.\<close>

definition blocking_flags :: "(nat \<times> item_property) list" where
  "blocking_flags = [(17, CONST_PROP_BLOCKSOLID), (18, CONST_PROP_BLOCKPATH), (19, CONST_PROP_IMMOVABLEBLOCKSOLID),
     (21, CONST_PROP_IMMOVABLENOFIELDBLOCKPATH), (22, CONST_PROP_NOFIELDBLOCKPATH)]"

definition flags_ok :: "tile_types \<Rightarrow> tile_state \<Rightarrow> bool" where
  "flags_ok ts = (\<lambda>(t, s). \<forall>(k, prop) \<in> set blocking_flags. bit (ti_flags t) k \<longleftrightarrow> Tile_hasProperty ts s t prop)"

lemma bit_tile_bit: "k < 32 \<Longrightarrow> bit (tile_bit k) j \<longleftrightarrow> j = k"
  by (auto simp: tile_bit_def push_bit_of_1 bit_exp_iff)

lemma hasFlag_bit: "k < 32 \<Longrightarrow> hasFlag (tile_bit k) t \<longleftrightarrow> bit (ti_flags t) k"
  proof -
  assume k: "k < 32"
  have "bit (ti_flags t AND tile_bit k) j \<longleftrightarrow> bit (ti_flags t) k \<and> j = k" for j
    using k by (auto simp: bit_and_iff bit_tile_bit)
  then have "ti_flags t AND tile_bit k = 0 \<longleftrightarrow> \<not> bit (ti_flags t) k"
    by (metis bit_0_eq bit_eqI bot_apply bot_bool_def)
  then show ?thesis by (simp add: hasFlag_def hasBitSet_def)
qed

lemma bit_set_if: "k < 32 \<Longrightarrow> bit (ti_flags (set_if c (tile_bit k) t)) j \<longleftrightarrow> bit (ti_flags t) j \<or> c \<and> j = k"
  by (auto simp: set_if_def setFlag_def bit_or_iff bit_tile_bit)

lemma bit_reset_if: "k < 32 \<Longrightarrow> bit (ti_flags (reset_if c (tile_bit k) t)) j \<longleftrightarrow> bit (ti_flags t) j \<and> \<not> (c \<and> j = k)"
  by (auto simp: reset_if_def resetFlag_def bit_and_iff bit_not_iff bit_tile_bit dest: bit_imp_le_length)

lemma set_if_same [simp]:
  "ti_ground (set_if c f t) = ti_ground t" "ti_items (set_if c f t) = ti_items t" "ti_downItemCount (set_if c f t) = ti_downItemCount t"
  "ti_creatures (set_if c f t) = ti_creatures t" "ti_pos (set_if c f t) = ti_pos t"
  "ti_ground (reset_if c f t) = ti_ground t" "ti_items (reset_if c f t) = ti_items t" "ti_downItemCount (reset_if c f t) = ti_downItemCount t"
  "ti_creatures (reset_if c f t) = ti_creatures t" "ti_pos (reset_if c f t) = ti_pos t"
  by (simp_all add: set_if_def reset_if_def setFlag_def resetFlag_def)

lemma flags_same [simp]:
  "ti_ground (setTileFlags ts s i t) = ti_ground t" "ti_items (setTileFlags ts s i t) = ti_items t"
  "ti_downItemCount (setTileFlags ts s i t) = ti_downItemCount t" "ti_creatures (setTileFlags ts s i t) = ti_creatures t"
  "ti_pos (setTileFlags ts s i t) = ti_pos t"
  "ti_ground (resetTileFlags ts s i t) = ti_ground t" "ti_items (resetTileFlags ts s i t) = ti_items t"
  "ti_downItemCount (resetTileFlags ts s i t) = ti_downItemCount t" "ti_creatures (resetTileFlags ts s i t) = ti_creatures t"
  "ti_pos (resetTileFlags ts s i t) = ti_pos t"
  by (simp_all add: setTileFlags_def resetTileFlags_def Let_def setFlag_def)

lemma bit_setTileFlags:
  assumes "(k, prop) \<in> set blocking_flags"
  shows "bit (ti_flags (setTileFlags ts s i t)) k \<longleftrightarrow> bit (ti_flags t) k \<or> item_hasProperty ts s i prop"
proof -
  have "\<not> bit (ucast (sk_floorChange (stack_type_of ts s i)) :: u32) k"
    using assms by (auto simp: blocking_flags_def bit_ucast_iff bit_byte_out)
  then show ?thesis using assms
    unfolding setTileFlags_def Let_def tile_state_defs
    by (auto simp: blocking_flags_def bit_set_if setFlag_def bit_or_iff)
qed

lemma bit_reset_floor: "7 \<le> k \<Longrightarrow> k < 32 \<Longrightarrow> bit (ti_flags (reset_if c TILESTATE_FLOORCHANGE u)) k = bit (ti_flags u) k"
  by (auto simp: reset_if_def resetFlag_def bit_and_iff bit_not_iff TILESTATE_FLOORCHANGE_def tile_state_defs bit_or_iff bit_tile_bit)

lemma bit_resetTileFlags:
  assumes "(k, prop) \<in> set blocking_flags"
  shows "bit (ti_flags (resetTileFlags ts s i t)) k \<longleftrightarrow>
    bit (ti_flags t) k \<and> \<not> (item_hasProperty ts s i prop \<and> \<not> hasProperty_except ts s i t prop)"
proof -
  have k: "(k, prop) = (17, CONST_PROP_BLOCKSOLID) \<or> (k, prop) = (18, CONST_PROP_BLOCKPATH) \<or> (k, prop) = (19, CONST_PROP_IMMOVABLEBLOCKSOLID)
    \<or> (k, prop) = (21, CONST_PROP_IMMOVABLENOFIELDBLOCKPATH) \<or> (k, prop) = (22, CONST_PROP_NOFIELDBLOCKPATH)"
    using assms by (auto simp: blocking_flags_def)
  then have "bit (ti_flags (resetTileFlags ts s i t)) k \<longleftrightarrow>
    bit (ti_flags (reset_if (sk_floorChange (stack_type_of ts s i) \<noteq> 0) TILESTATE_FLOORCHANGE t)) k
    \<and> \<not> (item_hasProperty ts s i prop \<and> \<not> hasProperty_except ts s i t prop)"
    unfolding resetTileFlags_def Let_def tile_state_defs by (elim disjE) (simp_all only: bit_reset_if, simp_all)
  moreover have "7 \<le> k" "k < 32" using k by auto
  ultimately show ?thesis by (simp only: bit_reset_floor)
qed

definition tile_things :: "tile_stack \<Rightarrow> nat set" where "tile_things t = set (ground_list t @ ti_items t)"

lemma property_list: "Tile_hasProperty ts s t prop \<longleftrightarrow> (\<exists>i \<in> tile_things t. item_hasProperty ts s i prop)"
  by (simp add: Tile_hasProperty_def list_ex_iff tile_things_def)

lemma except_list:
  "hasProperty_except ts s i t prop \<longleftrightarrow> (\<exists>j \<in> tile_things t - {i}. item_hasProperty ts s j prop)"
  by (auto simp: hasProperty_except_def list_ex_iff tile_things_def)

lemma ground_list_flags [simp]: "ground_list (setTileFlags ts s i t) = ground_list t" "ground_list (resetTileFlags ts s i t) = ground_list t"
  "downItems (setTileFlags ts s i t) = downItems t" "downItems (resetTileFlags ts s i t) = downItems t"
  "topItems (setTileFlags ts s i t) = topItems t" "topItems (resetTileFlags ts s i t) = topItems t"
  by (simp_all add: ground_list_def downItems_def topItems_def)

lemma things_flags [simp]: "tile_things (setTileFlags ts s i t) = tile_things t" "tile_things (resetTileFlags ts s i t) = tile_things t"
  by (simp_all add: tile_things_def)

lemma property_flags [simp]:
  "Tile_hasProperty ts s (setTileFlags ts s' i t) prop = Tile_hasProperty ts s t prop"
  "Tile_hasProperty ts s (resetTileFlags ts s' i t) prop = Tile_hasProperty ts s t prop"
  by (simp_all add: property_list)

definition same_props :: "item_store \<Rightarrow> item_store \<Rightarrow> nat \<Rightarrow> bool" where
  "same_props s s' i \<longleftrightarrow> the_item s' i = the_item s i \<and> is_type s' = is_type s"

lemma flags_okD:
  "flags_ok ts (t, s) \<Longrightarrow> (k, p) \<in> set blocking_flags \<Longrightarrow> bit (ti_flags t) k \<longleftrightarrow> (\<exists>i \<in> tile_things t. item_hasProperty ts s i p)"
  by (auto simp: flags_ok_def property_list)

lemma same_props: "same_props s s' i \<Longrightarrow> item_hasProperty ts s' i = item_hasProperty ts s i"
  by (rule ext) (simp add: same_props_def item_hasProperty_def stack_type_of_def the_type_def cong: item_property.case_cong)

text \<open>How the flags follow the items.\<close>

lemma flags_added:
  assumes "flags_ok ts (t, s)" "ti_flags t' = ti_flags t" "tile_things t' = insert i (tile_things t)"
    "\<forall>j. same_props s s' j"
  shows "flags_ok ts (setTileFlags ts s' i t', s')"
proof -
  have p: "item_hasProperty ts s' j = item_hasProperty ts s j" for j using assms(4) same_props by blast
  have "bit (ti_flags (setTileFlags ts s' i t')) k \<longleftrightarrow> Tile_hasProperty ts s' (setTileFlags ts s' i t') pr"
    if "(k, pr) \<in> set blocking_flags" for k pr
    using flags_okD [OF assms(1) that] unfolding bit_setTileFlags [OF that] property_flags things_flags property_list assms(2,3) p
    by auto
  then show ?thesis by (auto simp: flags_ok_def)
qed

lemma flags_removed:
  assumes "flags_ok ts (t, s)" "ti_flags t' = ti_flags t" "tile_things t' = tile_things t - {i}"
    "i \<in> tile_things t" "\<forall>j. same_props s s' j"
  shows "flags_ok ts (resetTileFlags ts s' i t', s')"
proof -
  have p: "item_hasProperty ts s' j = item_hasProperty ts s j" for j using assms(5) same_props by blast
  have "bit (ti_flags (resetTileFlags ts s' i t')) k \<longleftrightarrow> Tile_hasProperty ts s' (resetTileFlags ts s' i t') pr"
    if "(k, pr) \<in> set blocking_flags" for k pr
    using flags_okD [OF assms(1) that] assms(4) unfolding bit_resetTileFlags [OF that] property_flags things_flags except_list property_list assms(2,3) p
    by auto
  then show ?thesis by (auto simp: flags_ok_def)
qed

text \<open>Also when the item itself changes while it stays.\<close>

lemma flags_exchanged:
  assumes "flags_ok ts (t, s)" "ti_flags t' = ti_flags t"
    "tile_things t' = insert j (tile_things t - {i})" "i \<in> tile_things t"
    "\<forall>x. x \<noteq> j \<longrightarrow> same_props s' s'' x" "\<forall>x. same_props s s' x" "j = i \<or> j \<notin> tile_things t \<and> same_props s' s'' j"
  shows "flags_ok ts (setTileFlags ts s'' j (resetTileFlags ts s' i t'), s'')"
proof -
  have p: "item_hasProperty ts s' x = item_hasProperty ts s x" for x using assms(6) same_props by blast
  have q: "x \<noteq> j \<Longrightarrow> item_hasProperty ts s'' x = item_hasProperty ts s x" for x using assms(5) same_props p by metis
  have "bit (ti_flags (setTileFlags ts s'' j (resetTileFlags ts s' i t'))) k
      \<longleftrightarrow> Tile_hasProperty ts s'' (setTileFlags ts s'' j (resetTileFlags ts s' i t')) pr"
    if kp: "(k, pr) \<in> set blocking_flags" for k pr
  proof -
    have "(\<exists>x \<in> insert j (tile_things t - {i}). item_hasProperty ts s'' x pr)
      \<longleftrightarrow> item_hasProperty ts s'' j pr \<or> (\<exists>x \<in> tile_things t - {i} - {j}. item_hasProperty ts s x pr)"
      using q by (metis Diff_iff insert_iff singleton_iff)
    moreover have "(\<exists>x \<in> insert j (tile_things t - {i}) - {i}. item_hasProperty ts s x pr)
      \<longleftrightarrow> j \<noteq> i \<and> item_hasProperty ts s j pr \<or> (\<exists>x \<in> tile_things t - {i} - {j}. item_hasProperty ts s x pr)"
      by auto
    moreover have "(\<exists>x \<in> tile_things t. item_hasProperty ts s x pr)
      \<longleftrightarrow> item_hasProperty ts s i pr \<or> (\<exists>x \<in> tile_things t - {i} - {j}. item_hasProperty ts s x pr)"
      using assms(4,7) by auto
    moreover have "j \<noteq> i \<longrightarrow> item_hasProperty ts s'' j pr = item_hasProperty ts s j pr" using assms(7) same_props p by metis
    ultimately show ?thesis
      using flags_okD [OF assms(1) kp]
      unfolding bit_setTileFlags [OF kp] bit_resetTileFlags [OF kp] property_flags things_flags except_list property_list assms(2,3) p
      by argo
  qed
  then show ?thesis by (auto simp: flags_ok_def)
qed

end
