(* ===== verification/Tile_Order.thy ===== *)
theory Tile_Order
  imports Tile_Stack
begin

text \<open>
  What the tile of \<open>Tile_Stack\<close> promises: every operation keeps the vector in its two parts and the
  blocking flags equal to what the items on the tile say; positions and things correspond.
\<close>

section \<open>The two parts of the vector\<close>

lemma items_split: "ti_items t = downItems t @ topItems t"
  by (simp add: downItems_def topItems_def)

lemma tile_things_split: "tile_things t = set (ground_list t) \<union> set (downItems t) \<union> set (topItems t)"
  unfolding tile_things_def set_append by (subst items_split) auto

lemma set_down_simps [simp]:
  "downItems (set_down is t) = is" "topItems (set_down is t) = topItems t" "ground_list (set_down is t) = ground_list t"
  "ti_creatures (set_down is t) = ti_creatures t" "ti_flags (set_down is t) = ti_flags t" "ti_ground (set_down is t) = ti_ground t"
  "ti_downItemCount (set_down is t) \<le> length (ti_items (set_down is t))"
  by (simp_all add: set_down_def downItems_def topItems_def ground_list_def)

lemma set_top_simps [simp]:
  "ti_downItemCount t \<le> length (ti_items t) \<Longrightarrow> downItems (set_top is t) = downItems t"
  "ti_downItemCount t \<le> length (ti_items t) \<Longrightarrow> topItems (set_top is t) = is"
  "ground_list (set_top is t) = ground_list t" "ti_creatures (set_top is t) = ti_creatures t"
  "ti_flags (set_top is t) = ti_flags t" "ti_ground (set_top is t) = ti_ground t"
  "ti_downItemCount t \<le> length (ti_items t) \<Longrightarrow> ti_downItemCount (set_top is t) \<le> length (ti_items (set_top is t))"
  by (simp_all add: set_top_def downItems_def topItems_def ground_list_def)

lemma ground_simps [simp]:
  "downItems (t\<lparr>ti_ground := x\<rparr>) = downItems t" "topItems (t\<lparr>ti_ground := x\<rparr>) = topItems t"
  "ground_list (t\<lparr>ti_ground := x\<rparr>) = (case x of Some g \<Rightarrow> [g] | None \<Rightarrow> [])"
  "downItems (t\<lparr>ti_creatures := cs\<rparr>) = downItems t" "topItems (t\<lparr>ti_creatures := cs\<rparr>) = topItems t"
  "ground_list (t\<lparr>ti_creatures := cs\<rparr>) = ground_list t"
  by (simp_all add: downItems_def topItems_def ground_list_def)

lemma store_same [simp]:
  "is_creature (set_parent i p s) = is_creature s" "isAlwaysOnTop ts (set_parent i p s) = isAlwaysOnTop ts s"
  "stack_type_of ts (set_parent i p s) = stack_type_of ts s" "the_type (set_parent i p s) = the_type s"
  "is_type (set_parent i p s) = is_type s" "the_item (set_parent i p s) = the_item s" "item_count (set_parent i p s) = item_count s" "same_props s (set_parent i p s) j"
  "top_order ts (set_parent i p s) = top_order ts s" "item_hasProperty ts (set_parent i p s) = item_hasProperty ts s"
  by (auto simp: set_parent_def is_creature_def isAlwaysOnTop_def stack_type_of_def the_type_def the_item_def item_count_def same_props_def
      top_order_def item_hasProperty_def fun_eq_iff cong: item_property.case_cong)

text \<open>The tile in its parts: ground, down items, top items, creatures.\<close>

definition parts_ok :: "tile_types \<Rightarrow> nat \<Rightarrow> item_store \<Rightarrow> nat list \<Rightarrow> nat list \<Rightarrow> nat list \<Rightarrow> nat list \<Rightarrow> bool" where
  "parts_ok ts tile s g ds us cs \<longleftrightarrow>
     distinct (g @ ds @ us) \<and> length ds + length us \<le> 65535 \<and> (\<forall>i \<in> set ds. \<not> isAlwaysOnTop ts s i) \<and> (\<forall>i \<in> set us. isAlwaysOnTop ts s i)
     \<and> (\<forall>i \<in> set g \<union> set ds \<union> set us. \<not> is_creature s i \<and> is_parent s i = Some tile)
     \<and> (\<forall>i \<in> set ds \<union> set us. ts_class ts i = MagicField_Item \<longrightarrow> \<not> tt_stackable (the_type s i))
     \<and> distinct cs \<and> (\<forall>c \<in> set cs. is_creature s c)"

lemma tile_ok_parts:
  "tile_ok ts tile (t, s) \<longleftrightarrow> ti_downItemCount t \<le> length (ti_items t) \<and> parts_ok ts tile s (ground_list t) (downItems t) (topItems t) (ti_creatures t)"
proof -
  have s: "set (ti_items t) = set (downItems t) \<union> set (topItems t)" "length (ti_items t) = length (downItems t) + length (topItems t)"
    "distinct (ground_list t @ ti_items t) = distinct (ground_list t @ downItems t @ topItems t)"
    by (subst items_split, simp)+
  show ?thesis unfolding tile_ok_def parts_ok_def prod.case s set_append by (auto simp: s(2) [symmetric])
qed

lemma parts_parent: "i \<notin> set g \<union> set ds \<union> set us \<Longrightarrow> parts_ok ts tile (set_parent i p s) g ds us cs = parts_ok ts tile s g ds us cs"
  by (auto simp: parts_ok_def)

lemma parts_remove:
  assumes "parts_ok ts tile s g ds us cs"
  shows "parts_ok ts tile (set_parent i None s) (removeAll i g) (remove1 i ds) (remove1 i us) cs"
proof -
  have "distinct ds" "distinct us" using assms by (simp_all add: parts_ok_def)
  then show ?thesis using assms by (auto simp: parts_ok_def distinct_removeAll length_remove1 dest: notin_set_remove1)
qed

lemma index_of_some: "i \<in> set is \<Longrightarrow> \<exists>k. index_of i is = Some k"
  using index_of_none [of i "is"] by auto

lemma Tile_index_none:
  assumes "tile_ok ts tile (t, s)" "\<not> is_creature s i"
  shows "Tile_getThingIndex ts s t i = None \<longleftrightarrow> i \<notin> tile_things t"
proof -
  have g: "i \<in> set (ground_list t) \<longleftrightarrow> ti_ground t = Some i" by (auto simp: ground_list_def split: option.split)
  show ?thesis
  proof (cases "ti_ground t = Some i")
    case True
    then show ?thesis unfolding tile_things_split Un_iff g by (simp add: Tile_getThingIndex_def)
  next
    case False
    have "i \<in> set (topItems t) \<Longrightarrow> isAlwaysOnTop ts s i" "i \<in> set (downItems t) \<Longrightarrow> \<not> isAlwaysOnTop ts s i"
      using assms(1) unfolding tile_ok_parts parts_ok_def by blast+
    then show ?thesis
      using False assms(2) unfolding tile_things_split Un_iff g
      by (cases "isAlwaysOnTop ts s i") (auto simp: Tile_getThingIndex_def Let_def index_of_none)
  qed
qed

section \<open>Removing\<close>

lemma remove_full:
  assumes "tile_ok ts tile (t, s)" "i \<in> tile_things t"
    "i \<in> set (downItems t) \<longrightarrow> \<not> (tt_stackable (the_type s i) \<and> n \<noteq> unat (item_count s i))"
  shows "\<exists>t'. Tile_removeThing ts i n (t, s) = (t', set_parent i None s) \<and> tile_ok ts tile (t', set_parent i None s)
    \<and> (flags_ok ts (t, s) \<longrightarrow> flags_ok ts (t', set_parent i None s)) \<and> tile_things t' = tile_things t - {i}
    \<and> length (ti_items t') \<le> length (ti_items t) \<and> ti_creatures t' = ti_creatures t \<and> (i \<in> set (ti_items t) \<longrightarrow> ti_ground t' = ti_ground t)"
proof -
  let ?s = "set_parent i None s"
  have ok: "ti_downItemCount t \<le> length (ti_items t)" "parts_ok ts tile s (ground_list t) (downItems t) (topItems t) (ti_creatures t)"
    using assms(1) unfolding tile_ok_parts by simp_all
  have c: "\<not> is_creature s i" using ok(2) assms(2) unfolding parts_ok_def tile_things_split by blast
  have ix: "Tile_getThingIndex ts s t i \<noteq> None" using Tile_index_none [OF assms(1) c] assms(2) by simp
  have fin: ?thesis if "Tile_removeThing ts i n (t, s) = (resetTileFlags ts ?s i t', ?s)" "ti_flags t' = ti_flags t" "ti_creatures t' = ti_creatures t"
      "ti_downItemCount t' \<le> length (ti_items t')" "ground_list t' = removeAll i (ground_list t)" "downItems t' = remove1 i (downItems t)"
      "topItems t' = remove1 i (topItems t)" "i \<in> set (ti_items t) \<longrightarrow> ti_ground t' = ti_ground t" for t'
  proof -
    have "parts_ok ts tile ?s (ground_list t') (downItems t') (topItems t') (ti_creatures t')"
      using parts_remove [OF ok(2), of i] that(3,5-7) by simp
    then have 1: "tile_ok ts tile (resetTileFlags ts ?s i t', ?s)" using that(4) unfolding tile_ok_parts by simp
    have "distinct (downItems t)" "distinct (topItems t)" using ok(2) by (simp_all add: parts_ok_def)
    then have 2: "tile_things t' = tile_things t - {i}" unfolding tile_things_split that(5-7) by auto
    have 3: "length (ti_items t') \<le> length (ti_items t)"
      unfolding items_split [of t'] items_split [of t] length_append that(6,7) by (simp add: add_mono length_remove1)
    have 4: "flags_ok ts (t, s) \<longrightarrow> flags_ok ts (resetTileFlags ts ?s i t', ?s)"
      using flags_removed [of ts t s t' i ?s] that(2) 2 assms(2) by simp
    show ?thesis using that(1,3,8) 1 2 3 4 by auto
  qed
  have d: "distinct (ground_list t @ downItems t @ topItems t)" using ok(2) by (simp add: parts_ok_def)
  consider (ground) "ti_ground t = Some i" | (top) "ti_ground t \<noteq> Some i" "i \<in> set (topItems t)" | (down) "ti_ground t \<noteq> Some i" "i \<in> set (downItems t)"
    using assms(2) unfolding tile_things_split by (auto simp: ground_list_def split: option.splits)
  then show ?thesis
  proof cases
    case ground
    let ?t = "t\<lparr>ti_ground := None\<rparr>"
    have i: "i \<notin> set (downItems t)" "i \<notin> set (topItems t)" using d ground by (auto simp: ground_list_def)
    show ?thesis
    proof (rule fin [of ?t])
      show "Tile_removeThing ts i n (t, s) = (resetTileFlags ts ?s i ?t, ?s)"
        using c ix ground by (auto simp: Tile_removeThing_def Let_def)
      show "ground_list ?t = removeAll i (ground_list t)" using ground by (simp add: ground_list_def)
      show "i \<in> set (ti_items t) \<longrightarrow> ti_ground ?t = ti_ground t" using i unfolding items_split by simp
    qed (use i ok(1) in \<open>simp_all add: remove1_idem\<close>)
  next
    case top
    have i: "i \<notin> set (downItems t)" "i \<notin> set (ground_list t)" "isAlwaysOnTop ts s i" using d top(2) ok(2) by (auto simp: parts_ok_def)
    show ?thesis
    proof (rule fin [of "set_top (remove1 i (topItems t)) t"])
      show "Tile_removeThing ts i n (t, s) = (resetTileFlags ts ?s i (set_top (remove1 i (topItems t)) t), ?s)"
        using c ix top i by (auto simp: Tile_removeThing_def Let_def)
    qed (use i ok(1) in \<open>simp_all add: remove1_idem\<close>)
  next
    case down
    have i: "i \<notin> set (topItems t)" "i \<notin> set (ground_list t)" "\<not> isAlwaysOnTop ts s i" using d down(2) ok(2) by (auto simp: parts_ok_def)
    show ?thesis
    proof (rule fin [of "set_down (remove1 i (downItems t)) t"])
      show "Tile_removeThing ts i n (t, s) = (resetTileFlags ts ?s i (set_down (remove1 i (downItems t)) t), ?s)"
        using c ix down i assms(3) by (auto simp: Tile_removeThing_def Let_def)
    qed (use i ok(1) in \<open>simp_all add: remove1_idem\<close>)
  qed
qed

lemma the_item_set: "the_item (set_item i f s) j = (if j = i \<and> is_item s i \<noteq> None then f (the_item s i) else the_item s j)"
  by (auto simp: the_item_def set_item_def)

lemma is_creature_set [simp]: "is_creature (set_item i f s) = is_creature s" "is_type (set_item i f s) = is_type s"
  by (auto simp: is_creature_def set_item_def fun_eq_iff)

lemma hasAttribute_count: "hasAttribute type (setItemCount c d) = hasAttribute type d"
  by (simp add: hasAttribute_def setItemCount_def)

lemma count_same:
  fixes i c s
  defines "s' \<equiv> set_item i (\<lambda>it. it\<lparr>im_data := setItemCount c (im_data it)\<rparr>) s"
  shows "stack_type_of ts s' = stack_type_of ts s" "the_type s' = the_type s" "item_hasProperty ts s' = item_hasProperty ts s"
proof -
  have id: "im_id (the_item s' j) = im_id (the_item s j)" for j unfolding s'_def the_item_set by simp
  have type: "is_type s' = is_type s" unfolding s'_def by simp
  have attr: "hasAttribute a (im_data (the_item s' j)) = hasAttribute a (im_data (the_item s j))" for a j
    unfolding s'_def the_item_set by (simp add: hasAttribute_count)
  show st: "stack_type_of ts s' = stack_type_of ts s" by (rule ext) (simp add: stack_type_of_def id)
  show ty: "the_type s' = the_type s" by (rule ext) (simp add: the_type_def id type)
  show "item_hasProperty ts s' = item_hasProperty ts s"
    unfolding item_hasProperty_def [abs_def] attr st ty ..
qed

lemma parts_props:
  assumes "is_parent s' = is_parent s" "is_creature s' = is_creature s" "\<And>i. i \<in> set ds \<union> set us \<Longrightarrow> isAlwaysOnTop ts s' i = isAlwaysOnTop ts s i"
    "\<And>i. i \<in> set ds \<union> set us \<Longrightarrow> ts_class ts i = MagicField_Item \<Longrightarrow> tt_stackable (the_type s' i) \<longrightarrow> tt_stackable (the_type s i)"
    "parts_ok ts tile s g ds us cs"
  shows "parts_ok ts tile s' g ds us cs"
proof -
  have "\<forall>i \<in> set ds. \<not> isAlwaysOnTop ts s' i" "\<forall>i \<in> set us. isAlwaysOnTop ts s' i"
    using assms(3,5) by (simp_all add: parts_ok_def)
  moreover have "\<forall>i \<in> set ds \<union> set us. ts_class ts i = MagicField_Item \<longrightarrow> \<not> tt_stackable (the_type s' i)"
    using assms(4,5) unfolding parts_ok_def by blast
  ultimately show ?thesis using assms(5) unfolding parts_ok_def assms(1,2) by simp
qed

lemma flags_ok_props:
  "ti_flags t' = ti_flags t \<Longrightarrow> tile_things t' = tile_things t \<Longrightarrow> item_hasProperty ts s' = item_hasProperty ts s \<Longrightarrow> flags_ok ts (t', s') = flags_ok ts (t, s)"
  by (simp add: flags_ok_def property_list)

lemma parts_creatures: "parts_ok ts tile s g ds us cs \<Longrightarrow> parts_ok ts tile s g ds us (remove1 c cs)"
  by (auto simp: parts_ok_def dest: notin_set_remove1)

lemma remove_ok:
  assumes "tile_ok ts tile (t, s)"
  shows "tile_ok ts tile (Tile_removeThing ts i n (t, s)) \<and> (flags_ok ts (t, s) \<longrightarrow> flags_ok ts (Tile_removeThing ts i n (t, s)))"
proof -
  have ok: "ti_downItemCount t \<le> length (ti_items t)" "parts_ok ts tile s (ground_list t) (downItems t) (topItems t) (ti_creatures t)"
    using assms unfolding tile_ok_parts by simp_all
  consider (creature) "is_creature s i" | (absent) "\<not> is_creature s i" "i \<notin> tile_things t"
    | (full) "i \<in> tile_things t" "\<not> (tt_stackable (the_type s i) \<and> n \<noteq> unat (item_count s i))"
    | (part) "\<not> is_creature s i" "i \<in> tile_things t" "tt_stackable (the_type s i)" "n \<noteq> unat (item_count s i)" by blast
  then show ?thesis
  proof cases
    case creature
    let ?t = "t\<lparr>ti_creatures := remove1 i (ti_creatures t)\<rparr>"
    have "Tile_removeThing ts i n (t, s) = (?t, s)" using creature by (simp add: Tile_removeThing_def)
    moreover have "tile_ok ts tile (?t, s)" using ok parts_creatures unfolding tile_ok_parts by simp
    moreover have "flags_ok ts (?t, s) = flags_ok ts (t, s)" by (rule flags_ok_props) (simp_all add: tile_things_split)
    ultimately show ?thesis by simp
  next
    case absent
    then have "Tile_getThingIndex ts s t i = None" using Tile_index_none [OF assms absent(1)] by simp
    then have "Tile_removeThing ts i n (t, s) = (t, s)" using absent(1) by (simp add: Tile_removeThing_def)
    then show ?thesis using assms by simp
  next
    case full
    have "i \<in> set (downItems t) \<longrightarrow> \<not> (tt_stackable (the_type s i) \<and> n \<noteq> unat (item_count s i))" using full(2) by blast
    from remove_full [OF assms full(1) this] show ?thesis by (elim exE conjE) simp
  next
    case part
    let ?s = "set_item i (\<lambda>it. it\<lparr>im_data := setItemCount (of_nat (unat (item_count s i) - n)) (im_data it)\<rparr>) s"
    show ?thesis
    proof (cases "ti_ground t \<noteq> Some i \<and> \<not> isAlwaysOnTop ts s i")
      case True
      obtain k where ix: "Tile_getThingIndex ts s t i = Some k" using Tile_index_none [OF assms part(1)] part(2) by auto
      have "i \<in> set (downItems t)"
        using part(2) True ok(2) unfolding tile_things_split by (auto simp: ground_list_def parts_ok_def split: option.splits)
      then have "Tile_removeThing ts i n (t, s) = (t, ?s)" using True part ix by (simp add: Tile_removeThing_def Let_def)
      moreover have "parts_ok ts tile ?s (ground_list t) (downItems t) (topItems t) (ti_creatures t)"
        by (rule parts_props [OF _ _ _ _ ok(2)]) (simp_all add: count_same isAlwaysOnTop_def)
      moreover have "flags_ok ts (t, ?s) = flags_ok ts (t, s)" by (rule flags_ok_props) (simp_all add: count_same)
      ultimately show ?thesis using ok(1) by (simp add: tile_ok_parts)
    next
      case False
      then have e: "Tile_removeThing ts i n (t, s) = Tile_removeThing ts i (unat (item_count s i)) (t, s)"
        by (auto simp: Tile_removeThing_def)
      have "i \<in> set (downItems t) \<longrightarrow> \<not> (tt_stackable (the_type s i) \<and> unat (item_count s i) \<noteq> unat (item_count s i))" by simp
      from remove_full [OF assms part(2) this] show ?thesis unfolding e by (elim exE conjE) simp
    qed
  qed
qed

section \<open>Adding\<close>

lemma set_insert_before [simp]: "set (insert_before stop i is) = insert i (set is)"
proof -
  have "set (takeWhile (\<lambda>j. \<not> stop j) is) \<union> set (dropWhile (\<lambda>j. \<not> stop j) is) = set is"
    by (metis set_append takeWhile_dropWhile_id)
  then show ?thesis by (auto simp: insert_before_def)
qed

lemma length_insert_before [simp]: "length (insert_before stop i is) = Suc (length is)"
proof -
  have "length (takeWhile (\<lambda>j. \<not> stop j) is) + length (dropWhile (\<lambda>j. \<not> stop j) is) = length is"
    by (metis length_append takeWhile_dropWhile_id)
  then show ?thesis by (simp add: insert_before_def)
qed

lemma distinct_insert_before [simp]: "distinct (insert_before stop i is) \<longleftrightarrow> i \<notin> set is \<and> distinct is"
proof -
  have "mset (insert_before stop i is) = mset (i # is)"
  proof -
    have "mset is = mset (takeWhile (\<lambda>j. \<not> stop j) is) + mset (dropWhile (\<lambda>j. \<not> stop j) is)"
      by (metis mset_append takeWhile_dropWhile_id)
    then show ?thesis by (simp add: insert_before_def)
  qed
  then show ?thesis by (metis distinct.simps(2) mset_eq_imp_distinct_iff)
qed

text \<open>The item that comes has the tile as its parent already.\<close>

lemma add_flags:
  assumes "flags_ok ts (t, s)" "ti_flags t' = ti_flags t" "tile_things t' = insert i (tile_things t)"
  shows "flags_ok ts (setTileFlags ts s i t', s)"
  by (rule flags_added [OF assms]) (simp add: same_props_def)

lemma put_down_ok:
  assumes "tile_ok ts tile (t, s)" "i \<notin> tile_things t" "\<not> is_creature s i" "is_parent s i = Some tile" "length (ti_items t) < 65535"
    "\<not> isAlwaysOnTop ts s i" "ts_class ts i = MagicField_Item \<longrightarrow> \<not> tt_stackable (the_type s i)"
  shows "tile_ok ts tile (setTileFlags ts s i (set_down (i # downItems t) t), s)
    \<and> (flags_ok ts (t, s) \<longrightarrow> flags_ok ts (setTileFlags ts s i (set_down (i # downItems t) t), s))"
proof -
  have len: "length (downItems t) + length (topItems t) < 65535" using assms(5) unfolding items_split [of t] by simp
  have "parts_ok ts tile s (ground_list t) (downItems t) (topItems t) (ti_creatures t)" using assms(1) by (simp add: tile_ok_parts)
  then have "parts_ok ts tile s (ground_list t) (i # downItems t) (topItems t) (ti_creatures t)"
    using assms(2-7) len unfolding parts_ok_def tile_things_split by auto
  moreover have "tile_things (set_down (i # downItems t) t) = insert i (tile_things t)" unfolding tile_things_split by auto
  ultimately show ?thesis using add_flags by (simp add: tile_ok_parts)
qed

lemma put_top_ok:
  assumes "tile_ok ts tile (t, s)" "i \<notin> tile_things t" "\<not> is_creature s i" "is_parent s i = Some tile" "length (ti_items t) < 65535"
    "isAlwaysOnTop ts s i" "ts_class ts i = MagicField_Item \<longrightarrow> \<not> tt_stackable (the_type s i)"
  shows "tile_ok ts tile (setTileFlags ts s i (set_top (insert_before stop i (topItems t)) t), s)
    \<and> (flags_ok ts (t, s) \<longrightarrow> flags_ok ts (setTileFlags ts s i (set_top (insert_before stop i (topItems t)) t), s))"
proof -
  let ?t = "set_top (insert_before stop i (topItems t)) t"
  have c: "ti_downItemCount t \<le> length (ti_items t)" using assms(1) by (simp add: tile_ok_parts)
  have len: "length (downItems t) + length (topItems t) < 65535" using assms(5) unfolding items_split [of t] by simp
  have "parts_ok ts tile s (ground_list t) (downItems t) (topItems t) (ti_creatures t)" using assms(1) by (simp add: tile_ok_parts)
  then have "parts_ok ts tile s (ground_list t) (downItems t) (insert_before stop i (topItems t)) (ti_creatures t)"
    using assms(2-7) len unfolding parts_ok_def tile_things_split by auto
  moreover have "tile_things ?t = insert i (tile_things t)" using c unfolding tile_things_split by auto
  ultimately show ?thesis using add_flags [of ts t s ?t i] c by (simp add: tile_ok_parts)
qed

lemma put_ground_ok:
  assumes "tile_ok ts tile (t, s)" "i \<notin> tile_things t" "\<not> is_creature s i" "is_parent s i = Some tile" "ti_ground t = None"
  shows "tile_ok ts tile (setTileFlags ts s i (t\<lparr>ti_ground := Some i\<rparr>), s)
    \<and> (flags_ok ts (t, s) \<longrightarrow> flags_ok ts (setTileFlags ts s i (t\<lparr>ti_ground := Some i\<rparr>), s))"
proof -
  have g: "ground_list t = []" using assms(5) by (simp add: ground_list_def)
  have "parts_ok ts tile s [] (downItems t) (topItems t) (ti_creatures t)" using assms(1) g by (simp add: tile_ok_parts)
  then have "parts_ok ts tile s [i] (downItems t) (topItems t) (ti_creatures t)"
    using assms(2-4) unfolding parts_ok_def tile_things_split g by auto
  moreover have "tile_things (t\<lparr>ti_ground := Some i\<rparr>) = insert i (tile_things t)" unfolding tile_things_split by (simp add: g)
  ultimately show ?thesis using add_flags [of ts t s "t\<lparr>ti_ground := Some i\<rparr>" i] assms(1) by (simp add: tile_ok_parts)
qed

lemma set_parent_twice [simp]: "set_parent i p (set_parent i q s) = set_parent i p s"
  by (simp add: set_parent_def)

lemma release_ok:
  assumes "tile_ok ts tile (t, s)" "old \<in> tile_things t" "old \<in> set (downItems t) \<longrightarrow> \<not> tt_stackable (the_type s old)" "old \<in> set (ti_items t)"
  shows "\<exists>t'. release ts old (t, s) = (t', set_parent old None s) \<and> tile_ok ts tile (t', set_parent old None s)
    \<and> (flags_ok ts (t, s) \<longrightarrow> flags_ok ts (t', set_parent old None s)) \<and> tile_things t' = tile_things t - {old}
    \<and> length (ti_items t') \<le> length (ti_items t) \<and> ti_ground t' = ti_ground t"
proof -
  obtain t' where "Tile_removeThing ts old 1 (t, s) = (t', set_parent old None s)" "tile_ok ts tile (t', set_parent old None s)"
    "flags_ok ts (t, s) \<longrightarrow> flags_ok ts (t', set_parent old None s)" "tile_things t' = tile_things t - {old}"
    "length (ti_items t') \<le> length (ti_items t)" "ti_ground t' = ti_ground t"
    using remove_full [OF assms(1,2), of 1] assms(3,4) by blast
  then show ?thesis by (auto simp: release_def)
qed

lemma parent_ok:
  assumes "i \<notin> tile_things t"
  shows "tile_ok ts tile (t, set_parent i p s) = tile_ok ts tile (t, s) \<and> flags_ok ts (t, set_parent i p s) = flags_ok ts (t, s)"
proof -
  have "flags_ok ts (t, set_parent i p s) = flags_ok ts (t, s)" by (rule flags_ok_props) simp_all
  then show ?thesis using assms parts_parent unfolding tile_ok_parts tile_things_split by simp
qed

lemma ground_exchanged:
  assumes "tile_ok ts tile (t, s)" "i \<notin> tile_things t" "\<not> is_creature s i" "ti_ground t = Some g"
  defines "s1 \<equiv> set_parent i (Some tile) s"
  defines "s2 \<equiv> set_parent g None s1"
  shows "tile_ok ts tile (setTileFlags ts s' i (resetTileFlags ts s'' g (t\<lparr>ti_ground := Some i\<rparr>)), s2)
    \<and> (flags_ok ts (t, s) \<longrightarrow> flags_ok ts (setTileFlags ts s2 i (resetTileFlags ts s2 g (t\<lparr>ti_ground := Some i\<rparr>)), s2))"
proof -
  have gl: "ground_list t = [g]" using assms(4) by (simp add: ground_list_def)
  have "parts_ok ts tile s [g] (downItems t) (topItems t) (ti_creatures t)" using assms(1) gl by (simp add: tile_ok_parts)
  then have "parts_ok ts tile s2 [i] (downItems t) (topItems t) (ti_creatures t)"
    using assms(2,3) unfolding parts_ok_def tile_things_split gl s2_def s1_def by auto
  then have 1: "tile_ok ts tile (setTileFlags ts s' i (resetTileFlags ts s'' g (t\<lparr>ti_ground := Some i\<rparr>)), s2)"
    using assms(1) by (simp add: tile_ok_parts)
  have "tile_things (t\<lparr>ti_ground := Some i\<rparr>) = insert i (tile_things t - {g})" "g \<in> tile_things t"
    using assms(1) gl unfolding tile_ok_parts parts_ok_def tile_things_split by auto
  moreover have "same_props s s2 x" for x by (simp add: same_props_def s2_def s1_def set_parent_def the_item_def)
  ultimately have "flags_ok ts (t, s) \<Longrightarrow> flags_ok ts (setTileFlags ts s2 i (resetTileFlags ts s2 g (t\<lparr>ti_ground := Some i\<rparr>)), s2)"
    using assms(2) by (intro flags_exchanged [where t = t and s = s]) (simp_all add: same_props_def)
  then show ?thesis using 1 by blast
qed

text \<open>The tile after an operation is in order, and so are its flags if they were.\<close>

definition keeps :: "tile_types \<Rightarrow> nat \<Rightarrow> tile_state \<Rightarrow> tile_state \<Rightarrow> bool" where
  "keeps ts tile st st' \<longleftrightarrow> tile_ok ts tile st' \<and> (flags_ok ts st \<longrightarrow> flags_ok ts st')"

lemma keepsI: "tile_ok ts tile st' \<and> (flags_ok ts st \<longrightarrow> flags_ok ts st') \<Longrightarrow> keeps ts tile st st'"
  by (simp add: keeps_def)

lemma add_creature_ok:
  assumes "tile_ok ts tile (t, s)" "is_creature s c" "c \<notin> set (ti_creatures t)"
  shows "keeps ts tile (t, s) (t\<lparr>ti_creatures := c # ti_creatures t\<rparr>, set_parent c (Some tile) s)"
proof -
  have "c \<notin> tile_things t" using assms(1,2) unfolding tile_ok_parts parts_ok_def tile_things_split by blast
  then have "parts_ok ts tile (set_parent c (Some tile) s) (ground_list t) (downItems t) (topItems t) (ti_creatures t)"
    using assms(1) parts_parent unfolding tile_ok_parts tile_things_split by blast
  then have "parts_ok ts tile (set_parent c (Some tile) s) (ground_list t) (downItems t) (topItems t) (c # ti_creatures t)"
    using assms(2,3) by (simp add: parts_ok_def)
  moreover have "flags_ok ts (t\<lparr>ti_creatures := c # ti_creatures t\<rparr>, set_parent c (Some tile) s) = flags_ok ts (t, s)"
    by (rule flags_ok_props) (simp_all add: tile_things_split)
  ultimately show ?thesis using assms(1) by (simp add: keeps_def tile_ok_parts)
qed

lemma find_some: "List.find P xs = Some x \<Longrightarrow> x \<in> set xs \<and> P x"
  by (induction xs) (auto split: if_splits)

lemma add_ok:
  assumes "tile_ok ts tile (t, s)" "i \<notin> tile_things t" "i \<notin> set (ti_creatures t)"
    "ts_class ts i = MagicField_Item \<longrightarrow> \<not> tt_stackable (the_type s i)"
  shows "keeps ts tile (t, s) (Tile_addThing ts tile i (t, s))"
proof -
  let ?s = "set_parent i (Some tile) s" and ?it = "stack_type_of ts s i"
  have s: "tile_ok ts tile (t, ?s)" "flags_ok ts (t, ?s) = flags_ok ts (t, s)"
    using parent_ok [OF assms(2), of ts tile "Some tile" s] assms(1) by simp_all
  have p: "is_parent ?s i = Some tile" by simp
  have parts: "parts_ok ts tile ?s (ground_list t) (downItems t) (topItems t) (ti_creatures t)" using s(1) by (simp add: tile_ok_parts)
  note stack = parts [unfolded parts_ok_def]
  have sub: "set (downItems t) \<subseteq> tile_things t" "set (topItems t) \<subseteq> tile_things t"
    "set (downItems t) \<subseteq> set (ti_items t)" "set (topItems t) \<subseteq> set (ti_items t)"
    unfolding tile_things_split by (auto simp: items_split [of t])
  consider (creature) "is_creature s i" | (full) "\<not> is_creature s i" "length (ti_items t) \<ge> 65535"
    | (ground) "\<not> is_creature s i" "length (ti_items t) < 65535" "sk_ground ?it"
    | (top) "\<not> is_creature s i" "length (ti_items t) < 65535" "\<not> sk_ground ?it" "sk_alwaysOnTop ?it"
    | (down) "\<not> is_creature s i" "length (ti_items t) < 65535" "\<not> sk_ground ?it" "\<not> sk_alwaysOnTop ?it" by linarith
  then show ?thesis
  proof cases
    case creature
    then show ?thesis using add_creature_ok [OF assms(1) creature assms(3)] by (simp add: Tile_addThing_def)
  next
    case full
    then show ?thesis using assms(1) by (simp add: Tile_addThing_def keeps_def)
  next
    case ground
    show ?thesis
    proof (cases "ti_ground t")
      case None
      then have "Tile_addThing ts tile i (t, s) = (setTileFlags ts ?s i (t\<lparr>ti_ground := Some i\<rparr>), ?s)"
        using ground by (simp add: Tile_addThing_def Let_def)
      then show ?thesis using put_ground_ok [OF s(1) assms(2) _ p None] ground(1) s(2) by (simp add: keeps_def)
    next
      case (Some g)
      let ?s2 = "set_parent g None ?s"
      have "Tile_addThing ts tile i (t, s) = (setTileFlags ts ?s2 i (resetTileFlags ts ?s2 g (t\<lparr>ti_ground := Some i\<rparr>)), ?s2)"
        using ground Some by (simp add: Tile_addThing_def Let_def)
      then show ?thesis using ground_exchanged [OF assms(1,2) ground(1) Some] by (simp add: keeps_def)
    qed
  next
    case top
    let ?f = "if sk_splash ?it then List.find (\<lambda>j. sk_splash (stack_type_of ts s j)) (topItems t) else None"
    let ?stop = "\<lambda>j. sk_topOrder ?it \<le> top_order ts s j"
    have put: "keeps ts tile (t, s) (setTileFlags ts s' i (set_top (insert_before ?stop i (topItems t')) t'), s')"
      if "tile_ok ts tile (t', s')" "flags_ok ts (t, s) \<longrightarrow> flags_ok ts (t', s')" "tile_things t' \<subseteq> tile_things t"
        "length (ti_items t') \<le> length (ti_items t)" "is_parent s' i = Some tile" "is_creature s' = is_creature s"
        "isAlwaysOnTop ts s' = isAlwaysOnTop ts s" "the_type s' = the_type s" for t' s'
      using put_top_ok [OF that(1), of i ?stop] that(2-) assms(2,4) top by (auto simp: keeps_def isAlwaysOnTop_def)
    show ?thesis
    proof (cases ?f)
      case None
      then have "Tile_addThing ts tile i (t, s) = (setTileFlags ts ?s i (set_top (insert_before ?stop i (topItems t)) t), ?s)"
        using top by (cases "sk_splash ?it") (simp_all add: Tile_addThing_def Let_def)
      then show ?thesis using put [of t ?s] s p by simp
    next
      case (Some old)
      then have "List.find (\<lambda>j. sk_splash (stack_type_of ts s j)) (topItems t) = Some old" by (simp split: if_splits)
      from find_some [OF this] have old: "old \<in> set (topItems t)" by simp
      then have nd: "old \<notin> set (downItems t)" "old \<noteq> i" using stack sub assms(2) by auto
      obtain t' where t': "release ts old (t, ?s) = (t', set_parent old None ?s)" "tile_ok ts tile (t', set_parent old None ?s)"
        "flags_ok ts (t, ?s) \<longrightarrow> flags_ok ts (t', set_parent old None ?s)" "tile_things t' = tile_things t - {old}"
        "length (ti_items t') \<le> length (ti_items t)"
        using release_ok [OF s(1), of old] old sub nd(1) by blast
      have "Tile_addThing ts tile i (t, s)
        = (setTileFlags ts (set_parent old None ?s) i (set_top (insert_before ?stop i (topItems t')) t'), set_parent old None ?s)"
        using top Some t'(1) by (cases "sk_splash ?it") (simp_all add: Tile_addThing_def Let_def)
      then show ?thesis using put [of t' "set_parent old None ?s"] t'(2-5) s(2) nd(2) by simp
    qed
  next
    case down
    let ?f = "if sk_magicField ?it then List.find (\<lambda>j. ts_class ts j = MagicField_Item) (downItems t) else None"
    have put: "keeps ts tile (t, s) (setTileFlags ts s' i (set_down (i # downItems t') t'), s')"
      if "tile_ok ts tile (t', s')" "flags_ok ts (t, s) \<longrightarrow> flags_ok ts (t', s')" "tile_things t' \<subseteq> tile_things t"
        "length (ti_items t') \<le> length (ti_items t)" "is_parent s' i = Some tile" "is_creature s' = is_creature s"
        "isAlwaysOnTop ts s' = isAlwaysOnTop ts s" "the_type s' = the_type s" for t' s'
      using put_down_ok [OF that(1), of i] that(2-) assms(2,4) down by (auto simp: keeps_def isAlwaysOnTop_def)
    show ?thesis
    proof (cases ?f)
      case None
      then have "Tile_addThing ts tile i (t, s) = (setTileFlags ts ?s i (set_down (i # downItems t) t), ?s)"
        using down by (simp add: Tile_addThing_def Let_def)
      then show ?thesis using put [of t ?s] s p by simp
    next
      case (Some old)
      then have "List.find (\<lambda>j. ts_class ts j = MagicField_Item) (downItems t) = Some old" by (simp split: if_splits)
      from find_some [OF this] have old: "old \<in> set (downItems t)" "ts_class ts old = MagicField_Item" by simp_all
      then have nd: "\<not> tt_stackable (the_type ?s old)" "old \<noteq> i" using stack sub assms(2) by auto
      show ?thesis
      proof (cases "sk_replaceable (stack_type_of ts s old)")
        case True
        obtain t' where t': "release ts old (t, ?s) = (t', set_parent old None ?s)" "tile_ok ts tile (t', set_parent old None ?s)"
          "flags_ok ts (t, ?s) \<longrightarrow> flags_ok ts (t', set_parent old None ?s)" "tile_things t' = tile_things t - {old}"
          "length (ti_items t') \<le> length (ti_items t)"
          using release_ok [OF s(1), of old] old sub nd(1) by blast
        have "Tile_addThing ts tile i (t, s)
          = (setTileFlags ts (set_parent old None ?s) i (set_down (i # downItems t') t'), set_parent old None ?s)"
          using down Some True t'(1) by (simp add: Tile_addThing_def Let_def)
        then show ?thesis using put [of t' "set_parent old None ?s"] t'(2-5) s(2) nd(2) by simp
      next
        case False
        then have "Tile_addThing ts tile i (t, s) = (t, set_parent i None s)"
          using down Some by (simp add: Tile_addThing_def Let_def)
        then show ?thesis using parent_ok [OF assms(2), of ts tile None s] assms(1) by (simp add: keeps_def)
      qed
    qed
  qed
qed

lemma internal_add_ok:
  assumes "tile_ok ts tile (t, s)" "i \<notin> tile_things t" "i \<notin> set (ti_creatures t)"
    "ts_class ts i = MagicField_Item \<longrightarrow> \<not> tt_stackable (the_type s i)"
  shows "keeps ts tile (t, s) (Tile_internalAddThing ts tile i (t, s))"
proof -
  let ?s = "set_parent i (Some tile) s" and ?it = "stack_type_of ts s i"
  have s: "tile_ok ts tile (t, ?s)" "flags_ok ts (t, ?s) = flags_ok ts (t, s)"
    using parent_ok [OF assms(2), of ts tile "Some tile" s] assms(1) by simp_all
  have p: "is_parent ?s i = Some tile" by simp
  consider (creature) "is_creature s i"
    | (ground) "\<not> is_creature s i" "sk_ground ?it" "ti_ground t = None"
    | (nothing) "\<not> is_creature s i" "sk_ground ?it \<and> ti_ground t \<noteq> None \<or> \<not> sk_ground ?it \<and> length (ti_items t) \<ge> 65535"
    | (top) "\<not> is_creature s i" "length (ti_items t) < 65535" "\<not> sk_ground ?it" "sk_alwaysOnTop ?it"
    | (down) "\<not> is_creature s i" "length (ti_items t) < 65535" "\<not> sk_ground ?it" "\<not> sk_alwaysOnTop ?it" by linarith
  then show ?thesis
  proof cases
    case creature
    then show ?thesis using add_creature_ok [OF assms(1) creature assms(3)] by (simp add: Tile_internalAddThing_def)
  next
    case ground
    then show ?thesis using put_ground_ok [OF s(1) assms(2) _ p ground(3)] s(2)
      by (simp add: Tile_internalAddThing_def Let_def keeps_def)
  next
    case nothing
    then have "Tile_internalAddThing ts tile i (t, s) = (t, ?s)" by (auto simp: Tile_internalAddThing_def Let_def)
    then show ?thesis using s by (simp add: keeps_def)
  next
    case top
    then show ?thesis using put_top_ok [OF s(1) assms(2) _ p top(2)] s(2) assms(4)
      by (simp add: Tile_internalAddThing_def Let_def keeps_def isAlwaysOnTop_def)
  next
    case down
    then show ?thesis using put_down_ok [OF s(1) assms(2) _ p down(2)] s(2) assms(4)
      by (simp add: Tile_internalAddThing_def Let_def keeps_def isAlwaysOnTop_def)
  qed
qed

section \<open>Changing and exchanging\<close>

lemma update_ok:
  assumes "tile_ok ts tile (t, s)" "sk_alwaysOnTop (ts_type ts itemId) = isAlwaysOnTop ts s i"
    "ts_class ts i = MagicField_Item \<longrightarrow> \<not> tt_stackable (is_type s itemId)"
  shows "keeps ts tile (t, s) (Tile_updateThing ts i itemId n (t, s))"
proof (cases "is_creature s i \<or> i \<notin> tile_things t")
  case True
  then have "Tile_updateThing ts i itemId n (t, s) = (t, s)"
    using Tile_index_none [OF assms(1), of i] by (auto simp: Tile_updateThing_def)
  then show ?thesis using assms(1) by (simp add: keeps_def)
next
  case False
  let ?s1 = "set_item i (setID (is_type s) itemId) s"
  let ?s2 = "set_item i (\<lambda>it. it\<lparr>im_data := setSubType (tt_saved (is_type ?s1 (im_id it))) n (im_data it)\<rparr>) ?s1"
  have some: "is_item s i \<noteq> None" using False by (simp add: is_creature_def)
  then have some1: "is_item ?s1 i \<noteq> None" by (simp add: set_item_def)
  have id: "im_id (the_item ?s2 j) = (if j = i then itemId else im_id (the_item s j))" for j
    using some some1 unfolding the_item_set by (simp add: setID_def Let_def)
  have other: "the_item ?s2 j = the_item s j" if "j \<noteq> i" for j using that unfolding the_item_set by simp
  have types: "stack_type_of ts ?s2 j = (if j = i then ts_type ts itemId else stack_type_of ts s j)"
    "the_type ?s2 j = (if j = i then is_type s itemId else the_type s j)" for j
    unfolding stack_type_of_def the_type_def id by simp_all
  have parts: "parts_ok ts tile s (ground_list t) (downItems t) (topItems t) (ti_creatures t)" using assms(1) by (simp add: tile_ok_parts)
  have "parts_ok ts tile ?s2 (ground_list t) (downItems t) (topItems t) (ti_creatures t)"
  proof (rule parts_props [OF _ _ _ _ parts])
    show "isAlwaysOnTop ts ?s2 j = isAlwaysOnTop ts s j" for j unfolding isAlwaysOnTop_def types using assms(2) by (simp add: isAlwaysOnTop_def)
    show "tt_stackable (the_type ?s2 j) \<longrightarrow> tt_stackable (the_type s j)" if "ts_class ts j = MagicField_Item" for j
      unfolding types using assms(3) that by (cases "j = i") simp_all
  qed simp_all
  moreover have "flags_ok ts (t, s) \<longrightarrow> flags_ok ts (setTileFlags ts ?s2 i (resetTileFlags ts s i t), ?s2)"
  proof
    assume f: "flags_ok ts (t, s)"
    show "flags_ok ts (setTileFlags ts ?s2 i (resetTileFlags ts s i t), ?s2)"
      by (rule flags_exchanged [OF f]) (use False other in \<open>auto simp: same_props_def\<close>)
  qed
  moreover have "Tile_updateThing ts i itemId n (t, s) = (setTileFlags ts ?s2 i (resetTileFlags ts s i t), ?s2)"
  proof -
    obtain k where "Tile_getThingIndex ts s t i = Some k" using False Tile_index_none [OF assms(1), of i] by auto
    then show ?thesis using False by (simp add: Tile_updateThing_def Let_def)
  qed
  ultimately show ?thesis using assms(1) by (simp add: keeps_def tile_ok_parts)
qed

lemma nth_exchange:
  assumes "distinct xs" "k < length xs" "i \<notin> set xs"
  shows "set (xs[k := i]) = insert i (set xs - {xs ! k})" "distinct (xs[k := i])" "xs ! k \<in> set xs"
  using assms by (simp_all add: set_update_distinct distinct_list_update)

lemma parts_exchange:
  assumes "parts_ok ts tile s g ds us cs" "i \<notin> set g \<union> set ds \<union> set us" "\<not> is_creature s i"
    and new: "set xs = insert i (set (ds @ us) - {old})" "distinct (g @ ds' @ us')" "xs = ds' @ us'" "length ds' + length us' \<le> 65535"
    and old: "old \<in> set (ds @ us)" "\<forall>j \<in> set ds'. j = i \<or> j \<in> set ds" "\<forall>j \<in> set us'. j = i \<or> j \<in> set us"
    and i: "i \<in> set ds' \<longrightarrow> \<not> isAlwaysOnTop ts s i" "i \<in> set us' \<longrightarrow> isAlwaysOnTop ts s i"
      "ts_class ts i = MagicField_Item \<longrightarrow> \<not> tt_stackable (the_type s i)"
  shows "parts_ok ts tile (set_parent old None (set_parent i (Some tile) s)) g ds' us' cs"
proof -
  have "old \<notin> set g" "old \<noteq> i" using assms(1,2) old(1) by (auto simp: parts_ok_def)
  then have "\<not> is_creature s j \<and> ((is_parent s)(i := Some tile, old := None)) j = Some tile" if "j \<in> set g \<union> set ds' \<union> set us'" for j
  proof (cases "j = i")
    case True
    then show ?thesis using assms(3) \<open>old \<noteq> i\<close> by simp
  next
    case False
    then have "j \<in> set g \<union> set (ds @ us) - {old}" using that new(1,3) \<open>old \<notin> set g\<close> by auto
    then show ?thesis using False assms(1) by (auto simp: parts_ok_def)
  qed
  moreover have "\<forall>j \<in> set ds'. \<not> isAlwaysOnTop ts s j" "\<forall>j \<in> set us'. isAlwaysOnTop ts s j"
    using old(2,3) i(1,2) assms(1) by (auto simp: parts_ok_def)
  moreover have "\<forall>j \<in> set ds' \<union> set us'. ts_class ts j = MagicField_Item \<longrightarrow> \<not> tt_stackable (the_type s j)"
  proof
    fix j
    assume "j \<in> set ds' \<union> set us'"
    then have "j = i \<or> j \<in> set ds \<union> set us" using old(2,3) by auto
    then show "ts_class ts j = MagicField_Item \<longrightarrow> \<not> tt_stackable (the_type s j)" using i(3) assms(1) by (auto simp: parts_ok_def)
  qed
  ultimately show ?thesis using new(2,4) assms(1) unfolding parts_ok_def by simp
qed

lemma exchange_at_parts:
  assumes "parts_ok ts tile s (ground_list t) (downItems t) (topItems t) cs" "i \<notin> tile_things t" "\<not> is_creature s i"
    "ti_downItemCount t \<le> length (ti_items t)" "exchange_at index i t = Some (t', old)"
    "old \<in> set (ti_items t) \<longrightarrow> isAlwaysOnTop ts s i = isAlwaysOnTop ts s old"
    "ts_class ts i = MagicField_Item \<longrightarrow> \<not> tt_stackable (the_type s i)"
  shows "parts_ok ts tile (set_parent old None (set_parent i (Some tile) s)) (ground_list t') (downItems t') (topItems t') cs
    \<and> ti_downItemCount t' \<le> length (ti_items t') \<and> ti_flags t' = ti_flags t \<and> ti_creatures t' = ti_creatures t
    \<and> tile_things t' = insert i (tile_things t - {old}) \<and> old \<in> tile_things t"
proof -
  have d: "distinct (ground_list t @ downItems t @ topItems t)" using assms(1) by (simp add: parts_ok_def)
  let ?pos = "if ti_ground t \<noteq> None then index - 1 else index"
  let ?pos' = "?pos - length (topItems t) - length (ti_creatures t)"
  consider (ground) "ti_ground t = Some old" "t' = t\<lparr>ti_ground := Some i\<rparr>"
    | (top) k where "k < length (topItems t)" "old = topItems t ! k" "t' = set_top ((topItems t)[k := i]) t"
    | (down) k where "k < length (downItems t)" "old = downItems t ! k" "t' = set_down ((downItems t)[k := i]) t"
    using assms(5) unfolding exchange_at_def Let_def by (auto split: option.splits if_splits)
  then show ?thesis
  proof cases
    case ground
    then have g: "ground_list t = [old]" by (simp add: ground_list_def)
    then show ?thesis using ground(2) assms(1-4) d unfolding parts_ok_def tile_things_split by auto
  next
    case top
    note n = nth_exchange [of "topItems t" k i]
    have i: "i \<notin> set (topItems t)" "i \<notin> set (downItems t)" "i \<notin> set (ground_list t)" using assms(2) by (auto simp: tile_things_split)
    have dd: "distinct (topItems t)" "set (topItems t) \<inter> set (downItems t) = {}" "set (topItems t) \<inter> set (ground_list t) = {}"
      using d by auto
    have old: "old \<in> set (topItems t)" "old \<notin> set (downItems t)" "old \<notin> set (ground_list t)" using nth_mem [OF top(1)] top(2) dd by auto
    then have "isAlwaysOnTop ts s i" using assms(1,6) by (simp add: parts_ok_def items_split)
    have su: "set ((topItems t)[k := i]) = insert i (set (topItems t) - {old})" using n(1) dd(1) i(1) top(1,2) by simp
    have "parts_ok ts tile (set_parent old None (set_parent i (Some tile) s)) (ground_list t) (downItems t) ((topItems t)[k := i]) cs"
    proof (rule parts_exchange [OF assms(1)])
      show "distinct (ground_list t @ downItems t @ (topItems t)[k := i])" using d dd i su n(2) top(1) by auto
    qed (use i old su assms(1,3,7) \<open>isAlwaysOnTop ts s i\<close> in \<open>auto simp: parts_ok_def\<close>)
    moreover have "tile_things t' = insert i (tile_things t - {old})"
      using top(3) assms(4) su old unfolding tile_things_split by auto
    moreover have "old \<in> tile_things t" using old unfolding tile_things_split by blast
    ultimately show ?thesis using top(3) assms(4) by simp
  next
    case down
    note n = nth_exchange [of "downItems t" k i]
    have i: "i \<notin> set (topItems t)" "i \<notin> set (downItems t)" "i \<notin> set (ground_list t)" using assms(2) by (auto simp: tile_things_split)
    have dd: "distinct (downItems t)" "set (topItems t) \<inter> set (downItems t) = {}" "set (downItems t) \<inter> set (ground_list t) = {}"
      using d by auto
    have old: "old \<in> set (downItems t)" "old \<notin> set (topItems t)" "old \<notin> set (ground_list t)" using nth_mem [OF down(1)] down(2) dd by auto
    then have "\<not> isAlwaysOnTop ts s i" using assms(1,6) by (simp add: parts_ok_def items_split)
    have su: "set ((downItems t)[k := i]) = insert i (set (downItems t) - {old})" using n(1) dd(1) i(2) down(1,2) by simp
    have "parts_ok ts tile (set_parent old None (set_parent i (Some tile) s)) (ground_list t) ((downItems t)[k := i]) (topItems t) cs"
    proof (rule parts_exchange [OF assms(1)])
      show "distinct (ground_list t @ (downItems t)[k := i] @ topItems t)" using d dd i su n(2) down(1) by auto
    qed (use i old su assms(1,3,7) \<open>\<not> isAlwaysOnTop ts s i\<close> in \<open>auto simp: parts_ok_def\<close>)
    moreover have "tile_things t' = insert i (tile_things t - {old})"
      using down(3) su old unfolding tile_things_split by auto
    moreover have "old \<in> tile_things t" using old unfolding tile_things_split by blast
    ultimately show ?thesis using down(3) by simp
  qed
qed

lemma replace_ok:
  assumes "tile_ok ts tile (t, s)" "i \<notin> tile_things t"
    "\<And>t' old. exchange_at index i t = Some (t', old) \<Longrightarrow> old \<in> set (ti_items t) \<Longrightarrow> isAlwaysOnTop ts s i = isAlwaysOnTop ts s old"
    "ts_class ts i = MagicField_Item \<longrightarrow> \<not> tt_stackable (the_type s i)"
  shows "keeps ts tile (t, s) (Tile_replaceThing ts tile index i (t, s))"
proof (cases "is_creature s i \<or> exchange_at index i t = None")
  case True
  then have "Tile_replaceThing ts tile index i (t, s) = (t, s)" by (auto simp: Tile_replaceThing_def)
  then show ?thesis using assms(1) by (simp add: keeps_def)
next
  case False
  then obtain t' old where e: "exchange_at index i t = Some (t', old)" by auto
  let ?s1 = "set_parent i (Some tile) s"
  have ok: "parts_ok ts tile s (ground_list t) (downItems t) (topItems t) (ti_creatures t)" "ti_downItemCount t \<le> length (ti_items t)"
    using assms(1) by (simp_all add: tile_ok_parts)
  note x = exchange_at_parts [OF ok(1) assms(2) _ ok(2) e _ assms(4)]
  have x: "parts_ok ts tile (set_parent old None ?s1) (ground_list t') (downItems t') (topItems t') (ti_creatures t)"
    "ti_downItemCount t' \<le> length (ti_items t')" "ti_flags t' = ti_flags t" "ti_creatures t' = ti_creatures t"
    "tile_things t' = insert i (tile_things t - {old})" "old \<in> tile_things t"
    using x False assms(3) [OF e] by blast+
  have "flags_ok ts (t, s) \<longrightarrow> flags_ok ts (setTileFlags ts ?s1 i (resetTileFlags ts ?s1 old t'), ?s1)"
  proof
    assume f: "flags_ok ts (t, s)"
    show "flags_ok ts (setTileFlags ts ?s1 i (resetTileFlags ts ?s1 old t'), ?s1)"
      by (rule flags_exchanged [OF f x(3,5,6)]) (use assms(2) in \<open>auto simp: same_props_def\<close>)
  qed
  moreover have "flags_ok ts (u, set_parent old None ?s1) = flags_ok ts (u, ?s1)" for u
    by (rule flags_ok_props) simp_all
  moreover have "Tile_replaceThing ts tile index i (t, s)
    = (setTileFlags ts ?s1 i (resetTileFlags ts ?s1 old t'), set_parent old None ?s1)"
    using False e by (simp add: Tile_replaceThing_def Let_def)
  ultimately show ?thesis using x by (simp add: keeps_def tile_ok_parts)
qed

section \<open>Every operation\<close>

text \<open>What comes is not on the tile yet; what replaces or is changed in place stays in its part of the vector.\<close>

inductive tile_op :: "tile_types \<Rightarrow> nat \<Rightarrow> tile_state \<Rightarrow> tile_state \<Rightarrow> bool" for ts tile where
  tile_add: "i \<notin> tile_things t \<Longrightarrow> i \<notin> set (ti_creatures t) \<Longrightarrow> (ts_class ts i = MagicField_Item \<longrightarrow> \<not> tt_stackable (the_type s i))
    \<Longrightarrow> tile_op ts tile (t, s) (Tile_addThing ts tile i (t, s))"
| tile_internal_add: "i \<notin> tile_things t \<Longrightarrow> i \<notin> set (ti_creatures t) \<Longrightarrow> (ts_class ts i = MagicField_Item \<longrightarrow> \<not> tt_stackable (the_type s i))
    \<Longrightarrow> tile_op ts tile (t, s) (Tile_internalAddThing ts tile i (t, s))"
| tile_update: "sk_alwaysOnTop (ts_type ts itemId) = isAlwaysOnTop ts s i \<Longrightarrow> (ts_class ts i = MagicField_Item \<longrightarrow> \<not> tt_stackable (is_type s itemId))
    \<Longrightarrow> tile_op ts tile (t, s) (Tile_updateThing ts i itemId n (t, s))"
| tile_replace: "i \<notin> tile_things t \<Longrightarrow> (ts_class ts i = MagicField_Item \<longrightarrow> \<not> tt_stackable (the_type s i))
    \<Longrightarrow> (\<And>t' old. exchange_at index i t = Some (t', old) \<Longrightarrow> old \<in> set (ti_items t) \<Longrightarrow> isAlwaysOnTop ts s i = isAlwaysOnTop ts s old)
    \<Longrightarrow> tile_op ts tile (t, s) (Tile_replaceThing ts tile index i (t, s))"
| tile_remove: "tile_op ts tile (t, s) (Tile_removeThing ts i n (t, s))"

inductive tile_run :: "tile_types \<Rightarrow> nat \<Rightarrow> tile_state \<Rightarrow> tile_state \<Rightarrow> bool" for ts tile where
  tile_rest: "tile_run ts tile st st"
| tile_more: "tile_run ts tile st st' \<Longrightarrow> tile_op ts tile st' st'' \<Longrightarrow> tile_run ts tile st st''"

lemma tile_op_ok: "tile_op ts tile st st' \<Longrightarrow> tile_ok ts tile st \<Longrightarrow> keeps ts tile st st'"
proof (induction rule: tile_op.induct)
  case tile_add
  then show ?case by (intro add_ok)
next
  case tile_internal_add
  then show ?case by (intro internal_add_ok)
next
  case tile_update
  then show ?case by (intro update_ok)
next
  case tile_replace
  then show ?case by (intro replace_ok)
next
  case tile_remove
  then show ?case by (intro keepsI remove_ok)
qed

lemma tile_run_ok: "tile_run ts tile st st' \<Longrightarrow> tile_ok ts tile st \<Longrightarrow> flags_ok ts st \<Longrightarrow> tile_ok ts tile st' \<and> flags_ok ts st'"
  by (induction rule: tile_run.induct) (auto dest: tile_op_ok simp: keeps_def)

text \<open>C5. Whatever is added to a tile, exchanged, changed or taken away: the vector keeps its down items
  before its top items with their count right, every item has the tile as its parent, and the flags that
  walking and path finding ask are set exactly when some item on the tile blocks in that way.\<close>

theorem tile_kept_in_order:
  assumes "tile_ok ts tile (t, s)" "flags_ok ts (t, s)" "tile_run ts tile (t, s) (t', s')"
  shows "tile_ok ts tile (t', s')
    \<and> (hasFlag TILESTATE_BLOCKSOLID t' \<longleftrightarrow> Tile_hasProperty ts s' t' CONST_PROP_BLOCKSOLID)
    \<and> (hasFlag TILESTATE_BLOCKPATH t' \<longleftrightarrow> Tile_hasProperty ts s' t' CONST_PROP_BLOCKPATH)
    \<and> (hasFlag TILESTATE_IMMOVABLEBLOCKSOLID t' \<longleftrightarrow> Tile_hasProperty ts s' t' CONST_PROP_IMMOVABLEBLOCKSOLID)
    \<and> (hasFlag TILESTATE_IMMOVABLENOFIELDBLOCKPATH t' \<longleftrightarrow> Tile_hasProperty ts s' t' CONST_PROP_IMMOVABLENOFIELDBLOCKPATH)
    \<and> (hasFlag TILESTATE_NOFIELDBLOCKPATH t' \<longleftrightarrow> Tile_hasProperty ts s' t' CONST_PROP_NOFIELDBLOCKPATH)"
proof -
  have "tile_ok ts tile (t', s')" "flags_ok ts (t', s')" using tile_run_ok [OF assms(3,1,2)] by simp_all
  then show ?thesis by (simp add: flags_ok_def blocking_flags_def tile_state_defs hasFlag_bit)
qed

section \<open>Things and their places\<close>

text \<open>The order in which a tile is described: ground, top items, creatures, down items.\<close>

definition in_order :: "tile_stack \<Rightarrow> nat list" where
  "in_order t = ground_list t @ topItems t @ ti_creatures t @ downItems t"

lemma index_of_append:
  "index_of x (xs @ ys) = (case index_of x xs of Some k \<Rightarrow> Some k | None \<Rightarrow> map_option (\<lambda>k. length xs + k) (index_of x ys))"
  by (induction xs; cases "index_of x ys") (auto split: option.split)

lemma index_of_Some: "distinct xs \<Longrightarrow> index_of x xs = Some k \<longleftrightarrow> k < length xs \<and> xs ! k = x"
proof (induction xs arbitrary: k)
  case (Cons y ys)
  show ?case
  proof (cases k)
    case 0
    then show ?thesis by auto
  next
    case (Suc j)
    have "index_of x (y # ys) = Some (Suc j) \<longleftrightarrow> y \<noteq> x \<and> index_of x ys = Some j" by auto
    then show ?thesis using Cons.IH [of j] Cons.prems Suc nth_mem [of j ys] by auto
  qed
qed simp

lemma getThing_list:
  assumes "ti_downItemCount t \<le> length (ti_items t)"
  shows "Tile_getThing t n = (if n < length (in_order t) then Some (in_order t ! n) else None)"
proof -
  have u: "topItems t ! k = ti_items t ! (length (downItems t) + k)" if "k < length (topItems t)" for k
    unfolding items_split [of t] using that by simp
  have d: "downItems t ! k = ti_items t ! k" if "k < length (downItems t)" for k
    unfolding items_split [of t] using that by (simp add: nth_append)
  show ?thesis
    by (cases "ti_ground t") (auto simp: Tile_getThing_def in_order_def ground_list_def Let_def nth_append u d)
qed

lemma parts_distinct:
  assumes "tile_ok ts tile (t, s)"
  shows "distinct (in_order t) \<and> (\<forall>i \<in> set (ground_list t @ topItems t @ downItems t). \<not> is_creature s i) \<and> (\<forall>c \<in> set (ti_creatures t). is_creature s c)
    \<and> (\<forall>i \<in> set (topItems t). isAlwaysOnTop ts s i) \<and> (\<forall>i \<in> set (downItems t). \<not> isAlwaysOnTop ts s i)"
  using assms unfolding tile_ok_parts parts_ok_def in_order_def by auto

lemma getThingIndex_list:
  assumes "tile_ok ts tile (t, s)"
  shows "Tile_getThingIndex ts s t x = index_of x (in_order t)"
proof -
  note d = parts_distinct [OF assms]
  show ?thesis
  proof (cases "ti_ground t = Some x")
    case True
    then show ?thesis by (simp add: Tile_getThingIndex_def in_order_def ground_list_def)
  next
    case False
    then have g: "index_of x (ground_list t) = None" by (auto simp: index_of_none ground_list_def split: option.split)
    consider (creature) "is_creature s x" | (top) "\<not> is_creature s x" "isAlwaysOnTop ts s x" | (down) "\<not> is_creature s x" "\<not> isAlwaysOnTop ts s x"
      by blast
    then show ?thesis
    proof cases
      case creature
      then have "index_of x (topItems t) = None" "index_of x (downItems t) = None" using d by (auto simp: index_of_none)
      then show ?thesis using False creature g
        by (cases "index_of x (ti_creatures t)") (auto simp: Tile_getThingIndex_def in_order_def index_of_append Let_def option.map_comp o_def split: option.split)
    next
      case top
      then have "index_of x (ti_creatures t) = None" "index_of x (downItems t) = None" using d by (auto simp: index_of_none)
      then show ?thesis using False top g index_of_none [of x "topItems t"]
        by (auto simp: Tile_getThingIndex_def in_order_def index_of_append Let_def option.map_comp o_def split: option.split)
    next
      case down
      then have "index_of x (ti_creatures t) = None" "index_of x (topItems t) = None" using d by (auto simp: index_of_none)
      then show ?thesis using False down g
        by (cases "index_of x (downItems t)") (auto simp: Tile_getThingIndex_def in_order_def index_of_append Let_def option.map_comp o_def split: option.split)
    qed
  qed
qed

text \<open>C9. Indices and things on a tile correspond: the index told for a thing is where that thing is
  found, and the thing found at an index has that index.\<close>

theorem tile_index_roundtrip:
  assumes "tile_ok ts tile (t, s)"
  shows "Tile_getThingIndex ts s t x = Some n \<longleftrightarrow> Tile_getThing t n = Some x"
proof -
  have "ti_downItemCount t \<le> length (ti_items t)" using assms by (simp add: tile_ok_parts)
  then show ?thesis using parts_distinct [OF assms] index_of_Some [of "in_order t" x n]
    unfolding getThingIndex_list [OF assms] by (auto simp: getThing_list)
qed

end
