(* ===== verification/Tile_View.thy ===== *)
theory Tile_View
  imports Tile_Order
begin

text \<open>
  What is told of a tile: the stack position of an item for a player against the list that the player sees,
  the height of a pile, and a small tile on which the theorems of \<open>Tile_Order\<close> are applied.
\<close>

section \<open>Stack positions\<close>

text \<open>What a player sees: ground, top items, the creatures in sight, down items.\<close>

definition seen_order :: "(nat \<Rightarrow> bool) \<Rightarrow> tile_stack \<Rightarrow> nat list" where
  "seen_order sees t = ground_list t @ topItems t @ filter sees (ti_creatures t) @ downItems t"

definition told :: "nat \<Rightarrow> nat option" where
  "told n = (if n < 10 then Some n else None)"

lemma pos_on_top_index: "n < 10 \<Longrightarrow> pos_on_top item n is = (case index_of item is of None \<Rightarrow> None | Some k \<Rightarrow> told (n + k))"
  by (induction "is" arbitrary: n) (auto simp: told_def split: option.split)

lemma pos_below_index: "n < 10 \<Longrightarrow> pos_below item n is = (case index_of item is of None \<Rightarrow> None | Some k \<Rightarrow> told (n + k))"
  by (induction "is" arbitrary: n) (auto simp: told_def split: option.split)

lemma pass_creatures_count: "n < 10 \<Longrightarrow> pass_creatures sees n cs = told (n + length (filter sees cs))"
  by (induction cs arbitrary: n) (auto simp: told_def)

text \<open>C10. The stack position of an item that a client is told is its place among what that player sees:
  nothing is told for places from ten on, which the client does not hold, and a place below ten is
  told exactly.\<close>

theorem stackpos_is_place_seen:
  assumes "tile_ok ts tile (t, s)" "\<not> is_creature s item"
  shows "getStackposOfItem ts s t sees item =
    (case index_of item (seen_order sees t) of Some n \<Rightarrow> if n < 10 then Some n else None | None \<Rightarrow> None)"
proof (cases "ti_ground t = Some item")
  case True
  then show ?thesis by (simp add: getStackposOfItem_def seen_order_def ground_list_def)
next
  case False
  note d = parts_distinct [OF assms(1)]
  have g: "index_of item (ground_list t) = None" "length (ground_list t) < 10"
    using False by (auto simp: index_of_none ground_list_def split: option.split)
  have c: "index_of item (filter sees (ti_creatures t)) = None" using d assms(2) by (auto simp: index_of_none)
  show ?thesis
  proof (cases "isAlwaysOnTop ts s item")
    case True
    then have "index_of item (downItems t) = None" using d by (auto simp: index_of_none)
    then show ?thesis using False True g c
      by (cases "index_of item (topItems t)")
        (auto simp: getStackposOfItem_def seen_order_def index_of_append Let_def pos_on_top_index told_def split: option.split)
  next
    case top: False
    then have u: "index_of item (topItems t) = None" using d by (auto simp: index_of_none)
    let ?n = "length (ground_list t) + length (topItems t)" and ?m = "length (filter sees (ti_creatures t))"
    have "getStackposOfItem ts s t sees item =
        (if ?n \<ge> 10 then None else case told (?n + ?m) of None \<Rightarrow> None | Some n \<Rightarrow> pos_below item n (downItems t))"
      using False top by (simp add: getStackposOfItem_def Let_def pass_creatures_count)
    then show ?thesis using g c u
      by (cases "index_of item (downItems t)") (auto simp: seen_order_def index_of_append told_def pos_below_index split: option.split)
  qed
qed

section \<open>Height\<close>

lemma height_count: "height < n \<Longrightarrow> height_of high n height is \<longleftrightarrow> n \<le> height + length (filter high is)"
  by (induction "is" arbitrary: height) (auto simp: Let_def)

text \<open>A tile has a height exactly when that many things on it are high, for every height but none.\<close>

theorem hasHeight_counts:
  assumes "0 < n"
  shows "hasHeight ts s n t \<longleftrightarrow>
    n \<le> length (filter (\<lambda>i. item_hasProperty ts s i CONST_PROP_HASHEIGHT) (ground_list t @ ti_items t))"
  using height_count [OF assms] by (simp add: hasHeight_def)

section \<open>Looking\<close>

text \<open>Who looks: nobody in particular, for whom the creatures that are invisible or in ghost mode are
  \<open>hidden\<close>, or a creature with what it sees and whether it is a player with access to all.\<close>

record looking =
  lo_access :: bool
  lo_sees :: "nat \<Rightarrow> bool"

definition getTopCreature :: "tile_stack \<Rightarrow> nat option" where
  "getTopCreature t = (case ti_creatures t of [] \<Rightarrow> None | c # _ \<Rightarrow> Some c)"

definition getBottomCreature :: "tile_stack \<Rightarrow> nat option" where
  "getBottomCreature t = (case ti_creatures t of [] \<Rightarrow> None | cs \<Rightarrow> Some (last cs))"

definition getTopVisibleCreature :: "(nat \<Rightarrow> bool) \<Rightarrow> looking option \<Rightarrow> tile_stack \<Rightarrow> nat option" where
  "getTopVisibleCreature hidden looker t =
     (case looker of
        Some l \<Rightarrow> if lo_access l then getTopCreature t else List.find (lo_sees l) (ti_creatures t)
      | None \<Rightarrow> List.find (\<lambda>c. \<not> hidden c) (ti_creatures t))"

definition getBottomVisibleCreature :: "(nat \<Rightarrow> bool) \<Rightarrow> looking option \<Rightarrow> tile_stack \<Rightarrow> nat option" where
  "getBottomVisibleCreature hidden looker t =
     (case looker of
        Some l \<Rightarrow> if lo_access l then getBottomCreature t else List.find (lo_sees l) (rev (ti_creatures t))
      | None \<Rightarrow> List.find (\<lambda>c. \<not> hidden c) (rev (ti_creatures t)))"

definition getTopDownItem :: "tile_stack \<Rightarrow> nat option" where
  "getTopDownItem t = (if ti_downItemCount t = 0 then None else Some (hd (ti_items t)))"

definition getTopTopItem :: "tile_stack \<Rightarrow> nat option" where
  "getTopTopItem t = (if topItems t = [] then None else Some (last (ti_items t)))"

definition getItemByTopOrder :: "tile_types \<Rightarrow> item_store \<Rightarrow> tile_stack \<Rightarrow> byte \<Rightarrow> nat option" where
  "getItemByTopOrder ts s t topOrder = List.find (\<lambda>i. top_order ts s i = topOrder) (rev (topItems t))"

definition getTopVisibleThing :: "tile_types \<Rightarrow> item_store \<Rightarrow> (nat \<Rightarrow> bool) \<Rightarrow> looking option \<Rightarrow> tile_stack \<Rightarrow> nat option" where
  "getTopVisibleThing ts s hidden looker t =
     (let solid = (\<lambda>i. \<not> sk_lookThrough (stack_type_of ts s i)) in
      case getTopVisibleCreature hidden looker t of
        Some c \<Rightarrow> Some c
      | None \<Rightarrow>
          (case List.find solid (downItems t) of
             Some i \<Rightarrow> Some i
           | None \<Rightarrow> (case List.find solid (rev (topItems t)) of Some i \<Rightarrow> Some i | None \<Rightarrow> ti_ground t)))"

definition isMoveableBlocking :: "tile_stack \<Rightarrow> bool" where
  "isMoveableBlocking t \<longleftrightarrow> ti_ground t = None \<or> hasFlag TILESTATE_BLOCKSOLID t"

definition getUseItem :: "item_store \<Rightarrow> tile_stack \<Rightarrow> nat \<Rightarrow> nat option" where
  "getUseItem s t index =
     (if ti_items t = [] then ti_ground t
      else case Tile_getThing t index of
          Some thing \<Rightarrow> if is_creature s thing then None else Some thing
        | None \<Rightarrow> None)"

datatype zone_type = ZONE_PROTECTION | ZONE_NOPVP | ZONE_PVP | ZONE_NOLOGOUT | ZONE_NORMAL

definition getZone :: "tile_stack \<Rightarrow> zone_type" where
  "getZone t =
     (if hasFlag TILESTATE_PROTECTIONZONE t then ZONE_PROTECTION
      else if hasFlag TILESTATE_NOPVPZONE t then ZONE_NOPVP
      else if hasFlag TILESTATE_PVPZONE t then ZONE_PVP
      else if hasFlag TILESTATE_NOLOGOUT t then ZONE_NOLOGOUT
      else ZONE_NORMAL)"

text \<open>What is used at an index is an item of the tile.\<close>

lemma use_item_there:
  assumes "tile_ok ts tile (t, s)" "getUseItem s t index = Some i"
  shows "i \<in> tile_things t \<and> \<not> is_creature s i"
proof -
  note d = parts_distinct [OF assms(1)]
  have "i \<in> set (in_order t) \<or> ti_ground t = Some i" if "Tile_getThing t index = Some i"
    using that assms(1) by (auto simp: getThing_list tile_ok_parts split: if_splits)
  then have "(i \<in> set (in_order t) \<and> \<not> is_creature s i) \<or> ti_ground t = Some i"
    using assms(2) by (auto simp: getUseItem_def split: if_splits option.splits)
  then show ?thesis using d unfolding tile_things_split by (auto simp: in_order_def ground_list_def split: option.splits)
qed

section \<open>Flags that are lost\<close>

text \<open>The flags of the special items do not count: the first of two mailboxes that goes takes the flag with it.\<close>

theorem mailbox_flag_lost:
  assumes "tile_ok ts tile (t, s)" "ts_class ts i = Mailbox_Item" "i \<in> tile_things t"
    "ts_class ts j = Mailbox_Item" "j \<in> tile_things t" "i \<noteq> j" "\<not> tt_stackable (the_type s i)"
  shows "\<exists>t' s'. Tile_removeThing ts i 1 (t, s) = (t', s') \<and> j \<in> tile_things t' \<and> \<not> hasFlag TILESTATE_MAILBOX t'"
proof -
  obtain t' where t': "Tile_removeThing ts i 1 (t, s) = (t', set_parent i None s)" "tile_things t' = tile_things t - {i}"
    using remove_full [OF assms(1,3), of 1] assms(7) by blast
  have c: "\<not> is_creature s i" using assms(1,3) unfolding tile_ok_parts parts_ok_def tile_things_split by blast
  have lost: "\<not> hasFlag TILESTATE_MAILBOX (resetTileFlags ts s' i u)" for s' u
    using assms(2) unfolding resetTileFlags_def Let_def tile_state_defs by (simp add: hasFlag_bit bit_reset_if)
  have "t' \<noteq> t" using t'(2) assms(3) by auto
  then have "\<exists>u. t' = resetTileFlags ts (set_parent i None s) i u"
    using t'(1) c assms(7) unfolding Tile_removeThing_def Let_def by (auto split: if_splits)
  then show ?thesis using t' lost assms(5,6) by auto
qed

text \<open>A second ground that is loaded is not put anywhere, but has the tile as its parent.\<close>

lemma second_ground_nowhere:
  assumes "\<not> is_creature s i" "sk_ground (stack_type_of ts s i)" "ti_ground t = Some g"
  shows "Tile_internalAddThing ts tile i (t, s) = (t, set_parent i (Some tile) s)"
  using assms by (simp add: Tile_internalAddThing_def Let_def)

end
