(* ===== verification/Tile_Query.thy ===== *)
theory Tile_Query
  imports Tile_View Condition_Types Container_Moves
begin

text \<open>
  What may enter a tile: \<^verbatim>\<open>queryAdd\<close>, \<^verbatim>\<open>queryRemove\<close>,
  \<^verbatim>\<open>queryMaxCount\<close> and \<^verbatim>\<open>queryDestination\<close> of \<^verbatim>\<open>src/src/tile.cpp\<close>, with
  \<^verbatim>\<open>canWalkthrough\<close> of \<^verbatim>\<open>src/src/player.cpp\<close>. What the code asks of a creature is a record of
  the answers.
\<close>

section \<open>Special items\<close>

definition special_item :: "tile_types \<Rightarrow> item_class \<Rightarrow> u32 \<Rightarrow> bool \<Rightarrow> tile_stack \<Rightarrow> nat option" where
  "special_item ts class flag with_ground t =
     (if \<not> hasFlag flag t then None
      else
        case (if with_ground then List.find (\<lambda>i. ts_class ts i = class) (ground_list t) else None) of
          Some g \<Rightarrow> Some g
        | None \<Rightarrow> List.find (\<lambda>i. ts_class ts i = class) (rev (ti_items t)))"

definition getTeleportItem :: "tile_types \<Rightarrow> tile_stack \<Rightarrow> nat option" where
  "getTeleportItem ts = special_item ts Teleport_Item TILESTATE_TELEPORT False"

definition getFieldItem :: "tile_types \<Rightarrow> tile_stack \<Rightarrow> nat option" where
  "getFieldItem ts = special_item ts MagicField_Item TILESTATE_MAGICFIELD True"

definition getTrashHolder :: "tile_types \<Rightarrow> tile_stack \<Rightarrow> nat option" where
  "getTrashHolder ts = special_item ts TrashHolder_Item TILESTATE_TRASHHOLDER True"

definition getMailbox :: "tile_types \<Rightarrow> tile_stack \<Rightarrow> nat option" where
  "getMailbox ts = special_item ts Mailbox_Item TILESTATE_MAILBOX True"

definition getBedItem :: "tile_types \<Rightarrow> tile_stack \<Rightarrow> nat option" where
  "getBedItem ts = special_item ts Bed_Item TILESTATE_BED True"

section \<open>Walking through creatures\<close>

text \<open>A creature on a tile as others see it; \<open>oc_tile\<close> holds the flags of its own tile and whether
  the ground there lets creatures stack, \<open>None\<close> without a ground.\<close>

record other_creature =
  oc_ghostMode :: bool
  oc_player :: bool
  oc_monster :: bool
  oc_pushable :: bool
  oc_playerSummon :: bool
  oc_level :: u32
  oc_tile :: "(u32 \<times> bool option) option"
  oc_pos :: position

record walk_config =
  wc_allow :: bool
  wc_protectionLevel :: u32
  wc_now :: int

record walk_memory =
  wm_attempt :: int
  wm_position :: position

definition canWalkthrough :: "walk_config \<Rightarrow> bool \<Rightarrow> other_creature \<Rightarrow> walk_memory \<Rightarrow> bool \<times> walk_memory" where
  "canWalkthrough cfg access c m =
     (if access \<or> oc_ghostMode c then (True, m)
      else if \<not> oc_player c \<or> \<not> wc_allow cfg then (False, m)
      else
        case oc_tile c of
          None \<Rightarrow> (False, m)
        | Some (flags, walkStack) \<Rightarrow>
            if \<not> hasBitSet TILESTATE_PROTECTIONZONE flags \<and> oc_level c > wc_protectionLevel cfg then (False, m)
            else if walkStack \<noteq> Some True then (False, m)
            else if wc_now cfg - wm_attempt m > 2000 then (False, m\<lparr>wm_attempt := wc_now cfg\<rparr>)
            else if oc_pos c \<noteq> wm_position m then (False, m\<lparr>wm_position := oc_pos c\<rparr>)
            else (True, m\<lparr>wm_position := oc_pos c\<rparr>))"

text \<open>The loop over the creatures of a tile: it stops at the first that cannot be passed.\<close>

fun walk_through :: "walk_config \<Rightarrow> bool \<Rightarrow> other_creature list \<Rightarrow> walk_memory \<Rightarrow> bool \<times> walk_memory" where
  "walk_through cfg access [] m = (True, m)"
| "walk_through cfg access (c # cs) m =
     (case canWalkthrough cfg access c m of
        (False, m) \<Rightarrow> (False, m)
      | (True, m) \<Rightarrow> walk_through cfg access cs m)"

section \<open>Who enters\<close>

record monster_view =
  mv_ghost :: bool
  mv_summon :: bool
  mv_playerMaster :: bool
  mv_masterAttacks :: bool
  mv_pushCreatures :: bool
  mv_pushItems :: bool
  mv_immune :: "combat_type \<Rightarrow> bool"
  mv_condition :: "condition_type \<Rightarrow> bool"

record player_view =
  pv_access :: bool
  pv_placed :: bool
  pv_tile_flags :: "u32 option"
  pv_pzLocked :: bool

datatype entering = Enter_Player player_view | Enter_Monster monster_view | Enter_Duelist | Enter_Npc

definition ghost_passes :: "monster_view \<Rightarrow> tile_stack \<Rightarrow> bool" where
  "ghost_passes m t =
     (mv_ghost m \<and>
      (mv_summon m \<and> \<not> hasFlag TILESTATE_PROTECTIONZONE t \<and> \<not> mv_playerMaster m
       \<or> mv_summon m \<and> mv_playerMaster m \<and> \<not> hasFlag (TILESTATE_FLOORCHANGE OR TILESTATE_TELEPORT) t))"

definition restricted :: u32 where
  "restricted = TILESTATE_PROTECTIONZONE OR TILESTATE_FLOORCHANGE OR TILESTATE_TELEPORT"

text \<open>The part for monsters after the common checks.\<close>

definition query_monster ::
  "tile_types \<Rightarrow> item_store \<Rightarrow> (nat \<Rightarrow> other_creature) \<Rightarrow> monster_view \<Rightarrow> query_flags \<Rightarrow> tile_stack \<Rightarrow> return_value" where
  "query_monster ts s view m q t =
     (let creatures = map view (ti_creatures t) in
      if hasFlag restricted t \<and> (\<not> mv_summon m \<or> mv_masterAttacks m) then RETURNVALUE_NOTPOSSIBLE
      else if mv_pushCreatures m \<and> \<not> mv_summon m
              \<and> list_ex (\<lambda>c. \<not> (oc_player c \<and> oc_ghostMode c) \<and> (\<not> oc_monster c \<or> \<not> oc_pushable c \<or> oc_playerSummon c)) creatures
      then RETURNVALUE_NOTPOSSIBLE
      else if \<not> (mv_pushCreatures m \<and> \<not> mv_summon m) \<and> list_ex (\<lambda>c. \<not> oc_ghostMode c) creatures then RETURNVALUE_NOTENOUGHROOM
      else if hasFlag TILESTATE_IMMOVABLEBLOCKSOLID t then RETURNVALUE_NOTPOSSIBLE
      else if qf_pathfinding q \<and> hasFlag TILESTATE_IMMOVABLENOFIELDBLOCKPATH t then RETURNVALUE_NOTPOSSIBLE
      else if (hasFlag TILESTATE_BLOCKSOLID t \<or> qf_pathfinding q \<and> hasFlag TILESTATE_NOFIELDBLOCKPATH t)
              \<and> \<not> (mv_pushItems m \<or> qf_ignoreBlockItem q) then RETURNVALUE_NOTPOSSIBLE
      else
        case getFieldItem ts t of
          None \<Rightarrow> RETURNVALUE_NOERROR
        | Some field \<Rightarrow>
            if sk_blockSolid (stack_type_of ts s field) then RETURNVALUE_NOERROR
            else
              (let combatType = sk_combatType (stack_type_of ts s field) in
               if mv_immune m combatType then RETURNVALUE_NOERROR
               else if qf_ignoreFieldDamage q
               then (if mv_pushItems m \<or> mv_condition m (DamageToConditionType combatType) then RETURNVALUE_NOERROR
                     else RETURNVALUE_NOTPOSSIBLE)
               else RETURNVALUE_NOTPOSSIBLE))"

text \<open>The zones for a player who is locked out of protection zones; \<open>None\<close> when nothing forbids.\<close>

definition query_zones :: "player_view \<Rightarrow> tile_stack \<Rightarrow> return_value option" where
  "query_zones p t =
     (case (if pv_pzLocked p then pv_tile_flags p else None) of
        None \<Rightarrow> None
      | Some here \<Rightarrow>
          if \<not> hasBitSet TILESTATE_PVPZONE here \<and> hasFlag TILESTATE_PVPZONE t then Some RETURNVALUE_PLAYERISPZLOCKEDENTERPVPZONE
          else if hasBitSet TILESTATE_PVPZONE here \<and> \<not> hasFlag TILESTATE_PVPZONE t then Some RETURNVALUE_PLAYERISPZLOCKEDLEAVEPVPZONE
          else if \<not> hasBitSet TILESTATE_NOPVPZONE here \<and> hasFlag TILESTATE_NOPVPZONE t
                  \<or> \<not> hasBitSet TILESTATE_PROTECTIONZONE here \<and> hasFlag TILESTATE_PROTECTIONZONE t
          then Some RETURNVALUE_PLAYERISPZLOCKED
          else None)"

text \<open>The last checks, for the items on the way.\<close>

definition query_blocking :: "tile_types \<Rightarrow> item_store \<Rightarrow> query_flags \<Rightarrow> tile_stack \<Rightarrow> return_value" where
  "query_blocking ts s q t =
     (if \<not> qf_ignoreBlockItem q then (if hasFlag TILESTATE_BLOCKSOLID t then RETURNVALUE_NOTENOUGHROOM else RETURNVALUE_NOERROR)
      else if list_ex (\<lambda>i. sk_blockSolid (stack_type_of ts s i)
                 \<and> (\<not> tt_moveable (the_type s i) \<or> hasAttribute ITEM_ATTRIBUTE_UNIQUEID (im_data (the_item s i))))
                (ground_list t @ ti_items t)
      then RETURNVALUE_NOTPOSSIBLE
      else RETURNVALUE_NOERROR)"

text \<open>What is asked after the ground: monsters, players, and the others.\<close>

definition query_entering ::
  "tile_types \<Rightarrow> item_store \<Rightarrow> (nat \<Rightarrow> other_creature) \<Rightarrow> walk_config \<Rightarrow> entering \<Rightarrow> query_flags \<Rightarrow> tile_stack \<Rightarrow> walk_memory
     \<Rightarrow> return_value \<times> walk_memory" where
  "query_entering ts s view cfg e q t m =
     (let creatures = map view (ti_creatures t) in
      case e of
        Enter_Monster v \<Rightarrow> (query_monster ts s view v q t, m)
      | Enter_Player p \<Rightarrow>
          (let (pass, m) = (if creatures \<noteq> [] \<and> \<not> qf_ignoreBlockCreature q \<and> \<not> pv_access p
                            then walk_through cfg (pv_access p) creatures m else (True, m)) in
           if \<not> pass then (RETURNVALUE_NOTPOSSIBLE, m)
           else if \<not> pv_placed p \<and> hasFlag TILESTATE_NOLOGOUT t then (RETURNVALUE_NOTPOSSIBLE, m)
           else case query_zones p t of
                  Some r \<Rightarrow> (r, m)
                | None \<Rightarrow> (query_blocking ts s q t, m))
      | _ \<Rightarrow>
          if (case e of Enter_Duelist \<Rightarrow> hasFlag restricted t | _ \<Rightarrow> False) then (RETURNVALUE_NOTPOSSIBLE, m)
          else if \<not> qf_ignoreBlockCreature q \<and> list_ex (\<lambda>c. \<not> oc_ghostMode c) creatures then (RETURNVALUE_NOTENOUGHROOM, m)
          else (query_blocking ts s q t, m))"

definition Tile_queryAdd_creature ::
  "tile_types \<Rightarrow> item_store \<Rightarrow> (nat \<Rightarrow> other_creature) \<Rightarrow> walk_config \<Rightarrow> entering \<Rightarrow> query_flags \<Rightarrow> tile_stack \<Rightarrow> walk_memory
     \<Rightarrow> return_value \<times> walk_memory" where
  "Tile_queryAdd_creature ts s view cfg e q t m =
     (if qf_noLimit q then (RETURNVALUE_NOERROR, m)
      else if qf_pathfinding q \<and> hasFlag (TILESTATE_FLOORCHANGE OR TILESTATE_TELEPORT) t then (RETURNVALUE_NOTPOSSIBLE, m)
      else if (case e of Enter_Monster v \<Rightarrow> ghost_passes v t | _ \<Rightarrow> False) then (RETURNVALUE_NOERROR, m)
      else
        case ti_ground t of
          None \<Rightarrow> (RETURNVALUE_NOTPOSSIBLE, m)
        | Some ground \<Rightarrow>
            if im_id (the_item s ground) = 460 \<and> (case e of Enter_Player _ \<Rightarrow> False | _ \<Rightarrow> True) then (RETURNVALUE_NOTPOSSIBLE, m)
            else query_entering ts s view cfg e q t m)"

section \<open>What items enter\<close>

text \<open>An item on the tile that does not let the new one lie on it.\<close>

definition refuses_item :: "tile_types \<Rightarrow> item_store \<Rightarrow> nat \<Rightarrow> nat \<Rightarrow> bool" where
  "refuses_item ts s item i =
     (let iiType = stack_type_of ts s i; it = stack_type_of ts s item in
      sk_blockSolid iiType \<and> (\<not> sk_allowPickupable iiType \<or> sk_magicField it \<or> sk_blockSolid it)
      \<and> (\<not> tt_pickupable (the_type s item) \<or> \<not> sk_hasHeight iiType \<or> tt_pickupable (the_type s i) \<or> sk_bed iiType))"

definition Tile_queryAdd_item ::
  "tile_types \<Rightarrow> item_store \<Rightarrow> (nat \<Rightarrow> other_creature) \<Rightarrow> nat \<Rightarrow> query_flags \<Rightarrow> tile_stack \<Rightarrow> return_value" where
  "Tile_queryAdd_item ts s view item q t =
     (let it = stack_type_of ts s item; creatures = map view (ti_creatures t) in
      if length (ti_items t) \<ge> 65535 then RETURNVALUE_NOTPOSSIBLE
      else if qf_noLimit q then RETURNVALUE_NOERROR
      else if ti_ground t = None \<and> \<not> sk_hangable it then RETURNVALUE_NOTPOSSIBLE
      else if sk_blockSolid it \<and> \<not> qf_ignoreBlockCreature q \<and> list_ex (\<lambda>c. \<not> oc_ghostMode c) creatures then RETURNVALUE_NOTENOUGHROOM
      else if sk_hangable it \<and> hasFlag TILESTATE_SUPPORTS_HANGABLE t
      then (if list_ex (\<lambda>i. sk_hangable (stack_type_of ts s i)) (ti_items t) then RETURNVALUE_NEEDEXCHANGE else RETURNVALUE_NOERROR)
      else if list_ex (refuses_item ts s item) (ground_list t @ ti_items t) then RETURNVALUE_NOTENOUGHROOM
      else RETURNVALUE_NOERROR)"

definition Tile_queryMaxCount :: "nat \<Rightarrow> return_value \<times> nat" where
  "Tile_queryMaxCount n = (RETURNVALUE_NOERROR, max 1 n)"

definition Tile_queryRemove :: "tile_types \<Rightarrow> item_store \<Rightarrow> nat \<Rightarrow> nat \<Rightarrow> query_flags \<Rightarrow> tile_stack \<Rightarrow> return_value" where
  "Tile_queryRemove ts s thing n q t =
     (if Tile_getThingIndex ts s t thing = None then RETURNVALUE_NOTPOSSIBLE
      else if is_creature s thing then RETURNVALUE_NOTPOSSIBLE
      else if n = 0 \<or> tt_stackable (the_type s thing) \<and> n > unat (item_count s thing) then RETURNVALUE_NOTPOSSIBLE
      else if \<not> tt_moveable (the_type s thing) \<and> \<not> qf_ignoreNotMoveable q then RETURNVALUE_NOTMOVEABLE
      else RETURNVALUE_NOERROR)"

section \<open>Stairs and holes\<close>

text \<open>\<open>getTile\<close> gives the tile at a position as a number and \<open>tile_at\<close> its state.\<close>

definition add_if :: "bool \<Rightarrow> u16 \<Rightarrow> u16 \<Rightarrow> u16" where
  "add_if c d x = (if c then x + d else x)"

definition destination_below :: "(u16 \<Rightarrow> u16 \<Rightarrow> byte \<Rightarrow> nat option) \<Rightarrow> (nat \<Rightarrow> tile_stack) \<Rightarrow> position \<Rightarrow> nat option" where
  "destination_below getTile tile_at p =
     (let dx = pos_x p; dy = pos_y p; dz = pos_z p + 1;
          has = (\<lambda>tile flag. case tile of Some n \<Rightarrow> hasFlag flag (tile_at n) | None \<Rightarrow> False)
      in if has (getTile dx (dy - 1) dz) TILESTATE_FLOORCHANGE_SOUTH_ALT then getTile dx (dy - 2) dz
         else if has (getTile (dx - 1) dy dz) TILESTATE_FLOORCHANGE_EAST_ALT then getTile (dx - 2) dy dz
         else
           case getTile dx dy dz of
             None \<Rightarrow> None
           | Some downTile \<Rightarrow>
               (let f = (\<lambda>flag. hasFlag flag (tile_at downTile));
                    dy = add_if (f TILESTATE_FLOORCHANGE_NORTH) 1 dy;
                    dy = add_if (f TILESTATE_FLOORCHANGE_SOUTH) (- 1) dy;
                    dy = add_if (f TILESTATE_FLOORCHANGE_SOUTH_ALT) (- 2) dy;
                    dx = add_if (f TILESTATE_FLOORCHANGE_EAST) (- 1) dx;
                    dx = add_if (f TILESTATE_FLOORCHANGE_EAST_ALT) (- 2) dx;
                    dx = add_if (f TILESTATE_FLOORCHANGE_WEST) 1 dx
                in getTile dx dy dz))"

definition destination_above :: "(u16 \<Rightarrow> u16 \<Rightarrow> byte \<Rightarrow> nat option) \<Rightarrow> tile_stack \<Rightarrow> nat option" where
  "destination_above getTile t =
     (let p = ti_pos t; dx = pos_x p; dy = pos_y p; dz = pos_z p - 1; f = (\<lambda>flag. hasFlag flag t);
          dy = add_if (f TILESTATE_FLOORCHANGE_NORTH) (- 1) dy;
          dy = add_if (f TILESTATE_FLOORCHANGE_SOUTH) 1 dy;
          dx = add_if (f TILESTATE_FLOORCHANGE_EAST) 1 dx;
          dx = add_if (f TILESTATE_FLOORCHANGE_WEST) (- 1) dx;
          dy = add_if (f TILESTATE_FLOORCHANGE_SOUTH_ALT) 2 dy;
          dx = add_if (f TILESTATE_FLOORCHANGE_EAST_ALT) 2 dx
      in getTile dx dy dz)"

definition Tile_queryDestination ::
  "(u16 \<Rightarrow> u16 \<Rightarrow> byte \<Rightarrow> nat option) \<Rightarrow> (nat \<Rightarrow> tile_stack) \<Rightarrow> nat \<Rightarrow> query_flags \<Rightarrow> nat \<times> nat option \<times> query_flags" where
  "Tile_queryDestination getTile tile_at this q =
     (let t = tile_at this;
          destTile = (if hasFlag TILESTATE_FLOORCHANGE_DOWN t then destination_below getTile tile_at (ti_pos t)
                      else if hasFlag TILESTATE_FLOORCHANGE t then destination_above getTile t
                      else None)
      in case destTile of
           None \<Rightarrow> (this, getTopDownItem t, q)
         | Some d \<Rightarrow> (d, getTopDownItem (tile_at d), q\<lparr>qf_noLimit := True\<rparr>))"

section \<open>What the queries protect\<close>

lemma hasFlag_or: "hasFlag (f OR g) t \<longleftrightarrow> hasFlag f t \<or> hasFlag g t"
proof -
  have "x OR y = 0 \<longleftrightarrow> x = 0 \<and> y = 0" for x y :: u32 by (auto simp: bit_eq_iff bit_or_iff)
  then show ?thesis by (simp add: hasFlag_def hasBitSet_def bit.conj_disj_distrib)
qed

text \<open>Who is let in has passed the checks after the ground, or is a ghost.\<close>

lemma queryAdd_passed:
  assumes "\<not> qf_noLimit q" "fst (Tile_queryAdd_creature ts s view cfg e q t m) = RETURNVALUE_NOERROR"
    "\<not> (case e of Enter_Monster v \<Rightarrow> ghost_passes v t | _ \<Rightarrow> False)"
  shows "ti_ground t \<noteq> None \<and> fst (query_entering ts s view cfg e q t m) = RETURNVALUE_NOERROR"
  using assms(2) unfolding Tile_queryAdd_creature_def if_not_P [OF assms(1)] if_not_P [OF assms(3)]
  by (auto split: option.splits if_splits)

text \<open>C7. Who is kept out whatever the others on the tile are: a wild monster, a duelist and a player
  locked out of protection zones do not get into one from outside, and nothing but a summoned ghost
  stands where there is no ground. Only \<^verbatim>\<open>FLAG_NOLIMIT\<close> passes by all of this.\<close>

theorem queryAdd_protects:
  assumes "\<not> qf_noLimit q" "fst (Tile_queryAdd_creature ts s view cfg e q t m) = RETURNVALUE_NOERROR"
  shows "(case e of
        Enter_Monster v \<Rightarrow> hasFlag TILESTATE_PROTECTIONZONE t \<longrightarrow> mv_summon v
      | Enter_Duelist \<Rightarrow> \<not> hasFlag TILESTATE_PROTECTIONZONE t
      | Enter_Player p \<Rightarrow> \<not> (pv_pzLocked p \<and> hasFlag TILESTATE_PROTECTIONZONE t
            \<and> (\<exists>here. pv_tile_flags p = Some here \<and> \<not> hasBitSet TILESTATE_PROTECTIONZONE here))
      | Enter_Npc \<Rightarrow> True)
    \<and> (ti_ground t = None \<longrightarrow> (\<exists>v. e = Enter_Monster v \<and> mv_ghost v \<and> mv_summon v))"
proof (cases "case e of Enter_Monster v \<Rightarrow> ghost_passes v t | _ \<Rightarrow> False")
  case True
  then show ?thesis by (auto simp: ghost_passes_def split: entering.splits)
next
  case False
  have g: "ti_ground t \<noteq> None" and r: "fst (query_entering ts s view cfg e q t m) = RETURNVALUE_NOERROR"
    using queryAdd_passed [OF assms False] by simp_all
  show ?thesis
  proof (cases e)
    case (Enter_Monster v)
    then have "query_monster ts s view v q t = RETURNVALUE_NOERROR" using r by (simp add: query_entering_def)
    then have "\<not> (hasFlag restricted t \<and> (\<not> mv_summon v \<or> mv_masterAttacks v))"
      unfolding query_monster_def Let_def by (auto split: if_splits)
    then show ?thesis using Enter_Monster g by (auto simp: restricted_def hasFlag_or)
  next
    case (Enter_Player p)
    then have "query_zones p t = None \<or> query_zones p t = Some RETURNVALUE_NOERROR"
      using r by (auto simp: query_entering_def Let_def split: prod.splits if_splits option.splits)
    then have "query_zones p t = None" by (auto simp: query_zones_def split: option.splits if_splits)
    then show ?thesis using Enter_Player g by (auto simp: query_zones_def split: option.splits if_splits)
  next
    case Enter_Duelist
    then have "\<not> hasFlag restricted t" using r by (auto simp: query_entering_def split: if_splits)
    then show ?thesis using Enter_Duelist g by (simp add: restricted_def hasFlag_or)
  next
    case Enter_Npc
    then show ?thesis using g by simp
  qed
qed

lemma query_blocking_solid:
  assumes "query_blocking ts s q t = RETURNVALUE_NOERROR" "qf_ignoreBlockItem q" "i \<in> tile_things t"
  shows "\<not> item_hasProperty ts s i CONST_PROP_IMMOVABLEBLOCKSOLID"
proof -
  have "i \<in> set (ground_list t @ ti_items t)" using assms(3) by (auto simp: tile_things_def)
  moreover have "\<not> list_ex (\<lambda>i. item_hasProperty ts s i CONST_PROP_IMMOVABLEBLOCKSOLID) (ground_list t @ ti_items t)"
    using assms(1,2) by (auto simp: query_blocking_def item_hasProperty_def Let_def split: if_splits)
  ultimately show ?thesis by (auto simp: list_ex_iff)
qed

text \<open>C6. On a tile that has been kept in order by any sequence of changes, a creature that is let in finds
  nothing solid that cannot be moved. It may find something solid that can only if it is a monster that
  pushes items or if the question was asked with \<^verbatim>\<open>FLAG_IGNOREBLOCKITEM\<close>, as the placing of
  creatures does. Two ways in look at no item at all: \<^verbatim>\<open>FLAG_NOLIMIT\<close>, and being a summoned
  ghost where \<open>ghost_passes\<close> holds.\<close>

theorem free_tile_is_free:
  assumes "tile_ok ts tile (t, s)" "flags_ok ts (t, s)" "tile_run ts tile (t, s) (t', s')"
    "fst (Tile_queryAdd_creature ts s' view cfg e q t' m) = RETURNVALUE_NOERROR" "i \<in> tile_things t'"
  shows "qf_noLimit q \<or> (\<exists>v. e = Enter_Monster v \<and> ghost_passes v t')
    \<or> \<not> item_hasProperty ts s' i CONST_PROP_IMMOVABLEBLOCKSOLID
      \<and> (item_hasProperty ts s' i CONST_PROP_BLOCKSOLID
          \<longrightarrow> qf_ignoreBlockItem q \<or> (\<exists>v. e = Enter_Monster v \<and> mv_pushItems v))"
proof (cases "qf_noLimit q \<or> (\<exists>v. e = Enter_Monster v \<and> ghost_passes v t')")
  case False
  then have f: "\<not> qf_noLimit q" "\<not> (case e of Enter_Monster v \<Rightarrow> ghost_passes v t' | _ \<Rightarrow> False)"
    by (auto split: entering.splits)
  note kept = tile_run_ok [OF assms(3,1,2)]
  have flags: "hasFlag TILESTATE_BLOCKSOLID t' \<longleftrightarrow> Tile_hasProperty ts s' t' CONST_PROP_BLOCKSOLID"
    "hasFlag TILESTATE_IMMOVABLEBLOCKSOLID t' \<longleftrightarrow> Tile_hasProperty ts s' t' CONST_PROP_IMMOVABLEBLOCKSOLID"
    using kept by (simp_all add: flags_ok_def blocking_flags_def tile_state_defs hasFlag_bit)
  have free: "\<not> item_hasProperty ts s' i p" if "\<not> Tile_hasProperty ts s' t' p" for p
    using that assms(5) by (auto simp: property_list)
  have movable: "item_hasProperty ts s' i CONST_PROP_IMMOVABLEBLOCKSOLID \<Longrightarrow> item_hasProperty ts s' i CONST_PROP_BLOCKSOLID"
    by (simp add: item_hasProperty_def Let_def)
  have block: "query_blocking ts s' q t' = RETURNVALUE_NOERROR \<Longrightarrow>
      \<not> item_hasProperty ts s' i CONST_PROP_IMMOVABLEBLOCKSOLID
      \<and> (item_hasProperty ts s' i CONST_PROP_BLOCKSOLID \<longrightarrow> qf_ignoreBlockItem q)"
    using free flags(1) movable query_blocking_solid [of ts s' q t' i] assms(5) by (auto simp: query_blocking_def split: if_splits)
  have r: "fst (query_entering ts s' view cfg e q t' m) = RETURNVALUE_NOERROR" using queryAdd_passed [OF f(1) assms(4) f(2)] by simp
  show ?thesis
  proof (cases e)
    case (Enter_Monster v)
    then have q: "query_monster ts s' view v q t' = RETURNVALUE_NOERROR" using r by (simp add: query_entering_def)
    then have "\<not> hasFlag TILESTATE_IMMOVABLEBLOCKSOLID t'" "hasFlag TILESTATE_BLOCKSOLID t' \<longrightarrow> mv_pushItems v \<or> qf_ignoreBlockItem q"
      unfolding query_monster_def Let_def by (auto split: if_splits)
    then show ?thesis using Enter_Monster free flags by auto
  next
    case (Enter_Player p)
    then have "query_zones p t' = Some RETURNVALUE_NOERROR \<or> query_blocking ts s' q t' = RETURNVALUE_NOERROR"
      using r by (auto simp: query_entering_def Let_def split: prod.splits if_splits option.splits)
    then show ?thesis using Enter_Player block by (auto simp: query_zones_def split: option.splits if_splits)
  next
    case Enter_Duelist
    then show ?thesis using r block by (auto simp: query_entering_def Let_def split: if_splits)
  next
    case Enter_Npc
    then show ?thesis using r block by (auto simp: query_entering_def Let_def split: if_splits)
  qed
qed blast

section \<open>Stairs up and down\<close>

text \<open>How far the stairs on a tile lead, from below.\<close>

definition stairs_x :: "tile_stack \<Rightarrow> u16" where
  "stairs_x t = (if hasFlag TILESTATE_FLOORCHANGE_EAST t then 1 else 0) - (if hasFlag TILESTATE_FLOORCHANGE_WEST t then 1 else 0)
     + (if hasFlag TILESTATE_FLOORCHANGE_EAST_ALT t then 2 else 0)"

definition stairs_y :: "tile_stack \<Rightarrow> u16" where
  "stairs_y t = (if hasFlag TILESTATE_FLOORCHANGE_SOUTH t then 1 else 0) - (if hasFlag TILESTATE_FLOORCHANGE_NORTH t then 1 else 0)
     + (if hasFlag TILESTATE_FLOORCHANGE_SOUTH_ALT t then 2 else 0)"

lemma add_if_eq: "add_if c 1 x = x + (if c then 1 else 0)" "add_if c 2 x = x + (if c then 2 else 0)"
  by (simp_all add: add_if_def)

lemma add_if_minus: "add_if c (- 1) x = x - (if c then 1 else 0)" "add_if c (- 2) x = x - (if c then 2 else 0)"
  by (simp_all add: add_if_def)

lemma above: "destination_above getTile t = getTile (pos_x (ti_pos t) + stairs_x t) (pos_y (ti_pos t) + stairs_y t) (pos_z (ti_pos t) - 1)"
  unfolding destination_above_def Let_def add_if_eq add_if_minus stairs_x_def stairs_y_def by (simp only: algebra_simps)

text \<open>C8. Stairs lead opposite ways: from the tile of the stairs a thing goes up to the tile at their
  offset, and from the hole above the stairs it falls to the tile at the opposite offset, so that
  the two ends lie as far from the stairs on either side; whoever is moved so ignores the limits of
  the tile it comes to, and nothing else does.\<close>

theorem stairs_lead_opposite_ways:
  assumes stairs: "hasFlag TILESTATE_FLOORCHANGE (tile_at u)" "\<not> hasFlag TILESTATE_FLOORCHANGE_DOWN (tile_at u)"
    and hole: "hasFlag TILESTATE_FLOORCHANGE_DOWN (tile_at v)"
    and below: "ti_pos (tile_at v) = Position x y z" "ti_pos (tile_at u) = Position x y (z + 1)" "getTile x y (z + 1) = Some u"
    and plain: "\<forall>n. getTile x (y - 1) (z + 1) = Some n \<longrightarrow> \<not> hasFlag TILESTATE_FLOORCHANGE_SOUTH_ALT (tile_at n)"
      "\<forall>n. getTile (x - 1) y (z + 1) = Some n \<longrightarrow> \<not> hasFlag TILESTATE_FLOORCHANGE_EAST_ALT (tile_at n)"
    and ends: "getTile (x + stairs_x (tile_at u)) (y + stairs_y (tile_at u)) z = Some up"
      "getTile (x - stairs_x (tile_at u)) (y - stairs_y (tile_at u)) (z + 1) = Some down"
  shows "Tile_queryDestination getTile tile_at u q = (up, getTopDownItem (tile_at up), q\<lparr>qf_noLimit := True\<rparr>)
    \<and> Tile_queryDestination getTile tile_at v q = (down, getTopDownItem (tile_at down), q\<lparr>qf_noLimit := True\<rparr>)"
proof -
  have "destination_above getTile (tile_at u) = Some up"
    unfolding above using below(2) ends(1) by simp
  moreover have "destination_below getTile tile_at (Position x y z) = Some down"
  proof -
    have s: "\<not> (case getTile x (y - 1) (z + 1) of Some n \<Rightarrow> hasFlag TILESTATE_FLOORCHANGE_SOUTH_ALT (tile_at n) | None \<Rightarrow> False)"
      "\<not> (case getTile (x - 1) y (z + 1) of Some n \<Rightarrow> hasFlag TILESTATE_FLOORCHANGE_EAST_ALT (tile_at n) | None \<Rightarrow> False)"
      using plain by (auto split: option.split)
    have "destination_below getTile tile_at (Position x y z) = getTile (x - stairs_x (tile_at u)) (y - stairs_y (tile_at u)) (z + 1)"
      unfolding destination_below_def Let_def position.sel if_not_P [OF s(1)] if_not_P [OF s(2)] below(3) option.case
        add_if_eq add_if_minus stairs_x_def stairs_y_def by (simp only: algebra_simps)
    then show ?thesis using ends(2) by simp
  qed
  ultimately show ?thesis using stairs hole below(1) by (simp add: Tile_queryDestination_def Let_def)
qed

section \<open>A tile with a wall and two mailboxes\<close>

definition tile_sample_type :: "u16 \<Rightarrow> stack_type" where
  "tile_sample_type n = \<lparr>sk_ground = (n = 1), sk_splash = False, sk_magicField = False, sk_bed = False, sk_alwaysOnTop = (n = 5),
     sk_topOrder = 1, sk_blockSolid = (n = 2), sk_allowPickupable = False, sk_hasHeight = (n = 2), sk_hangable = False, sk_vertical = False,
     sk_horizontal = False, sk_blockPathFind = False, sk_blockProjectile = False, sk_floorChange = 0, sk_replaceable = True,
     sk_combatType = COMBAT_NONE, sk_lookThrough = False\<rparr>"

definition tile_sample_types :: tile_types where
  "tile_sample_types = \<lparr>ts_type = tile_sample_type, ts_class = (\<lambda>i. if i = 13 \<or> i = 14 then Mailbox_Item else Plain_Item)\<rparr>"

text \<open>Number 10 is a ground, 12 a wall, 13 and 14 are mailboxes that lie on the tile 0.\<close>

definition tile_sample_store :: item_store where
  "tile_sample_store = \<lparr>is_type = sample_type,
     is_item = [10 \<mapsto> sample_item 1, 12 \<mapsto> sample_item 2, 13 \<mapsto> sample_item 6, 14 \<mapsto> sample_item 6],
     is_parent = [13 \<mapsto> 0, 14 \<mapsto> 0], is_container = Map.empty, is_player = Map.empty, is_inbox = (\<lambda>_. False), is_house = (\<lambda>_. False)\<rparr>"

definition bare_tile :: tile_stack where
  "bare_tile = \<lparr>ti_ground = None, ti_items = [], ti_downItemCount = 0, ti_creatures = [], ti_flags = 0, ti_pos = Position 10 10 7\<rparr>"

definition post_tile :: tile_stack where
  "post_tile = bare_tile\<lparr>ti_items := [13, 14], ti_downItemCount := 2, ti_flags := TILESTATE_MAILBOX\<rparr>"

definition ground_added :: tile_state where
  "ground_added = Tile_addThing tile_sample_types 0 10 (bare_tile, tile_sample_store)"

definition wall_added :: tile_state where
  "wall_added = Tile_addThing tile_sample_types 0 12 (bare_tile, tile_sample_store)"

lemma bare_ok: "tile_ok ts tile (bare_tile, s)" "flags_ok ts (bare_tile, s)"
  by (simp_all add: tile_ok_def flags_ok_def bare_tile_def ground_list_def downItems_def topItems_def blocking_flags_def Tile_hasProperty_def)

lemma sample_run:
  "tile_run tile_sample_types 0 (bare_tile, tile_sample_store) (fst ground_added, snd ground_added)"
  "tile_run tile_sample_types 0 (bare_tile, tile_sample_store) (fst wall_added, snd wall_added)"
proof -
  have "tile_op tile_sample_types 0 (bare_tile, tile_sample_store) (Tile_addThing tile_sample_types 0 i (bare_tile, tile_sample_store))"
    if "i = 10 \<or> i = 12" for i
    using that by (intro tile_add) (auto simp: bare_tile_def tile_things_def ground_list_def tile_sample_types_def)
  then show "tile_run tile_sample_types 0 (bare_tile, tile_sample_store) (fst ground_added, snd ground_added)"
    "tile_run tile_sample_types 0 (bare_tile, tile_sample_store) (fst wall_added, snd wall_added)"
    unfolding ground_added_def wall_added_def prod.collapse by (blast intro: tile_rest tile_more)+
qed

lemma post_ok: "tile_ok tile_sample_types 0 (post_tile, tile_sample_store)"
  by (simp add: tile_ok_def post_tile_def bare_tile_def ground_list_def downItems_def topItems_def isAlwaysOnTop_def stack_type_of_def
      the_item_def tile_sample_store_def sample_item_def tile_sample_types_def tile_sample_type_def is_creature_def)

lemmas sample_defs = tile_sample_types_def tile_sample_type_def tile_sample_store_def sample_item_def sample_type_def

lemma sample_stack:
  "stack_type_of tile_sample_types tile_sample_store 10 = tile_sample_type 1" "stack_type_of tile_sample_types tile_sample_store 12 = tile_sample_type 2"
  "is_creature tile_sample_store i = (i \<notin> {10, 12, 13, 14})" "the_type tile_sample_store i = sample_type 1"
  "hasAttribute a (im_data (the_item tile_sample_store i)) = False"
  by (auto simp: stack_type_of_def the_item_def the_type_def is_creature_def hasAttribute_def sample_defs)

lemma no_flag: "hasFlag f (t\<lparr>ti_flags := 0\<rparr>) = False" "hasFlag f bare_tile = False" "hasFlag f (bare_tile\<lparr>ti_ground := g\<rparr>) = False"
  by (simp_all add: hasFlag_def hasBitSet_def bare_tile_def)

lemma ground_added_is: "ground_added = (bare_tile\<lparr>ti_ground := Some 10\<rparr>, set_parent 10 (Some 0) tile_sample_store)"
proof -
  have "setTileFlags tile_sample_types (set_parent 10 (Some 0) tile_sample_store) 10 t = t" for t
    unfolding setTileFlags_def Let_def set_if_def item_hasProperty_def store_same sample_stack
    by (simp add: tile_sample_type_def tile_sample_types_def sample_type_def)
  then show ?thesis
    by (simp add: ground_added_def Tile_addThing_def Let_def sample_stack tile_sample_type_def bare_tile_def)
qed

lemma wall_added_is:
  "wall_added = (setFlag TILESTATE_BLOCKSOLID (set_down [12] bare_tile), set_parent 12 (Some 0) tile_sample_store)"
proof -
  have "setTileFlags tile_sample_types (set_parent 12 (Some 0) tile_sample_store) 12 t = setFlag TILESTATE_BLOCKSOLID t" for t
    unfolding setTileFlags_def Let_def set_if_def item_hasProperty_def store_same sample_stack
    by (simp add: tile_sample_type_def tile_sample_types_def sample_type_def)
  then show ?thesis
    by (simp add: wall_added_def Tile_addThing_def Let_def sample_stack tile_sample_type_def bare_tile_def downItems_def)
qed

lemma tile_kept_in_order_witness:
  "hasFlag TILESTATE_BLOCKSOLID (fst wall_added) \<and> Tile_hasProperty tile_sample_types (snd wall_added) (fst wall_added) CONST_PROP_BLOCKSOLID"
proof -
  have "hasFlag TILESTATE_BLOCKSOLID (fst wall_added)"
    unfolding wall_added_is by (simp add: tile_state_defs hasFlag_bit setFlag_def bit_or_iff bit_tile_bit)
  then show ?thesis using tile_kept_in_order [OF bare_ok sample_run(2)] by blast
qed

lemma tile_index_roundtrip_witness:
  "Tile_getThingIndex tile_sample_types tile_sample_store post_tile 14 = Some 1"
proof -
  have "Tile_getThing post_tile 1 = Some 14" by code_simp
  then show ?thesis using tile_index_roundtrip [OF post_ok] by blast
qed

lemma stackpos_is_place_seen_witness:
  "getStackposOfItem tile_sample_types tile_sample_store post_tile (\<lambda>_. True) 14 = Some 1"
  using stackpos_is_place_seen [OF post_ok, of 14 "\<lambda>_. True"]
  by (simp add: is_creature_def tile_sample_store_def seen_order_def post_tile_def bare_tile_def ground_list_def topItems_def downItems_def)

lemma hasHeight_counts_witness: "hasHeight tile_sample_types (snd wall_added) 1 (fst wall_added)"
proof -
  have l: "length (filter (\<lambda>i. item_hasProperty tile_sample_types (snd wall_added) i CONST_PROP_HASHEIGHT)
    (ground_list (fst wall_added) @ ti_items (fst wall_added))) = 1"
    unfolding wall_added_is fst_conv snd_conv store_same
    by (simp add: item_hasProperty_def sample_stack tile_sample_type_def setFlag_def set_down_def bare_tile_def ground_list_def topItems_def)
  show ?thesis unfolding hasHeight_counts [OF zero_less_one] l by (rule order_refl)
qed

lemma mailbox_flag_lost_witness:
  "\<exists>t' s'. Tile_removeThing tile_sample_types 13 1 (post_tile, tile_sample_store) = (t', s') \<and> 14 \<in> tile_things t' \<and> \<not> hasFlag TILESTATE_MAILBOX t'"
  by (rule mailbox_flag_lost [OF post_ok])
    (simp_all add: tile_sample_types_def tile_things_def post_tile_def bare_tile_def ground_list_def the_type_def tile_sample_store_def sample_type_def)

definition sample_walk :: walk_config where
  "sample_walk = \<lparr>wc_allow = True, wc_protectionLevel = 1, wc_now = 0\<rparr>"

definition sample_memory :: walk_memory where
  "sample_memory = \<lparr>wm_attempt = 0, wm_position = Position 0 0 0\<rparr>"

definition sample_view :: "nat \<Rightarrow> other_creature" where
  "sample_view n = \<lparr>oc_ghostMode = False, oc_player = True, oc_monster = False, oc_pushable = True, oc_playerSummon = False, oc_level = 1,
     oc_tile = None, oc_pos = Position 0 0 0\<rparr>"

lemma ground_query:
  "fst (Tile_queryAdd_creature tile_sample_types (snd ground_added) sample_view sample_walk Enter_Duelist no_query_flags (fst ground_added) sample_memory)
    = RETURNVALUE_NOERROR"
  unfolding ground_added_is fst_conv snd_conv
  by (simp add: Tile_queryAdd_creature_def no_query_flags_def query_entering_def query_blocking_def no_flag sample_defs the_item_def)
    (simp add: bare_tile_def)

lemma queryAdd_protects_witness: "\<not> hasFlag TILESTATE_PROTECTIONZONE (fst ground_added)"
proof -
  have "\<not> qf_noLimit no_query_flags" by (simp add: no_query_flags_def)
  then show ?thesis using queryAdd_protects [OF _ ground_query] by simp
qed

lemma free_tile_is_free_witness: "\<not> item_hasProperty tile_sample_types (snd ground_added) 10 CONST_PROP_BLOCKSOLID"
proof -
  have "\<not> qf_noLimit no_query_flags" "\<not> qf_ignoreBlockItem no_query_flags" by (simp_all add: no_query_flags_def)
  moreover have "10 \<in> tile_things (fst ground_added)" unfolding ground_added_is by (simp add: tile_things_def)
  ultimately show ?thesis using free_tile_is_free [OF bare_ok sample_run(1) ground_query] by simp
qed

definition stairs_map :: "u16 \<Rightarrow> u16 \<Rightarrow> byte \<Rightarrow> nat option" where
  "stairs_map x y z = (if (x, y, z) = (5, 5, 7) then Some 0 else if (x, y, z) = (5, 5, 8) then Some 1
     else if (x, y, z) = (5, 4, 7) then Some 2 else if (x, y, z) = (5, 6, 8) then Some 3 else None)"

definition stairs_tile :: "nat \<Rightarrow> tile_stack" where
  "stairs_tile n = bare_tile\<lparr>ti_pos := (if n = 0 then Position 5 5 7 else if n = 1 then Position 5 5 8 else if n = 2 then Position 5 4 7 else Position 5 6 8),
     ti_flags := (if n = 0 then TILESTATE_FLOORCHANGE_DOWN else if n = 1 then TILESTATE_FLOORCHANGE_NORTH else 0)\<rparr>"

lemma stairs_lead_opposite_ways_witness:
  "Tile_queryDestination stairs_map stairs_tile 1 no_query_flags = (2, None, no_query_flags\<lparr>qf_noLimit := True\<rparr>)
    \<and> Tile_queryDestination stairs_map stairs_tile 0 no_query_flags = (3, None, no_query_flags\<lparr>qf_noLimit := True\<rparr>)"
proof -
  have "hasFlag TILESTATE_FLOORCHANGE (stairs_tile 1)" "\<not> hasFlag TILESTATE_FLOORCHANGE_DOWN (stairs_tile 1)"
    "hasFlag TILESTATE_FLOORCHANGE_DOWN (stairs_tile 0)" "ti_pos (stairs_tile 0) = Position 5 5 7" "ti_pos (stairs_tile 1) = Position 5 5 (7 + 1)"
    "stairs_map 5 5 (7 + 1) = Some 1" "stairs_map 5 (5 - 1) (7 + 1) = None" "stairs_map (5 - 1) 5 (7 + 1) = None"
    "stairs_map (5 + stairs_x (stairs_tile 1)) (5 + stairs_y (stairs_tile 1)) 7 = Some 2"
    "stairs_map (5 - stairs_x (stairs_tile 1)) (5 - stairs_y (stairs_tile 1)) (7 + 1) = Some 3"
    by code_simp+
  then have "Tile_queryDestination stairs_map stairs_tile 1 no_query_flags = (2, getTopDownItem (stairs_tile 2), no_query_flags\<lparr>qf_noLimit := True\<rparr>)
    \<and> Tile_queryDestination stairs_map stairs_tile 0 no_query_flags = (3, getTopDownItem (stairs_tile 3), no_query_flags\<lparr>qf_noLimit := True\<rparr>)"
    by (intro stairs_lead_opposite_ways [where x = 5 and y = 5 and z = 7]) simp_all
  then show ?thesis by (simp add: getTopDownItem_def stairs_tile_def bare_tile_def)
qed

end
