(* ===== verification/Spec2Isabelle.thy ===== *)
theory Spec2Isabelle
  imports Connection Position Xtea Checksum Sha1 Token String_Tools Damage
    File_Loader Wildcard_Tree Waiting_List Party Map_Sight Walk_Cache Pathfinding Creature_Map Skills Dispatcher Item_Saving
    Monster_Targets Combat_Area Container_Moves Tile_Query
begin

text \<open>
  A verification development of the game server under \<^verbatim>\<open>src/src\<close>: a client connects over
  TCP, its packets become tasks of one dispatcher thread, and the tasks change a world of players, monsters and
  items on a tile map. Each theory models one part, with the names of the code; this file brings
  them together.

  The parts and their theories:

  \<^item> The network. \<open>Network_Message\<close> is the message buffer (\<^verbatim>\<open>networkmessage.h\<close>,
    \<^verbatim>\<open>networkmessage.cpp\<close>), \<open>Protocol\<close> the headers, the compression and the encryption of
    messages (\<^verbatim>\<open>outputmessage.h\<close>, \<^verbatim>\<open>protocol.cpp\<close>) over the cipher of \<open>Xtea\<close> and the checksum of
    \<open>Checksum\<close>, and \<open>Connection\<close> the state machine of one connection with its outstanding asynchronous operations
    (\<^verbatim>\<open>connection.cpp\<close>). Shown: reads and writes stay inside the buffer, messages and encrypted frames
    come back as they were sent, packets are delivered in order, a closed connection stays closed.
  \<^item> Login. \<open>Sha1\<close> and \<open>Token\<close> (\<^verbatim>\<open>tools.cpp\<close>) against their standards,
    \<open>Waiting_List\<close> (\<^verbatim>\<open>waitlist.cpp\<close>, \<^verbatim>\<open>ban.cpp\<close>), \<open>Wildcard_Tree\<close> (\<^verbatim>\<open>wildcardtree.cpp\<close>) as a set
    of names, \<open>String_Tools\<close>.
  \<^item> The dispatcher. \<open>Dispatcher\<close> (\<^verbatim>\<open>tasks.cpp\<close>) as steps between releases of its lock: an accepted
    task is executed, in order, and no signal is lost.
  \<^item> Files. \<open>File_Loader\<close> (\<^verbatim>\<open>fileloader.cpp\<close>) with the round trip of the node format.
  \<^item> The map. \<open>Position\<close>; \<open>Map_Grid\<close> the quadtree of leaves (\<^verbatim>\<open>map.cpp\<close>); \<open>Spectators\<close> and
    \<open>Creature_Map\<close> the creatures on it, with the invariant that tiles, leaves and caches list the same
    creatures; \<open>Map_Sight\<close> the lines of sight; \<open>Pathfinding\<close> the A* search; \<open>Walk_Cache\<close> the table of walkable tiles
    around a creature (\<^verbatim>\<open>creature.cpp\<close>). \<open>Tile_Stack\<close>, \<open>Tile_Order\<close>, \<open>Tile_View\<close> and \<open>Tile_Query\<close> are the things on
    one tile (\<^verbatim>\<open>tile.cpp\<close>): its vector in two parts and its flags through every change, indices and stack positions,
    who may enter, and where stairs lead.
  \<^item> Players. \<open>Party\<close> (\<^verbatim>\<open>party.cpp\<close>); \<open>Advancement\<close> and \<open>Skills\<close> (\<^verbatim>\<open>player.cpp\<close>): levels and
    tries as one sum that the operations add to or take from.
  \<^item> Items. \<open>Item_Attributes\<close> and \<open>Item_Saving\<close> (\<^verbatim>\<open>item.h\<close>, \<^verbatim>\<open>item.cpp\<close>): attributes as a map and their saved form.
    \<open>Container\<close> and \<open>Container_Moves\<close> (\<^verbatim>\<open>container.cpp\<close>): items inside items, what may be put
    where, and that every change keeps the weights and the parents right.
  \<^item> Monsters and fights. \<open>Monster_Steps\<close> and \<open>Monster_Targets\<close> (\<^verbatim>\<open>monster.cpp\<close>): which steps are taken, whom a
    monster knows and follows, and its references; \<open>Combat_Area\<close> (\<^verbatim>\<open>combat.cpp\<close>) the tiles a spell covers;
    \<open>Damage\<close> and \<open>Condition_Types\<close> the damage types and conditions (\<^verbatim>\<open>enums.h\<close>).

  How the code is modelled. Objects are records, pointers are numbers or positions in a store, containers of
  the standard library are lists, maps or sets by what the code observes of them. Machine integers are words or
  written with their modulus where they can wrap. Undefined behaviour (an access out of bounds, an invalid
  iterator) and thrown exceptions are values: \<open>None\<close> or the left of a sum. Random numbers, clocks, scripts and
  third-party code are arguments. Threads and asynchronous operations are step relations with
  invariants over all reachable states.

  Where the code leaves its own path. A theorem whose plain form fails in some case has this case in its
  conclusion: the tries left after a death above 31 bits, a loaded experience of exactly the next level, saved
  values that come back changed, the bits a tile lets creatures in for although something solid is there, and the eight bytes a
  read may take past the length of a message. The walk cache is right but for the tiles whose last change it was not told of
  (an event it ignores, a change of the creature's conditions, a step to the southeast or southwest).

  Bounds and fuel. Loops are structural recursions, folds, or functions with a measure. Where the
  end of a loop is not obvious (the path search and its walk back, the sight line, the climb along the parents of an item and the iterator of
  containers, the two search loops of the string tools) it is a partial function into an option and the end is a theorem. Sizes that a theorem assumes are far above
  what the protocol or the map can hold: matrices under \<open>2 ^ 30\<close> rows, positions at most 16383 apart for lines of sight.

  Not modelled: the Lua interface and the script events (bindings of a third-party library), the
  database (statements of the MySQL client) and what is loaded through it or through XML, the asio sockets and
  timers beyond their contract in \<open>Connection\<close>, floating point formulas of damage and of the tables of tries
  (parameters), and the game protocol and game commands, which compose the operations modelled
  here with messages to clients.
\<close>

end
